(* ===== verification/Prelude.thy ===== *)
theory Prelude
  imports Complex_Main "HOL-Library.AList" "HOL-Library.Multiset"
begin

text \<open>
  Shared vocabulary of the development: text as lists of code points, byte strings, Python
  slices, dictionaries in insertion order, exceptions as values, and the generic lemmas about
  them that the component theories use.

  A Python \<open>str\<close> is a list of code points (\<open>cp\<close>, a natural number), a \<open>bytes\<close> object a list of
  byte values.  ASCII literals are written \<open>lit ''...''\<close>.  A dictionary is an association list in
  insertion order: \<open>map_of\<close> reads it, \<open>AList.update\<close> stores into it (in place when the key is
  present, at the end otherwise, as Python does) and \<open>AList.delete\<close> removes a key.
\<close>

named_theorems slice_simps \<open>reading slices\<close>
named_theorems res_simps \<open>results of operations that may raise\<close>
named_theorems bound_intros \<open>positions stay inside the text\<close>

subsection \<open>Text and bytes\<close>

type_synonym cp = nat
type_synonym ustr = "cp list"
type_synonym byte = nat
type_synonym bytes = "byte list"

definition lit :: "string \<Rightarrow> ustr" where
  "lit s = map of_char s"

lemma of_char_nat_inject: "(of_char c :: nat) = of_char d \<longleftrightarrow> c = d"
  by (metis char_of_char)

lemma lit_inject [simp]: "lit s = lit t \<longleftrightarrow> s = t"
proof
  assume "lit s = lit t"
  then show "s = t"
    unfolding lit_def
    by (rule map_injective) (simp add: inj_def of_char_nat_inject)
qed simp

lemma lit_Nil [simp]: "lit [] = []"
  by (simp add: lit_def)

lemma lit_eq_Nil [simp]: "lit s = [] \<longleftrightarrow> s = []" "[] = lit s \<longleftrightarrow> s = []"
  by (simp_all add: lit_def)

lemma lit_Cons: "lit (c # cs) = of_char c # lit cs"
  by (simp add: lit_def)

lemma length_lit [simp]: "length (lit s) = length s"
  by (simp add: lit_def)

text \<open>UTF-8: the bytes of a code point, for every length of encoding.\<close>

definition utf8_cp :: "cp \<Rightarrow> bytes" where
  "utf8_cp c =
     (if c < 128 then [c]
      else if c < 2048 then [192 + c div 64, 128 + c mod 64]
      else if c < 65536 then [224 + c div 4096, 128 + c div 64 mod 64, 128 + c mod 64]
      else [240 + c div 262144, 128 + c div 4096 mod 64, 128 + c div 64 mod 64, 128 + c mod 64])"

definition utf8 :: "ustr \<Rightarrow> bytes" where
  "utf8 s = concat (map utf8_cp s)"

lemma utf8_Nil [simp]: "utf8 [] = []"
  by (simp add: utf8_def)

lemma utf8_Cons: "utf8 (c # s) = utf8_cp c @ utf8 s"
  by (simp add: utf8_def)

lemma utf8_append [simp]: "utf8 (s @ t) = utf8 s @ utf8 t"
  by (simp add: utf8_def)

lemma utf8_cp_nonempty [simp]: "utf8_cp c \<noteq> []"
  by (simp add: utf8_cp_def)

text \<open>The first byte decides how many bytes a code point takes, and the bytes give it back.\<close>

lemma div_mod_64_eq:
  fixes c d :: nat
  shows "c mod 64 = d mod 64 \<Longrightarrow> c div 64 = d div 64 \<Longrightarrow> c = d"
  by (metis div_mult_mod_eq)

lemma div_mod_4096_eq:
  fixes c d :: nat
  assumes "c mod 64 = d mod 64" "c div 64 mod 64 = d div 64 mod 64" "c div 4096 = d div 4096"
  shows "c = d"
proof (rule div_mod_64_eq)
  have "c div 64 div 64 = d div 64 div 64"
    using assms(3) by (simp flip: div_mult2_eq)
  then show "c div 64 = d div 64"
    by (rule div_mod_64_eq [OF assms(2)])
qed (rule assms(1))

lemma div_mod_262144_eq:
  fixes c d :: nat
  assumes "c mod 64 = d mod 64" "c div 64 mod 64 = d div 64 mod 64"
    "c div 4096 mod 64 = d div 4096 mod 64" "c div 262144 = d div 262144"
  shows "c = d"
proof (rule div_mod_4096_eq [OF assms(1,2)])
  have "c div 4096 div 64 = d div 4096 div 64"
    using assms(4) by (simp flip: div_mult2_eq)
  then show "c div 4096 = d div 4096"
    by (rule div_mod_64_eq [OF assms(3)])
qed

lemma utf8_cp_prefix_inject:
  assumes "utf8_cp c @ s = utf8_cp d @ t"
  shows "c = d \<and> s = t"
  using assms
  by (auto simp: utf8_cp_def split: if_splits
      dest: div_mod_64_eq div_mod_4096_eq div_mod_262144_eq)

lemma utf8_inject [simp]: "utf8 s = utf8 t \<longleftrightarrow> s = t"
proof
  show "utf8 s = utf8 t \<Longrightarrow> s = t"
  proof (induction s arbitrary: t)
    case Nil
    then show ?case by (cases t) (simp_all add: utf8_Cons)
  next
    case (Cons c s)
    then obtain d t' where t: "t = d # t'"
      by (cases t) (auto simp: utf8_Cons)
    with Cons.prems have "c = d \<and> utf8 s = utf8 t'"
      by (auto simp: utf8_Cons dest: utf8_cp_prefix_inject)
    with Cons.IH t show ?case by simp
  qed
qed simp

lemma length_utf8_ge: "length s \<le> length (utf8 s)"
  by (induction s) (auto simp: utf8_Cons utf8_cp_def)

lemma utf8_ascii: "\<forall>c \<in> set s. c < 128 \<Longrightarrow> utf8 s = s"
  by (induction s) (auto simp: utf8_Cons utf8_cp_def)

subsection \<open>Slices\<close>

text \<open>\<open>s[i:j]\<close> for non-negative \<open>i\<close> and \<open>j\<close>: it truncates, it never raises.\<close>

definition pyslice :: "'a list \<Rightarrow> nat \<Rightarrow> nat \<Rightarrow> 'a list" where
  "pyslice s i j = take (j - i) (drop i s)"

lemma length_pyslice [slice_simps]: "j \<le> length s \<Longrightarrow> length (pyslice s i j) = j - i"
  by (simp add: pyslice_def)

lemma pyslice_full [slice_simps]: "pyslice s 0 (length s) = s"
  by (simp add: pyslice_def)

lemma pyslice_empty [slice_simps]: "j \<le> i \<Longrightarrow> pyslice s i j = []"
  by (simp add: pyslice_def)

lemma pyslice_append:
  "i \<le> j \<Longrightarrow> j \<le> k \<Longrightarrow> pyslice s i j @ pyslice s j k = pyslice s i k"
proof -
  assume "i \<le> j" "j \<le> k"
  then have "k - i = (j - i) + (k - j)" "drop (j - i) (drop i s) = drop j s" by simp_all
  then show ?thesis by (simp add: pyslice_def take_add)
qed

lemma pyslice_slice:
  "pyslice (pyslice s i j) a b = pyslice s (i + a) (min j (i + b))"
proof -
  have "min (b - a) (j - i - a) = min j (i + b) - (i + a)" by arith
  then show ?thesis by (simp add: pyslice_def drop_take add.commute)
qed

lemma pyslice_shift: "pyslice (s @ t) (length s + i) (length s + j) = pyslice t i j"
  by (simp add: pyslice_def)

lemma pyslice_prefix: "j \<le> length s \<Longrightarrow> pyslice (s @ t) i j = pyslice s i j"
  by (simp add: pyslice_def)

lemma nth_pyslice: "i + k < j \<Longrightarrow> j \<le> length s \<Longrightarrow> pyslice s i j ! k = s ! (i + k)"
  by (simp add: pyslice_def)

subsection \<open>Exceptions as values\<close>

text \<open>One constructor per exception class of the code, with the data handlers read from it.\<close>

datatype exn =
    ValueError | TypeError | KeyError | IndexError | UnicodeError | OverflowError | AttributeError
  | PolicyError | TokenCollisionError | CrossTenantAccessError | VaultKeyUnavailableError
  | RestorationOutputTooLargeError | SuspiciousEncodingError string nat | SpanMappingError
  | DetectionError | AgentInputLimitExceeded | PolicyBlockedError ustr | ProviderError nat
  | LocalRoutingViolation | EgressBlockedError | SessionScopeError | UnsafePatternError
  | FilterConfigurationError | StreamProtocolError string | RequestRejected nat string
  | ToolRestorationError string | PatchValidationError | ShellValidationError | OSError | RecursionError

type_synonym 'a res = "exn + 'a"

definition rbind :: "'a res \<Rightarrow> ('a \<Rightarrow> 'b res) \<Rightarrow> 'b res" where
  "rbind m f = (case m of Inl e \<Rightarrow> Inl e | Inr x \<Rightarrow> f x)"

lemma rbind_Inl [simp]: "rbind (Inl e) f = Inl e"
  and rbind_Inr [simp]: "rbind (Inr x) f = f x"
  by (simp_all add: rbind_def)

lemma rbind_eq_Inr [res_simps]: "rbind m f = Inr y \<longleftrightarrow> (\<exists>x. m = Inr x \<and> f x = Inr y)"
  by (cases m) simp_all

lemma rbind_eq_Inl [res_simps]:
  "rbind m f = Inl e \<longleftrightarrow> m = Inl e \<or> (\<exists>x. m = Inr x \<and> f x = Inl e)"
  by (cases m) simp_all

text \<open>A loop that computes one value per element and stops at the first exception.\<close>

fun rmap :: "('a \<Rightarrow> 'b res) \<Rightarrow> 'a list \<Rightarrow> 'b list res" where
  "rmap f [] = Inr []"
| "rmap f (x # xs) = rbind (f x) (\<lambda>y. rbind (rmap f xs) (\<lambda>ys. Inr (y # ys)))"

lemma rmap_Inr_length: "rmap f xs = Inr ys \<Longrightarrow> length ys = length xs"
  by (induction xs arbitrary: ys) (auto simp: res_simps)

lemma rmap_Inr_iff: "rmap f xs = Inr ys \<longleftrightarrow> list_all2 (\<lambda>x y. f x = Inr y) xs ys"
  by (induction xs arbitrary: ys) (auto simp: res_simps list_all2_Cons1)

text \<open>A loop that threads a state and stops at the first exception.\<close>

fun rfold :: "('a \<Rightarrow> 's \<Rightarrow> 's res) \<Rightarrow> 'a list \<Rightarrow> 's \<Rightarrow> 's res" where
  "rfold f [] s = Inr s"
| "rfold f (x # xs) s = rbind (f x s) (rfold f xs)"

lemma rfold_append: "rfold f (xs @ ys) s = rbind (rfold f xs s) (rfold f ys)"
  by (induction xs arbitrary: s) (auto simp: rbind_def split: sum.splits)

lemma rfold_invariant:
  assumes "rfold f xs s = Inr t" and "P s"
    and "\<And>x s t. x \<in> set xs \<Longrightarrow> P s \<Longrightarrow> f x s = Inr t \<Longrightarrow> P t"
  shows "P t"
  using assms by (induction xs arbitrary: s) (auto simp: res_simps)

subsection \<open>Dictionaries\<close>

lemma map_of_AList_update [simp]:
  "map_of (AList.update k v d) = (map_of d)(k \<mapsto> v)"
  by (simp add: update_conv')

definition dict_incr :: "'k \<Rightarrow> nat \<Rightarrow> ('k \<times> nat) list \<Rightarrow> ('k \<times> nat) list" where
  \<comment> \<open>\<open>d[k] = d.get(k, 0) + n\<close>\<close>
  "dict_incr k n d = AList.update k ((case map_of d k of None \<Rightarrow> 0 | Some m \<Rightarrow> m) + n) d"

lemma map_of_dict_incr:
  "map_of (dict_incr k n d) j =
     (if j = k then Some ((case map_of d k of None \<Rightarrow> 0 | Some m \<Rightarrow> m) + n) else map_of d j)"
  by (simp add: dict_incr_def)

lemma dict_incr_nonempty [simp]: "dict_incr k n d \<noteq> []"
  by (cases d) (auto simp: dict_incr_def)

subsection \<open>Sorting by a key that tells elements apart\<close>

lemma sort_key_mset:
  assumes "mset xs = mset ys" "inj_on f (set xs)"
  shows "sort_key f xs = sort_key f ys"
proof -
  have "sort (map f xs) = map f (sort_key f xs)" "sort (map f xs) = map f (sort_key f ys)"
    by (rule properties_for_sort; use assms(1) in simp)+
  then have "map f (sort_key f xs) = map f (sort_key f ys)" by simp
  moreover have "set ys = set xs" using assms(1) by (metis set_mset_mset)
  ultimately show ?thesis
    using assms(2) by (intro map_inj_on [of f]) (simp_all add: inj_on_def)
qed

end
