(* ===== verification/PyText.thy ===== *)
theory PyText
  imports Prelude
begin

text \<open>
  What the code uses of Python's \<open>str\<close> and of the Unicode character database.  The database is
  a data file of the interpreter (\<open>unicodedata\<close> and the \<open>str\<close> predicates read it), so it is a
  parameter: a record \<open>ucd\<close> with one field per query.  \<open>ucd_ascii\<close> states the documented answers
  on ASCII, the only facts the theorems rely on, and \<open>ascii_ucd\<close> is a concrete database with
  exactly those answers.
\<close>

subsection \<open>The character database\<close>

record ucd =
  u_nfkc :: "ustr \<Rightarrow> ustr"           \<comment> \<open>\<open>unicodedata.normalize("NFKC", s)\<close>\<close>
  u_casefold :: "ustr \<Rightarrow> ustr"
  u_upper :: "ustr \<Rightarrow> ustr"
  u_lower :: "ustr \<Rightarrow> ustr"
  u_isspace :: "cp \<Rightarrow> bool"
  u_isalpha :: "cp \<Rightarrow> bool"
  u_isalnum :: "cp \<Rightarrow> bool"
  u_isdigit :: "cp \<Rightarrow> bool"
  u_decimal :: "cp \<Rightarrow> nat option"    \<comment> \<open>\<open>\d\<close> and \<open>int()\<close>: the value of a decimal digit\<close>
  u_category :: "cp \<Rightarrow> string"
  u_combining :: "cp \<Rightarrow> nat"
  u_name :: "cp \<Rightarrow> ustr option"      \<comment> \<open>\<open>unicodedata.name\<close>, \<open>None\<close> where it raises\<close>
  u_ieq :: "cp \<Rightarrow> cp \<Rightarrow> bool"          \<comment> \<open>a pattern character and a text character agree under \<open>re.IGNORECASE\<close>\<close>

definition ascii_lower_cp :: "cp \<Rightarrow> cp" where
  "ascii_lower_cp c = (if 65 \<le> c \<and> c \<le> 90 then c + 32 else c)"

definition ascii_upper_cp :: "cp \<Rightarrow> cp" where
  "ascii_upper_cp c = (if 97 \<le> c \<and> c \<le> 122 then c - 32 else c)"

definition ascii_digit :: "cp \<Rightarrow> bool" where
  "ascii_digit c \<longleftrightarrow> 48 \<le> c \<and> c \<le> 57"

definition ascii_alpha :: "cp \<Rightarrow> bool" where
  "ascii_alpha c \<longleftrightarrow> (65 \<le> c \<and> c \<le> 90) \<or> (97 \<le> c \<and> c \<le> 122)"

definition ascii_space :: "cp \<Rightarrow> bool" where
  "ascii_space c \<longleftrightarrow> (9 \<le> c \<and> c \<le> 13) \<or> (28 \<le> c \<and> c \<le> 32)"

definition ascii_control :: "cp \<Rightarrow> bool" where
  "ascii_control c \<longleftrightarrow> c < 32 \<or> c = 127"

definition ucd_ascii :: "ucd \<Rightarrow> bool" where
  "ucd_ascii U \<longleftrightarrow>
     (\<forall>s. (\<forall>c \<in> set s. c < 128) \<longrightarrow>
        u_nfkc U s = s \<and> u_casefold U s = map ascii_lower_cp s \<and>
        u_lower U s = map ascii_lower_cp s \<and> u_upper U s = map ascii_upper_cp s) \<and>
     (\<forall>c < 128.
        u_isspace U c = ascii_space c \<and> u_isalpha U c = ascii_alpha c \<and>
        u_isalnum U c = (ascii_alpha c \<or> ascii_digit c) \<and> u_isdigit U c = ascii_digit c \<and>
        u_decimal U c = (if ascii_digit c then Some (c - 48) else None) \<and>
        (u_category U c \<in> {''Cf'', ''Cc''}) = ascii_control c \<and> u_combining U c = 0)"

definition ascii_ucd :: ucd where
  "ascii_ucd = \<lparr>u_nfkc = id, u_casefold = map ascii_lower_cp, u_upper = map ascii_upper_cp,
     u_lower = map ascii_lower_cp, u_isspace = ascii_space, u_isalpha = ascii_alpha,
     u_isalnum = (\<lambda>c. ascii_alpha c \<or> ascii_digit c), u_isdigit = ascii_digit,
     u_decimal = (\<lambda>c. if ascii_digit c then Some (c - 48) else None),
     u_category = (\<lambda>c. if ascii_control c then ''Cc'' else ''Ll''), u_combining = (\<lambda>_. 0),
     u_name = (\<lambda>_. Some (lit ''LATIN'')),
     u_ieq = (\<lambda>c d. ascii_lower_cp c = ascii_lower_cp d)\<rparr>"

lemma ucd_ascii_ascii_ucd [simp]: "ucd_ascii ascii_ucd"
  by (simp add: ucd_ascii_def ascii_ucd_def)

lemma ucd_asciiD:
  assumes "ucd_ascii U" and "c < 128"
  shows "u_isspace U c = ascii_space c" "u_isalpha U c = ascii_alpha c"
    "u_isalnum U c = (ascii_alpha c \<or> ascii_digit c)" "u_isdigit U c = ascii_digit c"
    "u_decimal U c = (if ascii_digit c then Some (c - 48) else None)"
    "(u_category U c \<in> {''Cf'', ''Cc''}) = ascii_control c" "u_combining U c = 0"
  using assms by (simp_all add: ucd_ascii_def)

lemma ucd_ascii_nfkc: "ucd_ascii U \<Longrightarrow> \<forall>c \<in> set s. c < 128 \<Longrightarrow> u_nfkc U s = s"
  by (simp add: ucd_ascii_def)

text \<open>\<open>\w\<close> and \<open>\d\<close> of \<open>re\<close> on \<open>str\<close>.\<close>

definition re_word :: "ucd \<Rightarrow> cp \<Rightarrow> bool" where
  "re_word U c \<longleftrightarrow> u_isalnum U c \<or> c = 95"

definition re_digit :: "ucd \<Rightarrow> cp \<Rightarrow> bool" where
  "re_digit U c \<longleftrightarrow> u_decimal U c \<noteq> None"

subsection \<open>String methods\<close>

definition starts_with :: "ustr \<Rightarrow> ustr \<Rightarrow> bool" where
  "starts_with s p \<longleftrightarrow> take (length p) s = p"

definition ends_with :: "ustr \<Rightarrow> ustr \<Rightarrow> bool" where
  "ends_with s p \<longleftrightarrow> length p \<le> length s \<and> drop (length s - length p) s = p"

fun is_infix :: "ustr \<Rightarrow> ustr \<Rightarrow> bool" where
  \<comment> \<open>\<open>p in s\<close>\<close>
  "is_infix p [] \<longleftrightarrow> p = []"
| "is_infix p (c # s) \<longleftrightarrow> starts_with (c # s) p \<or> is_infix p s"

fun py_join :: "'a list \<Rightarrow> 'a list list \<Rightarrow> 'a list" where
  "py_join sep [] = []"
| "py_join sep [x] = x"
| "py_join sep (x # y # zs) = x @ sep @ py_join sep (y # zs)"

text \<open>\<open>s.split()\<close>: the maximal runs of non-space characters.\<close>

function split_ws :: "(cp \<Rightarrow> bool) \<Rightarrow> ustr \<Rightarrow> ustr list" where
  "split_ws sp s =
     (case dropWhile sp s of
        [] \<Rightarrow> []
      | c # t \<Rightarrow> (c # takeWhile (\<lambda>x. \<not> sp x) t) # split_ws sp (dropWhile (\<lambda>x. \<not> sp x) t))"
  by pat_completeness auto
termination
proof (relation "measure (\<lambda>(sp, s). length s)", goal_cases)
  case (2 sp s c t)
  have "length (dropWhile (\<lambda>x. \<not> sp x) t) \<le> length t"
    by (rule length_dropWhile_le)
  moreover have "length (c # t) \<le> length s"
    using length_dropWhile_le [of sp s] 2 by simp
  ultimately show ?case by simp
qed simp

declare split_ws.simps [simp del]

definition strip_ws :: "(cp \<Rightarrow> bool) \<Rightarrow> ustr \<Rightarrow> ustr" where
  "strip_ws sp s = rev (dropWhile sp (rev (dropWhile sp s)))"

text \<open>\<open>s.split(sep)\<close> for a one-character separator, and \<open>s.partition(sep)\<close>.\<close>

fun split_on :: "cp \<Rightarrow> ustr \<Rightarrow> ustr list" where
  "split_on d [] = [[]]"
| "split_on d (c # s) =
     (if c = d then [] # split_on d s
      else case split_on d s of [] \<Rightarrow> [[c]] | w # ws \<Rightarrow> (c # w) # ws)"

definition partition_on :: "cp \<Rightarrow> ustr \<Rightarrow> ustr \<times> bool \<times> ustr" where
  \<comment> \<open>head, whether the separator was found, tail\<close>
  "partition_on d s =
     (case dropWhile (\<lambda>c. c \<noteq> d) s of
        [] \<Rightarrow> (s, False, [])
      | _ # t \<Rightarrow> (takeWhile (\<lambda>c. c \<noteq> d) s, True, t))"

lemma split_on_nonempty [simp]: "split_on d s \<noteq> []"
  by (induction s) (auto split: list.splits)

text \<open>\<open>str(n)\<close> for a non-negative integer, and its value again.\<close>

fun dec_nat :: "nat \<Rightarrow> ustr" where
  "dec_nat n = (if n < 10 then [48 + n] else dec_nat (n div 10) @ [48 + n mod 10])"

declare dec_nat.simps [simp del]

definition undec :: "ustr \<Rightarrow> nat" where
  "undec s = foldl (\<lambda>a c. 10 * a + (c - 48)) 0 s"

lemma dec_nat_digits: "\<forall>c \<in> set (dec_nat n). ascii_digit c"
proof (induction n rule: dec_nat.induct)
  case (1 n)
  then show ?case
    by (subst dec_nat.simps) (auto simp: ascii_digit_def)
qed

lemma dec_nat_nonempty [simp]: "dec_nat n \<noteq> []"
  by (subst dec_nat.simps) simp

lemma undec_dec_nat [simp]: "undec (dec_nat n) = n"
proof (induction n rule: dec_nat.induct)
  case (1 n)
  then show ?case
    by (subst dec_nat.simps) (auto simp: undec_def)
qed

lemma dec_nat_inject [simp]: "dec_nat m = dec_nat n \<longleftrightarrow> m = n"
  by (metis undec_dec_nat)

definition py_str_int :: "int \<Rightarrow> ustr" where
  "py_str_int i = (if i < 0 then 45 # dec_nat (nat (- i)) else dec_nat (nat i))"

text \<open>\<open>bytes.hex()\<close>\<close>

definition hex_digit :: "nat \<Rightarrow> cp" where
  "hex_digit n = (if n < 10 then 48 + n else 87 + n)"

definition hex_byte :: "byte \<Rightarrow> ustr" where
  "hex_byte b = [hex_digit (b div 16 mod 16), hex_digit (b mod 16)]"

definition hex_bytes :: "bytes \<Rightarrow> ustr" where
  "hex_bytes bs = concat (map hex_byte bs)"

definition is_lower_hex :: "cp \<Rightarrow> bool" where
  "is_lower_hex c \<longleftrightarrow> (48 \<le> c \<and> c \<le> 57) \<or> (97 \<le> c \<and> c \<le> 102)"

lemma length_hex_bytes [simp]: "length (hex_bytes bs) = 2 * length bs"
  by (induction bs) (auto simp: hex_bytes_def hex_byte_def)

lemma hex_digit_lower: "n < 16 \<Longrightarrow> is_lower_hex (hex_digit n)"
  by (auto simp: hex_digit_def is_lower_hex_def)

lemma hex_bytes_lower: "\<forall>c \<in> set (hex_bytes bs). is_lower_hex c"
  by (auto simp: hex_bytes_def hex_byte_def intro!: hex_digit_lower)

lemma hex_digit_inject: "m < 16 \<Longrightarrow> n < 16 \<Longrightarrow> hex_digit m = hex_digit n \<Longrightarrow> m = n"
  by (auto simp: hex_digit_def split: if_splits)

lemma hex_byte_inject:
  assumes "hex_byte a = hex_byte b" "a < 256" "b < 256" shows "a = b"
proof -
  have d: "hex_digit (a div 16 mod 16) = hex_digit (b div 16 mod 16)"
    and m: "hex_digit (a mod 16) = hex_digit (b mod 16)"
    using assms(1) by (simp_all add: hex_byte_def)
  have "a div 16 mod 16 = b div 16 mod 16"
    by (rule hex_digit_inject [OF _ _ d]) simp_all
  then have "a div 16 = b div 16"
    using assms(2,3) by simp
  moreover have "a mod 16 = b mod 16"
    by (rule hex_digit_inject [OF _ _ m]) simp_all
  ultimately show ?thesis by (metis div_mult_mod_eq)
qed

lemma hex_bytes_inject:
  "hex_bytes a = hex_bytes b \<Longrightarrow> \<forall>x \<in> set a. x < 256 \<Longrightarrow> \<forall>x \<in> set b. x < 256 \<Longrightarrow> a = b"
proof (induction a arbitrary: b)
  case Nil
  then show ?case by (cases b) (auto simp: hex_bytes_def hex_byte_def)
next
  case (Cons x a)
  then obtain y b' where b: "b = y # b'"
    by (cases b) (auto simp: hex_bytes_def hex_byte_def)
  with Cons.prems have "hex_byte x = hex_byte y" "hex_bytes a = hex_bytes b'"
    by (simp_all add: hex_bytes_def hex_byte_def)
  with Cons b show ?case by (auto dest: hex_byte_inject)
qed

end
