(* ===== verification/PyVal.thy ===== *)
theory PyVal
  imports PyText
begin

text \<open>
  Values of unknown type: what the code annotates as \<open>Any\<close> and receives from a JSON body or a YAML
  document.  A dictionary is an association list in insertion order; keys are compared as strings are.
  Floats are exact rationals with the three special values.
\<close>

datatype pyfloat = Fin rat | PosInf | NegInf | NaN

datatype pyval =
    PNone | PBool bool | PInt int | PFloat pyfloat | PStr ustr
  | PList "pyval list" | PDict "(pyval \<times> pyval) list"

fun truthy :: "pyval \<Rightarrow> bool" where
  \<comment> \<open>\<open>bool(v)\<close>\<close>
  "truthy PNone \<longleftrightarrow> False"
| "truthy (PBool b) \<longleftrightarrow> b"
| "truthy (PInt i) \<longleftrightarrow> i \<noteq> 0"
| "truthy (PFloat f) \<longleftrightarrow> f \<noteq> Fin 0"
| "truthy (PStr s) \<longleftrightarrow> s \<noteq> []"
| "truthy (PList xs) \<longleftrightarrow> xs \<noteq> []"
| "truthy (PDict d) \<longleftrightarrow> d \<noteq> []"

definition py_or :: "pyval \<Rightarrow> pyval \<Rightarrow> pyval" where
  "py_or a b = (if truthy a then a else b)"

type_synonym pydict = "(pyval \<times> pyval) list"

definition pd_get :: "pydict \<Rightarrow> string \<Rightarrow> pyval option" where
  "pd_get d k = map_of d (PStr (lit k))"

definition pd_get_or :: "pydict \<Rightarrow> string \<Rightarrow> pyval \<Rightarrow> pyval" where
  \<comment> \<open>\<open>d.get(k, v)\<close>\<close>
  "pd_get_or d k v = (case pd_get d k of Some x \<Rightarrow> x | None \<Rightarrow> v)"

definition pd_set :: "string \<Rightarrow> pyval \<Rightarrow> pydict \<Rightarrow> pydict" where
  "pd_set k v d = AList.update (PStr (lit k)) v d"

lemma pd_get_set [simp]: "pd_get (pd_set k v d) j = (if j = k then Some v else pd_get d j)"
  by (simp add: pd_get_def pd_set_def)

fun py_unstr :: "pyval \<Rightarrow> ustr option" where
  "py_unstr (PStr s) = Some s"
| "py_unstr _ = None"

lemma py_unstr_Some [simp]: "py_unstr v = Some s \<longleftrightarrow> v = PStr s"
  by (cases v) simp_all

subsection \<open>Numbers\<close>

text \<open>\<open>float(n)\<close> overflows from \<open>2 ** 1024 - 2 ** 970\<close> on.\<close>

definition float_limit :: int where
  "float_limit = 2 ^ 1024 - 2 ^ 970"

fun py_float :: "pyval \<Rightarrow> pyfloat res" where
  \<comment> \<open>\<open>float(v)\<close> for the numeric types\<close>
  "py_float (PInt i) = (if \<bar>i\<bar> < float_limit then Inr (Fin (of_int i)) else Inl OverflowError)"
| "py_float (PBool b) = Inr (Fin (if b then 1 else 0))"
| "py_float (PFloat f) = Inr f"
| "py_float _ = Inl TypeError"

text \<open>\<open>int(s)\<close> of a string: white space around, a sign, digits with single underscores between them.\<close>

fun digit_groups :: "ucd \<Rightarrow> bool \<Rightarrow> nat \<Rightarrow> ustr \<Rightarrow> nat option" where
  \<comment> \<open>the flag says that a digit was just read\<close>
  "digit_groups U ok n [] = (if ok then Some n else None)"
| "digit_groups U ok n (c # cs) =
     (if c = 95 then (if ok then digit_groups U False n cs else None)
      else case u_decimal U c of
        Some d \<Rightarrow> digit_groups U True (10 * n + d) cs
      | None \<Rightarrow> None)"

definition py_int_str :: "ucd \<Rightarrow> ustr \<Rightarrow> int res" where
  "py_int_str U s =
     (let t = strip_ws (u_isspace U) s;
          (neg, digits) = (case t of c # r \<Rightarrow> if c = 45 then (True, r) else if c = 43 then (False, r) else (False, t)
                           | [] \<Rightarrow> (False, []))
      in case digit_groups U False 0 digits of
           Some n \<Rightarrow> Inr (if neg then - int n else int n)
         | None \<Rightarrow> Inl ValueError)"

fun py_int :: "ucd \<Rightarrow> pyval \<Rightarrow> int res" where
  \<comment> \<open>\<open>int(v)\<close>\<close>
  "py_int U (PInt i) = Inr i"
| "py_int U (PBool b) = Inr (if b then 1 else 0)"
| "py_int U (PFloat (Fin q)) = Inr (if 0 \<le> q then \<lfloor>q\<rfloor> else \<lceil>q\<rceil>)"
| "py_int U (PFloat NaN) = Inl ValueError"
| "py_int U (PFloat _) = Inl OverflowError"
| "py_int U (PStr s) = py_int_str U s"
| "py_int U _ = Inl TypeError"

text \<open>\<open>str(v)\<close>; the texts of floats, lists and dictionaries are the parameter \<open>show\<close>.\<close>

fun py_str :: "(pyval \<Rightarrow> ustr) \<Rightarrow> pyval \<Rightarrow> ustr" where
  "py_str show PNone = lit ''None''"
| "py_str show (PBool b) = lit (if b then ''True'' else ''False'')"
| "py_str show (PInt i) = py_str_int i"
| "py_str show (PStr s) = s"
| "py_str show v = show v"

end
