(* ===== verification/Domain.thy ===== *)
theory Domain
  imports PyVal
begin

text \<open>
  The domain model of \<^verbatim>\<open>gateway/domain.py\<close>: detected spans, the four policy actions, the request
  context every vault operation is keyed on, policy decisions, and the result of inspection.
  Scores are exact rationals; the code only compares them.
\<close>

subsection \<open>Confidence and spans\<close>

definition conf_certain :: rat where "conf_certain = 1"
definition conf_high :: rat where "conf_high = 85/100"
definition conf_medium :: rat where "conf_medium = 6/10"
definition conf_low :: rat where "conf_low = 35/100"

record span =
  sp_start :: nat
  sp_end :: nat
  sp_type :: ustr
  sp_text :: ustr
  sp_score :: rat
  sp_detector :: ustr

text \<open>\<open>__post_init__\<close>: the bounds are ordered and the text has their length.\<close>

definition span_ok :: "span \<Rightarrow> bool" where
  "span_ok s \<longleftrightarrow> sp_start s \<le> sp_end s \<and> length (sp_text s) = sp_end s - sp_start s"

definition mk_span :: "int \<Rightarrow> int \<Rightarrow> ustr \<Rightarrow> ustr \<Rightarrow> rat \<Rightarrow> ustr \<Rightarrow> span res" where
  "mk_span st en ty tx sc d =
     (if st < 0 \<or> en < st then Inl ValueError
      else if int (length tx) \<noteq> en - st then Inl ValueError
      else Inr \<lparr>sp_start = nat st, sp_end = nat en, sp_type = ty, sp_text = tx,
                sp_score = sc, sp_detector = d\<rparr>)"

definition sp_length :: "span \<Rightarrow> nat" where
  "sp_length s = sp_end s - sp_start s"

definition overlaps :: "span \<Rightarrow> span \<Rightarrow> bool" where
  "overlaps a b \<longleftrightarrow> \<not> (sp_end a \<le> sp_start b \<or> sp_end b \<le> sp_start a)"

definition sp_contains :: "span \<Rightarrow> span \<Rightarrow> bool" where
  "sp_contains a b \<longleftrightarrow> sp_start a \<le> sp_start b \<and> sp_end b \<le> sp_end a"

lemma mk_span_ok: "mk_span st en ty tx sc d = Inr s \<Longrightarrow> span_ok s"
  by (auto simp: mk_span_def span_ok_def split: if_splits)

lemma mk_span_nat:
  "mk_span (int i) (int j) ty tx sc d =
     (if i \<le> j \<and> length tx = j - i
      then Inr \<lparr>sp_start = i, sp_end = j, sp_type = ty, sp_text = tx, sp_score = sc, sp_detector = d\<rparr>
      else Inl ValueError)"
  by (auto simp: mk_span_def)

lemma overlaps_sym: "overlaps a b \<longleftrightarrow> overlaps b a"
  by (auto simp: overlaps_def)

text \<open>A span that describes a slice of a text.\<close>

definition span_of :: "ustr \<Rightarrow> span \<Rightarrow> bool" where
  "span_of text s \<longleftrightarrow> sp_start s \<le> sp_end s \<and> sp_end s \<le> length text
     \<and> sp_text s = pyslice text (sp_start s) (sp_end s)"

lemma span_of_ok: "span_of text s \<Longrightarrow> span_ok s"
  by (auto simp: span_of_def span_ok_def length_pyslice)

subsection \<open>Actions, contexts and decisions\<close>

datatype action = ALLOW | TRANSFORM | ROUTE_LOCAL | BLOCK

fun action_value :: "action \<Rightarrow> ustr" where
  "action_value ALLOW = lit ''allow''"
| "action_value TRANSFORM = lit ''transform''"
| "action_value ROUTE_LOCAL = lit ''route_local''"
| "action_value BLOCK = lit ''block''"

definition parse_action :: "ustr \<Rightarrow> action res" where
  \<comment> \<open>\<open>Action(value)\<close>\<close>
  "parse_action s =
     (if s = lit ''allow'' then Inr ALLOW
      else if s = lit ''transform'' then Inr TRANSFORM
      else if s = lit ''route_local'' then Inr ROUTE_LOCAL
      else if s = lit ''block'' then Inr BLOCK
      else Inl ValueError)"

lemma parse_action_value [simp]: "parse_action (action_value a) = Inr a"
  by (cases a) (simp_all add: parse_action_def)

lemma parse_action_Inr: "parse_action s = Inr a \<Longrightarrow> action_value a = s"
  by (auto simp: parse_action_def split: if_splits)

record req_context =
  tenant_id :: ustr
  conversation_id :: ustr
  request_id :: ustr
  api_key_id :: ustr
  application :: ustr

definition mk_context :: "ustr \<Rightarrow> ustr \<Rightarrow> ustr \<Rightarrow> ustr \<Rightarrow> ustr \<Rightarrow> req_context res" where
  "mk_context t c r k a =
     (if t = [] \<or> c = [] \<or> r = [] \<or> k = [] then Inl ValueError
      else Inr \<lparr>tenant_id = t, conversation_id = c, request_id = r, api_key_id = k,
                application = a\<rparr>)"

text \<open>
  The reason of a decision is a message to a reader; its three forms are kept as a datatype with the
  values each message interpolates.  A destination is a value of unknown type: the policy loader
  takes it from the document unchecked.
\<close>

datatype reason =
    Matched_rule ustr int
  | Fail_closed
  | Moved_local ustr ustr action pyval

record decision =
  d_action :: action
  d_destination :: pyval
  d_rule_name :: ustr
  d_policy_version :: ustr
  d_matched :: "ustr list"
  d_reason :: reason

subsection \<open>Inspection results\<close>

record inspection =
  i_spans :: "span list"

fun entity_counts_of :: "span list \<Rightarrow> (ustr \<times> nat) list \<Rightarrow> (ustr \<times> nat) list" where
  "entity_counts_of [] counts = counts"
| "entity_counts_of (s # ss) counts = entity_counts_of ss (dict_incr (sp_type s) 1 counts)"

definition entity_counts :: "inspection \<Rightarrow> (ustr \<times> nat) list" where
  "entity_counts r = entity_counts_of (i_spans r) []"

definition entity_types :: "inspection \<Rightarrow> ustr list" where
  "entity_types r = remdups (map sp_type (i_spans r))"

lemma entity_counts_of_lookup:
  "map_of (entity_counts_of ss counts) t =
     (let n = length (filter (\<lambda>s. sp_type s = t) ss)
      in if n = 0 then map_of counts t
         else Some ((case map_of counts t of None \<Rightarrow> 0 | Some m \<Rightarrow> m) + n))"
  by (induction ss arbitrary: counts) (auto simp: map_of_dict_incr Let_def)

lemma entity_counts_of_nonempty: "counts \<noteq> [] \<Longrightarrow> entity_counts_of ss counts \<noteq> []"
  by (induction ss arbitrary: counts) auto

lemma entity_counts_empty_iff: "entity_counts r = [] \<longleftrightarrow> i_spans r = []"
  by (cases "i_spans r") (auto simp: entity_counts_def entity_counts_of_nonempty)

end
