(* ===== verification/Regex.thy ===== *)
theory Regex
  imports Prelude
begin

text \<open>
  The part of Python's \<open>re\<close> module the code uses, as an interpreter over an abstract syntax of
  patterns.  \<open>rm r s i g\<close> lists every way pattern \<open>r\<close> can match \<open>s\<close> from position \<open>i\<close>, in the order
  a backtracking matcher tries them, as end position and captured groups; the first entry is the
  match Python reports.  \<open>finditer\<close> is the left-to-right scan, with the rule that an empty match
  is not reported again at the same position.  A pattern of the code is written down as a term of
  type \<open>re\<close>, operator by operator.
\<close>

subsection \<open>Patterns\<close>

type_synonym groups = "(nat \<times> nat \<times> nat) list"

datatype re =
    RSet "cp \<Rightarrow> bool"              \<comment> \<open>one character of a class\<close>
  | REps
  | RSeq re re
  | RAlt re re
  | RRep bool nat "nat option" re    \<comment> \<open>greedy?, least and greatest number of repetitions\<close>
  | RGrp nat re                      \<comment> \<open>capturing group\<close>
  | RBound "cp \<Rightarrow> bool"            \<comment> \<open>\<open>\b\<close> for the given notion of word character\<close>
  | RNotBehind "cp \<Rightarrow> bool"        \<comment> \<open>\<open>(?<![...])\<close>\<close>
  | RNotAhead re                     \<comment> \<open>\<open>(?!...)\<close>\<close>
  | REnd                             \<comment> \<open>\<open>\Z\<close>\<close>

definition RChr :: "cp \<Rightarrow> re" where
  "RChr c = RSet (\<lambda>d. d = c)"

fun RStr :: "ustr \<Rightarrow> re" where
  "RStr [] = REps"
| "RStr (c # s) = RSeq (RChr c) (RStr s)"

fun RSeqs :: "re list \<Rightarrow> re" where
  "RSeqs [] = REps"
| "RSeqs (r # rs) = RSeq r (RSeqs rs)"

fun RAlts :: "re list \<Rightarrow> re" where
  "RAlts [] = RSet (\<lambda>_. False)"
| "RAlts [r] = r"
| "RAlts (r # rs) = RAlt r (RAlts rs)"

abbreviation ROpt :: "re \<Rightarrow> re" where
  "ROpt r \<equiv> RRep True 0 (Some 1) r"

abbreviation RStar :: "re \<Rightarrow> re" where
  "RStar r \<equiv> RRep True 0 None r"

abbreviation RPlus :: "re \<Rightarrow> re" where
  "RPlus r \<equiv> RRep True 1 None r"

abbreviation RTimes :: "nat \<Rightarrow> re \<Rightarrow> re" where
  "RTimes n r \<equiv> RRep True n (Some n) r"

abbreviation RBetween :: "nat \<Rightarrow> nat \<Rightarrow> re \<Rightarrow> re" where
  "RBetween m n r \<equiv> RRep True m (Some n) r"

subsection \<open>Matching at a position\<close>

text \<open>
  Repetition of a matcher \<open>f\<close>.  An iteration past the minimum that consumes nothing is not
  repeated, so \<open>length s\<close> plus the minimum bounds the number of iterations and the fuel below is
  always enough.
\<close>

fun rep :: "(nat \<Rightarrow> groups \<Rightarrow> (nat \<times> groups) list) \<Rightarrow> bool \<Rightarrow> nat \<Rightarrow> nat option \<Rightarrow> nat
    \<Rightarrow> nat \<times> groups \<Rightarrow> (nat \<times> groups) list" where
  "rep f greedy lo hi 0 (i, g) = (if lo = 0 then [(i, g)] else [])"
| "rep f greedy lo hi (Suc fuel) (i, g) =
     (let more = (if hi = Some 0 then []
                  else concat (map (\<lambda>(j, g'). if i < j \<or> 0 < lo
                                      then rep f greedy (lo - 1) (map_option (\<lambda>h. h - 1) hi) fuel (j, g')
                                      else [])
                               (f i g)));
          stop = (if lo = 0 then [(i, g)] else [])
      in if greedy then more @ stop else stop @ more)"

definition word_boundary :: "(cp \<Rightarrow> bool) \<Rightarrow> ustr \<Rightarrow> nat \<Rightarrow> bool" where
  "word_boundary w s i \<longleftrightarrow>
     (0 < i \<and> i \<le> length s \<and> w (s ! (i - 1))) \<noteq> (i < length s \<and> w (s ! i))"

primrec rm :: "re \<Rightarrow> ustr \<Rightarrow> nat \<Rightarrow> groups \<Rightarrow> (nat \<times> groups) list" where
  "rm (RSet p) s = (\<lambda>i g. if i < length s \<and> p (s ! i) then [(Suc i, g)] else [])"
| "rm REps s = (\<lambda>i g. [(i, g)])"
| "rm (RSeq a b) s = (\<lambda>i g. concat (map (\<lambda>(j, g'). rm b s j g') (rm a s i g)))"
| "rm (RAlt a b) s = (\<lambda>i g. rm a s i g @ rm b s i g)"
| "rm (RRep greedy lo hi a) s = (\<lambda>i g. rep (rm a s) greedy lo hi (lo + length s - i) (i, g))"
| "rm (RGrp n a) s = (\<lambda>i g. map (\<lambda>(j, g'). (j, (n, i, j) # g')) (rm a s i g))"
| "rm (RBound w) s = (\<lambda>i g. if word_boundary w s i then [(i, g)] else [])"
| "rm (RNotBehind p) s = (\<lambda>i g. if 0 < i \<and> i \<le> length s \<and> p (s ! (i - 1)) then [] else [(i, g)])"
| "rm (RNotAhead a) s = (\<lambda>i g. if rm a s i g = [] then [(i, g)] else [])"
| "rm REnd s = (\<lambda>i g. if i = length s then [(i, g)] else [])"

subsection \<open>Scanning\<close>

text \<open>\<open>advance\<close> forbids an empty match at this very position (after an empty match ended here).\<close>

definition match_at :: "re \<Rightarrow> ustr \<Rightarrow> nat \<Rightarrow> bool \<Rightarrow> (nat \<times> groups) option" where
  "match_at r s i advance =
     (case filter (\<lambda>(j, g). \<not> advance \<or> j \<noteq> i) (rm r s i []) of [] \<Rightarrow> None | m # _ \<Rightarrow> Some m)"

text \<open>A match object: start, end and groups.\<close>

type_synonym rmatch = "nat \<times> nat \<times> groups"

function search_from :: "re \<Rightarrow> ustr \<Rightarrow> nat \<Rightarrow> bool \<Rightarrow> rmatch option" where
  "search_from r s i advance =
     (if length s < i then None
      else case match_at r s i advance of
             Some (j, g) \<Rightarrow> Some (i, j, g)
           | None \<Rightarrow> search_from r s (Suc i) False)"
  by pat_completeness auto
termination
  by (relation "measure (\<lambda>(r, s, i, a). Suc (length s) - i)") auto

declare search_from.simps [simp del]

definition re_search :: "re \<Rightarrow> ustr \<Rightarrow> rmatch option" where
  "re_search r s = search_from r s 0 False"

definition re_matches :: "re \<Rightarrow> ustr \<Rightarrow> bool" where
  \<comment> \<open>\<open>bool(pattern.search(s))\<close>\<close>
  "re_matches r s \<longleftrightarrow> re_search r s \<noteq> None"

definition re_fullmatch :: "re \<Rightarrow> ustr \<Rightarrow> groups option" where
  \<comment> \<open>\<open>pattern.fullmatch(s)\<close>: the first way to match that ends at the end of the text\<close>
  "re_fullmatch r s =
     (case filter (\<lambda>(j, g). j = length s) (rm r s 0 []) of [] \<Rightarrow> None | (j, g) # _ \<Rightarrow> Some g)"

definition group_span :: "rmatch \<Rightarrow> nat \<Rightarrow> nat \<times> nat" where
  "group_span m n = (case m of (i, j, g) \<Rightarrow> (if n = 0 then (i, j)
     else case map_of g n of Some p \<Rightarrow> p | None \<Rightarrow> (i, i)))"

definition group_text :: "ustr \<Rightarrow> rmatch \<Rightarrow> nat \<Rightarrow> ustr" where
  "group_text s m n = (case group_span m n of (a, b) \<Rightarrow> pyslice s a b)"

subsection \<open>Positions stay inside the text\<close>

lemma rep_bounds:
  assumes "\<And>i g j g'. (j, g') \<in> set (f i g) \<Longrightarrow> i \<le> n \<Longrightarrow> i \<le> j \<and> j \<le> n"
    and "(j, g') \<in> set (rep f greedy lo hi fuel (i, g))" and "i \<le> (n::nat)"
  shows "i \<le> j \<and> j \<le> n"
  using assms(2,3)
proof (induction fuel arbitrary: lo hi i g)
  case 0
  then show ?case by (auto split: if_splits)
next
  case (Suc fuel)
  from Suc.prems(1) consider "j = i"
    | k gk lo' hi' where "(k, gk) \<in> set (f i g)" "(j, g') \<in> set (rep f greedy lo' hi' fuel (k, gk))"
    by (auto simp: Let_def split: if_splits)
  then show ?case
  proof cases
    case 1
    with Suc.prems(2) show ?thesis by simp
  next
    case 2
    from assms(1) [OF 2(1) Suc.prems(2)] have "i \<le> k" "k \<le> n" by auto
    with Suc.IH [OF 2(2)] show ?thesis by simp
  qed
qed

lemma rm_bounds:
  "(j, g') \<in> set (rm r s i g) \<Longrightarrow> i \<le> length s \<Longrightarrow> i \<le> j \<and> j \<le> length s"
proof (induction r arbitrary: i g j g')
  case (RSeq a b)
  then show ?case by fastforce
next
  case (RRep gr lo hi a)
  show ?case
  proof (rule rep_bounds [where f = "rm a s"])
    show "(j, g') \<in> set (rep (rm a s) gr lo hi (lo + length s - i) (i, g))"
      using RRep.prems(1) by simp
  qed (use RRep.IH RRep.prems(2) in blast)+
qed (auto split: if_splits)

lemma match_at_bounds [bound_intros]:
  assumes "match_at r s i a = Some (j, g)" and "i \<le> length s"
  shows "i \<le> j \<and> j \<le> length s \<and> (a \<longrightarrow> i < j)"
proof -
  from assms(1) obtain ms
    where "filter (\<lambda>(j, g). \<not> a \<or> j \<noteq> i) (rm r s i []) = (j, g) # ms"
    by (auto simp: match_at_def split: list.splits)
  then have *: "(j, g) \<in> set (filter (\<lambda>(j, g). \<not> a \<or> j \<noteq> i) (rm r s i []))"
    by (metis list.set_intros(1))
  then have "(j, g) \<in> set (rm r s i [])" by simp
  from rm_bounds [OF this assms(2)] * show ?thesis by auto
qed

lemma search_from_bounds [bound_intros]:
  assumes "search_from r s p a = Some (i, j, g)"
  shows "p \<le> i \<and> i \<le> j \<and> j \<le> length s \<and> (a \<and> i = p \<longrightarrow> i < j)"
  using assms
proof (induction r s p a rule: search_from.induct)
  case (1 r s p a)
  show ?case
  proof (cases "length s < p \<or> match_at r s p a = None")
    case False
    then obtain j' g' where "match_at r s p a = Some (j', g')" "p \<le> length s" by auto
    with "1.prems" match_at_bounds [OF this] show ?thesis
      by (simp add: search_from.simps [of r s p])
  next
    case True
    with "1.prems" have "search_from r s (Suc p) False = Some (i, j, g)" "p \<le> length s"
      "match_at r s p a = None"
      by (auto simp: search_from.simps [of r s p] split: if_splits)
    with "1.IH" show ?thesis by auto
  qed
qed

function finditer_from :: "re \<Rightarrow> ustr \<Rightarrow> nat \<Rightarrow> bool \<Rightarrow> rmatch list" where
  "finditer_from r s p advance =
     (case search_from r s p advance of
        None \<Rightarrow> []
      | Some (i, j, g) \<Rightarrow> (i, j, g) # finditer_from r s j (i = j))"
  by pat_completeness auto
termination
proof (relation "measure (\<lambda>(r, s, p, a). 2 * (length s - p) + (if a then 0 else 1))", goal_cases)
  case 1
  show ?case by simp
next
  case (2 r s p a m i m' j g)
  then have "search_from r s p a = Some (i, j, g)" by simp
  from search_from_bounds [OF this]
  show ?case by auto
qed

declare finditer_from.simps [simp del]

definition finditer :: "re \<Rightarrow> ustr \<Rightarrow> rmatch list" where
  "finditer r s = finditer_from r s 0 False"

text \<open>Every match reported lies in the text, and the matches come in order without overlap.\<close>

fun ordered_from :: "nat \<Rightarrow> nat \<Rightarrow> rmatch list \<Rightarrow> bool" where
  "ordered_from n p [] \<longleftrightarrow> p \<le> n"
| "ordered_from n p ((i, j, g) # ms) \<longleftrightarrow> p \<le> i \<and> i \<le> j \<and> j \<le> n \<and> ordered_from n j ms"

lemma finditer_from_ordered: "p \<le> length s \<Longrightarrow> ordered_from (length s) p (finditer_from r s p a)"
proof (induction r s p a rule: finditer_from.induct)
  case (1 r s p a)
  show ?case
  proof (cases "search_from r s p a")
    case None
    then show ?thesis using "1.prems" by (simp add: finditer_from.simps [of r s p])
  next
    case (Some m)
    obtain i j g where m: "m = (i, j, g)" by (cases m)
    with Some search_from_bounds [of r s p a i j g]
    have "p \<le> i" "i \<le> j" "j \<le> length s" by auto
    with "1.IH" Some m show ?thesis
      by (simp add: finditer_from.simps [of r s p])
  qed
qed

lemma finditer_ordered: "ordered_from (length s) 0 (finditer r s)"
  by (simp add: finditer_def finditer_from_ordered)

lemma ordered_from_bounds:
  "ordered_from n p ms \<Longrightarrow> (i, j, g) \<in> set ms \<Longrightarrow> p \<le> i \<and> i \<le> j \<and> j \<le> n"
  by (induction n p ms rule: ordered_from.induct) fastforce+

lemma finditer_bounds [bound_intros]:
  "(i, j, g) \<in> set (finditer r s) \<Longrightarrow> i \<le> j \<and> j \<le> length s"
  using ordered_from_bounds [OF finditer_ordered] by blast

text \<open>The captured groups lie in the text as well.\<close>

definition groups_in :: "nat \<Rightarrow> groups \<Rightarrow> bool" where
  "groups_in n g \<longleftrightarrow> (\<forall>(k, a, b) \<in> set g. a \<le> b \<and> b \<le> n)"

lemma groups_in_Nil [simp]: "groups_in n []"
  by (simp add: groups_in_def)

lemma rep_groups:
  assumes "\<And>i g j g'. (j, g') \<in> set (f i g) \<Longrightarrow> i \<le> n \<Longrightarrow> groups_in n g \<Longrightarrow> i \<le> j \<and> j \<le> n \<and> groups_in n g'"
    and "(j, g') \<in> set (rep f greedy lo hi fuel (i, g))" and "i \<le> n" and "groups_in n g"
  shows "groups_in n g'"
  using assms(2-4)
proof (induction fuel arbitrary: lo hi i g)
  case 0
  then show ?case by (auto split: if_splits)
next
  case (Suc fuel)
  from Suc.prems(1) consider "g' = g"
    | k gk lo' hi' where "(k, gk) \<in> set (f i g)" "(j, g') \<in> set (rep f greedy lo' hi' fuel (k, gk))"
    by (auto simp: Let_def split: if_splits)
  then show ?case
  proof cases
    case 2
    with Suc.IH [OF 2(2)] assms(1) [OF 2(1) Suc.prems(2,3)] show ?thesis by simp
  qed (use Suc.prems(3) in simp)
qed

lemma rm_groups:
  "(j, g') \<in> set (rm r s i g) \<Longrightarrow> i \<le> length s \<Longrightarrow> groups_in (length s) g \<Longrightarrow> groups_in (length s) g'"
proof (induction r arbitrary: i g j g')
  case (RSeq a b)
  then obtain k gk where k: "(k, gk) \<in> set (rm a s i g)" "(j, g') \<in> set (rm b s k gk)" by auto
  with RSeq.IH(1) [OF k(1) RSeq.prems(2,3)] RSeq.IH(2) [OF k(2)] rm_bounds [OF k(1) RSeq.prems(2)] show ?case
    by simp
next
  case (RGrp n a)
  then obtain ga where ga: "(j, ga) \<in> set (rm a s i g)" "g' = (n, i, j) # ga" by auto
  with RGrp.IH [OF ga(1) RGrp.prems(2,3)] rm_bounds [OF ga(1) RGrp.prems(2)] show ?case
    by (simp add: groups_in_def)
next
  case (RRep gr lo hi a)
  show ?case
  proof (rule rep_groups [where f = "rm a s"])
    show "(j, g') \<in> set (rep (rm a s) gr lo hi (lo + length s - i) (i, g))" using RRep.prems(1) by simp
    show "i \<le> length s" "groups_in (length s) g" by (fact RRep.prems)+
  qed (use RRep.IH rm_bounds in blast)
qed (auto split: if_splits)

lemma match_at_rm: "match_at r s i a = Some (j, g) \<Longrightarrow> (j, g) \<in> set (rm r s i [])"
proof -
  assume "match_at r s i a = Some (j, g)"
  then obtain ms where "filter (\<lambda>(j, g). \<not> a \<or> j \<noteq> i) (rm r s i []) = (j, g) # ms"
    by (auto simp: match_at_def split: list.splits)
  then have "(j, g) \<in> set (filter (\<lambda>(j, g). \<not> a \<or> j \<noteq> i) (rm r s i []))"
    by (metis list.set_intros(1))
  then show ?thesis by simp
qed

lemma search_from_rm: "search_from r s p a = Some (i, j, g) \<Longrightarrow> i \<le> length s \<and> (j, g) \<in> set (rm r s i [])"
proof (induction r s p a rule: search_from.induct)
  case (1 r s p a)
  show ?case
  proof (cases "match_at r s p a")
    case None
    with "1.prems" have "\<not> length s < p" "search_from r s (Suc p) False = Some (i, j, g)"
      by (auto simp: search_from.simps [of r s p] split: if_splits)
    with "1.IH" None show ?thesis by blast
  next
    case (Some m)
    with "1.prems" show ?thesis
      by (cases m) (auto simp: search_from.simps [of r s p] split: if_splits dest: match_at_rm)
  qed
qed

lemma finditer_from_rm: "(i, j, g) \<in> set (finditer_from r s p a) \<Longrightarrow> i \<le> length s \<and> (j, g) \<in> set (rm r s i [])"
proof (induction r s p a rule: finditer_from.induct)
  case (1 r s p a)
  then show ?case
    by (cases "search_from r s p a")
      (auto simp: finditer_from.simps [of r s p] dest: search_from_rm split: prod.splits)
qed

lemma finditer_rm: "(i, j, g) \<in> set (finditer r s) \<Longrightarrow> i \<le> length s \<and> (j, g) \<in> set (rm r s i [])"
  by (simp add: finditer_def finditer_from_rm)

lemma group_span_bounds:
  assumes "m \<in> set (finditer r s)"
  shows "fst (group_span m n) \<le> snd (group_span m n) \<and> snd (group_span m n) \<le> length s"
proof -
  obtain i j g where m: "m = (i, j, g)" by (cases m)
  from assms m have "i \<le> j" "j \<le> length s" "groups_in (length s) g"
    using finditer_bounds finditer_rm rm_groups [of j g r s i "[]"] by (blast, blast, fastforce)
  with m show ?thesis
    by (auto simp: group_span_def groups_in_def dest!: map_of_SomeD split: option.split)
qed

subsection \<open>The least length of a match\<close>

primrec minlen :: "re \<Rightarrow> nat" where
  "minlen (RSet p) = 1"
| "minlen REps = 0"
| "minlen (RSeq a b) = minlen a + minlen b"
| "minlen (RAlt a b) = min (minlen a) (minlen b)"
| "minlen (RRep gr lo hi a) = lo * minlen a"
| "minlen (RGrp n a) = minlen a"
| "minlen (RBound w) = 0"
| "minlen (RNotBehind p) = 0"
| "minlen (RNotAhead a) = 0"
| "minlen REnd = 0"

lemma rep_minlen:
  assumes "\<And>i g j g'. (j, g') \<in> set (f i g) \<Longrightarrow> i + k \<le> j"
    and "(j, g') \<in> set (rep f greedy lo hi fuel (i, g))"
  shows "i + lo * k \<le> (j::nat)"
  using assms(2)
proof (induction fuel arbitrary: lo hi i g)
  case 0
  then show ?case by (auto split: if_splits)
next
  case (Suc fuel)
  from Suc.prems consider "j = i" "lo = 0"
    | l gl hi' where "(l, gl) \<in> set (f i g)" "(j, g') \<in> set (rep f greedy (lo - 1) hi' fuel (l, gl))"
    by (auto simp: Let_def split: if_splits)
  then show ?case
  proof cases
    case 2
    from assms(1) [OF 2(1)] Suc.IH [OF 2(2)] show ?thesis by (cases lo) simp_all
  qed simp
qed

lemma rm_minlen: "(j, g') \<in> set (rm r s i g) \<Longrightarrow> i + minlen r \<le> j"
proof (induction r arbitrary: i g j g')
  case (RSeq a b)
  then show ?case by fastforce
next
  case (RRep gr lo hi a)
  then have "(j, g') \<in> set (rep (rm a s) gr lo hi (lo + length s - i) (i, g))" by simp
  from rep_minlen [OF RRep.IH this] show ?case by simp
next
  case (RAlt a b)
  then show ?case by (fastforce simp: min_def)
qed (auto split: if_splits)

lemma finditer_minlen: "(i, j, g) \<in> set (finditer r s) \<Longrightarrow> i + minlen r \<le> j"
  using finditer_rm rm_minlen by blast

lemma minlen_RStr [simp]: "minlen (RStr s) = length s"
  by (induction s) (simp_all add: RChr_def)

text \<open>Patterns all of whose matches have one length.\<close>

primrec exactlen :: "re \<Rightarrow> nat option" where
  "exactlen (RSet p) = Some 1"
| "exactlen REps = Some 0"
| "exactlen (RSeq a b) = Option.bind (exactlen a) (\<lambda>m. map_option (\<lambda>n. m + n) (exactlen b))"
| "exactlen (RAlt a b) = (if exactlen a = exactlen b then exactlen a else None)"
| "exactlen (RRep gr lo hi a) = (if hi = Some lo then map_option (\<lambda>n. lo * n) (exactlen a) else None)"
| "exactlen (RGrp n a) = exactlen a"
| "exactlen (RBound w) = Some 0"
| "exactlen (RNotBehind p) = Some 0"
| "exactlen (RNotAhead a) = Some 0"
| "exactlen REnd = Some 0"

lemma rep_exactlen:
  assumes "\<And>i g j g'. (j, g') \<in> set (f i g) \<Longrightarrow> j = i + k"
    and "(j, g') \<in> set (rep f greedy lo (Some lo) fuel (i, g))"
  shows "(j :: nat) = i + lo * k"
  using assms(2)
proof (induction fuel arbitrary: lo i g)
  case 0
  then show ?case by (auto split: if_splits)
next
  case (Suc fuel)
  from Suc.prems consider "j = i" "lo = 0"
    | l gl where "0 < lo" "(l, gl) \<in> set (f i g)"
        "(j, g') \<in> set (rep f greedy (lo - 1) (Some (lo - 1)) fuel (l, gl))"
    by (auto simp: Let_def split: if_splits)
  then show ?case
  proof cases
    case 2
    from assms(1) [OF 2(2)] Suc.IH [OF 2(3)] 2(1) show ?thesis by (cases lo) simp_all
  qed simp
qed

lemma rm_exactlen: "(j, g') \<in> set (rm r s i g) \<Longrightarrow> exactlen r = Some n \<Longrightarrow> j = i + n"
proof (induction r arbitrary: i g j g' n)
  case (RSeq a b)
  then show ?case by (fastforce simp: bind_eq_Some_conv)
next
  case (RRep gr lo hi a)
  then obtain k where k: "exactlen a = Some k" "hi = Some lo" "n = lo * k" by (auto split: if_splits)
  with RRep.prems have "(j, g') \<in> set (rep (rm a s) gr lo (Some lo) (lo + length s - i) (i, g))" by simp
  from rep_exactlen [OF RRep.IH [OF _ k(1)] this] k show ?case by simp
qed (auto split: if_splits)

lemma finditer_exactlen: "(i, j, g) \<in> set (finditer r s) \<Longrightarrow> exactlen r = Some n \<Longrightarrow> j = i + n"
  using finditer_rm rm_exactlen by blast

text \<open>Matches that consume something are reported at strictly increasing positions.\<close>

lemma ordered_from_distinct:
  assumes "ordered_from n p ms" "\<And>i j g. (i, j, g) \<in> set ms \<Longrightarrow> i < j"
  shows "distinct (map (\<lambda>m. (fst m, fst (snd m))) ms) \<and> (\<forall>m \<in> set ms. p \<le> fst m)"
  using assms
proof (induction n p ms rule: ordered_from.induct)
  case (2 n p i j g ms)
  have "ordered_from n j ms" using "2.prems"(1) by simp
  moreover have "\<And>i j g. (i, j, g) \<in> set ms \<Longrightarrow> i < j" using "2.prems"(2) by (meson list.set_intros(2))
  ultimately have "distinct (map (\<lambda>m. (fst m, fst (snd m))) ms) \<and> (\<forall>m \<in> set ms. j \<le> fst m)"
    by (rule "2.IH")
  moreover have "i < j" using "2.prems"(2) by (meson list.set_intros(1))
  ultimately show ?case using "2.prems"(1) by fastforce
qed simp

lemma finditer_distinct:
  assumes "0 < minlen r"
  shows "distinct (map (\<lambda>m. (fst m, fst (snd m))) (finditer r s))"
proof -
  have "i < j" if "(i, j, g) \<in> set (finditer r s)" for i j g
    using finditer_minlen [OF that] assms by simp
  with ordered_from_distinct [OF finditer_ordered] show ?thesis by blast
qed

end
