(* ===== verification/Tokens.thy ===== *)
theory Tokens
  imports Domain Regex Sha256
begin

text \<open>
  Surrogate tokens, \<^verbatim>\<open>gateway/transformations/tokens.py\<close>: the token grammar, canonical values, the
  unambiguous MAC input, the minter and the per-request provenance.  Minting is
  \<open>mint m U ctx entity value prov\<close>, which returns the surrogate with the provenance after it; the
  provenance is the dictionary from token to surrogate, in minting order.
\<close>

subsection \<open>Token formats and the token grammar\<close>

record token_format =
  tf_version :: ustr
  tf_tag_bytes :: nat

definition tag_hex_length :: "token_format \<Rightarrow> nat" where
  "tag_hex_length f = tf_tag_bytes f * 2"

definition TOKEN_FORMATS :: "(ustr \<times> token_format) list" where
  "TOKEN_FORMATS = [(lit ''v1'', \<lparr>tf_version = lit ''v1'', tf_tag_bytes = 16\<rparr>)]"

definition ACTIVE_TOKEN_FORMAT :: token_format where
  "ACTIVE_TOKEN_FORMAT = \<lparr>tf_version = lit ''v1'', tf_tag_bytes = 16\<rparr>"

lemma TOKEN_FORMATS_v1 [simp]: "map_of TOKEN_FORMATS (lit ''v1'') = Some ACTIVE_TOKEN_FORMAT"
  by (simp add: TOKEN_FORMATS_def ACTIVE_TOKEN_FORMAT_def)

definition is_upper :: "cp \<Rightarrow> bool" where
  "is_upper c \<longleftrightarrow> 65 \<le> c \<and> c \<le> 90"

definition is_ent :: "cp \<Rightarrow> bool" where
  "is_ent c \<longleftrightarrow> is_upper c \<or> ascii_digit c \<or> c = 95"

definition TOKEN_PATTERN :: re where
  \<comment> \<open>\<open><([A-Z][A-Z0-9_]{0,63}):(v1):([0-9a-f]{32})>\<close>\<close>
  "TOKEN_PATTERN =
     RSeq (RChr 60)
    (RSeq (RGrp 1 (RSeq (RSet is_upper) (RBetween 0 63 (RSet is_ent))))
    (RSeq (RChr 58)
    (RSeq (RGrp 2 (RSeq (RChr 118) (RChr 49)))
    (RSeq (RChr 58)
    (RSeq (RGrp 3 (RTimes 32 (RSet is_lower_hex)))
          (RChr 62))))))"

subsection \<open>Canonical values and the MAC input\<close>

definition canonicalize :: "ucd \<Rightarrow> ustr \<Rightarrow> ustr" where
  "canonicalize U v = u_casefold U (py_join [32] (split_ws (u_isspace U) (u_nfkc U v)))"

definition lp_part :: "ustr \<Rightarrow> bytes" where
  "lp_part p = dec_nat (length (utf8 p)) @ 58 # utf8 p"

definition length_prefixed :: "ustr list \<Rightarrow> bytes" where
  "length_prefixed parts = py_join [0] (map lp_part parts)"

lemma lp_part_nonempty [simp]: "lp_part p \<noteq> []"
  by (simp add: lp_part_def)

lemma digits_then_colon:
  assumes "a @ 58 # s = b @ 58 # t" and "\<forall>c \<in> set a. ascii_digit c" and "\<forall>c \<in> set b. ascii_digit c"
  shows "a = b \<and> s = t"
proof -
  have no: "\<not> ascii_digit 58" by (simp add: ascii_digit_def)
  have "takeWhile ascii_digit (a @ 58 # s) = a" "takeWhile ascii_digit (b @ 58 # t) = b"
    using assms(2,3) no by (simp_all add: takeWhile_append)
  with assms(1) show ?thesis by auto
qed

lemma lp_part_prefix_inject:
  assumes "lp_part p @ s = lp_part q @ t"
  shows "p = q \<and> s = t"
proof -
  have "dec_nat (length (utf8 p)) @ 58 # (utf8 p @ s) = dec_nat (length (utf8 q)) @ 58 # (utf8 q @ t)"
    using assms by (simp add: lp_part_def)
  from digits_then_colon [OF this dec_nat_digits dec_nat_digits]
  have "length (utf8 p) = length (utf8 q)" "utf8 p @ s = utf8 q @ t" by auto
  then show ?thesis by simp
qed

lemma length_prefixed_Nil [simp]: "length_prefixed [] = []"
  by (simp add: length_prefixed_def)

lemma length_prefixed_Cons:
  "length_prefixed (p # ps) = lp_part p @ (if ps = [] then [] else 0 # length_prefixed ps)"
  by (cases ps) (simp_all add: length_prefixed_def)

lemma length_prefixed_inj: "length_prefixed ps = length_prefixed qs \<Longrightarrow> ps = qs"
proof (induction ps arbitrary: qs)
  case Nil
  then show ?case by (cases qs) (simp_all add: length_prefixed_Cons)
next
  case (Cons p ps)
  then obtain q qs' where qs: "qs = q # qs'"
    by (cases qs) (simp_all add: length_prefixed_Cons)
  with Cons.prems have "lp_part p @ (if ps = [] then [] else 0 # length_prefixed ps)
      = lp_part q @ (if qs' = [] then [] else 0 # length_prefixed qs')"
    by (simp only: length_prefixed_Cons)
  from lp_part_prefix_inject [OF this]
  have "p = q \<and> (if ps = [] then [] else 0 # length_prefixed ps)
      = (if qs' = [] then [] else 0 # length_prefixed qs')" .
  with Cons.IH qs show ?case by (auto split: if_splits)
qed

subsection \<open>Provenance\<close>

record surrogate =
  su_token :: ustr
  su_type :: ustr
  su_tag :: ustr
  su_canonical :: ustr
  su_original :: ustr
  su_version :: ustr

type_synonym provenance = "(ustr \<times> surrogate) list"

definition prov_empty :: provenance where
  "prov_empty = []"

definition prov_record :: "surrogate \<Rightarrow> provenance \<Rightarrow> provenance" where
  "prov_record s p = AList.update (su_token s) s p"

definition prov_lookup :: "provenance \<Rightarrow> ustr \<Rightarrow> surrogate option" where
  "prov_lookup p t = map_of p t"

definition was_minted_here :: "provenance \<Rightarrow> ustr \<Rightarrow> bool" where
  "was_minted_here p t \<longleftrightarrow> t \<in> fst ` set p"

definition prov_tokens :: "provenance \<Rightarrow> ustr list" where
  "prov_tokens p = map fst p"

lemma was_minted_here_iff: "was_minted_here p t \<longleftrightarrow> prov_lookup p t \<noteq> None"
  by (simp add: was_minted_here_def prov_lookup_def map_of_eq_None_iff)

lemma prov_lookup_empty [simp]: "prov_lookup prov_empty t = None"
  by (simp add: prov_lookup_def prov_empty_def)

lemma prov_lookup_record [simp]:
  "prov_lookup (prov_record s p) t = (if t = su_token s then Some s else prov_lookup p t)"
  by (simp add: prov_lookup_def prov_record_def)

subsection \<open>The minter\<close>

record minter =
  mt_key :: bytes
  mt_format :: token_format

definition mk_minter :: "bytes \<Rightarrow> token_format \<Rightarrow> minter res" where
  "mk_minter key fmt = (if length key < 32 then Inl ValueError else Inr \<lparr>mt_key = key, mt_format = fmt\<rparr>)"

definition hmac_domain :: ustr where
  "hmac_domain = lit ''quiethours/token''"

definition tag_message :: "req_context \<Rightarrow> ustr \<Rightarrow> ustr \<Rightarrow> ustr \<Rightarrow> bytes" where
  "tag_message ctx entity canonical version =
     length_prefixed [hmac_domain, version, tenant_id ctx, conversation_id ctx, entity, canonical]"

definition token_tag :: "minter \<Rightarrow> req_context \<Rightarrow> ustr \<Rightarrow> ustr \<Rightarrow> ustr \<Rightarrow> ustr res" where
  "token_tag m ctx entity canonical version =
     (case map_of TOKEN_FORMATS version of
        None \<Rightarrow> Inl KeyError
      | Some f \<Rightarrow> Inr (hex_bytes (take (tf_tag_bytes f)
                        (hmac_sha256 (mt_key m) (tag_message ctx entity canonical version)))))"

definition token_string :: "ustr \<Rightarrow> ustr \<Rightarrow> ustr \<Rightarrow> ustr" where
  "token_string entity version tag = [60] @ entity @ [58] @ version @ [58] @ tag @ [62]"

definition mint :: "minter \<Rightarrow> ucd \<Rightarrow> req_context \<Rightarrow> ustr \<Rightarrow> ustr \<Rightarrow> provenance
    \<Rightarrow> (surrogate \<times> provenance) res" where
  "mint m U ctx entity0 original prov =
     (let entity = u_upper U entity0;
          version = tf_version (mt_format m);
          canonical = canonicalize U original
      in rbind (token_tag m ctx entity canonical version) (\<lambda>tag.
         let token = token_string entity version tag
         in case prov_lookup prov token of
              Some existing \<Rightarrow>
                (if su_canonical existing \<noteq> canonical then Inl TokenCollisionError
                 else Inr (existing, prov))
            | None \<Rightarrow>
                (let s = \<lparr>su_token = token, su_type = entity, su_tag = tag, su_canonical = canonical,
                          su_original = original, su_version = version\<rparr>
                 in Inr (s, prov_record s prov))))"

definition token_verify :: "minter \<Rightarrow> req_context \<Rightarrow> ustr \<Rightarrow> ustr \<Rightarrow> bool" where
  "token_verify m ctx token canonical =
     (case re_fullmatch TOKEN_PATTERN token of
        None \<Rightarrow> False
      | Some g \<Rightarrow>
          (let mt = (0, length token, g);
               entity = group_text token mt 1; version = group_text token mt 2;
               tag = group_text token mt 3
           in if map_of TOKEN_FORMATS version = None then False
              else token_tag m ctx entity canonical version = Inr tag))"

end
