(* ===== verification/TokenScan.thy ===== *)
theory TokenScan
  imports Tokens
begin

text \<open>
  Recognising tokens in a text.  The code scans with the compiled \<open>TOKEN_PATTERN\<close>; this theory
  proves that scan equal to a recursive splitting of the text into literal characters and tokens
  (\<open>tok_split\<close>), which restoration, transformation and streaming are verified over.
\<close>

subsection \<open>A greedy class followed by anything\<close>

lemma at_pos: "(i < length s \<and> P (s ! i)) \<longleftrightarrow> (\<exists>c t. drop i s = c # t \<and> P c)"
proof (cases "i < length s")
  case True
  then have "drop i s = s ! i # drop (Suc i) s" by (rule Cons_nth_drop_Suc [symmetric])
  with True show ?thesis by auto
qed auto

lemma rep_set:
  assumes "lo \<le> hi" and "length s - i \<le> fuel" and "i \<le> length s"
  shows "rep (rm (RSet p) s) True lo (Some hi) fuel (i, g) =
     (let k = min hi (length (takeWhile p (drop i s)))
      in if k < lo then [] else map (\<lambda>j. (i + j, g)) (rev [lo..<Suc k]))"
  using assms
proof (induction fuel arbitrary: lo hi i)
  case 0
  then show ?case by (cases lo) simp_all
next
  case (Suc fuel)
  show ?case
  proof (cases "hi = 0 \<or> \<not> (i < length s \<and> p (s ! i))")
    case True
    then have "hi = 0 \<or> takeWhile p (drop i s) = []"
      using at_pos [of i s p] by (cases "drop i s") auto
    then have "min hi (length (takeWhile p (drop i s))) = 0" by auto
    with True Suc.prems(1) show ?thesis
      by (cases lo) (auto simp: Let_def)
  next
    case False
    then have i: "i < length s" "p (s ! i)" and hi: "0 < hi" by auto
    then have tw: "takeWhile p (drop i s) = s ! i # takeWhile p (drop (Suc i) s)"
      by (simp add: Cons_nth_drop_Suc [symmetric])
    define k' where "k' = min (hi - 1) (length (takeWhile p (drop (Suc i) s)))"
    have k: "min hi (length (takeWhile p (drop i s))) = Suc k'"
      using hi by (auto simp: tw k'_def)
    have IH: "rep (rm (RSet p) s) True (lo - 1) (Some (hi - 1)) fuel (Suc i, g) =
       (if k' < lo - 1 then [] else map (\<lambda>j. (Suc i + j, g)) (rev [lo - 1..<Suc k']))"
      using Suc.IH [of "lo - 1" "hi - 1" "Suc i"] Suc.prems i
      unfolding k'_def Let_def by (simp del: rm.simps upt_Suc)
    have shift: "map (\<lambda>j. (Suc (i + j), g)) (rev [a..<b]) = map (\<lambda>j. (i + j, g)) (rev [Suc a..<Suc b])" for a b
      by (simp add: map_Suc_upt [symmetric] rev_map comp_def del: upt_Suc)
    show ?thesis
    proof (cases lo)
      case 0
      have "rev [0..<Suc (Suc k')] = rev [Suc 0..<Suc (Suc k')] @ [0]"
        by (metis rev.simps(2) upt_conv_Cons zero_less_Suc)
      with 0 IH i hi k show ?thesis
        by (simp add: shift Let_def del: upt_Suc)
    next
      case (Suc l)
      with IH i hi k show ?thesis
        by (simp add: shift Let_def del: upt_Suc)
    qed
  qed
qed

lemma concat_map_last:
  assumes "\<And>j. j < k \<Longrightarrow> h j = []"
  shows "concat (map h (rev [0..<Suc k])) = h k"
proof -
  have "concat (map h (rev [0..<k])) = []" using assms by auto
  then show ?thesis by simp
qed

subsection \<open>The token at the front of a text\<close>

definition tok_len :: "ustr \<Rightarrow> nat option" where
  "tok_len s =
     (case s of
        [] \<Rightarrow> None
      | c # r \<Rightarrow>
          (let n = length (takeWhile is_ent r)
           in if c = 60 \<and> 1 \<le> n \<and> n \<le> 64 \<and> is_upper (hd r)
                 \<and> take 4 (drop n r) = [58, 118, 49, 58]
                 \<and> 32 \<le> length (takeWhile is_lower_hex (drop (n + 4) r))
                 \<and> take 1 (drop (n + 36) r) = [62]
              then Some (n + 38) else None))"

definition tok_groups :: "nat \<Rightarrow> nat \<Rightarrow> groups" where
  \<comment> \<open>groups of a token that starts at \<open>i\<close> and has length \<open>n + 38\<close>\<close>
  "tok_groups i n = [(3, i + n + 5, i + n + 37), (2, i + n + 2, i + n + 4), (1, i + 1, i + n + 1)]"

lemma drop_Suc_tl: "drop (Suc i) s = tl (drop i s)"
  by (simp add: drop_Suc tl_drop)

definition char_at :: "ustr \<Rightarrow> nat \<Rightarrow> cp \<Rightarrow> bool" where
  "char_at s i c \<longleftrightarrow> take 1 (drop i s) = [c]"

lemma char_at_nth: "char_at s i c \<longleftrightarrow> i < length s \<and> s ! i = c"
  using at_pos [of i s "\<lambda>d. d = c"] by (cases "drop i s") (auto simp: char_at_def)

lemma rm_chr: "rm (RChr c) s i g = (if char_at s i c then [(Suc i, g)] else [])"
  by (simp add: RChr_def char_at_nth)

lemma take_Suc_drop:
  "take (Suc n) (drop i s) = c # cs \<longleftrightarrow> char_at s i c \<and> take n (drop (Suc i) s) = cs"
  by (cases "drop i s") (auto simp: drop_Suc_tl char_at_def)

lemma rm_seq_chr:
  "rm (RSeq (RChr c) b) s i g = (if char_at s i c then rm b s (Suc i) g else [])"
  by (simp add: rm_chr)

lemma rm_seq_grp:
  "rm (RSeq (RGrp n a) b) s i g =
     concat (map (\<lambda>(j, g'). rm b s j ((n, i, j) # g')) (rm a s i g))"
  by (simp add: comp_def case_prod_unfold)

lemma rm_times_set:
  assumes "i \<le> length s"
  shows "rm (RTimes n (RSet p)) s i g =
      (if n \<le> length (takeWhile p (drop i s)) then [(i + n, g)] else [])"
  using rep_set [of n n s i "n + length s - i" p g] assms
  by (simp add: Let_def min_def)

lemma rm_version:
  "rm (RSeq (RChr 58) (RSeq (RGrp 2 (RSeq (RChr 118) (RChr 49))) (RSeq (RChr 58) b))) s j g =
     (if take 4 (drop j s) = [58, 118, 49, 58]
      then rm b s (j + 4) ((2, j + 1, j + 3) # g) else [])"
proof -
  have s4: "j + 4 = Suc (Suc (Suc (Suc j)))" "j + 3 = Suc (Suc (Suc j))" "j + 1 = Suc j"
    by simp_all
  have t4: "take 4 (drop j s) = [58, 118, 49, 58] \<longleftrightarrow>
      char_at s j 58 \<and> char_at s (Suc j) 118 \<and> char_at s (Suc (Suc j)) 49 \<and>
      char_at s (Suc (Suc (Suc j))) 58"
    by (simp add: numeral_eq_Suc take_Suc_drop)
  show ?thesis
    unfolding t4 s4 by (simp add: rm_seq_chr rm_seq_grp rm_chr del: rm.simps)
qed

lemma rm_hex_tail:
  assumes "i \<le> length s"
  shows "rm (RSeq (RGrp 3 (RTimes 32 (RSet is_lower_hex))) (RChr 62)) s i g =
     (if 32 \<le> length (takeWhile is_lower_hex (drop i s)) \<and> take 1 (drop (i + 32) s) = [62]
      then [(i + 33, (3, i, i + 32) # g)] else [])"
  unfolding rm_seq_grp rm_times_set [OF assms]
  by (simp add: rm_chr char_at_def del: rm.simps)

lemma rm_tail:
  \<comment> \<open>from the first colon on, the pattern is deterministic\<close>
  "rm (RSeq (RChr 58) (RSeq (RGrp 2 (RSeq (RChr 118) (RChr 49))) (RSeq (RChr 58)
        (RSeq (RGrp 3 (RTimes 32 (RSet is_lower_hex))) (RChr 62))))) s j g =
     (if take 4 (drop j s) = [58, 118, 49, 58]
         \<and> 32 \<le> length (takeWhile is_lower_hex (drop (j + 4) s)) \<and> take 1 (drop (j + 36) s) = [62]
      then [(j + 37, (3, j + 4, j + 36) # (2, j + 1, j + 3) # g)] else [])"
proof (cases "take 4 (drop j s) = [58, 118, 49, 58]")
  case False
  then show ?thesis by (simp add: rm_version del: rm.simps)
next
  case True
  then have "length (take 4 (drop j s)) = 4" by simp
  then have le: "j + 4 \<le> length s" by (simp add: min_def split: if_splits)
  have "j + 4 + 32 = j + 36" "j + 4 + 33 = j + 37" by simp_all
  with True show ?thesis
    unfolding rm_version rm_hex_tail [OF le] by (simp add: add.commute del: rm.simps)
qed

text \<open>The whole pattern: at most one way to match at any position.\<close>

lemma rm_entity:
  assumes "i \<le> length s"
  shows "rm (RSeq (RSet is_upper) (RBetween 0 63 (RSet is_ent))) s i g =
     (if i < length s \<and> is_upper (s ! i)
      then map (\<lambda>j. (Suc i + j, g))
             (rev [0..<Suc (min 63 (length (takeWhile is_ent (drop (Suc i) s))))])
      else [])"
  using rep_set [of 0 63 s "Suc i" "0 + length s - Suc i" is_ent g] assms
  by (auto simp: Let_def simp del: upt_Suc rep.simps)

lemma not_ent_58 [simp]: "\<not> is_ent 58"
  by (simp add: is_ent_def is_upper_def ascii_digit_def)

lemma is_upper_ent: "is_upper c \<Longrightarrow> is_ent c"
  by (simp add: is_ent_def)

lemma takeWhile_nth_sat:
  "j < length (takeWhile p (drop i s)) \<Longrightarrow> i + j < length s \<and> p (s ! (i + j))"
proof -
  assume j: "j < length (takeWhile p (drop i s))"
  then have "p (takeWhile p (drop i s) ! j)"
    by (meson nth_mem set_takeWhileD)
  moreover have "length (takeWhile p (drop i s)) \<le> length s - i"
    using length_takeWhile_le [of p "drop i s"] by simp
  ultimately show ?thesis
    using j by (simp add: takeWhile_nth)
qed

definition token_tail :: re where
  "token_tail = RSeq (RChr 58) (RSeq (RGrp 2 (RSeq (RChr 118) (RChr 49))) (RSeq (RChr 58)
        (RSeq (RGrp 3 (RTimes 32 (RSet is_lower_hex))) (RChr 62))))"

lemma TOKEN_PATTERN_tail:
  "TOKEN_PATTERN =
     RSeq (RChr 60) (RSeq (RGrp 1 (RSeq (RSet is_upper) (RBetween 0 63 (RSet is_ent)))) token_tail)"
  by (simp add: TOKEN_PATTERN_def token_tail_def)

lemma token_tail_colon: "\<not> char_at s j 58 \<Longrightarrow> rm token_tail s j g = []"
  unfolding token_tail_def rm_seq_chr by simp

lemma rm_TOKEN_PATTERN:
  assumes "i \<le> length s"
  shows "rm TOKEN_PATTERN s i [] =
     (case tok_len (drop i s) of None \<Rightarrow> [] | Some n \<Rightarrow> [(i + n, tok_groups i (n - 38))])"
proof (cases "char_at s i 60 \<and> Suc i < length s \<and> is_upper (s ! Suc i)")
  case False
  then have "tok_len (drop i s) = None"
    using at_pos [of "Suc i" s is_upper]
    by (cases "drop i s"; cases "drop (Suc i) s")
      (auto simp: tok_len_def Let_def char_at_def drop_Suc_tl)
  moreover have "rm TOKEN_PATTERN s i [] = []"
    using False assms unfolding TOKEN_PATTERN_tail rm_seq_chr
    by (auto simp: rm_seq_grp rm_entity char_at_nth simp del: rm.simps upt_Suc)
  ultimately show ?thesis by simp
next
  case True
  then have i: "i < length s" "s ! i = 60" "Suc i < length s" and up: "is_upper (s ! Suc i)"
    by (simp_all add: char_at_nth)
  define r where "r = drop (Suc i) s"
  have r: "drop i s = 60 # r" "r = s ! Suc i # drop (Suc (Suc i)) s"
    using i Cons_nth_drop_Suc [of i s] Cons_nth_drop_Suc [of "Suc i" s] by (simp_all add: r_def)
  define k where "k = length (takeWhile is_ent (drop (Suc (Suc i)) s))"
  have n: "length (takeWhile is_ent r) = Suc k"
    by (subst r(2)) (simp add: k_def is_upper_ent [OF up])
  have "rm TOKEN_PATTERN s i [] =
      concat (map (\<lambda>j. rm token_tail s (Suc (Suc i) + j) [(1, Suc i, Suc (Suc i) + j)]) (rev [0..<Suc (min 63 k)]))"
    using True i unfolding TOKEN_PATTERN_tail rm_seq_chr rm_seq_grp
    by (simp add: rm_entity k_def comp_def del: rm.simps upt_Suc)
  also have "\<dots> = rm token_tail s (Suc (Suc i) + min 63 k) [(1, Suc i, Suc (Suc i) + min 63 k)]"
  proof (rule concat_map_last)
    fix j assume "j < min 63 k"
    then have "is_ent (s ! (Suc (Suc i) + j))"
      using takeWhile_nth_sat [of j is_ent "Suc (Suc i)" s] by (simp add: k_def)
    then have "\<not> char_at s (Suc (Suc i) + j) 58" by (auto simp: char_at_nth)
    then show "rm token_tail s (Suc (Suc i) + j) [(1, Suc i, Suc (Suc i) + j)] = []"
      by (rule token_tail_colon)
  qed
  also have "\<dots> = (case tok_len (drop i s) of None \<Rightarrow> [] | Some n \<Rightarrow> [(i + n, tok_groups i (n - 38))])"
  proof (cases "k \<le> 63")
    case True
    let ?j = "Suc (Suc i) + min 63 k"
    have j: "?j = Suc (Suc i) + k" using True by simp
    have d: "drop ?j s = drop (Suc k) r" "drop (?j + 4) s = drop (Suc k + 4) r"
      "drop (?j + 36) s = drop (Suc k + 36) r"
      unfolding r_def drop_drop j by (simp_all add: add_ac)
    have hr: "hd r = s ! Suc i" using r(2) by (metis list.sel(1))
    show ?thesis
      unfolding token_tail_def rm_tail d unfolding j r(1) tok_len_def
      using True by (simp add: n hr up tok_groups_def Let_def)
  next
    case False
    then have "is_ent (s ! (Suc (Suc i) + 63))"
      using takeWhile_nth_sat [of 63 is_ent "Suc (Suc i)" s] by (simp add: k_def)
    then have "\<not> char_at s (Suc (Suc i) + 63) 58" by (auto simp: char_at_nth)
    with False n show ?thesis
      by (simp add: r(1) tok_len_def min_absorb1 token_tail_colon)
  qed
  finally show ?thesis .
qed

subsection \<open>Tokens as strings\<close>

definition entity_ok :: "ustr \<Rightarrow> bool" where
  "entity_ok ent \<longleftrightarrow> ent \<noteq> [] \<and> length ent \<le> 64 \<and> is_upper (hd ent) \<and> (\<forall>c \<in> set ent. is_ent c)"

definition tag_ok :: "ustr \<Rightarrow> bool" where
  "tag_ok tag \<longleftrightarrow> length tag = 32 \<and> (\<forall>c \<in> set tag. is_lower_hex c)"

definition is_token :: "ustr \<Rightarrow> bool" where
  "is_token t \<longleftrightarrow> (\<exists>ent tag. entity_ok ent \<and> tag_ok tag \<and> t = token_string ent (lit ''v1'') tag)"

lemma lit_v1: "lit ''v1'' = [118, 49]"
  by (simp add: lit_def of_char_def)

lemma not_hex_62 [simp]: "\<not> is_lower_hex 62"
  by (simp add: is_lower_hex_def)

lemma tok_len_token:
  assumes "entity_ok ent" and "tag_ok tag"
  shows "tok_len (token_string ent (lit ''v1'') tag @ rest) = Some (length ent + 38)"
proof -
  have tw: "takeWhile is_ent (ent @ 58 # xs) = ent" for xs
    using assms(1) by (simp add: entity_ok_def takeWhile_append)
  have tg: "takeWhile is_lower_hex (tag @ 62 # rest) = tag"
    using assms(2) by (simp add: tag_ok_def takeWhile_append)
  have ent: "ent \<noteq> []" "length ent \<le> 64" "is_upper (hd ent)" and tag: "length tag = 32"
    using assms by (simp_all add: entity_ok_def tag_ok_def)
  have d36: "drop (36 + length ent) (ent @ 58 # 118 # 49 # 58 # tag @ 62 # rest) = 62 # rest"
    and d4: "drop (4 + length ent) (ent @ 58 # 118 # 49 # 58 # tag @ 62 # rest) = tag @ 62 # rest"
    using tag by simp_all
  show ?thesis
    using ent tag by (simp add: tok_len_def token_string_def lit_v1 tw tg d36 d4 add.commute Suc_le_eq)
qed

lemma tok_len_Some:
  assumes "tok_len s = Some n"
  obtains ent tag rest where "entity_ok ent" "tag_ok tag"
    "s = token_string ent (lit ''v1'') tag @ rest" "n = length ent + 38"
proof -
  from assms obtain r where s: "s = 60 # r" by (auto simp: tok_len_def Let_def split: list.splits if_splits)
  define ent where "ent = takeWhile is_ent r"
  define k where "k = length ent"
  have r: "r = ent @ drop k r"
    by (simp add: ent_def k_def dropWhile_eq_drop [symmetric])
  from assms s have c: "1 \<le> k" "k \<le> 64" "is_upper (hd r)" "take 4 (drop k r) = [58, 118, 49, 58]"
    "32 \<le> length (takeWhile is_lower_hex (drop (k + 4) r))" "take 1 (drop (k + 36) r) = [62]"
    and n: "n = k + 38"
    by (auto simp: tok_len_def Let_def ent_def k_def split: if_splits)
  define tag where "tag = take 32 (drop (k + 4) r)"
  have tag: "tag_ok tag"
  proof -
    have "tag = take 32 (takeWhile is_lower_hex (drop (k + 4) r))"
      using c(5) unfolding tag_def
      by (metis (no_types, lifting) append_eq_append_conv_if append_take_drop_id takeWhile_eq_take take_take min_def)
    moreover have "length (take 32 (takeWhile is_lower_hex (drop (k + 4) r))) = 32"
      using c(5) by simp
    ultimately show ?thesis
      by (auto simp: tag_ok_def dest!: in_set_takeD set_takeWhileD)
  qed
  have ne: "ent \<noteq> []" using c(1) by (auto simp: k_def)
  have hd: "hd r = hd ent" using r ne by (metis hd_append2)
  have "\<forall>c \<in> set ent. is_ent c" by (auto simp: ent_def dest: set_takeWhileD)
  with c(2,3) ne hd have ent: "entity_ok ent"
    by (simp add: entity_ok_def k_def)
  have d1: "drop k r = [58, 118, 49, 58] @ drop (k + 4) r"
    using append_take_drop_id [of 4 "drop k r"] c(4) by (simp add: add.commute)
  have d2: "drop (k + 4) r = tag @ drop (k + 36) r"
    using append_take_drop_id [of 32 "drop (k + 4) r"] by (simp add: tag_def add.commute)
  have d3: "drop (k + 36) r = [62] @ drop (k + 37) r"
    using append_take_drop_id [of 1 "drop (k + 36) r"] c(6) by (simp add: add.commute)
  have "r = ent @ [58, 118, 49, 58] @ tag @ [62] @ drop (k + 37) r"
    by (rule trans [OF r]) (simp only: d1 d2 d3)
  then have "s = token_string ent (lit ''v1'') tag @ drop (k + 37) r"
    unfolding s token_string_def lit_v1 by simp
  with that [OF ent tag] n k_def show ?thesis by blast
qed

lemma length_token_string: "tag_ok tag \<Longrightarrow> length (token_string ent (lit ''v1'') tag) = length ent + 38"
  by (simp add: token_string_def tag_ok_def)

lemma is_tokenE:
  assumes "is_token t"
  obtains ent tag where "entity_ok ent" "tag_ok tag" "t = token_string ent (lit ''v1'') tag"
  using assms by (auto simp: is_token_def)

lemma tok_len_is_token: "is_token t \<Longrightarrow> tok_len (t @ rest) = Some (length t)"
  by (auto elim!: is_tokenE simp: tok_len_token length_token_string)

lemma tok_len_take: "tok_len s = Some n \<Longrightarrow> is_token (take n s) \<and> n \<le> length s \<and> 0 < n"
  by (erule tok_len_Some) (auto simp: is_token_def length_token_string)

lemma tok_len_mono: "tok_len s = Some n \<Longrightarrow> tok_len (s @ u) = Some n"
  by (erule tok_len_Some) (simp add: tok_len_token)

lemma tok_len_Nil [simp]: "tok_len [] = None"
  by (simp add: tok_len_def)

text \<open>A token starts with \<open><\<close> and has no other; that is what keeps tokens from straddling.\<close>

lemma is_token_lt:
  assumes "is_token t"
  obtains u where "t = 60 # u" "60 \<notin> set u" "u \<noteq> []"
proof -
  from assms obtain ent tag where "entity_ok ent" "tag_ok tag" "t = token_string ent (lit ''v1'') tag"
    by (rule is_tokenE)
  then have "t = 60 # (ent @ [58] @ [118, 49] @ [58] @ tag @ [62])"
    "60 \<notin> set (ent @ [58] @ [118, 49] @ [58] @ tag @ [62])"
    by (auto simp: token_string_def lit_v1 entity_ok_def tag_ok_def is_ent_def is_upper_def
        ascii_digit_def is_lower_hex_def)
  then show ?thesis by (rule that) simp
qed

lemma is_ent_ascii: "is_ent c \<Longrightarrow> c < 128"
  by (auto simp: is_ent_def is_upper_def ascii_digit_def)

lemma is_lower_hex_ascii: "is_lower_hex c \<Longrightarrow> c < 128"
  by (auto simp: is_lower_hex_def)

lemma is_token_ascii: assumes "is_token t" shows "\<forall>c \<in> set t. c < 128"
proof -
  from assms obtain ent tag where t: "entity_ok ent" "tag_ok tag"
    "t = token_string ent (lit ''v1'') tag" by (rule is_tokenE)
  have "\<forall>c \<in> set ent. c < 128" "\<forall>c \<in> set tag. c < 128"
    using t(1,2) is_ent_ascii is_lower_hex_ascii unfolding entity_ok_def tag_ok_def by blast+
  with t(3) show ?thesis by (auto simp: token_string_def lit_v1)
qed

lemma is_token_utf8: "is_token t \<Longrightarrow> length (utf8 t) = length t"
  by (simp add: is_token_ascii utf8_ascii)

lemma tok_len_head: "tok_len (c # s) = Some n \<Longrightarrow> c = 60"
  by (auto simp: tok_len_def Let_def split: if_splits)

subsection \<open>Splitting a text into characters and tokens\<close>

datatype seg = Chr cp | Tok ustr

primrec seg_text :: "seg \<Rightarrow> ustr" where
  "seg_text (Chr c) = [c]"
| "seg_text (Tok t) = t"

definition segs_text :: "seg list \<Rightarrow> ustr" where
  "segs_text gs = concat (map seg_text gs)"

function tok_split :: "ustr \<Rightarrow> seg list" where
  "tok_split s =
     (case s of
        [] \<Rightarrow> []
      | c # r \<Rightarrow> (case tok_len s of
                   None \<Rightarrow> Chr c # tok_split r
                 | Some n \<Rightarrow> Tok (take n s) # tok_split (drop n s)))"
  by pat_completeness auto
termination
  by (relation "measure length") (auto dest: tok_len_take)

declare tok_split.simps [simp del]

lemma tok_split_Nil [simp]: "tok_split [] = []"
  by (simp add: tok_split.simps)

lemma tok_split_Chr: "tok_len (c # s) = None \<Longrightarrow> tok_split (c # s) = Chr c # tok_split s"
  by (simp add: tok_split.simps [of "c # s"])

lemma tok_split_Some:
  "tok_len s = Some n \<Longrightarrow> tok_split s = Tok (take n s) # tok_split (drop n s)"
  by (subst tok_split.simps) (auto split: list.splits)

lemma tok_split_token: "is_token t \<Longrightarrow> tok_split (t @ s) = Tok t # tok_split s"
  by (simp add: tok_split_Some [OF tok_len_is_token])

lemma tok_split_induct [case_names Nil Chr Tok]:
  assumes "P []"
    and "\<And>c s. tok_len (c # s) = None \<Longrightarrow> P s \<Longrightarrow> P (c # s)"
    and "\<And>t s. is_token t \<Longrightarrow> P s \<Longrightarrow> P (t @ s)"
  shows "P s"
proof (induction s rule: length_induct)
  case (1 s)
  show ?case
  proof (cases s)
    case Nil
    with assms(1) show ?thesis by simp
  next
    case (Cons c r)
    show ?thesis
    proof (cases "tok_len s")
      case None
      with Cons assms(2) "1.IH" show ?thesis by simp
    next
      case (Some n)
      then have "is_token (take n s)" "length (drop n s) < length s"
        by (auto dest: tok_len_take)
      with assms(3) [of "take n s" "drop n s"] "1.IH" show ?thesis by simp
    qed
  qed
qed

lemma segs_text_tok_split [simp]: "segs_text (tok_split s) = s"
  by (induction s rule: tok_split_induct)
    (simp_all add: segs_text_def tok_split_Chr tok_split_token)

lemma tok_split_tokens: "Tok t \<in> set (tok_split s) \<Longrightarrow> is_token t"
  by (induction s rule: tok_split_induct) (auto simp: tok_split_Chr tok_split_token)

lemma tok_split_no_lt: "60 \<notin> set s \<Longrightarrow> tok_split s = map Chr s"
proof (induction s)
  case (Cons c s)
  then have "tok_len (c # s) = None" by (auto dest: tok_len_head split: option.split) (metis tok_len_head not_None_eq)
  with Cons show ?case by (simp add: tok_split_Chr)
qed simp

text \<open>Splitting distributes over a cut that no token crosses.\<close>

lemma tok_split_append_gen:
  assumes "\<And>v w. s = v @ w \<Longrightarrow> w \<noteq> [] \<Longrightarrow> tok_len w = None \<Longrightarrow> tok_len (w @ u) = None"
  shows "tok_split (s @ u) = tok_split s @ tok_split u"
  using assms
proof (induction s rule: tok_split_induct)
  case (Chr c s)
  have "tok_len ((c # s) @ u) = None" using Chr.prems [of "[]"] Chr.hyps by simp
  moreover have "tok_split (s @ u) = tok_split s @ tok_split u"
    by (rule Chr.IH) (metis Chr.prems append_Cons)
  ultimately show ?case by (simp add: tok_split_Chr Chr.hyps)
next
  case (Tok t s)
  have "tok_split (s @ u) = tok_split s @ tok_split u"
    by (rule Tok.IH) (metis Tok.prems append.assoc)
  with Tok.hyps show ?case by (simp add: tok_split_token)
qed simp

lemma tok_len_before_lt:
  assumes "w \<noteq> []" and "tok_len w = None" and "u = [] \<or> hd u = 60"
  shows "tok_len (w @ u) = None"
proof (rule ccontr)
  assume "tok_len (w @ u) \<noteq> None"
  then obtain n where n: "tok_len (w @ u) = Some n" by auto
  from tok_len_take [OF this] have t: "is_token (take n (w @ u))" "n \<le> length (w @ u)" by auto
  show False
  proof (cases "n \<le> length w")
    case True
    with t(1) have "is_token (take n w)" by simp
    from tok_len_is_token [OF this, of "drop n w"] assms(2) show False by simp
  next
    case False
    with assms(3) t(2) obtain u' where u: "u = 60 # u'" by (cases u) auto
    with False have "take n (w @ u) = w @ 60 # take (n - length w - 1) u'"
      by (cases "n - length w") auto
    with t(1) assms(1) show False
      by (auto elim!: is_token_lt simp: append_eq_Cons_conv)
  qed
qed

lemma tok_split_append_lt:
  "u = [] \<or> hd u = 60 \<Longrightarrow> tok_split (s @ u) = tok_split s @ tok_split u"
  by (rule tok_split_append_gen) (rule tok_len_before_lt)

lemma tok_split_append_token:
  assumes "is_token t"
  shows "tok_split (s @ t @ r) = tok_split s @ Tok t # tok_split r"
proof -
  have "hd (t @ r) = 60" using assms by (auto elim!: is_token_lt)
  then show ?thesis by (simp add: tok_split_append_lt tok_split_token assms)
qed

subsection \<open>The code's scan is this splitting\<close>

fun matches_of :: "nat \<Rightarrow> seg list \<Rightarrow> rmatch list" where
  "matches_of p [] = []"
| "matches_of p (Chr c # gs) = matches_of (Suc p) gs"
| "matches_of p (Tok t # gs) =
     (p, p + length t, tok_groups p (length t - 38)) # matches_of (p + length t) gs"

lemma match_at_TOKEN:
  assumes "i \<le> length s"
  shows "match_at TOKEN_PATTERN s i a =
     map_option (\<lambda>n. (i + n, tok_groups i (n - 38))) (tok_len (drop i s))"
  using rm_TOKEN_PATTERN [OF assms] tok_len_take [of "drop i s"]
  by (cases "tok_len (drop i s)") (auto simp: match_at_def)

lemma finditer_from_TOKEN_step:
  assumes "i < length s" and "tok_len (drop i s) = None"
  shows "finditer_from TOKEN_PATTERN s i a = finditer_from TOKEN_PATTERN s (Suc i) False"
proof -
  have "search_from TOKEN_PATTERN s i a = search_from TOKEN_PATTERN s (Suc i) False"
    using assms by (subst search_from.simps) (simp add: match_at_TOKEN)
  then show ?thesis
    by (simp add: finditer_from.simps [of TOKEN_PATTERN s i] finditer_from.simps [of TOKEN_PATTERN s "Suc i"])
qed

lemma finditer_from_TOKEN:
  "finditer_from TOKEN_PATTERN (p @ s) (length p) a = matches_of (length p) (tok_split s)"
proof (induction s arbitrary: p a rule: tok_split_induct)
  case Nil
  show ?case
    by (simp add: finditer_from.simps search_from.simps match_at_TOKEN)
next
  case (Chr c s)
  have "finditer_from TOKEN_PATTERN (p @ c # s) (length p) a =
      finditer_from TOKEN_PATTERN ((p @ [c]) @ s) (length (p @ [c])) False"
    using finditer_from_TOKEN_step [of "length p" "p @ c # s" a] Chr.hyps by simp
  with Chr.IH [of "p @ [c]" False] Chr.hyps show ?case by (simp add: tok_split_Chr)
next
  case (Tok t s)
  have len: "tok_len (t @ s) = Some (length t)" by (rule tok_len_is_token [OF Tok.hyps])
  have "0 < length t" using Tok.hyps by (auto elim!: is_token_lt)
  then have "search_from TOKEN_PATTERN (p @ t @ s) (length p) a =
      Some (length p, length p + length t, tok_groups (length p) (length t - 38))"
    by (subst search_from.simps) (simp add: match_at_TOKEN len)
  with Tok.IH [of "p @ t"] Tok.hyps \<open>0 < length t\<close> show ?case
    by (simp add: finditer_from.simps [of TOKEN_PATTERN "p @ t @ s" "length p"] tok_split_token)
qed

theorem finditer_TOKEN: "finditer TOKEN_PATTERN s = matches_of 0 (tok_split s)"
  using finditer_from_TOKEN [of "[]" s False] by (simp add: finditer_def)

end
