(* ===== verification/Vault.thy ===== *)
theory Vault
  imports TokenScan
begin

text \<open>
  The encrypted surrogate vault, \<^verbatim>\<open>gateway/vault/store.py\<close>: the key ring, the storage protocol
  with its in-memory backend, and \<open>SurrogateVault\<close>.  AES-GCM (package \<^verbatim>\<open>cryptography\<close>) and the JSON
  codec of a record's payload are the parameter \<open>E\<close>; a backend is a record of operations, as the
  code's \<open>VaultBackend\<close> protocol is; clock readings and nonces are arguments.
\<close>

subsection \<open>What the vault calls: AEAD and the payload codec\<close>

record entry =
  en_tenant :: ustr
  en_conversation :: ustr
  en_token :: ustr
  en_token_version :: ustr
  en_value :: ustr
  en_expires_at :: rat

record vault_env =
  ve_encrypt :: "bytes \<Rightarrow> bytes \<Rightarrow> bytes \<Rightarrow> bytes \<Rightarrow> bytes"          \<comment> \<open>key, nonce, plaintext, aad\<close>
  ve_decrypt :: "bytes \<Rightarrow> bytes \<Rightarrow> bytes \<Rightarrow> bytes \<Rightarrow> bytes option"   \<comment> \<open>\<open>None\<close> where it raises\<close>
  ve_dumps :: "entry \<Rightarrow> bytes"
  ve_loads :: "bytes \<Rightarrow> entry option"

text \<open>
  The documented behaviour: decryption under the same key, nonce and associated data returns the
  plaintext, under another key or other associated data it raises; decoding inverts encoding.
\<close>

definition aead_ok :: "vault_env \<Rightarrow> bool" where
  "aead_ok E \<longleftrightarrow>
     (\<forall>k n p a k' a'. ve_decrypt E k' n (ve_encrypt E k n p a) a' =
        (if k = k' \<and> a = a' then Some p else None)) \<and>
     (\<forall>e. ve_loads E (ve_dumps E e) = Some e)"

lemma aead_okD:
  assumes "aead_ok E"
  shows "ve_decrypt E k n (ve_encrypt E k n p a) a = Some p"
    and "a \<noteq> a' \<Longrightarrow> ve_decrypt E k' n (ve_encrypt E k n p a) a' = None"
    and "k \<noteq> k' \<Longrightarrow> ve_decrypt E k' n (ve_encrypt E k n p a) a' = None"
    and "ve_loads E (ve_dumps E e) = Some e"
  using assms by (auto simp: aead_ok_def)

subsection \<open>Key ring\<close>

record keyring =
  kr_keys :: "(nat \<times> bytes) list"
  kr_active :: nat

definition mk_keyring :: "(int \<times> bytes) list \<Rightarrow> int \<Rightarrow> keyring res" where
  "mk_keyring keys active =
     (if keys = [] then Inl ValueError
      else if \<not> list_all (\<lambda>(v, k). 0 \<le> v \<and> v \<le> 65535 \<and> length k = 32) keys then Inl ValueError
      else if active \<notin> fst ` set keys then Inl ValueError
      else Inr \<lparr>kr_keys = map (\<lambda>(v, k). (nat v, k)) keys, kr_active = nat active\<rparr>)"

definition kr_aead :: "keyring \<Rightarrow> nat \<Rightarrow> bytes res" where
  "kr_aead r v = (case map_of (kr_keys r) v of Some k \<Rightarrow> Inr k | None \<Rightarrow> Inl VaultKeyUnavailableError)"

definition kr_versions :: "keyring \<Rightarrow> nat list" where
  "kr_versions r = sort (map fst (kr_keys r))"

definition keyring_ok :: "keyring \<Rightarrow> bool" where
  "keyring_ok r \<longleftrightarrow> kr_active r \<in> fst ` set (kr_keys r) \<and>
     (\<forall>(v, k) \<in> set (kr_keys r). v < 65536 \<and> length k = 32)"

lemma mk_keyring_ok:
  assumes "mk_keyring keys active = Inr r"
  shows "keyring_ok r"
proof -
  from assms have r: "kr_keys r = map (\<lambda>(v, k). (nat v, k)) keys" "kr_active r = nat active"
    and all: "\<forall>(v, k) \<in> set keys. 0 \<le> v \<and> v \<le> 65535 \<and> length k = 32"
    and "active \<in> fst ` set keys"
    by (auto simp: mk_keyring_def list_all_iff split: if_splits)
  then obtain k where "(active, k) \<in> set keys" by auto
  with r have "(kr_active r, k) \<in> set (kr_keys r)" by force
  then have "kr_active r \<in> fst ` set (kr_keys r)" by force
  moreover have "\<forall>(v, k) \<in> set (kr_keys r). v < 65536 \<and> length k = 32"
    using all by (fastforce simp: r(1))
  ultimately show ?thesis by (simp add: keyring_ok_def)
qed

lemma kr_aead_active: "keyring_ok r \<Longrightarrow> \<exists>k. kr_aead r (kr_active r) = Inr k"
  by (cases "map_of (kr_keys r) (kr_active r)")
    (auto simp: keyring_ok_def kr_aead_def map_of_eq_None_iff)

lemma keyring_ok_active: "keyring_ok r \<Longrightarrow> kr_active r < 65536"
  by (auto simp: keyring_ok_def)

subsection \<open>The storage protocol and its in-memory implementation\<close>

record 'b backend_ops =
  bo_put :: "ustr \<Rightarrow> bytes \<Rightarrow> rat \<Rightarrow> 'b \<Rightarrow> 'b"
  bo_get :: "rat \<Rightarrow> ustr \<Rightarrow> 'b \<Rightarrow> bytes option \<times> 'b"
  bo_delete :: "ustr \<Rightarrow> 'b \<Rightarrow> 'b"
  bo_delete_prefix :: "ustr \<Rightarrow> 'b \<Rightarrow> nat \<times> 'b"
  bo_purge_expired :: "rat \<Rightarrow> 'b \<Rightarrow> nat \<times> 'b"

type_synonym items = "(ustr \<times> bytes \<times> rat) list"

definition mem_put :: "ustr \<Rightarrow> bytes \<Rightarrow> rat \<Rightarrow> items \<Rightarrow> items" where
  "mem_put k blob expires its = AList.update k (blob, expires) its"

definition mem_get :: "rat \<Rightarrow> ustr \<Rightarrow> items \<Rightarrow> bytes option \<times> items" where
  "mem_get now k its =
     (case map_of its k of
        None \<Rightarrow> (None, its)
      | Some (blob, expires) \<Rightarrow>
          if expires \<le> now then (None, AList.delete k its) else (Some blob, its))"

definition mem_delete :: "ustr \<Rightarrow> items \<Rightarrow> items" where
  "mem_delete k its = AList.delete k its"

definition mem_delete_prefix :: "ustr \<Rightarrow> items \<Rightarrow> nat \<times> items" where
  "mem_delete_prefix p its =
     (let stale = filter (\<lambda>k. starts_with k p) (map fst its)
      in (length stale, fold AList.delete stale its))"

definition mem_purge_expired :: "rat \<Rightarrow> items \<Rightarrow> nat \<times> items" where
  "mem_purge_expired now its =
     (let stale = map fst (filter (\<lambda>(k, _, expires). expires \<le> now) its)
      in (length stale, fold AList.delete stale its))"

definition in_memory :: "items backend_ops" where
  "in_memory = \<lparr>bo_put = mem_put, bo_get = mem_get, bo_delete = mem_delete,
     bo_delete_prefix = mem_delete_prefix, bo_purge_expired = mem_purge_expired\<rparr>"

text \<open>
  The contract a backend owes the vault, over the finite map \<open>abs\<close> it stores: an entry lives until
  its expiry, a read never returns an expired one, and a prefix deletion removes exactly the keys
  with that prefix.
\<close>

definition live :: "rat \<Rightarrow> (bytes \<times> rat) option \<Rightarrow> bytes option" where
  "live now x = (case x of Some (blob, expires) \<Rightarrow> if now < expires then Some blob else None
                 | None \<Rightarrow> None)"

locale vault_backend =
  fixes B :: "'b backend_ops"
    and abs :: "'b \<Rightarrow> ustr \<Rightarrow> (bytes \<times> rat) option"
    and invar :: "'b \<Rightarrow> bool"
  assumes abs_put: "invar b \<Longrightarrow> abs (bo_put B k v e b) = (abs b)(k \<mapsto> (v, e))"
    and get_result: "invar b \<Longrightarrow> fst (bo_get B now k b) = live now (abs b k)"
    and abs_get: "invar b \<Longrightarrow> abs (snd (bo_get B now k b)) =
          (if abs b k \<noteq> None \<and> live now (abs b k) = None then (abs b)(k := None) else abs b)"
    and abs_delete: "invar b \<Longrightarrow> abs (bo_delete B k b) = (abs b)(k := None)"
    and abs_delete_prefix: "invar b \<Longrightarrow> abs (snd (bo_delete_prefix B p b)) =
          (\<lambda>k. if starts_with k p then None else abs b k)"
    and count_delete_prefix: "invar b \<Longrightarrow> fst (bo_delete_prefix B p b) =
          card {k \<in> dom (abs b). starts_with k p}"
    and abs_purge: "invar b \<Longrightarrow> abs (snd (bo_purge_expired B now b)) =
          (\<lambda>k. if live now (abs b k) = None then None else abs b k)"
    and count_purge: "invar b \<Longrightarrow> fst (bo_purge_expired B now b) =
          card {k \<in> dom (abs b). live now (abs b k) = None}"
    and invar_put: "invar b \<Longrightarrow> invar (bo_put B k v e b)"
    and invar_get: "invar b \<Longrightarrow> invar (snd (bo_get B now k b))"
    and invar_delete: "invar b \<Longrightarrow> invar (bo_delete B k b)"
    and invar_delete_prefix: "invar b \<Longrightarrow> invar (snd (bo_delete_prefix B p b))"
    and invar_purge: "invar b \<Longrightarrow> invar (snd (bo_purge_expired B now b))"
begin

lemma get_put: "invar b \<Longrightarrow> now < e \<Longrightarrow> fst (bo_get B now k (bo_put B k v e b)) = Some v"
  by (simp add: get_result invar_put abs_put live_def)

lemma get_put_other:
  "invar b \<Longrightarrow> k \<noteq> k' \<Longrightarrow> fst (bo_get B now k (bo_put B k' v e b)) = fst (bo_get B now k b)"
  by (simp add: get_result invar_put abs_put)

lemma get_delete_prefix:
  "invar b \<Longrightarrow> fst (bo_get B now k (snd (bo_delete_prefix B p b))) =
     (if starts_with k p then None else fst (bo_get B now k b))"
  by (simp add: get_result invar_delete_prefix abs_delete_prefix live_def)

text \<open>Sweeping and reading are invisible to later reads: expiry is decided on read.\<close>

lemma get_purge:
  "invar b \<Longrightarrow> then' \<ge> now \<Longrightarrow>
     fst (bo_get B then' k (snd (bo_purge_expired B now b))) = fst (bo_get B then' k b)"
  by (auto simp: get_result invar_purge abs_purge live_def split: option.splits)

lemma get_get:
  "invar b \<Longrightarrow> then' \<ge> now \<Longrightarrow>
     fst (bo_get B then' k (snd (bo_get B now k' b))) = fst (bo_get B then' k b)"
  by (auto simp: get_result invar_get abs_get live_def split: option.splits)

end

definition mem_invar :: "items \<Rightarrow> bool" where
  "mem_invar its \<longleftrightarrow> distinct (map fst its)"

lemma map_of_AList_delete: "map_of (AList.delete k d) = (map_of d)(k := None)"
  by (rule ext) (simp add: delete_conv)

lemma map_of_fold_delete:
  "map_of (fold AList.delete ks d) = (\<lambda>k. if k \<in> set ks then None else map_of d k)"
  by (induction ks arbitrary: d) (auto simp: map_of_AList_delete)

lemma distinct_fold_delete:
  "distinct (map fst d) \<Longrightarrow> distinct (map fst (fold AList.delete ks d))"
  by (induction ks arbitrary: d) (auto simp: distinct_delete)

lemma card_keys:
  assumes "distinct (map fst d)"
  shows "length (filter P (map fst d)) = card {k \<in> dom (map_of d). P k}"
proof -
  have "{k \<in> dom (map_of d). P k} = set (filter P (map fst d))"
    by (auto simp: dom_map_of_conv_image_fst)
  with assms distinct_card [of "filter P (map fst d)"] show ?thesis by (metis distinct_filter)
qed

lemma stale_keys:
  assumes "distinct (map fst its)"
  shows "map fst (filter (\<lambda>(k, _, expires). expires \<le> now) its) =
     filter (\<lambda>k. live now (map_of its k) = None) (map fst its)"
proof -
  have "filter (\<lambda>(k, _, expires). expires \<le> now) its =
      filter (\<lambda>x. live now (map_of its (fst x)) = None) its"
    using assms by (intro filter_cong) (auto simp: live_def split: if_splits)
  then show ?thesis by (simp add: filter_map comp_def)
qed

interpretation mem: vault_backend in_memory map_of mem_invar
proof (unfold_locales, goal_cases)
  case 1 then show ?case by (simp add: in_memory_def mem_put_def)
next
  case 2 then show ?case
    by (auto simp: in_memory_def mem_get_def live_def split: option.splits)
next
  case 3 then show ?case
    by (auto simp: in_memory_def mem_get_def live_def map_of_AList_delete split: option.splits)
next
  case 4 then show ?case by (simp add: in_memory_def mem_delete_def map_of_AList_delete)
next
  case (5 b p) then show ?case
    by (auto simp: in_memory_def mem_delete_prefix_def Let_def map_of_fold_delete fun_eq_iff
        map_of_eq_None_iff [symmetric])
next
  case 6 then show ?case
    by (simp add: in_memory_def mem_delete_prefix_def Let_def mem_invar_def card_keys del: length_filter_map)
next
  case (7 b now) then show ?case
    by (auto simp: in_memory_def mem_purge_expired_def Let_def mem_invar_def map_of_fold_delete
        stale_keys fun_eq_iff)
      (auto simp: live_def map_of_eq_None_iff split: option.splits)
next
  case 8 then show ?case
    by (simp add: in_memory_def mem_purge_expired_def Let_def mem_invar_def stale_keys card_keys
        del: length_filter_map)
next
  case 9 then show ?case by (simp add: in_memory_def mem_put_def mem_invar_def distinct_update)
next
  case 10 then show ?case
    by (auto simp: in_memory_def mem_get_def mem_invar_def distinct_delete split: option.splits)
next
  case 11 then show ?case by (simp add: in_memory_def mem_delete_def mem_invar_def distinct_delete)
next
  case 12 then show ?case
    by (simp add: in_memory_def mem_delete_prefix_def Let_def mem_invar_def distinct_fold_delete)
next
  case 13 then show ?case
    by (simp add: in_memory_def mem_purge_expired_def Let_def mem_invar_def distinct_fold_delete)
qed

subsection \<open>The surrogate vault\<close>

definition RECORD_FORMAT_VERSION :: nat where "RECORD_FORMAT_VERSION = 1"
definition NONCE_BYTES :: nat where "NONCE_BYTES = 12"
definition HEADER_LEN :: nat where "HEADER_LEN = 3"

definition header_pack :: "nat \<Rightarrow> nat \<Rightarrow> bytes" where
  \<comment> \<open>\<open>struct ">BH"\<close>\<close>
  "header_pack fv kv = [fv, kv div 256, kv mod 256]"

definition header_unpack :: "bytes \<Rightarrow> nat \<times> nat" where
  "header_unpack bs = (bs ! 0, 256 * (bs ! 1) + bs ! 2)"

lemma header_unpack_pack [simp]: "header_unpack (header_pack fv kv) = (fv, kv)"
  by (simp add: header_unpack_def header_pack_def)

lemma length_header_pack [simp]: "length (header_pack fv kv) = HEADER_LEN"
  by (simp add: header_pack_def HEADER_LEN_def)

record 'b vault =
  vt_keys :: keyring
  vt_backend :: 'b
  vt_ttl :: rat
  vt_unknown :: nat      \<comment> \<open>\<open>unknown_format_records\<close>\<close>

definition conversation_prefix :: "req_context \<Rightarrow> ustr" where
  "conversation_prefix ctx = tenant_id ctx @ [0] @ conversation_id ctx @ [0]"

definition vault_key :: "req_context \<Rightarrow> ustr \<Rightarrow> ustr" where
  "vault_key ctx token = conversation_prefix ctx @ token"

definition vault_aad :: "req_context \<Rightarrow> ustr \<Rightarrow> ustr \<Rightarrow> nat \<Rightarrow> nat \<Rightarrow> bytes" where
  "vault_aad ctx token token_version key_version format_version =
     length_prefixed [lit ''quiethours/vault'', tenant_id ctx, conversation_id ctx, token, token_version]
       @ header_pack format_version key_version"

definition vault_entry :: "req_context \<Rightarrow> ustr \<Rightarrow> ustr \<Rightarrow> ustr \<Rightarrow> rat \<Rightarrow> entry" where
  "vault_entry ctx token value token_version expires =
     \<lparr>en_tenant = tenant_id ctx, en_conversation = conversation_id ctx, en_token = token,
      en_token_version = token_version, en_value = value, en_expires_at = expires\<rparr>"

definition vault_put :: "vault_env \<Rightarrow> 'b backend_ops \<Rightarrow> rat \<Rightarrow> bytes \<Rightarrow> req_context \<Rightarrow> ustr \<Rightarrow> ustr
    \<Rightarrow> ustr \<Rightarrow> 'b vault \<Rightarrow> 'b vault res" where
  "vault_put E B now nonce ctx token value token_version v =
     (let key_version = kr_active (vt_keys v);
          expires = now + vt_ttl v;
          payload = ve_dumps E (vault_entry ctx token value token_version expires);
          aad = vault_aad ctx token token_version key_version RECORD_FORMAT_VERSION
      in rbind (kr_aead (vt_keys v) key_version) (\<lambda>key.
         let ciphertext = ve_encrypt E key nonce payload aad;
             rec = header_pack RECORD_FORMAT_VERSION key_version @ nonce @ ciphertext
         in Inr (v\<lparr>vt_backend := bo_put B (vault_key ctx token) rec expires (vt_backend v)\<rparr>)))"

definition open_record :: "vault_env \<Rightarrow> keyring \<Rightarrow> rat \<Rightarrow> req_context \<Rightarrow> ustr \<Rightarrow> ustr \<Rightarrow> bytes
    \<Rightarrow> ustr option res" where
  \<comment> \<open>the part of \<open>get\<close> after the record was found to have a known format\<close>
  "open_record E keys now ctx token token_version rec =
     (let (format_version, key_version) = header_unpack (take HEADER_LEN rec)
      in rbind (kr_aead keys key_version) (\<lambda>key.
         let nonce = pyslice rec HEADER_LEN (HEADER_LEN + NONCE_BYTES);
             ciphertext = drop (HEADER_LEN + NONCE_BYTES) rec;
             aad = vault_aad ctx token token_version key_version format_version
         in case ve_decrypt E key nonce ciphertext aad of
              None \<Rightarrow> Inr None
            | Some plaintext \<Rightarrow>
                (case ve_loads E plaintext of
                   None \<Rightarrow> Inl ValueError
                 | Some e \<Rightarrow>
                     if en_tenant e \<noteq> tenant_id ctx then Inl CrossTenantAccessError
                     else if en_conversation e \<noteq> conversation_id ctx then Inl CrossTenantAccessError
                     else if en_expires_at e \<le> now then Inr None
                     else Inr (Some (en_value e)))))"

definition vault_get :: "vault_env \<Rightarrow> 'b backend_ops \<Rightarrow> rat \<times> rat \<Rightarrow> req_context \<Rightarrow> ustr \<Rightarrow> ustr
    \<Rightarrow> 'b vault \<Rightarrow> ustr option res \<times> 'b vault" where
  \<comment> \<open>the two clock readings are the backend's and the final check's\<close>
  "vault_get E B now ctx token token_version v =
     (let (found, b') = bo_get B (fst now) (vault_key ctx token) (vt_backend v);
          v' = v\<lparr>vt_backend := b'\<rparr>
      in case found of
           None \<Rightarrow> (Inr None, v')
         | Some rec \<Rightarrow>
             if length rec < HEADER_LEN + NONCE_BYTES then (Inr None, v')
             else if fst (header_unpack (take HEADER_LEN rec)) \<noteq> RECORD_FORMAT_VERSION
             then (Inr None, v'\<lparr>vt_unknown := Suc (vt_unknown v')\<rparr>)
             else (open_record E (vt_keys v) (snd now) ctx token token_version rec, v'))"

definition vault_delete :: "'b backend_ops \<Rightarrow> req_context \<Rightarrow> ustr \<Rightarrow> 'b vault \<Rightarrow> 'b vault" where
  "vault_delete B ctx token v = v\<lparr>vt_backend := bo_delete B (vault_key ctx token) (vt_backend v)\<rparr>"

definition vault_delete_conversation :: "'b backend_ops \<Rightarrow> req_context \<Rightarrow> 'b vault \<Rightarrow> nat \<times> 'b vault" where
  "vault_delete_conversation B ctx v =
     (let (n, b') = bo_delete_prefix B (conversation_prefix ctx) (vt_backend v)
      in (n, v\<lparr>vt_backend := b'\<rparr>))"

definition vault_purge_expired :: "'b backend_ops \<Rightarrow> rat \<Rightarrow> 'b vault \<Rightarrow> nat \<times> 'b vault" where
  "vault_purge_expired B now v =
     (let (n, b') = bo_purge_expired B now (vt_backend v) in (n, v\<lparr>vt_backend := b'\<rparr>))"

subsection \<open>Binding of a record to its context\<close>

lemma vault_aad_inj:
  assumes "vault_aad c t tv kv fv = vault_aad c' t' tv' kv' fv'"
  shows "tenant_id c = tenant_id c' \<and> conversation_id c = conversation_id c' \<and> t = t' \<and> tv = tv'
     \<and> kv = kv' \<and> fv = fv'"
proof -
  have "length_prefixed [lit ''quiethours/vault'', tenant_id c, conversation_id c, t, tv] =
      length_prefixed [lit ''quiethours/vault'', tenant_id c', conversation_id c', t', tv'] \<and>
      header_pack fv kv = header_pack fv' kv'"
    using assms by (simp add: vault_aad_def append_eq_append_conv)
  then show ?thesis
    by (auto dest!: length_prefixed_inj dest: arg_cong [where f = header_unpack])
qed

definition nul_free :: "req_context \<Rightarrow> bool" where
  "nul_free ctx \<longleftrightarrow> 0 \<notin> set (tenant_id ctx) \<and> 0 \<notin> set (conversation_id ctx)"

lemma split_at_nul:
  assumes "a @ 0 # s = b @ 0 # t" and "(0::nat) \<notin> set a" and "0 \<notin> set b"
  shows "a = b \<and> s = t"
proof -
  have "takeWhile (\<lambda>c. c \<noteq> 0) (a @ 0 # s) = a" "takeWhile (\<lambda>c. c \<noteq> 0) (b @ 0 # t) = b"
    using assms(2,3) by (auto simp: takeWhile_append)
  with assms(1) show ?thesis by auto
qed

lemma conversation_prefix_inj:
  assumes "conversation_prefix c @ s = conversation_prefix c' @ t" and "nul_free c" and "nul_free c'"
  shows "tenant_id c = tenant_id c' \<and> conversation_id c = conversation_id c' \<and> s = t"
  using assms unfolding conversation_prefix_def nul_free_def
  by (auto dest!: split_at_nul)

lemma vault_key_prefix:
  assumes "nul_free c" "nul_free c'"
  shows "starts_with (vault_key c t) (conversation_prefix c') \<longleftrightarrow>
     tenant_id c = tenant_id c' \<and> conversation_id c = conversation_id c'"
proof
  assume "starts_with (vault_key c t) (conversation_prefix c')"
  then obtain s where "vault_key c t = conversation_prefix c' @ s"
    by (auto simp: starts_with_def) (metis append_take_drop_id)
  with conversation_prefix_inj [of c t c' s] assms
  show "tenant_id c = tenant_id c' \<and> conversation_id c = conversation_id c'"
    by (simp add: vault_key_def)
qed (simp add: vault_key_def starts_with_def conversation_prefix_def)

definition sealed :: "vault_env \<Rightarrow> bytes \<Rightarrow> nat \<Rightarrow> bytes \<Rightarrow> req_context \<Rightarrow> ustr \<Rightarrow> ustr \<Rightarrow> ustr \<Rightarrow> rat \<Rightarrow> bytes" where
  \<comment> \<open>the record \<open>put\<close> stores\<close>
  "sealed E key kv nonce ctx token value tv expires =
     header_pack RECORD_FORMAT_VERSION kv @ nonce @
       ve_encrypt E key nonce (ve_dumps E (vault_entry ctx token value tv expires))
         (vault_aad ctx token tv kv RECORD_FORMAT_VERSION)"

lemma vault_put_sealed:
  "vault_put E B now nonce ctx token value tv v =
     rbind (kr_aead (vt_keys v) (kr_active (vt_keys v))) (\<lambda>key.
       Inr (v\<lparr>vt_backend := bo_put B (vault_key ctx token)
          (sealed E key (kr_active (vt_keys v)) nonce ctx token value tv (now + vt_ttl v))
          (now + vt_ttl v) (vt_backend v)\<rparr>))"
  by (simp add: vault_put_def sealed_def Let_def)

lemma sealed_shape:
  assumes "length nonce = NONCE_BYTES"
  shows "HEADER_LEN + NONCE_BYTES \<le> length (sealed E key kv nonce ctx token value tv e)"
    and "header_unpack (take HEADER_LEN (sealed E key kv nonce ctx token value tv e))
          = (RECORD_FORMAT_VERSION, kv)"
    and "pyslice (sealed E key kv nonce ctx token value tv e) HEADER_LEN (HEADER_LEN + NONCE_BYTES) = nonce"
    and "drop (HEADER_LEN + NONCE_BYTES) (sealed E key kv nonce ctx token value tv e) =
          ve_encrypt E key nonce (ve_dumps E (vault_entry ctx token value tv e))
            (vault_aad ctx token tv kv RECORD_FORMAT_VERSION)"
  using assms by (simp_all add: sealed_def pyslice_def)

lemma open_sealed:
  assumes "aead_ok E" and "length nonce = NONCE_BYTES" and "kr_aead keys kv = Inr key"
  shows "open_record E keys now ctx token tv (sealed E key kv nonce ctx token value tv expires) =
     (if expires \<le> now then Inr None else Inr (Some value))"
  unfolding open_record_def sealed_shape [OF assms(2)]
  by (simp add: sealed_shape [OF assms(2)] assms(3) aead_okD [OF assms(1)] vault_entry_def)

lemma open_relocated:
  assumes "aead_ok E" and "length nonce = NONCE_BYTES" and "kr_aead keys kv = Inr key'"
    and "(tenant_id c, conversation_id c, t, tv) \<noteq> (tenant_id c', conversation_id c', t', tv')"
  shows "open_record E keys now c' t' tv' (sealed E key kv nonce c t value tv expires) = Inr None"
proof -
  have "vault_aad c t tv kv RECORD_FORMAT_VERSION \<noteq> vault_aad c' t' tv' kv RECORD_FORMAT_VERSION"
    using assms(4) by (auto dest: vault_aad_inj)
  then show ?thesis
    unfolding open_record_def sealed_shape [OF assms(2)]
    by (simp add: sealed_shape [OF assms(2)] assms(3) aead_okD(2) [OF assms(1)])
qed

text \<open>What the vault promises over any backend that keeps its contract.\<close>

context vault_backend
begin

lemma vault_get_of_put:
  assumes "aead_ok E" "invar (vt_backend v)" "length nonce = NONCE_BYTES"
    and "vault_put E B now nonce ctx token value tv v = Inr v'"
    and "fst t < now + vt_ttl v" "snd t < now + vt_ttl v"
  shows "fst (vault_get E B t ctx token tv v') = Inr (Some value)"
proof -
  from assms(4) obtain key where key: "kr_aead (vt_keys v) (kr_active (vt_keys v)) = Inr key"
    and v': "v' = v\<lparr>vt_backend := bo_put B (vault_key ctx token)
       (sealed E key (kr_active (vt_keys v)) nonce ctx token value tv (now + vt_ttl v))
       (now + vt_ttl v) (vt_backend v)\<rparr>"
    by (auto simp: vault_put_sealed res_simps)
  show ?thesis
    using assms(5,6) get_put [OF assms(2) assms(5)]
    by (simp add: vault_get_def v' case_prod_unfold Let_def sealed_shape [OF assms(3)] not_less
        open_sealed [OF assms(1,3) key])
qed

lemma vault_get_expired:
  assumes "invar (vt_backend v)" and "vault_put E B now nonce ctx token value tv v = Inr v'"
    and "now + vt_ttl v \<le> fst t"
  shows "fst (vault_get E B t ctx token tv' v') = Inr None"
  using assms
  by (auto simp: vault_put_sealed res_simps vault_get_def case_prod_unfold get_result invar_put abs_put live_def)

lemma vault_get_other_context:
  assumes "invar (vt_backend v)" and "nul_free ctx" "nul_free ctx'"
    and "(tenant_id ctx, conversation_id ctx) \<noteq> (tenant_id ctx', conversation_id ctx')"
    and "vault_put E B now nonce ctx token value tv v = Inr v'"
  shows "fst (vault_get E B t ctx' token' tv' v') = fst (vault_get E B t ctx' token' tv' v)"
proof -
  have "vault_key ctx' token' \<noteq> vault_key ctx token"
    using assms(2-4) conversation_prefix_inj [of ctx token ctx' token']
    by (auto simp: vault_key_def)
  with assms(1,5) show ?thesis
    by (auto simp: vault_put_sealed res_simps vault_get_def case_prod_unfold Let_def get_put_other
        split: option.splits)
qed

lemma vault_get_after_erasure:
  assumes "invar (vt_backend v)" and "nul_free ctx" "nul_free ctx'"
  shows "fst (vault_get E B t ctx' token tv (snd (vault_delete_conversation B ctx v))) =
     (if tenant_id ctx' = tenant_id ctx \<and> conversation_id ctx' = conversation_id ctx
      then Inr None else fst (vault_get E B t ctx' token tv v))"
  using assms vault_key_prefix [OF assms(3,2), of token]
  by (auto simp: vault_delete_conversation_def vault_get_def case_prod_unfold Let_def
      get_delete_prefix split: option.splits)

end

end
