(* ===== verification/Samples.thy ===== *)
theory Samples
  imports Vault
begin

text \<open>
  Concrete instances of what the model takes as parameters: an AEAD with a payload codec that meets
  \<open>aead_ok\<close>, a request context, a key ring and an empty vault over the in-memory backend.  Properties
  with a hypothesis on a parameter are applied at these in their witnesses.
\<close>

definition put_list :: "nat list \<Rightarrow> nat list" where
  "put_list xs = length xs # xs"

fun get_list :: "nat list \<Rightarrow> (nat list \<times> nat list) option" where
  "get_list [] = None"
| "get_list (n # r) = (if n \<le> length r then Some (take n r, drop n r) else None)"

lemma get_put_list [simp]: "get_list (put_list xs @ r) = Some (xs, r)"
  by (simp add: put_list_def)

definition put_rat :: "rat \<Rightarrow> nat list" where
  "put_rat r = (let (p, q) = quotient_of r in [if p < 0 then 1 else 0, nat \<bar>p\<bar>, nat q])"

fun get_rat :: "nat list \<Rightarrow> rat option" where
  "get_rat [s, p, q] = Some ((if s = 1 then - of_nat p else of_nat p) / of_nat q)"
| "get_rat _ = None"

lemma get_put_rat [simp]: "get_rat (put_rat r) = Some r"
proof -
  obtain p q where pq: "quotient_of r = (p, q)" by (cases "quotient_of r")
  then have q: "0 < q" and r: "r = of_int p / of_int q"
    by (rule quotient_of_denom_pos, rule quotient_of_div)
  have "put_rat r = [if p < 0 then 1 else 0, nat \<bar>p\<bar>, nat q]" by (simp add: put_rat_def pq)
  with q show ?thesis unfolding r by (cases "p < 0") simp_all
qed

definition sample_dumps :: "entry \<Rightarrow> bytes" where
  "sample_dumps e = put_list (en_tenant e) @ put_list (en_conversation e) @ put_list (en_token e)
     @ put_list (en_token_version e) @ put_list (en_value e) @ put_rat (en_expires_at e)"

definition sample_loads :: "bytes \<Rightarrow> entry option" where
  "sample_loads b =
     Option.bind (get_list b) (\<lambda>(tn, b). Option.bind (get_list b) (\<lambda>(cv, b).
     Option.bind (get_list b) (\<lambda>(tk, b). Option.bind (get_list b) (\<lambda>(tv, b).
     Option.bind (get_list b) (\<lambda>(va, b). map_option (\<lambda>r.
       \<lparr>en_tenant = tn, en_conversation = cv, en_token = tk, en_token_version = tv,
        en_value = va, en_expires_at = r\<rparr>) (get_rat b))))))"

definition sample_box :: "bytes \<Rightarrow> bytes \<Rightarrow> bytes" where
  "sample_box k a = put_list k @ put_list a"

definition sample_env :: vault_env where
  "sample_env = \<lparr>ve_encrypt = (\<lambda>k n p a. sample_box k a @ p),
     ve_decrypt = (\<lambda>k n c a. if take (length (sample_box k a)) c = sample_box k a
                     then Some (drop (length (sample_box k a)) c) else None),
     ve_dumps = sample_dumps, ve_loads = sample_loads\<rparr>"

lemma sample_box_prefix:
  assumes "take (length (sample_box k' a')) (sample_box k a @ p) = sample_box k' a'"
  shows "k = k' \<and> a = a'"
proof -
  from assms have "sample_box k a @ p = sample_box k' a' @ drop (length (sample_box k' a')) (sample_box k a @ p)"
    by (metis append_take_drop_id)
  then have "get_list (put_list k @ put_list a @ p) =
     get_list (put_list k' @ put_list a' @ drop (length (sample_box k' a')) (sample_box k a @ p))"
    by (simp add: sample_box_def)
  then have "k = k'" "put_list a @ p = put_list a' @ drop (length (sample_box k' a')) (sample_box k a @ p)"
    by simp_all
  moreover from this(2) have "a = a'"
    using get_put_list by (metis option.inject prod.inject)
  ultimately show ?thesis by simp
qed

lemma sample_decrypt:
  "ve_decrypt sample_env k' n (ve_encrypt sample_env k n p a) a' = (if k = k' \<and> a = a' then Some p else None)"
proof (cases "k = k' \<and> a = a'")
  case False
  then have "take (length (sample_box k' a')) (sample_box k a @ p) \<noteq> sample_box k' a'"
    using sample_box_prefix by blast
  with False show ?thesis by (simp add: sample_env_def)
qed (simp add: sample_env_def)

lemma sample_codec: "sample_loads (sample_dumps e) = Some e"
  by (simp add: sample_loads_def sample_dumps_def)

lemma sample_env_ok: "aead_ok sample_env"
  unfolding aead_ok_def sample_decrypt by (simp add: sample_env_def sample_codec)

definition sample_ctx :: req_context where
  "sample_ctx = \<lparr>tenant_id = lit ''acme'', conversation_id = lit ''c-1'', request_id = lit ''r-1'',
     api_key_id = lit ''k-1'', application = lit ''app''\<rparr>"

definition sample_ctx2 :: req_context where
  "sample_ctx2 = \<lparr>tenant_id = lit ''other'', conversation_id = lit ''c-1'', request_id = lit ''r-2'',
     api_key_id = lit ''k-2'', application = lit ''app''\<rparr>"

definition sample_keys :: keyring where
  "sample_keys = \<lparr>kr_keys = [(1, replicate 32 7)], kr_active = 1\<rparr>"

definition sample_vault :: "items vault" where
  "sample_vault = \<lparr>vt_keys = sample_keys, vt_backend = [], vt_ttl = 3600, vt_unknown = 0\<rparr>"

definition sample_nonce :: bytes where
  "sample_nonce = replicate 12 0"

lemma length_sample_nonce [simp]: "length sample_nonce = NONCE_BYTES"
  by (simp add: sample_nonce_def NONCE_BYTES_def)

lemma sample_keys_ok [simp]: "keyring_ok sample_keys" "kr_aead sample_keys (kr_active sample_keys) = Inr (replicate 32 7)"
  by (simp_all add: keyring_ok_def sample_keys_def kr_aead_def)

lemma sample_vault_simps [simp]:
  "vt_keys sample_vault = sample_keys" "vt_backend sample_vault = []" "vt_ttl sample_vault = 3600"
  "mem_invar []"
  by (simp_all add: sample_vault_def mem_invar_def)

lemma sample_ctx_nul_free [simp]: "nul_free sample_ctx" "nul_free sample_ctx2"
  by (simp_all add: nul_free_def sample_ctx_def sample_ctx2_def lit_def of_char_def)

lemma sample_ctx_distinct [simp]:
  "(tenant_id sample_ctx, conversation_id sample_ctx) \<noteq> (tenant_id sample_ctx2, conversation_id sample_ctx2)"
  "tenant_id sample_ctx \<noteq> tenant_id sample_ctx2"
  by (simp_all add: sample_ctx_def sample_ctx2_def lit_def of_char_def)

end
