(* ===== verification/VaultFacts.thy ===== *)
theory VaultFacts
  imports Samples
begin

text \<open>
  What the surrogate vault guarantees over the in-memory backend: the laws proved once in the locale
  \<open>vault_backend\<close>, at its interpretation \<open>mem\<close> on the code's own backend.
\<close>

definition sample_token :: ustr where
  "sample_token = token_string (lit ''EMAIL'') (lit ''v1'') (replicate 32 48)"

definition sample_value :: ustr where
  "sample_value = lit ''a@b.eu''"

definition sample_stored :: "items vault" where
  "sample_stored = sample_vault\<lparr>vt_backend := [(vault_key sample_ctx sample_token,
     sealed sample_env (replicate 32 7) 1 sample_nonce sample_ctx sample_token sample_value (lit ''v1'') 3600,
     3600)]\<rparr>"

lemma sample_put:
  "vault_put sample_env in_memory 0 sample_nonce sample_ctx sample_token sample_value (lit ''v1'') sample_vault
     = Inr sample_stored"
  by (simp add: vault_put_sealed sample_stored_def in_memory_def mem_put_def res_simps)
    (simp add: sample_keys_def)

lemma sample_stored_simps [simp]:
  "vt_keys sample_stored = sample_keys" "mem_invar (vt_backend sample_stored)"
  by (simp_all add: sample_stored_def mem_invar_def)

lemma sample_token_is_token: "is_token sample_token"
  unfolding is_token_def sample_token_def
  by (rule exI [of _ "lit ''EMAIL''"], rule exI [of _ "replicate 32 48"])
    (auto simp: entity_ok_def tag_ok_def is_lower_hex_def is_ent_def is_upper_def lit_def of_char_def)

text \<open>C29: What is put under a context is what a read under that context returns, until its TTL.\<close>

theorem vault_roundtrip:
  assumes "aead_ok E" and "mem_invar (vt_backend v)" and "length nonce = NONCE_BYTES"
    and "vault_put E in_memory now nonce ctx token value tv v = Inr v'"
    and "fst t < now + vt_ttl v" and "snd t < now + vt_ttl v"
  shows "fst (vault_get E in_memory t ctx token tv v') = Inr (Some value)"
  using assms by (rule mem.vault_get_of_put)

theorem vault_roundtrip_witness:
  "fst (vault_get sample_env in_memory (10, 10) sample_ctx sample_token (lit ''v1'') sample_stored)
     = Inr (Some sample_value)"
  by (rule vault_roundtrip [OF sample_env_ok _ _ sample_put]) simp_all

text \<open>From the expiry instant on a read finds nothing, whether or not a sweep has run.\<close>

theorem vault_ttl_on_read:
  assumes "mem_invar (vt_backend v)"
    and "vault_put E in_memory now nonce ctx token value tv v = Inr v'"
    and "now + vt_ttl v \<le> fst t"
  shows "fst (vault_get E in_memory t ctx token tv' v') = Inr None"
  using assms by (rule mem.vault_get_expired)

theorem vault_ttl_on_read_witness:
  "fst (vault_get sample_env in_memory (3600, 3600) sample_ctx sample_token (lit ''v1'') sample_stored) = Inr None"
  by (rule vault_ttl_on_read [OF _ sample_put]) simp_all

text \<open>
  C22: Writing under one tenant or conversation changes nothing that another tenant or conversation
  reads.  Identifiers without NUL are assumed: the storage key is a NUL-separated concatenation.
\<close>

theorem vault_context_isolation:
  assumes "mem_invar (vt_backend v)" and "nul_free ctx" and "nul_free ctx'"
    and "(tenant_id ctx, conversation_id ctx) \<noteq> (tenant_id ctx', conversation_id ctx')"
    and "vault_put E in_memory now nonce ctx token value tv v = Inr v'"
  shows "fst (vault_get E in_memory t ctx' token' tv' v') = fst (vault_get E in_memory t ctx' token' tv' v)"
  using assms by (rule mem.vault_get_other_context)

theorem vault_context_isolation_witness:
  "fst (vault_get sample_env in_memory (10, 10) sample_ctx2 sample_token (lit ''v1'') sample_stored) =
   fst (vault_get sample_env in_memory (10, 10) sample_ctx2 sample_token (lit ''v1'') sample_vault)"
  by (rule vault_context_isolation [OF _ _ _ _ sample_put]) simp_all

text \<open>
  C28: A record moved by someone who can write the store, to the key of another tenant, conversation or
  token, or read under another token version, never opens: the read finds nothing.
\<close>

theorem vault_relocated_record:
  assumes "aead_ok E" and "mem_invar (vt_backend v)" and "length nonce = NONCE_BYTES"
    and "vault_put E in_memory now nonce c token value tv v = Inr v'"
    and "map_of (vt_backend v') (vault_key c token) = Some (blob, expires)"
    and "(tenant_id c, conversation_id c, token, tv) \<noteq> (tenant_id c', conversation_id c', token', tv')"
  shows "fst (vault_get E in_memory t c' token' tv'
     (v'\<lparr>vt_backend := mem_put (vault_key c' token') blob expires' (vt_backend v')\<rparr>)) = Inr None"
proof -
  from assms(4) obtain key where key: "kr_aead (vt_keys v) (kr_active (vt_keys v)) = Inr key"
    and v': "v' = v\<lparr>vt_backend := mem_put (vault_key c token)
       (sealed E key (kr_active (vt_keys v)) nonce c token value tv (now + vt_ttl v))
       (now + vt_ttl v) (vt_backend v)\<rparr>"
    by (auto simp: vault_put_sealed res_simps in_memory_def)
  from assms(5) v' have "blob = sealed E key (kr_active (vt_keys v)) nonce c token value tv (now + vt_ttl v)"
    by (auto simp: mem_put_def)
  then show ?thesis
    using v' sealed_shape [OF assms(3)] open_relocated [OF assms(1,3) key assms(6)]
    by (simp add: vault_get_def in_memory_def mem_get_def mem_put_def case_prod_unfold Let_def not_less)
qed

theorem vault_relocated_record_witness:
  "fst (vault_get sample_env in_memory (10, 10) sample_ctx2 sample_token (lit ''v1'')
     (sample_stored\<lparr>vt_backend := mem_put (vault_key sample_ctx2 sample_token)
        (sealed sample_env (replicate 32 7) 1 sample_nonce sample_ctx sample_token sample_value (lit ''v1'') 3600)
        9000 (vt_backend sample_stored)\<rparr>)) = Inr None"
  by (rule vault_relocated_record [OF sample_env_ok _ _ sample_put])
    (simp_all add: sample_stored_def)

text \<open>
  C30: Erasing a conversation makes every later read of it find nothing, leaves the reads of every other
  conversation as they were, and counts the records it removed.
\<close>

theorem vault_erasure_exact:
  assumes "mem_invar (vt_backend v)" and "nul_free ctx" and "nul_free ctx'"
  shows "fst (vault_get E in_memory t ctx' token tv (snd (vault_delete_conversation in_memory ctx v))) =
     (if tenant_id ctx' = tenant_id ctx \<and> conversation_id ctx' = conversation_id ctx
      then Inr None else fst (vault_get E in_memory t ctx' token tv v))
   \<and> fst (vault_delete_conversation in_memory ctx v) =
       card {k \<in> dom (map_of (vt_backend v)). starts_with k (conversation_prefix ctx)}"
  using mem.vault_get_after_erasure [OF assms] mem.count_delete_prefix [OF assms(1)]
  by (simp add: vault_delete_conversation_def case_prod_unfold)

theorem vault_erasure_exact_witness:
  "fst (vault_get sample_env in_memory (10, 10) sample_ctx sample_token (lit ''v1'')
     (snd (vault_delete_conversation in_memory sample_ctx sample_stored))) = Inr None"
  using vault_erasure_exact [of sample_stored sample_ctx sample_ctx sample_env "(10, 10)" sample_token "lit ''v1''"]
  by simp

text \<open>
  A record of a key version that has been taken off the key ring is never read as absent: the read
  raises \<open>VaultKeyUnavailableError\<close>.
\<close>

theorem vault_missing_key_is_loud:
  assumes "mem_invar (vt_backend v)" and "length nonce = NONCE_BYTES"
    and "vault_put E in_memory now nonce ctx token value tv v = Inr v'"
    and "map_of (kr_keys ring) (kr_active (vt_keys v)) = None" and "fst t < now + vt_ttl v"
  shows "fst (vault_get E in_memory t ctx token tv' (v'\<lparr>vt_keys := ring\<rparr>)) = Inl VaultKeyUnavailableError"
proof -
  from assms(3) obtain key where
    v': "v' = v\<lparr>vt_backend := bo_put in_memory (vault_key ctx token)
       (sealed E key (kr_active (vt_keys v)) nonce ctx token value tv (now + vt_ttl v))
       (now + vt_ttl v) (vt_backend v)\<rparr>"
    by (auto simp: vault_put_sealed res_simps)
  show ?thesis
    using mem.get_put [OF assms(1,5)] assms(4)
    by (simp add: vault_get_def v' case_prod_unfold Let_def sealed_shape [OF assms(2)] not_less
        open_record_def kr_aead_def res_simps)
qed

theorem vault_missing_key_is_loud_witness:
  "fst (vault_get sample_env in_memory (10, 10) sample_ctx sample_token (lit ''v1'')
     (sample_stored\<lparr>vt_keys := \<lparr>kr_keys = [(2, replicate 32 9)], kr_active = 2\<rparr>\<rparr>)) = Inl VaultKeyUnavailableError"
  by (rule vault_missing_key_is_loud [OF _ _ sample_put]) (simp_all add: sample_keys_def)

text \<open>
  A sweep is invisible: it removes exactly the records that a later read would refuse anyway, so
  a sweeper that fails or runs twice never changes what is readable.
\<close>

theorem vault_purge_invisible:
  assumes "mem_invar (vt_backend v)" and "now \<le> fst t"
  shows "fst (vault_get E in_memory t ctx token tv (snd (vault_purge_expired in_memory now v))) =
     fst (vault_get E in_memory t ctx token tv v)"
  using mem.get_purge [OF assms, of "vault_key ctx token"]
  by (auto simp: vault_purge_expired_def vault_get_def case_prod_unfold Let_def split: option.splits)

theorem vault_purge_invisible_witness:
  "fst (vault_get sample_env in_memory (10, 10) sample_ctx sample_token (lit ''v1'')
     (snd (vault_purge_expired in_memory 5 sample_stored))) =
   fst (vault_get sample_env in_memory (10, 10) sample_ctx sample_token (lit ''v1'') sample_stored)"
  by (rule vault_purge_invisible) simp_all

text \<open>
  The associated data of a record determines its tenant, conversation, token, token version, key
  version and format version: no two records that differ in one of them share it.
\<close>

theorem vault_aad_binds:
  "vault_aad c t tv kv fv = vault_aad c' t' tv' kv' fv' \<longleftrightarrow>
     (tenant_id c, conversation_id c, t, tv, kv, fv) = (tenant_id c', conversation_id c', t', tv', kv', fv')"
  using vault_aad_inj [of c t tv kv fv c' t' tv' kv' fv'] by (auto simp: vault_aad_def)

end
