(* ===== verification/Conflicts.thy ===== *)
theory Conflicts
  imports Domain "HOL-Library.Product_Lexorder" "HOL-Library.List_Lexorder" "HOL-Library.Multiset"
begin

text \<open>
  Span conflict resolution, \<^verbatim>\<open>resolve_conflicts\<close> of \<^verbatim>\<open>gateway/detectors/base.py\<close>: spans are ranked by a
  total key and kept greedily; a binary search over the starts of the kept spans finds the only two
  that can block a candidate.  \<open>resolve_reference\<close> is the plain quadratic loop it replaces.
\<close>

subsection \<open>The code\<close>

function bisect_right :: "nat list \<Rightarrow> nat \<Rightarrow> nat \<Rightarrow> nat \<Rightarrow> nat" where
  \<comment> \<open>\<open>bisect.bisect_right\<close> of the standard library\<close>
  "bisect_right a x lo hi =
     (if lo < hi
      then (let mid = (lo + hi) div 2
            in if x < a ! mid then bisect_right a x lo mid else bisect_right a x (Suc mid) hi)
      else lo)"
  by auto
termination by (relation "measure (\<lambda>(a, x, lo, hi). hi - lo)") auto

declare bisect_right.simps [simp del]

type_synonym rank = "rat \<times> int \<times> nat \<times> ustr \<times> ustr"

definition rank_key :: "span \<Rightarrow> rank" where
  "rank_key s = (- sp_score s, - int (sp_length s), sp_start s, sp_type s, sp_detector s)"

definition insert_at :: "nat \<Rightarrow> 'a \<Rightarrow> 'a list \<Rightarrow> 'a list" where
  "insert_at p x xs = take p xs @ x # drop p xs"

definition keep_step :: "span \<Rightarrow> span list \<times> nat list \<Rightarrow> span list \<times> nat list" where
  "keep_step s ks =
     (let (kept, starts) = ks;
          position = bisect_right starts (sp_start s) 0 (length starts)
      in if position \<noteq> 0 \<and> sp_start s < sp_end (kept ! (position - 1)) then (kept, starts)
         else if position < length kept \<and> sp_start (kept ! position) < sp_end s then (kept, starts)
         else (insert_at position s kept, insert_at position (sp_start s) starts))"

definition resolve_conflicts :: "span list \<Rightarrow> span list" where
  "resolve_conflicts spans =
     (if spans = [] then [] else fst (fold keep_step (sort_key rank_key spans) ([], [])))"

subsection \<open>The reference: keep a span unless it overlaps one kept before\<close>

definition reference_step :: "span \<Rightarrow> span list \<Rightarrow> span list" where
  "reference_step s kept = (if list_ex (overlaps s) kept then kept else kept @ [s])"

definition resolve_reference :: "span list \<Rightarrow> span list" where
  "resolve_reference spans = sort_key sp_start (fold reference_step (sort_key rank_key spans) [])"

subsection \<open>Binary search\<close>

lemma bisect_right_correct:
  assumes "sorted a" "lo \<le> hi" "hi \<le> length a"
    and "\<And>i. i < lo \<Longrightarrow> a ! i \<le> x" and "\<And>i. hi \<le> i \<Longrightarrow> i < length a \<Longrightarrow> x < a ! i"
  shows "bisect_right a x lo hi \<le> length a \<and> (\<forall>i < bisect_right a x lo hi. a ! i \<le> x)
     \<and> (\<forall>i. bisect_right a x lo hi \<le> i \<longrightarrow> i < length a \<longrightarrow> x < a ! i)"
  using assms
proof (induction a x lo hi rule: bisect_right.induct)
  case (1 a x lo hi)
  show ?case
  proof (cases "lo < hi")
    case False
    then have "bisect_right a x lo hi = lo" by (subst bisect_right.simps) simp
    moreover have "lo = hi" using False "1.prems" by simp
    ultimately show ?thesis using "1.prems" by simp
  next
    case True
    define mid where "mid = (lo + hi) div 2"
    from True have mid: "lo \<le> mid" "mid < hi" by (simp_all add: mid_def)
    show ?thesis
    proof (cases "x < a ! mid")
      case less: True
      have eq: "bisect_right a x lo hi = bisect_right a x lo mid"
        using True less by (subst bisect_right.simps) (simp add: mid_def)
      have up: "x < a ! i" if "mid \<le> i" "i < length a" for i
        using less sorted_nth_mono [OF "1.prems"(1) that] by simp
      have "mid \<le> length a" using mid(2) "1.prems"(3) by simp
      from "1.IH"(1) [OF True mid_def less "1.prems"(1) mid(1) this "1.prems"(4) up]
      show ?thesis unfolding eq .
    next
      case ge: False
      have eq: "bisect_right a x lo hi = bisect_right a x (Suc mid) hi"
        using True ge by (subst bisect_right.simps) (simp add: mid_def)
      have low: "a ! i \<le> x" if "i < Suc mid" for i
        using ge sorted_nth_mono [OF "1.prems"(1), of i mid] that mid "1.prems"(3) by simp
      have "Suc mid \<le> hi" using mid(2) by simp
      from "1.IH"(2) [OF True mid_def ge "1.prems"(1) this "1.prems"(3) low "1.prems"(5)]
      show ?thesis unfolding eq .
    qed
  qed
qed

subsection \<open>The kept spans\<close>

definition disjoint_sorted :: "span list \<Rightarrow> bool" where
  "disjoint_sorted = sorted_wrt (\<lambda>a b. sp_end a \<le> sp_start b)"

definition kept_inv :: "span list \<times> nat list \<Rightarrow> bool" where
  "kept_inv ks \<longleftrightarrow> snd ks = map sp_start (fst ks) \<and> disjoint_sorted (fst ks)
     \<and> (\<forall>s \<in> set (fst ks). sp_start s \<le> sp_end s)"

lemma disjoint_sorted_starts:
  assumes "disjoint_sorted ks" "\<forall>s \<in> set ks. sp_start s \<le> sp_end s"
  shows "sorted (map sp_start ks)"
  using assms unfolding disjoint_sorted_def sorted_map
  by (induction ks) (auto intro: order_trans)

lemma disjoint_sorted_nth:
  assumes "disjoint_sorted ks" "\<forall>s \<in> set ks. sp_start s \<le> sp_end s" "i \<le> j" "j < length ks"
  shows "sp_end (ks ! i) \<le> sp_end (ks ! j)" and "sp_start (ks ! i) \<le> sp_start (ks ! j)"
proof -
  have "i = j \<or> sp_end (ks ! i) \<le> sp_start (ks ! j)"
    using assms by (cases "i = j") (simp_all add: disjoint_sorted_def sorted_wrt_iff_nth_less)
  moreover have "sp_start (ks ! j) \<le> sp_end (ks ! j)" "sp_start (ks ! i) \<le> sp_end (ks ! i)"
    using assms by simp_all
  ultimately show "sp_end (ks ! i) \<le> sp_end (ks ! j)" "sp_start (ks ! i) \<le> sp_start (ks ! j)"
    by auto
qed

text \<open>What the two neighbour checks decide, and where a kept span goes.\<close>

lemma keep_step_cases:
  assumes inv: "kept_inv (kept, starts)"
  obtains
    (pred) k where "keep_step s (kept, starts) = (kept, starts)" "k \<in> set kept"
      "sp_start k \<le> sp_start s" "sp_start s < sp_end k"
  | (succ) k where "keep_step s (kept, starts) = (kept, starts)" "k \<in> set kept"
      "sp_start s < sp_start k" "sp_start k < sp_end s"
  | (place) p where "keep_step s (kept, starts) = (insert_at p s kept, insert_at p (sp_start s) starts)"
      "p \<le> length kept" "\<forall>k \<in> set (take p kept). sp_end k \<le> sp_start s"
      "\<forall>k \<in> set (drop p kept). sp_end s \<le> sp_start k"
proof -
  have st: "starts = map sp_start kept" and ds: "disjoint_sorted kept"
    and ok: "\<forall>s \<in> set kept. sp_start s \<le> sp_end s"
    using inv by (simp_all add: kept_inv_def)
  define p where "p = bisect_right starts (sp_start s) 0 (length starts)"
  have "sorted starts" using disjoint_sorted_starts [OF ds ok] st by simp
  from bisect_right_correct [OF this, of 0 "length starts" "sp_start s"]
  have p: "p \<le> length kept" "\<forall>i < p. sp_start (kept ! i) \<le> sp_start s"
    "\<forall>i. p \<le> i \<longrightarrow> i < length kept \<longrightarrow> sp_start s < sp_start (kept ! i)"
    by (auto simp: st p_def)
  show ?thesis
  proof (cases "p \<noteq> 0 \<and> sp_start s < sp_end (kept ! (p - 1))")
    case True
    then show ?thesis using p
      by (intro pred [of "kept ! (p - 1)"]) (auto simp: keep_step_def p_def [symmetric])
  next
    case no_pred: False
    show ?thesis
    proof (cases "p < length kept \<and> sp_start (kept ! p) < sp_end s")
      case True
      then show ?thesis using p no_pred
        by (intro succ [of "kept ! p"]) (auto simp: keep_step_def p_def [symmetric])
    next
      case no_succ: False
      have "sp_end k \<le> sp_start s" if k: "k \<in> set (take p kept)" for k
      proof -
        from k p(1) obtain i where i: "i < p" "k = kept ! i"
          by (auto simp: in_set_conv_nth)
        then have "i \<le> p - 1" "p - 1 < length kept" "p \<noteq> 0" using p(1) by auto
        with disjoint_sorted_nth(1) [OF ds ok, of i "p - 1"] no_pred i(2) show ?thesis by simp
      qed
      moreover have "sp_end s \<le> sp_start k" if k: "k \<in> set (drop p kept)" for k
      proof -
        from k obtain j where "j < length (drop p kept)" "k = drop p kept ! j"
          by (metis in_set_conv_nth)
        then have i: "p \<le> p + j" "p + j < length kept" "k = kept ! (p + j)" by simp_all
        with disjoint_sorted_nth(2) [OF ds ok i(1,2)] no_succ show ?thesis by simp
      qed
      ultimately show ?thesis using p(1) no_pred no_succ
        by (intro place [of p]) (auto simp: keep_step_def p_def [symmetric])
    qed
  qed
qed

lemma set_insert_at [simp]: "set (insert_at p x xs) = insert x (set xs)"
proof -
  have "set xs = set (take p xs) \<union> set (drop p xs)" by (metis append_take_drop_id set_append)
  then show ?thesis by (auto simp: insert_at_def)
qed

lemma kept_inv_step:
  assumes inv: "kept_inv ks" and s: "sp_start s \<le> sp_end s"
  shows "kept_inv (keep_step s ks)"
proof -
  obtain kept starts where ks: "ks = (kept, starts)" by fastforce
  from inv have i: "starts = map sp_start kept" "disjoint_sorted kept" "\<forall>s \<in> set kept. sp_start s \<le> sp_end s"
    by (simp_all add: ks kept_inv_def)
  show ?thesis
    using inv [unfolded ks]
  proof (cases rule: keep_step_cases [where s = s])
    case (place p)
    have "disjoint_sorted (take p kept @ drop p kept)" using i(2) by simp
    then have "disjoint_sorted (insert_at p s kept)"
      using place(3,4) unfolding disjoint_sorted_def insert_at_def sorted_wrt_append
      by (auto dest: in_set_takeD in_set_dropD)
    moreover have "insert_at p (sp_start s) starts = map sp_start (insert_at p s kept)"
      by (simp add: insert_at_def i(1) take_map drop_map)
    ultimately show ?thesis using place(1) s i(3) by (auto simp: kept_inv_def ks)
  qed (use inv ks in auto)
qed

lemma kept_inv_fold:
  assumes "\<forall>s \<in> set ss. sp_start s \<le> sp_end s" "kept_inv ks"
  shows "kept_inv (fold keep_step ss ks)"
  using assms by (induction ss arbitrary: ks) (simp_all add: kept_inv_step)

lemma kept_inv_Nil [simp]: "kept_inv ([], [])"
  by (simp add: kept_inv_def disjoint_sorted_def)

lemma kept_inv_resolve:
  assumes "\<forall>s \<in> set spans. sp_start s \<le> sp_end s"
  shows "kept_inv (fold keep_step (sort_key rank_key spans) ([], []))"
  by (rule kept_inv_fold) (use assms in simp_all)

lemma resolve_fold: "resolve_conflicts spans = fst (fold keep_step (sort_key rank_key spans) ([], []))"
  by (simp add: resolve_conflicts_def)

lemma resolve_disjoint:
  "\<forall>s \<in> set spans. sp_start s \<le> sp_end s \<Longrightarrow> disjoint_sorted (resolve_conflicts spans)"
  using kept_inv_resolve [of spans] by (simp add: resolve_fold kept_inv_def)

subsection \<open>Every span is kept or overlaps a kept one\<close>

definition proper :: "span \<Rightarrow> bool" where
  "proper s \<longleftrightarrow> sp_start s < sp_end s"

lemma keep_step_proper:
  assumes inv: "kept_inv ks" and s: "proper s" and ok: "\<forall>k \<in> set (fst ks). proper k"
  shows "if \<exists>k \<in> set (fst ks). overlaps s k then keep_step s ks = ks
     else set (fst (keep_step s ks)) = insert s (set (fst ks))"
proof -
  obtain kept starts where ks: "ks = (kept, starts)" by fastforce
  show ?thesis
    using inv [unfolded ks]
  proof (cases rule: keep_step_cases [where s = s])
    case (pred k)
    with s have "overlaps s k" by (auto simp: overlaps_def proper_def)
    with pred show ?thesis by (auto simp: ks)
  next
    case (succ k)
    with ok ks have "overlaps s k" by (auto simp: overlaps_def proper_def)
    with succ show ?thesis by (auto simp: ks)
  next
    case (place p)
    have "set kept = set (take p kept) \<union> set (drop p kept)"
      by (metis append_take_drop_id set_append)
    with place(3,4) have "\<not> overlaps s k" if "k \<in> set kept" for k
      using that by (auto simp: overlaps_def)
    with place show ?thesis by (auto simp: ks)
  qed
qed

lemma reference_agrees:
  assumes "\<forall>s \<in> set ss. proper s" "kept_inv ks" "\<forall>k \<in> set (fst ks). proper k" "set rs = set (fst ks)"
  shows "set (fold reference_step ss rs) = set (fst (fold keep_step ss ks))"
  using assms
proof (induction ss arbitrary: ks rs)
  case (Cons s ss)
  have s: "proper s" and le: "sp_start s \<le> sp_end s" using Cons.prems(1) by (simp_all add: proper_def)
  have step: "set (reference_step s rs) = set (fst (keep_step s ks))"
    using keep_step_proper [OF Cons.prems(2) s Cons.prems(3)] Cons.prems(4)
    by (auto simp: reference_step_def list_ex_iff split: if_splits)
  have "\<forall>k \<in> set (fst (keep_step s ks)). proper k"
    using keep_step_proper [OF Cons.prems(2) s Cons.prems(3)] s Cons.prems(3) by (auto split: if_splits)
  with Cons.IH [OF _ kept_inv_step [OF Cons.prems(2) le] _ step] Cons.prems(1) show ?case by simp
qed simp

lemma distinct_reference: "distinct rs \<Longrightarrow> \<forall>s \<in> set ss. proper s \<Longrightarrow> distinct (fold reference_step ss rs)"
proof (induction ss arbitrary: rs)
  case (Cons s ss)
  have "s \<notin> set rs \<or> list_ex (overlaps s) rs"
    using Cons.prems(2) by (force simp: list_ex_iff overlaps_def proper_def)
  with Cons show ?case by (auto simp: reference_step_def)
qed simp

lemma disjoint_sorted_unique:
  assumes "disjoint_sorted xs" "disjoint_sorted ys" "set xs = set ys" "\<forall>s \<in> set xs. proper s"
  shows "xs = ys"
  using assms
proof (induction xs arbitrary: ys)
  case (Cons x xs)
  then obtain y zs where ys: "ys = y # zs" by (cases ys) auto
  have x: "\<forall>a \<in> set xs. sp_end x \<le> sp_start a" and y: "\<forall>a \<in> set zs. sp_end y \<le> sp_start a"
    using Cons.prems(1,2) by (simp_all add: disjoint_sorted_def ys)
  have px: "sp_start x < sp_end x" and py: "sp_start y < sp_end y"
    using Cons.prems(3,4) by (auto simp: ys proper_def)
  have "x = y"
  proof (rule ccontr)
    assume "x \<noteq> y"
    then have "x \<in> set zs" "y \<in> set xs" using Cons.prems(3) by (auto simp: ys)
    with x y have "sp_end x \<le> sp_start y" "sp_end y \<le> sp_start x" by auto
    with px py show False by simp
  qed
  moreover have "x \<notin> set xs" "y \<notin> set zs" using x y px py by force+
  ultimately have "set xs = set zs" using Cons.prems(3) by (auto simp: ys)
  with Cons ys \<open>x = y\<close> show ?case by (simp add: disjoint_sorted_def)
qed simp

lemma resolve_kept_inv:
  assumes "\<forall>s \<in> set spans. proper s"
  shows "kept_inv (fold keep_step (sort_key rank_key spans) ([], []))"
  by (rule kept_inv_resolve) (use assms in \<open>auto simp: proper_def\<close>)

lemma resolve_set:
  assumes "\<forall>s \<in> set spans. proper s"
  shows "set (fold reference_step (sort_key rank_key spans) []) = set (resolve_conflicts spans)"
  unfolding resolve_fold by (rule reference_agrees) (use assms in simp_all)

lemma reference_step_set: "set (fold reference_step ss rs) \<subseteq> set ss \<union> set rs"
  by (induction ss arbitrary: rs) (auto simp: reference_step_def split: if_splits, fastforce+)

lemma reference_mono: "set rs \<subseteq> set (fold reference_step ss rs)"
proof (induction ss arbitrary: rs)
  case (Cons s ss)
  have "set rs \<subseteq> set (reference_step s rs)" by (auto simp: reference_step_def)
  also have "\<dots> \<subseteq> set (fold reference_step ss (reference_step s rs))" by (rule Cons.IH)
  finally show ?case by simp
qed simp

lemma reference_maximal:
  "s \<in> set ss \<Longrightarrow> s \<in> set (fold reference_step ss rs) \<or> (\<exists>k \<in> set (fold reference_step ss rs). overlaps s k)"
proof (induction ss arbitrary: rs)
  case (Cons a ss)
  show ?case
  proof (cases "s = a")
    case True
    then have "s \<in> set (reference_step a rs) \<or> (\<exists>k \<in> set (reference_step a rs). overlaps s k)"
      by (auto simp: reference_step_def list_ex_iff)
    then show ?thesis using reference_mono [of "reference_step a rs" ss] by auto
  qed (use Cons in simp)
qed simp

lemma resolve_subset: "set (resolve_conflicts spans) \<subseteq> set spans"
proof -
  have "set (fst (fold keep_step ss ks)) \<subseteq> set ss \<union> set (fst ks)" for ss ks
  proof (induction ss arbitrary: ks)
    case (Cons s ss)
    have "set (fst (keep_step s ks)) \<subseteq> insert s (set (fst ks))"
      by (cases ks) (auto simp: keep_step_def Let_def)
    with Cons [of "keep_step s ks"] show ?case by auto
  qed simp
  from this [of "sort_key rank_key spans" "([], [])"] show ?thesis by (simp add: resolve_fold)
qed

lemma reference_disjoint:
  assumes "\<forall>a \<in> set rs. \<forall>b \<in> set rs. a = b \<or> \<not> overlaps a b"
  shows "\<forall>a \<in> set (fold reference_step ss rs). \<forall>b \<in> set (fold reference_step ss rs). a = b \<or> \<not> overlaps a b"
  using assms
proof (induction ss arbitrary: rs)
  case (Cons s ss)
  have "\<forall>a \<in> set (reference_step s rs). \<forall>b \<in> set (reference_step s rs). a = b \<or> \<not> overlaps a b"
    using Cons.prems by (auto simp: reference_step_def list_ex_iff overlaps_sym)
  from Cons.IH [OF this] show ?case by simp
qed simp

lemma sorted_disjoint:
  assumes "sorted (map sp_start xs)" "distinct xs" "\<forall>s \<in> set xs. proper s"
    and "\<forall>a \<in> set xs. \<forall>b \<in> set xs. a = b \<or> \<not> overlaps a b"
  shows "disjoint_sorted xs"
  using assms
proof (induction xs)
  case (Cons x xs)
  have "sp_end x \<le> sp_start b" if "b \<in> set xs" for b
  proof -
    have "sp_start x \<le> sp_start b" "x \<noteq> b" "\<not> overlaps x b" "proper x" "proper b"
      using that Cons.prems by auto
    then show ?thesis by (auto simp: overlaps_def proper_def)
  qed
  with Cons show ?case by (simp add: disjoint_sorted_def)
qed (simp add: disjoint_sorted_def)

lemma rank_key_inject:
  assumes "span_of text a" "span_of text b" "rank_key a = rank_key b"
  shows "a = b"
  using assms by (cases a, cases b) (auto simp: rank_key_def span_of_def sp_length_def)

lemma reference_sorted:
  assumes "\<forall>s \<in> set spans. proper s"
  shows "disjoint_sorted (resolve_reference spans)"
proof -
  let ?R = "fold reference_step (sort_key rank_key spans) []"
  have "set ?R \<subseteq> set spans" using reference_step_set [of "sort_key rank_key spans" "[]"] by simp
  moreover have "distinct ?R" by (rule distinct_reference) (use assms in simp_all)
  ultimately show ?thesis
    using reference_disjoint [of "[]" "sort_key rank_key spans"] assms
    unfolding resolve_reference_def by (intro sorted_disjoint) auto
qed

subsection \<open>Properties\<close>

text \<open>
  C34: The binary-search resolution returns exactly what the plain quadratic loop returns, in the same
  order, for every list of non-empty spans.
\<close>

theorem resolve_matches_reference:
  assumes "\<forall>s \<in> set spans. proper s"
  shows "resolve_conflicts spans = resolve_reference spans"
proof (rule disjoint_sorted_unique)
  show "disjoint_sorted (resolve_conflicts spans)"
    by (rule resolve_disjoint) (use assms in \<open>auto simp: proper_def\<close>)
  show "disjoint_sorted (resolve_reference spans)" by (rule reference_sorted [OF assms])
  show "set (resolve_conflicts spans) = set (resolve_reference spans)"
    using resolve_set [OF assms] by (simp add: resolve_reference_def)
  show "\<forall>s \<in> set (resolve_conflicts spans). proper s" using resolve_subset [of spans] assms by auto
qed

definition sample_spans :: "span list" where
  "sample_spans =
     [\<lparr>sp_start = 4, sp_end = 9, sp_type = lit ''B'', sp_text = lit ''xxxxx'', sp_score = 1/2, sp_detector = lit ''d''\<rparr>,
      \<lparr>sp_start = 5, sp_end = 7, sp_type = lit ''A'', sp_text = lit ''xx'', sp_score = 1, sp_detector = lit ''d''\<rparr>,
      \<lparr>sp_start = 0, sp_end = 3, sp_type = lit ''A'', sp_text = lit ''xxx'', sp_score = 1/2, sp_detector = lit ''d''\<rparr>]"

lemma sample_spans_ok: "\<forall>s \<in> set sample_spans. proper s" "\<forall>s \<in> set sample_spans. sp_start s \<le> sp_end s"
  by (simp_all add: sample_spans_def proper_def)

theorem resolve_matches_reference_witness:
  "resolve_conflicts sample_spans = resolve_reference sample_spans"
  by (rule resolve_matches_reference [OF sample_spans_ok(1)])

text \<open>
  The resolved spans come out in order and apart: each ends before the next begins.
\<close>

theorem resolve_non_overlapping:
  assumes "\<forall>s \<in> set spans. sp_start s \<le> sp_end s"
  shows "sorted_wrt (\<lambda>a b. sp_end a \<le> sp_start b) (resolve_conflicts spans)"
  using resolve_disjoint [OF assms] by (simp add: disjoint_sorted_def)

theorem resolve_non_overlapping_witness:
  "sorted_wrt (\<lambda>a b. sp_end a \<le> sp_start b) (resolve_conflicts sample_spans)"
  by (rule resolve_non_overlapping [OF sample_spans_ok(2)])

text \<open>
  Resolution invents no span and loses no region: every detected span is kept or overlaps one that is.
\<close>

theorem resolve_covers:
  assumes "\<forall>s \<in> set spans. proper s"
  shows "set (resolve_conflicts spans) \<subseteq> set spans \<and>
     (\<forall>s \<in> set spans. s \<in> set (resolve_conflicts spans) \<or> (\<exists>k \<in> set (resolve_conflicts spans). overlaps s k))"
  using resolve_subset [of spans] reference_maximal [of _ "sort_key rank_key spans" "[]"]
  by (simp add: resolve_set [OF assms])

theorem resolve_covers_witness:
  "set (resolve_conflicts sample_spans) \<subseteq> set sample_spans"
  using resolve_covers [OF sample_spans_ok(1)] by blast

text \<open>
  The result does not depend on the order in which detectors reported the spans of a text.
\<close>

theorem resolve_order_independent:
  assumes "mset spans = mset spans'" and "\<forall>s \<in> set spans. span_of text s"
  shows "resolve_conflicts spans = resolve_conflicts spans'"
proof -
  have "inj_on rank_key (set spans)"
    using assms(2) by (auto intro!: inj_onI dest: rank_key_inject [of "text"])
  with assms(1) show ?thesis by (simp add: resolve_fold sort_key_mset)
qed

theorem resolve_order_independent_witness:
  "resolve_conflicts sample_spans = resolve_conflicts (rev sample_spans)"
  by (rule resolve_order_independent [of _ _ "replicate 9 120"])
    (simp_all add: sample_spans_def span_of_def pyslice_def lit_def of_char_def numeral_eq_Suc)

text \<open>
  A contained span with a higher score displaces its container, although the docstring of
  \<^verbatim>\<open>resolve_conflicts\<close> names \<open>drop contained spans\<close> as its first rule.
\<close>

lemma contained_span_wins:
  "map sp_start (resolve_conflicts sample_spans) = [0, 5]"
  by code_simp

end
