(* ===== verification/Detectors.thy ===== *)
theory Detectors
  imports Conflicts Regex
begin

text \<open>
  The deterministic detectors, \<^verbatim>\<open>gateway/detectors/deterministic.py\<close> and
  \<^verbatim>\<open>recognizers/secrets/detectors.py\<close>, with the interface every detector keeps, the locale
  \<open>detector_contract\<close>.  Patterns are terms of \<open>re\<close>; \<open>U\<close> decides what a word, digit or space is.
\<close>

subsection \<open>The interface\<close>

record detector =
  dt_name :: ustr
  dt_uses_folded :: bool
  dt_detect :: "ustr \<Rightarrow> span list res"

text \<open>
  What the pipeline needs of a detector: every span it returns is a non-empty slice of the text.
\<close>

locale detector_contract =
  fixes detect :: "ustr \<Rightarrow> span list res"
  assumes spans_of_text: "detect s = Inr ss \<Longrightarrow> sp \<in> set ss \<Longrightarrow> span_of s sp \<and> proper sp"
begin

lemma resolved_disjoint:
  "detect s = Inr ss \<Longrightarrow> disjoint_sorted (resolve_conflicts ss) \<and> (\<forall>sp \<in> set (resolve_conflicts ss). span_of s sp)"
  using resolve_disjoint [of ss] resolve_subset [of ss] spans_of_text by (fastforce simp: span_of_def)

end

fun collect :: "('a \<Rightarrow> 'b option res) \<Rightarrow> 'a list \<Rightarrow> 'b list res" where
  \<comment> \<open>a loop whose body appends a value or continues\<close>
  "collect f [] = Inr []"
| "collect f (x # xs) =
     rbind (f x) (\<lambda>y. rbind (collect f xs) (\<lambda>ys. Inr (case y of None \<Rightarrow> ys | Some z \<Rightarrow> z # ys)))"

lemma collect_in: "collect f xs = Inr ys \<Longrightarrow> y \<in> set ys \<Longrightarrow> \<exists>x \<in> set xs. f x = Inr (Some y)"
  by (induction xs arbitrary: ys) (auto simp: res_simps split: option.splits)

lemma collect_intro: "collect f xs = Inr ys \<Longrightarrow> x \<in> set xs \<Longrightarrow> f x = Inr (Some y) \<Longrightarrow> y \<in> set ys"
  by (induction xs arbitrary: ys) (auto simp: res_simps split: option.splits)

lemma collect_total: "(\<And>x. x \<in> set xs \<Longrightarrow> \<exists>y. f x = Inr y) \<Longrightarrow> \<exists>ys. collect f xs = Inr ys"
proof (induction xs)
  case (Cons x xs)
  then obtain y where "f x = Inr y" by auto
  with Cons show ?case by auto
qed simp

definition match_span :: "ustr \<Rightarrow> rmatch \<Rightarrow> string \<Rightarrow> rat \<Rightarrow> ustr \<Rightarrow> span res" where
  \<comment> \<open>the span of a whole match\<close>
  "match_span s m ty score name =
     mk_span (int (fst m)) (int (fst (snd m))) (lit ty) (group_text s m 0) score name"

definition spans_of_matches :: "ustr \<Rightarrow> re \<Rightarrow> string \<Rightarrow> rat \<Rightarrow> ustr \<Rightarrow> span list res" where
  "spans_of_matches s r ty score name = rmap (\<lambda>m. match_span s m ty score name) (finditer r s)"

lemma match_span_ok:
  assumes "m \<in> set (finditer r s)" "match_span s m ty score name = Inr sp" "0 < minlen r"
  shows "span_of s sp \<and> proper sp"
proof -
  obtain i j g where m: "m = (i, j, g)" by (cases m)
  from assms(1) m have "i \<le> j" "j \<le> length s" "i + minlen r \<le> j"
    using finditer_bounds finditer_minlen by blast+
  with assms(2,3) m show ?thesis
    by (auto simp: match_span_def mk_span_nat group_text_def group_span_def length_pyslice span_of_def proper_def
        split: if_splits)
qed

lemma match_span_total:
  assumes "m \<in> set (finditer r s)"
  shows "\<exists>sp. match_span s m ty score name = Inr sp \<and> sp_start sp = fst m \<and> sp_end sp = fst (snd m)
     \<and> sp_type sp = lit ty \<and> sp_score sp = score \<and> sp_text sp = group_text s m 0"
proof -
  obtain i j g where m: "m = (i, j, g)" by (cases m)
  from assms m have "i \<le> j" "j \<le> length s" using finditer_bounds by blast+
  with m show ?thesis
    by (simp add: match_span_def mk_span_nat group_text_def group_span_def length_pyslice)
qed

lemma rmap_in: "rmap f xs = Inr ys \<Longrightarrow> y \<in> set ys \<Longrightarrow> \<exists>x \<in> set xs. f x = Inr y"
  by (induction xs arbitrary: ys) (auto simp: res_simps)

lemma rmap_total: "(\<And>x. x \<in> set xs \<Longrightarrow> \<exists>y. f x = Inr y) \<Longrightarrow> \<exists>ys. rmap f xs = Inr ys"
proof (induction xs)
  case (Cons x xs)
  then obtain y where "f x = Inr y" by auto
  with Cons show ?case by auto
qed simp

lemma spans_of_matches_ok:
  "spans_of_matches s r ty score name = Inr ss \<Longrightarrow> 0 < minlen r \<Longrightarrow> sp \<in> set ss \<Longrightarrow> span_of s sp \<and> proper sp"
  unfolding spans_of_matches_def using match_span_ok by (blast dest: rmap_in)

lemma spans_of_matches_total: "\<exists>ss. spans_of_matches s r ty score name = Inr ss"
  unfolding spans_of_matches_def by (rule rmap_total) (blast dest: match_span_total)

subsection \<open>Patterns\<close>

abbreviation RLit :: "string \<Rightarrow> re" where
  "RLit s \<equiv> RStr (lit s)"

definition az :: "cp \<Rightarrow> bool" where "az c \<longleftrightarrow> 97 \<le> c \<and> c \<le> 122"
definition AZ :: "cp \<Rightarrow> bool" where "AZ c \<longleftrightarrow> 65 \<le> c \<and> c \<le> 90"
definition AZ09 :: "cp \<Rightarrow> bool" where "AZ09 c \<longleftrightarrow> AZ c \<or> ascii_digit c"
definition alnum_ascii :: "cp \<Rightarrow> bool" where "alnum_ascii c \<longleftrightarrow> az c \<or> AZ c \<or> ascii_digit c"
definition base64url :: "cp \<Rightarrow> bool" where "base64url c \<longleftrightarrow> alnum_ascii c \<or> c = 95 \<or> c = 45"

definition RWordB :: "ucd \<Rightarrow> re" where "RWordB U = RBound (re_word U)"
definition RDigit :: "ucd \<Rightarrow> re" where "RDigit U = RSet (re_digit U)"

definition EMAIL_LABEL :: re where
  \<comment> \<open>\<open>[A-Za-z0-9](?:[A-Za-z0-9-]*[A-Za-z0-9])?\<close>\<close>
  "EMAIL_LABEL = RSeq (RSet alnum_ascii)
     (ROpt (RSeq (RStar (RSet (\<lambda>c. alnum_ascii c \<or> c = 45))) (RSet alnum_ascii)))"

definition EMAIL :: "ucd \<Rightarrow> re" where
  "EMAIL U = RSeqs
     [RNotBehind (\<lambda>c. re_word U c \<or> c \<in> {46, 43, 45}),
      RPlus (RSet (\<lambda>c. alnum_ascii c \<or> c \<in> {46, 95, 37, 43, 45})), RChr 64,
      EMAIL_LABEL, RStar (RSeq (RChr 46) EMAIL_LABEL),
      RChr 46, RRep True 2 None (RSet (\<lambda>c. az c \<or> AZ c)),
      RNotAhead (RSet (\<lambda>c. re_word U c \<or> c = 45))]"

definition IBAN_PATTERN :: "ucd \<Rightarrow> re" where
  "IBAN_PATTERN U = RSeqs
     [RWordB U,
      RGrp 1 (RSeqs [RTimes 2 (RSet AZ), RTimes 2 (RDigit U),
                     RBetween 11 30 (RSeq (ROpt (RChr 32)) (RSet AZ09))]),
      RWordB U]"

definition CARD :: "ucd \<Rightarrow> re" where
  "CARD U = (let sep = RSet (\<lambda>c. c = 32 \<or> c = 45); d = RDigit U
     in RSeqs
       [RWordB U,
        RAlts [RBetween 13 19 d,
               RSeqs [RTimes 4 d, RBetween 2 3 (RSeq sep (RTimes 4 d)), ROpt (RSeq sep (RBetween 1 3 d))],
               RSeqs [RTimes 4 d, sep, RTimes 6 d, sep, RTimes 5 d]],
        RWordB U])"

definition OCTET :: "ucd \<Rightarrow> re" where
  \<comment> \<open>\<open>25[0-5]|2[0-4]\d|1\d\d|[1-9]?\d\<close>\<close>
  "OCTET U = RAlts
     [RSeqs [RLit ''25'', RSet (\<lambda>c. 48 \<le> c \<and> c \<le> 53)],
      RSeqs [RLit ''2'', RSet (\<lambda>c. 48 \<le> c \<and> c \<le> 52), RDigit U],
      RSeqs [RLit ''1'', RDigit U, RDigit U],
      RSeq (ROpt (RSet (\<lambda>c. 49 \<le> c \<and> c \<le> 57))) (RDigit U)]"

definition IPV4 :: "ucd \<Rightarrow> re" where
  "IPV4 U = RSeqs [RWordB U, RTimes 3 (RSeq (OCTET U) (RChr 46)), OCTET U, RWordB U]"

subsection \<open>Checksums\<close>

definition int_char :: "ucd \<Rightarrow> cp \<Rightarrow> nat res" where
  \<comment> \<open>\<open>int(char)\<close> of one character\<close>
  "int_char U c = (case u_decimal U c of Some d \<Rightarrow> Inr d | None \<Rightarrow> Inl ValueError)"

definition luhn_digit :: "bool \<Rightarrow> nat \<Rightarrow> nat" where
  "luhn_digit dbl d = (if dbl then (if 9 < 2 * d then 2 * d - 9 else 2 * d) else d)"

fun luhn_total :: "bool \<Rightarrow> nat list \<Rightarrow> nat" where
  \<comment> \<open>digits from the right; the flag says that this one is doubled\<close>
  "luhn_total dbl [] = 0"
| "luhn_total dbl (d # ds) = luhn_digit dbl d + luhn_total (\<not> dbl) ds"

definition luhn_valid :: "ucd \<Rightarrow> ustr \<Rightarrow> bool res" where
  "luhn_valid U digits =
     (if digits = [] \<or> \<not> list_all (u_isdigit U) digits \<or> \<not> (13 \<le> length digits \<and> length digits \<le> 19) then Inr False
      else rbind (rmap (int_char U) (rev digits)) (\<lambda>vs. Inr (luhn_total False vs mod 10 = 0)))"

definition iban_digits :: "ucd \<Rightarrow> ustr \<Rightarrow> ustr option" where
  \<comment> \<open>letters written as numbers, \<open>A = 10\<close>; \<open>None\<close> where the loop returns \<open>False\<close>\<close>
  "iban_digits U s =
     (if list_all (\<lambda>c. u_isdigit U c \<or> u_isalpha U c) s
      then Some (concat (map (\<lambda>c. if u_isdigit U c then [c] else py_str_int (int c - 65 + 10)) s))
      else None)"

definition iban_valid :: "ucd \<Rightarrow> ustr \<Rightarrow> bool" where
  "iban_valid U iban =
     (let candidate = u_upper U (filter (\<lambda>c. c \<noteq> 32) iban)
      in if length candidate < 15 \<or> \<not> list_all (u_isalpha U) (take 2 candidate)
            \<or> \<not> list_all (u_isdigit U) (pyslice candidate 2 4) then False
         else case iban_digits U (drop 4 candidate @ take 4 candidate) of
           None \<Rightarrow> False
         | Some digits \<Rightarrow> (case py_int_str U digits of Inr n \<Rightarrow> n mod 97 = 1 | Inl _ \<Rightarrow> False))"

definition longest_valid_iban :: "ucd \<Rightarrow> ustr \<Rightarrow> ustr option" where
  "longest_valid_iban U candidate =
     (let boundaries = filter (\<lambda>i. i = length candidate \<or> candidate ! i = 32) [1..<Suc (length candidate)]
      in map_option (\<lambda>e. take e candidate)
           (find (\<lambda>e. iban_valid U (take e candidate)) (rev boundaries)))"

subsection \<open>The detectors\<close>

definition detect_email :: "ucd \<Rightarrow> ustr \<Rightarrow> span list res" where
  "detect_email U s = spans_of_matches s (EMAIL U) ''EMAIL_ADDRESS'' conf_certain (lit ''email'')"

definition detect_iban :: "ucd \<Rightarrow> ustr \<Rightarrow> span list res" where
  "detect_iban U s =
     collect (\<lambda>m. case longest_valid_iban U (group_text s m 1) of
         None \<Rightarrow> Inr None
       | Some valid \<Rightarrow>
           (let start = fst (group_span m 1)
            in rbind (mk_span (int start) (int (start + length valid)) (lit ''IBAN'') valid conf_certain (lit ''iban''))
                 (\<lambda>sp. Inr (Some sp))))
       (finditer (IBAN_PATTERN U) s)"

definition detect_card :: "ucd \<Rightarrow> ustr \<Rightarrow> span list res" where
  "detect_card U s =
     collect (\<lambda>m. rbind (luhn_valid U (filter (\<lambda>c. c \<noteq> 32 \<and> c \<noteq> 45) (group_text s m 0))) (\<lambda>ok.
         if \<not> ok then Inr None
         else rbind (match_span s m ''PAYMENT_CARD'' conf_certain (lit ''payment_card'')) (\<lambda>sp. Inr (Some sp))))
       (finditer (CARD U) s)"

definition detect_ip :: "ucd \<Rightarrow> ustr \<Rightarrow> span list res" where
  "detect_ip U s = spans_of_matches s (IPV4 U) ''IP_ADDRESS'' conf_medium (lit ''ip_address'')"

subsection \<open>Secrets\<close>

definition AWS_ACCESS_KEY :: "ucd \<Rightarrow> re" where
  "AWS_ACCESS_KEY U = RSeqs
     [RWordB U,
      RGrp 1 (RSeqs [RAlts (map RStr [lit ''AKIA'', lit ''ASIA'', lit ''AIDA'', lit ''AROA'', lit ''AIPA'',
                                      lit ''ANPA'', lit ''ANVA'', lit ''ABIA'']),
                     RTimes 16 (RSet AZ09)]),
      RWordB U]"

definition PEM_KIND :: "ucd \<Rightarrow> re" where
  "PEM_KIND U = RSeqs
     [RPlus (RSet (u_isspace U)),
      ROpt (RAlts (map RStr [lit ''RSA'', lit ''DSA'', lit ''EC'', lit ''OPENSSH'', lit ''PGP'', lit ''ENCRYPTED''])),
      RStar (RSet (u_isspace U)), RLit ''PRIVATE KEY-----'']"

definition PRIVATE_KEY :: "ucd \<Rightarrow> re" where
  "PRIVATE_KEY U = RSeqs
     [RLit ''-----BEGIN'', PEM_KIND U, RRep False 0 None (RSet (\<lambda>_. True)), RLit ''-----END'', PEM_KIND U]"

definition JWT :: "ucd \<Rightarrow> re" where
  "JWT U = (let seg = RRep True 8 None (RSet base64url)
     in RSeqs [RWordB U, RLit ''eyJ'', seg, RChr 46, seg, RChr 46, seg, RWordB U])"

definition OPENAI_KEY :: "ucd \<Rightarrow> re" where
  "OPENAI_KEY U = RSeqs [RWordB U, RLit ''sk-'', ROpt (RLit ''proj-''), RRep True 20 None (RSet base64url), RWordB U]"

definition ANTHROPIC_KEY :: "ucd \<Rightarrow> re" where
  "ANTHROPIC_KEY U = RSeqs [RWordB U, RLit ''sk-ant-'', RRep True 20 None (RSet base64url), RWordB U]"

definition GITHUB_TOKEN :: "ucd \<Rightarrow> re" where
  "GITHUB_TOKEN U = RSeqs
     [RWordB U, RAlts (map RStr [lit ''ghp'', lit ''gho'', lit ''ghu'', lit ''ghs'', lit ''ghr'']), RChr 95,
      RTimes 36 (RSet alnum_ascii), RWordB U]"

definition SLACK_TOKEN :: "ucd \<Rightarrow> re" where
  "SLACK_TOKEN U = RSeqs
     [RWordB U, RLit ''xox'', RSet (\<lambda>c. c \<in> {98, 97, 112, 114, 115}), RChr 45,
      RRep True 10 None (RSet (\<lambda>c. alnum_ascii c \<or> c = 45)), RWordB U]"

definition SECRET_PATTERNS :: "ucd \<Rightarrow> (re \<times> string) list" where
  "SECRET_PATTERNS U =
     [(PRIVATE_KEY U, ''PRIVATE_KEY''), (AWS_ACCESS_KEY U, ''AWS_ACCESS_KEY''), (JWT U, ''JWT''),
      (ANTHROPIC_KEY U, ''ANTHROPIC_API_KEY''), (OPENAI_KEY U, ''OPENAI_API_KEY''),
      (GITHUB_TOKEN U, ''GITHUB_TOKEN''), (SLACK_TOKEN U, ''SLACK_TOKEN'')]"

definition detect_secrets :: "ucd \<Rightarrow> ustr \<Rightarrow> span list res" where
  "detect_secrets U s =
     rbind (rmap (\<lambda>(r, ty). spans_of_matches s r ty conf_certain (lit ''secrets'')) (SECRET_PATTERNS U))
       (\<lambda>sss. Inr (concat sss))"

subsection \<open>The detectors keep the interface\<close>

lemma minlen_RAlts_Cons: "minlen (RAlts (r # rs)) = (if rs = [] then minlen r else min (minlen r) (minlen (RAlts rs)))"
  by (cases rs) simp_all

lemma email_nonempty: "0 < minlen (EMAIL U)"
  by (simp add: EMAIL_def RChr_def)

lemma ip_nonempty: "0 < minlen (IPV4 U)"
  by (simp add: IPV4_def OCTET_def RDigit_def RChr_def)

lemma card_nonempty: "0 < minlen (CARD U)"
  by (simp add: CARD_def RDigit_def RWordB_def Let_def)

lemma secrets_nonempty: "(r, ty) \<in> set (SECRET_PATTERNS U) \<Longrightarrow> 0 < minlen r"
  by (auto simp: SECRET_PATTERNS_def PRIVATE_KEY_def AWS_ACCESS_KEY_def JWT_def ANTHROPIC_KEY_def OPENAI_KEY_def
      GITHUB_TOKEN_def SLACK_TOKEN_def RChr_def lit_def Let_def)

lemma luhn_valid_decimal: "list_all (re_digit U) ds \<Longrightarrow> \<exists>b. luhn_valid U ds = Inr b"
proof -
  assume "list_all (re_digit U) ds"
  then have "\<exists>vs. rmap (int_char U) (rev ds) = Inr vs"
    by (intro rmap_total) (auto simp: list_all_iff re_digit_def int_char_def)
  then show ?thesis by (auto simp: luhn_valid_def)
qed

lemma find_in: "find P xs = Some x \<Longrightarrow> x \<in> set xs \<and> P x"
  by (induction xs) (auto split: if_splits)

lemma longest_valid_iban_Some:
  assumes "longest_valid_iban U c = Some v"
  shows "\<exists>e. 1 \<le> e \<and> e \<le> length c \<and> v = take e c \<and> iban_valid U v"
proof -
  from assms obtain e where
    e: "find (\<lambda>e. iban_valid U (take e c))
          (rev (filter (\<lambda>i. i = length c \<or> c ! i = 32) [1..<Suc (length c)])) = Some e" "v = take e c"
    unfolding longest_valid_iban_def Let_def by blast
  from find_in [OF e(1)] have "iban_valid U v" "e \<in> {1..<Suc (length c)}" by (simp_all add: e(2) del: upt_Suc)
  with e(2) show ?thesis by auto
qed

lemma detect_iban_span:
  assumes "m \<in> set (finditer (IBAN_PATTERN U) s)" "longest_valid_iban U (group_text s m 1) = Some valid"
  shows "\<exists>sp. mk_span (int (fst (group_span m 1))) (int (fst (group_span m 1) + length valid)) ty valid sc d = Inr sp
     \<and> span_of s sp \<and> proper sp"
proof -
  obtain a b where ab: "group_span m 1 = (a, b)" by fastforce
  from assms(2) obtain e where e: "1 \<le> e" "e \<le> length (group_text s m 1)" "valid = take e (group_text s m 1)"
    using longest_valid_iban_Some [OF assms(2)] by blast
  have bn: "a \<le> b" "b \<le> length s"
    using group_span_bounds [OF assms(1), of 1] ab by auto
  then have eb: "e \<le> b - a" using e(2) ab by (simp add: group_text_def length_pyslice split: if_splits)
  with bn e ab have "length valid = e" "a + e \<le> length s" "valid = pyslice s a (a + e)"
    by (simp_all add: group_text_def length_pyslice pyslice_def min_absorb1 min_absorb2)
  with e(1) show ?thesis
    unfolding ab fst_conv mk_span_nat by (simp add: span_of_def proper_def)
qed

lemma detect_email_ok: "detect_email U s = Inr ss \<Longrightarrow> sp \<in> set ss \<Longrightarrow> span_of s sp \<and> proper sp"
  unfolding detect_email_def by (rule spans_of_matches_ok [OF _ email_nonempty])

lemma detect_ip_ok: "detect_ip U s = Inr ss \<Longrightarrow> sp \<in> set ss \<Longrightarrow> span_of s sp \<and> proper sp"
  unfolding detect_ip_def by (rule spans_of_matches_ok [OF _ ip_nonempty])

lemma detect_iban_ok: "detect_iban U s = Inr ss \<Longrightarrow> sp \<in> set ss \<Longrightarrow> span_of s sp \<and> proper sp"
proof -
  assume "detect_iban U s = Inr ss" "sp \<in> set ss"
  then obtain m valid where m: "m \<in> set (finditer (IBAN_PATTERN U) s)" "longest_valid_iban U (group_text s m 1) = Some valid"
    and sp: "mk_span (int (fst (group_span m 1))) (int (fst (group_span m 1) + length valid)) (lit ''IBAN'') valid
        conf_certain (lit ''iban'') = Inr sp"
    unfolding detect_iban_def by (fastforce dest!: collect_in simp: res_simps Let_def split: option.splits)
  from detect_iban_span [OF m, of "lit ''IBAN''" conf_certain "lit ''iban''"] sp show ?thesis by auto
qed

lemma detect_card_ok: "detect_card U s = Inr ss \<Longrightarrow> sp \<in> set ss \<Longrightarrow> span_of s sp \<and> proper sp"
  unfolding detect_card_def
  by (drule (1) collect_in) (auto simp: res_simps card_nonempty dest: match_span_ok split: if_splits)

lemma detect_secrets_ok: "detect_secrets U s = Inr ss \<Longrightarrow> sp \<in> set ss \<Longrightarrow> span_of s sp \<and> proper sp"
proof -
  assume "detect_secrets U s = Inr ss" "sp \<in> set ss"
  then obtain sss xs where "rmap (\<lambda>(r, ty). spans_of_matches s r ty conf_certain (lit ''secrets'')) (SECRET_PATTERNS U) = Inr sss"
    "xs \<in> set sss" "sp \<in> set xs"
    by (auto simp: detect_secrets_def res_simps)
  from rmap_in [OF this(1,2)] this(3) show ?thesis
    using spans_of_matches_ok secrets_nonempty by fastforce
qed

interpretation email: detector_contract "detect_email U" for U
  by unfold_locales (rule detect_email_ok)
interpretation iban: detector_contract "detect_iban U" for U
  by unfold_locales (rule detect_iban_ok)
interpretation card: detector_contract "detect_card U" for U
  by unfold_locales (rule detect_card_ok)
interpretation ip: detector_contract "detect_ip U" for U
  by unfold_locales (rule detect_ip_ok)
interpretation secrets: detector_contract "detect_secrets U" for U
  by unfold_locales (rule detect_secrets_ok)

subsection \<open>Checksums catch transcription errors\<close>

lemma luhn_total_append:
  "luhn_total dbl (xs @ ys) = luhn_total dbl xs + luhn_total (dbl \<noteq> odd (length xs)) ys"
proof (induction xs arbitrary: dbl)
  case (Cons x xs)
  have "((\<not> dbl) \<noteq> odd (length xs)) = (dbl \<noteq> odd (length (x # xs)))" by auto
  then show ?case using Cons [of "\<not> dbl"] by simp
qed simp

lemma luhn_digit_range: "a < 10 \<Longrightarrow> luhn_digit dbl a < 10"
  by (auto simp: luhn_digit_def)

lemma luhn_digit_inj: "luhn_digit dbl a = luhn_digit dbl b \<Longrightarrow> a < 10 \<Longrightarrow> b < 10 \<Longrightarrow> a = b"
proof -
  have par: "2 * x = 2 * y - 9 \<Longrightarrow> 9 < 2 * y \<Longrightarrow> False" for x y :: nat by presburger
  assume "luhn_digit dbl a = luhn_digit dbl b" "a < 10" "b < 10"
  then show "a = b"
    using par [of a b] par [of b a] by (auto simp: luhn_digit_def split: if_splits)
qed

lemma mod10_differ:
  assumes "x < 10" "y < 10" "x \<noteq> y" "(x + r) mod 10 = (0::nat)"
  shows "(y + r) mod 10 \<noteq> 0"
proof
  assume "(y + r) mod 10 = 0"
  then have "10 dvd int (x + r)" "10 dvd int (y + r)" using assms(4) by presburger+
  then have "10 dvd int (x + r) - int (y + r)" by (rule dvd_diff)
  then have "10 dvd int x - int y" by simp
  then obtain k where "int x - int y = 10 * k" by (auto simp: dvd_def)
  with assms(1-3) show False by arith
qed

lemma luhn_digit_mod:
  assumes "a < 10" "b < 10" "a \<noteq> b" "(luhn_digit dbl a + r) mod 10 = 0"
  shows "(luhn_digit dbl b + r) mod 10 \<noteq> 0"
proof -
  have "luhn_digit dbl a \<noteq> luhn_digit dbl b" "luhn_digit dbl a < 10" "luhn_digit dbl b < 10"
    using luhn_digit_inj [of dbl a b] luhn_digit_range [of _ dbl] assms(1-3) by auto
  from mod10_differ [OF this(2,3,1) assms(4)] show ?thesis .
qed

lemma luhn_single_digit:
  assumes "i < length vs" "vs ! i < 10" "d < 10" "d \<noteq> vs ! i" "luhn_total dbl vs mod 10 = 0"
  shows "luhn_total dbl (vs[i := d]) mod 10 \<noteq> 0"
proof -
  have v: "vs = take i vs @ vs ! i # drop (Suc i) vs" using assms(1) by (rule id_take_nth_drop)
  have u: "vs[i := d] = take i vs @ d # drop (Suc i) vs" using assms(1) by (rule upd_conv_take_nth_drop)
  have len: "length (take i vs) = i" using assms(1) by simp
  define b where "b = (dbl \<noteq> odd i)"
  define r where "r = luhn_total dbl (take i vs) + luhn_total (\<not> b) (drop (Suc i) vs)"
  have "luhn_total dbl vs = luhn_digit b (vs ! i) + r"
    by (subst v, subst luhn_total_append, unfold len, fold b_def) (simp add: r_def)
  moreover have "luhn_total dbl (vs[i := d]) = luhn_digit b d + r"
    by (subst u, subst luhn_total_append, unfold len, fold b_def) (simp add: r_def)
  ultimately show ?thesis
    using luhn_digit_mod [OF assms(2,3) assms(4)[symmetric], of b r] assms(5) by simp
qed

lemma rmap_map: "(\<forall>x \<in> set xs. f x = Inr (g x)) \<Longrightarrow> rmap f xs = Inr (map g xs)"
  by (induction xs) simp_all

definition ascii_digits :: "ustr \<Rightarrow> bool" where
  "ascii_digits s \<longleftrightarrow> list_all ascii_digit s"

lemma luhn_valid_ascii:
  assumes "ucd_ascii U" "ascii_digits s"
  shows "luhn_valid U s = Inr (13 \<le> length s \<and> length s \<le> 19 \<and> luhn_total False (map (\<lambda>c. c - 48) (rev s)) mod 10 = 0)"
proof -
  have lt: "\<forall>c \<in> set s. ascii_digit c \<and> c < 128" using assms(2) by (auto simp: ascii_digits_def list_all_iff ascii_digit_def)
  then have "list_all (u_isdigit U) s" using ucd_asciiD [OF assms(1)] by (simp add: list_all_iff)
  moreover have "rmap (int_char U) (rev s) = Inr (map (\<lambda>c. c - 48) (rev s))"
    by (rule rmap_map) (use lt ucd_asciiD [OF assms(1)] in \<open>auto simp: int_char_def\<close>)
  ultimately show ?thesis by (auto simp: luhn_valid_def)
qed

text \<open>
  Mistyping one digit of a valid card number never leaves it valid.
\<close>

theorem luhn_catches_single_digit:
  assumes "ucd_ascii U" and "ascii_digits s" and "luhn_valid U s = Inr True"
    and "i < length s" and "ascii_digit d" and "d \<noteq> s ! i"
  shows "luhn_valid U (s[i := d]) = Inr False"
proof -
  let ?v = "\<lambda>s. map (\<lambda>c. c - 48) (rev s)"
  have d: "\<forall>c \<in> set s. 48 \<le> c \<and> c \<le> 57" "48 \<le> d" "d \<le> 57"
    using assms(2,5) by (auto simp: ascii_digits_def list_all_iff ascii_digit_def)
  have si: "48 \<le> s ! i" "s ! i \<le> 57" using d(1) assms(4) by auto
  let ?j = "length s - Suc i"
  have "length s - Suc ?j = i" "?j < length s" using assms(4) by simp_all
  then have "rev s ! ?j = s ! i" by (simp add: rev_nth)
  then have j: "?j < length (?v s)" "?v s ! ?j = s ! i - 48" using \<open>?j < length s\<close> by simp_all
  have "?v (s[i := d]) = (?v s)[?j := d - 48]"
    using assms(4) by (simp add: rev_update map_update)
  moreover have "luhn_total False ((?v s)[?j := d - 48]) mod 10 \<noteq> 0"
    by (rule luhn_single_digit [OF j(1)])
      (use j(2) si d(2,3) assms(3,6) luhn_valid_ascii [OF assms(1,2)] in auto)
  moreover have "ascii_digits (s[i := d])"
    using assms(2,5) by (auto simp: ascii_digits_def list_all_iff dest!: set_update_subset_insert [THEN subsetD])
  ultimately show ?thesis by (simp add: luhn_valid_ascii [OF assms(1)])
qed

definition sample_card :: ustr where
  "sample_card = lit ''4111111111111111''"

lemma sample_card_ok: "ascii_digits sample_card" "luhn_valid ascii_ucd sample_card = Inr True" "length sample_card = 16"
proof -
  show a: "ascii_digits sample_card"
    by (simp add: ascii_digits_def sample_card_def lit_def of_char_def ascii_digit_def)
  show "luhn_valid ascii_ucd sample_card = Inr True"
    by (simp add: luhn_valid_ascii [OF ucd_ascii_ascii_ucd a]) (simp add: sample_card_def lit_def of_char_def luhn_digit_def)
qed (simp add: sample_card_def lit_def)

theorem luhn_catches_single_digit_witness:
  "luhn_valid ascii_ucd (sample_card[3 := 50]) = Inr False"
  by (rule luhn_catches_single_digit [OF ucd_ascii_ascii_ucd sample_card_ok(1,2)])
    (simp_all add: sample_card_ok(3) ascii_digit_def, simp add: sample_card_def lit_def of_char_def)

subsection \<open>The IBAN check\<close>

lemma undec_append: "undec (a @ b) = undec a * 10 ^ length b + undec b"
proof (induction b rule: rev_induct)
  case (snoc c b)
  have "undec (xs @ [c]) = 10 * undec xs + (c - 48)" for xs by (simp add: undec_def)
  from this [of "a @ b"] this [of b] snoc show ?case by (simp add: algebra_simps)
qed (simp add: undec_def)

lemma digit_groups_ascii:
  assumes "ucd_ascii U" "list_all ascii_digit s" "s \<noteq> [] \<or> ok"
  shows "digit_groups U ok n s = Some (n * 10 ^ length s + undec s)"
  using assms(2,3)
proof (induction s arbitrary: ok n)
  case (Cons c s)
  then have "c \<noteq> 95" "u_decimal U c = Some (c - 48)"
    using ucd_asciiD(5) [OF assms(1), of c] by (auto simp: ascii_digit_def)
  moreover have "undec (c # s) = (c - 48) * 10 ^ length s + undec s"
    using undec_append [of "[c]" s] by (simp add: undec_def)
  ultimately show ?case using Cons.prems Cons.IH [of True "10 * n + (c - 48)"]
    by (simp add: algebra_simps)
qed (simp add: undec_def)

lemma strip_ws_none: "s \<noteq> [] \<Longrightarrow> \<not> sp (hd s) \<Longrightarrow> \<not> sp (last s) \<Longrightarrow> strip_ws sp s = s"
proof -
  assume s: "s \<noteq> []" "\<not> sp (hd s)" "\<not> sp (last s)"
  have "dropWhile sp s = s" using s(1,2) by (cases s) simp_all
  moreover have "dropWhile sp (rev s) = rev s" using s(1,3) by (cases s rule: rev_cases) simp_all
  ultimately show ?thesis by (simp add: strip_ws_def)
qed

lemma py_int_str_ascii:
  assumes "ucd_ascii U" "list_all ascii_digit s" "s \<noteq> []"
  shows "py_int_str U s = Inr (int (undec s))"
proof -
  have dig: "ascii_digit (hd s)" "ascii_digit (last s)" using assms(2,3) by (auto simp: list_all_iff)
  have "\<not> u_isspace U c" if "ascii_digit c" for c
    using that ucd_asciiD(1) [OF assms(1), of c] by (auto simp: ascii_digit_def ascii_space_def)
  with dig have "strip_ws (u_isspace U) s = s" by (intro strip_ws_none assms(3)) auto
  moreover have "hd s \<noteq> 45" "hd s \<noteq> 43" using dig by (auto simp: ascii_digit_def)
  ultimately show ?thesis
    using digit_groups_ascii [OF assms(1,2), of False 0] assms(3)
    by (cases s) (simp_all add: py_int_str_def)
qed

definition iban_char :: "cp \<Rightarrow> ustr" where
  "iban_char c = (if ascii_digit c then [c] else dec_nat (c - 55))"

definition iban_rot :: "ustr \<Rightarrow> ustr" where
  "iban_rot s = drop 4 s @ take 4 s"

definition iban_shape :: "ustr \<Rightarrow> bool" where
  \<comment> \<open>the compact printed form: two capital letters, two digits, capitals and digits\<close>
  "iban_shape s \<longleftrightarrow> 15 \<le> length s \<and> list_all AZ (take 2 s) \<and> list_all ascii_digit (pyslice s 2 4) \<and> list_all AZ09 s"

lemma AZ09_range: "AZ09 c \<Longrightarrow> (48 \<le> c \<and> c \<le> 57) \<or> (65 \<le> c \<and> c \<le> 90)"
  by (auto simp: AZ09_def AZ_def ascii_digit_def)

lemma dec_nat_two: "10 \<le> n \<Longrightarrow> n < 100 \<Longrightarrow> length (dec_nat n) = 2"
  by (subst dec_nat.simps, subst dec_nat.simps) auto

lemma int_mod_97: "int n mod 97 = 1 \<longleftrightarrow> n mod 97 = 1"
  by (metis of_nat_1 of_nat_eq_iff of_nat_mod of_nat_numeral)

lemma coprime_97_10: "coprime (97::int) 10"
proof (rule coprimeI)
  fix c :: int assume "c dvd 97" "c dvd 10"
  then have "c dvd 97 * 3 - 10 * 29" by (intro dvd_diff dvd_mult2)
  then show "is_unit c" by simp
qed

lemma iban_valid_shape:
  assumes "ucd_ascii U" "iban_shape s"
  shows "iban_valid U s \<longleftrightarrow> undec (concat (map iban_char (iban_rot s))) mod 97 = 1"
proof -
  have az: "\<forall>c \<in> set s. (48 \<le> c \<and> c \<le> 57) \<or> (65 \<le> c \<and> c \<le> 90)"
    using assms(2) AZ09_range by (auto simp: iban_shape_def list_all_iff)
  then have lt: "\<forall>c \<in> set s. c < 128" by auto
  have fs: "filter (\<lambda>c. c \<noteq> 32) s = s" using az by (intro filter_True) auto
  have up: "u_upper U s = s"
  proof -
    have "u_upper U s = map ascii_upper_cp s" using assms(1) lt by (simp add: ucd_ascii_def)
    also have "\<dots> = s" using az by (intro map_idI) (auto simp: ascii_upper_cp_def)
    finally show ?thesis .
  qed
  have dg: "u_isdigit U c = ascii_digit c" "u_isalpha U c = ascii_alpha c" if "c \<in> set s" for c
    using ucd_asciiD [OF assms(1)] lt that by auto
  have heads: "list_all (u_isalpha U) (take 2 s)" "list_all (u_isdigit U) (pyslice s 2 4)"
    using assms(2) dg by (auto simp: iban_shape_def list_all_iff AZ_def ascii_alpha_def pyslice_def dest: in_set_takeD in_set_dropD)
  have rot: "set (iban_rot s) \<subseteq> set s" by (auto simp: iban_rot_def dest: in_set_takeD in_set_dropD)
  have "iban_digits U (iban_rot s) = Some (concat (map iban_char (iban_rot s)))"
  proof -
    have "u_isdigit U c \<or> u_isalpha U c" if "c \<in> set (iban_rot s)" for c
      using that rot dg az by (auto simp: ascii_digit_def ascii_alpha_def)
    moreover have "(if u_isdigit U c then [c] else py_str_int (int c - 65 + 10)) = iban_char c" if "c \<in> set (iban_rot s)" for c
    proof -
      from that rot have c: "c \<in> set s" by blast
      show ?thesis
      proof (cases "ascii_digit c")
        case False
        with az c have "65 \<le> c" by (auto simp: ascii_digit_def)
        then have "nat (int c - 55) = c - 55" by simp
        then show ?thesis using False dg(1) [OF c] \<open>65 \<le> c\<close> by (simp add: iban_char_def py_str_int_def)
      qed (simp add: iban_char_def dg(1) [OF c])
    qed
    ultimately show ?thesis by (simp add: iban_digits_def list_all_iff cong: map_cong)
  qed
  moreover have "list_all ascii_digit (concat (map iban_char (iban_rot s)))"
    using dec_nat_digits by (auto simp: list_all_iff iban_char_def split: if_splits)
  moreover have "concat (map iban_char (iban_rot s)) \<noteq> []"
  proof -
    have "length (iban_rot s) = length s" by (simp add: iban_rot_def)
    then have "iban_rot s \<noteq> []" using assms(2) by (auto simp: iban_shape_def)
    then obtain c r where "iban_rot s = c # r" by (cases "iban_rot s") auto
    then show ?thesis by (simp add: iban_char_def)
  qed
  ultimately have "iban_valid U s \<longleftrightarrow> int (undec (concat (map iban_char (iban_rot s)))) mod 97 = 1"
    using assms(2) heads py_int_str_ascii [OF assms(1)]
    by (simp add: iban_valid_def fs up iban_rot_def iban_shape_def)
  also have "\<dots> \<longleftrightarrow> undec (concat (map iban_char (iban_rot s))) mod 97 = 1"
    by (rule int_mod_97)
  finally show ?thesis .
qed

lemma iban_rot_update:
  assumes "i < length s"
  shows "\<exists>pre post. iban_rot s = pre @ s ! i # post \<and> iban_rot (s[i := d]) = pre @ d # post"
proof (cases "i < 4")
  case True
  have "take 4 s = take i (take 4 s) @ s ! i # drop (Suc i) (take 4 s)"
    using id_take_nth_drop [of i "take 4 s"] True assms by simp
  moreover have "take 4 (s[i := d]) = take i (take 4 s) @ d # drop (Suc i) (take 4 s)"
    using upd_conv_take_nth_drop [of i "take 4 s" d] True assms by (simp add: take_update_swap)
  moreover have "drop 4 (s[i := d]) = drop 4 s" using True by (simp add: drop_update_cancel)
  ultimately show ?thesis unfolding iban_rot_def by (metis append.assoc)
next
  case False
  define k where "k = i - 4"
  have k: "i = k + 4" "k < length (drop 4 s)" using False assms by (simp_all add: k_def)
  have "drop 4 s = take k (drop 4 s) @ s ! i # drop (Suc k) (drop 4 s)"
    using id_take_nth_drop [OF k(2)] k(1) assms by (simp add: add.commute)
  moreover have "drop 4 (s[i := d]) = take k (drop 4 s) @ d # drop (Suc k) (drop 4 s)"
    using upd_conv_take_nth_drop [OF k(2), of d] k(1) by (simp add: drop_update_swap)
  moreover have "take 4 (s[i := d]) = take 4 s" using False by (simp add: take_update_cancel)
  ultimately show ?thesis unfolding iban_rot_def by (metis append.assoc append_Cons)
qed

lemma undec_iban_char:
  assumes "AZ09 c" shows "undec (iban_char c) = (if ascii_digit c then c - 48 else c - 55)" "undec (iban_char c) < 36"
    and "length (iban_char c) = (if ascii_digit c then 1 else 2)"
proof -
  have "65 \<le> c \<and> c \<le> 90" if "\<not> ascii_digit c" using assms that by (auto simp: AZ09_def AZ_def)
  then show "undec (iban_char c) = (if ascii_digit c then c - 48 else c - 55)" "undec (iban_char c) < 36"
    "length (iban_char c) = (if ascii_digit c then 1 else 2)"
    by (auto simp: iban_char_def ascii_digit_def undec_def [of "[c]"] dec_nat_two)
qed

lemma mod97_step:
  assumes "(p * 10 ^ (l + k) + a * 10 ^ k + q) mod 97 = (1::nat)" "(p * 10 ^ (l + k) + b * 10 ^ k + q) mod 97 = 1"
    and "a < 36" "b < 36"
  shows "a = b"
proof -
  have cop: "coprime (97::int) (10 ^ k)"
    by (simp add: coprime_power_right_iff coprime_97_10)
  have dvd97: "97 dvd x - y" if "x mod 97 = 1" "y mod 97 = 1" for x y :: int
    using that by (metis mod_eq_dvd_iff)
  have "(int (p * 10 ^ (l + k) + a * 10 ^ k + q)) mod 97 = 1" "(int (p * 10 ^ (l + k) + b * 10 ^ k + q)) mod 97 = 1"
    unfolding int_mod_97 using assms(1,2) by simp_all
  then have "97 dvd int (p * 10 ^ (l + k) + a * 10 ^ k + q) - int (p * 10 ^ (l + k) + b * 10 ^ k + q)"
    by (rule dvd97)
  then have "97 dvd (int a - int b) * 10 ^ k" by (simp add: algebra_simps)
  then have "97 dvd int a - int b" using cop by (metis coprime_dvd_mult_left_iff)
  then obtain m where m: "int a - int b = 97 * m" by (auto simp: dvd_def)
  consider "m \<le> - 1" | "m = 0" | "1 \<le> m" by linarith
  then show ?thesis using m assms(3,4) by cases linarith+
qed

text \<open>
  Replacing one character of a valid IBAN, a digit by another digit or a letter by another letter,
  never leaves it valid.
\<close>

theorem iban_catches_substitution:
  assumes "ucd_ascii U" and "iban_shape s" and "iban_shape (s[i := d])" and "iban_valid U s"
    and "i < length s" and "d \<noteq> s ! i" and "ascii_digit d = ascii_digit (s ! i)"
  shows "\<not> iban_valid U (s[i := d])"
proof
  assume "iban_valid U (s[i := d])"
  with assms(1-4) iban_valid_shape have v: "undec (concat (map iban_char (iban_rot s))) mod 97 = 1"
    "undec (concat (map iban_char (iban_rot (s[i := d])))) mod 97 = 1" by blast+
  from iban_rot_update [OF assms(5), of d] obtain pre post where
    r: "iban_rot s = pre @ s ! i # post" "iban_rot (s[i := d]) = pre @ d # post" by blast
  have c: "AZ09 (s ! i)" using assms(2,5) by (simp add: iban_shape_def list_all_length)
  have d: "AZ09 d" using assms(3,5) by (auto simp: iban_shape_def list_all_length dest!: spec [of _ i])
  let ?p = "undec (concat (map iban_char pre))" and ?q = "undec (concat (map iban_char post))"
    and ?k = "length (concat (map iban_char post))" and ?l = "length (iban_char d)"
  have l: "length (iban_char (s ! i)) = ?l" using undec_iban_char(3) [OF c] undec_iban_char(3) [OF d] assms(7) by simp
  have "undec (concat (map iban_char (iban_rot s))) = ?p * 10 ^ (?l + ?k) + undec (iban_char (s ! i)) * 10 ^ ?k + ?q"
    unfolding r by (simp add: undec_append l algebra_simps power_add)
  moreover have "undec (concat (map iban_char (iban_rot (s[i := d])))) = ?p * 10 ^ (?l + ?k) + undec (iban_char d) * 10 ^ ?k + ?q"
    unfolding r by (simp add: undec_append algebra_simps power_add)
  ultimately have "undec (iban_char (s ! i)) = undec (iban_char d)"
    using mod97_step v undec_iban_char(2) [OF c] undec_iban_char(2) [OF d] by metis
  then have "s ! i = d"
    using undec_iban_char(1) [OF c] undec_iban_char(1) [OF d] AZ09_range [OF c] AZ09_range [OF d] assms(7)
    by (auto simp: ascii_digit_def split: if_splits)
  with assms(6) show False by simp
qed

definition sample_iban :: ustr where
  "sample_iban = lit ''LV80BANK0000435195001''"

lemma sample_iban_ok: "iban_shape sample_iban" "iban_valid ascii_ucd sample_iban" "length sample_iban = 21"
  "iban_shape (sample_iban[20 := 50])" "sample_iban ! 20 = 49"
proof -
  show sh: "iban_shape sample_iban"
    by (simp add: iban_shape_def sample_iban_def lit_def of_char_def AZ_def AZ09_def ascii_digit_def pyslice_def)
  show "iban_shape (sample_iban[20 := 50])"
    by (simp add: iban_shape_def sample_iban_def lit_def of_char_def AZ_def AZ09_def ascii_digit_def pyslice_def)
  show "iban_valid ascii_ucd sample_iban"
    unfolding iban_valid_shape [OF ucd_ascii_ascii_ucd sh]
    by (simp add: iban_rot_def sample_iban_def lit_def of_char_def iban_char_def ascii_digit_def dec_nat.simps undec_def)
qed (simp_all add: sample_iban_def lit_def of_char_def)

theorem iban_catches_substitution_witness:
  "\<not> iban_valid ascii_ucd (sample_iban[20 := 50])"
  by (rule iban_catches_substitution [OF ucd_ascii_ascii_ucd sample_iban_ok(1) sample_iban_ok(4) sample_iban_ok(2)])
    (simp_all add: sample_iban_ok ascii_digit_def)

subsection \<open>What a reported span says\<close>

lemma detect_iban_valid:
  assumes "detect_iban U s = Inr ss" "sp \<in> set ss" shows "iban_valid U (sp_text sp)"
proof -
  from assms obtain m valid where m: "longest_valid_iban U (group_text s m 1) = Some valid"
    and sp: "mk_span (int (fst (group_span m 1))) (int (fst (group_span m 1) + length valid)) (lit ''IBAN'') valid
        conf_certain (lit ''iban'') = Inr sp"
    unfolding detect_iban_def by (fastforce dest!: collect_in simp: res_simps Let_def split: option.splits)
  from longest_valid_iban_Some [OF m] sp show ?thesis by (auto simp: mk_span_def split: if_splits)
qed

lemma detect_card_valid:
  assumes "detect_card U s = Inr ss" "sp \<in> set ss"
  shows "luhn_valid U (filter (\<lambda>c. c \<noteq> 32 \<and> c \<noteq> 45) (sp_text sp)) = Inr True"
proof -
  from assms obtain m where "luhn_valid U (filter (\<lambda>c. c \<noteq> 32 \<and> c \<noteq> 45) (group_text s m 0)) = Inr True"
    "match_span s m ''PAYMENT_CARD'' conf_certain (lit ''payment_card'') = Inr sp"
    unfolding detect_card_def by (fastforce dest!: collect_in simp: res_simps split: if_splits)
  then show ?thesis by (auto simp: match_span_def mk_span_def split: if_splits)
qed

lemma detect_iban_total: "\<exists>ss. detect_iban U s = Inr ss"
  unfolding detect_iban_def
proof (rule collect_total)
  fix m assume m: "m \<in> set (finditer (IBAN_PATTERN U) s)"
  show "\<exists>y. (case longest_valid_iban U (group_text s m 1) of None \<Rightarrow> Inr None
       | Some valid \<Rightarrow> let start = fst (group_span m 1)
            in rbind (mk_span (int start) (int (start + length valid)) (lit ''IBAN'') valid conf_certain (lit ''iban''))
                 (\<lambda>sp. Inr (Some sp))) = Inr y"
  proof (cases "longest_valid_iban U (group_text s m 1)")
    case (Some valid)
    from detect_iban_span [OF m Some, of "lit ''IBAN''" conf_certain "lit ''iban''"] Some show ?thesis by (auto simp: Let_def)
  qed simp
qed

text \<open>
  A reported IBAN passes the mod-97 check and a reported card number the Luhn check, on the text of
  the span itself.
\<close>

theorem reported_checksums_hold:
  "(case detect_iban U s of Inr ss \<Rightarrow> list_all (\<lambda>sp. iban_valid U (sp_text sp)) ss | Inl _ \<Rightarrow> False)
   \<and> (case detect_card U s of Inr ss \<Rightarrow>
        list_all (\<lambda>sp. luhn_valid U (filter (\<lambda>c. c \<noteq> 32 \<and> c \<noteq> 45) (sp_text sp)) = Inr True) ss | Inl _ \<Rightarrow> True)"
  using detect_iban_total [of U s] detect_iban_valid [of U s] detect_card_valid [of U s]
  by (auto simp: list_all_iff split: sum.splits)

end
