(* ===== verification/Phones.thy ===== *)
theory Phones
  imports Detectors
begin

text \<open>
  Telephone numbers, \<^verbatim>\<open>recognizers/baltic/phone_numbers.py\<close>: international numbers by numbering plan,
  national ones only near a context word, and never inside an international number already claimed.
\<close>

definition PLANS :: "(string \<times> string list \<times> nat list) list" where
  "PLANS = [(''371'', [''2'', ''6'', ''8''], [8]), (''370'', [''6'', ''3'', ''4'', ''5'', ''7'', ''8''], [8]),
            (''372'', [''5'', ''3'', ''4'', ''6'', ''7'', ''8''], [7, 8])]"

definition CONTEXT_WORDS :: "ustr list" where
  "CONTEXT_WORDS =
     [lit ''t'' @ [257] @ lit ''lr'', lit ''talr'', lit ''t'' @ [257] @ lit ''lrunis'', lit ''tel'', lit ''telefon'',
      lit ''telefonas'', lit ''telefon nr'', lit ''mob'', lit ''mobilais'', lit ''mobile'', lit ''phone'',
      lit ''call'', lit ''zvaniet'', lit ''skambinkite'', lit ''helista'']"

definition CONTEXT_WINDOW :: nat where "CONTEXT_WINDOW = 24"

definition phone_sep :: "ucd \<Rightarrow> cp \<Rightarrow> bool" where
  "phone_sep U c \<longleftrightarrow> u_isspace U c \<or> c = 46 \<or> c = 45"

definition INTERNATIONAL :: "ucd \<Rightarrow> re" where
  "INTERNATIONAL U = RSeqs
     [RChr 43, RGrp 1 (RBetween 1 3 (RDigit U)), ROpt (RSet (phone_sep U)),
      RGrp 2 (RSeq (RBetween 6 14 (RSeq (RDigit U) (ROpt (RSet (phone_sep U))))) (RDigit U))]"

definition NATIONAL :: "ucd \<Rightarrow> re" where
  "NATIONAL U = RSeqs
     [RNotBehind (\<lambda>c. re_digit U c \<or> c = 43),
      RGrp 1 (RSeq (RDigit U) (RBetween 6 7 (RSeq (ROpt (RSet (phone_sep U))) (RDigit U)))),
      RNotAhead (RDigit U)]"

definition phone_digits :: "ucd \<Rightarrow> ustr \<Rightarrow> ustr" where
  "phone_digits U s = filter (\<lambda>c. \<not> phone_sep U c) s"

definition plan_allows :: "ustr \<Rightarrow> ustr \<Rightarrow> bool" where
  "plan_allows country_code national =
     (case map_of (map (\<lambda>(k, v). (lit k, v)) PLANS) country_code of
        None \<Rightarrow> 7 \<le> length national \<and> length national \<le> 15
      | Some (leading, lengths) \<Rightarrow>
          length national \<in> set lengths \<and> list_ex (\<lambda>p. starts_with national (lit p)) leading)"

definition has_context :: "ucd \<Rightarrow> ustr \<Rightarrow> nat \<Rightarrow> bool" where
  "has_context U s start =
     (let window = u_lower U (pyslice s (start - CONTEXT_WINDOW) start)
      in list_ex (\<lambda>w. is_infix w window) CONTEXT_WORDS)"

definition national_plan_match :: "ustr \<Rightarrow> bool" where
  "national_plan_match national = list_ex (\<lambda>(k, _). plan_allows (lit k) national) PLANS"

definition detect_international :: "ucd \<Rightarrow> ustr \<Rightarrow> span list res" where
  "detect_international U s =
     collect (\<lambda>m. if \<not> plan_allows (group_text s m 1) (phone_digits U (group_text s m 2)) then Inr None
         else rbind (match_span s m ''PHONE_NUMBER'' conf_certain (lit ''phone_number'')) (\<lambda>sp. Inr (Some sp)))
       (finditer (INTERNATIONAL U) s)"

definition detect_national :: "ucd \<Rightarrow> ustr \<Rightarrow> (nat \<times> nat) list \<Rightarrow> span list res" where
  "detect_national U s claimed =
     collect (\<lambda>m. if list_ex (\<lambda>(a, b). a \<le> fst m \<and> fst m < b) claimed then Inr None
         else if \<not> national_plan_match (phone_digits U (group_text s m 1)) then Inr None
         else if \<not> has_context U s (fst m) then Inr None
         else rbind (mk_span (int (fst m)) (int (fst (snd m))) (lit ''PHONE_NUMBER'') (group_text s m 1) conf_high
                       (lit ''phone_number'')) (\<lambda>sp. Inr (Some sp)))
       (finditer (NATIONAL U) s)"

definition detect_phone :: "ucd \<Rightarrow> ustr \<Rightarrow> span list res" where
  "detect_phone U s =
     rbind (detect_international U s) (\<lambda>spans.
     rbind (detect_national U s (map (\<lambda>sp. (sp_start sp, sp_end sp)) spans)) (\<lambda>more.
     Inr (spans @ more)))"

lemma international_nonempty: "0 < minlen (INTERNATIONAL U)"
  by (simp add: INTERNATIONAL_def RChr_def)

lemma national_nonempty: "0 < minlen (NATIONAL U)"
  by (simp add: NATIONAL_def RDigit_def)

text \<open>The group of a national match is the whole match: the assertions around it consume nothing.\<close>

lemma national_group:
  assumes "(i, j, g) \<in> set (finditer (NATIONAL U) s)"
  shows "group_span (i, j, g) 1 = (i, j)"
proof -
  from finditer_rm [OF assms] have "(j, g) \<in> set (rm (NATIONAL U) s i [])" by simp
  then have "map_of g 1 = Some (i, j)"
    by (auto simp: NATIONAL_def simp del: rep.simps split: if_splits)
  then show ?thesis by (simp add: group_span_def)
qed

lemma detect_phone_ok: "detect_phone U s = Inr ss \<Longrightarrow> sp \<in> set ss \<Longrightarrow> span_of s sp \<and> proper sp"
proof -
  assume d: "detect_phone U s = Inr ss" and "sp \<in> set ss"
  then obtain spans more where p: "detect_international U s = Inr spans"
    "detect_national U s (map (\<lambda>sp. (sp_start sp, sp_end sp)) spans) = Inr more" "sp \<in> set spans \<or> sp \<in> set more"
    by (auto simp: detect_phone_def res_simps)
  from p(3) show ?thesis
  proof
    assume "sp \<in> set spans"
    with p(1) obtain m where "m \<in> set (finditer (INTERNATIONAL U) s)"
      "match_span s m ''PHONE_NUMBER'' conf_certain (lit ''phone_number'') = Inr sp"
      unfolding detect_international_def by (fastforce dest!: collect_in simp: res_simps split: if_splits)
    with match_span_ok international_nonempty show ?thesis by blast
  next
    assume "sp \<in> set more"
    with p(2) obtain m where m: "m \<in> set (finditer (NATIONAL U) s)"
      "mk_span (int (fst m)) (int (fst (snd m))) (lit ''PHONE_NUMBER'') (group_text s m 1) conf_high (lit ''phone_number'') = Inr sp"
      unfolding detect_national_def by (fastforce dest!: collect_in simp: res_simps split: if_splits)
    obtain i j g where "m = (i, j, g)" by (cases m)
    with m national_group [of i j g U s] have "match_span s m ''PHONE_NUMBER'' conf_high (lit ''phone_number'') = Inr sp"
      by (simp add: match_span_def group_text_def group_span_def)
    with m(1) match_span_ok national_nonempty show ?thesis by blast
  qed
qed

interpretation phone: detector_contract "detect_phone U" for U
  by unfold_locales (rule detect_phone_ok)

end
