(* ===== verification/Baltic.thy ===== *)
theory Baltic
  imports Detectors
begin

text \<open>
  Baltic personal identity codes, \<^verbatim>\<open>recognizers/baltic/personal_codes.py\<close>: the Latvian, Lithuanian and
  Estonian check digits, the attribution of a code to a country by its context, and the detector that
  joins the three readings.  Digits are read with \<open>int(char)\<close>, which any decimal digit satisfies.
\<close>

subsection \<open>Check digits\<close>

definition LV_PATTERN :: "ucd \<Rightarrow> re" where
  "LV_PATTERN U = RSeqs [RWordB U, RGrp 1 (RTimes 6 (RDigit U)), RChr 45, RGrp 2 (RTimes 5 (RDigit U)), RWordB U]"

definition LV_PLAIN_PATTERN :: "ucd \<Rightarrow> re" where
  "LV_PLAIN_PATTERN U = RSeqs [RWordB U, RGrp 1 (RTimes 11 (RDigit U)), RWordB U]"

definition LV_WEIGHTS :: "nat list" where "LV_WEIGHTS = [1, 6, 3, 7, 9, 10, 5, 8, 4, 2]"

definition weighted :: "nat list \<Rightarrow> nat list \<Rightarrow> nat" where
  "weighted ws ds = sum_list (map (\<lambda>(w, d). d * w) (zip ws (take 10 ds)))"

definition digit_values :: "ucd \<Rightarrow> ustr \<Rightarrow> nat list res" where
  "digit_values U s = rmap (int_char U) s"

definition lv_check_digit_valid :: "ucd \<Rightarrow> ustr \<Rightarrow> bool res" where
  "lv_check_digit_valid U digits =
     (if length digits \<noteq> 11 \<or> \<not> list_all (u_isdigit U) digits then Inr False
      else rbind (digit_values U digits) (\<lambda>ds.
        Inr ((1101 - int (weighted LV_WEIGHTS ds)) mod 11 mod 10 = int (ds ! 10))))"

definition plausible_ddmmyy :: "ucd \<Rightarrow> ustr \<Rightarrow> bool res" where
  "plausible_ddmmyy U s =
     rbind (py_int_str U (pyslice s 0 2)) (\<lambda>day.
     rbind (py_int_str U (pyslice s 2 4)) (\<lambda>month.
     Inr (1 \<le> day \<and> day \<le> 31 \<and> 1 \<le> month \<and> month \<le> 12)))"

definition BALTIC_PATTERN :: "ucd \<Rightarrow> re" where
  "BALTIC_PATTERN U = RSeqs
     [RWordB U, RGrp 1 (RSeq (RSet (\<lambda>c. 49 \<le> c \<and> c \<le> 54)) (RTimes 10 (RDigit U))), RWordB U]"

definition BALTIC_WEIGHTS_1 :: "nat list" where "BALTIC_WEIGHTS_1 = [1, 2, 3, 4, 5, 6, 7, 8, 9, 1]"
definition BALTIC_WEIGHTS_2 :: "nat list" where "BALTIC_WEIGHTS_2 = [3, 4, 5, 6, 7, 8, 9, 1, 2, 3]"
definition BALTIC_CENTURY :: "nat list" where "BALTIC_CENTURY = [1, 2, 3, 4, 5, 6]"

definition baltic_remainder :: "nat list \<Rightarrow> nat" where
  "baltic_remainder ds =
     (let r1 = weighted BALTIC_WEIGHTS_1 ds mod 11
      in if r1 = 10 then (let r2 = weighted BALTIC_WEIGHTS_2 ds mod 11 in if r2 = 10 then 0 else r2) else r1)"

definition baltic_check_digit_valid :: "ucd \<Rightarrow> ustr \<Rightarrow> bool res" where
  "baltic_check_digit_valid U digits =
     rbind (digit_values U digits) (\<lambda>ds. Inr (baltic_remainder ds = ds ! 10))"

definition baltic_date_valid :: "ucd \<Rightarrow> ustr \<Rightarrow> bool res" where
  "baltic_date_valid U digits =
     rbind (int_char U (digits ! 0)) (\<lambda>c.
       if c \<notin> set BALTIC_CENTURY then Inr False
       else rbind (py_int_str U (pyslice digits 3 5)) (\<lambda>month.
            rbind (py_int_str U (pyslice digits 5 7)) (\<lambda>day.
            Inr (1 \<le> month \<and> month \<le> 12 \<and> 1 \<le> day \<and> day \<le> 31))))"

subsection \<open>Context\<close>

definition LOCAL_WINDOW :: nat where "LOCAL_WINDOW = 64"

definition LOCAL_TERMS :: "(string \<times> string list) list" where
  "LOCAL_TERMS = [(''LT'', [''asmens kod'', ''asmenskod'', ''a.k.'', ''a. k.'']), (''EE'', [''isikukood''])]"

definition RILit :: "ucd \<Rightarrow> ustr \<Rightarrow> re" where
  \<comment> \<open>a literal under \<open>re.IGNORECASE\<close>\<close>
  "RILit U s = RSeqs (map (\<lambda>c. RSet (u_ieq U c)) s)"

definition iban_marker :: "ucd \<Rightarrow> string \<Rightarrow> re" where
  "iban_marker U cc = RSeqs [RWordB U, RLit cc, RTimes 2 (RDigit U), RBetween 11 30 (RSet AZ09), RWordB U]"

definition DOCUMENT_MARKERS :: "ucd \<Rightarrow> (string \<times> re list) list" where
  "DOCUMENT_MARKERS U =
     [(''LT'',
       [RSeqs [RWordB U, RILit U (lit ''lietuv'')],
        RSeqs [RWordB U, RILit U (lit ''lithuania'')],
        RSeqs [RWordB U, RGrp 1 (RAlts (map (RILit U)
          [lit ''vilni'', lit ''kaun'', lit ''klaip'' @ [279] @ lit ''d'', [353] @ lit ''iauli'',
           lit ''panev'' @ [279, 382]]))],
        RSeqs [RLit ''+370'', RWordB U],
        iban_marker U ''LT'',
        RSeqs [RILit U (lit ''.lt''), RWordB U]]),
      (''EE'',
       [RSeqs [RWordB U, RILit U (lit ''eesti''), RWordB U],
        RSeqs [RWordB U, RILit U (lit ''estonia'')],
        RSeqs [RWordB U, RGrp 1 (RAlts (map (RILit U)
          [lit ''tallinn'', lit ''tartu'', lit ''p'' @ [228] @ lit ''rnu'', lit ''narva'',
           lit ''j'' @ [245] @ lit ''geva'']))],
        RSeqs [RLit ''+372'', RWordB U],
        iban_marker U ''EE'',
        RSeqs [RILit U (lit ''.ee''), RWordB U]])]"

definition LV_LOCAL_TERMS :: "string list" where
  "LV_LOCAL_TERMS = [''personas kod'', ''personas kods'', ''p.k.'', ''p. k.'']"

definition LV_DOCUMENT_MARKERS :: "ucd \<Rightarrow> re list" where
  "LV_DOCUMENT_MARKERS U =
     [RSeqs [RWordB U, RILit U (lit ''latvij'')],
      RSeqs [RWordB U, RILit U (lit ''latvia'')],
      RSeqs [RWordB U, RGrp 1 (RAlts (map (RILit U)
        [lit ''r'' @ [299] @ lit ''g'', lit ''rig'', lit ''liep'' @ [257] @ lit ''j'', lit ''liepaj'',
         lit ''daugavpil'', lit ''jelgav'', lit ''ventspil'', lit ''j'' @ [363] @ lit ''rmal'', lit ''jurmal'']))],
      RSeqs [RLit ''+371'', RWordB U],
      iban_marker U ''LV'',
      RSeqs [RILit U (lit ''.lv''), RWordB U]]"

definition local_window :: "ucd \<Rightarrow> ustr \<Rightarrow> nat \<Rightarrow> ustr" where
  "local_window U s start = u_lower U (pyslice s (start - LOCAL_WINDOW) start)"

definition indicates_latvia :: "ucd \<Rightarrow> ustr \<Rightarrow> nat \<Rightarrow> bool" where
  "indicates_latvia U s start \<longleftrightarrow>
     list_ex (\<lambda>t. is_infix (lit t) (local_window U s start)) LV_LOCAL_TERMS
     \<or> list_ex (\<lambda>r. re_matches r s) (LV_DOCUMENT_MARKERS U)"

definition rfind :: "ustr \<Rightarrow> ustr \<Rightarrow> nat option" where
  \<comment> \<open>\<open>s.rfind(t)\<close>, \<open>None\<close> for \<open>-1\<close>\<close>
  "rfind s t = find (\<lambda>i. starts_with (drop i s) t) (rev [0..<Suc (length s)])"

fun nearest_term :: "ustr \<Rightarrow> (string \<times> string) list \<Rightarrow> (nat \<times> string) option \<Rightarrow> (nat \<times> string) option" where
  \<comment> \<open>the loop over countries and terms; pairs are (country, term)\<close>
  "nearest_term window [] nearest = nearest"
| "nearest_term window ((country, t) # ts) nearest =
     nearest_term window ts
       (case rfind window (lit t) of
          None \<Rightarrow> nearest
        | Some p \<Rightarrow> (case nearest of None \<Rightarrow> Some (p, country)
                     | Some (q, c) \<Rightarrow> if q < p then Some (p, country) else Some (q, c)))"

definition infer_country :: "ucd \<Rightarrow> ustr \<Rightarrow> nat \<Rightarrow> string option" where
  "infer_country U s start =
     (let terms = concat (map (\<lambda>(country, ts). map (\<lambda>t. (country, t)) ts) LOCAL_TERMS)
      in case nearest_term (local_window U s start) terms None of
           Some (_, country) \<Rightarrow> Some country
         | None \<Rightarrow>
             (let document = map fst (filter (\<lambda>(_, rs). list_ex (\<lambda>r. re_matches r s) rs) (DOCUMENT_MARKERS U))
              in case document of [c] \<Rightarrow> Some c | _ \<Rightarrow> None))"

subsection \<open>The three readings and the detector\<close>

definition rand :: "bool res \<Rightarrow> bool res \<Rightarrow> bool res" where
  \<comment> \<open>\<open>a and b\<close>, where either may raise\<close>
  "rand a b = rbind a (\<lambda>x. if x then b else Inr False)"

definition plain_code_label :: "ucd \<Rightarrow> ustr \<Rightarrow> nat \<Rightarrow> ustr \<Rightarrow> string option res" where
  "plain_code_label U s start digits =
     rbind (rand (plausible_ddmmyy U (take 6 digits)) (lv_check_digit_valid U digits)) (\<lambda>lv.
       if \<not> lv then Inr None
       else rbind (rand (baltic_date_valid U digits) (baltic_check_digit_valid U digits)) (\<lambda>baltic.
         if \<not> baltic then Inr (Some ''LV_PERSONAL_CODE'')
         else if infer_country U s start \<noteq> None then Inr None
         else if indicates_latvia U s start then Inr (Some ''LV_PERSONAL_CODE'')
         else Inr None))"

definition detect_lv :: "ucd \<Rightarrow> ustr \<Rightarrow> span list res" where
  "detect_lv U s =
     collect (\<lambda>m.
       let first = group_text s m 1; digits = first @ group_text s m 2
       in if starts_with first (lit ''32'')
          then rbind (match_span s m ''LV_PERSONAL_CODE'' conf_medium (lit ''lv_personal_code'')) (\<lambda>sp. Inr (Some sp))
          else rbind (rand (plausible_ddmmyy U first) (lv_check_digit_valid U digits)) (\<lambda>ok.
            if \<not> ok then Inr None
            else rbind (match_span s m ''LV_PERSONAL_CODE'' conf_certain (lit ''lv_personal_code'')) (\<lambda>sp. Inr (Some sp))))
       (finditer (LV_PATTERN U) s)"

definition detect_lv_plain :: "ucd \<Rightarrow> ustr \<Rightarrow> span list res" where
  "detect_lv_plain U s =
     collect (\<lambda>m. rbind (plain_code_label U s (fst m) (group_text s m 1)) (\<lambda>label.
       case label of None \<Rightarrow> Inr None
       | Some ty \<Rightarrow> rbind (mk_span (int (fst m)) (int (fst (snd m))) (lit ty) (group_text s m 1) conf_certain
                            (lit ''lv_personal_code_plain'')) (\<lambda>sp. Inr (Some sp))))
       (finditer (LV_PLAIN_PATTERN U) s)"

definition detect_baltic :: "ucd \<Rightarrow> ustr \<Rightarrow> span list res" where
  "detect_baltic U s =
     collect (\<lambda>m.
       let digits = group_text s m 1
       in rbind (rand (baltic_date_valid U digits) (baltic_check_digit_valid U digits)) (\<lambda>ok.
            if \<not> ok then Inr None
            else rbind (mk_span (int (fst m)) (int (fst (snd m)))
                   (case infer_country U s (fst m) of
                      Some c \<Rightarrow> lit c @ lit ''_PERSONAL_CODE'' | None \<Rightarrow> lit ''BALTIC_PERSONAL_CODE'')
                   digits conf_certain (lit ''baltic_personal_code'')) (\<lambda>sp. Inr (Some sp))))
       (finditer (BALTIC_PATTERN U) s)"

definition span_pos :: "span \<Rightarrow> nat \<times> nat" where
  "span_pos sp = (sp_start sp, sp_end sp)"

definition detect_personal_codes :: "ucd \<Rightarrow> ustr \<Rightarrow> span list res" where
  "detect_personal_codes U s =
     rbind (detect_lv U s) (\<lambda>hyphenated.
     rbind (detect_lv_plain U s) (\<lambda>plain.
     rbind (detect_baltic U s) (\<lambda>found.
     let claimed = map span_pos plain;
         baltic = filter (\<lambda>sp. span_pos sp \<notin> set claimed) found
     in Inr (hyphenated @ plain @ baltic))))"

subsection \<open>Every reported span is a slice of the text\<close>

lemma lv_nonempty: "0 < minlen (LV_PATTERN U)"
  by (simp add: LV_PATTERN_def RChr_def)

lemma lv_plain_nonempty: "0 < minlen (LV_PLAIN_PATTERN U)"
  by (simp add: LV_PLAIN_PATTERN_def RDigit_def)

lemma baltic_nonempty: "0 < minlen (BALTIC_PATTERN U)"
  by (simp add: BALTIC_PATTERN_def RDigit_def)

text \<open>Between two word boundaries the group is the whole match.\<close>

lemma bounded_group:
  assumes "(i, j, g) \<in> set (finditer (RSeqs [RWordB U, RGrp 1 r, RWordB U]) s)"
  shows "group_span (i, j, g) 1 = (i, j)"
proof -
  from finditer_rm [OF assms] have "(j, g) \<in> set (rm (RSeqs [RWordB U, RGrp 1 r, RWordB U]) s i [])" by simp
  then have "map_of g 1 = Some (i, j)"
    by (auto simp: RWordB_def split: if_splits)
  then show ?thesis by (simp add: group_span_def)
qed

lemma bounded_match_span:
  assumes "m \<in> set (finditer (RSeqs [RWordB U, RGrp 1 r, RWordB U]) s)"
  shows "group_text s m 1 = group_text s m 0"
proof -
  obtain i j g where "m = (i, j, g)" by (cases m)
  with bounded_group [of i j g U r s] assms show ?thesis
    by (simp add: group_text_def) (simp add: group_span_def)
qed

lemma detect_lv_in:
  assumes "detect_lv U s = Inr ss" "sp \<in> set ss"
  obtains m score where "m \<in> set (finditer (LV_PATTERN U) s)"
    "match_span s m ''LV_PERSONAL_CODE'' score (lit ''lv_personal_code'') = Inr sp"
  using assms unfolding detect_lv_def
  by (fastforce dest!: collect_in simp: res_simps Let_def split: if_splits)

lemma detect_plain_in:
  assumes "detect_lv_plain U s = Inr ss" "sp \<in> set ss"
  obtains m where "m \<in> set (finditer (LV_PLAIN_PATTERN U) s)"
    "match_span s m ''LV_PERSONAL_CODE'' conf_certain (lit ''lv_personal_code_plain'') = Inr sp"
proof -
  from assms obtain m ty where m: "m \<in> set (finditer (LV_PLAIN_PATTERN U) s)"
    and ty: "plain_code_label U s (fst m) (group_text s m 1) = Inr (Some ty)"
    and sp: "mk_span (int (fst m)) (int (fst (snd m))) (lit ty) (group_text s m 1) conf_certain
               (lit ''lv_personal_code_plain'') = Inr sp"
    unfolding detect_lv_plain_def
    by (fastforce dest!: collect_in simp: res_simps split: option.splits)
  from ty have "ty = ''LV_PERSONAL_CODE''"
    by (auto simp: plain_code_label_def res_simps split: if_splits)
  moreover from m bounded_match_span have "group_text s m 1 = group_text s m 0"
    unfolding LV_PLAIN_PATTERN_def by blast
  ultimately show ?thesis using sp m that by (simp add: match_span_def)
qed

lemma lit_append: "lit a @ lit b = lit (a @ b)"
  by (simp add: lit_def)

lemma detect_baltic_in:
  assumes "detect_baltic U s = Inr ss" "sp \<in> set ss"
  obtains m ty where "m \<in> set (finditer (BALTIC_PATTERN U) s)"
    "match_span s m ty conf_certain (lit ''baltic_personal_code'') = Inr sp"
proof -
  from assms obtain m where m: "m \<in> set (finditer (BALTIC_PATTERN U) s)"
    and sp: "mk_span (int (fst m)) (int (fst (snd m)))
               (case infer_country U s (fst m) of
                  Some c \<Rightarrow> lit c @ lit ''_PERSONAL_CODE'' | None \<Rightarrow> lit ''BALTIC_PERSONAL_CODE'')
               (group_text s m 1) conf_certain (lit ''baltic_personal_code'') = Inr sp"
    unfolding detect_baltic_def
    by (fastforce dest!: collect_in simp: res_simps Let_def split: if_splits)
  have "\<exists>ty. (case infer_country U s (fst m) of
                  Some c \<Rightarrow> lit c @ lit ''_PERSONAL_CODE'' | None \<Rightarrow> lit ''BALTIC_PERSONAL_CODE'') = lit ty"
    by (cases "infer_country U s (fst m)") (auto simp: lit_append)
  moreover from m bounded_match_span have "group_text s m 1 = group_text s m 0"
    unfolding BALTIC_PATTERN_def by blast
  ultimately obtain ty where "match_span s m ty conf_certain (lit ''baltic_personal_code'') = Inr sp"
    using sp by (auto simp: match_span_def)
  with m that show ?thesis by blast
qed

lemma detect_personal_codes_ok:
  "detect_personal_codes U s = Inr ss \<Longrightarrow> sp \<in> set ss \<Longrightarrow> span_of s sp \<and> proper sp"
proof -
  assume d: "detect_personal_codes U s = Inr ss" and "sp \<in> set ss"
  then obtain a b c where p: "detect_lv U s = Inr a" "detect_lv_plain U s = Inr b" "detect_baltic U s = Inr c"
    and "sp \<in> set a \<or> sp \<in> set b \<or> sp \<in> set c"
    by (auto simp: detect_personal_codes_def res_simps Let_def)
  then consider "sp \<in> set a" | "sp \<in> set b" | "sp \<in> set c" by blast
  then show ?thesis
  proof cases
    case 1
    with p(1) show ?thesis by (rule detect_lv_in) (rule match_span_ok [OF _ _ lv_nonempty])
  next
    case 2
    with p(2) show ?thesis by (rule detect_plain_in) (rule match_span_ok [OF _ _ lv_plain_nonempty])
  next
    case 3
    with p(3) show ?thesis by (rule detect_baltic_in) (rule match_span_ok [OF _ _ baltic_nonempty])
  qed
qed

interpretation personal_codes: detector_contract "detect_personal_codes U" for U
  by unfold_locales (rule detect_personal_codes_ok)

subsection \<open>Each code is reported once\<close>

lemma lv_length: "(i, j, g) \<in> set (finditer (LV_PATTERN U) s) \<Longrightarrow> j = i + 12"
  by (erule finditer_exactlen) (simp add: LV_PATTERN_def RWordB_def RDigit_def RChr_def)

lemma lv_plain_length: "(i, j, g) \<in> set (finditer (LV_PLAIN_PATTERN U) s) \<Longrightarrow> j = i + 11"
  by (erule finditer_exactlen) (simp add: LV_PLAIN_PATTERN_def RWordB_def RDigit_def)

lemma baltic_length: "(i, j, g) \<in> set (finditer (BALTIC_PATTERN U) s) \<Longrightarrow> j = i + 11"
  by (erule finditer_exactlen) (simp add: BALTIC_PATTERN_def RWordB_def RDigit_def)

lemma collect_distinct:
  assumes "collect f ms = Inr ss" "distinct (map (\<lambda>m. (fst m, fst (snd m))) ms)"
    and "\<And>m sp. m \<in> set ms \<Longrightarrow> f m = Inr (Some sp) \<Longrightarrow> span_pos sp = (fst m, fst (snd m))"
  shows "distinct (map span_pos ss)"
  using assms
proof (induction ms arbitrary: ss)
  case (Cons m ms)
  show ?case
  proof (cases "f m")
    case (Inr y)
    with Cons.prems(1) obtain rest where rest: "collect f ms = Inr rest"
      and ss: "ss = (case y of None \<Rightarrow> rest | Some sp \<Rightarrow> sp # rest)"
      by (auto simp: res_simps split: option.splits)
    from rest Cons.prems(2,3) have d: "distinct (map span_pos rest)" by (intro Cons.IH) auto
    have "span_pos sp \<noteq> (fst m, fst (snd m))" if "sp \<in> set rest" for sp
    proof -
      from collect_in [OF rest that] obtain m' where m': "m' \<in> set ms" "f m' = Inr (Some sp)" by blast
      with Cons.prems(3) have "span_pos sp = (fst m', fst (snd m'))" by simp
      with m'(1) Cons.prems(2) show ?thesis by (auto simp: image_iff)
    qed
    with d ss Inr Cons.prems(3) [of m] show ?thesis by (cases y) force+
  qed (use Cons.prems(1) in \<open>simp add: res_simps\<close>)
qed simp

lemma match_span_pos: "match_span s m ty score name = Inr sp \<Longrightarrow> span_pos sp = (fst m, fst (snd m))"
  by (auto simp: match_span_def mk_span_nat span_pos_def split: if_splits)

lemma detect_lv_distinct: "detect_lv U s = Inr ss \<Longrightarrow> distinct (map span_pos ss)"
  unfolding detect_lv_def
  by (rule collect_distinct [OF _ finditer_distinct [OF lv_nonempty]])
    (auto simp: res_simps Let_def dest!: match_span_pos split: if_splits)

lemma mk_span_pos: "mk_span (int a) (int b) ty t score name = Inr sp \<Longrightarrow> span_pos sp = (a, b)"
  by (auto simp: mk_span_nat span_pos_def split: if_splits)

lemma detect_plain_distinct: "detect_lv_plain U s = Inr ss \<Longrightarrow> distinct (map span_pos ss)"
  unfolding detect_lv_plain_def
  by (rule collect_distinct [OF _ finditer_distinct [OF lv_plain_nonempty]])
    (auto simp: res_simps dest!: mk_span_pos split: option.splits)

lemma detect_baltic_distinct: "detect_baltic U s = Inr ss \<Longrightarrow> distinct (map span_pos ss)"
  unfolding detect_baltic_def
  by (rule collect_distinct [OF _ finditer_distinct [OF baltic_nonempty]])
    (auto simp: res_simps Let_def dest!: mk_span_pos split: if_splits)

lemma lv_pos: "detect_lv U s = Inr ss \<Longrightarrow> sp \<in> set ss \<Longrightarrow> sp_end sp = sp_start sp + 12"
  by (erule (1) detect_lv_in) (auto dest!: match_span_pos lv_length simp: span_pos_def)

lemma plain_pos: "detect_lv_plain U s = Inr ss \<Longrightarrow> sp \<in> set ss \<Longrightarrow> sp_end sp = sp_start sp + 11"
  by (erule (1) detect_plain_in) (auto dest!: match_span_pos lv_plain_length simp: span_pos_def)

lemma baltic_pos: "detect_baltic U s = Inr ss \<Longrightarrow> sp \<in> set ss \<Longrightarrow> sp_end sp = sp_start sp + 11"
  by (erule (1) detect_baltic_in) (auto dest!: match_span_pos baltic_length simp: span_pos_def)

definition baltic_valid :: "ucd \<Rightarrow> ustr \<Rightarrow> bool res" where
  \<comment> \<open>the two tests of the Lithuanian and Estonian rule\<close>
  "baltic_valid U digits = rand (baltic_date_valid U digits) (baltic_check_digit_valid U digits)"

lemma detect_baltic_complete:
  assumes "detect_baltic U s = Inr ss" "m \<in> set (finditer (BALTIC_PATTERN U) s)"
    and "baltic_valid U (group_text s m 1) = Inr True"
  shows "\<exists>sp \<in> set ss. span_pos sp = (fst m, fst (snd m))"
proof -
  obtain i j g where m: "m = (i, j, g)" by (cases m)
  have "group_text s m 1 = pyslice s i j"
    using bounded_match_span assms(2) m unfolding BALTIC_PATTERN_def
    by (fastforce simp: group_text_def group_span_def)
  moreover have "i \<le> j" "j \<le> length s" using assms(2) m finditer_bounds by blast+
  ultimately have "length (group_text s m 1) = j - i" by (simp add: length_pyslice)
  with \<open>i \<le> j\<close> m obtain sp where sp: "mk_span (int (fst m)) (int (fst (snd m)))
        (case infer_country U s (fst m) of
           Some c \<Rightarrow> lit c @ lit ''_PERSONAL_CODE'' | None \<Rightarrow> lit ''BALTIC_PERSONAL_CODE'')
        (group_text s m 1) conf_certain (lit ''baltic_personal_code'') = Inr sp"
    by (auto simp: mk_span_nat conf_certain_def)
  then have "sp \<in> set ss"
    using assms(3)
    by (intro collect_intro [OF assms(1) [unfolded detect_baltic_def] assms(2)])
      (simp add: baltic_valid_def res_simps Let_def)
  with mk_span_pos [OF sp] show ?thesis by blast
qed

lemma distinct_three:
  assumes "distinct (map f xs)" "distinct (map f ys)" "distinct (map f zs)"
    and "\<And>x y. x \<in> set xs \<Longrightarrow> y \<in> set ys \<union> set zs \<Longrightarrow> f x \<noteq> f y"
    and "\<And>y z. y \<in> set ys \<Longrightarrow> z \<in> set zs \<Longrightarrow> f y \<noteq> f z"
  shows "distinct (map f (xs @ ys @ zs))"
proof -
  have "f ` set xs \<inter> f ` (set ys \<union> set zs) = {}" using assms(4) by blast
  moreover have "f ` set ys \<inter> f ` set zs = {}" using assms(5) by blast
  ultimately show ?thesis using assms(1-3) by (auto simp: image_Un)
qed

text \<open>
  Joining the three readings of Baltic personal codes reports no position twice, and every
  eleven-digit match of the Lithuanian and Estonian pattern whose date and check digit are valid is
  reported, under whichever of the three labels the code gives it.
\<close>

theorem personal_codes_reported_once:
  assumes "detect_personal_codes U s = Inr ss"
  shows "distinct (map span_pos ss)
    \<and> (\<forall>m \<in> set (finditer (BALTIC_PATTERN U) s). baltic_valid U (group_text s m 1) = Inr True
         \<longrightarrow> (\<exists>sp \<in> set ss. span_pos sp = (fst m, fst (snd m))))"
proof -
  from assms obtain a b c where p: "detect_lv U s = Inr a" "detect_lv_plain U s = Inr b" "detect_baltic U s = Inr c"
    and ss: "ss = a @ b @ filter (\<lambda>sp. span_pos sp \<notin> set (map span_pos b)) c"
    by (auto simp: detect_personal_codes_def res_simps Let_def)
  have "distinct (map span_pos ss)"
    unfolding ss
  proof (rule distinct_three)
    show "distinct (map span_pos a)" "distinct (map span_pos b)"
      "distinct (map span_pos (filter (\<lambda>sp. span_pos sp \<notin> set (map span_pos b)) c))"
      using detect_lv_distinct [OF p(1)] detect_plain_distinct [OF p(2)] detect_baltic_distinct [OF p(3)]
      by (auto intro: distinct_map_filter)
  next
    fix x y
    assume "x \<in> set a" "y \<in> set b \<union> set (filter (\<lambda>sp. span_pos sp \<notin> set (map span_pos b)) c)"
    with lv_pos [OF p(1)] plain_pos [OF p(2), of y] baltic_pos [OF p(3), of y] show "span_pos x \<noteq> span_pos y"
      by (auto simp: span_pos_def)
  next
    fix y z
    assume "y \<in> set b" "z \<in> set (filter (\<lambda>sp. span_pos sp \<notin> set (map span_pos b)) c)"
    then show "span_pos y \<noteq> span_pos z" by (auto simp: image_iff)
  qed
  moreover have "\<exists>sp \<in> set ss. span_pos sp = (fst m, fst (snd m))"
    if m: "m \<in> set (finditer (BALTIC_PATTERN U) s)" "baltic_valid U (group_text s m 1) = Inr True" for m
  proof -
    from detect_baltic_complete [OF p(3) m] obtain sp where "sp \<in> set c" "span_pos sp = (fst m, fst (snd m))" by blast
    moreover have "sp \<in> set c \<Longrightarrow> span_pos sp \<notin> set (map span_pos b) \<Longrightarrow> sp \<in> set ss" by (simp add: ss)
    moreover have "set b \<subseteq> set ss" by (auto simp: ss)
    ultimately show ?thesis by (metis (no_types, lifting) in_set_conv_nth length_map nth_map nth_mem subsetD)
  qed
  ultimately show ?thesis by blast
qed

definition sample_code :: ustr where
  "sample_code = lit ''38001010075''"

theorem personal_codes_reported_once_witness:
  "\<exists>ss. detect_personal_codes ascii_ucd sample_code = Inr ss \<and> distinct (map span_pos ss)
     \<and> map span_pos ss = [(0, 11)]"
proof -
  have "case detect_personal_codes ascii_ucd sample_code of Inr ss \<Rightarrow> map span_pos ss = [(0, 11)] | Inl _ \<Rightarrow> False"
    by code_simp
  then obtain ss where d: "detect_personal_codes ascii_ucd sample_code = Inr ss" and p: "map span_pos ss = [(0, 11)]"
    by (auto split: sum.splits)
  from personal_codes_reported_once [OF d] have "distinct (map span_pos ss)" by (rule conjunct1)
  with d p show ?thesis by (intro exI [of _ ss] conjI)
qed

text \<open>
  The plain Latvian reader leaves a code both rules accept, with no context, to the Lithuanian and
  Estonian pattern.  That pattern asks for an ASCII first digit, while \<open>\d\<close> and \<open>int\<close> accept every
  decimal digit: such a code written with another script's first digit is left to a reader that
  cannot see it.
\<close>

lemma ambiguous_code_is_yielded:
  assumes "baltic_valid U digits = Inr True" "infer_country U s i = None" "\<not> indicates_latvia U s i"
    and "plain_code_label U s i digits = Inr label"
  shows "label = None"
  using assms by (auto simp: plain_code_label_def baltic_valid_def res_simps split: if_splits)

lemma baltic_pattern_ascii_start:
  assumes "(i, j, g) \<in> set (finditer (BALTIC_PATTERN U) s)"
  shows "49 \<le> s ! i \<and> s ! i \<le> 54"
proof -
  from finditer_rm [OF assms] have "(j, g) \<in> set (rm (BALTIC_PATTERN U) s i [])" by simp
  then show ?thesis by (auto simp: BALTIC_PATTERN_def RWordB_def simp del: rep.simps split: if_splits)
qed

end
