(* ===== verification/Policy.thy ===== *)
theory Policy
  imports Domain Sha256 "HOL-Library.Product_Lexorder" "HOL-Library.List_Lexorder" "HOL-Library.Multiset"
begin

text \<open>
  The policy engine, \<^verbatim>\<open>gateway/policy/engine.py\<close>, and the local-routing floor applied to its decisions,
  \<^verbatim>\<open>gateway/policy/local_routing.py\<close>.  A frozen set of strings is a list used as a set.  The parameter
  \<open>show\<close> is the text of a YAML value that is no string, number or boolean.
\<close>

subsection \<open>Local routing\<close>

datatype local_routing = LR_OFF | LR_DETECTED | LR_ALL

fun mode_value :: "local_routing \<Rightarrow> ustr" where
  "mode_value LR_OFF = lit ''off''"
| "mode_value LR_DETECTED = lit ''detected''"
| "mode_value LR_ALL = lit ''all''"

definition parse_local_routing :: "ucd \<Rightarrow> ustr \<Rightarrow> local_routing res" where
  "parse_local_routing U raw =
     (let s = u_lower U (strip_ws (u_isspace U) raw); v = (if s = [] then lit ''off'' else s)
      in if v = lit ''off'' then Inr LR_OFF
         else if v = lit ''detected'' then Inr LR_DETECTED
         else if v = lit ''all'' then Inr LR_ALL
         else Inl ValueError)"

definition LOCAL_DESTINATION :: pyval where
  "LOCAL_DESTINATION = PStr (lit ''local'')"

definition requires_local :: "local_routing \<Rightarrow> inspection \<Rightarrow> bool" where
  "requires_local mode i \<longleftrightarrow> mode = LR_ALL \<or> (mode = LR_DETECTED \<and> i_spans i \<noteq> [])"

definition mode_required_destinations :: "local_routing \<Rightarrow> pyval list \<Rightarrow> pyval list" where
  "mode_required_destinations mode selectable =
     (case mode of LR_ALL \<Rightarrow> [LOCAL_DESTINATION]
      | LR_DETECTED \<Rightarrow> remdups (selectable @ [LOCAL_DESTINATION])
      | LR_OFF \<Rightarrow> selectable)"

definition apply_local_routing :: "local_routing \<Rightarrow> decision \<Rightarrow> inspection \<Rightarrow> decision" where
  "apply_local_routing mode d i =
     (if d_action d = BLOCK \<or> d_destination d = LOCAL_DESTINATION \<or> \<not> requires_local mode i then d
      else \<lparr>d_action = ROUTE_LOCAL, d_destination = LOCAL_DESTINATION,
            d_rule_name = lit ''local-routing:'' @ mode_value mode,
            d_policy_version = d_policy_version d,
            d_matched = sort (entity_types i),
            d_reason = Moved_local (mode_value mode) (d_rule_name d) (d_action d) (d_destination d)\<rparr>)"

subsection \<open>Rules\<close>

record rule =
  rl_name :: ustr
  rl_priority :: int
  rl_action :: action
  rl_destination :: pyval
  rl_entities :: "ustr list"
  rl_applications :: "ustr list"
  rl_min_score :: rat

definition rule_matches :: "rule \<Rightarrow> req_context \<Rightarrow> inspection \<Rightarrow> bool \<times> ustr list" where
  "rule_matches r ctx i =
     (if rl_applications r \<noteq> [] \<and> application ctx \<notin> set (rl_applications r) then (False, [])
      else if rl_entities r = [] then (True, [])
      else (let present = map sp_type (filter (\<lambda>s. rl_min_score r \<le> sp_score s) (i_spans i));
                matched = filter (\<lambda>e. e \<in> set present) (remdups (rl_entities r))
            in if matched = [] then (False, []) else (True, sort matched)))"

definition rule_key :: "rule \<Rightarrow> int \<times> bool \<times> ustr" where
  "rule_key r = (- rl_priority r, rl_action r \<noteq> BLOCK, rl_name r)"

subsection \<open>The engine\<close>

record policy =
  pe_rules :: "rule list"
  pe_version :: ustr
  pe_default_destination :: ustr
  pe_local_routing :: local_routing

definition mk_policy :: "rule list \<Rightarrow> ustr \<Rightarrow> ustr \<Rightarrow> local_routing \<Rightarrow> policy res" where
  "mk_policy rules version default_dest mode =
     (if rules = [] then Inl PolicyError
      else Inr \<lparr>pe_rules = sort_key rule_key rules, pe_version = version,
                pe_default_destination = default_dest, pe_local_routing = mode\<rparr>)"

definition with_rules :: "policy \<Rightarrow> rule list \<Rightarrow> ustr \<Rightarrow> policy res" where
  "with_rules p rules suffix =
     (let combined = pe_rules p @ rules
      in if \<not> distinct (map rl_name combined) then Inl PolicyError
         else mk_policy combined (pe_version p @ lit ''+'' @ suffix) (pe_default_destination p) (pe_local_routing p))"

definition with_local_routing :: "policy \<Rightarrow> local_routing \<Rightarrow> policy res" where
  "with_local_routing p mode =
     (if mode = LR_OFF then Inr p
      else if pe_local_routing p \<noteq> LR_OFF then Inl PolicyError
      else mk_policy (pe_rules p) (pe_version p @ lit ''+local-routing:'' @ mode_value mode)
             (pe_default_destination p) mode)"

definition rule_destination :: "policy \<Rightarrow> rule \<Rightarrow> pyval" where
  "rule_destination p r = py_or (rl_destination r) (PStr (pe_default_destination p))"

fun hashable :: "pyval \<Rightarrow> bool" where
  "hashable (PList _) = False"
| "hashable (PDict _) = False"
| "hashable _ = True"

definition required_destinations :: "policy \<Rightarrow> pyval list res" where
  "required_destinations p =
     (let dests = map (rule_destination p) (filter (\<lambda>r. rl_action r \<noteq> BLOCK) (pe_rules p))
      in if list_all hashable dests
         then Inr (mode_required_destinations (pe_local_routing p) (remdups dests))
         else Inl TypeError)"

fun first_match_in :: "policy \<Rightarrow> rule list \<Rightarrow> req_context \<Rightarrow> inspection \<Rightarrow> decision" where
  "first_match_in p [] ctx i =
     \<lparr>d_action = BLOCK, d_destination = PStr [], d_rule_name = lit ''__implicit_deny__'',
      d_policy_version = pe_version p, d_matched = [], d_reason = Fail_closed\<rparr>"
| "first_match_in p (r # rs) ctx i =
     (case rule_matches r ctx i of
        (False, _) \<Rightarrow> first_match_in p rs ctx i
      | (True, entities) \<Rightarrow>
          \<lparr>d_action = rl_action r, d_destination = rule_destination p r, d_rule_name = rl_name r,
           d_policy_version = pe_version p, d_matched = entities,
           d_reason = Matched_rule (rl_name r) (rl_priority r)\<rparr>)"

definition first_match :: "policy \<Rightarrow> req_context \<Rightarrow> inspection \<Rightarrow> decision" where
  "first_match p ctx i = first_match_in p (pe_rules p) ctx i"

definition evaluate_with_base :: "policy \<Rightarrow> req_context \<Rightarrow> inspection \<Rightarrow> decision \<times> decision" where
  "evaluate_with_base p ctx i =
     (let base = first_match p ctx i in (base, apply_local_routing (pe_local_routing p) base i))"

definition policy_evaluate :: "policy \<Rightarrow> req_context \<Rightarrow> inspection \<Rightarrow> decision" where
  "policy_evaluate p ctx i = snd (evaluate_with_base p ctx i)"

subsection \<open>Loading a document\<close>

definition string_list :: "ucd \<Rightarrow> pyval \<Rightarrow> ustr list res" where
  "string_list U v =
     (case v of
        PList xs \<Rightarrow>
          rmap (\<lambda>x. case x of
                  PStr s \<Rightarrow> if strip_ws (u_isspace U) s = [] then Inl PolicyError else Inr s
                | _ \<Rightarrow> Inl PolicyError) xs
      | _ \<Rightarrow> Inl PolicyError)"

definition score_in_range :: "pyfloat \<Rightarrow> rat res" where
  "score_in_range f =
     (case f of Fin q \<Rightarrow> if 0 \<le> q \<and> q \<le> 1 then Inr q else Inl PolicyError | _ \<Rightarrow> Inl PolicyError)"

definition parse_min_score :: "pyval \<Rightarrow> rat res" where
  "parse_min_score v =
     (case v of
        PInt _ \<Rightarrow> rbind (py_float v) score_in_range
      | PFloat f \<Rightarrow> score_in_range f
      | _ \<Rightarrow> Inl PolicyError)"

definition dict_block :: "pydict \<Rightarrow> string \<Rightarrow> pydict res" where
  \<comment> \<open>\<open>raw.get(k) or {}\<close>, which must be a mapping\<close>
  "dict_block raw k =
     (case py_or (pd_get_or raw k PNone) (PDict []) of PDict d \<Rightarrow> Inr d | _ \<Rightarrow> Inl PolicyError)"

definition parse_rule :: "ucd \<Rightarrow> ustr list \<Rightarrow> pyval \<Rightarrow> rule res" where
  "parse_rule U seen raw =
     (case raw of
        PDict d \<Rightarrow>
          (case pd_get_or d ''name'' PNone of
             PStr name \<Rightarrow>
               if name = [] then Inl PolicyError
               else if name \<in> set seen then Inl PolicyError
               else rbind (dict_block d ''action'') (\<lambda>action_block.
                    rbind (case pd_get_or action_block ''type'' PNone of
                             PStr s \<Rightarrow> (case parse_action s of Inr a \<Rightarrow> Inr a | Inl _ \<Rightarrow> Inl PolicyError)
                           | _ \<Rightarrow> Inl PolicyError) (\<lambda>act.
                    rbind (dict_block d ''match'') (\<lambda>match_block.
                    rbind (string_list U (pd_get_or match_block ''entities'' (PList []))) (\<lambda>entities.
                    rbind (string_list U (pd_get_or match_block ''applications'' (PList []))) (\<lambda>applications.
                    rbind (parse_min_score (pd_get_or match_block ''min_score'' (PFloat (Fin 0)))) (\<lambda>min_score.
                    rbind (py_int U (pd_get_or d ''priority'' (PInt 0))) (\<lambda>priority.
                    Inr \<lparr>rl_name = name, rl_priority = priority, rl_action = act,
                         rl_destination = pd_get_or action_block ''destination'' (PStr []),
                         rl_entities = entities, rl_applications = applications,
                         rl_min_score = min_score\<rparr>)))))))
           | _ \<Rightarrow> Inl PolicyError)
      | _ \<Rightarrow> Inl PolicyError)"

fun parse_rules :: "ucd \<Rightarrow> ustr list \<Rightarrow> pyval list \<Rightarrow> rule list res" where
  "parse_rules U seen [] = Inr []"
| "parse_rules U seen (raw # raws) =
     rbind (parse_rule U seen raw) (\<lambda>r.
     rbind (parse_rules U (rl_name r # seen) raws) (\<lambda>rs. Inr (r # rs)))"

definition catch_all :: "rule \<Rightarrow> bool" where
  "catch_all r \<longleftrightarrow> rl_entities r = [] \<and> rl_applications r = []"

definition from_dict :: "ucd \<Rightarrow> (pyval \<Rightarrow> ustr) \<Rightarrow> pyval \<Rightarrow> ustr option \<Rightarrow> policy res" where
  "from_dict U show document version =
     (case document of
        PDict doc \<Rightarrow>
          (case pd_get_or doc ''rules'' PNone of
             PList raw_rules \<Rightarrow>
               if raw_rules = [] then Inl PolicyError
               else rbind (parse_rules U [] raw_rules) (\<lambda>rules.
                 if \<not> list_ex catch_all rules then Inl PolicyError
                 else mk_policy rules
                        (py_str show (py_or (case version of Some s \<Rightarrow> PStr s | None \<Rightarrow> PNone)
                           (py_or (pd_get_or doc ''version'' PNone) (PStr (lit ''unversioned'')))))
                        (py_str show (pd_get_or doc ''default_destination'' (PStr (lit ''external''))))
                        LR_OFF)
           | _ \<Rightarrow> Inl PolicyError)
      | _ \<Rightarrow> Inl PolicyError)"

definition from_yaml :: "ucd \<Rightarrow> (pyval \<Rightarrow> ustr) \<Rightarrow> bytes \<Rightarrow> pyval \<Rightarrow> policy res" where
  \<comment> \<open>\<open>content\<close> are the bytes of the file, \<open>document\<close> what \<open>yaml.safe_load\<close> makes of them\<close>
  "from_yaml U show content document =
     (case py_or document (PDict []) of
        PDict d \<Rightarrow>
          (let declared = pd_get_or d ''version'' PNone;
               version = (if truthy declared then py_str show declared
                          else lit ''sha256:'' @ take 16 (hex_bytes (sha256 content)))
           in from_dict U show document (Some version))
      | _ \<Rightarrow> Inl AttributeError)"

subsection \<open>Evaluation finds the first matching rule of the order\<close>

abbreviation applies :: "rule \<Rightarrow> req_context \<Rightarrow> inspection \<Rightarrow> bool" where
  "applies r ctx i \<equiv> fst (rule_matches r ctx i)"

lemma first_match_in_None:
  "(\<forall>r \<in> set rs. \<not> applies r ctx i) \<Longrightarrow> d_reason (first_match_in p rs ctx i) = Fail_closed"
  by (induction rs) (auto split: prod.splits bool.splits)

lemma first_match_in_Some:
  assumes "\<exists>r \<in> set rs. applies r ctx i" and "sorted (map rule_key rs)"
  shows "\<exists>r \<in> set rs. applies r ctx i \<and> (\<forall>r' \<in> set rs. applies r' ctx i \<longrightarrow> rule_key r \<le> rule_key r')
     \<and> first_match_in p rs ctx i =
        \<lparr>d_action = rl_action r, d_destination = rule_destination p r, d_rule_name = rl_name r,
         d_policy_version = pe_version p, d_matched = snd (rule_matches r ctx i),
         d_reason = Matched_rule (rl_name r) (rl_priority r)\<rparr>"
  using assms
proof (induction rs)
  case (Cons r rs)
  show ?case
  proof (cases "rule_matches r ctx i")
    case (Pair m ents)
    show ?thesis
    proof (cases m)
      case True
      with Pair Cons.prems(2) show ?thesis by (intro bexI [of _ r]) auto
    next
      case False
      with Pair Cons show ?thesis by auto
    qed
  qed
qed simp

definition policy_ok :: "policy \<Rightarrow> bool" where
  "policy_ok p \<longleftrightarrow> sorted (map rule_key (pe_rules p)) \<and> pe_rules p \<noteq> []"

lemma mk_policy_ok: "mk_policy rules ver dest mode = Inr p \<Longrightarrow>
    policy_ok p \<and> mset (pe_rules p) = mset rules \<and> pe_local_routing p = mode \<and> pe_version p = ver"
  by (auto simp: mk_policy_def policy_ok_def split: if_splits) (metis mset_sort mset_zero_iff)

lemma first_match_Some:
  assumes "policy_ok p" "r \<in> set (pe_rules p)" "applies r ctx i"
  shows "\<exists>r \<in> set (pe_rules p). applies r ctx i
     \<and> (\<forall>r' \<in> set (pe_rules p). applies r' ctx i \<longrightarrow> rule_key r \<le> rule_key r')
     \<and> first_match p ctx i =
        \<lparr>d_action = rl_action r, d_destination = rule_destination p r, d_rule_name = rl_name r,
         d_policy_version = pe_version p, d_matched = snd (rule_matches r ctx i),
         d_reason = Matched_rule (rl_name r) (rl_priority r)\<rparr>"
  unfolding first_match_def by (rule first_match_in_Some) (use assms in \<open>auto simp: policy_ok_def\<close>)

lemma first_match_cases:
  "first_match_in p rs ctx i = first_match_in p [] ctx i \<or>
   (\<exists>r \<in> set rs. applies r ctx i \<and> d_action (first_match_in p rs ctx i) = rl_action r
      \<and> d_destination (first_match_in p rs ctx i) = rule_destination p r)"
proof (induction rs)
  case (Cons r rs)
  show ?case
  proof (cases "rule_matches r ctx i")
    case (Pair m ents)
    with Cons show ?thesis by (cases m) auto
  qed
qed simp

lemma rule_key_block:
  assumes "rule_key r \<le> rule_key b" "rl_action b = BLOCK" "rl_priority r \<le> rl_priority b"
  shows "rl_action r = BLOCK"
  using assms by (auto simp: rule_key_def less_eq_prod_def split: if_splits)

lemma catch_all_applies: "catch_all r \<Longrightarrow> rule_matches r ctx i = (True, [])"
  by (simp add: catch_all_def rule_matches_def)

subsection \<open>What loading checks\<close>

definition rule_ok :: "rule \<Rightarrow> bool" where
  "rule_ok r \<longleftrightarrow> rl_name r \<noteq> [] \<and> 0 \<le> rl_min_score r \<and> rl_min_score r \<le> 1"

lemma score_in_range_Inr: "score_in_range f = Inr q \<Longrightarrow> 0 \<le> q \<and> q \<le> 1"
  by (auto simp: score_in_range_def split: pyfloat.splits if_splits)

lemma parse_min_score_range: "parse_min_score v = Inr q \<Longrightarrow> 0 \<le> q \<and> q \<le> 1"
  unfolding parse_min_score_def
  by (cases v) (auto simp: res_simps simp del: py_float.simps dest: score_in_range_Inr)

lemma parse_rule_ok: "parse_rule U seen raw = Inr r \<Longrightarrow> rule_ok r \<and> rl_name r \<notin> set seen"
proof -
  assume r: "parse_rule U seen raw = Inr r"
  then obtain d where raw: "raw = PDict d" by (cases raw) (simp_all add: parse_rule_def)
  from r obtain name where name: "pd_get_or d ''name'' PNone = PStr name"
    by (cases "pd_get_or d ''name'' PNone") (simp_all add: raw parse_rule_def)
  from r show ?thesis
    unfolding raw parse_rule_def
    by (auto simp: name res_simps rule_ok_def dest: parse_min_score_range split: if_splits)
qed

lemma parse_rules_ok:
  "parse_rules U seen raws = Inr rs \<Longrightarrow>
     (\<forall>r \<in> set rs. rule_ok r) \<and> distinct (map rl_name rs) \<and> set (map rl_name rs) \<inter> set seen = {}"
proof (induction raws arbitrary: seen rs)
  case (Cons raw raws)
  then obtain r rs' where r: "parse_rule U seen raw = Inr r" "parse_rules U (rl_name r # seen) raws = Inr rs'" "rs = r # rs'"
    by (auto simp: res_simps)
  with Cons.IH [OF r(2)] parse_rule_ok [OF r(1)] show ?case by auto
qed simp

lemma from_dict_Inr:
  assumes "from_dict U show doc ver = Inr p"
  shows "policy_ok p \<and> pe_local_routing p = LR_OFF \<and> (\<exists>r \<in> set (pe_rules p). catch_all r)
     \<and> distinct (map rl_name (pe_rules p)) \<and> (\<forall>r \<in> set (pe_rules p). rule_ok r)"
proof -
  from assms obtain rules raws where rules: "parse_rules U [] raws = Inr rules" "list_ex catch_all rules"
    and p: "\<exists>ver dest. mk_policy rules ver dest LR_OFF = Inr p"
    by (auto simp: from_dict_def res_simps split: pyval.splits if_splits)
  then have ok: "policy_ok p" "mset (pe_rules p) = mset rules" "pe_local_routing p = LR_OFF"
    using mk_policy_ok by blast+
  then have "set (pe_rules p) = set rules" by (metis set_mset_mset)
  moreover have "distinct (map rl_name (pe_rules p))"
    using ok(2) parse_rules_ok [OF rules(1)] by (metis mset_eq_imp_distinct_iff mset_map)
  ultimately show ?thesis
    using ok rules(2) parse_rules_ok [OF rules(1)] by (auto simp: list_ex_iff)
qed

subsection \<open>Properties\<close>

definition sample_rule :: "string \<Rightarrow> int \<Rightarrow> action \<Rightarrow> string \<Rightarrow> ustr list \<Rightarrow> rule" where
  "sample_rule name prio act dest ents =
     \<lparr>rl_name = lit name, rl_priority = prio, rl_action = act, rl_destination = PStr (lit dest),
      rl_entities = ents, rl_applications = [], rl_min_score = 0\<rparr>"

definition sample_rules :: "rule list" where
  "sample_rules =
     [sample_rule ''default'' 0 TRANSFORM ''external'' [],
      sample_rule ''allow-iban'' 10 ALLOW ''external'' [lit ''IBAN''],
      sample_rule ''no-iban'' 10 BLOCK ''external'' [lit ''IBAN'']]"

definition sample_policy :: policy where
  "sample_policy = \<lparr>pe_rules = sort_key rule_key sample_rules, pe_version = lit ''1'',
     pe_default_destination = lit ''external'', pe_local_routing = LR_DETECTED\<rparr>"

definition sample_doc :: pyval where
  "sample_doc = PDict [(PStr (lit ''rules''), PList [PDict [
     (PStr (lit ''name''), PStr (lit ''default'')),
     (PStr (lit ''action''), PDict [(PStr (lit ''type''), PStr (lit ''transform''))])]])]"

definition sample_request :: req_context where
  "sample_request = \<lparr>tenant_id = lit ''t'', conversation_id = lit ''c'', request_id = lit ''r'',
     api_key_id = lit ''k'', application = lit ''a''\<rparr>"

definition sample_inspection :: inspection where
  "sample_inspection = \<lparr>i_spans = [\<lparr>sp_start = 0, sp_end = 1, sp_type = lit ''IBAN'', sp_text = lit ''x'',
     sp_score = 1, sp_detector = lit ''d''\<rparr>]\<rparr>"

lemma sample_policy_ok: "policy_ok sample_policy"
  "set (pe_rules sample_policy) = set sample_rules" "pe_local_routing sample_policy = LR_DETECTED"
proof -
  have "set (sort_key rule_key sample_rules) \<noteq> {}" by (simp add: sample_rules_def)
  then have "sort_key rule_key sample_rules \<noteq> []" by (metis list.set(1))
  then show "policy_ok sample_policy" by (simp add: sample_policy_def policy_ok_def)
qed (simp_all add: sample_policy_def)

lemma sample_rules_apply: "r \<in> set sample_rules \<Longrightarrow> applies r sample_request sample_inspection"
  by (auto simp: sample_rules_def sample_rule_def rule_matches_def sample_inspection_def)

text \<open>
  The policy a set of rules makes does not depend on the order in which the document or the
  operator's filters list them: with distinct names the evaluation order is the same.
\<close>

theorem policy_order_independent:
  assumes "mset rules = mset rules'" and "distinct (map rl_name rules)"
  shows "mk_policy rules ver dest mode = mk_policy rules' ver dest mode"
proof -
  have "inj_on rule_key (set rules)"
    using assms(2) unfolding distinct_map by (simp add: rule_key_def inj_on_def)
  from sort_key_mset [OF assms(1) this] have "sort_key rule_key rules = sort_key rule_key rules'" .
  moreover have "rules = [] \<longleftrightarrow> rules' = []" using assms(1) by (metis mset_zero_iff)
  ultimately show ?thesis by (simp add: mk_policy_def)
qed

theorem policy_order_independent_witness:
  "mk_policy sample_rules (lit ''1'') (lit ''external'') LR_OFF = mk_policy (rev sample_rules) (lit ''1'') (lit ''external'') LR_OFF"
  by (rule policy_order_independent) (simp_all add: sample_rules_def sample_rule_def)

text \<open>
  Deny overrides: where a matching rule blocks and no matching rule has a higher priority, the
  request is blocked, also after local routing and whatever else matches.
\<close>

theorem deny_overrides:
  assumes "policy_ok p" and "b \<in> set (pe_rules p)" and "rl_action b = BLOCK" and "applies b ctx i"
    and "\<And>r. r \<in> set (pe_rules p) \<Longrightarrow> applies r ctx i \<Longrightarrow> rl_priority r \<le> rl_priority b"
  shows "d_action (policy_evaluate p ctx i) = BLOCK"
proof -
  from first_match_Some [OF assms(1,2,4)] obtain r where r: "r \<in> set (pe_rules p)" "applies r ctx i"
    "rule_key r \<le> rule_key b" "d_action (first_match p ctx i) = rl_action r"
    using assms(2,4) by auto
  with rule_key_block [OF r(3) assms(3)] assms(5) have "d_action (first_match p ctx i) = BLOCK" by simp
  then show ?thesis by (simp add: policy_evaluate_def evaluate_with_base_def Let_def apply_local_routing_def)
qed

theorem deny_overrides_witness:
  "d_action (policy_evaluate sample_policy sample_request sample_inspection) = BLOCK"
  by (rule deny_overrides [where b = "sample_rule ''no-iban'' 10 BLOCK ''external'' [lit ''IBAN'']"])
    (auto simp: sample_policy_ok sample_rules_apply, auto simp: sample_rules_def sample_rule_def rule_matches_def sample_inspection_def)

text \<open>
  C39: A loaded policy decides every request by one of its own rules, a matching one of the highest
  priority: it never falls through to the implicit deny, and the decision names the rule.
\<close>

theorem loaded_policy_decides:
  assumes "from_dict U show doc ver = Inr p"
  shows "\<exists>r \<in> set (pe_rules p). applies r ctx i
     \<and> (\<forall>r' \<in> set (pe_rules p). applies r' ctx i \<longrightarrow> rl_priority r' \<le> rl_priority r)
     \<and> d_action (first_match p ctx i) = rl_action r \<and> d_rule_name (first_match p ctx i) = rl_name r
     \<and> d_policy_version (first_match p ctx i) = pe_version p"
proof -
  from from_dict_Inr [OF assms] obtain c where c: "policy_ok p" "c \<in> set (pe_rules p)" "catch_all c" by blast
  from first_match_Some [OF c(1,2)] catch_all_applies [OF c(3)]
  obtain r where r: "r \<in> set (pe_rules p)" "applies r ctx i"
    "\<forall>r' \<in> set (pe_rules p). applies r' ctx i \<longrightarrow> rule_key r \<le> rule_key r'"
    "d_action (first_match p ctx i) = rl_action r \<and> d_rule_name (first_match p ctx i) = rl_name r
     \<and> d_policy_version (first_match p ctx i) = pe_version p" by fastforce
  have "rl_priority r' \<le> rl_priority r" if "r' \<in> set (pe_rules p)" "applies r' ctx i" for r'
    using r(3) that by (auto simp: rule_key_def less_eq_prod_def)
  with r show ?thesis by blast
qed

theorem loaded_policy_decides_witness:
  "\<exists>p. from_dict ascii_ucd (\<lambda>_. []) sample_doc None = Inr p \<and> (\<exists>r \<in> set (pe_rules p). applies r sample_request sample_inspection)"
proof -
  have "\<not> (\<exists>e. from_dict ascii_ucd (\<lambda>_. []) sample_doc None = Inl e)"
    by (simp add: from_dict_def sample_doc_def pd_get_or_def pd_get_def parse_rule_def dict_block_def py_or_def
        string_list_def parse_min_score_def score_in_range_def catch_all_def mk_policy_def parse_action_def)
  then obtain p where p: "from_dict ascii_ucd (\<lambda>_. []) sample_doc None = Inr p"
    by (metis sum.exhaust)
  from p loaded_policy_decides [OF p, of sample_request sample_inspection] show ?thesis by blast
qed

text \<open>
  C21: The routing floor: while a mode requires the local destination, a decision either blocks or goes
  to exactly \<open>local\<close>; a block is never released and a decision that is already local is never changed.
\<close>

theorem local_routing_floor:
  assumes "evaluate_with_base p ctx i = (base, d)"
  shows "(requires_local (pe_local_routing p) i \<longrightarrow> d_action d = BLOCK \<or> d_destination d = LOCAL_DESTINATION)
     \<and> (d_action d = BLOCK \<longleftrightarrow> d_action base = BLOCK)
     \<and> (d_action base = BLOCK \<or> d_destination base = LOCAL_DESTINATION \<longrightarrow> d = base)
     \<and> (\<not> requires_local (pe_local_routing p) i \<longrightarrow> d = base)"
  using assms by (auto simp: evaluate_with_base_def Let_def apply_local_routing_def split: if_splits)

theorem local_routing_floor_witness:
  "let (base, d) = evaluate_with_base sample_policy sample_request sample_inspection
   in d_action d = BLOCK \<or> d_destination d = LOCAL_DESTINATION"
proof -
  obtain base d where e: "evaluate_with_base sample_policy sample_request sample_inspection = (base, d)" by fastforce
  have "requires_local (pe_local_routing sample_policy) sample_inspection"
    by (simp add: requires_local_def sample_policy_ok sample_inspection_def)
  with local_routing_floor [OF e] show ?thesis unfolding e by auto
qed

text \<open>
  Startup checks enough: the destination of every decision that does not block, after local routing,
  is among the destinations the policy reports as required.
\<close>

theorem required_destinations_cover:
  assumes "required_destinations p = Inr dests" and "d_action (policy_evaluate p ctx i) \<noteq> BLOCK"
  shows "d_destination (policy_evaluate p ctx i) \<in> set dests"
proof -
  let ?d = "first_match p ctx i"
  have nb: "d_action ?d \<noteq> BLOCK"
    using assms(2) by (auto simp: policy_evaluate_def evaluate_with_base_def Let_def apply_local_routing_def)
  with first_match_cases [of p "pe_rules p" ctx i] obtain r where
    "r \<in> set (pe_rules p)" "rl_action r \<noteq> BLOCK" "d_destination ?d = rule_destination p r"
    by (auto simp: first_match_def)
  then have "d_destination ?d \<in> set (map (rule_destination p) (filter (\<lambda>r. rl_action r \<noteq> BLOCK) (pe_rules p)))"
    by auto
  with assms(1) nb show ?thesis
    by (auto simp: required_destinations_def mode_required_destinations_def Let_def policy_evaluate_def
        evaluate_with_base_def apply_local_routing_def requires_local_def split: if_splits local_routing.splits)
qed

theorem required_destinations_cover_witness:
  "d_destination (policy_evaluate (sample_policy\<lparr>pe_rules := [sample_rule ''default'' 0 TRANSFORM ''external'' []]\<rparr>) sample_request sample_inspection)
     \<in> set [PStr (lit ''external''), LOCAL_DESTINATION]"
proof (rule required_destinations_cover)
  show "required_destinations (sample_policy\<lparr>pe_rules := [sample_rule ''default'' 0 TRANSFORM ''external'' []]\<rparr>)
      = Inr [PStr (lit ''external''), LOCAL_DESTINATION]"
    by (simp add: required_destinations_def sample_policy_ok mode_required_destinations_def rule_destination_def
        sample_rule_def py_or_def LOCAL_DESTINATION_def lit_def of_char_def)
  show "d_action (policy_evaluate (sample_policy\<lparr>pe_rules := [sample_rule ''default'' 0 TRANSFORM ''external'' []]\<rparr>) sample_request sample_inspection) \<noteq> BLOCK"
    by code_simp
qed

end
