(* ===== verification/Custom.thy ===== *)
theory Custom
  imports Detectors Policy
begin

text \<open>
  The operator's own detectors: \<^verbatim>\<open>recognizers/custom/customer_rules.py\<close> (exact terms and regular
  expressions) and \<^verbatim>\<open>recognizers/custom/filters.py\<close> (a filter is a detector together with the policy
  rule that governs it).  \<open>re.compile\<close> is the parameter \<open>compile\<close>: the pattern of a text, or nothing
  where it raises \<open>re.error\<close>.  The order of a Python set is the parameter \<open>order\<close>.
\<close>

subsection \<open>Dictionaries\<close>

record 'a custom_detector =
  cd_name :: ustr
  cd_entity_type :: ustr
  cd_pattern :: 'a

definition literal :: "ucd \<Rightarrow> bool \<Rightarrow> ustr \<Rightarrow> re" where
  \<comment> \<open>\<open>re.escape(t)\<close>, compiled with or without \<open>re.IGNORECASE\<close>\<close>
  "literal U case_sensitive t = RSeqs (map (\<lambda>c. if case_sensitive then RChr c else RSet (u_ieq U c)) t)"

definition cleaned_terms :: "ucd \<Rightarrow> ustr list \<Rightarrow> ustr list" where
  "cleaned_terms U terms = filter (\<lambda>t. t \<noteq> []) (map (strip_ws (u_isspace U)) terms)"

definition longest_first :: "ustr list \<Rightarrow> ustr list" where
  "longest_first ts = sort_key (\<lambda>t. - int (length t)) ts"

definition dictionary_pattern :: "ucd \<Rightarrow> bool \<Rightarrow> ustr list \<Rightarrow> re" where
  "dictionary_pattern U case_sensitive ts =
     RSeqs [RNotBehind (re_word U), RAlts (map (literal U case_sensitive) ts), RNotAhead (RSet (re_word U))]"

definition mk_dictionary :: "ucd \<Rightarrow> (ustr list \<Rightarrow> ustr list) \<Rightarrow> ustr list \<Rightarrow> ustr \<Rightarrow> ustr \<Rightarrow> bool
    \<Rightarrow> re option custom_detector" where
  "mk_dictionary U order terms entity_type name case_sensitive =
     (let cleaned = cleaned_terms U terms
      in \<lparr>cd_name = name, cd_entity_type = entity_type,
          cd_pattern = (if cleaned = [] then None
            else Some (dictionary_pattern U case_sensitive (longest_first (order cleaned))))\<rparr>)"

definition detect_dictionary :: "re option custom_detector \<Rightarrow> ustr \<Rightarrow> span list res" where
  "detect_dictionary d s =
     (case cd_pattern d of None \<Rightarrow> Inr []
      | Some r \<Rightarrow> rmap (\<lambda>m. mk_span (int (fst m)) (int (fst (snd m))) (cd_entity_type d) (group_text s m 0)
                     conf_certain (cd_name d)) (finditer r s))"

subsection \<open>Customer regular expressions\<close>

definition MAX_PATTERN_LENGTH :: nat where "MAX_PATTERN_LENGTH = 500"

definition NESTED_QUANTIFIER :: "ucd \<Rightarrow> re" where
  \<comment> \<open>\<open>\([^)]*[+*]\)\s*[+*{]\<close>\<close>
  "NESTED_QUANTIFIER U = RSeqs
     [RChr 40, RStar (RSet (\<lambda>c. c \<noteq> 41)), RSet (\<lambda>c. c = 43 \<or> c = 42), RChr 41,
      RStar (RSet (u_isspace U)), RSet (\<lambda>c. c = 43 \<or> c = 42 \<or> c = 123)]"

definition compile_safely :: "ucd \<Rightarrow> (ustr \<Rightarrow> bool \<Rightarrow> re option) \<Rightarrow> ustr \<Rightarrow> bool \<Rightarrow> re res" where
  "compile_safely U compile p case_sensitive =
     (if MAX_PATTERN_LENGTH < length p then Inl UnsafePatternError
      else if re_matches (NESTED_QUANTIFIER U) p then Inl UnsafePatternError
      else case compile p case_sensitive of None \<Rightarrow> Inl UnsafePatternError | Some r \<Rightarrow> Inr r)"

definition mk_custom_regex :: "ucd \<Rightarrow> (ustr \<Rightarrow> bool \<Rightarrow> re option) \<Rightarrow> ustr \<Rightarrow> ustr \<Rightarrow> ustr option \<Rightarrow> bool
    \<Rightarrow> re custom_detector res" where
  "mk_custom_regex U compile p entity_type name case_sensitive =
     rbind (compile_safely U compile p case_sensitive) (\<lambda>r.
     Inr \<lparr>cd_name = (case name of None \<Rightarrow> lit ''custom_regex:'' @ entity_type
                     | Some n \<Rightarrow> if n = [] then lit ''custom_regex:'' @ entity_type else n),
          cd_entity_type = u_upper U entity_type, cd_pattern = r\<rparr>)"

definition detect_custom :: "re custom_detector \<Rightarrow> ustr \<Rightarrow> span list res" where
  "detect_custom d s =
     collect (\<lambda>m. if fst (snd m) = fst m then Inr None
         else rbind (mk_span (int (fst m)) (int (fst (snd m))) (cd_entity_type d) (group_text s m 0)
                       conf_high (cd_name d)) (\<lambda>sp. Inr (Some sp)))
       (finditer (cd_pattern d) s)"

subsection \<open>Filters\<close>

datatype matcher =
    RegexMatcher ustr bool             \<comment> \<open>pattern, case sensitive\<close>
  | DictionaryMatcher "ustr list" bool

datatype filter_action = F_TRANSFORM | F_BLOCK | F_ROUTE_LOCAL

fun filter_action_of :: "filter_action \<Rightarrow> action" where
  "filter_action_of F_TRANSFORM = TRANSFORM"
| "filter_action_of F_BLOCK = BLOCK"
| "filter_action_of F_ROUTE_LOCAL = ROUTE_LOCAL"

fun default_priority :: "filter_action \<Rightarrow> int" where
  "default_priority F_TRANSFORM = 60"
| "default_priority F_ROUTE_LOCAL = 90"
| "default_priority F_BLOCK = 100"

record filter_def =
  f_name :: ustr
  f_entity_type :: ustr
  f_match :: matcher
  f_action :: filter_action
  f_destination :: "ustr option"
  f_priority :: "int option"
  f_enabled :: bool

datatype filter_detector = FD_Regex "re custom_detector" | FD_Dictionary "re option custom_detector"

fun detect_filter :: "filter_detector \<Rightarrow> ustr \<Rightarrow> span list res" where
  "detect_filter (FD_Regex d) s = detect_custom d s"
| "detect_filter (FD_Dictionary d) s = detect_dictionary d s"

definition filter_detector_of :: "ucd \<Rightarrow> (ustr list \<Rightarrow> ustr list) \<Rightarrow> (ustr \<Rightarrow> bool \<Rightarrow> re option) \<Rightarrow> filter_def
    \<Rightarrow> filter_detector res" where
  "filter_detector_of U order compile f =
     (let name = lit ''filter:'' @ f_name f
      in case f_match f of
           RegexMatcher p cs \<Rightarrow>
             rbind (mk_custom_regex U compile p (f_entity_type f) (Some name) cs) (\<lambda>d. Inr (FD_Regex d))
         | DictionaryMatcher ts cs \<Rightarrow> Inr (FD_Dictionary (mk_dictionary U order ts (f_entity_type f) name cs)))"

definition filter_rule :: "filter_def \<Rightarrow> rule" where
  "filter_rule f =
     \<lparr>rl_name = lit ''filter:'' @ f_name f,
      rl_priority = (case f_priority f of Some p \<Rightarrow> p | None \<Rightarrow> default_priority (f_action f)),
      rl_action = filter_action_of (f_action f),
      rl_destination = PStr (case f_destination f of
          Some d \<Rightarrow> (if d = [] then (if f_action f = F_ROUTE_LOCAL then lit ''local'' else []) else d)
        | None \<Rightarrow> if f_action f = F_ROUTE_LOCAL then lit ''local'' else []),
      rl_entities = [f_entity_type f], rl_applications = [], rl_min_score = 0\<rparr>"

record filter_set =
  fs_detectors :: "filter_detector list"
  fs_rules :: "rule list"

fun filter_set_loop :: "ucd \<Rightarrow> (ustr list \<Rightarrow> ustr list) \<Rightarrow> (ustr \<Rightarrow> bool \<Rightarrow> re option)
    \<Rightarrow> filter_def list \<Rightarrow> ustr list \<Rightarrow> ustr list \<Rightarrow> filter_set \<Rightarrow> filter_set res" where
  \<comment> \<open>the loop of \<open>FilterSet.__init__\<close> with its two sets of seen names and entity types\<close>
  "filter_set_loop U order compile [] names entities fs = Inr fs"
| "filter_set_loop U order compile (f # rest) names entities fs =
     (if f_name f \<in> set names \<or> f_entity_type f \<in> set entities then Inl FilterConfigurationError
      else if f_action f = F_BLOCK \<and> f_destination f \<noteq> None then Inl FilterConfigurationError
      else case filter_detector_of U order compile f of
             Inl _ \<Rightarrow> Inl FilterConfigurationError
           | Inr d \<Rightarrow> filter_set_loop U order compile rest (f_name f # names) (f_entity_type f # entities)
                (if f_enabled f
                 then \<lparr>fs_detectors = fs_detectors fs @ [d], fs_rules = fs_rules fs @ [filter_rule f]\<rparr>
                 else fs))"

definition mk_filter_set :: "ucd \<Rightarrow> (ustr list \<Rightarrow> ustr list) \<Rightarrow> (ustr \<Rightarrow> bool \<Rightarrow> re option)
    \<Rightarrow> filter_def list \<Rightarrow> filter_set res" where
  "mk_filter_set U order compile fs =
     filter_set_loop U order compile fs [] [] \<lparr>fs_detectors = [], fs_rules = []\<rparr>"

subsection \<open>The order of a set does not matter\<close>

lemma match_at_cong: "(\<And>i. rm r s i [] = rm q s i []) \<Longrightarrow> match_at r s i a = match_at q s i a"
  by (simp add: match_at_def)

lemma search_from_cong:
  assumes "\<And>i. rm r s i [] = rm q s i []"
  shows "search_from r s i a = search_from q s i a"
proof (induction "Suc (length s) - i" arbitrary: i a rule: less_induct)
  case less
  show ?case
  proof (cases "length s < i")
    case False
    then have "search_from r s (Suc i) False = search_from q s (Suc i) False" by (intro less) simp
    with match_at_cong [OF assms] show ?thesis
      by (cases "match_at q s i a")
        (simp_all add: search_from.simps [of r s i a] search_from.simps [of q s i a])
  qed (simp add: search_from.simps)
qed

lemma finditer_from_cong:
  assumes "\<And>i. rm r s i [] = rm q s i []"
  shows "finditer_from r s p a = finditer_from q s p a"
  using assms
proof (induction r s p a rule: finditer_from.induct)
  case (1 r s p a)
  have eq: "search_from r s p a = search_from q s p a" using "1.prems" by (rule search_from_cong)
  show ?case
  proof (cases "search_from q s p a")
    case None
    with eq show ?thesis by (simp add: finditer_from.simps [of r s p a] finditer_from.simps [of q s p a])
  next
    case (Some m)
    obtain i j g where m: "m = (i, j, g)" by (cases m)
    have "finditer_from r s j (i = j) = finditer_from q s j (i = j)"
      by (rule "1.IH" [OF _ refl refl "1.prems"]) (simp add: eq Some m)
    with m Some show ?thesis
      by (subst finditer_from.simps, subst (2) finditer_from.simps) (simp add: eq)
  qed
qed

lemma finditer_cong: "(\<And>i. rm r s i [] = rm q s i []) \<Longrightarrow> finditer r s = finditer q s"
  unfolding finditer_def by (rule finditer_from_cong)

definition char_matches :: "ucd \<Rightarrow> bool \<Rightarrow> cp \<Rightarrow> cp \<Rightarrow> bool" where
  "char_matches U case_sensitive c d \<longleftrightarrow> (if case_sensitive then d = c else u_ieq U c d)"

fun term_at :: "ucd \<Rightarrow> bool \<Rightarrow> ustr \<Rightarrow> ustr \<Rightarrow> nat \<Rightarrow> bool" where
  \<comment> \<open>the term stands at the position, up to case\<close>
  "term_at U cs [] s i = True"
| "term_at U cs (c # t) s i = (i < length s \<and> char_matches U cs c (s ! i) \<and> term_at U cs t s (Suc i))"

lemma rm_literal: "rm (literal U cs t) s i g = (if term_at U cs t s i then [(i + length t, g)] else [])"
proof (induction t arbitrary: i)
  case (Cons c t)
  have "literal U cs (c # t) = RSeq (if cs then RChr c else RSet (u_ieq U c)) (literal U cs t)"
    by (simp add: literal_def)
  with Cons.IH [of "Suc i"] show ?case by (cases cs) (auto simp: RChr_def char_matches_def)
qed (simp add: literal_def)

lemma rm_RAlts: "rm (RAlts rs) s i g = concat (map (\<lambda>r. rm r s i g) rs)"
  by (induction rs rule: RAlts.induct) simp_all

definition hit_at :: "ucd \<Rightarrow> bool \<Rightarrow> ustr \<Rightarrow> nat \<Rightarrow> ustr \<Rightarrow> bool" where
  "hit_at U cs s i t \<longleftrightarrow> term_at U cs t s i \<and> \<not> (0 < i \<and> i \<le> length s \<and> re_word U (s ! (i - 1)))
     \<and> \<not> (i + length t < length s \<and> re_word U (s ! (i + length t)))"

lemma rm_dictionary:
  "rm (dictionary_pattern U cs ts) s i [] = map (\<lambda>t. (i + length t, [])) (filter (hit_at U cs s i) ts)"
proof (cases "0 < i \<and> i \<le> length s \<and> re_word U (s ! (i - 1))")
  case True
  then have "filter (hit_at U cs s i) ts = []" by (auto simp: filter_empty_conv hit_at_def)
  with True show ?thesis by (simp add: dictionary_pattern_def)
next
  case False
  then have "rm (dictionary_pattern U cs ts) s i [] =
      concat (map (\<lambda>t. if hit_at U cs s i t then [(i + length t, [])] else []) ts)"
    by (induction ts) (auto simp: dictionary_pattern_def rm_RAlts rm_literal hit_at_def)
  also have "\<dots> = map (\<lambda>t. (i + length t, [])) (filter (hit_at U cs s i) ts)"
    by (induction ts) auto
  finally show ?thesis .
qed

lemma map_sort_key: "map k (sort_key k xs) = sort (map k xs)"
  by (rule properties_for_sort [symmetric]) simp_all

lemma longest_first_lengths:
  assumes "mset xs = mset ys"
  shows "map length (filter P (longest_first xs)) = map length (filter P (longest_first ys))"
proof -
  let ?k = "\<lambda>t :: ustr. - int (length t)"
  have "mset (map ?k (filter P xs)) = mset (map ?k (filter P ys))" using assms by simp
  then have "sort (map ?k (filter P xs)) = sort (map ?k (filter P ys))"
    by (metis sorted_list_of_multiset_mset)
  then have "map ?k (filter P (longest_first xs)) = map ?k (filter P (longest_first ys))"
    by (simp add: longest_first_def filter_sort map_sort_key)
  then have "map (nat \<circ> uminus) (map ?k (filter P (longest_first xs))) =
      map (nat \<circ> uminus) (map ?k (filter P (longest_first ys)))" by (rule arg_cong)
  then show ?thesis by (simp add: comp_def)
qed

lemma map_via_length:
  assumes "map length xs = map length ys" shows "map (\<lambda>t. (i + length t, [])) xs = map (\<lambda>t. (i + length t, [])) ys"
proof -
  from assms have "map (\<lambda>n. (i + n, [])) (map length xs) = map (\<lambda>n. (i + n, [])) (map length ys)" by (rule arg_cong)
  then show ?thesis by (simp add: comp_def)
qed

text \<open>The iteration order of a Python set: some enumeration of its elements without repetition.\<close>

definition set_order :: "(ustr list \<Rightarrow> ustr list) \<Rightarrow> bool" where
  "set_order order \<longleftrightarrow> (\<forall>xs. distinct (order xs) \<and> set (order xs) = set xs)"

text \<open>
  What a dictionary detector reports does not depend on the iteration order of the set of terms
  it is built from (which differs from one interpreter run to the next): sorting by length leaves
  only ties between terms that match the same slice.
\<close>

theorem dictionary_order_irrelevant:
  assumes "set_order order" "set_order order'"
  shows "detect_dictionary (mk_dictionary U order terms ty name cs) s
       = detect_dictionary (mk_dictionary U order' terms ty name cs) s"
proof -
  let ?p = "\<lambda>ord. dictionary_pattern U cs (longest_first (ord (cleaned_terms U terms)))"
  from assms have "mset (order (cleaned_terms U terms)) = mset (order' (cleaned_terms U terms))"
    by (simp add: set_order_def set_eq_iff_mset_eq_distinct [symmetric])
  then have "rm (?p order) s i [] = rm (?p order') s i []" for i
    unfolding rm_dictionary by (intro map_via_length longest_first_lengths)
  then have "finditer (?p order) s = finditer (?p order') s" by (rule finditer_cong)
  then show ?thesis by (simp add: detect_dictionary_def mk_dictionary_def Let_def)
qed

theorem dictionary_order_irrelevant_witness:
  "detect_dictionary (mk_dictionary ascii_ucd remdups [lit ''acme'', lit ''aurora''] (lit ''T'') (lit ''d'') False) (lit ''acme'')
   = detect_dictionary (mk_dictionary ascii_ucd (\<lambda>xs. rev (remdups xs)) [lit ''acme'', lit ''aurora''] (lit ''T'') (lit ''d'') False) (lit ''acme'')"
  by (rule dictionary_order_irrelevant) (simp_all add: set_order_def)

end
