(* ===== verification/Restoration.thy ===== *)
theory Restoration
  imports Vault
begin

text \<open>
  Restoration, \<^verbatim>\<open>gateway/restoration/engine.py\<close>: the engine walks the tokens of a text from right
  to left, asks the request's provenance and the vault about each, and assembles the result once.
  \<open>restore\<close> returns the outcome, or the exception, with the vault after it (a read may expire an
  entry).  The lemmas show the walk equal to replacing each token of \<open>tok_split\<close> on its own.
\<close>

subsection \<open>Outcomes\<close>

record outcome =
  ro_text :: ustr
  ro_restored :: nat
  ro_refused_unknown :: nat
  ro_refused_not_minted :: nat
  ro_refused_cross_tenant :: nat
  ro_refused_key_unavailable :: nat
  ro_refused_tokens :: "ustr list"

definition outcome_init :: "ustr \<Rightarrow> outcome" where
  "outcome_init text = \<lparr>ro_text = text, ro_restored = 0, ro_refused_unknown = 0,
     ro_refused_not_minted = 0, ro_refused_cross_tenant = 0, ro_refused_key_unavailable = 0,
     ro_refused_tokens = []\<rparr>"

definition total_refused :: "outcome \<Rightarrow> nat" where
  "total_refused r = ro_refused_unknown r + ro_refused_not_minted r + ro_refused_cross_tenant r
     + ro_refused_key_unavailable r"

definition refusal_reasons :: "outcome \<Rightarrow> (ustr \<times> nat) list" where
  "refusal_reasons r = filter (\<lambda>(_, n). n \<noteq> 0)
     [(lit ''not_minted'', ro_refused_not_minted r), (lit ''vault_miss'', ro_refused_unknown r),
      (lit ''cross_tenant'', ro_refused_cross_tenant r),
      (lit ''key_unavailable'', ro_refused_key_unavailable r)]"

definition outcome_merge :: "outcome \<Rightarrow> outcome \<Rightarrow> outcome" where
  "outcome_merge a b = a\<lparr>ro_restored := ro_restored a + ro_restored b,
     ro_refused_unknown := ro_refused_unknown a + ro_refused_unknown b,
     ro_refused_not_minted := ro_refused_not_minted a + ro_refused_not_minted b,
     ro_refused_cross_tenant := ro_refused_cross_tenant a + ro_refused_cross_tenant b,
     ro_refused_key_unavailable := ro_refused_key_unavailable a + ro_refused_key_unavailable b,
     ro_refused_tokens := ro_refused_tokens a @ ro_refused_tokens b\<rparr>"

lemma total_refused_merge [simp]:
  "total_refused (outcome_merge a b) = total_refused a + total_refused b"
  by (simp add: total_refused_def outcome_merge_def)

lemma sum_reasons: "sum_list (map snd (refusal_reasons r)) = total_refused r"
  by (simp add: refusal_reasons_def total_refused_def)

subsection \<open>One token\<close>

datatype verdict =
    NotMinted | CrossTenant | KeyUnavailable | Unknown | Restored ustr | Raised exn

text \<open>Clock readings of successive vault reads.\<close>

type_synonym clock = "nat \<Rightarrow> rat \<times> rat"

definition judge :: "vault_env \<Rightarrow> 'b backend_ops \<Rightarrow> ucd \<Rightarrow> rat \<times> rat \<Rightarrow> req_context \<Rightarrow> provenance
    \<Rightarrow> ustr \<Rightarrow> ustr \<Rightarrow> 'b vault \<Rightarrow> verdict \<times> 'b vault" where
  "judge E B U now ctx prov token token_version v =
     (if \<not> was_minted_here prov token then (NotMinted, v)
      else case vault_get E B now ctx token token_version v of
        (Inl CrossTenantAccessError, v') \<Rightarrow> (CrossTenant, v')
      | (Inl VaultKeyUnavailableError, v') \<Rightarrow> (KeyUnavailable, v')
      | (Inl e, v') \<Rightarrow> (Raised e, v')
      | (Inr value, v') \<Rightarrow>
          (case (value, prov_lookup prov token) of
             (Some val, Some minted) \<Rightarrow>
               if canonicalize U val \<noteq> su_canonical minted then (Unknown, v')
               else (Restored (su_original minted), v')
           | _ \<Rightarrow> (Unknown, v')))"

fun replacement :: "ustr \<Rightarrow> verdict \<Rightarrow> ustr" where
  "replacement token (Restored s) = s"
| "replacement token _ = token"

fun account :: "ustr \<Rightarrow> verdict \<Rightarrow> outcome \<Rightarrow> outcome" where
  "account token NotMinted r = r\<lparr>ro_refused_not_minted := ro_refused_not_minted r + 1,
     ro_refused_tokens := ro_refused_tokens r @ [token]\<rparr>"
| "account token CrossTenant r = r\<lparr>ro_refused_cross_tenant := ro_refused_cross_tenant r + 1,
     ro_refused_tokens := ro_refused_tokens r @ [token]\<rparr>"
| "account token KeyUnavailable r = r\<lparr>ro_refused_key_unavailable := ro_refused_key_unavailable r + 1,
     ro_refused_tokens := ro_refused_tokens r @ [token]\<rparr>"
| "account token Unknown r = r\<lparr>ro_refused_unknown := ro_refused_unknown r + 1,
     ro_refused_tokens := ro_refused_tokens r @ [token]\<rparr>"
| "account token (Restored s) r = r\<lparr>ro_restored := ro_restored r + 1\<rparr>"
| "account token (Raised e) r = r"

subsection \<open>The walk\<close>

record 'b walk =
  wk_fragments :: "ustr list"
  wk_cursor :: nat
  wk_bytes :: int
  wk_outcome :: outcome
  wk_vault :: "'b vault"
  wk_reads :: nat

definition walk_step :: "vault_env \<Rightarrow> 'b backend_ops \<Rightarrow> ucd \<Rightarrow> clock \<Rightarrow> req_context \<Rightarrow> provenance
    \<Rightarrow> ustr \<Rightarrow> rmatch \<Rightarrow> 'b walk \<Rightarrow> exn option \<times> 'b walk" where
  "walk_step E B U clk ctx prov text m w =
     (let token = group_text text m 0;
          (verdict, v') = judge E B U (clk (wk_reads w)) ctx prov token (group_text text m 2) (wk_vault w);
          repl = replacement token verdict
      in case verdict of
           Raised e \<Rightarrow> (Some e, w\<lparr>wk_vault := v'\<rparr>)
         | _ \<Rightarrow> (None, w\<lparr>wk_fragments := wk_fragments w @ [pyslice text (fst (snd m)) (wk_cursor w), repl],
                 wk_cursor := fst m,
                 wk_bytes := (case verdict of
                     Restored s \<Rightarrow> wk_bytes w + int (length (utf8 s)) - int (length token)
                   | _ \<Rightarrow> wk_bytes w),
                 wk_outcome := account token verdict (wk_outcome w),
                 wk_vault := v', wk_reads := Suc (wk_reads w)\<rparr>))"

fun walk_loop :: "vault_env \<Rightarrow> 'b backend_ops \<Rightarrow> ucd \<Rightarrow> clock \<Rightarrow> req_context \<Rightarrow> provenance
    \<Rightarrow> ustr \<Rightarrow> rmatch list \<Rightarrow> 'b walk \<Rightarrow> exn option \<times> 'b walk" where
  "walk_loop E B U clk ctx prov text [] w = (None, w)"
| "walk_loop E B U clk ctx prov text (m # ms) w =
     (case walk_step E B U clk ctx prov text m w of
        (Some e, w') \<Rightarrow> (Some e, w')
      | (None, w') \<Rightarrow> walk_loop E B U clk ctx prov text ms w')"

definition walk_init :: "ustr \<Rightarrow> 'b vault \<Rightarrow> 'b walk" where
  "walk_init text v = \<lparr>wk_fragments = [], wk_cursor = length text,
     wk_bytes = int (length (utf8 text)), wk_outcome = outcome_init text, wk_vault = v, wk_reads = 0\<rparr>"

definition restore :: "vault_env \<Rightarrow> 'b backend_ops \<Rightarrow> ucd \<Rightarrow> clock \<Rightarrow> req_context \<Rightarrow> ustr \<Rightarrow> provenance
    \<Rightarrow> int \<Rightarrow> 'b vault \<Rightarrow> outcome res \<times> 'b vault" where
  "restore E B U clk ctx text prov budget v =
     (if budget < 0 then (Inl ValueError, v)
      else let matches = finditer TOKEN_PATTERN text
      in if matches = [] then
           (if budget < int (length (utf8 text)) then (Inl RestorationOutputTooLargeError, v)
            else (Inr (outcome_init text), v))
      else case walk_loop E B U clk ctx prov text (rev matches) (walk_init text v) of
             (Some e, w) \<Rightarrow> (Inl e, wk_vault w)
           | (None, w) \<Rightarrow>
               if budget < wk_bytes w then (Inl RestorationOutputTooLargeError, wk_vault w)
               else (Inr ((wk_outcome w)\<lparr>ro_text :=
                       concat (rev (wk_fragments w @ [take (wk_cursor w) text]))\<rparr>), wk_vault w))"

definition MAX_RESTORED_CONTENT_BYTES :: int where
  "MAX_RESTORED_CONTENT_BYTES = 8 * 1024 * 1024"

subsection \<open>What the walk computes\<close>

text \<open>A text with each token replaced according to its verdict.\<close>

definition seg_result :: "provenance \<Rightarrow> seg \<Rightarrow> ustr \<Rightarrow> bool" where
  "seg_result prov g r \<longleftrightarrow> (case g of Chr c \<Rightarrow> r = [c]
     | Tok t \<Rightarrow> r = t \<or> (\<exists>s. prov_lookup prov t = Some s \<and> r = su_original s))"

lemma seg_result_simps [simp]:
  "seg_result prov (Chr c) r \<longleftrightarrow> r = [c]"
  "seg_result prov (Tok t) r \<longleftrightarrow> r = t \<or> (\<exists>s. prov_lookup prov t = Some s \<and> r = su_original s)"
  by (simp_all add: seg_result_def)

lemma judge_Restored:
  "judge E B U now ctx prov t tv v = (Restored s, v') \<Longrightarrow>
     \<exists>m. prov_lookup prov t = Some m \<and> s = su_original m"
  by (auto simp: judge_def split: if_splits prod.splits sum.splits option.splits exn.splits)

lemma judge_not_minted:
  "\<not> was_minted_here prov t \<Longrightarrow> judge E B U now ctx prov t tv v = (NotMinted, v)"
  by (simp add: judge_def)

lemma match_group_0:
  "text = pre @ t @ post \<Longrightarrow> group_text text (length pre, length pre + length t, g) 0 = t"
  by (simp add: group_text_def group_span_def pyslice_def)

lemma match_group_2:
  assumes "is_token t"
  shows "group_text (pre @ t @ post) (length pre, length pre + length t, tok_groups (length pre) (length t - 38)) 2
     = lit ''v1''"
proof -
  from assms obtain ent tag where t: "tag_ok tag" "t = token_string ent (lit ''v1'') tag"
    by (rule is_tokenE)
  then have "length t - 38 = length ent" by (simp add: length_token_string)
  with t(2) show ?thesis
    by (simp add: group_text_def group_span_def tok_groups_def pyslice_def token_string_def lit_v1)
qed

definition walk_ok :: "ustr \<Rightarrow> nat \<Rightarrow> ustr list \<Rightarrow> 'b walk \<Rightarrow> bool" where
  \<comment> \<open>from \<open>p\<close> on, the walk has turned the text into \<open>concat rs\<close>\<close>
  "walk_ok text p rs w \<longleftrightarrow>
     p \<le> wk_cursor w \<and> wk_cursor w \<le> length text
     \<and> pyslice text p (wk_cursor w) @ concat (rev (wk_fragments w)) = concat rs
     \<and> wk_bytes w = int (length (utf8 (take p text))) + int (length (utf8 (concat rs)))"

definition tok_count :: "seg list \<Rightarrow> nat" where
  "tok_count gs = length (filter (\<lambda>g. \<exists>t. g = Tok t) gs)"

lemma tok_count_simps [simp]:
  "tok_count [] = 0" "tok_count (Chr c # gs) = tok_count gs" "tok_count (Tok t # gs) = Suc (tok_count gs)"
  by (simp_all add: tok_count_def)

lemma walk_loop_append:
  "walk_loop E B U clk ctx prov text (ms @ ns) w =
     (case walk_loop E B U clk ctx prov text ms w of
        (Some e, w') \<Rightarrow> (Some e, w')
      | (None, w') \<Rightarrow> walk_loop E B U clk ctx prov text ns w')"
  by (induction ms arbitrary: w) (auto split: prod.splits option.splits)

definition accounted :: "outcome \<Rightarrow> nat" where
  "accounted r = ro_restored r + total_refused r"

lemma accounted_account [simp]:
  "(\<forall>e. d \<noteq> Raised e) \<Longrightarrow> accounted (account t d r) = Suc (accounted r)"
  by (cases d) (simp_all add: accounted_def total_refused_def)

lemma replacement_bytes:
  assumes "is_token t" "\<forall>e. d \<noteq> Raised e"
  shows "(case d of Restored s \<Rightarrow> b + int (length (utf8 s)) - int (length t) | _ \<Rightarrow> b)
     = b + int (length (utf8 (replacement t d))) - int (length (utf8 t))"
  using assms by (cases d) (simp_all add: is_token_utf8)

lemma walk_step_ok:
  assumes tx: "text = pre @ t @ post" and t: "is_token t"
    and ok: "walk_ok text (length pre + length t) rs w"
    and j: "judge E B U (clk (wk_reads w)) ctx prov t (lit ''v1'') (wk_vault w) = (d, v')"
    and d: "\<forall>e. d \<noteq> Raised e"
  shows "\<exists>w'. walk_step E B U clk ctx prov text
            (length pre, length pre + length t, tok_groups (length pre) (length t - 38)) w = (None, w')
     \<and> walk_ok text (length pre) (replacement t d # rs) w'
     \<and> wk_vault w' = v' \<and> wk_outcome w' = account t d (wk_outcome w)"
proof -
  let ?m = "(length pre, length pre + length t, tok_groups (length pre) (length t - 38))"
  let ?w = "w\<lparr>wk_fragments := wk_fragments w @ [pyslice text (length pre + length t) (wk_cursor w), replacement t d],
      wk_cursor := length pre,
      wk_bytes := wk_bytes w + int (length (utf8 (replacement t d))) - int (length (utf8 t)),
      wk_outcome := account t d (wk_outcome w), wk_vault := v', wk_reads := Suc (wk_reads w)\<rparr>"
  have g0: "group_text text ?m 0 = t" by (rule match_group_0 [OF tx])
  have g2: "group_text text ?m 2 = lit ''v1''" using match_group_2 [OF t] tx by simp
  have "walk_step E B U clk ctx prov text ?m w = (None, ?w)"
    unfolding walk_step_def g0 g2 j Let_def
    using replacement_bytes [OF t d, of "wk_bytes w"] d
    by (cases d) simp_all
  moreover have "walk_ok text (length pre) (replacement t d # rs) ?w"
    using ok tx by (simp add: walk_ok_def pyslice_empty)
  ultimately show ?thesis by (intro exI [of _ ?w]) simp
qed

lemma walk_ok_Chr:
  assumes "text = pre @ c # post" "walk_ok text (Suc (length pre)) rs w"
  shows "walk_ok text (length pre) ([c] # rs) w"
proof -
  have "pyslice text (length pre) (wk_cursor w) = c # pyslice text (Suc (length pre)) (wk_cursor w)"
  proof -
    obtain n where n: "wk_cursor w = Suc (length pre) + n"
      using assms(2) le_Suc_ex unfolding walk_ok_def by blast
    show ?thesis unfolding n by (simp add: assms(1) pyslice_def)
  qed
  with assms show ?thesis
    by (simp add: walk_ok_def utf8_Cons)
qed

lemma walk_init_ok: "walk_ok text (length text) [] (walk_init text v)"
  by (simp add: walk_ok_def walk_init_def pyslice_empty)

lemma segs_text_Cons [simp]: "segs_text (g # gs) = seg_text g @ segs_text gs"
  and segs_text_Nil [simp]: "segs_text [] = []"
  by (simp_all add: segs_text_def)

text \<open>Soundness: whatever the vault answers, a walk that returns replaced tokens one by one.\<close>

lemma walk_segs:
  assumes "text = pre @ segs_text gs" and "\<And>t. Tok t \<in> set gs \<Longrightarrow> is_token t"
    and "walk_loop E B U clk ctx prov text (rev (matches_of (length pre) gs)) (walk_init text v) = (None, w)"
  shows "\<exists>rs. list_all2 (seg_result prov) gs rs \<and> walk_ok text (length pre) rs w
     \<and> accounted (wk_outcome w) = tok_count gs"
  using assms
proof (induction gs arbitrary: pre w)
  case Nil
  then show ?case
    using walk_init_ok [of "text" v]
    by (auto simp: walk_init_def outcome_init_def accounted_def total_refused_def)
next
  case (Cons g gs)
  show ?case
  proof (cases g)
    case (Chr c)
    with Cons.prems Cons.IH [of "pre @ [c]" w] obtain rs
      where "list_all2 (seg_result prov) gs rs" "walk_ok text (Suc (length pre)) rs w"
        "accounted (wk_outcome w) = tok_count gs" by auto
    with Chr walk_ok_Chr [of "text" pre c "segs_text gs" rs w] Cons.prems(1) show ?thesis
      by (intro exI [of _ "[c] # rs"]) simp
  next
    case (Tok t)
    with Cons.prems(2) have t: "is_token t" by simp
    let ?m = "(length pre, length pre + length t, tok_groups (length pre) (length t - 38))"
    from Cons.prems(3) Tok obtain w1
      where w1: "walk_loop E B U clk ctx prov text (rev (matches_of (length (pre @ t)) gs)) (walk_init text v) = (None, w1)"
        and step: "walk_step E B U clk ctx prov text ?m w1 = (None, w)"
      by (auto simp: walk_loop_append split: prod.splits option.splits)
    from Cons.prems Tok Cons.IH [OF _ _ w1] obtain rs
      where rs: "list_all2 (seg_result prov) gs rs" "walk_ok text (length pre + length t) rs w1"
        "accounted (wk_outcome w1) = tok_count gs" by auto
    have tx: "text = pre @ t @ segs_text gs" using Cons.prems(1) Tok by simp
    obtain d v' where j: "judge E B U (clk (wk_reads w1)) ctx prov t (lit ''v1'') (wk_vault w1) = (d, v')"
      by fastforce
    have "d \<noteq> Raised e" for e
    proof
      assume "d = Raised e"
      moreover have "group_text text ?m 2 = lit ''v1''" using match_group_2 [OF t] tx by simp
      ultimately show False
        using step j by (simp add: walk_step_def match_group_0 [OF tx])
    qed
    with walk_step_ok [OF tx t rs(2), where clk = clk and d = d, OF j] step
    have "walk_ok text (length pre) (replacement t d # rs) w" "wk_outcome w = account t d (wk_outcome w1)"
      and d: "\<forall>e. d \<noteq> Raised e" by auto
    moreover have "seg_result prov (Tok t) (replacement t d)"
      using judge_Restored [of E B U _ ctx prov t _ _ _ v'] j
      by (cases d) auto
    ultimately show ?thesis
      using Tok rs by (intro exI [of _ "replacement t d # rs"]) simp
  qed
qed

text \<open>Completeness: where the vault's answers do not change, the result is determined.\<close>

fun seg_repl :: "(ustr \<Rightarrow> verdict) \<Rightarrow> seg \<Rightarrow> ustr" where
  "seg_repl d (Chr c) = [c]"
| "seg_repl d (Tok t) = replacement t (d t)"

lemma walk_segs_det:
  assumes "text = pre @ segs_text gs" and "\<And>t. Tok t \<in> set gs \<Longrightarrow> is_token t"
    and stable: "\<And>n v t. I v \<Longrightarrow> Tok t \<in> set gs \<Longrightarrow>
        \<exists>v'. judge E B U (clk n) ctx prov t (lit ''v1'') v = (d t, v') \<and> I v'"
    and "\<And>t e. Tok t \<in> set gs \<Longrightarrow> d t \<noteq> Raised e" and "I v"
  shows "\<exists>w. walk_loop E B U clk ctx prov text (rev (matches_of (length pre) gs)) (walk_init text v) = (None, w)
     \<and> walk_ok text (length pre) (map (seg_repl d) gs) w \<and> I (wk_vault w)
     \<and> ro_restored (wk_outcome w) = length (filter (\<lambda>g. \<exists>t s. g = Tok t \<and> d t = Restored s) gs)"
  using assms
proof (induction gs arbitrary: pre)
  case Nil
  then show ?case
    using walk_init_ok [of "text" v] by (simp add: walk_init_def outcome_init_def)
next
  case (Cons g gs)
  show ?case
  proof (cases g)
    case (Chr c)
    with Cons.prems Cons.IH [of "pre @ [c]"] obtain w
      where "walk_loop E B U clk ctx prov text (rev (matches_of (Suc (length pre)) gs)) (walk_init text v) = (None, w)"
        "walk_ok text (Suc (length pre)) (map (seg_repl d) gs) w" "I (wk_vault w)"
        "ro_restored (wk_outcome w) = length (filter (\<lambda>g. \<exists>t s. g = Tok t \<and> d t = Restored s) gs)"
      by auto
    with Chr walk_ok_Chr [of "text" pre c "segs_text gs" _ w] Cons.prems(1) show ?thesis by simp
  next
    case (Tok t)
    with Cons.prems(2) have t: "is_token t" by simp
    from Cons.prems Tok Cons.IH [of "pre @ t"] obtain w
      where w: "walk_loop E B U clk ctx prov text (rev (matches_of (length pre + length t) gs)) (walk_init text v) = (None, w)"
        "walk_ok text (length pre + length t) (map (seg_repl d) gs) w" "I (wk_vault w)"
        "ro_restored (wk_outcome w) = length (filter (\<lambda>g. \<exists>t s. g = Tok t \<and> d t = Restored s) gs)"
      by auto
    have tx: "text = pre @ t @ segs_text gs" using Cons.prems(1) Tok by simp
    from Cons.prems(3) [OF w(3), of t "wk_reads w"] Tok obtain v'
      where j: "judge E B U (clk (wk_reads w)) ctx prov t (lit ''v1'') (wk_vault w) = (d t, v')" "I v'"
      by auto
    have d: "\<forall>e. d t \<noteq> Raised e" using Cons.prems(4) Tok by simp
    from walk_step_ok [OF tx t w(2), where clk = clk and d = "d t", OF j(1) d] obtain w'
      where w': "walk_step E B U clk ctx prov text
            (length pre, length pre + length t, tok_groups (length pre) (length t - 38)) w = (None, w')"
        "walk_ok text (length pre) (replacement t (d t) # map (seg_repl d) gs) w'"
        "wk_vault w' = v'" "wk_outcome w' = account t (d t) (wk_outcome w)" by auto
    have "ro_restored (wk_outcome w') = ro_restored (wk_outcome w) + (if \<exists>s. d t = Restored s then 1 else 0)"
      using d by (cases "d t") (simp_all add: w'(4))
    with Tok w w' j(2) show ?thesis by (auto simp: walk_loop_append)
  qed
qed

text \<open>The engine's result in these terms.\<close>

lemma walk_result:
  assumes "walk_ok text 0 rs w"
  shows "concat (rev (wk_fragments w @ [take (wk_cursor w) text])) = concat rs"
    and "wk_bytes w = int (length (utf8 (concat rs)))"
  using assms by (simp_all add: walk_ok_def pyslice_def)

lemma matches_of_Nil: "matches_of p gs = [] \<longleftrightarrow> tok_count gs = 0"
proof (induction gs arbitrary: p)
  case (Cons g gs)
  then show ?case by (cases g) simp_all
qed simp

lemma no_tokens_results:
  assumes "tok_count gs = 0"
  shows "list_all2 (seg_result prov) gs (map seg_text gs) \<and> concat (map seg_text gs) = segs_text gs"
  using assms
proof (induction gs)
  case (Cons g gs)
  then show ?case by (cases g) simp_all
qed simp

lemma restore_Inr:
  assumes "restore E B U clk ctx text prov budget v = (Inr out, v')"
  shows "\<exists>rs. list_all2 (seg_result prov) (tok_split text) rs \<and> ro_text out = concat rs
     \<and> accounted out = tok_count (tok_split text) \<and> int (length (utf8 (ro_text out))) \<le> budget"
proof (cases "tok_count (tok_split text) = 0")
  case True
  with assms no_tokens_results [OF True, of prov] show ?thesis
    by (auto simp: restore_def finditer_TOKEN matches_of_Nil outcome_init_def accounted_def
        total_refused_def split: if_splits)
next
  case False
  then have "finditer TOKEN_PATTERN text \<noteq> []" by (simp add: finditer_TOKEN matches_of_Nil)
  with assms obtain w where
    loop: "walk_loop E B U clk ctx prov text (rev (matches_of 0 (tok_split text))) (walk_init text v) = (None, w)"
    and out: "out = (wk_outcome w)\<lparr>ro_text := concat (rev (wk_fragments w @ [take (wk_cursor w) text]))\<rparr>"
    and budget: "wk_bytes w \<le> budget"
    by (auto simp: restore_def Let_def finditer_TOKEN split: if_splits prod.splits option.splits)
  from walk_segs [of "text" "[]" "tok_split text" E B U clk ctx prov v w] loop tok_split_tokens
  obtain rs where rs: "list_all2 (seg_result prov) (tok_split text) rs" "walk_ok text 0 rs w"
    "accounted (wk_outcome w) = tok_count (tok_split text)" by auto
  have "accounted out = accounted (wk_outcome w)"
    by (simp add: out accounted_def total_refused_def)
  with rs budget walk_result [OF rs(2)] show ?thesis
    by (auto simp: out)
qed

end
