(* ===== verification/RestorationFacts.thy ===== *)
theory RestorationFacts
  imports Restoration VaultFacts
begin

text \<open>
  What restoration guarantees: it replaces nothing but tokens of its own request, each by the value it
  was minted for; everything else of the text survives unchanged, and every token is accounted for.
\<close>

definition sample_surrogate :: surrogate where
  "sample_surrogate = \<lparr>su_token = sample_token, su_type = lit ''EMAIL'', su_tag = replicate 32 48,
     su_canonical = sample_value, su_original = sample_value, su_version = lit ''v1''\<rparr>"

definition sample_prov :: provenance where
  "sample_prov = [(sample_token, sample_surrogate)]"

lemma sample_prov_lookup [simp]:
  "prov_lookup sample_prov t = (if t = sample_token then Some sample_surrogate else None)"
  by (simp add: sample_prov_def prov_lookup_def)

lemma sample_split: "tok_split sample_token = [Tok sample_token]"
  using tok_split_token [OF sample_token_is_token, of "[]"] by simp

lemma length_matches_of: "length (matches_of p gs) = tok_count gs"
proof (induction gs arbitrary: p)
  case (Cons g gs)
  then show ?case by (cases g) simp_all
qed simp

text \<open>A text without tokens of this request.\<close>

lemma judge_unminted:
  "prov_lookup prov t = None \<Longrightarrow> judge E B U now ctx prov t tv v = (NotMinted, v)"
  by (rule judge_not_minted) (simp add: was_minted_here_iff)

lemma concat_seg_repl_NotMinted:
  "concat (map (seg_repl (\<lambda>_. NotMinted)) gs) = segs_text gs"
proof (induction gs)
  case (Cons g gs) then show ?case by (cases g) simp_all
qed simp

lemma restore_det:
  assumes "\<And>n v t. I v \<Longrightarrow> Tok t \<in> set (tok_split text) \<Longrightarrow>
        \<exists>v'. judge E B U (clk n) ctx prov t (lit ''v1'') v = (d t, v') \<and> I v'"
    and "\<And>t e. Tok t \<in> set (tok_split text) \<Longrightarrow> d t \<noteq> Raised e" and "I v"
    and budget: "0 \<le> budget"
      "int (length (utf8 (concat (map (seg_repl d) (tok_split text))))) \<le> budget"
  shows "\<exists>out v'. restore E B U clk ctx text prov budget v = (Inr out, v') \<and> I v'
     \<and> ro_text out = concat (map (seg_repl d) (tok_split text))
     \<and> ro_restored out = length (filter (\<lambda>g. \<exists>t s. g = Tok t \<and> d t = Restored s) (tok_split text))"
proof (cases "tok_count (tok_split text) = 0")
  case True
  have "seg_repl d g = seg_text g" if "g \<in> set (tok_split text)" for g
    using True that by (cases g) (auto simp: tok_count_def filter_empty_conv)
  then have "concat (map (seg_repl d) (tok_split text)) = segs_text (tok_split text)"
    by (simp add: segs_text_def cong: map_cong)
  moreover have "filter (\<lambda>g. \<exists>t s. g = Tok t \<and> d t = Restored s) (tok_split text) = []"
    using True by (auto simp: tok_count_def filter_empty_conv)
  ultimately show ?thesis
    using True budget assms(3)
    by (simp add: restore_def finditer_TOKEN matches_of_Nil segs_text_tok_split outcome_init_def)
next
  case False
  from walk_segs_det [of "text" "[]" "tok_split text" I E B U clk ctx prov d v] assms(1-3)
  obtain w where
    w: "walk_loop E B U clk ctx prov text (rev (matches_of 0 (tok_split text))) (walk_init text v) = (None, w)"
      "walk_ok text 0 (map (seg_repl d) (tok_split text)) w" "I (wk_vault w)"
      "ro_restored (wk_outcome w) = length (filter (\<lambda>g. \<exists>t s. g = Tok t \<and> d t = Restored s) (tok_split text))"
    by (auto simp: segs_text_tok_split dest: tok_split_tokens)
  then show ?thesis
    using False budget walk_result [OF w(2)]
    by (simp add: restore_def finditer_TOKEN matches_of_Nil)
qed

lemma restore_unminted:
  assumes "\<And>t. Tok t \<in> set (tok_split text) \<Longrightarrow> prov_lookup prov t = None"
    and "int (length (utf8 text)) \<le> budget"
  shows "\<exists>out. restore E B U clk ctx text prov budget v = (Inr out, v) \<and> ro_text out = text \<and> ro_restored out = 0"
  using restore_det [of "\<lambda>v'. v' = v" "text" E B U clk ctx prov "\<lambda>_. NotMinted" v budget] assms
  by (auto simp: judge_unminted concat_seg_repl_NotMinted)

lemma restore_live:
  assumes "\<And>t. Tok t \<in> set (tok_split text) \<Longrightarrow> prov_lookup prov t = Some (f t) \<and>
      (\<forall>n. vault_get E B (clk n) ctx t (lit ''v1'') v = (Inr (Some (su_original (f t))), v)) \<and>
      su_canonical (f t) = canonicalize U (su_original (f t))"
    and "out_text = concat (map (seg_repl (\<lambda>t. Restored (su_original (f t)))) (tok_split text))"
    and "int (length (utf8 out_text)) \<le> budget"
  shows "\<exists>out. restore E B U clk ctx text prov budget v = (Inr out, v) \<and> ro_text out = out_text
     \<and> ro_restored out = tok_count (tok_split text) \<and> total_refused out = 0"
proof -
  let ?d = "\<lambda>t. Restored (su_original (f t))"
  have "judge E B U (clk n) ctx prov t (lit ''v1'') v = (?d t, v)" if "Tok t \<in> set (tok_split text)" for n t
    using assms(1) [OF that] by (simp add: judge_def was_minted_here_iff)
  then obtain out where out: "restore E B U clk ctx text prov budget v = (Inr out, v)" "ro_text out = out_text"
    "ro_restored out = tok_count (tok_split text)"
    using restore_det [of "\<lambda>v'. v' = v" "text" E B U clk ctx prov ?d v budget] assms(2,3)
    by (auto simp: tok_count_def)
  moreover have "accounted out = tok_count (tok_split text)"
    using restore_Inr [OF out(1)] by auto
  ultimately show ?thesis by (simp add: accounted_def)
qed

lemma sample_get_stored:
  "vault_get sample_env in_memory (10, 10) sample_ctx sample_token (lit ''v1'') sample_stored
     = (Inr (Some sample_value), sample_stored)"
proof -
  have kr: "kr_aead sample_keys (Suc 0) = Inr (replicate 32 7)" by (simp add: sample_keys_def kr_aead_def)
  show ?thesis
    by (simp add: vault_get_def sample_stored_def in_memory_def mem_get_def not_less Let_def
        sealed_shape [OF length_sample_nonce] open_sealed [OF sample_env_ok length_sample_nonce kr])
qed

lemma sample_canonical: "canonicalize ascii_ucd sample_value = sample_value"
  by code_simp

lemma sample_value_bytes: "length (utf8 sample_value) = 6"
  by code_simp

text \<open>
  C1: Restoration replaces nothing but tokens, and a token only by the original it was minted for in
  this very request: cut the input into characters and tokens, then the output is the same sequence
  with some of the tokens recorded in the request's provenance replaced by their own originals.
\<close>

theorem restore_sound:
  assumes "restore E B U clk ctx text prov budget v = (Inr out, v')"
  shows "\<exists>rs. list_all2 (seg_result prov) (tok_split text) rs \<and> ro_text out = concat rs"
  using restore_Inr [OF assms] by blast

theorem restore_sound_witness:
  "\<exists>out. restore sample_env in_memory ascii_ucd (\<lambda>_. (10, 10)) sample_ctx sample_token sample_prov 100 sample_stored
       = (Inr out, sample_stored) \<and>
     (\<exists>rs. list_all2 (seg_result sample_prov) (tok_split sample_token) rs \<and> ro_text out = concat rs)"
proof -
  obtain out where out: "restore sample_env in_memory ascii_ucd (\<lambda>_. (10, 10)) sample_ctx sample_token sample_prov
      100 sample_stored = (Inr out, sample_stored)"
    using restore_live [of sample_token sample_prov "\<lambda>_. sample_surrogate" sample_env in_memory "\<lambda>_. (10, 10)"
        sample_ctx sample_stored ascii_ucd _ 100]
    by (auto simp: sample_split sample_get_stored sample_surrogate_def sample_canonical sample_value_bytes)
  then show ?thesis using restore_sound [OF out] by blast
qed

text \<open>
  Every token of the text is accounted for exactly once: the restored and the refused ones add up
  to the tokens the pattern finds, and the reported reasons add up to the refused ones.
\<close>

theorem restore_accounts_for_every_token:
  assumes "restore E B U clk ctx text prov budget v = (Inr out, v')"
  shows "ro_restored out + sum_list (map snd (refusal_reasons out)) = length (finditer TOKEN_PATTERN text)"
  using restore_Inr [OF assms]
  by (auto simp: sum_reasons finditer_TOKEN length_matches_of accounted_def)

theorem restore_accounts_for_every_token_witness:
  "\<exists>out. restore sample_env in_memory ascii_ucd (\<lambda>_. (10, 10)) sample_ctx sample_token [] 100 sample_stored
       = (Inr out, sample_stored) \<and>
     ro_restored out + sum_list (map snd (refusal_reasons out)) = length (finditer TOKEN_PATTERN sample_token)"
proof -
  obtain out where out: "restore sample_env in_memory ascii_ucd (\<lambda>_. (10, 10)) sample_ctx sample_token []
      100 sample_stored = (Inr out, sample_stored)"
    using restore_unminted [of sample_token "[]" 100 sample_env in_memory ascii_ucd "\<lambda>_. (10, 10)" sample_ctx sample_stored]
      is_token_utf8 [OF sample_token_is_token]
    by (auto simp: prov_lookup_def sample_token_def token_string_def lit_def)
  then show ?thesis using restore_accounts_for_every_token [OF out] by blast
qed

text \<open>C32: A restored text never exceeds the byte budget it was given, encoded as UTF-8.\<close>

theorem restore_within_budget:
  "case fst (restore E B U clk ctx text prov budget v) of
     Inr out \<Rightarrow> int (length (utf8 (ro_text out))) \<le> budget
   | Inl _ \<Rightarrow> True"
proof (cases "restore E B U clk ctx text prov budget v")
  case (Pair r v')
  then show ?thesis
    by (cases r) (auto dest: restore_Inr)
qed



text \<open>
  Where every token of the text was minted in this request and the vault still holds its value,
  every one of them is restored to its original and none is refused.
\<close>

theorem restore_live_tokens_complete:
  assumes "\<And>t. Tok t \<in> set (tok_split text) \<Longrightarrow> prov_lookup prov t = Some (f t) \<and>
      (\<forall>n. vault_get E B (clk n) ctx t (lit ''v1'') v = (Inr (Some (su_original (f t))), v)) \<and>
      su_canonical (f t) = canonicalize U (su_original (f t))"
    and "out_text = concat (map (seg_repl (\<lambda>t. Restored (su_original (f t)))) (tok_split text))"
    and "int (length (utf8 out_text)) \<le> budget"
  shows "\<exists>out. restore E B U clk ctx text prov budget v = (Inr out, v) \<and> ro_text out = out_text
     \<and> ro_restored out = tok_count (tok_split text) \<and> total_refused out = 0"
  using assms by (rule restore_live)

theorem restore_live_tokens_complete_witness:
  "\<exists>out. restore sample_env in_memory ascii_ucd (\<lambda>_. (10, 10)) sample_ctx sample_token sample_prov 100 sample_stored
       = (Inr out, sample_stored) \<and> ro_text out = sample_value \<and> ro_restored out = tok_count (tok_split sample_token)
       \<and> total_refused out = 0"
  by (rule restore_live_tokens_complete [where f = "\<lambda>_. sample_surrogate"])
    (auto simp: sample_split sample_get_stored sample_surrogate_def sample_canonical sample_value_bytes)

end
