(* ===== verification/Transform.thy ===== *)
theory Transform
  imports Conflicts RestorationFacts
begin

text \<open>
  Transformation, \<^verbatim>\<open>gateway/transformations/engine.py\<close>: the resolved spans of a text are replaced, from
  right to left, by minted tokens whose originals go to the vault; the output is assembled once.
  The theory ends with the round trip: restoring a transformed text gives the text back.
\<close>

subsection \<open>The code\<close>

record transformation =
  tr_text :: ustr
  tr_prov :: provenance
  tr_replaced :: nat

record 'b tr_state =
  ts_fragments :: "ustr list"
  ts_cursor :: nat
  ts_prov :: provenance
  ts_vault :: "'b vault"
  ts_puts :: nat

definition transform_step :: "vault_env \<Rightarrow> 'b backend_ops \<Rightarrow> ucd \<Rightarrow> minter \<Rightarrow> (nat \<Rightarrow> rat) \<Rightarrow> (nat \<Rightarrow> bytes)
    \<Rightarrow> req_context \<Rightarrow> ustr \<Rightarrow> span \<Rightarrow> 'b tr_state \<Rightarrow> exn option \<times> 'b tr_state" where
  "transform_step E B U m clk nonces ctx text s st =
     (case mint m U ctx (sp_type s) (sp_text s) (ts_prov st) of
        Inl e \<Rightarrow> (Some e, st)
      | Inr (surrogate, prov) \<Rightarrow>
          (case vault_put E B (clk (ts_puts st)) (nonces (ts_puts st)) ctx (su_token surrogate)
                  (su_original surrogate) (su_version surrogate) (ts_vault st) of
             Inl e \<Rightarrow> (Some e, st\<lparr>ts_prov := prov\<rparr>)
           | Inr v \<Rightarrow>
               (None, st\<lparr>ts_fragments := ts_fragments st @ [pyslice text (sp_end s) (ts_cursor st), su_token surrogate],
                        ts_cursor := sp_start s, ts_prov := prov, ts_vault := v, ts_puts := Suc (ts_puts st)\<rparr>)))"

fun transform_loop :: "vault_env \<Rightarrow> 'b backend_ops \<Rightarrow> ucd \<Rightarrow> minter \<Rightarrow> (nat \<Rightarrow> rat) \<Rightarrow> (nat \<Rightarrow> bytes)
    \<Rightarrow> req_context \<Rightarrow> ustr \<Rightarrow> span list \<Rightarrow> 'b tr_state \<Rightarrow> exn option \<times> 'b tr_state" where
  "transform_loop E B U m clk nonces ctx text [] st = (None, st)"
| "transform_loop E B U m clk nonces ctx text (s # ss) st =
     (case transform_step E B U m clk nonces ctx text s st of
        (Some e, st') \<Rightarrow> (Some e, st')
      | (None, st') \<Rightarrow> transform_loop E B U m clk nonces ctx text ss st')"

definition transform_init :: "ustr \<Rightarrow> provenance \<Rightarrow> 'b vault \<Rightarrow> 'b tr_state" where
  "transform_init text prov v =
     \<lparr>ts_fragments = [], ts_cursor = length text, ts_prov = prov, ts_vault = v, ts_puts = 0\<rparr>"

definition transform :: "vault_env \<Rightarrow> 'b backend_ops \<Rightarrow> ucd \<Rightarrow> minter \<Rightarrow> (nat \<Rightarrow> rat) \<Rightarrow> (nat \<Rightarrow> bytes)
    \<Rightarrow> req_context \<Rightarrow> ustr \<Rightarrow> span list \<Rightarrow> provenance \<Rightarrow> 'b vault
    \<Rightarrow> transformation res \<times> provenance \<times> 'b vault" where
  \<comment> \<open>the provenance and the vault after the call are returned also where it raises\<close>
  "transform E B U m clk nonces ctx text spans prov v =
     (if spans = [] then (Inr \<lparr>tr_text = text, tr_prov = prov, tr_replaced = 0\<rparr>, prov, v)
      else (let ordered = resolve_conflicts spans
            in case transform_loop E B U m clk nonces ctx text (rev ordered) (transform_init text prov v) of
                 (Some e, st) \<Rightarrow> (Inl e, ts_prov st, ts_vault st)
               | (None, st) \<Rightarrow>
                   (Inr \<lparr>tr_text = concat (rev (ts_fragments st @ [take (ts_cursor st) text])),
                         tr_prov = ts_prov st, tr_replaced = length ordered\<rparr>,
                    ts_prov st, ts_vault st)))"

subsection \<open>Minting\<close>

lemma token_tag_active:
  "token_tag m ctx ent canonical (tf_version ACTIVE_TOKEN_FORMAT) =
     Inr (hex_bytes (take 16 (hmac_sha256 (mt_key m) (tag_message ctx ent canonical (lit ''v1'')))))"
  by (simp add: token_tag_def ACTIVE_TOKEN_FORMAT_def TOKEN_FORMATS_def)

lemma tag_ok_hex: "length bs = 16 \<Longrightarrow> tag_ok (hex_bytes bs)"
  using hex_bytes_lower [of bs] by (simp add: tag_ok_def)

definition token_of :: "minter \<Rightarrow> ucd \<Rightarrow> req_context \<Rightarrow> ustr \<Rightarrow> ustr \<Rightarrow> ustr" where
  \<comment> \<open>the token minting computes for a value\<close>
  "token_of m U ctx ty val = token_string (u_upper U ty) (lit ''v1'')
     (hex_bytes (take 16 (hmac_sha256 (mt_key m)
        (tag_message ctx (u_upper U ty) (canonicalize U val) (lit ''v1'')))))"

definition surrogate_for :: "minter \<Rightarrow> ucd \<Rightarrow> req_context \<Rightarrow> ustr \<Rightarrow> ustr \<Rightarrow> surrogate" where
  "surrogate_for m U ctx ty val =
     \<lparr>su_token = token_of m U ctx ty val, su_type = u_upper U ty,
      su_tag = hex_bytes (take 16 (hmac_sha256 (mt_key m)
        (tag_message ctx (u_upper U ty) (canonicalize U val) (lit ''v1'')))),
      su_canonical = canonicalize U val, su_original = val, su_version = lit ''v1''\<rparr>"

lemma mint_cases:
  assumes "mt_format m = ACTIVE_TOKEN_FORMAT"
  shows "mint m U ctx ty val prov =
     (case prov_lookup prov (token_of m U ctx ty val) of
        Some s \<Rightarrow> if su_canonical s \<noteq> canonicalize U val then Inl TokenCollisionError else Inr (s, prov)
      | None \<Rightarrow> Inr (surrogate_for m U ctx ty val, prov_record (surrogate_for m U ctx ty val) prov))"
  using assms token_tag_active
  by (simp add: mint_def Let_def token_of_def surrogate_for_def res_simps ACTIVE_TOKEN_FORMAT_def
      split: option.split)

lemma token_of_is_token:
  assumes "entity_ok (u_upper U ty)" shows "is_token (token_of m U ctx ty val)"
proof -
  have "tag_ok (hex_bytes (take 16 (hmac_sha256 k msg)))" for k msg by (rule tag_ok_hex) simp
  with assms show ?thesis unfolding is_token_def token_of_def by blast
qed

subsection \<open>The provenance and the vault agree\<close>

text \<open>
  \<open>held\<close>: the vault has the original of a surrogate, readable at every instant before \<open>T\<close>.
  \<open>prov_ok\<close>: every surrogate of the provenance is registered under its own token, is well formed, and
  is held.
\<close>

definition held :: "vault_env \<Rightarrow> req_context \<Rightarrow> rat \<Rightarrow> surrogate \<Rightarrow> items vault \<Rightarrow> bool" where
  "held E ctx T s v \<longleftrightarrow> (\<exists>key kv nonce e. kr_aead (vt_keys v) kv = Inr key \<and> length nonce = NONCE_BYTES \<and> T \<le> e \<and>
     map_of (vt_backend v) (vault_key ctx (su_token s)) =
       Some (sealed E key kv nonce ctx (su_token s) (su_original s) (lit ''v1'') e, e))"

definition prov_ok :: "vault_env \<Rightarrow> ucd \<Rightarrow> req_context \<Rightarrow> rat \<Rightarrow> provenance \<Rightarrow> items vault \<Rightarrow> bool" where
  "prov_ok E U ctx T prov v \<longleftrightarrow> (\<forall>t s. prov_lookup prov t = Some s \<longrightarrow>
     su_token s = t \<and> is_token t \<and> su_version s = lit ''v1'' \<and>
     su_canonical s = canonicalize U (su_original s) \<and> held E ctx T s v)"

lemma held_get:
  assumes "aead_ok E" "held E ctx T s v" "fst now < T" "snd now < T"
  shows "vault_get E in_memory now ctx (su_token s) (lit ''v1'') v = (Inr (Some (su_original s)), v)"
proof -
  from assms(2) obtain key kv nonce e where h: "kr_aead (vt_keys v) kv = Inr key" "length nonce = NONCE_BYTES" "T \<le> e"
    "map_of (vt_backend v) (vault_key ctx (su_token s)) =
       Some (sealed E key kv nonce ctx (su_token s) (su_original s) (lit ''v1'') e, e)"
    by (auto simp: held_def)
  from h(3) assms(3,4) have "\<not> e \<le> fst now" "\<not> e \<le> snd now" by simp_all
  then show ?thesis
    by (simp add: vault_get_def in_memory_def mem_get_def h(4) Let_def sealed_shape [OF h(2)] not_less
        open_sealed [OF assms(1) h(2,1)])
qed

lemma held_put:
  assumes "vault_put E in_memory now nonce ctx token val (lit ''v1'') v = Inr v'" "length nonce = NONCE_BYTES"
    and "T \<le> now + vt_ttl v"
  shows "su_token s = token \<Longrightarrow> su_original s = val \<Longrightarrow> held E ctx T s v'"
    and "su_token s \<noteq> token \<Longrightarrow> held E ctx T s v \<Longrightarrow> held E ctx T s v'"
    and "vt_ttl v' = vt_ttl v"
proof -
  from assms(1) obtain key where key: "kr_aead (vt_keys v) (kr_active (vt_keys v)) = Inr key"
    and v': "v' = v\<lparr>vt_backend := mem_put (vault_key ctx token)
       (sealed E key (kr_active (vt_keys v)) nonce ctx token val (lit ''v1'') (now + vt_ttl v))
       (now + vt_ttl v) (vt_backend v)\<rparr>"
    by (auto simp: vault_put_sealed res_simps in_memory_def)
  show "held E ctx T s v'" if "su_token s = token" "su_original s = val"
    unfolding held_def v'
    by (rule exI [of _ key], rule exI [of _ "kr_active (vt_keys v)"], rule exI [of _ nonce],
        rule exI [of _ "now + vt_ttl v"])
      (use key assms(2,3) that in \<open>simp add: mem_put_def\<close>)
  show "held E ctx T s v'" if "su_token s \<noteq> token" "held E ctx T s v"
    using that by (simp add: held_def v' mem_put_def vault_key_def)
  show "vt_ttl v' = vt_ttl v" by (simp add: v')
qed

lemma transform_step_ok:
  assumes step: "transform_step E in_memory U m clk nonces ctx text s st = (None, st')"
    and fmt: "mt_format m = ACTIVE_TOKEN_FORMAT" and ent: "entity_ok (u_upper U (sp_type s))"
    and ok: "prov_ok E U ctx T (ts_prov st) (ts_vault st)"
    and nonces: "\<And>n. length (nonces n) = NONCE_BYTES" and clk: "\<And>n. T \<le> clk n + vt_ttl (ts_vault st)"
  shows "prov_ok E U ctx T (ts_prov st') (ts_vault st')"
    and "\<exists>g. prov_lookup (ts_prov st') (token_of m U ctx (sp_type s) (sp_text s)) = Some g
          \<and> su_canonical g = canonicalize U (sp_text s)
          \<and> (prov_lookup (ts_prov st) (token_of m U ctx (sp_type s) (sp_text s)) = None \<longrightarrow> su_original g = sp_text s)"
    and "\<forall>t g. prov_lookup (ts_prov st) t = Some g \<longrightarrow> prov_lookup (ts_prov st') t = Some g"
    and "\<forall>t g. prov_lookup (ts_prov st) t = None \<longrightarrow> prov_lookup (ts_prov st') t = Some g \<longrightarrow>
            t = token_of m U ctx (sp_type s) (sp_text s) \<and> su_original g = sp_text s"
    and "vt_ttl (ts_vault st') = vt_ttl (ts_vault st)"
    and "ts_fragments st' = ts_fragments st @ [pyslice text (sp_end s) (ts_cursor st), token_of m U ctx (sp_type s) (sp_text s)]"
    and "ts_cursor st' = sp_start s"
proof -
  let ?t = "token_of m U ctx (sp_type s) (sp_text s)"
  from step obtain g prov v' where mint: "mint m U ctx (sp_type s) (sp_text s) (ts_prov st) = Inr (g, prov)"
    and put: "vault_put E in_memory (clk (ts_puts st)) (nonces (ts_puts st)) ctx (su_token g) (su_original g)
       (su_version g) (ts_vault st) = Inr v'"
    and st': "st' = st\<lparr>ts_fragments := ts_fragments st @ [pyslice text (sp_end s) (ts_cursor st), su_token g],
                        ts_cursor := sp_start s, ts_prov := prov, ts_vault := v', ts_puts := Suc (ts_puts st)\<rparr>"
    by (auto simp: transform_step_def split: sum.splits prod.splits)
  have g: "su_token g = ?t" "is_token ?t" "su_version g = lit ''v1''" "su_canonical g = canonicalize U (su_original g)"
    "su_canonical g = canonicalize U (sp_text s)" "prov_lookup prov ?t = Some g"
    "prov_lookup (ts_prov st) ?t = None \<Longrightarrow> su_original g = sp_text s"
    "\<And>t. t \<noteq> ?t \<Longrightarrow> prov_lookup prov t = prov_lookup (ts_prov st) t"
    "\<And>h. prov_lookup (ts_prov st) ?t = Some h \<Longrightarrow> h = g"
    using mint ok token_of_is_token [OF ent]
    by (auto simp: mint_cases [OF fmt] prov_ok_def surrogate_for_def split: option.splits if_splits)
  note hp = held_put [OF put [unfolded g(3)] nonces clk]
  show "prov_ok E U ctx T (ts_prov st') (ts_vault st')"
    unfolding prov_ok_def
  proof (intro allI impI)
    fix t h assume "prov_lookup (ts_prov st') t = Some h"
    then have l: "prov_lookup prov t = Some h" by (simp add: st')
    show "su_token h = t \<and> is_token t \<and> su_version h = lit ''v1'' \<and>
        su_canonical h = canonicalize U (su_original h) \<and> held E ctx T h (ts_vault st')"
    proof (cases "t = ?t")
      case True
      with l g hp(1) show ?thesis by (simp add: st')
    next
      case False
      with l g(8) ok have "su_token h = t" "is_token t" "su_version h = lit ''v1''"
        "su_canonical h = canonicalize U (su_original h)" "held E ctx T h (ts_vault st)"
        by (auto simp: prov_ok_def)
      with False g(1) hp(2) show ?thesis by (simp add: st')
    qed
  qed
  show "vt_ttl (ts_vault st') = vt_ttl (ts_vault st)" using hp(3) by (simp add: st')
  show "\<exists>g. prov_lookup (ts_prov st') ?t = Some g \<and> su_canonical g = canonicalize U (sp_text s)
          \<and> (prov_lookup (ts_prov st) ?t = None \<longrightarrow> su_original g = sp_text s)"
    using g by (simp add: st')
  show "\<forall>t h. prov_lookup (ts_prov st) t = Some h \<longrightarrow> prov_lookup (ts_prov st') t = Some h"
  proof (intro allI impI)
    fix t h assume "prov_lookup (ts_prov st) t = Some h"
    with g(6,8,9) show "prov_lookup (ts_prov st') t = Some h" by (cases "t = ?t") (auto simp: st')
  qed
  show "\<forall>t h. prov_lookup (ts_prov st) t = None \<longrightarrow> prov_lookup (ts_prov st') t = Some h \<longrightarrow>
      t = ?t \<and> su_original h = sp_text s"
  proof (intro allI impI)
    fix t h assume "prov_lookup (ts_prov st) t = None" "prov_lookup (ts_prov st') t = Some h"
    with g(6,7,8) show "t = ?t \<and> su_original h = sp_text s" by (cases "t = ?t") (auto simp: st')
  qed
  show "ts_fragments st' = ts_fragments st @ [pyslice text (sp_end s) (ts_cursor st), ?t]"
    "ts_cursor st' = sp_start s" by (simp_all add: st' g(1))
qed

subsection \<open>The loop\<close>

fun assemble :: "ustr \<Rightarrow> nat \<Rightarrow> (span \<times> ustr) list \<Rightarrow> ustr" where
  \<comment> \<open>the text from \<open>p\<close> on, each span replaced by its string\<close>
  "assemble text p [] = drop p text"
| "assemble text p ((s, t) # r) = pyslice text p (sp_start s) @ t @ assemble text (sp_end s) r"

lemma assemble_id:
  assumes "disjoint_sorted ss" "\<forall>s \<in> set ss. span_of text s \<and> p \<le> sp_start s"
  shows "assemble text p (map (\<lambda>s. (s, sp_text s)) ss) = drop p text"
  using assms
proof (induction ss arbitrary: p)
  case (Cons s ss)
  have s: "p \<le> sp_start s" "sp_start s \<le> sp_end s" "sp_end s \<le> length text"
    "sp_text s = pyslice text (sp_start s) (sp_end s)"
    using Cons.prems(2) by (simp_all add: span_of_def)
  have "\<forall>a \<in> set ss. span_of text a \<and> sp_end s \<le> sp_start a"
    using Cons.prems by (simp add: disjoint_sorted_def)
  with Cons.IH [of "sp_end s"] Cons.prems(1)
  have "assemble text (sp_end s) (map (\<lambda>s. (s, sp_text s)) ss) = drop (sp_end s) text"
    by (simp add: disjoint_sorted_def)
  moreover have "pyslice text (sp_start s) (sp_end s) @ drop (sp_end s) text = drop (sp_start s) text"
    using s by (metis append_take_drop_id drop_drop le_add_diff_inverse2 pyslice_def)
  moreover have "pyslice text p (sp_start s) @ drop (sp_start s) text = drop p text"
    using s(1) by (metis append_take_drop_id drop_drop le_add_diff_inverse2 pyslice_def)
  ultimately show ?case by (simp add: s(4))
qed simp

lemma transform_loop_append:
  "transform_loop E B U m clk nonces ctx text (ss @ ts) st =
     (case transform_loop E B U m clk nonces ctx text ss st of
        (Some e, st') \<Rightarrow> (Some e, st')
      | (None, st') \<Rightarrow> transform_loop E B U m clk nonces ctx text ts st')"
  by (induction ss arbitrary: st) (auto split: prod.splits option.splits)

definition loop_done :: "vault_env \<Rightarrow> ucd \<Rightarrow> minter \<Rightarrow> req_context \<Rightarrow> rat \<Rightarrow> ustr \<Rightarrow> nat \<Rightarrow> span list
    \<Rightarrow> provenance \<Rightarrow> items tr_state \<Rightarrow> bool" where
  "loop_done E U m ctx T text p ss prov0 st \<longleftrightarrow>
     prov_ok E U ctx T (ts_prov st) (ts_vault st) \<and> p \<le> ts_cursor st \<and> ts_cursor st \<le> length text
     \<and> pyslice text p (ts_cursor st) @ concat (rev (ts_fragments st)) =
         assemble text p (map (\<lambda>s. (s, token_of m U ctx (sp_type s) (sp_text s))) ss)
     \<and> (\<forall>s \<in> set ss. \<exists>g. prov_lookup (ts_prov st) (token_of m U ctx (sp_type s) (sp_text s)) = Some g
          \<and> su_canonical g = canonicalize U (sp_text s))
     \<and> (\<forall>t g. prov_lookup prov0 t = Some g \<longrightarrow> prov_lookup (ts_prov st) t = Some g)
     \<and> (\<forall>t g. prov_lookup prov0 t = None \<longrightarrow> prov_lookup (ts_prov st) t = Some g \<longrightarrow>
          (\<exists>s \<in> set ss. t = token_of m U ctx (sp_type s) (sp_text s) \<and> su_original g = sp_text s))"

lemma transform_loop_ok:
  assumes "transform_loop E in_memory U m clk nonces ctx text (rev ss) (transform_init text prov0 v) = (None, st)"
    and "mt_format m = ACTIVE_TOKEN_FORMAT" and "\<forall>s \<in> set ss. entity_ok (u_upper U (sp_type s))"
    and "prov_ok E U ctx T prov0 v"
    and "\<And>n. length (nonces n) = NONCE_BYTES" and "\<And>n. T \<le> clk n + vt_ttl v"
    and "disjoint_sorted ss" and "\<forall>s \<in> set ss. span_of text s \<and> p \<le> sp_start s" and "p \<le> length text"
  shows "loop_done E U m ctx T text p ss prov0 st \<and> vt_ttl (ts_vault st) = vt_ttl v"
  using assms(1,3,7-9)
proof (induction ss arbitrary: p st)
  case Nil
  then show ?case using assms(4) by (auto simp: loop_done_def transform_init_def pyslice_def)
next
  case (Cons s ss)
  let ?tok = "\<lambda>s. token_of m U ctx (sp_type s) (sp_text s)"
  from Cons.prems(1) obtain st1
    where st1: "transform_loop E in_memory U m clk nonces ctx text (rev ss) (transform_init text prov0 v) = (None, st1)"
      and step: "transform_step E in_memory U m clk nonces ctx text s st1 = (None, st)"
    by (auto simp: transform_loop_append split: prod.splits option.splits)
  have s: "p \<le> sp_start s" "sp_start s \<le> sp_end s" "sp_end s \<le> length text"
    using Cons.prems(4) by (simp_all add: span_of_def)
  have "loop_done E U m ctx T text (sp_end s) ss prov0 st1 \<and> vt_ttl (ts_vault st1) = vt_ttl v"
    by (rule Cons.IH [OF st1]) (use Cons.prems s in \<open>auto simp: disjoint_sorted_def\<close>)
  then have ih: "prov_ok E U ctx T (ts_prov st1) (ts_vault st1)" "sp_end s \<le> ts_cursor st1"
    "pyslice text (sp_end s) (ts_cursor st1) @ concat (rev (ts_fragments st1)) =
       assemble text (sp_end s) (map (\<lambda>s. (s, ?tok s)) ss)"
    "\<forall>s \<in> set ss. \<exists>g. prov_lookup (ts_prov st1) (?tok s) = Some g \<and> su_canonical g = canonicalize U (sp_text s)"
    "\<forall>t g. prov_lookup prov0 t = Some g \<longrightarrow> prov_lookup (ts_prov st1) t = Some g"
    "\<forall>t g. prov_lookup prov0 t = None \<longrightarrow> prov_lookup (ts_prov st1) t = Some g \<longrightarrow>
        (\<exists>s \<in> set ss. t = ?tok s \<and> su_original g = sp_text s)"
    and ttl: "vt_ttl (ts_vault st1) = vt_ttl v"
    unfolding loop_done_def by blast+
  have ent: "entity_ok (u_upper U (sp_type s))" using Cons.prems(2) by simp
  have clk: "\<And>n. T \<le> clk n + vt_ttl (ts_vault st1)" using assms(6) ttl by simp
  note st = transform_step_ok [OF step assms(2) ent ih(1) assms(5) clk]
  have "prov_lookup prov0 t = None \<Longrightarrow> prov_lookup (ts_prov st) t = Some g \<Longrightarrow>
      \<exists>s \<in> set (s # ss). t = ?tok s \<and> su_original g = sp_text s" for t g
    using ih(6) st(3,4) by (cases "prov_lookup (ts_prov st1) t") fastforce+
  moreover have "\<forall>a \<in> set (s # ss). \<exists>g. prov_lookup (ts_prov st) (?tok a) = Some g \<and> su_canonical g = canonicalize U (sp_text a)"
    using ih(4) st(2,3) by (simp, blast)
  ultimately show ?case
    unfolding loop_done_def using st(1,3,5,6,7) ih(3,5) s ttl by (simp add: pyslice_def)
qed

subsection \<open>Texts without tokens\<close>

lemma token_free_iff: "tok_split s = map Chr s \<longleftrightarrow> (\<forall>i. tok_len (drop i s) = None)"
proof (induction s)
  case (Cons c s)
  show ?case
  proof (cases "tok_len (c # s)")
    case None
    with Cons show ?thesis
      by (auto simp: tok_split_Chr nat.split_sels drop_Cons split: nat.split)
  next
    case (Some n)
    then have "tok_split (c # s) \<noteq> map Chr (c # s)" by (simp add: tok_split_Some)
    moreover have "\<exists>i. tok_len (drop i (c # s)) \<noteq> None" using Some by (intro exI [of _ 0]) simp
    ultimately show ?thesis by simp
  qed
qed simp

lemma token_free_slice:
  assumes "tok_split s = map Chr s"
  shows "tok_split (pyslice s i j) = map Chr (pyslice s i j)" and "tok_split (drop i s) = map Chr (drop i s)"
proof -
  have "tok_len (drop k (take n (drop i s))) = None" for k n
  proof (rule ccontr)
    assume "tok_len (drop k (take n (drop i s))) \<noteq> None"
    then obtain l where "tok_len (take (n - k) (drop (k + i) s)) = Some l"
      by (auto simp: drop_take add.commute)
    from tok_len_mono [OF this, of "drop (n - k) (drop (k + i) s)"] have "tok_len (drop (k + i) s) = Some l"
      unfolding append_take_drop_id .
    with assms show False by (simp add: token_free_iff)
  qed
  then show "tok_split (pyslice s i j) = map Chr (pyslice s i j)"
    unfolding token_free_iff pyslice_def by simp
  show "tok_split (drop i s) = map Chr (drop i s)"
    using assms unfolding token_free_iff by simp
qed

lemma tok_count_0: "tok_count gs = 0 \<Longrightarrow> gs = map Chr (segs_text gs)"
proof (induction gs)
  case (Cons g gs)
  then show ?case by (cases g) simp_all
qed simp

lemma finditer_Nil_iff: "finditer TOKEN_PATTERN s = [] \<longleftrightarrow> tok_split s = map Chr s"
proof
  assume "finditer TOKEN_PATTERN s = []"
  then have "tok_count (tok_split s) = 0" by (simp add: finditer_TOKEN matches_of_Nil)
  from tok_count_0 [OF this] show "tok_split s = map Chr s" by simp
next
  have "tok_count (map Chr s) = 0" for s by (induction s) simp_all
  moreover assume "tok_split s = map Chr s"
  ultimately show "finditer TOKEN_PATTERN s = []" by (simp add: finditer_TOKEN matches_of_Nil)
qed

lemma concat_repl_Chr [simp]: "concat (map (seg_repl d \<circ> Chr) s) = s"
  by (induction s) simp_all

lemma assemble_split:
  assumes "tok_split text = map Chr text" "\<forall>(s, t) \<in> set sts. is_token t"
  shows "concat (map (seg_repl d) (tok_split (assemble text p sts))) =
       assemble text p (map (\<lambda>(s, t). (s, replacement t (d t))) sts)
     \<and> tok_count (tok_split (assemble text p sts)) = length sts
     \<and> (\<forall>t. Tok t \<in> set (tok_split (assemble text p sts)) \<longrightarrow> t \<in> snd ` set sts)"
  using assms(2)
proof (induction sts arbitrary: p)
  case Nil
  have "tok_count (map Chr s) = 0" for s by (induction s) simp_all
  then show ?case by (auto simp: token_free_slice [OF assms(1)] map_map)
next
  case (Cons x sts)
  obtain s t where x: "x = (s, t)" by fastforce
  have "tok_count (map Chr u @ gs) = tok_count gs" for u gs by (induction u) simp_all
  with Cons x show ?case
    by (auto simp: tok_split_append_token token_free_slice [OF assms(1)] map_map)
qed

subsection \<open>What a transformation computes\<close>

lemma prov_ok_empty [simp]: "prov_ok E U ctx T prov_empty v"
  by (simp add: prov_ok_def)

lemma transform_ok:
  assumes "transform E in_memory U m clk nonces ctx text spans prov0 v = (Inr r, prov, v')"
    and "mt_format m = ACTIVE_TOKEN_FORMAT"
    and "\<forall>s \<in> set spans. span_of text s \<and> entity_ok (u_upper U (sp_type s))"
    and "prov_ok E U ctx T prov0 v"
    and "\<And>n. length (nonces n) = NONCE_BYTES" and "\<And>n. T \<le> clk n + vt_ttl v"
  shows "\<exists>st. loop_done E U m ctx T text 0 (resolve_conflicts spans) prov0 st \<and> prov = ts_prov st \<and> v' = ts_vault st
     \<and> tr_text r = assemble text 0 (map (\<lambda>s. (s, token_of m U ctx (sp_type s) (sp_text s))) (resolve_conflicts spans))
     \<and> tr_replaced r = length (resolve_conflicts spans)"
proof (cases "spans = []")
  case True
  then show ?thesis using assms(1,4)
    by (intro exI [of _ "transform_init text prov0 v"])
      (auto simp: transform_def resolve_conflicts_def loop_done_def transform_init_def pyslice_def)
next
  case False
  obtain eo st where
    loop: "transform_loop E in_memory U m clk nonces ctx text (rev (resolve_conflicts spans)) (transform_init text prov0 v) = (eo, st)"
    by fastforce
  have "eo = None" using assms(1) False by (cases eo) (simp_all add: transform_def loop)
  with loop have
    st: "transform_loop E in_memory U m clk nonces ctx text (rev (resolve_conflicts spans)) (transform_init text prov0 v) = (None, st)"
    by simp
  have r: "r = \<lparr>tr_text = concat (rev (ts_fragments st @ [take (ts_cursor st) text])),
                tr_prov = ts_prov st, tr_replaced = length (resolve_conflicts spans)\<rparr>"
      "prov = ts_prov st" "v' = ts_vault st"
    using assms(1) False by (auto simp: transform_def st)
  have sub: "set (resolve_conflicts spans) \<subseteq> set spans" by (rule resolve_subset)
  have "disjoint_sorted (resolve_conflicts spans)"
    by (rule resolve_disjoint) (use assms(3) in \<open>auto simp: span_of_def\<close>)
  then have "loop_done E U m ctx T text 0 (resolve_conflicts spans) prov0 st"
    using transform_loop_ok [OF st assms(2) _ assms(4-6), of 0] sub assms(3) by auto
  then show ?thesis
    by (intro exI [of _ st]) (auto simp: r loop_done_def pyslice_def)
qed

text \<open>Nothing raises where the ring has its active key and no two spans share a token by accident.\<close>

lemma vault_put_keys: "vault_put E B now nonce ctx t val tv v = Inr v' \<Longrightarrow> vt_keys v' = vt_keys v"
  by (auto simp: vault_put_sealed res_simps)

lemma transform_loop_keys:
  "transform_loop E B U m clk nonces ctx text ss st = (None, st') \<Longrightarrow> vt_keys (ts_vault st') = vt_keys (ts_vault st)"
proof (induction ss arbitrary: st)
  case (Cons s ss)
  from Cons.prems obtain st1 where st1: "transform_step E B U m clk nonces ctx text s st = (None, st1)"
    "transform_loop E B U m clk nonces ctx text ss st1 = (None, st')"
    by (auto split: prod.splits option.splits)
  then have "vt_keys (ts_vault st1) = vt_keys (ts_vault st)"
    by (auto simp: transform_step_def split: sum.splits prod.splits dest: vault_put_keys)
  with Cons.IH [OF st1(2)] show ?case by simp
qed simp

definition minted_from :: "minter \<Rightarrow> ucd \<Rightarrow> req_context \<Rightarrow> span set \<Rightarrow> provenance \<Rightarrow> bool" where
  \<comment> \<open>every token was minted for one of these spans\<close>
  "minted_from m U ctx S prov \<longleftrightarrow> (\<forall>t g. prov_lookup prov t = Some g \<longrightarrow>
     (\<exists>a \<in> S. t = token_of m U ctx (sp_type a) (sp_text a) \<and> su_original g = sp_text a))"

lemma minted_from_empty [simp]: "minted_from m U ctx S prov_empty"
  by (simp add: minted_from_def)

lemma transform_loop_total:
  assumes "mt_format m = ACTIVE_TOKEN_FORMAT" and "keyring_ok (vt_keys v)"
    and nonces: "\<And>n. length (nonces n) = NONCE_BYTES" and clk: "\<And>n. T \<le> clk n + vt_ttl v"
    and ok0: "prov_ok E U ctx T prov0 v" and from0: "minted_from m U ctx S prov0"
    and same: "\<forall>a \<in> S. \<forall>b \<in> S. token_of m U ctx (sp_type a) (sp_text a) = token_of m U ctx (sp_type b) (sp_text b)
          \<longrightarrow> sp_text a = sp_text b"
    and "\<forall>s \<in> set ss. span_of text s \<and> entity_ok (u_upper U (sp_type s))"
    and "disjoint_sorted ss"
    and "set ss \<subseteq> S"
  shows "\<exists>st. transform_loop E in_memory U m clk nonces ctx text (rev ss) (transform_init text prov0 v) = (None, st)"
  using assms(8-)
proof (induction ss)
  case (Cons s ss)
  let ?tok = "\<lambda>s. token_of m U ctx (sp_type s) (sp_text s)"
  have "\<exists>st. transform_loop E in_memory U m clk nonces ctx text (rev ss) (transform_init text prov0 v) = (None, st)"
    by (rule Cons.IH) (use Cons.prems in \<open>auto simp: disjoint_sorted_def\<close>)
  then obtain st where st: "transform_loop E in_memory U m clk nonces ctx text (rev ss) (transform_init text prov0 v) = (None, st)"
    by blast
  have "loop_done E U m ctx T text 0 ss prov0 st \<and> vt_ttl (ts_vault st) = vt_ttl v"
    by (rule transform_loop_ok [OF st assms(1) _ ok0 nonces clk])
      (use Cons.prems in \<open>auto simp: disjoint_sorted_def\<close>)
  then have ld: "loop_done E U m ctx T text 0 ss prov0 st" by blast
  have "\<exists>g prov. mint m U ctx (sp_type s) (sp_text s) (ts_prov st) = Inr (g, prov)"
  proof (cases "prov_lookup (ts_prov st) (?tok s)")
    case None
    then show ?thesis by (simp add: mint_cases [OF assms(1)])
  next
    case (Some g)
    have "\<exists>a \<in> S. ?tok s = ?tok a \<and> su_original g = sp_text a"
    proof (cases "prov_lookup prov0 (?tok s)")
      case None
      from ld have "\<forall>t g. prov_lookup prov0 t = None \<longrightarrow> prov_lookup (ts_prov st) t = Some g \<longrightarrow>
          (\<exists>s \<in> set ss. t = ?tok s \<and> su_original g = sp_text s)" by (simp add: loop_done_def)
      with None Some obtain a where "a \<in> set ss" "?tok s = ?tok a" "su_original g = sp_text a" by blast
      with Cons.prems(3) show ?thesis by auto
    next
      case (Some g')
      with ld \<open>prov_lookup (ts_prov st) (?tok s) = Some g\<close> have "g' = g" by (auto simp: loop_done_def)
      with Some from0 show ?thesis by (auto simp: minted_from_def)
    qed
    then obtain a where a: "a \<in> S" "?tok s = ?tok a" "su_original g = sp_text a" by blast
    moreover from Cons.prems(3) have "s \<in> S" by simp
    ultimately have "sp_text a = sp_text s" using same by metis
    moreover from ld Some have "su_canonical g = canonicalize U (su_original g)" by (auto simp: loop_done_def prov_ok_def)
    ultimately have "su_canonical g = canonicalize U (sp_text s)" using a(3) by simp
    with Some show ?thesis by (simp add: mint_cases [OF assms(1)])
  qed
  moreover have "\<exists>v'. vault_put E B now nonce ctx t val tv (ts_vault st) = Inr v'" for B now nonce t val tv
    using kr_aead_active [OF assms(2)] transform_loop_keys [OF st]
    by (auto simp: vault_put_sealed transform_init_def res_simps)
  ultimately have "\<exists>st'. transform_step E in_memory U m clk nonces ctx text s st = (None, st')"
    unfolding transform_step_def by (metis (mono_tags, lifting) old.prod.case sum.case(2))
  then show ?case by (auto simp: transform_loop_append st)
qed simp

lemma transform_total_from:
  assumes "mt_format m = ACTIVE_TOKEN_FORMAT" and "keyring_ok (vt_keys v)"
    and "\<And>n. length (nonces n) = NONCE_BYTES" and "\<And>n. T \<le> clk n + vt_ttl v"
    and "prov_ok E U ctx T prov0 v" and "minted_from m U ctx S prov0"
    and same: "\<forall>a \<in> S. \<forall>b \<in> S. token_of m U ctx (sp_type a) (sp_text a) =
        token_of m U ctx (sp_type b) (sp_text b) \<longrightarrow> sp_text a = sp_text b"
    and spans: "\<forall>s \<in> set spans. span_of text s \<and> entity_ok (u_upper U (sp_type s))" and "set spans \<subseteq> S"
  shows "\<exists>r prov v'. transform E in_memory U m clk nonces ctx text spans prov0 v = (Inr r, prov, v')"
proof -
  have sub: "set (resolve_conflicts spans) \<subseteq> set spans" by (rule resolve_subset)
  have "disjoint_sorted (resolve_conflicts spans)"
    by (rule resolve_disjoint) (use spans in \<open>auto simp: span_of_def\<close>)
  then have "\<exists>st. transform_loop E in_memory U m clk nonces ctx text (rev (resolve_conflicts spans))
      (transform_init text prov0 v) = (None, st)"
    using sub spans assms(9) by (intro transform_loop_total [OF assms(1-7)]) blast+
  then show ?thesis by (auto simp: transform_def)
qed

lemma transform_total:
  assumes "mt_format m = ACTIVE_TOKEN_FORMAT" and "keyring_ok (vt_keys v)"
    and "\<And>n. length (nonces n) = NONCE_BYTES" and "\<And>n. T \<le> clk n + vt_ttl v"
    and spans: "\<forall>s \<in> set spans. span_of text s \<and> entity_ok (u_upper U (sp_type s))"
    and same: "\<forall>a \<in> set spans. \<forall>b \<in> set spans. token_of m U ctx (sp_type a) (sp_text a) =
        token_of m U ctx (sp_type b) (sp_text b) \<longrightarrow> sp_text a = sp_text b"
  shows "\<exists>r prov v'. transform E in_memory U m clk nonces ctx text spans prov_empty v = (Inr r, prov, v')"
  by (rule transform_total_from [OF assms(1-4) prov_ok_empty minted_from_empty same spans subset_refl])

lemma roundtrip:
  assumes aead: "aead_ok E" and "mt_format m = ACTIVE_TOKEN_FORMAT"
    and "\<And>n. length (nonces n) = NONCE_BYTES" and "\<And>n. T \<le> clk n + vt_ttl v"
    and spans: "\<forall>s \<in> set spans. span_of text s \<and> entity_ok (u_upper U (sp_type s))"
    and same: "\<forall>a \<in> set spans. \<forall>b \<in> set spans. token_of m U ctx (sp_type a) (sp_text a) =
        token_of m U ctx (sp_type b) (sp_text b) \<longrightarrow> sp_text a = sp_text b"
    and free: "finditer TOKEN_PATTERN text = []" and ring: "keyring_ok (vt_keys v)"
    and rclk: "\<And>n. fst (rclk n) < T \<and> snd (rclk n) < T"
    and budget: "int (length (utf8 text)) \<le> budget"
  shows "\<exists>r prov v' out. transform E in_memory U m clk nonces ctx text spans prov_empty v = (Inr r, prov, v')
     \<and> restore E in_memory U rclk ctx (tr_text r) prov budget v' = (Inr out, v') \<and> ro_text out = text
     \<and> ro_restored out = tr_replaced r \<and> total_refused out = 0"
proof -
  obtain r prov v' where tr: "transform E in_memory U m clk nonces ctx text spans prov_empty v = (Inr r, prov, v')"
    using transform_total [where nonces = nonces and clk = clk, OF assms(2) ring assms(3,4) spans same] by blast
  let ?tok = "\<lambda>s. token_of m U ctx (sp_type s) (sp_text s)" and ?ss = "resolve_conflicts spans"
  let ?f = "\<lambda>t. the (prov_lookup prov t)" and ?sts = "map (\<lambda>s. (s, ?tok s)) ?ss"
  from transform_ok [OF tr assms(2) spans prov_ok_empty assms(3,4)] obtain st
    where st: "loop_done E U m ctx T text 0 ?ss prov_empty st" "prov = ts_prov st" "v' = ts_vault st"
      and r: "tr_text r = assemble text 0 ?sts" "tr_replaced r = length ?ss" by blast
  from st have ok: "prov_ok E U ctx T prov v'"
    and reg: "\<forall>s \<in> set ?ss. \<exists>g. prov_lookup prov (?tok s) = Some g \<and> su_canonical g = canonicalize U (sp_text s)"
    and orig: "\<forall>t g. prov_lookup prov t = Some g \<longrightarrow> (\<exists>s \<in> set ?ss. t = ?tok s \<and> su_original g = sp_text s)"
    by (auto simp: loop_done_def)
  have sub: "set ?ss \<subseteq> set spans" by (rule resolve_subset)
  have own: "su_original (?f (?tok s)) = sp_text s" if "s \<in> set ?ss" for s
  proof -
    from reg that obtain g where g: "prov_lookup prov (?tok s) = Some g" "su_canonical g = canonicalize U (sp_text s)"
      by blast
    with orig obtain a where a: "a \<in> set ?ss" "?tok s = ?tok a" "su_original g = sp_text a" by blast
    from sub that a(1) have "s \<in> set spans" "a \<in> set spans" by blast+
    with same a(2) have "sp_text a = sp_text s" by metis
    with g(1) a(3) show ?thesis by simp
  qed
  have toks: "\<forall>(s, t) \<in> set ?sts. is_token t"
    using spans sub by (auto intro!: token_of_is_token)
  note sp = assemble_split [OF free [unfolded finditer_Nil_iff] toks, of "\<lambda>t. Restored (su_original (?f t))" 0]
  have m: "map (\<lambda>(s, t). (s, replacement t (Restored (su_original (?f t))))) ?sts = map (\<lambda>s. (s, sp_text s)) ?ss"
    using own unfolding map_map by (intro map_cong refl) simp
  have whole: "assemble text 0 (map (\<lambda>s. (s, sp_text s)) ?ss) = text"
    using assemble_id [of ?ss "text" 0] spans sub resolve_disjoint [of spans] by (auto simp: span_of_def)
  have out: "text = concat (map (seg_repl (\<lambda>t. Restored (su_original (?f t)))) (tok_split (tr_text r)))"
    unfolding r(1) by (rule sym, rule trans [OF conjunct1 [OF sp]]) (simp only: m whole)
  have "prov_lookup prov t = Some (?f t) \<and>
      (\<forall>n. vault_get E in_memory (rclk n) ctx t (lit ''v1'') v' = (Inr (Some (su_original (?f t))), v')) \<and>
      su_canonical (?f t) = canonicalize U (su_original (?f t))"
    if "Tok t \<in> set (tok_split (tr_text r))" for t
  proof -
    from sp that obtain s where "s \<in> set ?ss" "t = ?tok s" by (auto simp: r(1))
    with reg obtain g where g: "prov_lookup prov t = Some g" by blast
    with ok have "su_token g = t" "su_canonical g = canonicalize U (su_original g)" "held E ctx T g v'"
      by (auto simp: prov_ok_def)
    moreover from this(3) have "vault_get E in_memory (rclk n) ctx (su_token g) (lit ''v1'') v' = (Inr (Some (su_original g)), v')" for n
      by (rule held_get [OF aead]) (use rclk in auto)
    ultimately show ?thesis using g by simp
  qed
  from restore_live [OF this out budget] sp r tr show ?thesis by fastforce
qed

subsection \<open>Properties\<close>

definition sample_minter :: minter where
  "sample_minter = \<lparr>mt_key = replicate 32 5, mt_format = ACTIVE_TOKEN_FORMAT\<rparr>"

definition sample_text :: ustr where
  "sample_text = lit ''mail a@b.eu''"

definition sample_span :: span where
  "sample_span = \<lparr>sp_start = 5, sp_end = 11, sp_type = lit ''EMAIL'', sp_text = sample_value,
     sp_score = 1, sp_detector = lit ''email''\<rparr>"

lemma sample_span_ok: "span_of sample_text sample_span" "entity_ok (u_upper ascii_ucd (sp_type sample_span))"
  "finditer TOKEN_PATTERN sample_text = []" "length (utf8 sample_text) = 11"
proof -
  have "60 \<notin> set sample_text" by (simp add: sample_text_def lit_def of_char_def)
  then show "finditer TOKEN_PATTERN sample_text = []" by (simp add: finditer_Nil_iff tok_split_no_lt)
qed (simp add: span_of_def, code_simp, simp add: entity_ok_def Ball_set_list_all, code_simp, code_simp)



text \<open>
  A transformed text is the original with each resolved span, and nothing else, replaced by the
  token of its value; afterwards every token of the provenance is a well-formed token whose original
  the vault holds.
\<close>

theorem transform_replaces_spans:
  assumes "transform E in_memory U m clk nonces ctx text spans prov0 v = (Inr r, prov, v')"
    and "mt_format m = ACTIVE_TOKEN_FORMAT"
    and "\<forall>s \<in> set spans. span_of text s \<and> entity_ok (u_upper U (sp_type s))"
    and "prov_ok E U ctx T prov0 v"
    and "\<And>n. length (nonces n) = NONCE_BYTES" and "\<And>n. T \<le> clk n + vt_ttl v"
  shows "tr_text r = assemble text 0 (map (\<lambda>s. (s, token_of m U ctx (sp_type s) (sp_text s))) (resolve_conflicts spans))
     \<and> tr_replaced r = length (resolve_conflicts spans) \<and> prov_ok E U ctx T prov v'"
  using transform_ok [OF assms] by (auto simp: loop_done_def)

theorem transform_replaces_spans_witness:
  "\<exists>r prov v'. transform sample_env in_memory ascii_ucd sample_minter (\<lambda>_. 0) (\<lambda>_. sample_nonce) sample_ctx
        sample_text [sample_span] prov_empty sample_vault = (Inr r, prov, v')
     \<and> tr_text r = assemble sample_text 0 [(sample_span, token_of sample_minter ascii_ucd sample_ctx (lit ''EMAIL'') sample_value)]"
proof -
  have m: "mt_format sample_minter = ACTIVE_TOKEN_FORMAT" by (simp add: sample_minter_def)
  obtain r prov v' where tr: "transform sample_env in_memory ascii_ucd sample_minter (\<lambda>_. 0) (\<lambda>_. sample_nonce) sample_ctx
        sample_text [sample_span] prov_empty sample_vault = (Inr r, prov, v')"
    using transform_total [OF m, of sample_vault "\<lambda>_. sample_nonce" 0 "\<lambda>_. 0" "[sample_span]" sample_text ascii_ucd sample_ctx sample_env]
    by (auto simp: sample_span_ok)
  have "bisect_right [] x 0 0 = 0" for x by (subst bisect_right.simps) simp
  then have "resolve_conflicts [sample_span] = [sample_span]"
    by (simp add: resolve_conflicts_def keep_step_def Let_def insert_at_def)
  moreover have "sp_type sample_span = lit ''EMAIL''" "sp_text sample_span = sample_value"
    by (simp_all add: sample_span_def)
  ultimately have "tr_text r = assemble sample_text 0 [(sample_span, token_of sample_minter ascii_ucd sample_ctx (lit ''EMAIL'') sample_value)]"
    using transform_replaces_spans [OF tr m, of 0] sample_span_ok(1,2) by simp
  with tr show ?thesis by blast
qed

text \<open>
  The MAC input of a token determines tenant, conversation, entity type, canonical value and token
  version: no two different bindings are tagged by the same message.
\<close>

theorem tag_message_binds:
  "tag_message ctx e c ver = tag_message ctx' e' c' ver' \<longleftrightarrow>
     (tenant_id ctx, conversation_id ctx, e, c, ver) = (tenant_id ctx', conversation_id ctx', e', c', ver')"
  by (auto simp: tag_message_def dest: length_prefixed_inj)

lemma verify_groups:
  assumes "tag_ok tag"
  shows "group_text (token_string ent (lit ''v1'') tag) (0, length ent + 38, tok_groups 0 (length ent)) (Suc 0) = ent"
    "group_text (token_string ent (lit ''v1'') tag) (0, length ent + 38, tok_groups 0 (length ent)) 2 = lit ''v1''"
    "group_text (token_string ent (lit ''v1'') tag) (0, length ent + 38, tok_groups 0 (length ent)) 3 = tag"
proof -
  have "drop (length ent + 5) ((60 # ent @ [58, 118, 49, 58]) @ tag @ [62]) = tag @ [62]"
    by (subst drop_append) simp
  then have "pyslice (token_string ent (lit ''v1'') tag) (length ent + 5) (length ent + 37) = tag"
    using assms by (simp add: pyslice_def token_string_def lit_v1 tag_ok_def)
  then show "group_text (token_string ent (lit ''v1'') tag) (0, length ent + 38, tok_groups 0 (length ent)) 3 = tag"
    by (simp add: group_text_def group_span_def tok_groups_def)
qed (simp_all add: group_text_def group_span_def tok_groups_def pyslice_def token_string_def lit_v1)

lemma fullmatch_token:
  "re_fullmatch TOKEN_PATTERN t = (if tok_len t = Some (length t) then Some (tok_groups 0 (length t - 38)) else None)"
  using rm_TOKEN_PATTERN [of 0 t] by (auto simp: re_fullmatch_def split: option.splits)

lemma tok_len_full: "tok_len t = Some (length t) \<longleftrightarrow> is_token t"
  using tok_len_take [of t "length t"] tok_len_is_token [of t "[]"] by auto

text \<open>
  A string verifies for a canonical value exactly when it is the token of that value in this context
  for some entity type: nothing else that matches the grammar, or nearly does, is accepted.
\<close>

theorem token_verify_exact:
  "token_verify m ctx t canonical \<longleftrightarrow>
     (\<exists>ent. entity_ok ent \<and> t = token_string ent (lit ''v1'')
        (hex_bytes (take 16 (hmac_sha256 (mt_key m) (tag_message ctx ent canonical (lit ''v1''))))))"
  (is "_ \<longleftrightarrow> (\<exists>ent. entity_ok ent \<and> t = token_string ent _ (?tag ent))")
proof
  assume v: "token_verify m ctx t canonical"
  then have "is_token t" by (auto simp: token_verify_def fullmatch_token tok_len_full split: if_splits)
  then obtain ent tag where t: "entity_ok ent" "tag_ok tag" "t = token_string ent (lit ''v1'') tag"
    by (rule is_tokenE)
  with v token_tag_active [of m ctx ent canonical] have "tag = ?tag ent"
    by (simp add: token_verify_def fullmatch_token tok_len_full Let_def length_token_string verify_groups
        ACTIVE_TOKEN_FORMAT_def split: if_splits)
  with t show "\<exists>ent. entity_ok ent \<and> t = token_string ent (lit ''v1'') (?tag ent)" by blast
next
  assume "\<exists>ent. entity_ok ent \<and> t = token_string ent (lit ''v1'') (?tag ent)"
  then obtain ent where ent: "entity_ok ent" and t: "t = token_string ent (lit ''v1'') (?tag ent)" by blast
  have tag: "tag_ok (?tag ent)" by (rule tag_ok_hex) simp
  with ent t have "is_token t" by (auto simp: is_token_def)
  then have "re_fullmatch TOKEN_PATTERN t = Some (tok_groups 0 (length t - 38))"
    by (simp add: fullmatch_token tok_len_full)
  moreover have "length t = length ent + 38" by (simp add: t length_token_string [OF tag])
  ultimately show "token_verify m ctx t canonical"
    using token_tag_active [of m ctx ent canonical] verify_groups [OF tag, of ent, folded t]
    by (simp add: token_verify_def Let_def ACTIVE_TOKEN_FORMAT_def)
qed

end
