(* ===== verification/View.thy ===== *)
theory View
  imports Domain
begin

text \<open>
  Confusable folding and the detection view, \<^verbatim>\<open>gateway/normalization/confusables.py\<close> and \<^verbatim>\<open>view.py\<close>.
  Detection runs on a derived text whose every character knows the range of the original it comes
  from.  The Unicode database is the parameter \<open>U\<close>.
\<close>

subsection \<open>Confusable folding\<close>

definition CYRILLIC_FOLDS :: "(cp \<times> cp) list" where
  "CYRILLIC_FOLDS =
     [(1072, 97), (1077, 101), (1086, 111), (1088, 112), (1089, 99), (1091, 121), (1093, 120),
      (1110, 105), (1112, 106), (1211, 104), (1040, 65), (1042, 66), (1045, 69), (1050, 75),
      (1052, 77), (1053, 72), (1054, 79), (1056, 80), (1057, 67), (1058, 84), (1061, 88),
      (1029, 83), (1030, 73), (1032, 74), (1047, 51), (1079, 51), (1216, 49), (1051, 78)]"

definition GREEK_FOLDS :: "(cp \<times> cp) list" where
  "GREEK_FOLDS =
     [(945, 97), (959, 111), (961, 112), (957, 118), (965, 117), (913, 65), (914, 66), (917, 69),
      (918, 90), (919, 72), (921, 73), (922, 75), (924, 77), (925, 78), (927, 79), (929, 80),
      (932, 84), (933, 89), (935, 88), (947, 121)]"

definition OTHER_FOLDS :: "(cp \<times> cp) list" where
  "OTHER_FOLDS =
     [(304, 73), (305, 105), (451, 33), (8208, 45), (8209, 45), (8210, 45), (8211, 45), (8212, 45),
      (8213, 45), (8722, 45), (8260, 47), (8725, 47), (720, 58), (65306, 58), (1281, 100),
      (1307, 113), (609, 103), (11365, 97)]"

definition CONFUSABLE_MAP :: "(cp \<times> cp) list" where
  "CONFUSABLE_MAP = CYRILLIC_FOLDS @ GREEK_FOLDS @ OTHER_FOLDS"

definition is_confusable :: "cp \<Rightarrow> bool" where
  "is_confusable c \<longleftrightarrow> map_of CONFUSABLE_MAP c \<noteq> None"

definition fold_cp :: "cp \<Rightarrow> cp" where
  "fold_cp c = (case map_of CONFUSABLE_MAP c of Some d \<Rightarrow> d | None \<Rightarrow> c)"

definition fold_confusables :: "ustr \<Rightarrow> ustr" where
  "fold_confusables s = map fold_cp s"

definition folds_to_ascii :: "ustr \<Rightarrow> bool" where
  "folds_to_ascii s \<longleftrightarrow> fold_confusables s \<noteq> s"

lemma confusables_checked:
  "list_all (\<lambda>(s, t). 128 \<le> s \<and> t < 128) CONFUSABLE_MAP"
  by (simp add: CONFUSABLE_MAP_def CYRILLIC_FOLDS_def GREEK_FOLDS_def OTHER_FOLDS_def)

lemma confusable_range: "map_of CONFUSABLE_MAP c = Some d \<Longrightarrow> 128 \<le> c \<and> d < 128"
  using confusables_checked by (auto simp: list_all_iff dest!: map_of_SomeD)

lemma confusable_ascii: "c < 128 \<Longrightarrow> map_of CONFUSABLE_MAP c = None"
  using confusable_range [of c] by (cases "map_of CONFUSABLE_MAP c") auto

lemma fold_cp_ascii: "c < 128 \<Longrightarrow> fold_cp c = c"
  by (simp add: fold_cp_def confusable_ascii)

lemma not_confusable_ascii: "c < 128 \<Longrightarrow> \<not> is_confusable c"
  by (simp add: is_confusable_def confusable_ascii)

lemma fold_cp_target: "fold_cp c = c \<or> fold_cp c < 128"
  by (auto simp: fold_cp_def split: option.split dest: confusable_range)

lemma fold_cp_idem [simp]: "fold_cp (fold_cp c) = fold_cp c"
  using fold_cp_target [of c] fold_cp_ascii by auto

lemma length_fold_confusables [simp]: "length (fold_confusables s) = length s"
  by (simp add: fold_confusables_def)

subsection \<open>The view\<close>

definition is_ignorable :: "ucd \<Rightarrow> cp \<Rightarrow> bool" where
  "is_ignorable U c \<longleftrightarrow> c \<notin> {9, 10, 13} \<and> (u_category U c \<in> {''Cf'', ''Cc''} \<or> c = 65279)"

type_synonym origin = "nat \<times> nat"

record view =
  v_original :: ustr
  v_text :: ustr
  v_folded :: ustr
  v_origins :: "origin list"

definition mk_view :: "ustr \<Rightarrow> ustr \<Rightarrow> ustr \<Rightarrow> origin list \<Rightarrow> view res" where
  "mk_view original t folded origins =
     (if length t \<noteq> length origins then Inl SpanMappingError
      else if length folded \<noteq> length t then Inl SpanMappingError
      else Inr \<lparr>v_original = original, v_text = t, v_folded = folded, v_origins = origins\<rparr>)"

fun strip_loop :: "ucd \<Rightarrow> nat \<Rightarrow> nat option \<Rightarrow> ustr \<Rightarrow> (cp \<times> origin) list \<times> nat option" where
  \<comment> \<open>kept characters with their origins, and the start of a pending dropped run\<close>
  "strip_loop U index pending [] = ([], pending)"
| "strip_loop U index pending (c # cs) =
     (if is_ignorable U c
      then strip_loop U (Suc index) (case pending of None \<Rightarrow> Some index | Some p \<Rightarrow> Some p) cs
      else (let (kept, rest) = strip_loop U (Suc index) None cs
            in ((c, (case pending of None \<Rightarrow> index | Some p \<Rightarrow> p), Suc index) # kept, rest)))"

fun extend_last :: "nat \<Rightarrow> (cp \<times> origin) list \<Rightarrow> (cp \<times> origin) list" where
  "extend_last n [] = []"
| "extend_last n [(c, s, e)] = [(c, s, n)]"
| "extend_last n (x # y # xs) = x # extend_last n (y # xs)"

definition strip_ignorables :: "ucd \<Rightarrow> ustr \<Rightarrow> (cp \<times> origin) list" where
  "strip_ignorables U original =
     (case strip_loop U 0 None original of
        (kept, None) \<Rightarrow> kept
      | (kept, Some _) \<Rightarrow> extend_last (length original) kept)"

function clusters :: "ucd \<Rightarrow> (cp \<times> 'a) list \<Rightarrow> (cp \<times> 'a) list list" where
  \<comment> \<open>each base character with the combining marks after it\<close>
  "clusters U [] = []"
| "clusters U (x # xs) =
     (x # takeWhile (\<lambda>y. u_combining U (fst y) \<noteq> 0) xs) #
       clusters U (dropWhile (\<lambda>y. u_combining U (fst y) \<noteq> 0) xs)"
  by pat_completeness auto
termination
  by (relation "measure (\<lambda>(U, xs). length xs)") (auto simp: less_Suc_eq_le length_dropWhile_le)

definition cluster_view :: "ucd \<Rightarrow> (cp \<times> origin) list \<Rightarrow> (cp \<times> origin) list" where
  \<comment> \<open>the normalised characters of a cluster, all with the cluster's origin\<close>
  "cluster_view U cl =
     (let origin = (fst (snd (hd cl)), snd (snd (last cl)))
      in map (\<lambda>c. (c, origin)) (u_nfkc U (map fst cl)))"

definition identity_ascii :: "ucd \<Rightarrow> cp \<Rightarrow> bool" where
  "identity_ascii U c \<longleftrightarrow> c < 128 \<and> \<not> is_ignorable U c \<and> \<not> is_confusable c \<and> u_nfkc U [c] = [c]"

definition identity_origins :: "nat \<Rightarrow> origin list" where
  "identity_origins n = zip [0..<n] [1..<Suc n]"

definition slow_view :: "ucd \<Rightarrow> ustr \<Rightarrow> view res" where
  "slow_view U original =
     (let stripped = strip_ignorables U original
      in if stripped = [] then mk_view original [] [] []
         else (let chars = concat (map (cluster_view U) (clusters U stripped)); t = map fst chars
               in mk_view original t (fold_confusables t) (map snd chars)))"

definition build_detection_view :: "ucd \<Rightarrow> ustr \<Rightarrow> view res" where
  "build_detection_view U original =
     (if original = [] then mk_view [] [] [] []
      else if list_all (identity_ascii U) original
      then mk_view original original original (identity_origins (length original))
      else slow_view U original)"

definition map_span :: "view \<Rightarrow> nat \<Rightarrow> nat \<Rightarrow> (nat \<times> nat) res" where
  "map_span v start stop =
     (if \<not> (start < stop \<and> stop \<le> length (v_text v)) then Inl SpanMappingError
      else (let origin_start = fst (v_origins v ! start);
                origin_end = Max (set (map (\<lambda>i. snd (v_origins v ! i)) [start..<stop]))
            in if \<not> (origin_start < origin_end \<and> origin_end \<le> length (v_original v))
               then Inl SpanMappingError
               else Inr (origin_start, origin_end)))"

definition verify_round_trip :: "ucd \<Rightarrow> view \<Rightarrow> nat \<Rightarrow> nat \<Rightarrow> bool res" where
  \<comment> \<open>only a failure of \<open>map_span\<close> is caught\<close>
  "verify_round_trip U v start stop =
     (case map_span v start stop of
        Inl _ \<Rightarrow> Inr False
      | Inr (s, e) \<Rightarrow>
          rbind (build_detection_view U (pyslice (v_original v) s e)) (\<lambda>rebuilt.
            Inr (v_folded rebuilt = pyslice (v_folded v) start stop)))"

fun map_and_validate :: "ucd \<Rightarrow> view \<Rightarrow> span list \<Rightarrow> ((nat \<times> nat \<times> span) list \<times> span list) res" where
  \<comment> \<open>the mapped spans, and the rejected ones in the order \<open>on_reject\<close> sees them\<close>
  "map_and_validate U v [] = Inr ([], [])"
| "map_and_validate U v (s # ss) =
     (case map_span v (sp_start s) (sp_end s) of
        Inl _ \<Rightarrow> rbind (map_and_validate U v ss) (\<lambda>(mapped, rejected). Inr (mapped, s # rejected))
      | Inr (os, oe) \<Rightarrow>
          rbind (verify_round_trip U v (sp_start s) (sp_end s)) (\<lambda>ok.
          rbind (map_and_validate U v ss) (\<lambda>(mapped, rejected).
            Inr (if ok then ((os, oe, s) # mapped, rejected) else (mapped, s # rejected)))))"

subsection \<open>Origins tile the original\<close>

fun tiles :: "nat \<Rightarrow> (cp \<times> origin) list \<Rightarrow> nat \<Rightarrow> bool" where
  "tiles a [] b \<longleftrightarrow> a = b"
| "tiles a ((c, s, e) # xs) b \<longleftrightarrow> s = a \<and> a < e \<and> tiles e xs b"

lemma tiles_append: "tiles a (xs @ ys) b \<longleftrightarrow> (\<exists>m. tiles a xs m \<and> tiles m ys b)"
  by (induction a xs b rule: tiles.induct) auto

lemma tiles_le: "tiles a xs b \<Longrightarrow> a \<le> b"
  by (induction a xs b rule: tiles.induct) auto

lemma tiles_hd_last:
  assumes "tiles a xs b" "xs \<noteq> []"
  shows "fst (snd (hd xs)) = a" "snd (snd (last xs)) = b" "a < b"
proof -
  show "fst (snd (hd xs)) = a" using assms by (cases xs) auto
  show "snd (snd (last xs)) = b" using assms
    by (induction a xs b rule: tiles.induct) (auto split: if_splits)
  show "a < b" using assms by (cases xs) (fastforce dest: tiles_le)+
qed

lemma tiles_strip_loop:
  assumes "strip_loop U index pending cs = (kept, rest)" and "\<forall>p. pending = Some p \<longrightarrow> p < index"
  shows "tiles (case pending of None \<Rightarrow> index | Some p \<Rightarrow> p) kept
      (case rest of None \<Rightarrow> index + length cs | Some p \<Rightarrow> p)
     \<and> (\<forall>p. rest = Some p \<longrightarrow> p < index + length cs)"
  using assms
proof (induction U index pending cs arbitrary: kept rest rule: strip_loop.induct)
  case (2 U index pending c cs)
  show ?case
  proof (cases "is_ignorable U c")
    case True
    with "2.IH"(1) [OF True, of kept rest] "2.prems" show ?thesis
      by (cases pending; cases rest) auto
  next
    case False
    obtain kept' rest' where r: "strip_loop U (Suc index) None cs = (kept', rest')" by fastforce
    from "2.IH"(2) [OF False r] r "2.prems" False show ?thesis
      by (cases pending) (auto split: option.splits)
  qed
qed (auto split: option.splits)

lemma tiles_extend_last:
  "tiles a xs b \<Longrightarrow> xs \<noteq> [] \<Longrightarrow> b \<le> n \<Longrightarrow> tiles a (extend_last n xs) n"
proof (induction n xs arbitrary: a rule: extend_last.induct)
  case (3 n x y xs)
  then show ?case by (cases x; cases y) auto
qed auto

lemma tiles_strip: "strip_ignorables U s \<noteq> [] \<Longrightarrow> tiles 0 (strip_ignorables U s) (length s)"
proof -
  assume ne: "strip_ignorables U s \<noteq> []"
  obtain kept rest where l: "strip_loop U 0 None s = (kept, rest)" by fastforce
  from tiles_strip_loop [OF l] have t: "tiles 0 kept (case rest of None \<Rightarrow> length s | Some p \<Rightarrow> p)"
    "\<forall>p. rest = Some p \<longrightarrow> p < length s" by (cases rest; simp)+
  show ?thesis
  proof (cases rest)
    case None
    with t l show ?thesis by (simp add: strip_ignorables_def)
  next
    case (Some p)
    with l ne have "kept \<noteq> []" by (auto simp: strip_ignorables_def)
    with Some t l show ?thesis by (simp add: strip_ignorables_def tiles_extend_last)
  qed
qed

definition nfkc_visible :: "ucd \<Rightarrow> bool" where
  \<comment> \<open>normalisation never erases a text\<close>
  "nfkc_visible U \<longleftrightarrow> (\<forall>s. s \<noteq> [] \<longrightarrow> u_nfkc U s \<noteq> [])"

definition origins_ok :: "nat \<Rightarrow> nat \<Rightarrow> origin list \<Rightarrow> bool" where
  "origins_ok a b orgs \<longleftrightarrow>
     sorted_wrt (\<lambda>x y. fst x \<le> fst y \<and> snd x \<le> snd y) orgs \<and> (\<forall>(s, e) \<in> set orgs. a \<le> s \<and> s < e \<and> e \<le> b)"

lemma origins_ok_replicate:
  "origins_ok m b orgs \<Longrightarrow> a < m \<Longrightarrow> m \<le> b \<Longrightarrow> origins_ok a b (replicate n (a, m) @ orgs)"
  by (induction n) (fastforce simp: origins_ok_def sorted_wrt_append)+

lemma tiles_clusters:
  assumes "tiles a xs b"
  shows "origins_ok a b (map snd (concat (map (cluster_view U) (clusters U xs))))
     \<and> (nfkc_visible U \<longrightarrow> (\<forall>i. a \<le> i \<longrightarrow> i < b \<longrightarrow>
          (\<exists>(s, e) \<in> set (map snd (concat (map (cluster_view U) (clusters U xs)))). s \<le> i \<and> i < e)))"
  using assms
proof (induction U xs arbitrary: a rule: clusters.induct)
  case (1 U)
  then show ?case by (simp add: origins_ok_def)
next
  case (2 U x xs)
  let ?p = "\<lambda>y. u_combining U (fst y) \<noteq> 0"
  let ?cl = "x # takeWhile ?p xs" and ?rest = "dropWhile ?p xs"
  from "2.prems" have "tiles a (?cl @ ?rest) b" by simp
  then obtain m where m: "tiles a ?cl m" "tiles m ?rest b" unfolding tiles_append by blast
  have am: "a < m" "m \<le> b" and org: "fst (snd (hd ?cl)) = a" "snd (snd (last ?cl)) = m"
    using tiles_hd_last [OF m(1)] tiles_le [OF m(2)] by auto
  let ?orgs = "map snd (concat (map (cluster_view U) (clusters U ?rest)))"
  have cv: "map snd (cluster_view U ?cl) = replicate (length (u_nfkc U (map fst ?cl))) (a, m)"
    unfolding cluster_view_def Let_def org by (simp add: comp_def map_replicate_const)
  have eq: "map snd (concat (map (cluster_view U) (clusters U (x # xs)))) =
      replicate (length (u_nfkc U (map fst ?cl))) (a, m) @ ?orgs"
    by (simp only: clusters.simps list.map concat.simps map_append cv)
  note ih = "2.IH" [OF m(2)]
  show ?case
  proof (intro conjI impI allI)
    show "origins_ok a b (map snd (concat (map (cluster_view U) (clusters U (x # xs)))))"
      unfolding eq using ih am by (intro origins_ok_replicate) auto
  next
    fix i assume vis: "nfkc_visible U" and i: "a \<le> i" "i < b"
    show "\<exists>(s, e) \<in> set (map snd (concat (map (cluster_view U) (clusters U (x # xs))))). s \<le> i \<and> i < e"
    proof (cases "i < m")
      case True
      have "u_nfkc U (map fst ?cl) \<noteq> []" using vis by (simp add: nfkc_visible_def)
      then have "(a, m) \<in> set (replicate (length (u_nfkc U (map fst ?cl))) (a, m) @ ?orgs)" by simp
      with True i(1) show ?thesis unfolding eq by (intro bexI [of _ "(a, m)"]) simp_all
    next
      case False
      then have "m \<le> i" by simp
      with conjunct2 [OF ih, rule_format, OF vis _ i(2)] obtain s e where "(s, e) \<in> set ?orgs" "s \<le> i" "i < e"
        by blast
      then show ?thesis unfolding eq by (intro bexI [of _ "(s, e)"]) simp_all
    qed
  qed
qed

subsection \<open>The view exists, and the fast path is a shortcut\<close>

definition view_ok :: "view \<Rightarrow> bool" where
  "view_ok v \<longleftrightarrow> length (v_origins v) = length (v_text v) \<and> v_folded v = fold_confusables (v_text v)
     \<and> origins_ok 0 (length (v_original v)) (v_origins v)"

lemma strip_loop_none:
  "\<forall>c \<in> set cs. \<not> is_ignorable U c \<Longrightarrow>
     strip_loop U n None cs = (zip cs (map (\<lambda>i. (i, Suc i)) [n..<n + length cs]), None)"
proof (induction cs arbitrary: n)
  case (Cons c cs)
  have "[n..<n + length (c # cs)] = n # [Suc n..<Suc n + length cs]"
    using upt_conv_Cons [of n "n + length (c # cs)"] by simp
  with Cons show ?case by (simp del: upt_Suc)
qed simp

lemma clusters_single:
  "\<forall>x \<in> set xs. u_combining U (fst x) = 0 \<Longrightarrow> clusters U xs = map (\<lambda>x. [x]) xs"
proof (induction xs)
  case (Cons x xs)
  have "takeWhile (\<lambda>y. u_combining U (fst y) \<noteq> 0) xs = []" "dropWhile (\<lambda>y. u_combining U (fst y) \<noteq> 0) xs = xs"
    using Cons.prems by (cases xs; simp)+
  with Cons show ?case by simp
qed simp

lemma identity_origins_map: "identity_origins n = map (\<lambda>i. (i, Suc i)) [0..<n]"
proof -
  have "[1..<Suc n] = map Suc [0..<n]" by (simp add: map_Suc_upt)
  then show ?thesis by (simp add: identity_origins_def zip_map2 zip_same_conv_map)
qed

lemma fold_ascii: "\<forall>c \<in> set s. c < 128 \<Longrightarrow> fold_confusables s = s"
  by (simp add: fold_confusables_def fold_cp_ascii map_idI)

lemma slow_view_ascii:
  assumes "list_all (identity_ascii U) s" and "\<forall>c < 128. u_combining U c = 0" and "s \<noteq> []"
  shows "slow_view U s = mk_view s s s (identity_origins (length s))"
proof -
  let ?orgs = "map (\<lambda>i. (i, Suc i)) [0..<length s]"
  have id: "\<forall>c \<in> set s. identity_ascii U c" using assms(1) by (simp add: list_all_iff)
  have strip: "strip_ignorables U s = zip s ?orgs"
    using strip_loop_none [of s U 0] id by (simp add: strip_ignorables_def identity_ascii_def)
  have "\<forall>x \<in> set (zip s ?orgs). u_combining U (fst x) = 0"
    using id assms(2) by (auto simp: identity_ascii_def dest: set_zip_leftD)
  from clusters_single [OF this]
  have cl: "clusters U (zip s ?orgs) = map (\<lambda>x. [x]) (zip s ?orgs)" .
  have "cluster_view U [x] = [x]" if "x \<in> set (zip s ?orgs)" for x
  proof -
    have "fst x \<in> set s" using that set_zip_leftD [of "fst x" "snd x"] by simp
    with id show ?thesis by (simp add: cluster_view_def identity_ascii_def)
  qed
  then have "concat (map (cluster_view U) (clusters U (zip s ?orgs))) = zip s ?orgs"
    unfolding cl map_map by (simp add: comp_def cong: map_cong)
  moreover have "zip s ?orgs \<noteq> []" using assms(3) by (cases s) auto
  ultimately show ?thesis
    using fold_ascii [of s] id by (simp add: slow_view_def strip identity_origins_map identity_ascii_def)
qed

lemma origins_ok_identity: "origins_ok 0 n (identity_origins n)"
proof -
  have "sorted_wrt (\<lambda>x y. fst x \<le> fst y \<and> snd x \<le> snd y) (map (\<lambda>i. (i, Suc i)) [a..<n])" for a
    by (induction "n - a" arbitrary: a) (auto simp: sorted_wrt_map sorted_wrt_iff_nth_less)
  then show ?thesis by (auto simp: origins_ok_def identity_origins_map)
qed

lemma slow_view_ok: "\<exists>v. slow_view U s = Inr v \<and> v_original v = s \<and> view_ok v"
proof (cases "strip_ignorables U s = []")
  case True
  then show ?thesis
    by (simp add: slow_view_def mk_view_def view_ok_def origins_ok_def fold_confusables_def)
next
  case False
  from tiles_clusters [OF tiles_strip [OF False], of U] False show ?thesis
    by (simp add: slow_view_def mk_view_def view_ok_def Let_def)
qed

lemma build_view_ok: "\<exists>v. build_detection_view U s = Inr v \<and> v_original v = s \<and> view_ok v"
proof -
  have "fold_confusables s = s" if "list_all (identity_ascii U) s"
    using that by (intro fold_ascii) (simp add: list_all_iff identity_ascii_def)
  moreover have "length (identity_origins n) = n" for n by (simp add: identity_origins_map)
  ultimately show ?thesis
    using slow_view_ok [of U s] origins_ok_identity [of "length s"]
    by (cases "s = []"; cases "list_all (identity_ascii U) s")
      (simp_all add: build_detection_view_def mk_view_def view_ok_def origins_ok_def fold_confusables_def)
qed

lemma map_span_ok:
  assumes "view_ok v" "i < j" "j \<le> length (v_text v)"
  shows "map_span v i j = Inr (fst (v_origins v ! i), snd (v_origins v ! (j - 1)))"
    and "fst (v_origins v ! i) < snd (v_origins v ! (j - 1))"
    and "snd (v_origins v ! (j - 1)) \<le> length (v_original v)"
    and "\<forall>k. i \<le> k \<longrightarrow> k < j \<longrightarrow> fst (v_origins v ! i) \<le> fst (v_origins v ! k) \<and> snd (v_origins v ! k) \<le> snd (v_origins v ! (j - 1))"
proof -
  let ?o = "v_origins v"
  have len: "length ?o = length (v_text v)"
    and srt: "sorted_wrt (\<lambda>x y. fst x \<le> fst y \<and> snd x \<le> snd y) ?o"
    and rng: "\<forall>x \<in> set ?o. fst x < snd x \<and> snd x \<le> length (v_original v)"
    using assms(1) by (auto simp: view_ok_def origins_ok_def)
  have mono: "fst (?o ! k) \<le> fst (?o ! l) \<and> snd (?o ! k) \<le> snd (?o ! l)" if "k \<le> l" "l < length ?o" for k l
    using srt that by (cases "k = l") (simp_all add: sorted_wrt_iff_nth_less)
  have last: "j - 1 < length ?o" using assms(2,3) len by simp
  then have r: "fst (?o ! (j - 1)) < snd (?o ! (j - 1)) \<and> snd (?o ! (j - 1)) \<le> length (v_original v)"
    using rng by simp
  have m: "fst (?o ! i) \<le> fst (?o ! (j - 1))" using mono [of i "j - 1"] assms(2) last by simp
  have "Max (set (map (\<lambda>k. snd (?o ! k)) [i..<j])) = snd (?o ! (j - 1))"
  proof (rule Max_eqI)
    fix y assume "y \<in> set (map (\<lambda>k. snd (?o ! k)) [i..<j])"
    then obtain k where "k < j" "y = snd (?o ! k)" by auto
    with mono [of k "j - 1"] last show "y \<le> snd (?o ! (j - 1))" by simp
  qed (use assms(2) in auto)
  then show "map_span v i j = Inr (fst (?o ! i), snd (?o ! (j - 1)))"
    using assms(2,3) r m by (simp add: map_span_def Let_def)
  show "fst (?o ! i) < snd (?o ! (j - 1))" "snd (?o ! (j - 1)) \<le> length (v_original v)" using r m by auto
  show "\<forall>k. i \<le> k \<longrightarrow> k < j \<longrightarrow> fst (?o ! i) \<le> fst (?o ! k) \<and> snd (?o ! k) \<le> snd (?o ! (j - 1))"
    using mono last by auto
qed

subsection \<open>Properties\<close>

text \<open>C38: Building a view never raises, whatever the text; the folded text shares every index with it.\<close>

theorem build_view_total:
  "\<exists>v. build_detection_view U s = Inr v \<and> v_original v = s \<and> length (v_origins v) = length (v_text v)
     \<and> v_folded v = fold_confusables (v_text v)"
  using build_view_ok [of U s] by (auto simp: view_ok_def)

text \<open>
  C35: Totality: unless every character of a text is ignorable, each of its indices lies in the origin
  range of some view character, so nothing is forwarded that detection could not see.  Normalisation is
  assumed never to erase a non-empty text.
\<close>

theorem view_covers_original:
  assumes "build_detection_view U s = Inr v" and "nfkc_visible U" and "strip_ignorables U s \<noteq> []" and "i < length s"
  shows "\<exists>(a, b) \<in> set (v_origins v). a \<le> i \<and> i < b"
proof (cases "list_all (identity_ascii U) s")
  case True
  moreover have "s \<noteq> []" using assms(4) by auto
  ultimately have "v_origins v = identity_origins (length s)"
    using assms(1) by (auto simp: build_detection_view_def mk_view_def split: if_splits)
  moreover have "(i, Suc i) \<in> set (identity_origins (length s))"
    using assms(4) by (simp add: identity_origins_map)
  ultimately show ?thesis by force
next
  case False
  moreover have "s \<noteq> []" using assms(4) by auto
  ultimately have "v_origins v = map snd (concat (map (cluster_view U) (clusters U (strip_ignorables U s))))"
    using assms(1,3) by (auto simp: build_detection_view_def slow_view_def mk_view_def Let_def split: if_splits)
  with tiles_clusters [OF tiles_strip [OF assms(3)], of U] assms(2,4) show ?thesis by simp
qed

theorem view_covers_original_witness:
  "\<exists>v. build_detection_view ascii_ucd (lit ''a'' @ [8203, 98]) = Inr v \<and> (\<exists>(a, b) \<in> set (v_origins v). a \<le> 1 \<and> 1 < b)"
proof -
  obtain v where v: "build_detection_view ascii_ucd (lit ''a'' @ [8203, 98]) = Inr v"
    using build_view_ok by blast
  have "\<exists>(a, b) \<in> set (v_origins v). a \<le> 1 \<and> 1 < b"
    by (rule view_covers_original [OF v])
      (simp add: nfkc_visible_def ascii_ucd_def, simp add: strip_ignorables_def lit_def is_ignorable_def ascii_ucd_def
        ascii_control_def of_char_def, simp add: lit_def)
  with v show ?thesis by blast
qed

text \<open>
  A detection maps back: every non-empty range of the view maps to a non-empty range of the
  original that includes the origin of each of its characters, dropped invisible ones too.
\<close>

theorem map_span_total:
  assumes "build_detection_view U s = Inr v" and "i < j" and "j \<le> length (v_text v)"
  shows "\<exists>a b. map_span v i j = Inr (a, b) \<and> a < b \<and> b \<le> length s
     \<and> (\<forall>k. i \<le> k \<longrightarrow> k < j \<longrightarrow> a \<le> fst (v_origins v ! k) \<and> snd (v_origins v ! k) \<le> b)"
proof -
  from assms(1) build_view_ok [of U s] have v: "view_ok v" "v_original v = s" by auto
  from map_span_ok [OF v(1) assms(2,3)] v(2) show ?thesis
    by (intro exI [of _ "fst (v_origins v ! i)"] exI [of _ "snd (v_origins v ! (j - 1))"] conjI) simp_all
qed

theorem map_span_total_witness:
  "\<exists>v a b. build_detection_view ascii_ucd (lit ''ab'') = Inr v \<and> map_span v 0 2 = Inr (a, b)"
proof -
  obtain v where v: "build_detection_view ascii_ucd (lit ''ab'') = Inr v" using build_view_ok by blast
  have "list_all (identity_ascii ascii_ucd) (lit ''ab'')"
    by (simp add: lit_def identity_ascii_def is_ignorable_def ascii_ucd_def ascii_control_def not_confusable_ascii)
  with v have "length (v_text v) = 2"
    by (auto simp: build_detection_view_def mk_view_def lit_def split: if_splits)
  with map_span_total [OF v, of 0 2] v show ?thesis by auto
qed

text \<open>
  The fast path is a shortcut through the work, not around it: it returns the very view the slow
  path computes, whenever ASCII characters do not combine.
\<close>

theorem fast_path_agrees:
  assumes "\<forall>c < 128. u_combining U c = 0"
  shows "build_detection_view U s = slow_view U s"
proof (cases "s = []")
  case True
  then show ?thesis
    by (simp add: build_detection_view_def slow_view_def strip_ignorables_def)
next
  case False
  with slow_view_ascii [OF _ assms] show ?thesis by (simp add: build_detection_view_def)
qed

theorem fast_path_agrees_witness:
  "build_detection_view ascii_ucd (lit ''ok 12'') = slow_view ascii_ucd (lit ''ok 12'')"
  by (rule fast_path_agrees) (simp add: ascii_ucd_def)

end
