(* ===== verification/Screening.thy ===== *)
theory Screening
  imports View
begin

text \<open>
  Screening for deceptive encodings, \<^verbatim>\<open>gateway/normalization/screening.py\<close>: bidirectional controls,
  padding with invisible characters, confusables and words of mixed script.  The comparison of the
  invisible share with 0.10 is made on integers; for texts below 2^50 characters the float division
  of the code decides the same.
\<close>

definition BIDI_CONTROLS :: "cp list" where
  "BIDI_CONTROLS = [8234, 8235, 8236, 8237, 8238, 8294, 8295, 8296, 8297, 1564, 8206, 8207]"

definition RATIO_MIN_LENGTH :: nat where "RATIO_MIN_LENGTH = 12"

definition REASON_BIDI :: string where "REASON_BIDI = ''suspicious_encoding_bidi''"
definition REASON_INVISIBLE :: string where "REASON_INVISIBLE = ''suspicious_encoding_invisible''"
definition REASON_MIXED_SCRIPT :: string where "REASON_MIXED_SCRIPT = ''suspicious_encoding_mixed_script''"
definition REASON_CONFUSABLE :: string where "REASON_CONFUSABLE = ''suspicious_encoding_confusable''"

definition SCRIPT_PREFIXES :: "string list" where
  "SCRIPT_PREFIXES = [''LATIN'', ''CYRILLIC'', ''GREEK'', ''ARABIC'', ''HEBREW'', ''ARMENIAN'', ''GEORGIAN'',
     ''HAN'', ''HIRAGANA'', ''KATAKANA'', ''HANGUL'', ''THAI'', ''DEVANAGARI'']"

record screening =
  sc_blocking :: "string option"
  sc_blocking_count :: nat
  sc_signals :: "(string \<times> nat) list"

definition raise_if_blocking :: "screening \<Rightarrow> unit res" where
  "raise_if_blocking sc =
     (case sc_blocking sc of Some r \<Rightarrow> Inl (SuspiciousEncodingError r (sc_blocking_count sc)) | None \<Rightarrow> Inr ())"

definition script_of :: "ucd \<Rightarrow> cp \<Rightarrow> ustr option" where
  "script_of U c =
     (if \<not> u_isalpha U c then None
      else case u_name U c of
        None \<Rightarrow> None
      | Some name \<Rightarrow>
          (case find (\<lambda>p. starts_with name (lit p)) SCRIPT_PREFIXES of
             Some p \<Rightarrow> Some (lit p)
           | None \<Rightarrow> Some (takeWhile (\<lambda>c. c \<noteq> 32) name)))"

fun words_loop :: "ucd \<Rightarrow> ustr option \<Rightarrow> ustr \<Rightarrow> ustr list" where
  \<comment> \<open>maximal runs of alphanumeric characters; the second argument is the run being read\<close>
  "words_loop U None [] = []"
| "words_loop U (Some w) [] = [w]"
| "words_loop U None (c # cs) = (if u_isalnum U c then words_loop U (Some [c]) cs else words_loop U None cs)"
| "words_loop U (Some w) (c # cs) =
     (if u_isalnum U c then words_loop U (Some (w @ [c])) cs else w # words_loop U None cs)"

definition words_of :: "ucd \<Rightarrow> ustr \<Rightarrow> ustr list" where
  "words_of U s = words_loop U None s"

definition word_scripts :: "ucd \<Rightarrow> ustr \<Rightarrow> ustr list" where
  "word_scripts U w = remdups (List.map_filter (script_of U) w)"

definition mixed_script_words :: "ucd \<Rightarrow> ustr \<Rightarrow> nat" where
  "mixed_script_words U s = length (filter (\<lambda>w. 1 < length (word_scripts U w)) (words_of U s))"

definition count_bidi :: "ustr \<Rightarrow> nat" where
  "count_bidi s = length (filter (\<lambda>c. c \<in> set BIDI_CONTROLS) s)"

definition count_invisible :: "ucd \<Rightarrow> ustr \<Rightarrow> nat" where
  "count_invisible U s = length (filter (\<lambda>c. u_category U c \<in> {''Cf'', ''Cc''} \<and> c \<notin> {9, 10, 13}) s)"

definition count_confusable :: "ustr \<Rightarrow> nat" where
  "count_confusable s = length (filter is_confusable s)"

definition too_invisible :: "ucd \<Rightarrow> ustr \<Rightarrow> bool" where
  "too_invisible U s \<longleftrightarrow> RATIO_MIN_LENGTH \<le> length s \<and> length s < 10 * count_invisible U s"

definition screen_text :: "ucd \<Rightarrow> bool \<Rightarrow> ustr \<Rightarrow> screening" where
  "screen_text U block_mixed_script s =
     (let bidi = count_bidi s; invisible = count_invisible U s;
          confusable = count_confusable s; mixed = mixed_script_words U s;
          sig1 = (if invisible \<noteq> 0 then [(REASON_INVISIBLE, invisible)] else [])
      in if bidi \<noteq> 0
         then \<lparr>sc_blocking = Some REASON_BIDI, sc_blocking_count = bidi, sc_signals = [(REASON_BIDI, bidi)]\<rparr>
         else if invisible \<noteq> 0 \<and> too_invisible U s
         then \<lparr>sc_blocking = Some REASON_INVISIBLE, sc_blocking_count = invisible, sc_signals = sig1\<rparr>
         else (let sig2 = sig1 @ (if confusable \<noteq> 0 then [(REASON_CONFUSABLE, confusable)] else [])
               in if mixed = 0
                  then \<lparr>sc_blocking = None, sc_blocking_count = 0, sc_signals = sig2\<rparr>
                  else \<lparr>sc_blocking = (if block_mixed_script then Some REASON_MIXED_SCRIPT else None),
                        sc_blocking_count = (if block_mixed_script then mixed else 0),
                        sc_signals = sig2 @ [(REASON_MIXED_SCRIPT, mixed)]\<rparr>))"

lemma length_zero_set: "length (filter P s) = 0 \<longleftrightarrow> (\<forall>c \<in> set s. \<not> P c)"
  by (auto simp: filter_empty_conv)

lemma script_latin:
  assumes "u_isalpha U c \<Longrightarrow> \<exists>r. u_name U c = Some (lit ''LATIN'' @ r)"
  shows "script_of U c = None \<or> script_of U c = Some (lit ''LATIN'')"
proof (cases "u_isalpha U c")
  case True
  with assms obtain r where "u_name U c = Some (lit ''LATIN'' @ r)" by blast
  then show ?thesis
    by (simp add: script_of_def SCRIPT_PREFIXES_def starts_with_def)
qed (simp add: script_of_def)

lemma words_loop_chars:
  "w \<in> set (words_loop U cur s) \<Longrightarrow> c \<in> set w \<Longrightarrow> c \<in> set s \<or> (\<exists>r. cur = Some r \<and> c \<in> set r)"
  by (induction U cur s rule: words_loop.induct) (auto split: if_splits)

subsection \<open>Properties\<close>

text \<open>
  A request is refused for its encoding exactly when the text holds a bidirectional control, or is at
  least twelve characters long with more than a tenth of them invisible, or -- where the operator asks
  for it -- has a word of mixed script; the error carries the count of offending characters or words.
\<close>

theorem screening_exact:
  "raise_if_blocking (screen_text U b s) =
     (if \<exists>c \<in> set s. c \<in> set BIDI_CONTROLS then Inl (SuspiciousEncodingError REASON_BIDI (count_bidi s))
      else if 12 \<le> length s \<and> length s < 10 * count_invisible U s
        then Inl (SuspiciousEncodingError REASON_INVISIBLE (count_invisible U s))
      else if b \<and> mixed_script_words U s \<noteq> 0
        then Inl (SuspiciousEncodingError REASON_MIXED_SCRIPT (mixed_script_words U s))
      else Inr ())"
proof -
  have "count_bidi s \<noteq> 0 \<longleftrightarrow> (\<exists>c \<in> set s. c \<in> set BIDI_CONTROLS)"
    unfolding count_bidi_def length_zero_set by blast
  then show ?thesis
    by (auto simp: screen_text_def raise_if_blocking_def Let_def too_invisible_def RATIO_MIN_LENGTH_def)
qed

text \<open>
  Text whose letters are all Latin ones, diacritics included, never counts a word of mixed script.
\<close>

lemma latin_is_not_mixed:
  assumes "\<And>c. c \<in> set s \<Longrightarrow> u_isalpha U c \<Longrightarrow> \<exists>r. u_name U c = Some (lit ''LATIN'' @ r)"
  shows "mixed_script_words U s = 0"
proof -
  have "length (word_scripts U w) \<le> 1" if w: "w \<in> set (words_of U s)" for w
  proof -
    have "set (word_scripts U w) \<subseteq> {lit ''LATIN''}"
    proof
      fix x assume "x \<in> set (word_scripts U w)"
      then obtain c where c: "c \<in> set w" "script_of U c = Some x"
        by (auto simp: word_scripts_def List.map_filter_def split: option.splits)
      then have "c \<in> set s" using words_loop_chars [of w U None s c] w by (simp add: words_of_def)
      from script_latin [of U c] assms [OF this] c(2) show "x \<in> {lit ''LATIN''}" by auto
    qed
    from card_mono [OF _ this] show ?thesis
      by (simp add: word_scripts_def List.card_set)
  qed
  then show ?thesis
    by (auto simp: mixed_script_words_def filter_empty_conv not_less)
qed

text \<open>Printable ASCII text passes without a signal.\<close>

definition printable :: "ustr \<Rightarrow> bool" where
  "printable s \<longleftrightarrow> list_all (\<lambda>c. 32 \<le> c \<and> c < 127) s"

lemma screen_printable:
  assumes "printable s"
  shows "screen_text ascii_ucd b s = \<lparr>sc_blocking = None, sc_blocking_count = 0, sc_signals = []\<rparr>"
proof -
  have s: "\<forall>c \<in> set s. 32 \<le> c \<and> c < 127" using assms by (simp add: printable_def list_all_iff)
  have "c \<notin> set BIDI_CONTROLS" if "c < 127" for c using that by (simp add: BIDI_CONTROLS_def)
  with s have "count_bidi s = 0" by (force simp: count_bidi_def filter_empty_conv)
  moreover have "count_confusable s = 0" using s not_confusable_ascii by (force simp: count_confusable_def filter_empty_conv)
  moreover have "count_invisible ascii_ucd s = 0"
    using s by (force simp: count_invisible_def filter_empty_conv ascii_ucd_def ascii_control_def split: if_splits)
  moreover have "mixed_script_words ascii_ucd s = 0"
    by (rule latin_is_not_mixed) (auto simp: ascii_ucd_def intro: exI [of _ "[]"])
  ultimately show ?thesis by (simp add: screen_text_def)
qed

lemma printable_identity:
  assumes "printable s" shows "list_all (identity_ascii ascii_ucd) s"
  using assms not_confusable_ascii
  by (force simp: printable_def list_all_iff identity_ascii_def is_ignorable_def ascii_ucd_def ascii_control_def split: if_splits)

lemma printable_view:
  assumes "printable s"
  shows "build_detection_view ascii_ucd s = Inr \<lparr>v_original = s, v_text = s, v_folded = s, v_origins = identity_origins (length s)\<rparr>"
proof -
  have "length (identity_origins n) = n" for n by (simp add: identity_origins_def del: upt_Suc)
  with printable_identity [OF assms] show ?thesis
    by (cases "s = []") (simp_all add: build_detection_view_def mk_view_def, simp add: identity_origins_def)
qed

end
