(* ===== verification/Schema.thy ===== *)
theory Schema
  imports PyVal
begin

text \<open>
  The chat-completions contract, \<^verbatim>\<open>gateway/api/schema.py\<close>: the fields that are accepted, those that are
  refused with a reason, and the order of the checks.  Model validation is pydantic's: the parameter
  \<open>validate\<close> gives the fields of the validated model or the first error, \<open>field_ok\<close> says whether a
  value validates for the type of one top-level field.
\<close>

definition UNINSPECTABLE_FIELDS :: "string list" where
  "UNINSPECTABLE_FIELDS = [''stop'', ''user'', ''tools'', ''functions'', ''tool_choice'', ''function_call'',
     ''response_format'', ''logit_bias'', ''metadata'', ''store'', ''stream_options'', ''prediction'',
     ''audio'', ''modalities'']"

definition UNINSPECTABLE_MESSAGE_FIELDS :: "string list" where
  "UNINSPECTABLE_MESSAGE_FIELDS =
     [''name'', ''tool_calls'', ''tool_call_id'', ''function_call'', ''refusal'', ''audio'']"

definition ACCEPTED_ROLES :: "string list" where
  "ACCEPTED_ROLES = [''system'', ''user'', ''assistant'', ''tool'']"

definition MAX_MESSAGES :: nat where "MAX_MESSAGES = 512"

text \<open>The fields of \<open>ChatCompletionRequest\<close> other than \<open>messages\<close>, and those of \<open>ChatMessage\<close>.\<close>

definition REQUEST_FIELDS :: "string list" where
  "REQUEST_FIELDS = [''model'', ''temperature'', ''top_p'', ''n'', ''max_tokens'', ''max_completion_tokens'',
     ''presence_penalty'', ''frequency_penalty'', ''seed'', ''logprobs'', ''top_logprobs'', ''service_tier'',
     ''parallel_tool_calls'', ''stream'']"

definition pd_has :: "pydict \<Rightarrow> string \<Rightarrow> bool" where
  "pd_has d k \<longleftrightarrow> pd_get d k \<noteq> None"

definition to_payload :: "pydict \<Rightarrow> pydict" where
  \<comment> \<open>\<open>model_dump(exclude_none=True)\<close> of the validated fields, without \<open>stream\<close>\<close>
  "to_payload dump = filter (\<lambda>(k, v). v \<noteq> PNone \<and> k \<noteq> PStr (lit ''stream'')) dump"

definition accepts_request_fields :: "(string \<Rightarrow> pyval \<Rightarrow> bool) \<Rightarrow> pydict \<Rightarrow> bool" where
  "accepts_request_fields field_ok payload \<longleftrightarrow>
     list_all (\<lambda>(name, value). name = PStr (lit ''messages'')
        \<or> (case find (\<lambda>f. name = PStr (lit f)) REQUEST_FIELDS of
             None \<Rightarrow> False | Some f \<Rightarrow> field_ok f value)) payload"

subsection \<open>Errors of validation\<close>

record pydantic_error =
  err_loc :: "pyval list"
  err_type :: string

definition loc_text :: "(pyval \<Rightarrow> ustr) \<Rightarrow> pydantic_error \<Rightarrow> ustr" where
  "loc_text show e = py_join (lit ''.'') (map (py_str show) (err_loc e))"

definition describe_pydantic_error :: "(pyval \<Rightarrow> ustr) \<Rightarrow> pydantic_error \<Rightarrow> exn" where
  "describe_pydantic_error show e =
     (let location = loc_text show e; kind = err_type e
      in if kind = ''extra_forbidden''
         then (let field = py_str show (last (err_loc e))
               in if 3 \<le> length (err_loc e) \<and> hd (err_loc e) = PStr (lit ''messages'')
                     \<and> field \<in> set (map lit UNINSPECTABLE_MESSAGE_FIELDS)
                  then RequestRejected 422 ''uninspectable_field''
                  else RequestRejected 422 ''unknown_field'')
         else if starts_with location (lit ''messages'') \<and> ends_with location (lit ''role'')
         then RequestRejected 422 ''unsupported_role''
         else if starts_with location (lit ''messages'') \<and> ends_with location (lit ''content'')
         then RequestRejected 422 ''inspection_failed''
         else if starts_with location (lit ''messages.'') \<and> kind = ''model_type''
         then RequestRejected 422 ''invalid_message''
         else if location = lit ''messages'' then RequestRejected 422 ''invalid_message''
         else RequestRejected 422 ''invalid_request'')"

subsection \<open>The checks in order\<close>

definition message_refusal :: "pyval \<Rightarrow> exn option" where
  \<comment> \<open>one turn of the loop over the messages\<close>
  "message_refusal m =
     (case m of
        PDict d \<Rightarrow>
          if list_ex (pd_has d) UNINSPECTABLE_MESSAGE_FIELDS then Some (RequestRejected 422 ''uninspectable_field'')
          else (case pd_get_or d ''role'' PNone of
                  PStr r \<Rightarrow> if r \<in> set (map lit ACCEPTED_ROLES) then None
                            else Some (RequestRejected 422 ''unsupported_role'')
                | _ \<Rightarrow> None)
      | _ \<Rightarrow> None)"

fun first_refusal :: "pyval list \<Rightarrow> exn option" where
  "first_refusal [] = None"
| "first_refusal (m # ms) = (case message_refusal m of Some e \<Rightarrow> Some e | None \<Rightarrow> first_refusal ms)"

definition parse_chat_completion_request :: "(pyval \<Rightarrow> ustr) \<Rightarrow> (pydict \<Rightarrow> pydantic_error + pydict) \<Rightarrow> pyval \<Rightarrow> pydict res" where
  "parse_chat_completion_request show validate body =
     (case body of
        PDict d \<Rightarrow>
          if truthy (pd_get_or d ''stream'' PNone) then Inl (RequestRejected 400 ''streaming_unsupported'')
          else if list_ex (pd_has d) UNINSPECTABLE_FIELDS then Inl (RequestRejected 422 ''uninspectable_field'')
          else (case (case pd_get_or d ''messages'' PNone of PList ms \<Rightarrow> first_refusal ms | _ \<Rightarrow> None) of
                  Some e \<Rightarrow> Inl e
                | None \<Rightarrow> (case validate d of
                             Inl err \<Rightarrow> Inl (describe_pydantic_error show err)
                           | Inr dump \<Rightarrow> Inr dump))
      | _ \<Rightarrow> Inl (RequestRejected 400 ''invalid_request''))"

text \<open>Every refusal is a request error of the documented two statuses.\<close>

lemma parse_refusals:
  assumes "parse_chat_completion_request show validate body = Inl e"
  shows "\<exists>status code. e = RequestRejected status code \<and> status \<in> {400, 422}"
proof -
  have r: "first_refusal ms = Some x \<Longrightarrow> \<exists>code. x = RequestRejected 422 code" for ms x
    by (induction ms) (auto simp: message_refusal_def split: pyval.splits if_splits option.splits)
  have d: "\<exists>code. describe_pydantic_error show err = RequestRejected 422 code" for err
    by (simp add: describe_pydantic_error_def Let_def)
  show ?thesis
  proof (cases body)
    case (PDict b)
    let ?r = "case pd_get_or b ''messages'' PNone of PList ms \<Rightarrow> first_refusal ms | _ \<Rightarrow> None"
    have r': "?r = Some x \<Longrightarrow> \<exists>code. x = RequestRejected 422 code" for x
      by (cases "pd_get_or b ''messages'' PNone") (simp_all add: r)
    from assms PDict show ?thesis
      using d r' by (cases ?r; cases "validate b")
        (auto simp: parse_chat_completion_request_def split: if_splits, metis)
  qed (use assms in \<open>auto simp: parse_chat_completion_request_def\<close>)
qed

lemma parsed_never_streams:
  assumes "parse_chat_completion_request show validate body = Inr dump"
  shows "\<exists>d. body = PDict d \<and> \<not> truthy (pd_get_or d ''stream'' PNone)
     \<and> (\<forall>f \<in> set UNINSPECTABLE_FIELDS. \<not> pd_has d f) \<and> validate d = Inr dump"
  using assms by (auto simp: parse_chat_completion_request_def list_ex_iff
      split: pyval.splits if_splits option.splits sum.splits)

end
