(* ===== verification/Preparation.thy ===== *)
theory Preparation
  imports Transform View Screening Policy Detectors Schema
begin

text \<open>
  Inspection and preparation of a request, \<^verbatim>\<open>gateway/inspection/preparation.py\<close>.  Every failure of a
  detector, of the mapping back or of the shape of the request is the error \<open>DetectionError\<close>, raised
  before anything is forwarded.  \<open>clk\<close> and \<open>nonces\<close> give the clock and the random nonces of the vault
  writes of each message.
\<close>

definition INSPECTED_INPUT_ROLES :: "string list" where
  "INSPECTED_INPUT_ROLES = [''system'', ''user'', ''assistant'', ''tool'']"

definition INSPECTED_MESSAGE_FIELDS :: "string list" where
  "INSPECTED_MESSAGE_FIELDS = [''role'', ''content'']"

record inspected_message =
  im_index :: nat
  im_text :: ustr
  im_spans :: "span list"
  im_signals :: "(string \<times> nat) list"

subsection \<open>One text\<close>

definition or_detection_error :: "'a res \<Rightarrow> 'a res" where
  \<comment> \<open>\<open>except Exception as exc: raise DetectionError(...) from exc\<close>\<close>
  "or_detection_error r = (case r of Inl _ \<Rightarrow> Inl DetectionError | Inr x \<Rightarrow> Inr x)"

definition detect_view :: "detector list \<Rightarrow> view \<Rightarrow> span list res" where
  "detect_view ds v =
     rbind (rmap (\<lambda>d. or_detection_error (dt_detect d (if dt_uses_folded d then v_folded v else v_text v))) ds)
       (\<lambda>sss. Inr (concat sss))"

definition map_one :: "ucd \<Rightarrow> view \<Rightarrow> span \<Rightarrow> span res" where
  "map_one U v sp =
     rbind (or_detection_error (map_span v (sp_start sp) (sp_end sp))) (\<lambda>(s, e).
     rbind (verify_round_trip U v (sp_start sp) (sp_end sp)) (\<lambda>ok.
     if \<not> ok then Inl DetectionError
     else mk_span (int s) (int e) (sp_type sp) (pyslice (v_original v) s e) (sp_score sp) (sp_detector sp)))"

definition map_to_original :: "ucd \<Rightarrow> view \<Rightarrow> span list \<Rightarrow> span list res" where
  "map_to_original U v view_spans =
     rbind (rmap (map_one U v) view_spans) (\<lambda>mapped. Inr (resolve_conflicts mapped))"

definition inspect_text :: "ucd \<Rightarrow> detector list \<Rightarrow> bool \<Rightarrow> ustr \<Rightarrow> (span list \<times> (string \<times> nat) list) res" where
  "inspect_text U ds block_mixed content =
     (let sc = screen_text U block_mixed content in
      rbind (raise_if_blocking sc) (\<lambda>_.
      rbind (build_detection_view U content) (\<lambda>v.
      rbind (detect_view ds v) (\<lambda>found.
      rbind (map_to_original U v (resolve_conflicts found)) (\<lambda>spans.
      Inr (spans, sc_signals sc))))))"

subsection \<open>The whole payload\<close>

record inspect_config =
  ic_ucd :: ucd
  ic_detectors :: "detector list"
  ic_max_chars :: int
  ic_block_mixed :: bool
  ic_field_ok :: "string \<Rightarrow> pyval \<Rightarrow> bool"     \<comment> \<open>pydantic's verdict on a top-level field\<close>

definition message_text :: "pyval \<Rightarrow> ustr res" where
  \<comment> \<open>the checks of one message up to its content\<close>
  "message_text m =
     (case m of
        PDict d \<Rightarrow>
          if \<not> fst ` set d \<subseteq> set (map (\<lambda>f. PStr (lit f)) INSPECTED_MESSAGE_FIELDS) then Inl DetectionError
          else if pd_get_or d ''role'' PNone \<notin> set (map (\<lambda>r. PStr (lit r)) INSPECTED_INPUT_ROLES) then Inl DetectionError
          else (case pd_get_or d ''content'' PNone of PStr s \<Rightarrow> Inr s | _ \<Rightarrow> Inl DetectionError)
      | _ \<Rightarrow> Inl DetectionError)"

fun inspect_loop :: "inspect_config \<Rightarrow> nat \<Rightarrow> int \<Rightarrow> pyval list \<Rightarrow> inspected_message list res" where
  \<comment> \<open>from the message at \<open>index\<close> on, with \<open>chars\<close> characters read before it\<close>
  "inspect_loop c index chars [] = Inr []"
| "inspect_loop c index chars (m # ms) =
     rbind (message_text m) (\<lambda>content.
     let chars' = chars + int (length content) in
     if ic_max_chars c < chars' then Inl DetectionError
     else rbind (inspect_text (ic_ucd c) (ic_detectors c) (ic_block_mixed c) content) (\<lambda>(spans, signals).
          rbind (inspect_loop c (Suc index) chars' ms) (\<lambda>rest.
          Inr (\<lparr>im_index = index, im_text = content, im_spans = spans, im_signals = signals\<rparr> # rest))))"

definition inspect_payload :: "inspect_config \<Rightarrow> pydict \<Rightarrow> (inspection \<times> inspected_message list) res" where
  "inspect_payload c payload =
     (if \<not> accepts_request_fields (ic_field_ok c) payload then Inl DetectionError
      else case py_or (pd_get_or payload ''messages'' PNone) (PList []) of
             PList ms \<Rightarrow>
               if ms = [] then Inl DetectionError
               else rbind (inspect_loop c 0 0 ms) (\<lambda>inspected.
                    Inr (\<lparr>i_spans = concat (map im_spans inspected)\<rparr>, inspected))
           | _ \<Rightarrow> Inl DetectionError)"

subsection \<open>The outbound payload\<close>

record 'b gateway =
  gw_env :: vault_env
  gw_backend :: "'b backend_ops"
  gw_minter :: minter

text \<open>
  The vault writes of message \<open>i\<close> read the clock \<open>rc_put i\<close> and the nonces \<open>rc_nonce i\<close>; the reads for
  choice \<open>i\<close> of the response read the clock \<open>rc_get i\<close>.
\<close>

record request_clock =
  rc_put :: "nat \<Rightarrow> nat \<Rightarrow> rat"
  rc_nonce :: "nat \<Rightarrow> nat \<Rightarrow> bytes"
  rc_get :: "nat \<Rightarrow> clock"

fun masked_messages :: "'b gateway \<Rightarrow> ucd \<Rightarrow> request_clock \<Rightarrow> req_context \<Rightarrow> bool \<Rightarrow> inspected_message list
    \<Rightarrow> nat \<Rightarrow> provenance \<Rightarrow> 'b vault \<Rightarrow> (ustr list \<times> nat) res \<times> provenance \<times> 'b vault" where
  \<comment> \<open>the new contents in order, and how many spans were replaced\<close>
  "masked_messages G U rc ctx should [] cnt prov v = (Inr ([], cnt), prov, v)"
| "masked_messages G U rc ctx should (m # ms) cnt prov v =
     (if should
      then case transform (gw_env G) (gw_backend G) U (gw_minter G) (rc_put rc (im_index m)) (rc_nonce rc (im_index m))
                  ctx (im_text m) (im_spans m) prov v of
             (Inl e, prov', v') \<Rightarrow> (Inl e, prov', v')
           | (Inr r, prov', v') \<Rightarrow>
               (case masked_messages G U rc ctx should ms (cnt + tr_replaced r) prov' v' of
                  (Inl e, p) \<Rightarrow> (Inl e, p)
                | (Inr (ts, n), p) \<Rightarrow> (Inr (tr_text r # ts, n), p))
      else case masked_messages G U rc ctx should ms cnt prov v of
             (Inl e, p) \<Rightarrow> (Inl e, p)
           | (Inr (ts, n), p) \<Rightarrow> (Inr (im_text m # ts, n), p))"

fun set_content :: "pyval \<Rightarrow> ustr \<Rightarrow> pyval" where
  \<comment> \<open>\<open>outbound["messages"][i]["content"] = text\<close> on the copied dictionary\<close>
  "set_content (PDict d) t = PDict (pd_set ''content'' (PStr t) d)"
| "set_content v t = v"

definition outbound_payload :: "pydict \<Rightarrow> ustr list \<Rightarrow> pydict" where
  "outbound_payload payload texts =
     (case pd_get payload ''messages'' of
        Some (PList ms) \<Rightarrow> pd_set ''messages'' (PList (map2 set_content ms texts)) payload
      | _ \<Rightarrow> payload)"

definition build_outbound :: "'b gateway \<Rightarrow> ucd \<Rightarrow> request_clock \<Rightarrow> req_context \<Rightarrow> pydict \<Rightarrow> inspected_message list
    \<Rightarrow> bool \<Rightarrow> provenance \<Rightarrow> 'b vault \<Rightarrow> (pydict \<times> nat) res \<times> provenance \<times> 'b vault" where
  "build_outbound G U rc ctx payload inspected should prov v =
     (case masked_messages G U rc ctx should inspected 0 prov v of
        (Inl e, p) \<Rightarrow> (Inl e, p)
      | (Inr (texts, n), p) \<Rightarrow> (Inr (outbound_payload payload texts, n), p))"

subsection \<open>Preparation\<close>

record prepared =
  pr_inspected :: "inspected_message list"
  pr_entity_counts :: "(ustr \<times> nat) list"
  pr_encoding_signals :: "(string \<times> nat) list"
  pr_base_decision :: decision
  pr_decision :: decision
  pr_outbound :: "pydict option"
  pr_provenance :: provenance
  pr_transformed :: nat

definition sum_signals :: "inspected_message list \<Rightarrow> (string \<times> nat) list" where
  "sum_signals ms = fold (\<lambda>(reason, n). dict_incr reason n) (concat (map im_signals ms)) []"

definition prepare :: "'b gateway \<Rightarrow> inspect_config \<Rightarrow> policy \<Rightarrow> request_clock \<Rightarrow> req_context \<Rightarrow> pydict
    \<Rightarrow> 'b vault \<Rightarrow> prepared res \<times> 'b vault" where
  "prepare G c p rc ctx payload v =
     (case inspect_payload c payload of
        Inl e \<Rightarrow> (Inl e, v)
      | Inr (i, inspected) \<Rightarrow>
          (case evaluate_with_base p ctx i of (base, d) \<Rightarrow>
             let result = (\<lambda>outbound prov n. \<lparr>pr_inspected = inspected, pr_entity_counts = entity_counts i,
                   pr_encoding_signals = sum_signals inspected, pr_base_decision = base, pr_decision = d,
                   pr_outbound = outbound, pr_provenance = prov, pr_transformed = n\<rparr>)
             in if d_action d = BLOCK then (Inr (result None prov_empty 0), v)
                else case build_outbound G (ic_ucd c) rc ctx payload inspected
                            (d_action d \<in> {TRANSFORM, ROUTE_LOCAL}) prov_empty v of
                       (Inl e, _, v') \<Rightarrow> (Inl e, v')
                     | (Inr (out, n), prov, v') \<Rightarrow> (Inr (result (Some out) prov n), v')))"

end
