(* ===== verification/AuditLog.thy ===== *)
theory AuditLog
  imports Domain Sha256
begin

text \<open>
  Audit events, \<^verbatim>\<open>gateway/audit/events.py\<close>: the closed record of an event, \<open>build_event\<close>, and the
  interface of a sink, the locale \<open>audit_sink\<close>, with the in-memory sink as its interpretation.  An
  event has no field for text of the request: what it records of the content are counts.
\<close>

definition AUDIT_SCHEMA_VERSION :: nat where "AUDIT_SCHEMA_VERSION = 3"

record audit_event =
  ae_schema_version :: nat
  ae_request_id :: ustr
  ae_tenant_id :: ustr
  ae_conversation_id :: ustr
  ae_api_key_id :: ustr
  ae_application :: ustr
  ae_timestamp :: rat
  ae_model_requested :: ustr
  ae_destination :: pyval
  ae_provider :: ustr
  ae_decision :: ustr
  ae_rule_name :: ustr
  ae_policy_version :: ustr
  ae_entity_counts :: "(ustr \<times> nat) list"
  ae_encoding_signals :: "(string \<times> nat) list"
  ae_entities_transformed :: nat
  ae_restoration_performed :: bool
  ae_tokens_restored :: nat
  ae_tokens_refused :: nat
  ae_tokens_refused_by_reason :: "(ustr \<times> nat) list"
  ae_raw_content_logged :: bool
  ae_latency_ms :: rat
  ae_error :: "ustr option"

text \<open>What a response's restoration adds to an event; the defaults are those of the keyword arguments.\<close>

record event_extras =
  ex_transformed :: nat
  ex_restored :: nat
  ex_refused :: nat
  ex_reasons :: "(ustr \<times> nat) list"
  ex_performed :: bool

definition no_extras :: event_extras where
  "no_extras = \<lparr>ex_transformed = 0, ex_restored = 0, ex_refused = 0, ex_reasons = [], ex_performed = False\<rparr>"

definition build_event :: "rat \<Rightarrow> req_context \<Rightarrow> ustr \<Rightarrow> decision \<Rightarrow> ustr \<Rightarrow> (ustr \<times> nat) list
    \<Rightarrow> (string \<times> nat) list \<Rightarrow> event_extras \<Rightarrow> rat \<Rightarrow> ustr option \<Rightarrow> audit_event" where
  "build_event now ctx model d provider counts signals x latency err =
     \<lparr>ae_schema_version = AUDIT_SCHEMA_VERSION,
      ae_request_id = request_id ctx, ae_tenant_id = tenant_id ctx, ae_conversation_id = conversation_id ctx,
      ae_api_key_id = api_key_id ctx, ae_application = application ctx, ae_timestamp = now,
      ae_model_requested = model, ae_destination = d_destination d, ae_provider = provider,
      ae_decision = action_value (d_action d), ae_rule_name = d_rule_name d, ae_policy_version = d_policy_version d,
      ae_entity_counts = counts, ae_encoding_signals = signals,
      ae_entities_transformed = ex_transformed x, ae_restoration_performed = ex_performed x,
      ae_tokens_restored = ex_restored x, ae_tokens_refused = ex_refused x,
      ae_tokens_refused_by_reason = ex_reasons x,
      ae_raw_content_logged = False, ae_latency_ms = latency, ae_error = err\<rparr>"

subsection \<open>Sinks\<close>

locale audit_sink =
  fixes sink_write :: "audit_event \<Rightarrow> 's \<Rightarrow> 's" and sink_log :: "'s \<Rightarrow> audit_event list"
  assumes write_appends: "sink_log (sink_write e s) = sink_log s @ [e]"
begin

lemma nothing_lost: "set (sink_log s) \<subseteq> set (sink_log (sink_write e s))"
  by (simp add: write_appends) blast

lemma one_more: "length (sink_log (sink_write e s)) = Suc (length (sink_log s))"
  by (simp add: write_appends)

end

record memory_sink =
  ms_events :: "audit_event list"

definition memory_write :: "audit_event \<Rightarrow> memory_sink \<Rightarrow> memory_sink" where
  "memory_write e s = s\<lparr>ms_events := ms_events s @ [e]\<rparr>"

interpretation memory: audit_sink memory_write ms_events
  by unfold_locales (simp add: memory_write_def)

end
