(* ===== verification/Pipeline.thy ===== *)
theory Pipeline
  imports Preparation RestorationFacts AuditLog
begin

text \<open>
  The security pipeline, \<^verbatim>\<open>gateway/inspection/pipeline.py\<close>: inspect, decide, mask, call the provider,
  restore, audit, as one function over the state of the process: the vault, the audit log, and what
  each provider has been sent.  A provider object is a number; \<open>chat\<close> is what calling it returns.
  \<open>MockProvider\<close> of \<^verbatim>\<open>gateway/routing/base.py\<close> is one such provider.
\<close>

definition RESTORABLE_RESPONSE_FIELDS :: "string list" where
  "RESTORABLE_RESPONSE_FIELDS = [''content'']"

subsection \<open>Restoring a response\<close>

text \<open>\<open>dict(v)\<close>: a mapping, or an iterable of pairs.\<close>

definition py_pair :: "pyval \<Rightarrow> (pyval \<times> pyval) res" where
  "py_pair v =
     (case v of
        PList [a, b] \<Rightarrow> if hashable a then Inr (a, b) else Inl TypeError
      | PStr [a, b] \<Rightarrow> Inr (PStr [a], PStr [b])
      | PDict [(a, _), (b, _)] \<Rightarrow> Inr (a, b)
      | PList _ \<Rightarrow> Inl ValueError | PStr _ \<Rightarrow> Inl ValueError | PDict _ \<Rightarrow> Inl ValueError
      | _ \<Rightarrow> Inl TypeError)"

fun py_elements :: "pyval \<Rightarrow> pyval list res" where
  \<comment> \<open>iteration\<close>
  "py_elements (PList xs) = Inr xs"
| "py_elements (PStr s) = Inr (map (\<lambda>c. PStr [c]) s)"
| "py_elements (PDict d) = Inr (map fst d)"
| "py_elements _ = Inl TypeError"

definition py_dict :: "pyval \<Rightarrow> pydict res" where
  "py_dict v =
     (case v of PDict d \<Rightarrow> Inr d
      | _ \<Rightarrow> rbind (py_elements v) (\<lambda>xs. rbind (rmap py_pair xs) (\<lambda>kvs.
               Inr (fold (\<lambda>(k, x). AList.update k x) kvs []))))"

record 'b restoring =
  re_outcome :: outcome
  re_left :: int
  re_vault :: "'b vault"

definition restore_choice :: "'b gateway \<Rightarrow> ucd \<Rightarrow> clock \<Rightarrow> req_context \<Rightarrow> provenance \<Rightarrow> pydict
    \<Rightarrow> 'b restoring \<Rightarrow> pydict res \<times> 'b restoring" where
  \<comment> \<open>one turn of the loop over the choices; \<open>content\<close> is the only restorable field\<close>
  "restore_choice G U clk ctx prov choice st =
     (case py_dict (py_or (pd_get_or choice ''message'' PNone) (PDict [])) of
        Inl e \<Rightarrow> (Inl e, st)
      | Inr message \<Rightarrow>
          (case pd_get_or message ''content'' PNone of
             PStr s \<Rightarrow>
               (case restore (gw_env G) (gw_backend G) U clk ctx s prov (re_left st) (re_vault st) of
                  (Inl e, v') \<Rightarrow> (Inl e, st\<lparr>re_vault := v'\<rparr>)
                | (Inr out, v') \<Rightarrow>
                    (Inr (pd_set ''message'' (PDict (pd_set ''content'' (PStr (ro_text out)) message)) choice),
                     \<lparr>re_outcome = outcome_merge (re_outcome st) out,
                      re_left = re_left st - int (length (utf8 (ro_text out))), re_vault = v'\<rparr>))
           | _ \<Rightarrow> (Inr (pd_set ''message'' (PDict message) choice), st)))"

fun restore_choices :: "'b gateway \<Rightarrow> ucd \<Rightarrow> (nat \<Rightarrow> clock) \<Rightarrow> nat \<Rightarrow> req_context \<Rightarrow> provenance \<Rightarrow> pydict list
    \<Rightarrow> 'b restoring \<Rightarrow> pydict list res \<times> 'b restoring" where
  "restore_choices G U clks i ctx prov [] st = (Inr [], st)"
| "restore_choices G U clks i ctx prov (c # cs) st =
     (case restore_choice G U (clks i) ctx prov c st of
        (Inl e, st') \<Rightarrow> (Inl e, st')
      | (Inr c', st') \<Rightarrow>
          (case restore_choices G U clks (Suc i) ctx prov cs st' of
             (Inl e, st'') \<Rightarrow> (Inl e, st'')
           | (Inr cs', st'') \<Rightarrow> (Inr (c' # cs'), st'')))"

definition restore_response :: "'b gateway \<Rightarrow> ucd \<Rightarrow> (nat \<Rightarrow> clock) \<Rightarrow> int \<Rightarrow> req_context \<Rightarrow> pydict \<Rightarrow> provenance
    \<Rightarrow> 'b vault \<Rightarrow> (pydict \<times> outcome) res \<times> 'b vault" where
  "restore_response G U clks budget ctx response prov v =
     (case rbind (py_elements (pd_get_or response ''choices'' (PList []))) (rmap py_dict) of
        Inl e \<Rightarrow> (Inl e, v)
      | Inr choices \<Rightarrow>
          (case restore_choices G U clks 0 ctx prov choices
                  \<lparr>re_outcome = outcome_init [], re_left = budget, re_vault = v\<rparr> of
             (Inl e, st) \<Rightarrow> (Inl e, re_vault st)
           | (Inr cs, st) \<Rightarrow>
               (Inr (pd_set ''choices'' (PList (map PDict cs)) response, re_outcome st), re_vault st)))"

subsection \<open>Processing a request\<close>

record pipeline_result =
  pp_response :: pydict
  pp_entity_counts :: "(ustr \<times> nat) list"
  pp_decision_action :: ustr
  pp_rule_name :: ustr
  pp_policy_version :: ustr
  pp_provider :: ustr
  pp_restoration :: outcome
  pp_latency_ms :: rat

type_synonym provider_ref = nat

record ('b, 's) pipeline =
  pl_gateway :: "'b gateway"
  pl_config :: inspect_config
  pl_policy :: policy
  pl_max_output :: int
  pl_providers :: "(pyval \<times> provider_ref) list"
  pl_provider_name :: "provider_ref \<Rightarrow> ustr"
  pl_chat :: "provider_ref \<Rightarrow> pydict \<Rightarrow> pydict res"
  pl_sink_write :: "audit_event \<Rightarrow> 's \<Rightarrow> 's"
  pl_local_routing :: local_routing
  pl_show :: "pyval \<Rightarrow> ustr"

record ('b, 's) world =
  w_vault :: "'b vault"
  w_sink :: 's
  w_sent :: "(provider_ref \<times> pydict) list"

record process_clock = request_clock +
  pc_wall :: rat       \<comment> \<open>\<open>time.time()\<close> of the event\<close>
  pc_elapsed :: rat    \<comment> \<open>milliseconds since the start\<close>

definition must_be_local :: "local_routing \<Rightarrow> (ustr \<times> nat) list \<Rightarrow> bool" where
  "must_be_local mode counts \<longleftrightarrow> mode = LR_ALL \<or> (mode = LR_DETECTED \<and> counts \<noteq> [])"

definition as_provider_error :: "exn \<Rightarrow> exn" where
  \<comment> \<open>\<open>except RestorationOutputTooLargeError as exc: raise ProviderError(str(exc), 502)\<close>\<close>
  "as_provider_error e = (if e = RestorationOutputTooLargeError then ProviderError 502 else e)"

definition pipeline_event :: "process_clock \<Rightarrow> req_context \<Rightarrow> ustr \<Rightarrow> prepared \<Rightarrow> ustr \<Rightarrow> event_extras \<Rightarrow> audit_event" where
  "pipeline_event pc ctx model pr provider x =
     build_event (pc_wall pc) ctx model (pr_decision pr) provider (pr_entity_counts pr) (pr_encoding_signals pr) x
       (pc_elapsed pc) None"

definition response_extras :: "prepared \<Rightarrow> outcome \<Rightarrow> event_extras" where
  "response_extras pr r = \<lparr>ex_transformed = pr_transformed pr, ex_restored = ro_restored r,
     ex_refused = total_refused r, ex_reasons = refusal_reasons r, ex_performed = 0 < ro_restored r\<rparr>"

text \<open>After the provider answered: restore, audit, return.\<close>

definition respond :: "('b, 's) pipeline \<Rightarrow> process_clock \<Rightarrow> req_context \<Rightarrow> ustr \<Rightarrow> prepared \<Rightarrow> provider_ref \<Rightarrow> pydict
    \<Rightarrow> ('b, 's) world \<Rightarrow> pipeline_result res \<times> ('b, 's) world" where
  "respond P pc ctx model pr provider response w =
     (case restore_response (pl_gateway P) (ic_ucd (pl_config P)) (rc_get pc) (pl_max_output P) ctx response
             (pr_provenance pr) (w_vault w) of
        (Inl e, v) \<Rightarrow> (Inl (as_provider_error e), w\<lparr>w_vault := v\<rparr>)
      | (Inr (response', r), v) \<Rightarrow>
          (let d = pr_decision pr; name = pl_provider_name P provider
           in (Inr \<lparr>pp_response = response', pp_entity_counts = pr_entity_counts pr,
                 pp_decision_action = action_value (d_action d), pp_rule_name = d_rule_name d,
                 pp_policy_version = d_policy_version d, pp_provider = name, pp_restoration = r,
                 pp_latency_ms = pc_elapsed pc\<rparr>,
               w\<lparr>w_vault := v,
                 w_sink := pl_sink_write P (pipeline_event pc ctx model pr name (response_extras pr r)) (w_sink w)\<rparr>)))"

text \<open>A decision that does not block: find the provider, check the floor, call it.\<close>

definition forward :: "('b, 's) pipeline \<Rightarrow> process_clock \<Rightarrow> req_context \<Rightarrow> ustr \<Rightarrow> prepared
    \<Rightarrow> ('b, 's) world \<Rightarrow> pipeline_result res \<times> ('b, 's) world" where
  "forward P pc ctx model pr w =
     (case pr_outbound pr of
        None \<Rightarrow> (Inl (ProviderError 500), w)
      | Some outbound \<Rightarrow>
          let dest = d_destination (pr_decision pr)
          in if \<not> hashable dest then (Inl TypeError, w)
             else case map_of (pl_providers P) dest of
               None \<Rightarrow> (Inl (ProviderError 500), w)
             | Some provider \<Rightarrow>
                 if must_be_local (pl_local_routing P) (pr_entity_counts pr)
                    \<and> map_of (pl_providers P) LOCAL_DESTINATION \<noteq> Some provider
                 then (Inl LocalRoutingViolation, w)
                 else (let w = w\<lparr>w_sent := w_sent w @ [(provider, outbound)]\<rparr>
                       in case pl_chat P provider outbound of
                            Inl e \<Rightarrow> (Inl e, w)
                          | Inr response \<Rightarrow> respond P pc ctx model pr provider response w))"

definition process :: "('b, 's) pipeline \<Rightarrow> process_clock \<Rightarrow> req_context \<Rightarrow> pydict \<Rightarrow> ('b, 's) world
    \<Rightarrow> pipeline_result res \<times> ('b, 's) world" where
  "process P pc ctx payload w =
     (let model = py_str (pl_show P) (pd_get_or payload ''model'' (PStr []))
      in case prepare (pl_gateway P) (pl_config P) (pl_policy P) (request_clock.truncate pc) ctx payload (w_vault w) of
           (Inl e, v) \<Rightarrow> (Inl e, w\<lparr>w_vault := v\<rparr>)
         | (Inr pr, v) \<Rightarrow>
             (let w = w\<lparr>w_vault := v\<rparr>; d = pr_decision pr
              in if d_action d = BLOCK
                 then (Inl (PolicyBlockedError (d_rule_name d)),
                       w\<lparr>w_sink := pl_sink_write P (pipeline_event pc ctx model pr (lit ''none'') no_extras) (w_sink w)\<rparr>)
                 else forward P pc ctx model pr w))"

subsection \<open>The offline provider\<close>

fun last_user_content :: "(pyval \<Rightarrow> ustr) \<Rightarrow> pyval list \<Rightarrow> ustr res" where
  \<comment> \<open>the loop over the reversed messages\<close>
  "last_user_content show [] = Inr []"
| "last_user_content show (m # ms) =
     (case m of
        PDict d \<Rightarrow> if pd_get_or d ''role'' PNone = PStr (lit ''user'')
                   then Inr (py_str show (pd_get_or d ''content'' (PStr [])))
                   else last_user_content show ms
      | _ \<Rightarrow> Inl AttributeError)"

definition mock_chat :: "ucd \<Rightarrow> (pyval \<Rightarrow> ustr) \<Rightarrow> pydict \<Rightarrow> pydict res" where
  "mock_chat U show payload =
     rbind (py_elements (pd_get_or payload ''messages'' (PList []))) (\<lambda>ms.
          rbind (last_user_content show (rev ms)) (\<lambda>u.
          let digest = take 8 (hex_bytes (sha256 (utf8 u)));
              n = int (length (split_ws (u_isspace U) u));
              message = PDict [(PStr (lit ''role''), PStr (lit ''assistant'')),
                               (PStr (lit ''content''), PStr (lit ''[mock] received: '' @ u))]
          in Inr [(PStr (lit ''id''), PStr (lit ''chatcmpl-mock-'' @ digest)),
                  (PStr (lit ''object''), PStr (lit ''chat.completion'')),
                  (PStr (lit ''created''), PInt 0),
                  (PStr (lit ''model''), pd_get_or payload ''model'' (PStr (lit ''mock-model''))),
                  (PStr (lit ''choices''), PList [PDict
                     [(PStr (lit ''index''), PInt 0), (PStr (lit ''message''), message),
                      (PStr (lit ''finish_reason''), PStr (lit ''stop''))]]),
                  (PStr (lit ''usage''), PDict [(PStr (lit ''prompt_tokens''), PInt n),
                     (PStr (lit ''completion_tokens''), PInt 8), (PStr (lit ''total_tokens''), PInt (n + 8))])]))"

end
