(* ===== verification/PipelineFacts.thy ===== *)
theory PipelineFacts
  imports Pipeline
begin

text \<open>
  What the pipeline guarantees: failures and blocks forward nothing, the local-routing tripwire agrees
  with the policy engine, what a provider receives is the payload with the detected spans replaced, a
  response is changed in its message contents only, and every completed request is audited once.
\<close>

subsection \<open>What can be sent\<close>

lemma prepare_Inr:
  assumes "prepare G c p rc ctx payload v = (Inr pr, v')"
  shows "\<exists>i inspected. inspect_payload c payload = Inr (i, inspected)
     \<and> pr_inspected pr = inspected \<and> pr_entity_counts pr = entity_counts i
     \<and> evaluate_with_base p ctx i = (pr_base_decision pr, pr_decision pr)
     \<and> (if d_action (pr_decision pr) = BLOCK then pr_outbound pr = None \<and> v' = v
        else \<exists>out. pr_outbound pr = Some out
          \<and> build_outbound G (ic_ucd c) rc ctx payload inspected (d_action (pr_decision pr) \<in> {TRANSFORM, ROUTE_LOCAL})
              prov_empty v = (Inr (out, pr_transformed pr), pr_provenance pr, v'))"
proof -
  from assms obtain i inspected where i: "inspect_payload c payload = Inr (i, inspected)"
    by (auto simp: prepare_def split: sum.splits prod.splits)
  obtain base d where e: "evaluate_with_base p ctx i = (base, d)" by fastforce
  show ?thesis
  proof (cases "d_action d = BLOCK")
    case True
    with assms i e show ?thesis by (auto simp: prepare_def Let_def)
  next
    case False
    with assms i e obtain out n prov where
      "build_outbound G (ic_ucd c) rc ctx payload inspected (d_action d \<in> {TRANSFORM, ROUTE_LOCAL}) prov_empty v
         = (Inr (out, n), prov, v')" by (auto simp: prepare_def Let_def split: sum.splits prod.splits)
    with assms i e False show ?thesis by (auto simp: prepare_def Let_def)
  qed
qed

lemma prepare_Inl:
  assumes "prepare G c p rc ctx payload v = (Inl e, v')"
  shows "inspect_payload c payload = Inl e \<and> v' = v
     \<or> (\<exists>i inspected. inspect_payload c payload = Inr (i, inspected))"
  using assms by (auto simp: prepare_def split: sum.splits)

text \<open>The only place that calls a provider, with everything that holds when it does.\<close>

lemma respond_world:
  assumes "respond P pc ctx model pr provider response w = (r, w')"
  shows "w_sent w' = w_sent w"
    and "(\<exists>e. r = Inl e) \<and> w_sink w' = w_sink w \<or>
      (\<exists>x out v. r = Inr x \<and> restore_response (pl_gateway P) (ic_ucd (pl_config P)) (rc_get pc) (pl_max_output P) ctx
            response (pr_provenance pr) (w_vault w) = (Inr (pp_response x, out), v)
        \<and> pp_restoration x = out \<and> w_vault w' = v
        \<and> w_sink w' = pl_sink_write P (pipeline_event pc ctx model pr (pl_provider_name P provider) (response_extras pr out)) (w_sink w))"
  using assms by (auto simp: respond_def Let_def split: prod.splits sum.splits)

lemma forward_sent:
  assumes "forward P pc ctx model pr w = (r, w')"
  shows "w_sent w' = w_sent w \<and> (\<exists>e. r = Inl e) \<and> w' = w \<or>
    (\<exists>out provider. pr_outbound pr = Some out \<and> hashable (d_destination (pr_decision pr))
       \<and> map_of (pl_providers P) (d_destination (pr_decision pr)) = Some provider
       \<and> (must_be_local (pl_local_routing P) (pr_entity_counts pr) \<longrightarrow> map_of (pl_providers P) LOCAL_DESTINATION = Some provider)
       \<and> w_sent w' = w_sent w @ [(provider, out)]
       \<and> ((\<exists>e. r = Inl e \<and> pl_chat P provider out = Inl e \<and> w' = w\<lparr>w_sent := w_sent w @ [(provider, out)]\<rparr>)
          \<or> (\<exists>response. pl_chat P provider out = Inr response \<and>
               respond P pc ctx model pr provider response (w\<lparr>w_sent := w_sent w @ [(provider, out)]\<rparr>) = (r, w'))))"
proof (cases "pr_outbound pr")
  case None
  with assms show ?thesis by (auto simp: forward_def)
next
  case (Some out)
  show ?thesis
  proof (cases "hashable (d_destination (pr_decision pr))")
    case False
    with assms Some show ?thesis by (auto simp: forward_def Let_def)
  next
    case h: True
    show ?thesis
    proof (cases "map_of (pl_providers P) (d_destination (pr_decision pr))")
      case None
      with assms Some h show ?thesis by (auto simp: forward_def Let_def)
    next
      case p: (Some provider)
      show ?thesis
      proof (cases "must_be_local (pl_local_routing P) (pr_entity_counts pr)
          \<and> map_of (pl_providers P) LOCAL_DESTINATION \<noteq> Some provider")
        case True
        with assms Some h p show ?thesis by (auto simp: forward_def Let_def)
      next
        case False
        let ?w = "w\<lparr>w_sent := w_sent w @ [(provider, out)]\<rparr>"
        show ?thesis
        proof (cases "pl_chat P provider out")
          case (Inl e)
          with assms Some h p False show ?thesis by (auto simp: forward_def Let_def)
        next
          case (Inr response)
          with assms Some h p False have f: "respond P pc ctx model pr provider response ?w = (r, w')"
            by (simp add: forward_def Let_def)
          with respond_world(1) [OF f] Some h p False Inr show ?thesis by auto
        qed
      qed
    qed
  qed
qed

text \<open>The only place that calls a provider, with everything that holds when it does.\<close>

lemma process_sent:
  assumes "process P pc ctx payload w = (r, w')" and "w_sent w' \<noteq> w_sent w"
  shows "\<exists>pr v out provider. prepare (pl_gateway P) (pl_config P) (pl_policy P) (request_clock.truncate pc) ctx payload (w_vault w)
          = (Inr pr, v)
       \<and> d_action (pr_decision pr) \<noteq> BLOCK \<and> pr_outbound pr = Some out
       \<and> map_of (pl_providers P) (d_destination (pr_decision pr)) = Some provider
       \<and> (must_be_local (pl_local_routing P) (pr_entity_counts pr) \<longrightarrow> map_of (pl_providers P) LOCAL_DESTINATION = Some provider)
       \<and> w_sent w' = w_sent w @ [(provider, out)]"
proof -
  from assms obtain pr v where pr: "prepare (pl_gateway P) (pl_config P) (pl_policy P) (request_clock.truncate pc) ctx payload (w_vault w) = (Inr pr, v)"
    by (auto simp: process_def Let_def split: prod.splits sum.splits)
  with assms have nb: "d_action (pr_decision pr) \<noteq> BLOCK" by (auto simp: process_def Let_def)
  with assms(1) pr have "forward P pc ctx (py_str (pl_show P) (pd_get_or payload ''model'' (PStr []))) pr (w\<lparr>w_vault := v\<rparr>) = (r, w')"
    by (simp add: process_def Let_def)
  from forward_sent [OF this] assms(2) pr nb show ?thesis by auto
qed

subsection \<open>Masking all messages\<close>

lemma inspect_text_spans:
  assumes "inspect_text U ds b content = Inr (spans, signals)" and "sp \<in> set spans"
  shows "span_of content sp"
proof -
  from assms(1) obtain v found mapped where v: "build_detection_view U content = Inr v"
    and m: "rmap (map_one U v) (resolve_conflicts found) = Inr mapped" "spans = resolve_conflicts mapped"
    by (auto simp: inspect_text_def map_to_original_def Let_def res_simps)
  from build_view_ok [of U content] v have o: "v_original v = content" by simp
  from assms(2) m(2) resolve_subset have "sp \<in> set mapped" by blast
  with rmap_in [OF m(1)] obtain x where "map_one U v x = Inr sp" by blast
  then obtain s e where "map_span v (sp_start x) (sp_end x) = Inr (s, e)"
    and sp: "mk_span (int s) (int e) (sp_type x) (pyslice content s e) (sp_score x) (sp_detector x) = Inr sp"
    by (auto simp: map_one_def or_detection_error_def res_simps o split: sum.splits prod.splits if_splits)
  then have "s < e" "e \<le> length content"
    by (auto simp: map_span_def Let_def o split: if_splits)
  with sp show ?thesis by (auto simp: mk_span_nat span_of_def split: if_splits)
qed

lemma inspect_loop_spans:
  assumes "inspect_loop c i n ms = Inr ims" and "m \<in> set ims" and "sp \<in> set (im_spans m)"
  shows "span_of (im_text m) sp"
  using assms
proof (induction ms arbitrary: i n ims)
  case (Cons x xs)
  from Cons.prems(1) obtain content spans signals rest where
    t: "inspect_text (ic_ucd c) (ic_detectors c) (ic_block_mixed c) content = Inr (spans, signals)"
    and r: "inspect_loop c (Suc i) (n + int (length content)) xs = Inr rest"
    and ims: "ims = \<lparr>im_index = i, im_text = content, im_spans = spans, im_signals = signals\<rparr> # rest"
    by (auto simp: res_simps Let_def split: if_splits)
  from Cons.prems(2) ims consider "m = hd ims" | "m \<in> set rest" by auto
  then show ?case
  proof cases
    case 1
    with ims Cons.prems(3) inspect_text_spans [OF t] show ?thesis by simp
  next
    case 2
    with Cons.IH [OF r _ Cons.prems(3)] show ?thesis by simp
  qed
qed simp

lemma inspect_payload_Inr:
  assumes "inspect_payload c payload = Inr (i, ims)"
  shows "\<exists>ms. pd_get payload ''messages'' = Some (PList ms) \<and> ms \<noteq> [] \<and> inspect_loop c 0 0 ms = Inr ims
     \<and> i = \<lparr>i_spans = concat (map im_spans ims)\<rparr>"
  using assms by (auto simp: inspect_payload_def py_or_def pd_get_or_def res_simps split: if_splits pyval.splits option.splits)

lemma vault_put_ttl: "vault_put E B now nonce ctx t val tv v = Inr v' \<Longrightarrow> vt_ttl v' = vt_ttl v"
  by (auto simp: vault_put_sealed res_simps)

lemma transform_loop_ttl:
  "transform_loop E B U m clk nonces ctx text ss st = (eo, st') \<Longrightarrow> vt_ttl (ts_vault st') = vt_ttl (ts_vault st)"
proof (induction ss arbitrary: st)
  case (Cons s ss)
  obtain eo1 st1 where st1: "transform_step E B U m clk nonces ctx text s st = (eo1, st1)" by fastforce
  then have "vt_ttl (ts_vault st1) = vt_ttl (ts_vault st)"
    by (auto simp: transform_step_def split: sum.splits prod.splits dest: vault_put_ttl)
  with Cons st1 show ?case by (auto split: option.splits)
qed simp

lemma transform_ttl: "transform E B U m clk nonces ctx text spans prov v = (r, prov', v') \<Longrightarrow> vt_ttl v' = vt_ttl v"
  by (auto simp: transform_def Let_def transform_init_def split: if_splits prod.splits option.splits
      dest!: transform_loop_ttl)

definition masked_text :: "minter \<Rightarrow> ucd \<Rightarrow> req_context \<Rightarrow> inspected_message \<Rightarrow> ustr" where
  \<comment> \<open>the text with each resolved span replaced by its token\<close>
  "masked_text m U ctx im = assemble (im_text im) 0
     (map (\<lambda>s. (s, token_of m U ctx (sp_type s) (sp_text s))) (resolve_conflicts (im_spans im)))"

definition clocks_ok :: "request_clock \<Rightarrow> rat \<Rightarrow> 'b vault \<Rightarrow> bool" where
  \<comment> \<open>twelve-byte nonces, and no write expires before \<open>T\<close>\<close>
  "clocks_ok rc T v \<longleftrightarrow> (\<forall>i n. length (rc_nonce rc i n) = NONCE_BYTES \<and> T \<le> rc_put rc i n + vt_ttl v)"

lemma masked_messages_ok:
  assumes "masked_messages G U rc ctx True ims cnt prov v = (Inr (ts, n), prov', v')"
    and "gw_backend G = in_memory" and "mt_format (gw_minter G) = ACTIVE_TOKEN_FORMAT"
    and "\<forall>m \<in> set ims. \<forall>s \<in> set (im_spans m). span_of (im_text m) s \<and> entity_ok (u_upper U (sp_type s))"
    and "prov_ok (gw_env G) U ctx T prov v" and "clocks_ok rc T v"
  shows "ts = map (masked_text (gw_minter G) U ctx) ims
     \<and> n = cnt + sum_list (map (\<lambda>m. length (resolve_conflicts (im_spans m))) ims)
     \<and> prov_ok (gw_env G) U ctx T prov' v'"
  using assms(1,4-)
proof (induction ims arbitrary: cnt prov v ts)
  case (Cons m ims)
  obtain r1 prov1 v1 where t: "transform (gw_env G) in_memory U (gw_minter G) (rc_put rc (im_index m))
      (rc_nonce rc (im_index m)) ctx (im_text m) (im_spans m) prov v = (r1, prov1, v1)"
    by (metis prod_cases3)
  with Cons.prems(1) assms(2) obtain r ts' where r: "r1 = Inr r"
    "masked_messages G U rc ctx True ims (cnt + tr_replaced r) prov1 v1 = (Inr (ts', n), prov', v')"
    "ts = tr_text r # ts'"
    by (auto split: sum.splits prod.splits)
  from Cons.prems(2) have sp: "\<forall>s \<in> set (im_spans m). span_of (im_text m) s \<and> entity_ok (u_upper U (sp_type s))" by simp
  from Cons.prems(4) have c: "\<And>k. length (rc_nonce rc (im_index m) k) = NONCE_BYTES"
    "\<And>k. T \<le> rc_put rc (im_index m) k + vt_ttl v" by (simp_all add: clocks_ok_def)
  from transform_ok [OF t [unfolded r(1)] assms(3) sp Cons.prems(3) c]
  have ok: "prov_ok (gw_env G) U ctx T prov1 v1" "tr_text r = masked_text (gw_minter G) U ctx m"
    "tr_replaced r = length (resolve_conflicts (im_spans m))"
    by (auto simp: loop_done_def masked_text_def)
  have "clocks_ok rc T v1" using Cons.prems(4) transform_ttl [OF t] by (simp add: clocks_ok_def)
  from Cons.IH [OF r(2) _ ok(1) this] Cons.prems(2) ok r(3) show ?case by simp
qed simp

lemma unmasked_messages:
  "masked_messages G U rc ctx False ims cnt prov v = (Inr (map im_text ims, cnt), prov, v)"
  by (induction ims) simp_all

text \<open>With spans that share a token only if they share their spelling, masking cannot fail.\<close>

lemma transform_from:
  assumes "transform E in_memory U m clk nonces ctx text spans prov0 v = (Inr r, prov, v')"
    and "mt_format m = ACTIVE_TOKEN_FORMAT"
    and "\<forall>s \<in> set spans. span_of text s \<and> entity_ok (u_upper U (sp_type s))"
    and "prov_ok E U ctx T prov0 v"
    and "\<And>n. length (nonces n) = NONCE_BYTES" and "\<And>n. T \<le> clk n + vt_ttl v"
    and "minted_from m U ctx S prov0" and "set spans \<subseteq> S" and "keyring_ok (vt_keys v)"
  shows "minted_from m U ctx S prov" and "keyring_ok (vt_keys v')"
    and "prov_lookup prov0 t = Some g \<Longrightarrow> prov_lookup prov t = Some g"
    and "s \<in> set (resolve_conflicts spans) \<Longrightarrow> prov_lookup prov (token_of m U ctx (sp_type s) (sp_text s)) \<noteq> None"
proof -
  from transform_ok [OF assms(1-6)] obtain st where st: "loop_done E U m ctx T text 0 (resolve_conflicts spans) prov0 st"
    "prov = ts_prov st" "v' = ts_vault st" by blast
  have sub: "set (resolve_conflicts spans) \<subseteq> S" using resolve_subset assms(8) by blast
  have new: "\<forall>t g. prov_lookup prov0 t = None \<longrightarrow> prov_lookup prov t = Some g \<longrightarrow>
      (\<exists>s \<in> set (resolve_conflicts spans). t = token_of m U ctx (sp_type s) (sp_text s) \<and> su_original g = sp_text s)"
    and old: "\<forall>t g. prov_lookup prov0 t = Some g \<longrightarrow> prov_lookup prov t = Some g"
    and reg: "\<forall>s \<in> set (resolve_conflicts spans). \<exists>g. prov_lookup prov (token_of m U ctx (sp_type s) (sp_text s)) = Some g"
    using st by (auto simp: loop_done_def)
  show "minted_from m U ctx S prov"
    unfolding minted_from_def
  proof (intro allI impI)
    fix t g
    assume g: "prov_lookup prov t = Some g"
    show "\<exists>a \<in> S. t = token_of m U ctx (sp_type a) (sp_text a) \<and> su_original g = sp_text a"
    proof (cases "prov_lookup prov0 t")
      case None
      with new g obtain a where "a \<in> set (resolve_conflicts spans)" "t = token_of m U ctx (sp_type a) (sp_text a)"
        "su_original g = sp_text a" by blast
      with sub show ?thesis by blast
    next
      case (Some g')
      with old g have "g' = g" by force
      with Some assms(7) show ?thesis by (auto simp: minted_from_def)
    qed
  qed
  show "keyring_ok (vt_keys v')"
    using assms(1,9) by (auto simp: transform_def Let_def transform_init_def split: if_splits prod.splits option.splits
      dest!: transform_loop_keys)
  show "prov_lookup prov0 t = Some g \<Longrightarrow> prov_lookup prov t = Some g" using old by blast
  show "s \<in> set (resolve_conflicts spans) \<Longrightarrow> prov_lookup prov (token_of m U ctx (sp_type s) (sp_text s)) \<noteq> None"
    using reg by fastforce
qed

lemma masked_messages_total:
  assumes "gw_backend G = in_memory" and fmt: "mt_format (gw_minter G) = ACTIVE_TOKEN_FORMAT"
    and same: "\<forall>a \<in> S. \<forall>b \<in> S. token_of (gw_minter G) U ctx (sp_type a) (sp_text a) =
        token_of (gw_minter G) U ctx (sp_type b) (sp_text b) \<longrightarrow> sp_text a = sp_text b"
    and "\<forall>m \<in> set ims. set (im_spans m) \<subseteq> S \<and> (\<forall>s \<in> set (im_spans m). span_of (im_text m) s \<and> entity_ok (u_upper U (sp_type s)))"
    and "prov_ok (gw_env G) U ctx T prov v" and "minted_from (gw_minter G) U ctx S prov"
    and "clocks_ok rc T v" and "keyring_ok (vt_keys v)"
  shows "\<exists>n prov' v'. masked_messages G U rc ctx True ims cnt prov v =
        (Inr (map (masked_text (gw_minter G) U ctx) ims, n), prov', v')
     \<and> prov_ok (gw_env G) U ctx T prov' v' \<and> minted_from (gw_minter G) U ctx S prov'
     \<and> (\<forall>t g. prov_lookup prov t = Some g \<longrightarrow> prov_lookup prov' t = Some g)
     \<and> (\<forall>m \<in> set ims. \<forall>s \<in> set (resolve_conflicts (im_spans m)).
          prov_lookup prov' (token_of (gw_minter G) U ctx (sp_type s) (sp_text s)) \<noteq> None)"
  using assms(4-)
proof (induction ims arbitrary: cnt prov v)
  case (Cons m ims)
  let ?nonce = "rc_nonce rc (im_index m)" and ?clk = "rc_put rc (im_index m)"
  from Cons.prems(1) have sp: "\<forall>s \<in> set (im_spans m). span_of (im_text m) s \<and> entity_ok (u_upper U (sp_type s))"
    and sub: "set (im_spans m) \<subseteq> S" by auto
  from Cons.prems(4) have nc: "\<And>k. length (?nonce k) = NONCE_BYTES" and ck: "\<And>k. T \<le> ?clk k + vt_ttl v"
    by (simp_all add: clocks_ok_def)
  obtain r prov1 v1 where t: "transform (gw_env G) in_memory U (gw_minter G) ?clk ?nonce ctx (im_text m) (im_spans m) prov v
      = (Inr r, prov1, v1)"
    using transform_total_from [where nonces = ?nonce and clk = ?clk and T = T and S = S,
        OF fmt Cons.prems(5) nc ck Cons.prems(2,3) same sp sub] by blast
  note from1 = transform_from [OF t fmt sp Cons.prems(2) nc ck Cons.prems(3) sub Cons.prems(5)]
  from transform_ok [OF t fmt sp Cons.prems(2) nc ck]
  have ok: "prov_ok (gw_env G) U ctx T prov1 v1" "tr_text r = masked_text (gw_minter G) U ctx m"
    by (auto simp: loop_done_def masked_text_def)
  have "clocks_ok rc T v1" using Cons.prems(4) transform_ttl [OF t] by (simp add: clocks_ok_def)
  from Cons.IH [OF _ ok(1) from1(1) this from1(2), of "cnt + tr_replaced r"] Cons.prems(1)
  obtain n prov' v' where ih: "masked_messages G U rc ctx True ims (cnt + tr_replaced r) prov1 v1 =
        (Inr (map (masked_text (gw_minter G) U ctx) ims, n), prov', v')"
     "prov_ok (gw_env G) U ctx T prov' v'" "minted_from (gw_minter G) U ctx S prov'"
     "\<And>t g. prov_lookup prov1 t = Some g \<Longrightarrow> prov_lookup prov' t = Some g"
     "\<And>m s. m \<in> set ims \<Longrightarrow> s \<in> set (resolve_conflicts (im_spans m)) \<Longrightarrow>
          prov_lookup prov' (token_of (gw_minter G) U ctx (sp_type s) (sp_text s)) \<noteq> None"
    by auto
  have "masked_messages G U rc ctx True (m # ims) cnt prov v =
      (Inr (map (masked_text (gw_minter G) U ctx) (m # ims), n), prov', v')"
    using t ih(1) ok(2) assms(1) by simp
  moreover have "prov_lookup prov t = Some g \<Longrightarrow> prov_lookup prov' t = Some g" for t g
    using from1(3) ih(4) by blast
  moreover have "prov_lookup prov' (token_of (gw_minter G) U ctx (sp_type s) (sp_text s)) \<noteq> None"
    if "x \<in> set (m # ims)" "s \<in> set (resolve_conflicts (im_spans x))" for x s
  proof (cases "x = m")
    case True
    with that from1(4) obtain g where "prov_lookup prov1 (token_of (gw_minter G) U ctx (sp_type s) (sp_text s)) = Some g"
      by blast
    with ih(4) show ?thesis by force
  qed (use that ih(5) in auto)
  ultimately show ?case using ih(2,3) by blast
qed simp

subsection \<open>Restoring a masked text after some plain text\<close>

lemma tok_split_prefix:
  "60 \<notin> set pre \<Longrightarrow> tok_split (pre @ s) = map Chr pre @ tok_split s"
proof (induction pre)
  case (Cons c pre)
  then have "tok_len (c # pre @ s) = None" using tok_len_head [of c "pre @ s"]
    by (cases "tok_len (c # pre @ s)") auto
  with Cons show ?case by (simp add: tok_split_Chr)
qed simp

lemma restore_masked:
  assumes aead: "aead_ok E" and ok: "prov_ok E U ctx T prov v"
    and spans: "\<forall>s \<in> set spans. span_of text s \<and> entity_ok (u_upper U (sp_type s))"
    and free: "tok_split text = map Chr text" and pre: "60 \<notin> set pre"
    and own: "\<And>s. s \<in> set (resolve_conflicts spans) \<Longrightarrow>
        \<exists>g. prov_lookup prov (token_of m U ctx (sp_type s) (sp_text s)) = Some g \<and> su_original g = sp_text s"
    and rclk: "\<And>n. fst (rclk n) < T \<and> snd (rclk n) < T"
    and budget: "int (length (utf8 (pre @ text))) \<le> budget"
  shows "\<exists>out. restore E in_memory U rclk ctx
        (pre @ assemble text 0 (map (\<lambda>s. (s, token_of m U ctx (sp_type s) (sp_text s))) (resolve_conflicts spans)))
        prov budget v = (Inr out, v)
     \<and> ro_text out = pre @ text \<and> ro_restored out = length (resolve_conflicts spans) \<and> total_refused out = 0"
proof -
  let ?tok = "\<lambda>s. token_of m U ctx (sp_type s) (sp_text s)" and ?ss = "resolve_conflicts spans"
  let ?f = "\<lambda>t. the (prov_lookup prov t)" and ?sts = "map (\<lambda>s. (s, ?tok s)) ?ss"
  let ?masked = "pre @ assemble text 0 ?sts" and ?d = "\<lambda>t. Restored (su_original (?f t))"
  have sub: "set ?ss \<subseteq> set spans" by (rule resolve_subset)
  have toks: "\<forall>(s, t) \<in> set ?sts. is_token t" using spans sub by (auto intro!: token_of_is_token)
  note sp = assemble_split [OF free toks, of ?d 0]
  have m: "map (\<lambda>(s, t). (s, replacement t (?d t))) ?sts = map (\<lambda>s. (s, sp_text s)) ?ss"
    using own unfolding map_map by (intro map_cong refl) fastforce
  have whole: "assemble text 0 (map (\<lambda>s. (s, sp_text s)) ?ss) = text"
    using assemble_id [of ?ss "text" 0] spans sub resolve_disjoint [of spans] by (auto simp: span_of_def)
  have split: "tok_split ?masked = map Chr pre @ tok_split (assemble text 0 ?sts)" by (rule tok_split_prefix [OF pre])
  have out: "pre @ text = concat (map (seg_repl ?d) (tok_split ?masked))"
  proof -
    have "concat (map (seg_repl ?d) (map Chr pre)) = pre" by (simp add: map_map)
    moreover from conjunct1 [OF sp] have "concat (map (seg_repl ?d) (tok_split (assemble text 0 ?sts))) = text"
      unfolding m whole .
    ultimately show ?thesis by (simp only: split map_append concat_append)
  qed
  have cnt: "tok_count (tok_split ?masked) = length ?ss"
  proof -
    have "tok_count (map Chr u @ gs) = tok_count gs" for u gs by (induction u) simp_all
    with sp show ?thesis by (simp add: split)
  qed
  have "prov_lookup prov t = Some (?f t) \<and>
      (\<forall>n. vault_get E in_memory (rclk n) ctx t (lit ''v1'') v = (Inr (Some (su_original (?f t))), v)) \<and>
      su_canonical (?f t) = canonicalize U (su_original (?f t))"
    if "Tok t \<in> set (tok_split ?masked)" for t
  proof -
    from that have "Tok t \<in> set (tok_split (assemble text 0 ?sts))" by (auto simp: split)
    with sp obtain s where "s \<in> set ?ss" "t = ?tok s" by auto
    with own obtain g where g: "prov_lookup prov t = Some g" by blast
    with ok have "su_token g = t" "su_canonical g = canonicalize U (su_original g)" "held E ctx T g v"
      by (auto simp: prov_ok_def)
    moreover from this(3) have "vault_get E in_memory (rclk n) ctx (su_token g) (lit ''v1'') v = (Inr (Some (su_original g)), v)" for n
      by (rule held_get [OF aead]) (use rclk in auto)
    ultimately show ?thesis using g by simp
  qed
  from restore_live [OF this out budget] cnt show ?thesis by fastforce
qed

end
