(* ===== verification/PipelineProps.thy ===== *)
theory PipelineProps
  imports PipelineFacts
begin

text \<open>
  The properties of the whole pipeline and a concrete pipeline to apply them to: one e-mail detector,
  an external and a local provider, the in-memory vault and sink.
\<close>

subsection \<open>A concrete pipeline\<close>

definition sample_config :: inspect_config where
  "sample_config = \<lparr>ic_ucd = ascii_ucd,
     ic_detectors = [\<lparr>dt_name = lit ''email'', dt_uses_folded = False, dt_detect = detect_email ascii_ucd\<rparr>],
     ic_max_chars = 256000, ic_block_mixed = False, ic_field_ok = (\<lambda>_ _. True)\<rparr>"

definition sample_messages :: "pyval list" where
  "sample_messages = [PDict [(PStr (lit ''role''), PStr (lit ''user'')), (PStr (lit ''content''), PStr sample_text)]]"

definition sample_payload :: pydict where
  "sample_payload = [(PStr (lit ''model''), PStr (lit ''m'')), (PStr (lit ''messages''), PList sample_messages)]"

definition sample_found :: span where
  "sample_found = \<lparr>sp_start = 5, sp_end = 11, sp_type = lit ''EMAIL_ADDRESS'', sp_text = lit ''a@b.eu'', sp_score = 1,
     sp_detector = lit ''email''\<rparr>"

definition sample_inspected :: inspected_message where
  "sample_inspected = \<lparr>im_index = 0, im_text = sample_text, im_spans = [sample_found], im_signals = []\<rparr>"

lemma sample_detect: "detect_email ascii_ucd sample_text = Inr [sample_found]"
  by code_simp

lemma sample_resolve: "resolve_conflicts [sample_found] = [sample_found]"
  by code_simp

lemma sample_map:
  "map_one ascii_ucd \<lparr>v_original = sample_text, v_text = sample_text, v_folded = sample_text,
     v_origins = identity_origins (length sample_text)\<rparr> sample_found = Inr sample_found"
proof -
  let ?v = "\<lparr>v_original = sample_text, v_text = sample_text, v_folded = sample_text,
     v_origins = identity_origins (length sample_text)\<rparr>"
  have m: "map_span ?v 5 11 = Inr (5, 11)" by code_simp
  have s: "pyslice sample_text 5 11 = lit ''a@b.eu''" by code_simp
  have p: "printable (lit ''a@b.eu'')" by code_simp
  have b: "build_detection_view ascii_ucd (lit ''a@b.eu'') = Inr \<lparr>v_original = lit ''a@b.eu'', v_text = lit ''a@b.eu'',
      v_folded = lit ''a@b.eu'', v_origins = identity_origins (length (lit ''a@b.eu''))\<rparr>"
    by (rule printable_view [OF p])
  have "mk_span 5 11 (lit ''EMAIL_ADDRESS'') (lit ''a@b.eu'') 1 (lit ''email'') = Inr sample_found"
    by code_simp
  with m s b show ?thesis
    by (simp add: map_one_def sample_found_def or_detection_error_def verify_round_trip_def)
qed

lemma sample_inspect: "inspect_payload sample_config sample_payload = Inr (\<lparr>i_spans = [sample_found]\<rparr>, [sample_inspected])"
proof -
  have p: "printable sample_text" by code_simp
  have "inspect_text ascii_ucd (ic_detectors sample_config) False sample_text = Inr ([sample_found], [])"
    using sample_detect sample_map
    by (simp add: inspect_text_def screen_printable [OF p] raise_if_blocking_def printable_view [OF p] detect_view_def
        or_detection_error_def sample_resolve map_to_original_def sample_config_def)
  moreover have "accepts_request_fields (\<lambda>_ _. True) sample_payload"
    by (simp add: accepts_request_fields_def sample_payload_def REQUEST_FIELDS_def)
  moreover obtain m where m: "sample_messages = [m]" by (simp add: sample_messages_def)
  moreover have "message_text m = Inr sample_text" using m
    by (auto simp: message_text_def sample_messages_def INSPECTED_MESSAGE_FIELDS_def INSPECTED_INPUT_ROLES_def pd_get_or_def
        pd_get_def)
  moreover have "pd_get_or sample_payload ''messages'' PNone = PList sample_messages"
    by (simp add: sample_payload_def pd_get_or_def pd_get_def)
  moreover have "length sample_text = 11" by code_simp
  ultimately show ?thesis
    unfolding m by (simp add: inspect_payload_def sample_config_def py_or_def sample_inspected_def)
qed

definition sample_gate :: "action \<Rightarrow> local_routing \<Rightarrow> policy" where
  "sample_gate act mode = \<lparr>pe_rules = [sample_rule ''default'' 0 act ''external'' []], pe_version = lit ''1'',
     pe_default_destination = lit ''external'', pe_local_routing = mode\<rparr>"

definition sample_pipeline :: "action \<Rightarrow> local_routing \<Rightarrow> (items, memory_sink) pipeline" where
  "sample_pipeline act mode = \<lparr>
     pl_gateway = \<lparr>gw_env = sample_env, gw_backend = in_memory, gw_minter = sample_minter\<rparr>,
     pl_config = sample_config, pl_policy = sample_gate act mode, pl_max_output = MAX_RESTORED_CONTENT_BYTES,
     pl_providers = [(PStr (lit ''external''), 0), (LOCAL_DESTINATION, 1)],
     pl_provider_name = (\<lambda>n. lit ''mock''), pl_chat = (\<lambda>_. mock_chat ascii_ucd (\<lambda>_. [])),
     pl_sink_write = memory_write, pl_local_routing = mode, pl_show = (\<lambda>_. [])\<rparr>"

definition sample_clock :: process_clock where
  "sample_clock = \<lparr>rc_put = (\<lambda>_ _. 0), rc_nonce = (\<lambda>_ _. sample_nonce), rc_get = (\<lambda>_ _. (10, 10)),
     pc_wall = 10, pc_elapsed = 1\<rparr>"

definition sample_world :: "(items, memory_sink) world" where
  "sample_world = \<lparr>w_vault = sample_vault, w_sink = \<lparr>ms_events = []\<rparr>, w_sent = []\<rparr>"

subsection \<open>Blocks and failures\<close>

lemma process_blocked:
  assumes "inspect_payload (pl_config P) payload = Inr (i, ims)"
    and "d_action (policy_evaluate (pl_policy P) ctx i) = BLOCK"
  shows "process P pc ctx payload w =
     (Inl (PolicyBlockedError (d_rule_name (policy_evaluate (pl_policy P) ctx i))),
      w\<lparr>w_sink := pl_sink_write P (build_event (pc_wall pc) ctx (py_str (pl_show P) (pd_get_or payload ''model'' (PStr [])))
          (policy_evaluate (pl_policy P) ctx i) (lit ''none'') (entity_counts i) (sum_signals ims) no_extras
          (pc_elapsed pc) None) (w_sink w)\<rparr>)"
proof -
  obtain base d where e: "evaluate_with_base (pl_policy P) ctx i = (base, d)" by fastforce
  with assms(2) have "d_action d = BLOCK" by (simp add: policy_evaluate_def)
  with assms(1) e show ?thesis
    by (simp add: process_def prepare_def Let_def pipeline_event_def policy_evaluate_def)
qed

text \<open>
  C20: A blocked request is forwarded to nobody and stores nothing: the only change is one audit event
  that records the block, its rule and the entity counts, and the error names the rule.
\<close>

theorem blocked_is_audited_not_forwarded:
  assumes "inspect_payload (pl_config P) payload = Inr (i, ims)"
    and "d_action (policy_evaluate (pl_policy P) ctx i) = BLOCK" and "pl_sink_write P = memory_write"
    and "process P pc ctx payload w = (r, w')"
  shows "r = Inl (PolicyBlockedError (d_rule_name (policy_evaluate (pl_policy P) ctx i)))
     \<and> w_sent w' = w_sent w \<and> w_vault w' = w_vault w
     \<and> (\<exists>e. ms_events (w_sink w') = ms_events (w_sink w) @ [e] \<and> ae_decision e = lit ''block''
          \<and> ae_rule_name e = d_rule_name (policy_evaluate (pl_policy P) ctx i) \<and> ae_entity_counts e = entity_counts i
          \<and> ae_request_id e = request_id ctx \<and> ae_tenant_id e = tenant_id ctx)"
  using assms(2-4) process_blocked [OF assms(1,2), of pc w]
  by (auto simp: memory.write_appends build_event_def)

lemma sample_gate_decides:
  "policy_evaluate (sample_gate act LR_OFF) ctx i =
     \<lparr>d_action = act, d_destination = PStr (lit ''external''), d_rule_name = lit ''default'', d_policy_version = lit ''1'',
      d_matched = [], d_reason = Matched_rule (lit ''default'') 0\<rparr>"
  by (simp add: policy_evaluate_def evaluate_with_base_def first_match_def sample_gate_def sample_rule_def rule_matches_def
      rule_destination_def py_or_def apply_local_routing_def requires_local_def Let_def)

theorem blocked_is_audited_not_forwarded_witness:
  "\<exists>r w'. process (sample_pipeline BLOCK LR_OFF) sample_clock sample_ctx sample_payload sample_world = (r, w')
     \<and> r = Inl (PolicyBlockedError (lit ''default'')) \<and> w_sent w' = [] \<and> length (ms_events (w_sink w')) = 1"
proof -
  obtain r w' where p: "process (sample_pipeline BLOCK LR_OFF) sample_clock sample_ctx sample_payload sample_world = (r, w')"
    by fastforce
  have "inspect_payload (pl_config (sample_pipeline BLOCK LR_OFF)) sample_payload = Inr (\<lparr>i_spans = [sample_found]\<rparr>, [sample_inspected])"
    by (simp add: sample_pipeline_def sample_inspect)
  from blocked_is_audited_not_forwarded [OF this _ _ p] p show ?thesis
    by (auto simp: sample_pipeline_def sample_gate_decides sample_world_def)
qed

lemma inspect_loop_detector:
  assumes "d \<in> set (ic_detectors c)" and "\<And>t. \<exists>x. dt_detect d t = Inl x" and "ms \<noteq> []"
  shows "\<exists>e. inspect_loop c i n ms = Inl e"
proof -
  obtain m ms' where ms: "ms = m # ms'" using assms(3) by (cases ms) auto
  have "\<exists>e. detect_view (ic_detectors c) v = Inl e" for v
  proof (rule ccontr)
    assume "\<not> ?thesis"
    then obtain xs where "rmap (\<lambda>d. or_detection_error (dt_detect d (if dt_uses_folded d then v_folded v else v_text v)))
        (ic_detectors c) = Inr xs"
      by (cases "rmap (\<lambda>d. or_detection_error (dt_detect d (if dt_uses_folded d then v_folded v else v_text v))) (ic_detectors c)")
        (auto simp: detect_view_def)
    with assms(1) obtain y where "or_detection_error (dt_detect d (if dt_uses_folded d then v_folded v else v_text v)) = Inr y"
      by (auto simp: rmap_Inr_iff list_all2_conv_all_nth in_set_conv_nth)
    with assms(2) [of "if dt_uses_folded d then v_folded v else v_text v"] show False
      by (auto simp: or_detection_error_def)
  qed
  then have dv: "detect_view (ic_detectors c) v \<noteq> Inr xs" for v xs by (metis sum.distinct(1))
  have "\<exists>e. inspect_text (ic_ucd c) (ic_detectors c) (ic_block_mixed c) content = Inl e" for content
  proof (cases "inspect_text (ic_ucd c) (ic_detectors c) (ic_block_mixed c) content")
    case (Inr y)
    with dv show ?thesis by (auto simp: inspect_text_def Let_def res_simps)
  qed simp
  then show ?thesis
    by (cases "message_text m") (force simp: ms res_simps Let_def)+
qed

text \<open>
  C19: Inspection fails closed: a request that cannot be inspected, or any one of whose detectors raises,
  ends in an error with the whole state as it was -- nothing sent, nothing stored, nothing restored.
\<close>

theorem inspection_fails_closed:
  assumes "(\<exists>e. inspect_payload (pl_config P) payload = Inl e)
     \<or> (\<exists>d \<in> set (ic_detectors (pl_config P)). \<forall>t. \<exists>x. dt_detect d t = Inl x)"
  shows "\<exists>e. process P pc ctx payload w = (Inl e, w)"
proof -
  have "\<exists>e. inspect_payload (pl_config P) payload = Inl e"
    if "d \<in> set (ic_detectors (pl_config P))" "\<forall>t. \<exists>x. dt_detect d t = Inl x" for d
  proof (rule ccontr)
    assume "\<not> ?thesis"
    then obtain i ims where "inspect_payload (pl_config P) payload = Inr (i, ims)"
      by (cases "inspect_payload (pl_config P) payload") auto
    with inspect_payload_Inr obtain ms where "ms \<noteq> []" "inspect_loop (pl_config P) 0 0 ms = Inr ims" by blast
    with inspect_loop_detector [OF that(1), of ms 0 0] that(2) show False by auto
  qed
  with assms obtain e where "inspect_payload (pl_config P) payload = Inl e" by blast
  then have "process P pc ctx payload w = (Inl e, w)" by (simp add: process_def prepare_def Let_def)
  then show ?thesis ..
qed

theorem inspection_fails_closed_witness:
  "\<exists>e. process (sample_pipeline TRANSFORM LR_OFF) sample_clock sample_ctx [] sample_world = (Inl e, sample_world)"
  by (rule inspection_fails_closed)
    (simp add: sample_pipeline_def sample_config_def inspect_payload_def accepts_request_fields_def pd_get_or_def pd_get_def py_or_def)

subsection \<open>What a provider receives\<close>

lemma process_sends:
  assumes "process P pc ctx payload w = (r, w')" and "w_sent w' = w_sent w @ [(provider, out)]"
    and "inspect_payload (pl_config P) payload = Inr (i, ims)"
  shows "\<exists>n prov v. build_outbound (pl_gateway P) (ic_ucd (pl_config P)) (request_clock.truncate pc) ctx payload ims
        (d_action (policy_evaluate (pl_policy P) ctx i) \<in> {TRANSFORM, ROUTE_LOCAL}) prov_empty (w_vault w) = (Inr (out, n), prov, v)"
    and "map_of (pl_providers P) (d_destination (policy_evaluate (pl_policy P) ctx i)) = Some provider"
    and "must_be_local (pl_local_routing P) (entity_counts i) \<Longrightarrow> map_of (pl_providers P) LOCAL_DESTINATION = Some provider"
    and "d_action (policy_evaluate (pl_policy P) ctx i) \<noteq> BLOCK"
proof -
  from assms(2) have "w_sent w' \<noteq> w_sent w" by simp
  from process_sent [OF assms(1) this] assms(2) obtain pr v where
    pr: "prepare (pl_gateway P) (pl_config P) (pl_policy P) (request_clock.truncate pc) ctx payload (w_vault w) = (Inr pr, v)"
    and nb: "d_action (pr_decision pr) \<noteq> BLOCK" and out: "pr_outbound pr = Some out"
    and dest: "map_of (pl_providers P) (d_destination (pr_decision pr)) = Some provider"
    and loc: "must_be_local (pl_local_routing P) (pr_entity_counts pr) \<longrightarrow> map_of (pl_providers P) LOCAL_DESTINATION = Some provider"
    by auto
  from prepare_Inr [OF pr] assms(3) nb out have
    c: "pr_entity_counts pr = entity_counts i" "evaluate_with_base (pl_policy P) ctx i = (pr_base_decision pr, pr_decision pr)"
    and b: "build_outbound (pl_gateway P) (ic_ucd (pl_config P)) (request_clock.truncate pc) ctx payload ims
        (d_action (pr_decision pr) \<in> {TRANSFORM, ROUTE_LOCAL}) prov_empty (w_vault w) = (Inr (out, pr_transformed pr), pr_provenance pr, v)"
    by auto
  from c(2) have d: "policy_evaluate (pl_policy P) ctx i = pr_decision pr" by (simp add: policy_evaluate_def)
  from b show "\<exists>n prov v. build_outbound (pl_gateway P) (ic_ucd (pl_config P)) (request_clock.truncate pc) ctx payload ims
        (d_action (policy_evaluate (pl_policy P) ctx i) \<in> {TRANSFORM, ROUTE_LOCAL}) prov_empty (w_vault w) = (Inr (out, n), prov, v)"
    unfolding d by blast
  from dest loc nb c show "map_of (pl_providers P) (d_destination (policy_evaluate (pl_policy P) ctx i)) = Some provider"
    "must_be_local (pl_local_routing P) (entity_counts i) \<Longrightarrow> map_of (pl_providers P) LOCAL_DESTINATION = Some provider"
    "d_action (policy_evaluate (pl_policy P) ctx i) \<noteq> BLOCK"
    unfolding d by simp_all
qed

text \<open>
  C2: Where the policy masks, what a provider receives is the client's payload with each message's text
  replaced by its masked text -- every detected span replaced by the token of its value, everything
  else as it was -- and no other field of the payload changed.
\<close>

theorem provider_receives_masked:
  assumes "process P pc ctx payload w = (r, w')" and "w_sent w' = w_sent w @ [(provider, out)]"
    and "inspect_payload (pl_config P) payload = Inr (i, ims)"
    and "d_action (policy_evaluate (pl_policy P) ctx i) \<in> {TRANSFORM, ROUTE_LOCAL}"
    and "gw_backend (pl_gateway P) = in_memory" and "mt_format (gw_minter (pl_gateway P)) = ACTIVE_TOKEN_FORMAT"
    and "\<forall>m \<in> set ims. \<forall>s \<in> set (im_spans m). entity_ok (u_upper (ic_ucd (pl_config P)) (sp_type s))"
    and "clocks_ok (request_clock.truncate pc) T (w_vault w)"
  shows "out = outbound_payload payload (map (masked_text (gw_minter (pl_gateway P)) (ic_ucd (pl_config P)) ctx) ims)
     \<and> (\<forall>k. k \<noteq> ''messages'' \<longrightarrow> pd_get out k = pd_get payload k)"
proof -
  let ?U = "ic_ucd (pl_config P)"
  from process_sends(1) [OF assms(1-3)] assms(4) obtain n prov v where
    b: "build_outbound (pl_gateway P) ?U (request_clock.truncate pc) ctx payload ims True prov_empty (w_vault w) = (Inr (out, n), prov, v)"
    by auto
  then obtain ts where m: "masked_messages (pl_gateway P) ?U (request_clock.truncate pc) ctx True ims 0 prov_empty (w_vault w)
      = (Inr (ts, n), prov, v)" and out: "out = outbound_payload payload ts"
    by (auto simp: build_outbound_def split: sum.splits prod.splits)
  from inspect_payload_Inr [OF assms(3)] obtain ms where "inspect_loop (pl_config P) 0 0 ms = Inr ims" by blast
  then have sp: "\<forall>m \<in> set ims. \<forall>s \<in> set (im_spans m). span_of (im_text m) s \<and> entity_ok (u_upper ?U (sp_type s))"
    using inspect_loop_spans assms(7) by blast
  from masked_messages_ok [OF m assms(5,6) sp prov_ok_empty assms(8)] out show ?thesis
    by (auto simp: outbound_payload_def split: option.splits pyval.splits)
qed

text \<open>
  The tripwire of local routing holds whatever the policy engine decided: under \<open>all\<close>, and under
  \<open>detected\<close> when anything was detected, a payload only ever goes to the provider configured as \<open>local\<close>.
\<close>

theorem tripwire_floor:
  assumes "process P pc ctx payload w = (r, w')" and "w_sent w' = w_sent w @ [(provider, out)]"
    and "inspect_payload (pl_config P) payload = Inr (i, ims)"
    and "pl_local_routing P = LR_ALL \<or> pl_local_routing P = LR_DETECTED \<and> i_spans i \<noteq> []"
  shows "map_of (pl_providers P) LOCAL_DESTINATION = Some provider"
  by (rule process_sends(3) [OF assms(1-3)])
    (use assms(4) in \<open>auto simp: must_be_local_def entity_counts_empty_iff\<close>)



subsection \<open>What the client receives\<close>

text \<open>Two dictionaries that agree outside one key.\<close>

definition same_except :: "string \<Rightarrow> pydict \<Rightarrow> pydict \<Rightarrow> bool" where
  "same_except k d d' \<longleftrightarrow> (\<forall>j. j \<noteq> PStr (lit k) \<longrightarrow> map_of d' j = map_of d j)"

lemma same_except_set [simp]: "same_except k d (pd_set k v d)"
  by (simp add: same_except_def pd_set_def)

text \<open>A choice of the response and what became of it.\<close>

definition choice_restored :: "pydict \<Rightarrow> pydict \<Rightarrow> bool" where
  "choice_restored c c' \<longleftrightarrow> same_except ''message'' c c' \<and>
     (\<exists>msg msg'. py_dict (py_or (pd_get_or c ''message'' PNone) (PDict [])) = Inr msg
        \<and> pd_get c' ''message'' = Some (PDict msg') \<and> same_except ''content'' msg msg'
        \<and> (\<forall>v. pd_get msg ''content'' = Some v \<longrightarrow> py_unstr v = None \<longrightarrow> pd_get msg' ''content'' = Some v))"

lemma restore_choice_only_content:
  assumes "restore_choice G U clk ctx prov c st = (Inr c', st')"
  shows "choice_restored c c'"
proof -
  from assms obtain msg where msg: "py_dict (py_or (pd_get_or c ''message'' PNone) (PDict [])) = Inr msg"
    by (auto simp: restore_choice_def split: sum.splits)
  show ?thesis
  proof (cases "\<exists>s. pd_get_or msg ''content'' PNone = PStr s")
    case True
    then obtain s where s: "pd_get_or msg ''content'' PNone = PStr s" by blast
    then have "pd_get msg ''content'' = Some (PStr s)" by (auto simp: pd_get_or_def split: option.splits)
    with assms msg s show ?thesis
      by (auto simp: restore_choice_def choice_restored_def split: prod.splits sum.splits)
  next
    case False
    with assms msg have "c' = pd_set ''message'' (PDict msg) c"
      by (auto simp: restore_choice_def split: pyval.splits)
    then have "same_except ''message'' c c'" "pd_get c' ''message'' = Some (PDict msg)" by simp_all
    moreover have "same_except ''content'' msg msg" by (simp add: same_except_def)
    ultimately show ?thesis using msg unfolding choice_restored_def by blast
  qed
qed

lemma restore_choices_only_content:
  "restore_choices G U clks i ctx prov cs st = (Inr cs', st') \<Longrightarrow> list_all2 choice_restored cs cs'"
proof (induction cs arbitrary: i st cs')
  case (Cons c cs)
  from Cons.prems obtain c1 st1 rest where "restore_choice G U (clks i) ctx prov c st = (Inr c1, st1)"
    "restore_choices G U clks (Suc i) ctx prov cs st1 = (Inr rest, st')" "cs' = c1 # rest"
    by (auto split: prod.splits sum.splits)
  with Cons.IH restore_choice_only_content show ?case by simp
qed simp

text \<open>
  Restoration writes into message contents only: of a provider's response, every field outside the
  choices, every field of a choice outside its message and every field of a message outside its content
  is handed to the client as it came, and a content that is no text is left alone.
\<close>

theorem only_content_is_restored:
  assumes "restore_response G U clks budget ctx response prov v = (Inr (response', out), v')"
  shows "same_except ''choices'' response response' \<and>
     (\<exists>cs cs'. rbind (py_elements (pd_get_or response ''choices'' (PList []))) (rmap py_dict) = Inr cs
        \<and> pd_get response' ''choices'' = Some (PList (map PDict cs')) \<and> list_all2 choice_restored cs cs')"
proof -
  from assms obtain cs where cs: "rbind (py_elements (pd_get_or response ''choices'' (PList []))) (rmap py_dict) = Inr cs"
    by (auto simp: restore_response_def split: sum.splits)
  with assms obtain cs' st where r: "restore_choices G U clks 0 ctx prov cs
      \<lparr>re_outcome = outcome_init [], re_left = budget, re_vault = v\<rparr> = (Inr cs', st)"
    and "response' = pd_set ''choices'' (PList (map PDict cs')) response"
    by (auto simp: restore_response_def split: sum.splits prod.splits)
  then have "same_except ''choices'' response response'"
    "pd_get response' ''choices'' = Some (PList (map PDict cs'))" by simp_all
  with cs restore_choices_only_content [OF r] show ?thesis by blast
qed

theorem only_content_is_restored_witness:
  "\<exists>response' out v'. restore_response (pl_gateway (sample_pipeline TRANSFORM LR_OFF)) ascii_ucd (\<lambda>_ _. (10, 10)) 100 sample_ctx
      [(PStr (lit ''id''), PInt 7)] prov_empty sample_vault = (Inr (response', out), v') \<and> map_of response' (PStr (lit ''id'')) = Some (PInt 7)"
proof -
  obtain response' out v' where r: "restore_response (pl_gateway (sample_pipeline TRANSFORM LR_OFF)) ascii_ucd (\<lambda>_ _. (10, 10)) 100
      sample_ctx [(PStr (lit ''id''), PInt 7)] prov_empty sample_vault = (Inr (response', out), v')"
    by (simp add: restore_response_def pd_get_or_def pd_get_def)
  have "same_except ''choices'' [(PStr (lit ''id''), PInt 7)] response'"
    using only_content_is_restored [OF r] by (rule conjunct1)
  with r show ?thesis by (auto simp: same_except_def)
qed

subsection \<open>What is audited\<close>

text \<open>
  Every request that completes, and every one that is blocked, leaves exactly one audit event, whose
  counters are those of the restoration the client received; any other error leaves none.
\<close>

theorem completed_requests_are_audited_once:
  assumes "process P pc ctx payload w = (r, w')" and "pl_sink_write P = memory_write"
  shows "(case r of
       Inr x \<Rightarrow> \<exists>e. ms_events (w_sink w') = ms_events (w_sink w) @ [e]
          \<and> ae_request_id e = request_id ctx \<and> ae_entity_counts e = pp_entity_counts x
          \<and> ae_rule_name e = pp_rule_name x \<and> ae_policy_version e = pp_policy_version x
          \<and> ae_tokens_restored e = ro_restored (pp_restoration x) \<and> ae_tokens_refused e = total_refused (pp_restoration x)
          \<and> sum_list (map snd (ae_tokens_refused_by_reason e)) = ae_tokens_refused e
     | Inl e \<Rightarrow> w_sent w' = w_sent w \<and> (\<exists>ev. ms_events (w_sink w') = ms_events (w_sink w) @ [ev] \<and> ae_decision ev = lit ''block'')
          \<or> ms_events (w_sink w') = ms_events (w_sink w))"
proof (cases "prepare (pl_gateway P) (pl_config P) (pl_policy P) (request_clock.truncate pc) ctx payload (w_vault w)")
  case (Pair res v)
  show ?thesis
  proof (cases res)
    case (Inl e)
    with Pair assms(1) show ?thesis by (auto simp: process_def Let_def)
  next
    case (Inr pr)
    let ?model = "py_str (pl_show P) (pd_get_or payload ''model'' (PStr []))"
    show ?thesis
    proof (cases "d_action (pr_decision pr) = BLOCK")
      case True
      with Pair Inr assms show ?thesis
        by (auto simp: process_def Let_def memory.write_appends pipeline_event_def build_event_def)
    next
      case False
      with Pair Inr assms(1) have f: "forward P pc ctx ?model pr (w\<lparr>w_vault := v\<rparr>) = (r, w')"
        by (simp add: process_def Let_def)
      from forward_sent [OF f] consider e where "r = Inl e" "w' = w\<lparr>w_vault := v\<rparr>"
        | e out provider where "r = Inl e" "w' = w\<lparr>w_vault := v, w_sent := w_sent w @ [(provider, out)]\<rparr>"
        | provider out response where
          "respond P pc ctx ?model pr provider response (w\<lparr>w_vault := v, w_sent := w_sent w @ [(provider, out)]\<rparr>) = (r, w')"
        by auto
      then show ?thesis
      proof cases
        case 3
        let ?w = "w\<lparr>w_vault := v, w_sent := w_sent w @ [(provider, out)]\<rparr>"
        show ?thesis
        proof (cases r)
          case (Inl e)
          with respond_world(2) [OF 3] show ?thesis by auto
        next
          case r: (Inr x)
          with respond_world(2) [OF 3] assms(2) obtain o' where
            o: "pp_restoration x = o'" "w_sink w' = memory_write (pipeline_event pc ctx ?model pr (pl_provider_name P provider)
                (response_extras pr o')) (w_sink w)" by auto
          from 3 r have "pp_entity_counts x = pr_entity_counts pr" "pp_rule_name x = d_rule_name (pr_decision pr)"
            "pp_policy_version x = d_policy_version (pr_decision pr)"
            by (auto simp: respond_def Let_def split: prod.splits sum.splits)
          with o r show ?thesis
            by (simp add: memory.write_appends pipeline_event_def build_event_def response_extras_def sum_reasons)
        qed
      qed simp_all
    qed
  qed
qed

subsection \<open>There and back\<close>

definition reply_content :: "pydict \<Rightarrow> ustr option" where
  \<comment> \<open>\<open>response["choices"][0]["message"]["content"]\<close>\<close>
  "reply_content response =
     (case pd_get response ''choices'' of
        Some (PList (PDict c # _)) \<Rightarrow>
          (case pd_get c ''message'' of
             Some (PDict m) \<Rightarrow> (case pd_get m ''content'' of Some (PStr s) \<Rightarrow> Some s | _ \<Rightarrow> None)
           | _ \<Rightarrow> None)
      | _ \<Rightarrow> None)"

lemma inspect_loop_texts:
  "inspect_loop c i n ms = Inr ims \<Longrightarrow> length ims = length ms \<and> (\<forall>k < length ms. message_text (ms ! k) = Inr (im_text (ims ! k)))"
proof (induction ms arbitrary: i n ims)
  case (Cons m ms)
  then obtain content spans signals rest where "message_text m = Inr content"
    "inspect_loop c (Suc i) (n + int (length content)) ms = Inr rest"
    "ims = \<lparr>im_index = i, im_text = content, im_spans = spans, im_signals = signals\<rparr> # rest"
    by (auto simp: res_simps Let_def split: if_splits)
  with Cons.IH show ?case by (fastforce simp: nth_Cons split: nat.splits)
qed simp

lemma message_text_user:
  assumes "message_text m = Inr t"
  shows "\<exists>d. m = PDict d \<and> pd_get_or d ''content'' PNone = PStr t"
  using assms by (auto simp: message_text_def split: pyval.splits if_splits)

text \<open>The reply of the offline provider to a payload whose last message comes from a user.\<close>

lemma mock_reply:
  assumes "pd_get payload ''messages'' = Some (PList (ms @ [PDict d]))" and "pd_get_or d ''role'' PNone = PStr (lit ''user'')"
    and "length ts = length ms"
  shows "\<exists>rest. mock_chat U show (outbound_payload payload (ts @ [t])) = Inr rest
     \<and> pd_get rest ''choices'' = Some (PList [PDict
         [(PStr (lit ''index''), PInt 0),
          (PStr (lit ''message''), PDict [(PStr (lit ''role''), PStr (lit ''assistant'')),
             (PStr (lit ''content''), PStr (lit ''[mock] received: '' @ t))]),
          (PStr (lit ''finish_reason''), PStr (lit ''stop''))]])"
proof -
  let ?m = "set_content (PDict d) t"
  have o: "pd_get (outbound_payload payload (ts @ [t])) ''messages'' = Some (PList (map2 set_content ms ts @ [?m]))"
    using assms by (simp add: outbound_payload_def)
  have r: "pd_get_or (pd_set ''content'' (PStr t) d) ''role'' PNone = PStr (lit ''user'')"
    using assms(2) by (simp add: pd_get_or_def)
  have "last_user_content show (rev (map2 set_content ms ts @ [?m])) = Inr t"
    using r by (simp add: pd_get_or_def)
  with o show ?thesis by (simp add: mock_chat_def pd_get_or_def Let_def) (simp add: pd_get_def)
qed

lemma restore_mock_reply:
  assumes "restore (gw_env G) (gw_backend G) U (clks 0) ctx t prov budget v = (Inr out, v')"
    and "pd_get response ''choices'' = Some (PList [PDict
         [(PStr (lit ''index''), PInt 0),
          (PStr (lit ''message''), PDict [(PStr (lit ''role''), PStr (lit ''assistant'')), (PStr (lit ''content''), PStr t)]),
          (PStr (lit ''finish_reason''), PStr (lit ''stop''))]])"
  shows "\<exists>response'. restore_response G U clks budget ctx response prov v = (Inr (response', outcome_merge (outcome_init []) out), v')
     \<and> reply_content response' = Some (ro_text out)"
proof -
  let ?msg = "[(PStr (lit ''role''), PStr (lit ''assistant'')), (PStr (lit ''content''), PStr t)]"
  let ?c = "[(PStr (lit ''index''), PInt 0), (PStr (lit ''message''), PDict ?msg), (PStr (lit ''finish_reason''), PStr (lit ''stop''))]"
  have c: "rbind (py_elements (pd_get_or response ''choices'' (PList []))) (rmap py_dict) = Inr [?c]"
    using assms(2) by (simp add: pd_get_or_def py_dict_def)
  have m: "py_dict (py_or (pd_get_or ?c ''message'' PNone) (PDict [])) = Inr ?msg" "pd_get_or ?msg ''content'' PNone = PStr t"
    by (simp_all add: pd_get_or_def pd_get_def py_or_def py_dict_def)
  let ?st = "\<lparr>re_outcome = outcome_init [], re_left = budget, re_vault = v\<rparr>"
  have "restore_choice G U (clks 0) ctx prov ?c ?st =
      (Inr (pd_set ''message'' (PDict (pd_set ''content'' (PStr (ro_text out)) ?msg)) ?c),
       \<lparr>re_outcome = outcome_merge (outcome_init []) out, re_left = budget - int (length (utf8 (ro_text out))), re_vault = v'\<rparr>)"
    unfolding restore_choice_def m(1) using m(2) assms(1) by simp
  then have "restore_response G U clks budget ctx response prov v =
      (Inr (pd_set ''choices'' (PList [PDict (pd_set ''message'' (PDict (pd_set ''content'' (PStr (ro_text out)) ?msg)) ?c)]) response,
            outcome_merge (outcome_init []) out), v')"
    unfolding restore_response_def c by simp
  then show ?thesis by (simp add: reply_content_def)
qed

lemma roundtrip_core:
  fixes P :: "(items, 's) pipeline"
  assumes ins: "inspect_payload (pl_config P) payload = Inr (i, ims)"
    and act: "d_action (policy_evaluate (pl_policy P) ctx i) \<in> {TRANSFORM, ROUTE_LOCAL}"
    and dest: "d_destination (policy_evaluate (pl_policy P) ctx i) = PStr name" "map_of (pl_providers P) (PStr name) = Some provider"
    and floor: "must_be_local (pl_local_routing P) (entity_counts i) \<longrightarrow> map_of (pl_providers P) LOCAL_DESTINATION = Some provider"
    and chat: "pl_chat P provider = mock_chat (ic_ucd (pl_config P)) shw"
    and user: "pd_get payload ''messages'' = Some (PList (ms @ [PDict d]))" "pd_get_or d ''role'' PNone = PStr (lit ''user'')"
      "pd_get_or d ''content'' PNone = PStr txt"
    and env: "aead_ok (gw_env (pl_gateway P))" "gw_backend (pl_gateway P) = in_memory"
      "mt_format (gw_minter (pl_gateway P)) = ACTIVE_TOKEN_FORMAT" "keyring_ok (vt_keys (w_vault w))"
    and ents: "\<forall>m \<in> set ims. \<forall>s \<in> set (im_spans m). entity_ok (u_upper (ic_ucd (pl_config P)) (sp_type s))"
    and same: "\<forall>a \<in> set (i_spans i). \<forall>b \<in> set (i_spans i).
        token_of (gw_minter (pl_gateway P)) (ic_ucd (pl_config P)) ctx (sp_type a) (sp_text a) =
        token_of (gw_minter (pl_gateway P)) (ic_ucd (pl_config P)) ctx (sp_type b) (sp_text b) \<longrightarrow> sp_text a = sp_text b"
    and clk: "clocks_ok (request_clock.truncate pc) T (w_vault w)" "\<And>k. fst (rc_get pc 0 k) < T \<and> snd (rc_get pc 0 k) < T"
    and free: "finditer TOKEN_PATTERN txt = []"
    and budget: "int (length (utf8 (lit ''[mock] received: '' @ txt))) \<le> pl_max_output P"
  shows "\<exists>x w' out. process P pc ctx payload w = (Inr x, w')
     \<and> w_sent w' = w_sent w @ [(provider, out)]
     \<and> reply_content (pp_response x) = Some (lit ''[mock] received: '' @ txt) \<and> total_refused (pp_restoration x) = 0"
proof -
  let ?U = "ic_ucd (pl_config P)" and ?G = "pl_gateway P" and ?rc = "request_clock.truncate pc"
  let ?d = "policy_evaluate (pl_policy P) ctx i" and ?masked = "masked_text (gw_minter ?G) ?U ctx"
  let ?m = "last ims" and ?S = "set (i_spans i)" and ?pre = "lit ''[mock] received: ''"
  from inspect_payload_Inr [OF ins] user(1) have il: "inspect_loop (pl_config P) 0 0 (ms @ [PDict d]) = Inr ims"
    and i: "i = \<lparr>i_spans = concat (map im_spans ims)\<rparr>" by auto
  from inspect_loop_texts [OF il] have len: "length ims = Suc (length ms)"
    and "message_text ((ms @ [PDict d]) ! length ms) = Inr (im_text (ims ! length ms))" by auto
  then have "message_text (PDict d) = Inr (im_text (ims ! length ms))" by simp
  from message_text_user [OF this] user(3) have "im_text (ims ! length ms) = txt" by auto
  moreover have ne: "ims \<noteq> []" using len by auto
  ultimately have mt: "im_text ?m = txt" using len by (simp add: last_conv_nth)
  from ne have m_in: "?m \<in> set ims" by simp
  have spans: "\<forall>m \<in> set ims. set (im_spans m) \<subseteq> ?S \<and> (\<forall>s \<in> set (im_spans m). span_of (im_text m) s \<and> entity_ok (u_upper ?U (sp_type s)))"
    using inspect_loop_spans [OF il] ents i by auto
  from masked_messages_total [OF env(2,3) same spans prov_ok_empty minted_from_empty clk(1) env(4)]
  obtain n prov v where mm: "masked_messages ?G ?U ?rc ctx True ims 0 prov_empty (w_vault w) = (Inr (map ?masked ims, n), prov, v)"
    and ok: "prov_ok (gw_env ?G) ?U ctx T prov v" and from_S: "minted_from (gw_minter ?G) ?U ctx ?S prov"
    and reg: "\<forall>m \<in> set ims. \<forall>s \<in> set (resolve_conflicts (im_spans m)). prov_lookup prov (token_of (gw_minter ?G) ?U ctx (sp_type s) (sp_text s)) \<noteq> None"
    by blast
  let ?out = "outbound_payload payload (map ?masked ims)"
  obtain base where e: "evaluate_with_base (pl_policy P) ctx i = (base, ?d)"
    by (cases "evaluate_with_base (pl_policy P) ctx i") (simp add: policy_evaluate_def)
  obtain pr where pr: "prepare ?G (pl_config P) (pl_policy P) ?rc ctx payload (w_vault w) = (Inr pr, v)"
    and pr': "pr_decision pr = ?d" "pr_entity_counts pr = entity_counts i" "pr_outbound pr = Some ?out" "pr_provenance pr = prov"
    using ins e act mm by (auto simp: prepare_def build_outbound_def Let_def)
  have own: "\<exists>g. prov_lookup prov (token_of (gw_minter ?G) ?U ctx (sp_type s) (sp_text s)) = Some g \<and> su_original g = sp_text s"
    if "s \<in> set (resolve_conflicts (im_spans ?m))" for s
  proof -
    from reg that m_in obtain g where g: "prov_lookup prov (token_of (gw_minter ?G) ?U ctx (sp_type s) (sp_text s)) = Some g" by blast
    with from_S obtain a where a: "a \<in> ?S" "token_of (gw_minter ?G) ?U ctx (sp_type s) (sp_text s) =
        token_of (gw_minter ?G) ?U ctx (sp_type a) (sp_text a)" "su_original g = sp_text a"
      by (auto simp: minted_from_def)
    have "s \<in> ?S" using that resolve_subset spans m_in by blast
    with same a have "sp_text a = sp_text s" by metis
    with g a(3) show ?thesis by simp
  qed
  have sp_m: "\<forall>s \<in> set (im_spans ?m). span_of (im_text ?m) s \<and> entity_ok (u_upper ?U (sp_type s))"
    using spans m_in by blast
  have free': "tok_split (im_text ?m) = map Chr (im_text ?m)" using free by (simp add: mt finditer_Nil_iff)
  have pre: "60 \<notin> set ?pre" by (simp add: lit_def of_char_def)
  have "\<exists>out. restore (gw_env ?G) in_memory ?U (rc_get pc 0) ctx (?pre @ ?masked ?m) prov (pl_max_output P) v = (Inr out, v)
      \<and> ro_text out = ?pre @ txt \<and> ro_restored out = length (resolve_conflicts (im_spans ?m)) \<and> total_refused out = 0"
    unfolding masked_text_def
    using restore_masked [where rclk = "rc_get pc 0" and T = T, OF env(1) ok sp_m free' pre own clk(2)] budget by (simp add: mt)
  then obtain out where res: "restore (gw_env ?G) (gw_backend ?G) ?U (rc_get pc 0) ctx (?pre @ ?masked ?m) prov (pl_max_output P) v = (Inr out, v)"
    and out: "ro_text out = ?pre @ txt" "total_refused out = 0" unfolding env(2) by blast
  have "map ?masked ims = map ?masked (butlast ims) @ [?masked ?m]"
    using ne by (metis append_butlast_last_id list.simps(8,9) map_append)
  with mock_reply [OF user(1,2), of "map ?masked (butlast ims)" ?U shw "?masked ?m"] len chat
  obtain response where rsp: "pl_chat P provider ?out = Inr response" and ch: "pd_get response ''choices'' = Some (PList [PDict
         [(PStr (lit ''index''), PInt 0),
          (PStr (lit ''message''), PDict [(PStr (lit ''role''), PStr (lit ''assistant'')),
             (PStr (lit ''content''), PStr (?pre @ ?masked ?m))]),
          (PStr (lit ''finish_reason''), PStr (lit ''stop''))]])" by auto
  from restore_mock_reply [where clks = "rc_get pc", OF res ch] obtain response' where
    rr: "restore_response ?G ?U (rc_get pc) (pl_max_output P) ctx response prov v = (Inr (response', outcome_merge (outcome_init []) out), v)"
    "reply_content response' = Some (?pre @ txt)" using out by auto
  have "\<exists>x w'. forward P pc ctx model pr (w\<lparr>w_vault := v\<rparr>) = (Inr x, w') \<and> w_sent w' = w_sent w @ [(provider, ?out)]
      \<and> pp_response x = response' \<and> pp_restoration x = outcome_merge (outcome_init []) out" for model
    using pr' dest floor rsp rr(1) by (simp add: forward_def respond_def Let_def)
  with pr pr'(1) act have "\<exists>x w'. process P pc ctx payload w = (Inr x, w') \<and> w_sent w' = w_sent w @ [(provider, ?out)]
      \<and> pp_response x = response' \<and> pp_restoration x = outcome_merge (outcome_init []) out"
    by (auto simp: process_def Let_def)
  then obtain x w' where "process P pc ctx payload w = (Inr x, w')" "w_sent w' = w_sent w @ [(provider, ?out)]"
    "pp_response x = response'" "pp_restoration x = outcome_merge (outcome_init []) out" by blast
  moreover have "total_refused (outcome_merge (outcome_init []) out) = 0"
    using out(2) by (simp add: total_refused_merge) (simp add: total_refused_def outcome_init_def)
  ultimately show ?thesis using rr(2) by auto
qed


lemma sample_entity: "entity_ok (u_upper ascii_ucd (sp_type sample_found))"
proof -
  have "u_upper ascii_ucd (sp_type sample_found) = lit ''EMAIL_ADDRESS''" by code_simp
  moreover have "entity_ok (lit ''EMAIL_ADDRESS'')" by (simp add: entity_ok_def Ball_set_list_all) code_simp
  ultimately show ?thesis by simp
qed

lemma sample_hyps:
  "d_action (policy_evaluate (pl_policy (sample_pipeline TRANSFORM LR_OFF)) sample_ctx i) = TRANSFORM"
  "d_destination (policy_evaluate (pl_policy (sample_pipeline TRANSFORM LR_OFF)) sample_ctx i) = PStr (lit ''external'')"
  "pl_config (sample_pipeline act mode) = sample_config" "ic_ucd sample_config = ascii_ucd"
  "map_of (pl_providers (sample_pipeline act mode)) (PStr (lit ''external'')) = Some 0"
  "must_be_local (pl_local_routing (sample_pipeline act LR_OFF)) counts = False"
  "pl_chat (sample_pipeline act mode) 0 = mock_chat ascii_ucd (\<lambda>_. [])"
  "pl_gateway (sample_pipeline act mode) = \<lparr>gw_env = sample_env, gw_backend = in_memory, gw_minter = sample_minter\<rparr>"
  "w_vault sample_world = sample_vault" "w_sent sample_world = []"
  "clocks_ok (request_clock.truncate sample_clock) 3600 sample_vault"
  "rc_get sample_clock = (\<lambda>_ _. (10, 10))"
  "mt_format sample_minter = ACTIVE_TOKEN_FORMAT"
  "pl_max_output (sample_pipeline act mode) = 8388608"
  by (simp_all add: sample_pipeline_def sample_gate_decides sample_config_def must_be_local_def sample_world_def
      clocks_ok_def request_clock.truncate_def sample_clock_def sample_minter_def MAX_RESTORED_CONTENT_BYTES_def)

lemma sample_user:
  "pd_get sample_payload ''messages'' = Some (PList ([] @
     [PDict [(PStr (lit ''role''), PStr (lit ''user'')), (PStr (lit ''content''), PStr sample_text)]]))"
  by (simp add: sample_payload_def sample_messages_def pd_get_def)


lemma sample_process:
  "\<exists>x w' out. process (sample_pipeline TRANSFORM LR_OFF) sample_clock sample_ctx sample_payload sample_world = (Inr x, w')
     \<and> w_sent w' = w_sent sample_world @ [(0, out)]"
proof -
  have "\<exists>x w' out. process (sample_pipeline TRANSFORM LR_OFF) sample_clock sample_ctx sample_payload sample_world = (Inr x, w')
     \<and> w_sent w' = w_sent sample_world @ [(0, out)]
     \<and> reply_content (pp_response x) = Some (lit ''[mock] received: '' @ sample_text) \<and> total_refused (pp_restoration x) = 0"
  proof (rule roundtrip_core [where T = 3600 and shw = "\<lambda>_. []" and name = "lit ''external''", OF _ _ _ _ _ _ sample_user])
    show "int (length (utf8 (lit ''[mock] received: '' @ sample_text))) \<le> pl_max_output (sample_pipeline TRANSFORM LR_OFF)"
      unfolding sample_hyps by code_simp
  qed (simp_all add: sample_hyps sample_inspect sample_inspected_def sample_entity sample_env_ok sample_span_ok pd_get_or_def pd_get_def, (auto simp: sample_entity)?)
  then show ?thesis by blast
qed

theorem provider_receives_masked_witness:
  "\<exists>r w' out. process (sample_pipeline TRANSFORM LR_OFF) sample_clock sample_ctx sample_payload sample_world = (r, w')
     \<and> w_sent w' = [(0, out)]
     \<and> out = outbound_payload sample_payload [masked_text sample_minter ascii_ucd sample_ctx sample_inspected]"
proof -
  obtain x w' out where p: "process (sample_pipeline TRANSFORM LR_OFF) sample_clock sample_ctx sample_payload sample_world = (Inr x, w')"
    and s: "w_sent w' = w_sent sample_world @ [(0, out)]" using sample_process by blast
  have i: "inspect_payload (pl_config (sample_pipeline TRANSFORM LR_OFF)) sample_payload = Inr (\<lparr>i_spans = [sample_found]\<rparr>, [sample_inspected])"
    by (simp add: sample_hyps sample_inspect)
  have e: "\<forall>m \<in> set [sample_inspected]. \<forall>s \<in> set (im_spans m).
      entity_ok (u_upper (ic_ucd (pl_config (sample_pipeline TRANSFORM LR_OFF))) (sp_type s))"
    by (simp add: sample_hyps sample_inspected_def sample_entity)
  have "out = outbound_payload sample_payload
      (map (masked_text (gw_minter (pl_gateway (sample_pipeline TRANSFORM LR_OFF))) (ic_ucd (pl_config (sample_pipeline TRANSFORM LR_OFF))) sample_ctx)
        [sample_inspected])"
    by (rule conjunct1 [OF provider_receives_masked [OF p s i _ _ _ e, of 3600]]) (simp_all add: sample_hyps)
  with p s show ?thesis by (auto simp: sample_hyps)
qed

lemma sample_local:
  "policy_evaluate (sample_gate TRANSFORM LR_DETECTED) ctx \<lparr>i_spans = [sample_found]\<rparr> =
     \<lparr>d_action = ROUTE_LOCAL, d_destination = LOCAL_DESTINATION, d_rule_name = lit ''local-routing:detected'',
      d_policy_version = lit ''1'', d_matched = [lit ''EMAIL_ADDRESS''],
      d_reason = Moved_local (lit ''detected'') (lit ''default'') TRANSFORM (PStr (lit ''external''))\<rparr>"
  by (simp add: policy_evaluate_def evaluate_with_base_def first_match_def sample_gate_def sample_rule_def rule_matches_def
      rule_destination_def py_or_def apply_local_routing_def requires_local_def Let_def LOCAL_DESTINATION_def
      entity_types_def sample_found_def lit_def)

lemma sample_process_local:
  "\<exists>x w' out. process (sample_pipeline TRANSFORM LR_DETECTED) sample_clock sample_ctx sample_payload sample_world = (Inr x, w')
     \<and> w_sent w' = w_sent sample_world @ [(1, out)]"
proof -
  have "\<exists>x w' out. process (sample_pipeline TRANSFORM LR_DETECTED) sample_clock sample_ctx sample_payload sample_world = (Inr x, w')
     \<and> w_sent w' = w_sent sample_world @ [(1, out)]
     \<and> reply_content (pp_response x) = Some (lit ''[mock] received: '' @ sample_text) \<and> total_refused (pp_restoration x) = 0"
  proof (rule roundtrip_core [where T = 3600 and shw = "\<lambda>_. []" and name = "lit ''local''", OF _ _ _ _ _ _ sample_user])
    show "int (length (utf8 (lit ''[mock] received: '' @ sample_text))) \<le> pl_max_output (sample_pipeline TRANSFORM LR_DETECTED)"
      unfolding sample_hyps by code_simp
    show "map_of (pl_providers (sample_pipeline TRANSFORM LR_DETECTED)) (PStr (lit ''local'')) = Some 1"
      "must_be_local (pl_local_routing (sample_pipeline TRANSFORM LR_DETECTED)) (entity_counts \<lparr>i_spans = [sample_found]\<rparr>) \<longrightarrow>
         map_of (pl_providers (sample_pipeline TRANSFORM LR_DETECTED)) LOCAL_DESTINATION = Some 1"
      by (simp_all add: sample_pipeline_def LOCAL_DESTINATION_def)
    show "pl_chat (sample_pipeline TRANSFORM LR_DETECTED) 1 = mock_chat (ic_ucd (pl_config (sample_pipeline TRANSFORM LR_DETECTED))) (\<lambda>_. [])"
      by (simp add: sample_pipeline_def sample_config_def)
    show "d_action (policy_evaluate (pl_policy (sample_pipeline TRANSFORM LR_DETECTED)) sample_ctx \<lparr>i_spans = [sample_found]\<rparr>) \<in> {TRANSFORM, ROUTE_LOCAL}"
      "d_destination (policy_evaluate (pl_policy (sample_pipeline TRANSFORM LR_DETECTED)) sample_ctx \<lparr>i_spans = [sample_found]\<rparr>) = PStr (lit ''local'')"
      by (simp_all add: sample_pipeline_def sample_local LOCAL_DESTINATION_def)
  qed (simp_all add: sample_hyps sample_inspect sample_inspected_def sample_entity sample_env_ok sample_span_ok pd_get_or_def pd_get_def, (auto simp: sample_entity)?)
  then show ?thesis by blast
qed

theorem tripwire_floor_witness:
  "\<exists>r w' out. process (sample_pipeline TRANSFORM LR_DETECTED) sample_clock sample_ctx sample_payload sample_world = (r, w')
     \<and> w_sent w' = [(1, out)] \<and> map_of (pl_providers (sample_pipeline TRANSFORM LR_DETECTED)) LOCAL_DESTINATION = Some 1"
proof -
  obtain x w' out where p: "process (sample_pipeline TRANSFORM LR_DETECTED) sample_clock sample_ctx sample_payload sample_world = (Inr x, w')"
    and s: "w_sent w' = w_sent sample_world @ [(1, out)]" using sample_process_local by blast
  have i: "inspect_payload (pl_config (sample_pipeline TRANSFORM LR_DETECTED)) sample_payload = Inr (\<lparr>i_spans = [sample_found]\<rparr>, [sample_inspected])"
    by (simp add: sample_hyps sample_inspect)
  have "map_of (pl_providers (sample_pipeline TRANSFORM LR_DETECTED)) LOCAL_DESTINATION = Some 1"
    by (rule tripwire_floor [OF p s i]) (simp add: sample_pipeline_def)
  with p s show ?thesis by (auto simp: sample_hyps)
qed

theorem completed_requests_are_audited_once_witness:
  "\<exists>x w' e. process (sample_pipeline TRANSFORM LR_OFF) sample_clock sample_ctx sample_payload sample_world = (Inr x, w')
     \<and> ms_events (w_sink w') = [e] \<and> ae_request_id e = request_id sample_ctx \<and> ae_entity_counts e = pp_entity_counts x"
proof -
  obtain x w' where p: "process (sample_pipeline TRANSFORM LR_OFF) sample_clock sample_ctx sample_payload sample_world = (Inr x, w')"
    using sample_process by blast
  have "pl_sink_write (sample_pipeline TRANSFORM LR_OFF) = memory_write" by (simp add: sample_pipeline_def)
  from completed_requests_are_audited_once [OF p this] p show ?thesis by (auto simp: sample_world_def)
qed

end
