(* ===== verification/Access.thy ===== *)
theory Access
  imports Tokens Regex Vault
begin

text \<open>
  Who is calling and in which namespace: the API-key store \<^verbatim>\<open>gateway/auth/keys.py\<close>, the session scopes
  \<^verbatim>\<open>gateway/sessions/scope.py\<close>, and key derivation \<^verbatim>\<open>gateway/crypto.py\<close>.  HKDF, the random secret of
  a new key and the random session name are parameters.
\<close>

subsection \<open>API keys\<close>

record api_key =
  ak_key_id :: ustr
  ak_key_hash :: ustr
  ak_tenant_id :: ustr
  ak_application :: ustr
  ak_allowed_models :: "ustr list"

definition permits_model :: "api_key \<Rightarrow> ustr \<Rightarrow> bool" where
  "permits_model k m \<longleftrightarrow> ak_allowed_models k = [] \<or> m \<in> set (ak_allowed_models k)"

definition KEY_PREFIX :: ustr where "KEY_PREFIX = lit ''sgw_live_''"

definition hash_key :: "ustr \<Rightarrow> ustr" where
  "hash_key plaintext = hex_bytes (sha256 (utf8 plaintext))"

definition generate_key :: "ustr \<Rightarrow> ustr \<times> ustr" where
  \<comment> \<open>of the secret \<open>secrets.token_urlsafe(32)\<close>\<close>
  "generate_key secret = (KEY_PREFIX @ secret, hash_key (KEY_PREFIX @ secret))"

type_synonym key_store = "(ustr \<times> api_key) list"

definition store_add :: "api_key \<Rightarrow> key_store \<Rightarrow> key_store" where
  "store_add k s = AList.update (ak_key_hash k) k s"

definition mk_store :: "api_key list \<Rightarrow> key_store" where
  "mk_store ks = fold store_add ks []"

definition store_revoke :: "ustr \<Rightarrow> key_store \<Rightarrow> bool \<times> key_store" where
  "store_revoke key_id s =
     (let matches = map fst (filter (\<lambda>(_, k). ak_key_id k = key_id) s)
      in (matches \<noteq> [], fold AList.delete matches s))"

definition authenticate :: "key_store \<Rightarrow> ustr \<Rightarrow> api_key option" where
  "authenticate s presented =
     (if presented = [] \<or> \<not> starts_with presented KEY_PREFIX then None
      else case map_of s (hash_key presented) of
             None \<Rightarrow> None
           | Some k \<Rightarrow> if ak_key_hash k \<noteq> hash_key presented then None else Some k)"

text \<open>The invariant of a store: its keys are distinct, and each key is filed under its own hash.\<close>

definition store_ok :: "key_store \<Rightarrow> bool" where
  "store_ok s \<longleftrightarrow> distinct (map fst s) \<and> (\<forall>(h, k) \<in> set s. ak_key_hash k = h)"

lemma store_ok_Nil [intro]: "store_ok []"
  by (simp add: store_ok_def)

lemma set_AList_update: "set (AList.update k v s) \<subseteq> insert (k, v) (set s)"
  by (induction s) auto

lemma store_add_ok [intro]: "store_ok s \<Longrightarrow> store_ok (store_add k s)"
  using set_AList_update [of "ak_key_hash k" k s]
  by (fastforce simp: store_ok_def store_add_def distinct_update)

lemma mk_store_ok: "store_ok (mk_store ks)"
proof -
  have "store_ok s \<Longrightarrow> store_ok (fold store_add ks s)" for s by (induction ks arbitrary: s) auto
  then show ?thesis by (auto simp: mk_store_def)
qed

lemma fold_delete_set: "set (fold AList.delete ks s) = {(k, v) \<in> set s. k \<notin> set ks}"
  by (induction ks arbitrary: s) (auto simp: AList.delete_eq)

lemma distinct_fold_delete': "distinct (map fst s) \<Longrightarrow> distinct (map fst (fold AList.delete ks s))"
  by (induction ks arbitrary: s) (auto intro: distinct_delete)

lemma store_revoke_ok [intro]: "store_ok s \<Longrightarrow> store_ok (snd (store_revoke key_id s))"
  by (auto simp: store_ok_def store_revoke_def Let_def fold_delete_set intro: distinct_fold_delete')

lemma store_lookup: "store_ok s \<Longrightarrow> map_of s h = Some k \<longleftrightarrow> (h, k) \<in> set s"
  by (simp add: store_ok_def)

lemma authenticate_lookup:
  assumes "store_ok s"
  shows "authenticate s p = (if starts_with p KEY_PREFIX then map_of s (hash_key p) else None)"
proof -
  have p: "starts_with p KEY_PREFIX \<Longrightarrow> p \<noteq> []" by (auto simp: starts_with_def KEY_PREFIX_def lit_def)
  show ?thesis
  proof (cases "map_of s (hash_key p)")
    case None
    then show ?thesis by (simp add: authenticate_def)
  next
    case (Some k)
    then have "(hash_key p, k) \<in> set s" by (rule map_of_SomeD)
    with assms have "ak_key_hash k = hash_key p" by (auto simp: store_ok_def)
    with Some p show ?thesis by (simp add: authenticate_def)
  qed
qed

lemma revoke_lookup:
  assumes "store_ok s"
  shows "map_of (snd (store_revoke key_id s)) h =
     (case map_of s h of Some k \<Rightarrow> if ak_key_id k = key_id then None else Some k | None \<Rightarrow> None)"
proof -
  let ?gone = "map fst (filter (\<lambda>(_, k). ak_key_id k = key_id) s)"
  have "map_of (snd (store_revoke key_id s)) h = (if h \<in> set ?gone then None else map_of s h)"
    by (simp add: store_revoke_def map_of_fold_delete)
  moreover have "h \<in> set ?gone \<longleftrightarrow> (\<exists>k. map_of s h = Some k \<and> ak_key_id k = key_id)"
    unfolding store_lookup [OF assms] by force
  ultimately show ?thesis by (auto split: option.splits)
qed

text \<open>
  Authentication after revocation: revoking a key ID refuses every credential of that principal
  from then on, however many hashes it was filed under, and changes no other credential's answer; the
  result says whether there was anything to revoke.
\<close>

theorem revocation_exact:
  assumes "store_ok s"
  shows "authenticate (snd (store_revoke key_id s)) p =
       (case authenticate s p of Some k \<Rightarrow> if ak_key_id k = key_id then None else Some k | None \<Rightarrow> None)
     \<and> (fst (store_revoke key_id s) \<longleftrightarrow> (\<exists>(h, k) \<in> set s. ak_key_id k = key_id))"
proof -
  have "fst (store_revoke key_id s) \<longleftrightarrow> (\<exists>(h, k) \<in> set s. ak_key_id k = key_id)"
    by (auto simp: store_revoke_def Let_def filter_empty_conv)
  then show ?thesis
    by (simp add: authenticate_lookup [OF assms] authenticate_lookup [OF store_revoke_ok [OF assms]] revoke_lookup [OF assms])
qed

definition sample_key :: "string \<Rightarrow> api_key" where
  "sample_key key_id = \<lparr>ak_key_id = lit key_id, ak_key_hash = lit ''00'', ak_tenant_id = lit ''acme'',
     ak_application = lit ''default'', ak_allowed_models = []\<rparr>"

theorem revocation_exact_witness:
  "authenticate (snd (store_revoke (lit ''alice'') (mk_store [sample_key ''alice'']))) KEY_PREFIX = None
   \<and> fst (store_revoke (lit ''alice'') (mk_store [sample_key ''alice'']))"
proof -
  have k: "ak_key_id k = lit ''alice''" if "authenticate (mk_store [sample_key ''alice'']) KEY_PREFIX = Some k" for k
    using that unfolding authenticate_lookup [OF mk_store_ok]
    by (auto simp: mk_store_def store_add_def sample_key_def split: if_splits)
  show ?thesis
    using revocation_exact [OF mk_store_ok, of "lit ''alice''" "[sample_key ''alice'']" KEY_PREFIX] k
    by (auto simp: mk_store_def store_add_def sample_key_def split: option.splits)
qed

text \<open>A generated key authenticates once it is registered.\<close>

lemma generated_key_authenticates:
  assumes "store_ok s" and "generate_key secret = (plain, h)" and "ak_key_hash k = h"
  shows "authenticate (store_add k s) plain = Some k"
  using assms by (auto simp: generate_key_def authenticate_def store_add_def starts_with_def KEY_PREFIX_def lit_def)

subsection \<open>Session scopes\<close>

definition session_char :: "cp \<Rightarrow> bool" where
  "session_char c \<longleftrightarrow> (65 \<le> c \<and> c \<le> 90) \<or> (97 \<le> c \<and> c \<le> 122) \<or> ascii_digit c \<or> c = 95 \<or> c = 45"

definition SESSION :: re where
  "SESSION = RSeq (RBetween 1 128 (RSet session_char)) REnd"

definition session_ok :: "ustr \<Rightarrow> bool" where
  "session_ok s \<longleftrightarrow> re_fullmatch SESSION s \<noteq> None"

definition scope_namespace :: "api_key \<Rightarrow> ustr \<Rightarrow> ustr option \<Rightarrow> bytes" where
  "scope_namespace key identity agent =
     (let ns = length_prefixed [lit ''agent-session-v1'', ak_tenant_id key, ak_key_id key, identity]
      in case agent of None \<Rightarrow> ns
         | Some a \<Rightarrow> length_prefixed [lit ''agent-subagent-v1'', hex_bytes ns, a])"

definition session_scope :: "ustr \<Rightarrow> api_key \<Rightarrow> ustr option list \<Rightarrow> ustr option \<Rightarrow> (ustr \<times> ustr) res" where
  \<comment> \<open>the first argument is \<open>uuid.uuid4().hex\<close>\<close>
  "session_scope uuid key identities agent =
     (let supplied = map the (filter (\<lambda>i. i \<noteq> None) identities)
      in if list_ex (\<lambda>i. \<not> session_ok i) supplied then Inl SessionScopeError
         else if 1 < length (remdups supplied) then Inl SessionScopeError
         else (let identity = (case supplied of i # _ \<Rightarrow> i | [] \<Rightarrow> lit ''session_'' @ uuid)
               in if (case agent of Some a \<Rightarrow> \<not> session_ok a | None \<Rightarrow> False) then Inl SessionScopeError
                  else Inr (identity, lit ''agent_'' @ hex_bytes (sha256 (scope_namespace key identity agent)))))"

definition scoped_cache_key :: "req_context \<Rightarrow> ustr \<Rightarrow> ustr \<Rightarrow> ustr \<Rightarrow> ustr \<Rightarrow> ustr \<Rightarrow> ustr" where
  "scoped_cache_key ctx protocol model dest policy_version identity =
     lit ''cache_'' @ hex_bytes (sha256 (length_prefixed
       [lit ''agent-cache-v1'', tenant_id ctx, api_key_id ctx, conversation_id ctx, protocol, model, dest,
        policy_version, identity]))"

text \<open>Text of valid code points has bytes below 256.\<close>

definition valid_text :: "ustr \<Rightarrow> bool" where
  "valid_text s \<longleftrightarrow> list_all (\<lambda>c. c < 1114112) s"

lemma utf8_range: "valid_text s \<Longrightarrow> \<forall>b \<in> set (utf8 s). b < 256"
  by (induction s) (auto simp: valid_text_def utf8_Cons utf8_cp_def)

lemma lp_part_range: "valid_text s \<Longrightarrow> \<forall>b \<in> set (lp_part s). b < 256"
  using utf8_range [of s] dec_nat_digits by (fastforce simp: lp_part_def ascii_digit_def)

lemma length_prefixed_range: "list_all valid_text ps \<Longrightarrow> \<forall>b \<in> set (length_prefixed ps). b < 256"
  by (induction ps) (auto simp: length_prefixed_Cons lp_part_range)

text \<open>
  Namespaces never meet: two sessions, with or without a sub-agent, hash the same bytes only if
  tenant, principal, session identity and sub-agent are all the same; a client-chosen identity reaches
  no other principal's scope, and a sub-agent's scope is never a session's.
\<close>

theorem session_scopes_isolated:
  assumes "list_all valid_text [ak_tenant_id k, ak_key_id k, i]" and "list_all valid_text [ak_tenant_id k', ak_key_id k', i']"
  shows "scope_namespace k i a = scope_namespace k' i' a' \<longleftrightarrow>
     (ak_tenant_id k, ak_key_id k, i, a) = (ak_tenant_id k', ak_key_id k', i', a')"
proof
  let ?ns = "\<lambda>k i. length_prefixed [lit ''agent-session-v1'', ak_tenant_id k, ak_key_id k, i]"
  have v: "valid_text (lit ''agent-session-v1'')" by (simp add: valid_text_def lit_def)
  have r: "\<forall>b \<in> set (?ns k i). b < 256" "\<forall>b \<in> set (?ns k' i'). b < 256"
    using assms v by (intro length_prefixed_range; simp)+
  assume eq: "scope_namespace k i a = scope_namespace k' i' a'"
  show "(ak_tenant_id k, ak_key_id k, i, a) = (ak_tenant_id k', ak_key_id k', i', a')"
  proof (cases a)
    case None
    with eq show ?thesis
      by (cases a') (auto simp: scope_namespace_def Let_def dest!: length_prefixed_inj)
  next
    case (Some x)
    with eq obtain x' where x': "a' = Some x'"
      by (cases a') (auto simp: scope_namespace_def Let_def dest!: length_prefixed_inj)
    with eq Some have "hex_bytes (?ns k i) = hex_bytes (?ns k' i')" "x = x'"
      by (auto simp: scope_namespace_def Let_def dest!: length_prefixed_inj)
    from hex_bytes_inject [OF this(1) r] this(2) Some x' show ?thesis
      by (auto dest!: length_prefixed_inj)
  qed
qed (auto simp: scope_namespace_def)

theorem session_scopes_isolated_witness:
  "scope_namespace (sample_key ''alice'') (lit ''s1'') None \<noteq> scope_namespace (sample_key ''bob'') (lit ''s1'') None
   \<and> scope_namespace (sample_key ''alice'') (lit ''s1'') None \<noteq> scope_namespace (sample_key ''alice'') (lit ''s1'') (Some (lit ''a''))"
proof -
  have v: "list_all valid_text [ak_tenant_id (sample_key ''alice''), ak_key_id (sample_key ''alice''), lit ''s1'']"
    "list_all valid_text [ak_tenant_id (sample_key ''bob''), ak_key_id (sample_key ''bob''), lit ''s1'']"
    by (simp_all add: valid_text_def sample_key_def lit_def of_char_def)
  show ?thesis
    unfolding session_scopes_isolated [OF v(1) v(2)] session_scopes_isolated [OF v(1) v(1)]
    by (simp add: sample_key_def)
qed

subsection \<open>Key derivation\<close>

definition MIN_ROOT_SECRET_BYTES :: nat where "MIN_ROOT_SECRET_BYTES = 32"
definition VAULT_KEY_INFO :: bytes where "VAULT_KEY_INFO = lit ''quiethours/vault/v1''"
definition TOKEN_KEY_INFO :: bytes where "TOKEN_KEY_INFO = lit ''quiethours/token/v1''"

definition derive_key :: "(nat \<Rightarrow> bytes \<Rightarrow> bytes \<Rightarrow> bytes) \<Rightarrow> bytes \<Rightarrow> bytes \<Rightarrow> nat \<Rightarrow> bytes res" where
  \<comment> \<open>\<open>hkdf length info secret\<close> is HKDF-SHA256 without a salt\<close>
  "derive_key hkdf secret info len =
     (if length secret < MIN_ROOT_SECRET_BYTES then Inl ValueError else Inr (hkdf len info secret))"

end
