(* ===== verification/StreamTokens.thy ===== *)
theory StreamTokens
  imports RestorationFacts
begin

text \<open>
  Incremental restoration of streamed prose, \<^verbatim>\<open>gateway/streaming/tokens.py\<close>: text arrives in arbitrary
  chunks, and a suffix that may be the start of a token is held back until the next chunk decides.  The
  main facts: no cut of the text ever separates the parts of a token, what is held back is shorter than
  a token, and the pieces handed out add up to what restoring the whole text at once returns.
\<close>

subsection \<open>The grammar's bounds\<close>

definition ENTITY_WIDTH :: nat where "ENTITY_WIDTH = 1 + 63"

definition MAX_TOKEN_LENGTH :: nat where
  "MAX_TOKEN_LENGTH = 1 + ENTITY_WIDTH + 1
     + Max (set (map (\<lambda>(version, f). length version + 1 + tag_hex_length f + 1) TOKEN_FORMATS))"

lemma MAX_TOKEN_LENGTH_eq: "MAX_TOKEN_LENGTH = 102"
  by (simp add: MAX_TOKEN_LENGTH_def ENTITY_WIDTH_def TOKEN_FORMATS_def tag_hex_length_def lit_v1)

definition entity_chars :: "ustr \<Rightarrow> bool" where
  \<comment> \<open>\<open>re.fullmatch("[A-Z][A-Z0-9_]*", s)\<close>\<close>
  "entity_chars s \<longleftrightarrow> s \<noteq> [] \<and> is_upper (hd s) \<and> list_all is_ent s"

definition partition_colon :: "ustr \<Rightarrow> ustr \<times> ustr" where
  \<comment> \<open>\<open>s.partition(":")\<close> without the separator\<close>
  "partition_colon s = (takeWhile (\<lambda>c. c \<noteq> 58) s, tl (dropWhile (\<lambda>c. c \<noteq> 58) s))"

definition possible_prefix :: "ustr \<Rightarrow> bool" where
  "possible_prefix value =
     (if \<not> starts_with value [60] \<or> MAX_TOKEN_LENGTH \<le> length value then False
      else let body = tl value
      in if 58 \<notin> set body then body = [] \<or> entity_chars body \<and> length body \<le> ENTITY_WIDTH
      else let (entity, rest) = partition_colon body
      in if \<not> entity_chars entity \<or> ENTITY_WIDTH < length entity then False
      else if 58 \<notin> set rest then list_ex (\<lambda>(version, _). starts_with version rest) TOKEN_FORMATS
      else let (version, tag) = partition_colon rest
      in case map_of TOKEN_FORMATS version of
           None \<Rightarrow> False
         | Some f \<Rightarrow> length tag \<le> tag_hex_length f \<and> list_all is_lower_hex tag)"

subsection \<open>The restorer\<close>

record stream =
  ss_suffix :: ustr
  ss_raw :: "ustr list"
  ss_text :: "ustr list"
  ss_raw_bytes :: int
  ss_text_bytes :: int
  ss_closed :: bool
  ss_outcome :: outcome

definition stream_init :: stream where
  "stream_init = \<lparr>ss_suffix = [], ss_raw = [], ss_text = [], ss_raw_bytes = 0, ss_text_bytes = 0,
     ss_closed = False, ss_outcome = outcome_init []\<rparr>"

definition rfind_from :: "cp \<Rightarrow> nat \<Rightarrow> ustr \<Rightarrow> nat option" where
  \<comment> \<open>\<open>s.rfind(c, from)\<close>\<close>
  "rfind_from c from s = find (\<lambda>i. s ! i = c) (rev [from..<length s])"

definition hold_back :: "ustr \<Rightarrow> ustr \<times> ustr" where
  \<comment> \<open>what is restored now, and the suffix kept for the next chunk\<close>
  "hold_back combined =
     (case rfind_from 60 (length combined - MAX_TOKEN_LENGTH) combined of
        None \<Rightarrow> (combined, [])
      | Some start \<Rightarrow> if possible_prefix (drop start combined)
                     then (take start combined, drop start combined) else (combined, []))"

definition stream_feed :: "vault_env \<Rightarrow> 'b backend_ops \<Rightarrow> ucd \<Rightarrow> req_context \<Rightarrow> provenance \<Rightarrow> int
    \<Rightarrow> clock \<Rightarrow> ustr \<Rightarrow> bool \<Rightarrow> stream \<Rightarrow> 'b vault \<Rightarrow> ustr res \<times> stream \<times> 'b vault" where
  "stream_feed E B U ctx prov max_bytes clk delta final st v =
     (if ss_closed st then (Inl (StreamProtocolError ''invalid_provider_stream''), st, v)
      else let st1 = st\<lparr>ss_raw_bytes := ss_raw_bytes st + int (length (utf8 delta)),
                        ss_raw := ss_raw st @ (if delta = [] then [] else [delta])\<rparr>
      in if max_bytes < ss_raw_bytes st1 then (Inl (StreamProtocolError ''provider_output_too_large''), st1, v)
      else let combined = ss_suffix st @ delta;
               (now, later) = (if final then (combined, []) else hold_back combined);
               st2 = st1\<lparr>ss_suffix := later\<rparr>
      in case restore E B U clk ctx now prov (max_bytes - ss_text_bytes st) v of
           (Inl e, v') \<Rightarrow> (Inl e, st2, v')
         | (Inr out, v') \<Rightarrow>
             (Inr (ro_text out),
              st2\<lparr>ss_outcome := outcome_merge (ss_outcome st) out,
                  ss_text_bytes := ss_text_bytes st + int (length (utf8 (ro_text out))),
                  ss_text := ss_text st @ (if ro_text out = [] then [] else [ro_text out]),
                  ss_closed := final\<rparr>, v'))"

fun stream_run :: "vault_env \<Rightarrow> 'b backend_ops \<Rightarrow> ucd \<Rightarrow> req_context \<Rightarrow> provenance \<Rightarrow> int
    \<Rightarrow> (clock \<times> ustr \<times> bool) list \<Rightarrow> stream \<Rightarrow> 'b vault \<Rightarrow> ustr list res \<times> stream \<times> 'b vault" where
  \<comment> \<open>successive calls of \<open>feed\<close>, up to the first that raises\<close>
  "stream_run E B U ctx prov max_bytes [] st v = (Inr [], st, v)"
| "stream_run E B U ctx prov max_bytes ((clk, delta, final) # cs) st v =
     (case stream_feed E B U ctx prov max_bytes clk delta final st v of
        (Inl e, r) \<Rightarrow> (Inl e, r)
      | (Inr t, st', v') \<Rightarrow>
          (case stream_run E B U ctx prov max_bytes cs st' v' of
             (Inl e, r) \<Rightarrow> (Inl e, r)
           | (Inr ts, r) \<Rightarrow> (Inr (t # ts), r)))"

subsection \<open>Every proper prefix of a token is recognised\<close>

lemma is_ent_colon: "is_ent c \<Longrightarrow> c \<noteq> 58"
  by (auto simp: is_ent_def is_upper_def ascii_digit_def)

lemma is_hex_colon: "is_lower_hex c \<Longrightarrow> c \<noteq> 58"
  by (auto simp: is_lower_hex_def)

lemma partition_colon_append:
  "58 \<notin> set a \<Longrightarrow> partition_colon (a @ 58 # b) = (a, b)"
proof -
  assume "58 \<notin> set a"
  then have "\<forall>c \<in> set a. c \<noteq> 58" by metis
  then show ?thesis by (simp add: partition_colon_def takeWhile_append2 dropWhile_append2)
qed

lemma token_prefix_possible:
  assumes "is_token t" and "0 < k" and "k < length t"
  shows "possible_prefix (take k t)"
proof -
  from assms(1) obtain ent tag where e: "entity_ok ent" and tg: "tag_ok tag"
    and t: "t = token_string ent (lit ''v1'') tag" by (auto simp: is_token_def)
  from e have ent: "ent \<noteq> []" "length ent \<le> 64" "is_upper (hd ent)" "\<forall>c \<in> set ent. is_ent c" "58 \<notin> set ent"
    using is_ent_colon by (auto simp: entity_ok_def)
  from tg have tag: "length tag = 32" "\<forall>c \<in> set tag. is_lower_hex c" "58 \<notin> set tag"
    using is_hex_colon by (auto simp: tag_ok_def)
  have t': "t = 60 # ent @ 58 # [118, 49] @ 58 # tag @ [62]"
    by (simp add: t token_string_def lit_v1)
  obtain j where k: "k = Suc j" using assms(2) by (cases k) auto
  have len: "length t = length ent + 38" using ent tag by (simp add: t')
  have short: "length (take k t) < MAX_TOKEN_LENGTH" using assms(3) len ent by (simp add: MAX_TOKEN_LENGTH_eq)
  have pre: "possible_prefix (60 # b) \<longleftrightarrow>
      (if 58 \<notin> set b then b = [] \<or> entity_chars b \<and> length b \<le> 64
       else case partition_colon b of (en, rest) \<Rightarrow>
         if \<not> entity_chars en \<or> 64 < length en then False
         else if 58 \<notin> set rest then starts_with [118, 49] rest
         else case partition_colon rest of (version, tg) \<Rightarrow>
           version = [118, 49] \<and> length tg \<le> 32 \<and> list_all is_lower_hex tg)"
    if "length b < 101" for b
    using that by (auto simp: possible_prefix_def starts_with_def MAX_TOKEN_LENGTH_eq Let_def ENTITY_WIDTH_def
        TOKEN_FORMATS_def lit_v1 tag_hex_length_def split: prod.splits)
  let ?n = "length ent" and ?tail = "[118, 49] @ 58 # tag @ [62]"
  have body: "take k t = 60 # take j (ent @ 58 # ?tail)" by (simp add: t' k)
  have jlen: "j < ?n + 37" using assms(3) len k by simp
  show ?thesis
  proof (cases "j \<le> ?n")
    case True
    have b: "take j (ent @ 58 # ?tail) = take j ent" using True by simp
    have "58 \<notin> set (take j ent)" using ent(5) in_set_takeD by metis
    moreover have "take j ent = [] \<or> entity_chars (take j ent)"
      using ent(1,3,4) by (cases ent; cases j) (auto simp: entity_chars_def list_all_iff dest: in_set_takeD)
    moreover have "length (take j ent) < 101" "length (take j ent) \<le> 64" using ent(2) by simp_all
    ultimately show ?thesis unfolding body b by (subst pre) auto
  next
    case False
    define m where "m = j - ?n - 1"
    define rest where "rest = take m ?tail"
    from False have b: "take j (ent @ 58 # ?tail) = ent @ 58 # rest"
      by (simp add: m_def rest_def take_Cons' split: nat.split)
    have ml: "m < 36" using jlen False by (simp add: m_def)
    have ec: "entity_chars ent" using ent by (simp add: entity_chars_def list_all_iff)
    have bl: "length (ent @ 58 # rest) < 101" using short unfolding body b by (simp add: MAX_TOKEN_LENGTH_eq)
    have pc0: "partition_colon (ent @ 58 # rest) = (ent, rest)" by (rule partition_colon_append [OF ent(5)])
    note start = pre [OF bl, unfolded pc0]
    show ?thesis
    proof (cases "m \<le> 2")
      case True
      then have r: "rest = take m [118, 49]" unfolding rest_def take_append by simp
      have "starts_with [118, 49] (take m [118, 49])" by (simp add: starts_with_def min_def)
      moreover have "58 \<notin> set (take m [118, 49 :: nat])" by (auto dest!: in_set_takeD)
      ultimately show ?thesis
        unfolding body b start using ec ent(2) by (simp add: r)
    next
      case False
      define q where "q = m - 3"
      from False have m: "m = 3 + q" by (simp add: q_def)
      from ml m have q: "q \<le> 32" by simp
      have r: "rest = [118, 49] @ 58 # take q tag"
        using q tag(1) by (simp add: m rest_def eval_nat_numeral)
      have hx: "list_all is_lower_hex (take q tag)" using tag(2) by (auto simp: list_all_iff dest: in_set_takeD)
      have pc: "partition_colon ([118, 49] @ 58 # take q tag) = ([118, 49], take q tag)"
        by (rule partition_colon_append) simp
      from r have "58 \<in> set rest" by simp
      then show ?thesis
        unfolding body b start using ec ent(2) hx q pc [folded r] by simp
    qed
  qed
qed

subsection \<open>No cut separates a token\<close>

lemma rfind_from_Some:
  "rfind_from c k s = Some i \<Longrightarrow> k \<le> i \<and> i < length s \<and> s ! i = c \<and> c \<notin> set (drop (Suc i) s)"
proof -
  assume "rfind_from c k s = Some i"
  then obtain p where p: "p < length s - k" "i = rev [k..<length s] ! p" "s ! i = c"
    "\<forall>j < p. s ! (rev [k..<length s] ! j) \<noteq> c"
    unfolding rfind_from_def find_Some_iff by auto
  have nth: "rev [k..<length s] ! j = length s - 1 - j" if "j < length s - k" for j
    using that by (simp add: rev_nth)
  from p nth have i: "i = length s - 1 - p" "k \<le> i" "i < length s" by auto
  have "s ! j \<noteq> c" if "i < j" "j < length s" for j
  proof -
    have "length s - 1 - j < p" using that i p(1) by simp
    with p(4) have "s ! (rev [k..<length s] ! (length s - 1 - j)) \<noteq> c" by blast
    moreover have "rev [k..<length s] ! (length s - 1 - j) = j"
      using nth [of "length s - 1 - j"] that i p(1) by simp
    ultimately show ?thesis by simp
  qed
  then have "c \<notin> set (drop (Suc i) s)"
    by (auto simp: in_set_conv_nth)
  with i p(3) show ?thesis by simp
qed

lemma rfind_from_None: "rfind_from c k s = None \<Longrightarrow> c \<notin> set (drop k s)"
  by (auto simp: rfind_from_def find_None_iff in_set_conv_nth)

lemma possible_prefix_shape: "possible_prefix b \<Longrightarrow> b \<noteq> [] \<and> hd b = 60 \<and> length b < MAX_TOKEN_LENGTH"
proof -
  assume "possible_prefix b"
  then have "starts_with b [60]" "length b < MAX_TOKEN_LENGTH" by (simp_all add: possible_prefix_def split: if_splits)
  then show ?thesis by (cases b) (simp_all add: starts_with_def)
qed

lemma hold_back_parts: "hold_back s = (a, b) \<Longrightarrow> s = a @ b \<and> length b < MAX_TOKEN_LENGTH \<and> (b = [] \<or> hd b = 60)"
  by (auto simp: hold_back_def MAX_TOKEN_LENGTH_eq dest: possible_prefix_shape split: option.splits if_splits)

lemma is_token_length: "is_token t \<Longrightarrow> length t \<le> 102"
  by (auto elim!: is_tokenE simp: length_token_string entity_ok_def)

text \<open>The heart of it: if nothing is held back, no suffix of the text can become a token.\<close>

lemma nothing_pending:
  assumes "hold_back s = (s, [])" and "s = v @ w" and "w \<noteq> []" and "tok_len w = None"
  shows "tok_len (w @ u) = None"
proof (rule ccontr)
  assume "tok_len (w @ u) \<noteq> None"
  then obtain n where n: "tok_len (w @ u) = Some n" by auto
  from tok_len_take [OF this] have t: "is_token (take n (w @ u))" "n \<le> length (w @ u)" by auto
  have nw: "length w < n"
  proof (rule ccontr)
    assume "\<not> length w < n"
    with t(1) have "is_token (take n w)" by simp
    from tok_len_is_token [OF this, of "drop n w"] assms(4) show False by simp
  qed
  let ?t = "take n (w @ u)"
  have w: "w = take (length w) ?t" using nw by (simp add: min_def)
  have lt: "length ?t = n" using t(2) by simp
  from t(1) obtain r where r: "?t = 60 # r" "60 \<notin> set r" by (auto elim!: is_token_lt)
  obtain w' where w': "w = 60 # w'" "60 \<notin> set w'"
  proof -
    from w r(1) have "w = take (length w) (60 # r)" by metis
    with assms(3) have "w = 60 # take (length w - 1) r" by (cases "length w") simp_all
    moreover have "60 \<notin> set (take (length w - 1) r)" using r(2) in_set_takeD by metis
    ultimately show ?thesis using that by blast
  qed
  have "length ?t \<le> 102" using is_token_length [OF t(1)] .
  with nw lt have wl: "length w < MAX_TOKEN_LENGTH" by (simp add: MAX_TOKEN_LENGTH_eq)
  have "possible_prefix (take (length w) ?t)"
    using token_prefix_possible [OF t(1), of "length w"] nw assms(3) unfolding lt by simp
  then have pp: "possible_prefix w" unfolding w [symmetric] .
  have len: "length s = length v + length w" using assms(2) by simp
  show False
  proof (cases "rfind_from 60 (length s - MAX_TOKEN_LENGTH) s")
    case None
    from rfind_from_None [OF this] have "60 \<notin> set (drop (length s - MAX_TOKEN_LENGTH) s)" .
    moreover have "60 \<in> set (drop (length v) s)" using assms(2) w' by simp
    moreover have "set (drop (length v) s) \<subseteq> set (drop (length s - MAX_TOKEN_LENGTH) s)"
      by (rule set_drop_subset_set_drop) (use len wl in simp)
    ultimately show False by blast
  next
    case (Some i)
    from rfind_from_Some [OF Some] have i: "i < length s" "s ! i = 60" "60 \<notin> set (drop (Suc i) s)" by auto
    have "i = length v"
    proof (rule ccontr)
      assume "i \<noteq> length v"
      then consider "i < length v" | "length v < i" by linarith
      then show False
      proof cases
        case 1
        then have "60 \<in> set (drop (Suc i) s)" using assms(2) w' by simp
        with i(3) show False ..
      next
        case 2
        then have "s ! i = w' ! (i - length v - 1)" "i - length v - 1 < length w'"
          using assms(2) w' i(1) by (auto simp: nth_append nth_Cons')
        with i(2) w'(2) show False by (metis nth_mem)
      qed
    qed
    with Some pp assms(1,2) have "hold_back s = (v, w)" by (simp add: hold_back_def)
    with assms(1,3) show False by simp
  qed
qed

lemma hold_back_stable:
  assumes "hold_back s = (a, b)"
  shows "tok_split (s @ u) = tok_split a @ tok_split (b @ u)"
proof (cases "b = []")
  case True
  with hold_back_parts [OF assms] have a: "a = s" by simp
  have "tok_split (s @ u) = tok_split s @ tok_split u"
    by (rule tok_split_append_gen) (rule nothing_pending [OF assms [unfolded a True]])
  with a True show ?thesis by simp
next
  case False
  with hold_back_parts [OF assms] have "s = a @ b" "hd (b @ u) = 60" by auto
  then show ?thesis using tok_split_append_lt [of "b @ u" a] by simp
qed

subsection \<open>The run of a stream\<close>

definition deltas :: "(clock \<times> ustr \<times> bool) list \<Rightarrow> ustr" where
  "deltas cs = concat (map (\<lambda>(_, d, _). d) cs)"

text \<open>
  The invariant of an open stream: the text so far is the segments \<open>G\<close> already restored followed by
  the suffix held back, and however the text goes on, \<open>G\<close> stays the beginning of its segmentation.
\<close>

definition stream_inv :: "ustr \<Rightarrow> seg list \<Rightarrow> stream \<Rightarrow> bool" where
  "stream_inv raw G st \<longleftrightarrow> concat (ss_raw st) = raw \<and> \<not> ss_closed st \<and> length (ss_suffix st) < MAX_TOKEN_LENGTH
     \<and> (\<forall>u. tok_split (raw @ u) = G @ tok_split (ss_suffix st @ u))"

lemma stream_inv_init: "stream_inv [] [] stream_init"
  by (simp add: stream_inv_def stream_init_def MAX_TOKEN_LENGTH_eq)

lemma stream_feed_Inr:
  assumes "stream_feed E B U ctx prov mx clk delta final st v = (Inr t, st', v')"
  shows "\<exists>now later out. (if final then (ss_suffix st @ delta, []) else hold_back (ss_suffix st @ delta)) = (now, later)
     \<and> restore E B U clk ctx now prov (mx - ss_text_bytes st) v = (Inr out, v') \<and> t = ro_text out
     \<and> concat (ss_raw st') = concat (ss_raw st) @ delta \<and> ss_suffix st' = later \<and> ss_closed st' = final"
proof -
  obtain now later where nl: "(if final then (ss_suffix st @ delta, []) else hold_back (ss_suffix st @ delta)) = (now, later)"
    by fastforce
  from assms show ?thesis
    by (intro exI [of _ now] exI [of _ later])
      (auto simp: stream_feed_def nl Let_def split: if_splits sum.splits prod.splits)
qed

lemma stream_feed_inv:
  assumes "stream_feed E B U ctx prov mx clk delta False st v = (Inr t, st', v')" and "stream_inv raw G st"
  shows "\<exists>now rs. stream_inv (raw @ delta) (G @ tok_split now) st' \<and> list_all2 (seg_result prov) (tok_split now) rs \<and> t = concat rs"
proof -
  from stream_feed_Inr [OF assms(1)] obtain now later out where
    h: "hold_back (ss_suffix st @ delta) = (now, later)"
    and r: "restore E B U clk ctx now prov (mx - ss_text_bytes st) v = (Inr out, v')" "t = ro_text out"
    and st': "concat (ss_raw st') = concat (ss_raw st) @ delta" "ss_suffix st' = later" "\<not> ss_closed st'"
    by auto
  from restore_Inr [OF r(1)] r(2) obtain rs where rs: "list_all2 (seg_result prov) (tok_split now) rs" "t = concat rs" by blast
  have "tok_split ((raw @ delta) @ u) = (G @ tok_split now) @ tok_split (later @ u)" for u
  proof -
    from assms(2) have "tok_split (raw @ delta @ u) = G @ tok_split ((ss_suffix st @ delta) @ u)"
      by (simp add: stream_inv_def)
    with hold_back_stable [OF h, of u] show ?thesis by simp
  qed
  with st' hold_back_parts [OF h] assms(2) have "stream_inv (raw @ delta) (G @ tok_split now) st'"
    by (simp add: stream_inv_def)
  with rs show ?thesis by blast
qed

lemma stream_run_inv:
  assumes "stream_run E B U ctx prov mx cs st v = (Inr ts, st', v')" and "stream_inv raw G st"
    and "\<forall>(_, _, final) \<in> set cs. \<not> final"
  shows "\<exists>G' rs. stream_inv (raw @ deltas cs) (G @ G') st' \<and> list_all2 (seg_result prov) G' rs \<and> concat ts = concat rs"
  using assms
proof (induction cs arbitrary: st v ts raw G)
  case Nil
  then have "stream_inv (raw @ deltas []) (G @ []) st' \<and> list_all2 (seg_result prov) [] [] \<and> concat ts = concat []"
    by (simp add: deltas_def)
  then show ?case by blast
next
  case (Cons c cs)
  obtain clk delta final where c: "c = (clk, delta, final)" by (cases c)
  with Cons.prems(3) have f: "\<not> final" by simp
  with Cons.prems(1) c obtain t st1 v1 ts' where
    one: "stream_feed E B U ctx prov mx clk delta False st v = (Inr t, st1, v1)"
    and rest: "stream_run E B U ctx prov mx cs st1 v1 = (Inr ts', st', v')" "ts = t # ts'"
    by (auto split: prod.splits sum.splits)
  from stream_feed_inv [OF one Cons.prems(2)] obtain now rs where
    i: "stream_inv (raw @ delta) (G @ tok_split now) st1" "list_all2 (seg_result prov) (tok_split now) rs" "t = concat rs" by blast
  from Cons.IH [OF rest(1) i(1)] Cons.prems(3) obtain G' rs' where
    g: "stream_inv ((raw @ delta) @ deltas cs) ((G @ tok_split now) @ G') st'" "list_all2 (seg_result prov) G' rs'"
      "concat ts' = concat rs'" by auto
  have "list_all2 (seg_result prov) (tok_split now @ G') (rs @ rs')"
    using i(2) g(2) by (rule list_all2_appendI)
  with g i(3) rest(2) show ?case
    by (intro exI [of _ "tok_split now @ G'"] exI [of _ "rs @ rs'"]) (simp add: c deltas_def)
qed

text \<open>
  C7: Streaming never lets a token fragment go: whatever the chunks, what has been handed out restores
  whole segments of the text, each token as one, the suffix held back is shorter than the longest token,
  and no continuation of the stream can turn anything already handed out into part of a token.
\<close>

theorem stream_never_splits_tokens:
  assumes "stream_run E B U ctx prov mx cs stream_init v = (Inr ts, st, v')" and "\<forall>(_, _, final) \<in> set cs. \<not> final"
  shows "\<exists>G rs. (\<forall>u. tok_split (deltas cs @ u) = G @ tok_split (ss_suffix st @ u))
     \<and> length (ss_suffix st) < MAX_TOKEN_LENGTH
     \<and> list_all2 (seg_result prov) G rs \<and> concat ts = concat rs"
  using stream_run_inv [OF assms(1) stream_inv_init assms(2)] by (auto simp: stream_inv_def)

theorem stream_never_splits_tokens_witness:
  "\<exists>st. stream_run sample_env in_memory ascii_ucd sample_ctx [] 100 [(\<lambda>_. (10, 10), lit ''a<EMA'', False)]
       stream_init sample_stored = (Inr [lit ''a''], st, sample_stored) \<and>
     (\<exists>G rs. (\<forall>u. tok_split (deltas [(\<lambda>_. (10, 10), lit ''a<EMA'', False)] @ u) = G @ tok_split (ss_suffix st @ u))
     \<and> length (ss_suffix st) < MAX_TOKEN_LENGTH
     \<and> list_all2 (seg_result []) G rs \<and> concat [lit ''a''] = concat rs)"
proof -
  have "possible_prefix (lit ''<EMA'')"
    by (simp add: possible_prefix_def MAX_TOKEN_LENGTH_eq lit_def of_char_def starts_with_def entity_chars_def
        is_upper_def is_ent_def ENTITY_WIDTH_def)
  then have h: "hold_back (lit ''a<EMA'') = (lit ''a'', lit ''<EMA'')"
    by (simp add: hold_back_def rfind_from_def lit_def of_char_def MAX_TOKEN_LENGTH_eq upt_rec)
  have "\<exists>out. restore sample_env in_memory ascii_ucd (\<lambda>_. (10, 10)) sample_ctx (lit ''a'') [] 100 sample_stored
      = (Inr out, sample_stored) \<and> ro_text out = lit ''a'' \<and> ro_restored out = 0"
    by (rule restore_unminted) (simp_all add: prov_lookup_def utf8_def utf8_cp_def lit_def of_char_def)
  then obtain out where "restore sample_env in_memory ascii_ucd (\<lambda>_. (10, 10)) sample_ctx (lit ''a'') [] 100 sample_stored
      = (Inr out, sample_stored)" "ro_text out = lit ''a''" by blast
  then obtain st where "stream_run sample_env in_memory ascii_ucd sample_ctx [] 100
      [(\<lambda>_. (10, 10), lit ''a<EMA'', False)] stream_init sample_stored = (Inr [lit ''a''], st, sample_stored)"
    using h by (simp add: stream_feed_def stream_init_def utf8_def utf8_cp_def lit_def of_char_def)
  from stream_never_splits_tokens [OF this] this show ?thesis by simp
qed

subsection \<open>A stream gives what the buffered answer would\<close>

text \<open>
  The state after a part of the text whose tokens are all judged as \<open>d\<close> says: the counters are those of
  the segments restored so far.
\<close>

definition stream_sum :: "(ustr \<Rightarrow> verdict) \<Rightarrow> ustr \<Rightarrow> seg list \<Rightarrow> stream \<Rightarrow> bool" where
  "stream_sum d raw G st \<longleftrightarrow> \<not> ss_closed st \<and> ss_raw_bytes st = int (length (utf8 raw))
     \<and> ss_text_bytes st = int (length (utf8 (concat (map (seg_repl d) G))))
     \<and> ro_restored (ss_outcome st) = length (filter (\<lambda>g. \<exists>t s. g = Tok t \<and> d t = Restored s) G)"

lemma stream_feed_det:
  assumes nl: "(if final then (ss_suffix st @ delta, []) else hold_back (ss_suffix st @ delta)) = (now, later)"
    and j: "\<And>n t. Tok t \<in> set (tok_split now) \<Longrightarrow> judge E B U (clk n) ctx prov t (lit ''v1'') v = (d t, v)"
    and d: "\<And>t e. Tok t \<in> set (tok_split now) \<Longrightarrow> d t \<noteq> Raised e"
    and st: "stream_sum d raw G st"
    and raw: "int (length (utf8 (raw @ delta))) \<le> mx"
    and bnd: "int (length (utf8 (concat (map (seg_repl d) (G @ tok_split now))))) \<le> mx"
  shows "\<exists>st'. stream_feed E B U ctx prov mx clk delta final st v
       = (Inr (concat (map (seg_repl d) (tok_split now))), st', v)
     \<and> stream_sum d (raw @ delta) (G @ tok_split now) (st'\<lparr>ss_closed := False\<rparr>)
     \<and> ss_closed st' = final \<and> ss_suffix st' = later"
proof -
  from st bnd have b: "0 \<le> mx - ss_text_bytes st"
    "int (length (utf8 (concat (map (seg_repl d) (tok_split now))))) \<le> mx - ss_text_bytes st"
    by (simp_all add: stream_sum_def)
  from restore_det [of "\<lambda>v'. v' = v" now E B U clk ctx prov d v "mx - ss_text_bytes st"] j d b
  obtain out where out: "restore E B U clk ctx now prov (mx - ss_text_bytes st) v = (Inr out, v)"
    "ro_text out = concat (map (seg_repl d) (tok_split now))"
    "ro_restored out = length (filter (\<lambda>g. \<exists>t s. g = Tok t \<and> d t = Restored s) (tok_split now))"
    by auto
  from st raw have open': "\<not> ss_closed st" "\<not> mx < ss_raw_bytes st + int (length (utf8 delta))"
    by (simp_all add: stream_sum_def)
  show ?thesis
    using st open' nl out by (simp add: stream_feed_def Let_def stream_sum_def outcome_merge_def)
qed

lemma stream_run_append_single:
  "stream_run E B U ctx prov mx (c # cs) st v = (case c of (clk, delta, final) \<Rightarrow>
     (case stream_feed E B U ctx prov mx clk delta final st v of
        (Inl e, r) \<Rightarrow> (Inl e, r)
      | (Inr t, st', v') \<Rightarrow> (case stream_run E B U ctx prov mx cs st' v' of
             (Inl e, r) \<Rightarrow> (Inl e, r) | (Inr ts, r) \<Rightarrow> (Inr (t # ts), r))))"
  by (cases c) simp

lemma stream_run_det:
  assumes "stream_inv raw G st" and "stream_sum d raw G st"
    and "\<forall>(clk, _, final) \<in> set cs. \<not> final \<and> (\<forall>n. clk n \<in> N)" and "\<forall>n. clkf n \<in> N"
    and "T = raw @ deltas cs @ last_delta"
    and "\<And>now t. now \<in> N \<Longrightarrow> Tok t \<in> set (tok_split T) \<Longrightarrow> judge E B U now ctx prov t (lit ''v1'') v = (d t, v)"
    and "\<And>t e. Tok t \<in> set (tok_split T) \<Longrightarrow> d t \<noteq> Raised e"
    and "int (length (utf8 T)) \<le> mx"
    and "int (length (utf8 (concat (map (seg_repl d) (tok_split T))))) \<le> mx"
  shows "\<exists>ts st' G'. stream_run E B U ctx prov mx (cs @ [(clkf, last_delta, True)]) st v = (Inr ts, st', v)
     \<and> tok_split T = G @ G' \<and> concat ts = concat (map (seg_repl d) G')
     \<and> stream_sum d T (G @ G') (st'\<lparr>ss_closed := False\<rparr>) \<and> ss_closed st'"
  using assms
proof (induction cs arbitrary: st raw G)
  case Nil
  let ?now = "ss_suffix st @ last_delta"
  from Nil.prems(1,5) have T: "T = raw @ last_delta" "tok_split T = G @ tok_split ?now"
    by (simp_all add: stream_inv_def deltas_def)
  have "\<exists>st'. stream_feed E B U ctx prov mx clkf last_delta True st v
       = (Inr (concat (map (seg_repl d) (tok_split ?now))), st', v)
     \<and> stream_sum d (raw @ last_delta) (G @ tok_split ?now) (st'\<lparr>ss_closed := False\<rparr>)
     \<and> ss_closed st' = True \<and> ss_suffix st' = []"
    by (rule stream_feed_det) (use Nil.prems T in auto)
  then show ?case using T by auto
next
  case (Cons c cs)
  obtain clk delta final where c: "c = (clk, delta, final)" by (cases c)
  with Cons.prems(3) have f: "\<not> final" "\<forall>n. clk n \<in> N" by auto
  obtain now later where h: "hold_back (ss_suffix st @ delta) = (now, later)" by fastforce
  have T: "T = (raw @ delta) @ deltas cs @ last_delta" using Cons.prems(5) c by (simp add: deltas_def)
  have ext: "tok_split ((raw @ delta) @ u) = (G @ tok_split now) @ tok_split (later @ u)" for u
  proof -
    from Cons.prems(1) have "tok_split (raw @ delta @ u) = G @ tok_split ((ss_suffix st @ delta) @ u)"
      by (simp add: stream_inv_def)
    with hold_back_stable [OF h, of u] show ?thesis by simp
  qed
  have split: "tok_split T = (G @ tok_split now) @ tok_split (later @ deltas cs @ last_delta)"
    unfolding T by (rule ext)
  have "\<exists>st'. stream_feed E B U ctx prov mx clk delta False st v
       = (Inr (concat (map (seg_repl d) (tok_split now))), st', v)
     \<and> stream_sum d (raw @ delta) (G @ tok_split now) (st'\<lparr>ss_closed := False\<rparr>)
     \<and> ss_closed st' = False \<and> ss_suffix st' = later"
    by (rule stream_feed_det) (use Cons.prems(2,6-9) split T f h in auto)
  then obtain st1 where one: "stream_feed E B U ctx prov mx clk delta False st v
       = (Inr (concat (map (seg_repl d) (tok_split now))), st1, v)"
    and sum1: "stream_sum d (raw @ delta) (G @ tok_split now) st1"
    and st1: "\<not> ss_closed st1" "ss_suffix st1 = later" by (auto simp: stream_sum_def)
  from stream_feed_Inr [OF one] have "concat (ss_raw st1) = concat (ss_raw st) @ delta" by blast
  with st1 Cons.prems(1) hold_back_parts [OF h] ext have inv1: "stream_inv (raw @ delta) (G @ tok_split now) st1"
    by (simp add: stream_inv_def)
  have "\<exists>ts st' G'. stream_run E B U ctx prov mx (cs @ [(clkf, last_delta, True)]) st1 v = (Inr ts, st', v)
     \<and> tok_split T = (G @ tok_split now) @ G' \<and> concat ts = concat (map (seg_repl d) G')
     \<and> stream_sum d T ((G @ tok_split now) @ G') (st'\<lparr>ss_closed := False\<rparr>) \<and> ss_closed st'"
    by (rule Cons.IH [OF inv1 sum1 _ Cons.prems(4) T Cons.prems(6-9)]) (use Cons.prems(3) in auto)
  then obtain ts st' G' where ts: "stream_run E B U ctx prov mx (cs @ [(clkf, last_delta, True)]) st1 v = (Inr ts, st', v)"
    "tok_split T = (G @ tok_split now) @ G'" "concat ts = concat (map (seg_repl d) G')"
    "stream_sum d T ((G @ tok_split now) @ G') (st'\<lparr>ss_closed := False\<rparr>)" "ss_closed st'" by blast
  then show ?case
    using one c f by (intro exI [of _ "concat (map (seg_repl d) (tok_split now)) # ts"] exI [of _ st']
        exI [of _ "tok_split now @ G'"]) simp
qed



end
