(* ===== verification/NetAddr.thy ===== *)
theory NetAddr
  imports PyText
begin

text \<open>
  What the egress checks use of the standard library: \<open>ipaddress.ip_address\<close> and
  \<open>ip_network\<close> membership, and \<open>urllib.parse.urlsplit\<close> with the \<open>hostname\<close> and \<open>port\<close> of its
  result.  An address is its integer value, an IPv6 address with the scope that followed \<open>%\<close>.
  \<open>None\<close> stands for \<open>ValueError\<close>.
\<close>

subsection \<open>Addresses\<close>

datatype ip = V4 nat | V6 nat "ustr option"

definition parse_octet :: "ustr \<Rightarrow> nat option" where
  "parse_octet s =
     (if s = [] \<or> \<not> list_all ascii_digit s \<or> 3 < length s \<or> (s \<noteq> [48] \<and> hd s = 48) \<or> 255 < undec s
      then None else Some (undec s))"

definition parse_ip4 :: "ustr \<Rightarrow> nat option" where
  "parse_ip4 s =
     (if 47 \<in> set s then None
      else let octets = map parse_octet (split_on 46 s)
      in if length octets \<noteq> 4 \<or> None \<in> set octets then None
         else Some (foldl (\<lambda>n ob. 256 * n + the ob) 0 octets))"

definition hex_value :: "cp \<Rightarrow> nat option" where
  "hex_value c =
     (if ascii_digit c then Some (c - 48)
      else if 97 \<le> c \<and> c \<le> 102 then Some (c - 87)
      else if 65 \<le> c \<and> c \<le> 70 then Some (c - 55) else None)"

definition parse_hextet :: "ustr \<Rightarrow> nat option" where
  "parse_hextet s =
     (if s = [] \<or> 4 < length s \<or> None \<in> set (map hex_value s) then None
      else Some (foldl (\<lambda>n c. 16 * n + the (hex_value c)) 0 s))"

text \<open>A trailing IPv4 address counts as the two groups of its value.\<close>

definition ip6_parts :: "ustr \<Rightarrow> (ustr + nat) list option" where
  "ip6_parts s =
     (let parts = split_on 58 s
      in if length parts < 3 then None
         else if 46 \<in> set (last parts)
         then map_option (\<lambda>n. map Inl (butlast parts) @ [Inr (n div 65536), Inr (n mod 65536)])
                (parse_ip4 (last parts))
         else Some (map Inl parts))"

fun group_value :: "ustr + nat \<Rightarrow> nat option" where
  "group_value (Inl s) = parse_hextet s"
| "group_value (Inr n) = Some n"

definition groups_value :: "nat \<Rightarrow> (ustr + nat) list \<Rightarrow> nat option" where
  "groups_value start parts =
     (let hs = map group_value parts
      in if None \<in> set hs then None else Some (foldl (\<lambda>n h. 65536 * n + the h) start hs))"

definition parse_ip6_int :: "ustr \<Rightarrow> nat option" where
  "parse_ip6_int s =
     (case ip6_parts s of None \<Rightarrow> None
      | Some parts \<Rightarrow>
          if 9 < length parts then None
          else (case filter (\<lambda>i. parts ! i = Inl []) [1..<length parts - 1] of
             [] \<Rightarrow> if length parts \<noteq> 8 \<or> hd parts = Inl [] \<or> last parts = Inl [] then None
                  else groups_value 0 parts
           | [skip] \<Rightarrow>
               (let lead = hd parts = Inl []; trail = last parts = Inl [];
                    hi = (if lead then skip - 1 else skip);
                    lo = (if trail then length parts - skip - 2 else length parts - skip - 1)
                in if (lead \<and> hi \<noteq> 0) \<or> (trail \<and> lo \<noteq> 0) \<or> 8 < Suc (hi + lo) then None
                   else Option.bind (groups_value 0 (take hi parts)) (\<lambda>n.
                          groups_value (n * 65536 ^ (8 - (hi + lo))) (drop (length parts - lo) parts)))
           | _ \<Rightarrow> None))"

definition parse_ip6 :: "ustr \<Rightarrow> ip option" where
  "parse_ip6 s =
     (if 47 \<in> set s then None
      else let (addr, sep, scope) = partition_on 37 s
      in if sep \<and> (scope = [] \<or> 37 \<in> set scope) then None
         else map_option (\<lambda>n. V6 n (if sep then Some scope else None)) (parse_ip6_int addr))"

definition ip_address :: "ustr \<Rightarrow> ip option" where
  "ip_address s = (case parse_ip4 s of Some n \<Rightarrow> Some (V4 n) | None \<Rightarrow> parse_ip6 s)"

definition ipv4_mapped :: "ip \<Rightarrow> ip option" where
  "ipv4_mapped a = (case a of V6 n _ \<Rightarrow> if n div 2 ^ 32 = 65535 then Some (V4 (n mod 2 ^ 32)) else None | V4 _ \<Rightarrow> None)"

text \<open>A network: version, first address, length of the prefix.\<close>

datatype network = Net4 nat nat | Net6 nat nat

fun in_network :: "ip \<Rightarrow> network \<Rightarrow> bool" where
  "in_network (V4 n) (Net4 base p) \<longleftrightarrow> n div 2 ^ (32 - p) = base div 2 ^ (32 - p)"
| "in_network (V6 n _) (Net6 base p) \<longleftrightarrow> n div 2 ^ (128 - p) = base div 2 ^ (128 - p)"
| "in_network _ _ \<longleftrightarrow> False"

definition ip4 :: "nat \<Rightarrow> nat \<Rightarrow> nat \<Rightarrow> nat \<Rightarrow> nat" where
  "ip4 a b c d = ((a * 256 + b) * 256 + c) * 256 + d"

subsection \<open>URLs\<close>

record url_parts =
  up_scheme :: ustr
  up_netloc :: ustr

definition scheme_char :: "cp \<Rightarrow> bool" where
  "scheme_char c \<longleftrightarrow> ascii_alpha c \<or> ascii_digit c \<or> c = 43 \<or> c = 45 \<or> c = 46"

definition rpartition_tail :: "cp \<Rightarrow> ustr \<Rightarrow> ustr" where
  \<comment> \<open>\<open>s.rpartition(c)[2]\<close>\<close>
  "rpartition_tail c s = last (split_on c s)"

definition bracketed_host_ok :: "ustr \<Rightarrow> bool" where
  "bracketed_host_ok h =
     (case h of
        c # r \<Rightarrow>
          if c = 118 then
            (let (hex, dot, rest) = partition_on 46 r
             in hex \<noteq> [] \<and> list_all (\<lambda>x. hex_value x \<noteq> None) hex \<and> dot \<and> rest \<noteq> [] \<and> 10 \<notin> set rest)
          else (case ip_address h of Some (V6 _ _) \<Rightarrow> True | _ \<Rightarrow> False)
      | [] \<Rightarrow> False)"

definition bracketed_netloc_ok :: "ustr \<Rightarrow> bool" where
  "bracketed_netloc_ok netloc =
     (let (before, op, bracketed) = partition_on 91 (rpartition_tail 64 netloc)
      in if op then
           (let (hostname, _, port) = partition_on 93 bracketed
            in before = [] \<and> (port = [] \<or> hd port = 58) \<and> bracketed_host_ok hostname)
         else bracketed_host_ok (fst (partition_on 58 (rpartition_tail 64 netloc))))"

definition netloc_ok :: "ucd \<Rightarrow> ustr \<Rightarrow> bool" where
  \<comment> \<open>no delimiter appears under NFKC\<close>
  "netloc_ok U netloc =
     (if list_all (\<lambda>c. c < 128) netloc then True
      else let n = filter (\<lambda>c. c \<notin> {64, 58, 35, 63}) netloc
      in u_nfkc U n = n \<or> list_all (\<lambda>c. c \<notin> {47, 63, 35, 64, 58}) (u_nfkc U n))"

definition urlsplit :: "ucd \<Rightarrow> ustr \<Rightarrow> url_parts option" where
  "urlsplit U url0 =
     (let url1 = filter (\<lambda>c. c \<notin> {9, 10, 13}) (dropWhile (\<lambda>c. c \<le> 32) url0);
          (before, colon, after) = partition_on 58 url1;
          has_scheme = (colon \<and> before \<noteq> [] \<and> ascii_alpha (hd before) \<and> list_all scheme_char before);
          (scheme, url2) = (if has_scheme then (u_lower U before, after) else ([], url1));
          netloc = (if take 2 url2 = [47, 47] then takeWhile (\<lambda>c. c \<notin> {47, 63, 35}) (drop 2 url2) else [])
      in if (91 \<in> set netloc) \<noteq> (93 \<in> set netloc) then None
         else if 91 \<in> set netloc \<and> \<not> bracketed_netloc_ok netloc then None
         else if \<not> netloc_ok U netloc then None
         else Some \<lparr>up_scheme = scheme, up_netloc = netloc\<rparr>)"

definition hostinfo :: "ustr \<Rightarrow> ustr \<times> ustr" where
  \<comment> \<open>host and port of a netloc; the empty port stands for none\<close>
  "hostinfo netloc =
     (let info = rpartition_tail 64 netloc; (_, op, bracketed) = partition_on 91 info
      in if op then (let (hostname, _, port) = partition_on 93 bracketed in (hostname, snd (snd (partition_on 58 port))))
         else (let (hostname, _, port) = partition_on 58 info in (hostname, port)))"

definition url_hostname :: "ucd \<Rightarrow> url_parts \<Rightarrow> ustr" where
  \<comment> \<open>the empty text stands for \<open>None\<close>\<close>
  "url_hostname U p =
     (let (name, percent, zone) = partition_on 37 (fst (hostinfo (up_netloc p)))
      in u_lower U name @ (if percent then 37 # zone else []))"

definition url_port :: "url_parts \<Rightarrow> nat option option" where
  \<comment> \<open>the outer \<open>None\<close> is \<open>ValueError\<close>\<close>
  "url_port p =
     (let port = snd (hostinfo (up_netloc p))
      in if port = [] then Some None
         else if list_all ascii_digit port \<and> undec port \<le> 65535 then Some (Some (undec port)) else None)"

end
