(* ===== verification/Egress.thy ===== *)
theory Egress
  imports NetAddr PyVal "HOL-Library.List_Lexorder"
begin

text \<open>
  Egress control, \<^verbatim>\<open>gateway/routing/egress.py\<close>: which destinations a provider may be sent to.  The
  resolver (\<open>socket.getaddrinfo\<close>) is a network service and a parameter.  The address properties of
  \<open>ipaddress\<close> (\<open>is_private\<close> and the others) are tables that were revised between interpreter releases,
  as the comment above \<open>_PRIVATE_NETWORKS\<close> says, so they are the parameter \<open>ip_flags\<close>; the list
  \<open>_PRIVATE_NETWORKS\<close> itself is modelled as it stands.
\<close>

subsection \<open>Addresses\<close>

record ip_flags =
  is_private :: "ip \<Rightarrow> bool"
  is_loopback :: "ip \<Rightarrow> bool"
  is_link_local :: "ip \<Rightarrow> bool"
  is_reserved :: "ip \<Rightarrow> bool"
  is_multicast :: "ip \<Rightarrow> bool"
  is_unspecified :: "ip \<Rightarrow> bool"

definition parse_address :: "ustr \<Rightarrow> ip res" where
  "parse_address a = (case ip_address a of Some i \<Rightarrow> Inr i | None \<Rightarrow> Inl ValueError)"

definition ip_routable :: "ip_flags \<Rightarrow> ip \<Rightarrow> bool" where
  "ip_routable F i \<longleftrightarrow> \<not> (is_private F i \<or> is_loopback F i \<or> is_link_local F i \<or> is_reserved F i
     \<or> is_multicast F i \<or> is_unspecified F i)"

definition is_globally_routable :: "ip_flags \<Rightarrow> ustr \<Rightarrow> bool res" where
  "is_globally_routable F a = rbind (parse_address a) (\<lambda>i. Inr (ip_routable F i))"

definition PRIVATE_NETWORKS :: "network list" where
  "PRIVATE_NETWORKS =
     [Net4 (ip4 127 0 0 0) 8, Net4 (ip4 10 0 0 0) 8, Net4 (ip4 172 16 0 0) 12, Net4 (ip4 192 168 0 0) 16,
      Net4 (ip4 100 64 0 0) 10, Net6 1 128, Net6 (0xfc00 * 2 ^ 112) 7]"

definition ip_on_private_network :: "ip \<Rightarrow> bool" where
  "ip_on_private_network i =
     (let i' = (case ipv4_mapped i of Some m \<Rightarrow> m | None \<Rightarrow> i) in list_ex (in_network i') PRIVATE_NETWORKS)"

definition is_private_network :: "ustr \<Rightarrow> bool res" where
  "is_private_network a = rbind (parse_address a) (\<lambda>i. Inr (ip_on_private_network i))"

subsection \<open>Resolution\<close>

datatype resolution = Gaierror | Addresses "ustr list" | Resolver_raises exn

definition resolve :: "(ustr \<Rightarrow> resolution) \<Rightarrow> ustr \<Rightarrow> ustr list res" where
  "resolve resolver host =
     (case ip_address host of
        Some _ \<Rightarrow> Inr [host]
      | None \<Rightarrow> (case resolver host of
           Gaierror \<Rightarrow> Inl EgressBlockedError
         | Resolver_raises e \<Rightarrow> Inl e
         | Addresses infos \<Rightarrow> Inr (sort (remdups infos))))"

subsection \<open>Policies\<close>

record egress_policy =
  eg_name :: ustr
  eg_allow_private :: bool
  eg_allow_http :: "bool option"
  eg_allowed_hosts :: "ustr list"
  eg_require_private :: bool

definition default_egress :: egress_policy where
  "default_egress = \<lparr>eg_name = lit ''external'', eg_allow_private = False, eg_allow_http = None,
     eg_allowed_hosts = [], eg_require_private = False\<rparr>"

definition http_permitted :: "egress_policy \<Rightarrow> bool" where
  "http_permitted p = (case eg_allow_http p of None \<Rightarrow> eg_allow_private p | Some b \<Rightarrow> b)"

definition validate_address :: "ip_flags \<Rightarrow> egress_policy \<Rightarrow> ustr \<Rightarrow> unit res" where
  "validate_address F p a =
     rbind (if eg_require_private p then is_private_network a else Inr True) (\<lambda>private_ok.
     if \<not> private_ok then Inl EgressBlockedError
     else rbind (is_globally_routable F a) (\<lambda>global.
       if \<not> global \<and> \<not> eg_allow_private p then Inl EgressBlockedError else Inr ()))"

definition validate_addresses :: "ip_flags \<Rightarrow> egress_policy \<Rightarrow> ustr list \<Rightarrow> unit res" where
  "validate_addresses F p as = rbind (rmap (validate_address F p) as) (\<lambda>_. Inr ())"

definition validate_offline :: "ucd \<Rightarrow> ip_flags \<Rightarrow> egress_policy \<Rightarrow> ustr \<Rightarrow> ustr res" where
  "validate_offline U F p url =
     (case urlsplit U url of
        None \<Rightarrow> Inl EgressBlockedError
      | Some parts \<Rightarrow>
          (let host = url_hostname U parts
           in case url_port parts of
                None \<Rightarrow> Inl EgressBlockedError
              | Some port \<Rightarrow>
                  if port = Some 0 then Inl EgressBlockedError
                  else if up_scheme parts \<notin> {lit ''http'', lit ''https''} then Inl EgressBlockedError
                  else if up_scheme parts = lit ''http'' \<and> \<not> http_permitted p then Inl EgressBlockedError
                  else if host = [] then Inl EgressBlockedError
                  else if list_ex (u_isspace U) url then Inl EgressBlockedError
                  else if eg_allowed_hosts p \<noteq> [] \<and> u_lower U host \<notin> set (eg_allowed_hosts p)
                  then Inl EgressBlockedError
                  else case ip_address host of
                    None \<Rightarrow> Inr host
                  | Some _ \<Rightarrow> rbind (validate_addresses F p [host]) (\<lambda>_. Inr host)))"

definition validate :: "ucd \<Rightarrow> ip_flags \<Rightarrow> (ustr \<Rightarrow> resolution) \<Rightarrow> egress_policy \<Rightarrow> ustr \<Rightarrow> unit res" where
  "validate U F resolver p url =
     rbind (validate_offline U F p url) (\<lambda>host.
     rbind (resolve resolver host) (\<lambda>addresses.
     if addresses = [] then Inl EgressBlockedError else validate_addresses F p addresses))"

definition policy_for :: "ustr \<Rightarrow> ustr list \<Rightarrow> bool option \<Rightarrow> bool \<Rightarrow> egress_policy" where
  "policy_for destination allowed_hosts allow_private_override require_private =
     (if require_private
      then \<lparr>eg_name = destination, eg_allow_private = True, eg_allow_http = None,
            eg_allowed_hosts = allowed_hosts, eg_require_private = True\<rparr>
      else let allow = (case allow_private_override of None \<Rightarrow> destination = lit ''local'' | Some b \<Rightarrow> b)
      in \<lparr>eg_name = destination, eg_allow_private = allow, eg_allow_http = None,
          eg_allowed_hosts = allowed_hosts, eg_require_private = False\<rparr>)"

definition describe :: "egress_policy \<Rightarrow> (string \<times> pyval) list" where
  "describe p = [(''destination'', PStr (eg_name p)), (''allow_private'', PBool (eg_allow_private p)),
     (''allow_http'', PBool (http_permitted p)), (''allowed_hosts'', PList (map PStr (sort (remdups (eg_allowed_hosts p))))),
     (''require_private_network'', PBool (eg_require_private p))]"

subsection \<open>What a validated destination satisfies\<close>

definition address_ok :: "ip_flags \<Rightarrow> egress_policy \<Rightarrow> ustr \<Rightarrow> bool" where
  "address_ok F p a \<longleftrightarrow> (\<exists>i. ip_address a = Some i \<and> (eg_require_private p \<longrightarrow> ip_on_private_network i)
     \<and> (ip_routable F i \<or> eg_allow_private p))"

definition offline_ok :: "ucd \<Rightarrow> egress_policy \<Rightarrow> ustr \<Rightarrow> url_parts \<Rightarrow> bool" where
  "offline_ok U p url parts \<longleftrightarrow>
     (up_scheme parts = lit ''https'' \<or> up_scheme parts = lit ''http'' \<and> http_permitted p)
     \<and> url_hostname U parts \<noteq> [] \<and> url_port parts \<notin> {None, Some (Some 0)} \<and> \<not> list_ex (u_isspace U) url
     \<and> (eg_allowed_hosts p = [] \<or> u_lower U (url_hostname U parts) \<in> set (eg_allowed_hosts p))"

lemma validate_address_Inr: "validate_address F p a = Inr () \<longleftrightarrow> address_ok F p a"
  by (cases "ip_address a")
    (auto simp: validate_address_def address_ok_def is_private_network_def is_globally_routable_def
      parse_address_def)

lemma validate_addresses_Inr: "validate_addresses F p as = Inr () \<longleftrightarrow> list_all (address_ok F p) as"
proof (induction as)
  case (Cons a as)
  then show ?case
    by (auto simp: validate_addresses_def rbind_eq_Inr validate_address_Inr [symmetric])
qed (simp add: validate_addresses_def)

lemma validate_offline_Inr:
  "validate_offline U F p url = Inr host \<longleftrightarrow>
     (\<exists>parts. urlsplit U url = Some parts \<and> offline_ok U p url parts \<and> host = url_hostname U parts
        \<and> (ip_address host \<noteq> None \<longrightarrow> address_ok F p host))"
  by (auto simp: validate_offline_def offline_ok_def Let_def rbind_eq_Inr validate_addresses_Inr
      split: option.splits if_splits)

lemma ip_address_resolve: "resolve resolver host = Inr as \<Longrightarrow> ip_address host \<noteq> None \<Longrightarrow> as = [host]"
  by (auto simp: resolve_def)

lemma egress_valid_iff:
  "validate U F resolver p url = Inr () \<longleftrightarrow>
     (\<exists>parts addresses. urlsplit U url = Some parts \<and> offline_ok U p url parts
        \<and> resolve resolver (url_hostname U parts) = Inr addresses \<and> addresses \<noteq> []
        \<and> list_all (address_ok F p) addresses)"
proof
  assume "validate U F resolver p url = Inr ()"
  then show "\<exists>parts addresses. urlsplit U url = Some parts \<and> offline_ok U p url parts
        \<and> resolve resolver (url_hostname U parts) = Inr addresses \<and> addresses \<noteq> []
        \<and> list_all (address_ok F p) addresses"
    by (auto simp: validate_def rbind_eq_Inr validate_offline_Inr validate_addresses_Inr split: if_splits)
next
  assume "\<exists>parts addresses. urlsplit U url = Some parts \<and> offline_ok U p url parts
        \<and> resolve resolver (url_hostname U parts) = Inr addresses \<and> addresses \<noteq> []
        \<and> list_all (address_ok F p) addresses"
  then obtain parts addresses where h: "urlsplit U url = Some parts" "offline_ok U p url parts"
    "resolve resolver (url_hostname U parts) = Inr addresses" "addresses \<noteq> []" "list_all (address_ok F p) addresses"
    by blast
  have "ip_address (url_hostname U parts) \<noteq> None \<longrightarrow> address_ok F p (url_hostname U parts)"
    using ip_address_resolve [OF h(3)] h(5) by auto
  with h have "validate_offline U F p url = Inr (url_hostname U parts)" by (simp add: validate_offline_Inr)
  with h show "validate U F resolver p url = Inr ()" by (simp add: validate_def validate_addresses_Inr)
qed

text \<open>
  C25: The checks of a destination are exactly the documented ones: it is accepted if and only if the
  URL is well formed with a permitted scheme, host and port, and the host resolves to at least one
  address, every one of which the policy admits; a host with one forbidden address is refused.
\<close>

theorem egress_exact:
  "validate U F resolver p url = Inr () \<longleftrightarrow>
     (\<exists>parts addresses. urlsplit U url = Some parts \<and> offline_ok U p url parts
        \<and> resolve resolver (url_hostname U parts) = Inr addresses \<and> addresses \<noteq> []
        \<and> list_all (address_ok F p) addresses)"
  by (rule egress_valid_iff)

text \<open>The private networks as ranges of addresses.\<close>

definition private_v4 :: "nat \<Rightarrow> bool" where
  "private_v4 n \<longleftrightarrow>
     ip4 10 0 0 0 \<le> n \<and> n \<le> ip4 10 255 255 255 \<or> ip4 127 0 0 0 \<le> n \<and> n \<le> ip4 127 255 255 255
     \<or> ip4 172 16 0 0 \<le> n \<and> n \<le> ip4 172 31 255 255 \<or> ip4 192 168 0 0 \<le> n \<and> n \<le> ip4 192 168 255 255
     \<or> ip4 100 64 0 0 \<le> n \<and> n \<le> ip4 100 127 255 255"

fun private_range :: "ip \<Rightarrow> bool" where
  "private_range (V4 n) \<longleftrightarrow> private_v4 n"
| "private_range (V6 n _) \<longleftrightarrow> n = 1 \<or> 0xfc00 * 2 ^ 112 \<le> n \<and> n < 0xfe00 * 2 ^ 112
     \<or> n div 2 ^ 32 = 65535 \<and> private_v4 (n mod 2 ^ 32)"

lemma div_eq_range: "0 < k \<Longrightarrow> (n :: nat) div k = b div k \<longleftrightarrow> (b div k) * k \<le> n \<and> n < Suc (b div k) * k"
proof
  assume k: "0 < k" and eq: "n div k = b div k"
  show "b div k * k \<le> n \<and> n < Suc (b div k) * k"
    using eq [symmetric] k dividend_less_div_times [of k n] by (simp add: add.commute)
next
  assume k: "0 < k" and r: "b div k * k \<le> n \<and> n < Suc (b div k) * k"
  show "n div k = b div k"
    using r k by (metis div_nat_eqI mult.commute)
qed

lemma in_net4:
  "in_network (V4 n) (Net4 (ip4 127 0 0 0) 8) \<longleftrightarrow> ip4 127 0 0 0 \<le> n \<and> n \<le> ip4 127 255 255 255"
  "in_network (V4 n) (Net4 (ip4 10 0 0 0) 8) \<longleftrightarrow> ip4 10 0 0 0 \<le> n \<and> n \<le> ip4 10 255 255 255"
  "in_network (V4 n) (Net4 (ip4 172 16 0 0) 12) \<longleftrightarrow> ip4 172 16 0 0 \<le> n \<and> n \<le> ip4 172 31 255 255"
  "in_network (V4 n) (Net4 (ip4 192 168 0 0) 16) \<longleftrightarrow> ip4 192 168 0 0 \<le> n \<and> n \<le> ip4 192 168 255 255"
  "in_network (V4 n) (Net4 (ip4 100 64 0 0) 10) \<longleftrightarrow> ip4 100 64 0 0 \<le> n \<and> n \<le> ip4 100 127 255 255"
  by (simp_all add: ip4_def div_eq_range; arith)+

lemma in_PRIVATE_V4: "list_ex (in_network (V4 n)) PRIVATE_NETWORKS \<longleftrightarrow> private_v4 n"
  unfolding PRIVATE_NETWORKS_def private_v4_def
  by (simp add: in_net4 del: in_network.simps(1,2)) blast

lemma in_PRIVATE_V6: "list_ex (in_network (V6 n s)) PRIVATE_NETWORKS \<longleftrightarrow> n = 1 \<or> 0xfc00 * 2 ^ 112 \<le> n \<and> n < 0xfe00 * 2 ^ 112"
  by (auto simp: PRIVATE_NETWORKS_def div_eq_range)

lemma ip_on_private_network_iff: "ip_on_private_network i \<longleftrightarrow> private_range i"
proof (cases i)
  case (V4 n)
  then show ?thesis by (simp add: ip_on_private_network_def ipv4_mapped_def in_PRIVATE_V4)
next
  case (V6 n s)
  show ?thesis
  proof (cases "n div 2 ^ 32 = 65535")
    case True
    then have "n \<noteq> 1" "n < 0xfc00 * 2 ^ 112"
      using div_eq_range [of "2 ^ 32" n "65535 * 2 ^ 32"] by auto
    with V6 True show ?thesis
      by (simp add: ip_on_private_network_def ipv4_mapped_def in_PRIVATE_V4 not_le)
  next
    case False
    with V6 show ?thesis by (simp add: ip_on_private_network_def ipv4_mapped_def in_PRIVATE_V6)
  qed
qed

text \<open>
  A destination under the private-network requirement of local routing is on the operator's own
  network: every address its host resolves to is loopback, RFC 1918, RFC 6598 shared space or IPv6
  unique local, also when written as an IPv4-mapped IPv6 address.  So the link-local metadata address
  is never accepted there, whatever the interpreter's address tables say.
\<close>

theorem local_destination_is_private:
  assumes "validate U F resolver (policy_for destination hosts override True) url = Inr ()"
    and "urlsplit U url = Some parts"
    and "resolve resolver (url_hostname U parts) = Inr addresses" and "a \<in> set addresses"
  shows "\<exists>i. ip_address a = Some i \<and> private_range i \<and> i \<noteq> V4 (ip4 169 254 169 254)"
proof -
  from assms have "address_ok F (policy_for destination hosts override True) a"
    unfolding egress_valid_iff by (auto simp: list_all_iff)
  then obtain i where "ip_address a = Some i" "private_range i"
    by (auto simp: address_ok_def policy_for_def ip_on_private_network_iff)
  moreover from this(2) have "i \<noteq> V4 (ip4 169 254 169 254)" by (auto simp: private_v4_def ip4_def)
  ultimately show ?thesis by blast
qed

definition sample_flags :: ip_flags where
  \<comment> \<open>tables that know only the metadata address\<close>
  "sample_flags = \<lparr>is_private = (\<lambda>_. False), is_loopback = (\<lambda>_. False),
     is_link_local = (\<lambda>i. i = V4 (ip4 169 254 169 254)), is_reserved = (\<lambda>_. False),
     is_multicast = (\<lambda>_. False), is_unspecified = (\<lambda>_. False)\<rparr>"

definition sample_url :: ustr where "sample_url = lit ''http://10.0.0.5:11434''"

lemma sample_url_parts:
  "urlsplit ascii_ucd sample_url = Some \<lparr>up_scheme = lit ''http'', up_netloc = lit ''10.0.0.5:11434''\<rparr>"
  by (simp add: sample_url_def lit_def of_char_def urlsplit_def partition_on_def scheme_char_def ascii_alpha_def
      ascii_digit_def netloc_ok_def ascii_ucd_def ascii_lower_cp_def)

lemma sample_url_host: "url_hostname ascii_ucd \<lparr>up_scheme = lit ''http'', up_netloc = lit ''10.0.0.5:11434''\<rparr> = lit ''10.0.0.5''"
  by (simp add: url_hostname_def hostinfo_def rpartition_tail_def lit_def of_char_def partition_on_def
      ascii_ucd_def ascii_lower_cp_def)

lemma sample_url_port: "url_port \<lparr>up_scheme = lit ''http'', up_netloc = lit ''10.0.0.5:11434''\<rparr> = Some (Some 11434)"
  by (simp add: url_port_def hostinfo_def rpartition_tail_def lit_def of_char_def partition_on_def
      ascii_digit_def undec_def)

lemma sample_address: "ip_address (lit ''10.0.0.5'') = Some (V4 (ip4 10 0 0 5))"
  by (simp add: ip_address_def parse_ip4_def parse_octet_def lit_def of_char_def ascii_digit_def undec_def ip4_def)

lemma sample_url_valid:
  "validate ascii_ucd sample_flags (\<lambda>_. Gaierror) (policy_for (lit ''local'') [] None True) sample_url = Inr ()"
proof -
  have "offline_ok ascii_ucd (policy_for (lit ''local'') [] None True) sample_url
      \<lparr>up_scheme = lit ''http'', up_netloc = lit ''10.0.0.5:11434''\<rparr>"
    unfolding offline_ok_def sample_url_host sample_url_port
    by (simp add: policy_for_def http_permitted_def sample_url_def lit_def of_char_def ascii_ucd_def ascii_space_def)
  moreover have "address_ok sample_flags (policy_for (lit ''local'') [] None True) (lit ''10.0.0.5'')"
    unfolding address_ok_def sample_address ip_on_private_network_iff
    by (simp add: policy_for_def private_v4_def ip4_def)
  ultimately show ?thesis
    unfolding egress_valid_iff by (simp add: sample_url_parts sample_url_host sample_address resolve_def)
qed

theorem local_destination_is_private_witness:
  "\<exists>i. ip_address (lit ''10.0.0.5'') = Some i \<and> private_range i \<and> i \<noteq> V4 (ip4 169 254 169 254)"
  by (rule local_destination_is_private [OF sample_url_valid sample_url_parts, where addresses = "[lit ''10.0.0.5'']"])
    (simp_all add: sample_url_host sample_address resolve_def)

end
