(* ===== verification/Json.thy ===== *)
theory Json
  imports PyVal
begin

text \<open>
  What the code uses of the standard library's \<open>json\<close>: \<open>json.loads\<close> up to its hooks, and
  \<open>json.dumps\<close> with \<open>ensure_ascii=False, separators=(",", ":"), allow_nan=False\<close>.  The scanner returns
  the tree as it hands it to the hooks: an object as the list of its pairs, a non-finite constant by its
  name.  \<open>nest\<close> is the nesting the interpreter's recursion limit allows, \<open>show\<close> is \<open>float.__repr__\<close>.
  A scanner with fuel needs two units a character; \<open>parse_value_fuel\<close> shows that more changes nothing.
\<close>

datatype raw = RNull | RBool bool | RInt int | RFloat pyfloat | RConst string | RStr ustr
  | RArr "raw list" | RObj "(ustr \<times> raw) list"

definition INT_DIGITS :: nat where
  \<comment> \<open>conversions between \<open>int\<close> and \<open>str\<close> raise \<open>ValueError\<close> beyond this many digits\<close>
  "INT_DIGITS = 4300"

definition scale10 :: "rat \<Rightarrow> int \<Rightarrow> rat" where
  "scale10 q e = (if 0 \<le> e then q * 10 ^ nat e else q / 10 ^ nat (- e))"

subsection \<open>Strings\<close>

definition json_ws :: "cp \<Rightarrow> bool" where "json_ws c \<longleftrightarrow> c = 32 \<or> c = 9 \<or> c = 10 \<or> c = 13"

abbreviation skip_ws :: "ustr \<Rightarrow> ustr" where "skip_ws s \<equiv> dropWhile json_ws s"

definition json_hex :: "cp \<Rightarrow> nat option" where
  "json_hex c =
     (if ascii_digit c then Some (c - 48)
      else if 97 \<le> c \<and> c \<le> 102 then Some (c - 87)
      else if 65 \<le> c \<and> c \<le> 70 then Some (c - 55) else None)"

definition hex4 :: "ustr \<Rightarrow> (nat \<times> ustr) option" where
  "hex4 s =
     (if length s < 4 \<or> None \<in> set (map json_hex (take 4 s)) then None
      else Some (foldl (\<lambda>n c. 16 * n + the (json_hex c)) 0 (take 4 s), drop 4 s))"

definition simple_escape :: "cp \<Rightarrow> cp option" where
  "simple_escape c = map_of [(34, 34), (92, 92), (47, 47), (98, 8), (102, 12), (110, 10), (114, 13), (116, 9)] c"

definition unicode_escape :: "ustr \<Rightarrow> (cp \<times> ustr) option" where
  \<comment> \<open>what follows \<open>\u\<close>; a pair of surrogates is joined\<close>
  "unicode_escape s =
     (case hex4 s of
        None \<Rightarrow> None
      | Some (u, r) \<Rightarrow>
          if 0xD800 \<le> u \<and> u < 0xDC00 \<and> take 2 r = [92, 117]
          then (case hex4 (drop 2 r) of
                  None \<Rightarrow> None
                | Some (w, r') \<Rightarrow> if 0xDC00 \<le> w \<and> w < 0xE000
                    then Some (0x10000 + (u - 0xD800) * 1024 + (w - 0xDC00), r') else Some (u, r))
          else Some (u, r))"

lemma hex4_shorter: "hex4 s = Some (u, r) \<Longrightarrow> length r < length s"
  by (auto simp: hex4_def split: if_splits)

lemma unicode_escape_shorter: "unicode_escape s = Some (u, r) \<Longrightarrow> length r < length s"
  by (auto simp: unicode_escape_def split: option.splits if_splits dest!: hex4_shorter)

function scan_string :: "ustr \<Rightarrow> (ustr \<times> ustr) option" where
  \<comment> \<open>after the opening quote: the text and what follows the closing quote\<close>
  "scan_string [] = None"
| "scan_string (c # r) =
     (if c = 34 then Some ([], r)
      else if c < 32 then None
      else if c \<noteq> 92 then map_option (\<lambda>(t, q). (c # t, q)) (scan_string r)
      else case r of
        [] \<Rightarrow> None
      | e # r' \<Rightarrow>
          if e = 117
          then (case unicode_escape r' of
                  None \<Rightarrow> None
                | Some (u, r'') \<Rightarrow> map_option (\<lambda>(t, q). (u # t, q)) (scan_string r''))
          else (case simple_escape e of
                  None \<Rightarrow> None
                | Some x \<Rightarrow> map_option (\<lambda>(t, q). (x # t, q)) (scan_string r')))"
  by pat_completeness auto
termination
  by (relation "measure length") (auto dest!: unicode_escape_shorter)

declare scan_string.simps(2) [simp del]

subsection \<open>Numbers\<close>

definition json_fraction :: "ustr \<Rightarrow> ustr \<times> ustr" where
  \<comment> \<open>the digits after a point, none if there is no fraction, and the rest\<close>
  "json_fraction s =
     (case s of
        c # r \<Rightarrow> let ds = takeWhile ascii_digit r in if c = 46 \<and> ds \<noteq> [] then (ds, drop (length ds) r) else ([], s)
      | [] \<Rightarrow> ([], []))"

definition json_exponent :: "ustr \<Rightarrow> int option \<times> ustr" where
  "json_exponent s =
     (case s of
        c # r \<Rightarrow>
          if c \<notin> {69, 101} then (None, s)
          else let (neg, r') = (case r of d # q \<Rightarrow> if d = 45 then (True, q) else if d = 43 then (False, q) else (False, r)
                                | [] \<Rightarrow> (False, []));
                   ds = takeWhile ascii_digit r'
               in if ds = [] then (None, s)
                  else (Some (if neg then - int (undec ds) else int (undec ds)), drop (length ds) r')
      | [] \<Rightarrow> (None, []))"

definition json_float :: "rat \<Rightarrow> pyfloat" where
  "json_float q = (if of_int float_limit \<le> q then PosInf else if q \<le> - of_int float_limit then NegInf else Fin q)"

definition whole_digits :: "ustr \<Rightarrow> ustr" where
  "whole_digits r = (case r of c # _ \<Rightarrow> if c = 48 then [48] else takeWhile ascii_digit r | [] \<Rightarrow> [])"

definition scan_unsigned :: "bool \<Rightarrow> ustr \<Rightarrow> (raw \<times> ustr) option" where
  "scan_unsigned neg r =
     (let whole = whole_digits r;
          (frac, r1) = json_fraction (drop (length whole) r);
          (ex, r2) = json_exponent r1
      in if whole = [] then None
         else if frac = [] \<and> ex = None
         then (if INT_DIGITS < length whole then None
               else Some (RInt (if neg then - int (undec whole) else int (undec whole)), r2))
         else let q = scale10 (of_nat (undec whole) + of_nat (undec frac) / 10 ^ length frac)
                        (case ex of Some e \<Rightarrow> e | None \<Rightarrow> 0)
              in Some (RFloat (json_float (if neg then - q else q)), r2))"

definition scan_number :: "ustr \<Rightarrow> (raw \<times> ustr) option" where
  "scan_number s = (case s of c # q \<Rightarrow> if c = 45 then scan_unsigned True q else scan_unsigned False s | [] \<Rightarrow> None)"

subsection \<open>Values\<close>

definition json_words :: "(string \<times> raw) list" where
  "json_words = [(''null'', RNull), (''true'', RBool True), (''false'', RBool False), (''NaN'', RConst ''NaN''),
     (''Infinity'', RConst ''Infinity''), (''-Infinity'', RConst ''-Infinity'')]"

definition scan_word :: "ustr \<Rightarrow> (raw \<times> ustr) option" where
  "scan_word s = map_option (\<lambda>(w, v). (v, drop (length w) s)) (find (\<lambda>(w, _). starts_with s (lit w)) json_words)"

fun parse_value :: "nat \<Rightarrow> nat \<Rightarrow> ustr \<Rightarrow> (raw \<times> ustr) option"
  and parse_elements :: "nat \<Rightarrow> nat \<Rightarrow> ustr \<Rightarrow> (raw list \<times> ustr) option"
  and parse_members :: "nat \<Rightarrow> nat \<Rightarrow> ustr \<Rightarrow> ((ustr \<times> raw) list \<times> ustr) option" where
  "parse_value 0 nest s = None"
| "parse_value (Suc f) nest s =
     (case s of
        [] \<Rightarrow> None
      | c # r \<Rightarrow>
          if c = 34 then map_option (\<lambda>(t, q). (RStr t, q)) (scan_string r)
          else if c = 91 \<or> c = 123
          then (case (nest, skip_ws r) of
                  (0, _) \<Rightarrow> None
                | (_, []) \<Rightarrow> None
                | (Suc n, d # q) \<Rightarrow>
                    if d = c + 2 then Some (if c = 91 then RArr [] else RObj [], q)
                    else if c = 91 then map_option (\<lambda>(xs, q). (RArr xs, q)) (parse_elements f n (d # q))
                    else map_option (\<lambda>(ps, q). (RObj ps, q)) (parse_members f n (d # q)))
          else (case scan_word s of Some w \<Rightarrow> Some w | None \<Rightarrow> scan_number s))"
| "parse_elements 0 nest s = None"
| "parse_elements (Suc f) nest s =
     (case parse_value f nest s of
        None \<Rightarrow> None
      | Some (v, r) \<Rightarrow>
          (case skip_ws r of
             [] \<Rightarrow> None
           | c # q \<Rightarrow>
               if c = 93 then Some ([v], q)
               else if c = 44 then map_option (\<lambda>(vs, q). (v # vs, q)) (parse_elements f nest (skip_ws q))
               else None))"
| "parse_members 0 nest s = None"
| "parse_members (Suc f) nest s =
     (case s of
        [] \<Rightarrow> None
      | c # r \<Rightarrow>
          if c \<noteq> 34 then None
          else (case scan_string r of
             None \<Rightarrow> None
           | Some (k, r1) \<Rightarrow>
               (case skip_ws r1 of
                  [] \<Rightarrow> None
                | d # r2 \<Rightarrow>
                    if d \<noteq> 58 then None
                    else (case parse_value f nest (skip_ws r2) of
                       None \<Rightarrow> None
                     | Some (v, r3) \<Rightarrow>
                         (case skip_ws r3 of
                            [] \<Rightarrow> None
                          | e # q \<Rightarrow>
                              if e = 125 then Some ([(k, v)], q)
                              else if e = 44
                              then map_option (\<lambda>(ps, q). ((k, v) # ps, q)) (parse_members f nest (skip_ws q))
                              else None)))))"

definition json_fuel :: "ustr \<Rightarrow> nat" where "json_fuel s = 2 * length s + 2"

definition json_parse :: "nat \<Rightarrow> ustr \<Rightarrow> raw option" where
  \<comment> \<open>\<open>None\<close> where \<open>json.loads\<close> raises \<open>ValueError\<close> or \<open>RecursionError\<close>\<close>
  "json_parse nest s =
     (if starts_with s [0xFEFF] then None
      else case parse_value (json_fuel s) nest (skip_ws s) of
        Some (v, r) \<Rightarrow> if skip_ws r = [] then Some v else None
      | None \<Rightarrow> None)"

subsection \<open>\<open>dumps\<close>\<close>

definition escape :: "cp \<Rightarrow> ustr" where
  "escape c =
     (case map_of [(34, 34), (92, 92), (8, 98), (12, 102), (10, 110), (13, 114), (9, 116)] c of
        Some e \<Rightarrow> [92, e]
      | None \<Rightarrow> if c < 32 then [92, 117, 48, 48, hex_digit (c div 16), hex_digit (c mod 16)] else [c])"

definition quoted :: "ustr \<Rightarrow> ustr" where
  "quoted s = 34 # concat (map escape s) @ [34]"

fun scalar_text :: "(rat \<Rightarrow> ustr) \<Rightarrow> pyval \<Rightarrow> ustr res" where
  "scalar_text shw PNone = Inr (lit ''null'')"
| "scalar_text shw (PBool b) = Inr (lit (if b then ''true'' else ''false''))"
| "scalar_text shw (PInt i) = (if 10 ^ INT_DIGITS \<le> \<bar>i\<bar> then Inl ValueError else Inr (py_str_int i))"
| "scalar_text shw (PFloat (Fin q)) = Inr (shw q)"
| "scalar_text shw (PFloat _) = Inl ValueError"
| "scalar_text shw _ = Inl TypeError"

definition dumps_key :: "(rat \<Rightarrow> ustr) \<Rightarrow> pyval \<Rightarrow> ustr res" where
  "dumps_key shw k = (case k of PStr s \<Rightarrow> Inr s | _ \<Rightarrow> scalar_text shw k)"

fun json_dumps :: "(rat \<Rightarrow> ustr) \<Rightarrow> pyval \<Rightarrow> ustr res"
  and dumps_list :: "(rat \<Rightarrow> ustr) \<Rightarrow> pyval list \<Rightarrow> ustr list res"
  and dumps_pairs :: "(rat \<Rightarrow> ustr) \<Rightarrow> pydict \<Rightarrow> ustr list res" where
  "json_dumps shw (PStr s) = Inr (quoted s)"
| "json_dumps shw (PList xs) = rbind (dumps_list shw xs) (\<lambda>ts. Inr (91 # py_join [44] ts @ [93]))"
| "json_dumps shw (PDict d) = rbind (dumps_pairs shw d) (\<lambda>ts. Inr (123 # py_join [44] ts @ [125]))"
| "json_dumps shw PNone = scalar_text shw PNone"
| "json_dumps shw (PBool b) = scalar_text shw (PBool b)"
| "json_dumps shw (PInt i) = scalar_text shw (PInt i)"
| "json_dumps shw (PFloat f) = scalar_text shw (PFloat f)"
| "dumps_list shw [] = Inr []"
| "dumps_list shw (x # xs) = rbind (json_dumps shw x) (\<lambda>t. rbind (dumps_list shw xs) (\<lambda>ts. Inr (t # ts)))"
| "dumps_pairs shw [] = Inr []"
| "dumps_pairs shw ((k, v) # d) =
     rbind (dumps_key shw k) (\<lambda>kt. rbind (json_dumps shw v) (\<lambda>t.
     rbind (dumps_pairs shw d) (\<lambda>ts. Inr ((quoted kt @ 58 # t) # ts))))"

end
