(* ===== verification/Provider.thy ===== *)
theory Provider
  imports Egress Json
begin

text \<open>
  The HTTP adapter \<open>OpenAICompatibleProvider\<close>, \<^verbatim>\<open>gateway/routing/base.py\<close>: one request sent at most
  \<open>max_retries + 1\<close> times under one deadline.  The network is the parameter \<open>net\<close>, which answers the
  attempt with a given number; \<open>tick\<close> are the readings of \<open>time.monotonic()\<close> (number 0 starts the
  deadline, number \<open>Suc a\<close> is read before attempt \<open>a\<close>), \<open>jitter\<close> the injected jitter and \<open>loads\<close> is
  \<open>json.loads\<close>.  A call returns its result together with what it did: the requests sent and the
  sleeps between them, in order.
\<close>

subsection \<open>\<open>float(s)\<close>\<close>

definition num_run :: "ucd \<Rightarrow> ustr \<Rightarrow> ustr \<times> ustr" where
  "num_run U s = (let p = (\<lambda>c. u_decimal U c \<noteq> None \<or> c = 95) in (takeWhile p s, dropWhile p s))"

definition run_value :: "ucd \<Rightarrow> ustr \<Rightarrow> nat option" where
  "run_value U r = (if r = [] then Some 0 else digit_groups U False 0 r)"

definition parse_exponent :: "ucd \<Rightarrow> ustr \<Rightarrow> int option" where
  \<comment> \<open>what follows the fraction\<close>
  "parse_exponent U s =
     (case s of
        [] \<Rightarrow> Some 0
      | c # r \<Rightarrow>
          if c \<notin> {69, 101} then None
          else let (neg, ds) = (case r of d # r' \<Rightarrow> if d = 45 then (True, r') else if d = 43 then (False, r') else (False, r)
                                | [] \<Rightarrow> (False, []))
          in map_option (\<lambda>n. if neg then - int n else int n) (digit_groups U False 0 ds))"

definition parse_unsigned :: "ucd \<Rightarrow> ustr \<Rightarrow> pyfloat option" where
  "parse_unsigned U body =
     (let low = map ascii_lower_cp body
      in if low = lit ''inf'' \<or> low = lit ''infinity'' then Some PosInf
         else if low = lit ''nan'' then Some NaN
         else let (whole, r1) = num_run U body;
                  (frac, r2) = (case r1 of c # r \<Rightarrow> if c = 46 then num_run U r else ([], r1) | [] \<Rightarrow> ([], []))
         in if whole = [] \<and> frac = [] then None
            else case (run_value U whole, run_value U frac, parse_exponent U r2) of
              (Some w, Some f, Some e) \<Rightarrow>
                (let q = scale10 (of_nat w + of_nat f / 10 ^ length (filter (\<lambda>c. c \<noteq> 95) frac)) e
                 in Some (if q < of_int float_limit then Fin q else PosInf))
            | _ \<Rightarrow> None)"

definition py_float_str :: "ucd \<Rightarrow> ustr \<Rightarrow> pyfloat option" where
  \<comment> \<open>\<open>None\<close> where \<open>float\<close> raises \<open>ValueError\<close>\<close>
  "py_float_str U s =
     (let t = strip_ws (u_isspace U) s
      in case t of
           [] \<Rightarrow> None
         | c # r \<Rightarrow>
             if c = 45 then map_option (\<lambda>f. case f of Fin q \<Rightarrow> Fin (- q) | PosInf \<Rightarrow> NegInf | NegInf \<Rightarrow> PosInf | NaN \<Rightarrow> NaN)
                              (parse_unsigned U r)
             else parse_unsigned U (if c = 43 then r else t))"

subsection \<open>Configuration\<close>

definition MAX_RETRIES :: int where "MAX_RETRIES = 2"
definition BACKOFF_BASE_SECONDS :: rat where "BACKOFF_BASE_SECONDS = 1 / 4"
definition BACKOFF_CAP_SECONDS :: rat where "BACKOFF_CAP_SECONDS = 4"
definition MAX_RESPONSE_BYTES :: int where "MAX_RESPONSE_BYTES = 8 * 1024 * 1024"

definition RETRYABLE_STATUS :: "nat list" where
  "RETRYABLE_STATUS = [429, 500, 502, 503, 504]"

record http_provider =
  hp_name :: ustr
  hp_base_url :: ustr
  hp_api_key :: "ustr option"
  hp_model_override :: "ustr option"
  hp_timeout :: rat
  hp_egress :: egress_policy
  hp_max_retries :: int
  hp_max_response_bytes :: int

definition rstrip_slash :: "ustr \<Rightarrow> ustr" where
  "rstrip_slash s = rev (dropWhile (\<lambda>c. c = 47) (rev s))"

definition mk_http_provider :: "ucd \<Rightarrow> ip_flags \<Rightarrow> (ustr \<Rightarrow> resolution) \<Rightarrow> ustr \<Rightarrow> ustr option \<Rightarrow> ustr option
    \<Rightarrow> rat \<Rightarrow> ustr \<Rightarrow> egress_policy option \<Rightarrow> int \<Rightarrow> int \<Rightarrow> http_provider res" where
  "mk_http_provider U F resolver base_url api_key model_override timeout name egress max_retries max_response =
     (let p = \<lparr>hp_name = name, hp_base_url = rstrip_slash base_url, hp_api_key = api_key,
               hp_model_override = model_override, hp_timeout = timeout,
               hp_egress = (case egress of Some e \<Rightarrow> e | None \<Rightarrow> default_egress\<lparr>eg_name := name\<rparr>),
               hp_max_retries = max_retries, hp_max_response_bytes = max_response\<rparr>
      in rbind (validate U F resolver (hp_egress p) (hp_base_url p)) (\<lambda>_. Inr p))"

definition resolve_model :: "ustr \<Rightarrow> ustr option \<Rightarrow> ustr" where
  "resolve_model requested override = (case override of Some m \<Rightarrow> if m = [] then requested else m | None \<Rightarrow> requested)"

subsection \<open>Backoff\<close>

definition retry_after :: "ucd \<Rightarrow> ustr option \<Rightarrow> pyfloat option" where
  "retry_after U header =
     (case header of
        None \<Rightarrow> None
      | Some raw \<Rightarrow>
          if raw = [] then None
          else map_option (\<lambda>f. case f of Fin q \<Rightarrow> Fin (max 0 q) | PosInf \<Rightarrow> PosInf | _ \<Rightarrow> Fin 0) (py_float_str U raw))"

definition backoff :: "(rat \<Rightarrow> rat) \<Rightarrow> nat \<Rightarrow> pyfloat option \<Rightarrow> rat" where
  "backoff jit attempt after =
     (case after of
        Some (Fin q) \<Rightarrow> min q BACKOFF_CAP_SECONDS
      | Some _ \<Rightarrow> BACKOFF_CAP_SECONDS
      | None \<Rightarrow> jit (min (BACKOFF_BASE_SECONDS * 2 ^ attempt) BACKOFF_CAP_SECONDS))"

subsection \<open>One exchange\<close>

datatype failure = TimeoutException | TransportError | HTTPError | OtherError exn

text \<open>An answer: status, \<open>Retry-After\<close>, the chunks of the body and how reading it ended.\<close>

datatype exchange = Failed failure | Response nat "ustr option" "bytes list" "failure option"

record http_request =
  rq_url :: ustr
  rq_body :: pydict
  rq_headers :: "(string \<times> ustr) list"
  rq_timeout :: rat

fun read_bounded :: "int \<Rightarrow> int \<Rightarrow> bytes list \<Rightarrow> failure option \<Rightarrow> (failure + bytes) res" where
  "read_bounded limit sofar [] ending = Inr (case ending of Some f \<Rightarrow> Inl f | None \<Rightarrow> Inr [])"
| "read_bounded limit sofar (c # cs) ending =
     (let now = sofar + int (length c)
      in if limit < now then Inl (ProviderError 502)
         else rbind (read_bounded limit now cs ending) (\<lambda>r. Inr (map_sum id (\<lambda>rest. c @ rest) r)))"

datatype attempt_end = Give_up exn | Retry exn "pyfloat option" | Answer bytes

definition failed :: "failure \<Rightarrow> attempt_end" where
  "failed f = (case f of
     TimeoutException \<Rightarrow> Give_up (ProviderError 504)
   | TransportError \<Rightarrow> Retry (ProviderError 502) None
   | HTTPError \<Rightarrow> Give_up (ProviderError 502)
   | OtherError e \<Rightarrow> Give_up e)"

definition attempt_result :: "ucd \<Rightarrow> http_provider \<Rightarrow> exchange \<Rightarrow> attempt_end" where
  "attempt_result U P x =
     (case x of
        Failed f \<Rightarrow> failed f
      | Response status header chunks ending \<Rightarrow>
          if status < 400
          then (case read_bounded (hp_max_response_bytes P) 0 chunks ending of
                  Inl e \<Rightarrow> Give_up e
                | Inr (Inl f) \<Rightarrow> failed f
                | Inr (Inr raw) \<Rightarrow> Answer raw)
          else (let e = ProviderError (if 500 \<le> status then 502 else status)
                in if status \<in> set RETRYABLE_STATUS then Retry e (retry_after U header) else Give_up e))"

definition decoded :: "(bytes \<Rightarrow> pyval res) \<Rightarrow> bytes \<Rightarrow> pydict res" where
  "decoded loads raw =
     (case loads raw of
        Inl ValueError \<Rightarrow> Inl (ProviderError 502)
      | Inl e \<Rightarrow> Inl e
      | Inr (PDict d) \<Rightarrow> Inr d
      | Inr _ \<Rightarrow> Inl (ProviderError 502))"

subsection \<open>The retry loop\<close>

datatype call = Send http_request | Sleep rat

definition sends :: "call list \<Rightarrow> http_request list" where
  "sends t = concat (map (\<lambda>c. case c of Send r \<Rightarrow> [r] | Sleep _ \<Rightarrow> []) t)"

definition sleeps :: "call list \<Rightarrow> rat list" where
  "sleeps t = concat (map (\<lambda>c. case c of Sleep d \<Rightarrow> [d] | Send _ \<Rightarrow> []) t)"

fun attempts :: "ucd \<Rightarrow> (bytes \<Rightarrow> pyval res) \<Rightarrow> (nat \<Rightarrow> http_request \<Rightarrow> exchange) \<Rightarrow> (nat \<Rightarrow> rat) \<Rightarrow> (rat \<Rightarrow> rat)
    \<Rightarrow> http_provider \<Rightarrow> rat \<Rightarrow> http_request \<Rightarrow> exn option \<Rightarrow> nat list \<Rightarrow> pydict res \<times> call list" where
  "attempts U loads net tick jit P deadline rq last_error [] =
     (Inl (case last_error of Some e \<Rightarrow> e | None \<Rightarrow> ProviderError 502), [])"
| "attempts U loads net tick jit P deadline rq last_error (a # as) =
     (let remaining = deadline - tick (Suc a)
      in if remaining \<le> 0 then (Inl (case last_error of Some e \<Rightarrow> e | None \<Rightarrow> ProviderError 504), [])
         else let r = rq\<lparr>rq_timeout := remaining\<rparr>
         in case attempt_result U P (net a r) of
              Give_up e \<Rightarrow> (Inl e, [Send r])
            | Answer raw \<Rightarrow> (decoded loads raw, [Send r])
            | Retry e after \<Rightarrow>
                if hp_max_retries P \<le> int a then (Inl e, [Send r])
                else (case attempts U loads net tick jit P deadline rq (Some e) as of
                        (res, t) \<Rightarrow> (res, Send r # Sleep (backoff jit a after) # t)))"

definition outbound_body :: "(pyval \<Rightarrow> ustr) \<Rightarrow> http_provider \<Rightarrow> pydict \<Rightarrow> pydict" where
  "outbound_body shw P payload =
     (if pd_get payload ''model'' \<noteq> None \<or> hp_model_override P \<notin> {None, Some []}
      then pd_set ''model'' (PStr (resolve_model (py_str shw (pd_get_or payload ''model'' (PStr []))) (hp_model_override P)))
             payload
      else payload)"

definition request_of :: "(pyval \<Rightarrow> ustr) \<Rightarrow> http_provider \<Rightarrow> pydict \<Rightarrow> http_request" where
  "request_of shw P payload =
     \<lparr>rq_url = hp_base_url P @ lit ''/chat/completions'', rq_body = outbound_body shw P payload,
      rq_headers = (''Content-Type'', lit ''application/json'')
        # (case hp_api_key P of Some k \<Rightarrow> if k = [] then [] else [(''Authorization'', lit ''Bearer '' @ k)] | None \<Rightarrow> []),
      rq_timeout = 0\<rparr>"

definition chat_completion :: "ucd \<Rightarrow> (pyval \<Rightarrow> ustr) \<Rightarrow> ip_flags \<Rightarrow> (ustr \<Rightarrow> resolution) \<Rightarrow> (bytes \<Rightarrow> pyval res)
    \<Rightarrow> (nat \<Rightarrow> http_request \<Rightarrow> exchange) \<Rightarrow> (nat \<Rightarrow> rat) \<Rightarrow> (rat \<Rightarrow> rat) \<Rightarrow> http_provider \<Rightarrow> pydict
    \<Rightarrow> pydict res \<times> call list" where
  "chat_completion U shw F resolver loads net tick jit P payload =
     (case validate U F resolver (hp_egress P) (hp_base_url P) of
        Inl e \<Rightarrow> (Inl e, [])
      | Inr _ \<Rightarrow> attempts U loads net tick jit P (tick 0 + hp_timeout P) (request_of shw P payload) None
                   [0..<nat (hp_max_retries P + 1)])"

subsection \<open>What is sent, how often and after what\<close>

text \<open>The answers after which the request may be sent once more.\<close>

definition may_repeat :: "http_provider \<Rightarrow> exchange \<Rightarrow> bool" where
  "may_repeat P x = (case x of
     Failed f \<Rightarrow> f = TransportError
   | Response status _ chunks ending \<Rightarrow>
       status \<in> set RETRYABLE_STATUS
       \<or> status < 400 \<and> ending = Some TransportError \<and> int (length (concat chunks)) \<le> hp_max_response_bytes P)"

lemma sends_simps [simp]:
  "sends [] = []" "sends (Send r # t) = r # sends t" "sends (Sleep d # t) = sends t"
  "sleeps [] = []" "sleeps (Send r # t) = sleeps t" "sleeps (Sleep d # t) = d # sleeps t"
  by (simp_all add: sends_def sleeps_def)

lemma read_bounded_failure:
  "read_bounded limit n cs ending = Inr (Inl f) \<Longrightarrow> ending = Some f \<and> (cs \<noteq> [] \<longrightarrow> n + int (length (concat cs)) \<le> limit)"
proof (induction limit n cs ending rule: read_bounded.induct)
  case (1 limit sofar ending)
  then show ?case by (auto split: option.splits)
next
  case (2 limit sofar c cs ending)
  from 2(2) obtain r where "\<not> limit < sofar + int (length c)"
    "read_bounded limit (sofar + int (length c)) cs ending = Inr r" "map_sum id (\<lambda>rest. c @ rest) r = Inl f"
    by (auto simp: Let_def rbind_eq_Inr split: if_splits)
  with 2(1) show ?case by (cases r; cases cs) auto
qed

lemma read_bounded_bytes:
  "read_bounded limit n cs ending = Inr (Inr raw) \<Longrightarrow> raw = concat cs \<and> (cs \<noteq> [] \<longrightarrow> n + int (length raw) \<le> limit)"
proof (induction limit n cs ending arbitrary: raw rule: read_bounded.induct)
  case (1 limit sofar ending)
  then show ?case by (auto split: option.splits)
next
  case (2 limit sofar c cs ending)
  from 2(2) obtain r where lim: "\<not> limit < sofar + int (length c)"
    and r: "read_bounded limit (sofar + int (length c)) cs ending = Inr r" "map_sum id (\<lambda>rest. c @ rest) r = Inr raw"
    by (auto simp: Let_def rbind_eq_Inr split: if_splits)
  from r(2) obtain rest where rest: "r = Inr rest" "raw = c @ rest" by (cases r) auto
  from 2(1) [OF refl lim r(1) [unfolded rest(1)]] rest(2) lim show ?case by (cases cs) auto
qed

lemma failed_Retry: "failed f = Retry e after \<Longrightarrow> f = TransportError"
  by (cases f) (simp_all add: failed_def)

lemma attempt_result_Retry:
  assumes "attempt_result U P x = Retry e after" and "0 \<le> hp_max_response_bytes P"
  shows "may_repeat P x"
proof (cases x)
  case (Failed f)
  with assms show ?thesis by (auto simp: attempt_result_def may_repeat_def dest: failed_Retry)
next
  case (Response status header chunks ending)
  show ?thesis
  proof (cases "status < 400")
    case True
    with Response assms(1) obtain f where r: "read_bounded (hp_max_response_bytes P) 0 chunks ending = Inr (Inl f)"
      and f: "failed f = Retry e after"
      by (auto simp: attempt_result_def split: sum.splits)
    from read_bounded_failure [OF r] failed_Retry [OF f] True Response assms(2) show ?thesis
      by (cases chunks) (auto simp: may_repeat_def)
  next
    case False
    with Response assms(1) show ?thesis by (auto simp: attempt_result_def may_repeat_def Let_def split: if_splits)
  qed
qed

lemma attempts_trace:
  assumes "attempts U loads net tick jit P deadline rq le as = (res, t)" and "0 \<le> hp_max_response_bytes P"
  shows "length (sends t) \<le> length as
     \<and> (\<forall>k. Suc k < length (sends t) \<longrightarrow> may_repeat P (net (as ! k) (sends t ! k)))
     \<and> (\<forall>r \<in> set (sends t). r = rq\<lparr>rq_timeout := rq_timeout r\<rparr> \<and> 0 < rq_timeout r)
     \<and> length (sleeps t) \<le> length (sends t)"
  using assms(1)
proof (induction as arbitrary: le res t)
  case (Cons a as)
  define r where "r = rq\<lparr>rq_timeout := deadline - tick (Suc a)\<rparr>"
  show ?case
  proof (cases "deadline - tick (Suc a) \<le> 0")
    case True
    with Cons.prems show ?thesis by auto
  next
    case pos: False
    show ?thesis
    proof (cases "attempt_result U P (net a r)")
      case (Retry e after)
      show ?thesis
      proof (cases "hp_max_retries P \<le> int a")
        case True
        with Cons.prems pos Retry show ?thesis by (auto simp: r_def Let_def)
      next
        case False
        obtain res' t' where rest: "attempts U loads net tick jit P deadline rq (Some e) as = (res', t')" by fastforce
        with Cons.prems pos Retry False have t: "t = Send r # Sleep (backoff jit a after) # t'"
          by (auto simp: r_def Let_def)
        have "may_repeat P (net ((a # as) ! k) ((r # sends t') ! k))" if "k < length (sends t')" for k
          using that Cons.IH [OF rest] attempt_result_Retry [OF Retry assms(2)] by (cases k) auto
        with Cons.IH [OF rest] t pos show ?thesis by (auto simp: r_def)
      qed
    qed (use Cons.prems pos in \<open>auto simp: r_def Let_def\<close>)
  qed
qed auto

lemma chat_completion_trace:
  assumes "chat_completion U shw F resolver loads net tick jit P payload = (res, t)" and "0 \<le> hp_max_response_bytes P"
  shows "length (sends t) \<le> nat (hp_max_retries P + 1)"
    and "Suc k < length (sends t) \<Longrightarrow> may_repeat P (net k (sends t ! k))"
    and "r \<in> set (sends t) \<Longrightarrow> r = (request_of shw P payload)\<lparr>rq_timeout := rq_timeout r\<rparr> \<and> 0 < rq_timeout r"
    and "sends t \<noteq> [] \<Longrightarrow> validate U F resolver (hp_egress P) (hp_base_url P) = Inr ()"
proof -
  from assms(1) consider (refused) e where "validate U F resolver (hp_egress P) (hp_base_url P) = Inl e" "t = []"
    | (sent) "validate U F resolver (hp_egress P) (hp_base_url P) = Inr ()"
        "attempts U loads net tick jit P (tick 0 + hp_timeout P) (request_of shw P payload) None
                   [0..<nat (hp_max_retries P + 1)] = (res, t)"
    by (auto simp: chat_completion_def split: sum.splits)
  then have "length (sends t) \<le> nat (hp_max_retries P + 1)
     \<and> (\<forall>k. Suc k < length (sends t) \<longrightarrow> may_repeat P (net k (sends t ! k)))
     \<and> (\<forall>r \<in> set (sends t). r = (request_of shw P payload)\<lparr>rq_timeout := rq_timeout r\<rparr> \<and> 0 < rq_timeout r)
     \<and> (sends t \<noteq> [] \<longrightarrow> validate U F resolver (hp_egress P) (hp_base_url P) = Inr ())"
  proof cases
    case sent
    from attempts_trace [OF sent(2) assms(2)] sent(1) show ?thesis by auto
  qed auto
  then show "length (sends t) \<le> nat (hp_max_retries P + 1)"
    and "Suc k < length (sends t) \<Longrightarrow> may_repeat P (net k (sends t ! k))"
    and "r \<in> set (sends t) \<Longrightarrow> r = (request_of shw P payload)\<lparr>rq_timeout := rq_timeout r\<rparr> \<and> 0 < rq_timeout r"
    and "sends t \<noteq> [] \<Longrightarrow> validate U F resolver (hp_egress P) (hp_base_url P) = Inr ()"
    by blast+
qed


text \<open>
  However the upstream behaves, a call sends at most \<open>max_retries + 1\<close> requests, all of them the
  same transformed body to the same validated URL with the same headers, each under a positive rest of
  the one deadline; and without a validated destination it sends nothing.
\<close>

theorem every_attempt_sends_the_same:
  assumes "chat_completion U shw F resolver loads net tick jit P payload = (res, t)" and "0 \<le> hp_max_response_bytes P"
  shows "length (sends t) \<le> nat (hp_max_retries P + 1)
     \<and> (\<forall>r \<in> set (sends t). r = (request_of shw P payload)\<lparr>rq_timeout := rq_timeout r\<rparr> \<and> 0 < rq_timeout r
       \<and> validate U F resolver (hp_egress P) (hp_base_url P) = Inr ())"
proof
  show "length (sends t) \<le> nat (hp_max_retries P + 1)" by (rule chat_completion_trace(1) [OF assms])
  show "\<forall>r \<in> set (sends t). r = (request_of shw P payload)\<lparr>rq_timeout := rq_timeout r\<rparr> \<and> 0 < rq_timeout r
       \<and> validate U F resolver (hp_egress P) (hp_base_url P) = Inr ()"
  proof
    fix r assume r: "r \<in> set (sends t)"
    then have "sends t \<noteq> []" by auto
    from chat_completion_trace(3) [OF assms r] chat_completion_trace(4) [OF assms this]
    show "r = (request_of shw P payload)\<lparr>rq_timeout := rq_timeout r\<rparr> \<and> 0 < rq_timeout r
       \<and> validate U F resolver (hp_egress P) (hp_base_url P) = Inr ()" by blast
  qed
qed

text \<open>A concrete provider whose upstream is busy once and then answers.\<close>

definition sample_provider :: http_provider where
  "sample_provider = \<lparr>hp_name = lit ''local'', hp_base_url = sample_url, hp_api_key = None, hp_model_override = None,
     hp_timeout = 120, hp_egress = policy_for (lit ''local'') [] None True, hp_max_retries = MAX_RETRIES,
     hp_max_response_bytes = MAX_RESPONSE_BYTES\<rparr>"

definition busy_once :: "nat \<Rightarrow> http_request \<Rightarrow> exchange" where
  "busy_once a r = (if a = 0 then Response 503 None [] None else Response 200 None [[123, 125]] None)"

definition sample_loads :: "bytes \<Rightarrow> pyval res" where
  "sample_loads b = (if b = [123, 125] then Inr (PDict []) else Inl ValueError)"

lemma sample_chat:
  "\<exists>r1 r2. chat_completion ascii_ucd (\<lambda>_. []) sample_flags (\<lambda>_. Gaierror) sample_loads busy_once (\<lambda>_. 0) (\<lambda>c. c)
      sample_provider [] = (Inr [], [Send r1, Sleep (1 / 4), Send r2])"
proof -
  have "[0..<3] = [0, 1, 2 :: nat]" by (simp add: upt_rec)
  moreover have "validate ascii_ucd sample_flags (\<lambda>_. Gaierror) (hp_egress sample_provider) (hp_base_url sample_provider) = Inr ()"
    using sample_url_valid by (simp add: sample_provider_def)
  ultimately show ?thesis
    unfolding chat_completion_def
    by (simp add: sample_provider_def MAX_RETRIES_def busy_once_def attempt_result_def RETRYABLE_STATUS_def
        retry_after_def backoff_def BACKOFF_BASE_SECONDS_def BACKOFF_CAP_SECONDS_def MAX_RESPONSE_BYTES_def
        decoded_def sample_loads_def)
qed


theorem every_attempt_sends_the_same_witness:
  "\<exists>t. chat_completion ascii_ucd (\<lambda>_. []) sample_flags (\<lambda>_. Gaierror) sample_loads busy_once (\<lambda>_. 0) (\<lambda>c. c)
      sample_provider [] = (Inr [], t) \<and> length (sends t) \<le> 3 \<and>
     (\<forall>r \<in> set (sends t). r = (request_of (\<lambda>_. []) sample_provider [])\<lparr>rq_timeout := rq_timeout r\<rparr> \<and> 0 < rq_timeout r
       \<and> validate ascii_ucd sample_flags (\<lambda>_. Gaierror) (hp_egress sample_provider) (hp_base_url sample_provider) = Inr ())"
proof -
  obtain r1 r2 where c: "chat_completion ascii_ucd (\<lambda>_. []) sample_flags (\<lambda>_. Gaierror) sample_loads busy_once (\<lambda>_. 0)
      (\<lambda>c. c) sample_provider [] = (Inr [], [Send r1, Sleep (1 / 4), Send r2])" using sample_chat by blast
  have b: "0 \<le> hp_max_response_bytes sample_provider" "nat (hp_max_retries sample_provider + 1) = 3"
    by (simp_all add: sample_provider_def MAX_RESPONSE_BYTES_def MAX_RETRIES_def)
  from every_attempt_sends_the_same [OF c b(1), unfolded b(2)] c show ?thesis by blast
qed

end
