(* ===== verification/Utf8.thy ===== *)
theory Utf8
  imports PyText
begin

text \<open>
  The strict UTF-8 decoder of the standard library, also in its incremental form: the state holds the
  bytes of an unfinished character, a byte that cannot continue it raises \<open>UnicodeError\<close> (\<open>None\<close>) at once.
\<close>

definition cont :: "byte \<Rightarrow> bool" where "cont b \<longleftrightarrow> 128 \<le> b \<and> b < 192"

definition second_ok :: "byte \<Rightarrow> byte \<Rightarrow> bool" where
  \<comment> \<open>no overlong form, no surrogate, nothing above \<open>U+10FFFF\<close>\<close>
  "second_ok b0 b = (cont b \<and> (b0 = 0xE0 \<longrightarrow> 0xA0 \<le> b) \<and> (b0 = 0xED \<longrightarrow> b < 0xA0) \<and> (b0 = 0xF0 \<longrightarrow> 0x90 \<le> b)
     \<and> (b0 = 0xF4 \<longrightarrow> b < 0x90))"

definition utf8_next :: "bytes \<Rightarrow> byte \<Rightarrow> (ustr \<times> bytes) option" where
  "utf8_next pend b =
     (case pend of
        [] \<Rightarrow> if b < 128 then Some ([b], []) else if 0xC2 \<le> b \<and> b \<le> 0xF4 then Some ([], [b]) else None
      | [b0] \<Rightarrow> if \<not> second_ok b0 b then None
               else if b0 < 0xE0 then Some ([(b0 - 0xC0) * 64 + (b - 128)], []) else Some ([], [b0, b])
      | [b0, b1] \<Rightarrow> if \<not> cont b then None
               else if b0 < 0xF0 then Some ([(b0 - 0xE0) * 4096 + (b1 - 128) * 64 + (b - 128)], [])
               else Some ([], [b0, b1, b])
      | [b0, b1, b2] \<Rightarrow> if \<not> cont b then None
               else Some ([(b0 - 0xF0) * 262144 + (b1 - 128) * 4096 + (b2 - 128) * 64 + (b - 128)], [])
      | _ \<Rightarrow> None)"

fun utf8_run :: "bytes \<Rightarrow> bytes \<Rightarrow> (ustr \<times> bytes) option" where
  \<comment> \<open>the characters completed and the bytes left pending\<close>
  "utf8_run pend [] = Some ([], pend)"
| "utf8_run pend (b # bs) =
     (case utf8_next pend b of
        None \<Rightarrow> None
      | Some (cs, pend') \<Rightarrow> map_option (\<lambda>(ds, q). (cs @ ds, q)) (utf8_run pend' bs))"

definition utf8_decode :: "bytes \<Rightarrow> ustr option" where
  "utf8_decode bs = (case utf8_run [] bs of Some (cs, []) \<Rightarrow> Some cs | _ \<Rightarrow> None)"

definition scalar :: "cp \<Rightarrow> bool" where
  "scalar c \<longleftrightarrow> c < 0xD800 \<or> 0xE000 \<le> c \<and> c < 0x110000"

lemma utf8_run_append:
  "utf8_run pend (a @ b) =
     (case utf8_run pend a of None \<Rightarrow> None
      | Some (cs, q) \<Rightarrow> map_option (\<lambda>(ds, r). (cs @ ds, r)) (utf8_run q b))"
proof (induction a arbitrary: pend)
  case Nil
  then show ?case by (cases "utf8_run pend b") auto
next
  case (Cons x a)
  show ?case
  proof (cases "utf8_next pend x")
    case None
    then show ?thesis by simp
  next
    case (Some r)
    obtain cs q where r: "r = (cs, q)" by (cases r)
    show ?thesis
      using Some r Cons.IH [of q] by (cases "utf8_run q a")
        (auto simp: option.map_comp comp_def split_def)
  qed
qed

text \<open>The digits of a code point in base 64.\<close>

lemma base64_digits:
  obtains a b c :: nat where "n = (a * 64 + b) * 64 + c" "b < 64" "c < 64" "n div 64 = a * 64 + b" "n div 4096 = a"
    "n mod 64 = c" "n div 64 mod 64 = b"
proof -
  have "n = n div 64 * 64 + n mod 64" "n div 64 = n div 64 div 64 * 64 + n div 64 mod 64" by simp_all
  moreover have "n div 4096 = n div 64 div 64" by (simp flip: div_mult2_eq)
  ultimately show ?thesis by (intro that [of "n div 64 div 64" "n div 64 mod 64" "n mod 64"]) simp_all
qed

lemma utf8_run_3:
  assumes "2048 \<le> n" "n < 65536" "scalar n"
  shows "utf8_run [] (utf8_cp n) = Some ([n], [])"
proof -
  obtain a b c where n: "n = (a * 64 + b) * 64 + c" and lt: "b < 64" "c < 64"
    and d: "n div 4096 = a" "n mod 64 = c" "n div 64 mod 64 = b" by (rule base64_digits [of n]) metis
  have cp: "utf8_cp n = [224 + a, 128 + b, 128 + c]" using assms(1,2) by (simp add: utf8_cp_def d)
  have n': "n = a * 4096 + b * 64 + c" by (simp add: n)
  have r1: "a < 16" using assms(2) n' by linarith
  have r2: "32 \<le> b" if "a = 0" using assms(1) n' lt that by (cases "32 \<le> b") auto
  have r3: "b < 32" if "a = 13" using assms(3) n' lt that by (cases "b < 32") (auto simp: scalar_def)
  note r = r1 r2 r3
  have next1: "utf8_next [] (224 + a) = Some ([], [224 + a])" using r(1) by (simp add: utf8_next_def)
  have next2: "utf8_next [224 + a] (128 + b) = Some ([], [224 + a, 128 + b])"
    using r lt by (simp add: utf8_next_def second_ok_def cont_def)
  have next3: "utf8_next [224 + a, 128 + b] (128 + c) = Some ([n], [])"
    using r(1) lt by (simp add: utf8_next_def cont_def n)
  show ?thesis by (simp add: cp next1 next2 next3)
qed

lemma utf8_run_4:
  assumes "65536 \<le> n" "n < 0x110000"
  shows "utf8_run [] (utf8_cp n) = Some ([n], [])"
proof -
  obtain m c d where n: "n = (m * 64 + c) * 64 + d" and lt: "c < 64" "d < 64"
    and dv: "n div 4096 = m" "n mod 64 = d" "n div 64 mod 64 = c" by (rule base64_digits [of n]) metis
  define a b where "a = m div 64" and "b = m mod 64"
  have m: "m = a * 64 + b" and b: "b < 64" by (simp_all add: a_def b_def)
  have "n div 262144 = a" "n div 4096 mod 64 = b" using dv(1) by (simp_all add: a_def b_def flip: div_mult2_eq)
  then have cp: "utf8_cp n = [240 + a, 128 + b, 128 + c, 128 + d]" using assms(1) by (simp add: utf8_cp_def dv)
  have n': "n = a * 262144 + b * 4096 + c * 64 + d" by (simp add: n m)
  have r1: "a < 5" using assms(2) n' by linarith
  have r2: "16 \<le> b" if "a = 0" using assms(1) n' lt that by (cases "16 \<le> b") auto
  have r3: "b < 16" if "a = 4" using assms(2) n' that by (cases "b < 16") auto
  note r = r1 r2 r3
  have next1: "utf8_next [] (240 + a) = Some ([], [240 + a])" using r(1) by (simp add: utf8_next_def)
  have next2: "utf8_next [240 + a] (128 + b) = Some ([], [240 + a, 128 + b])"
    using r b by (simp add: utf8_next_def second_ok_def cont_def)
  have next3: "utf8_next [240 + a, 128 + b] (128 + c) = Some ([], [240 + a, 128 + b, 128 + c])"
    using lt by (simp add: utf8_next_def cont_def)
  have next4: "utf8_next [240 + a, 128 + b, 128 + c] (128 + d) = Some ([n], [])"
    using lt by (simp add: utf8_next_def cont_def n m)
  show ?thesis by (simp add: cp next1 next2 next3 next4)
qed

lemma utf8_run_cp:
  assumes "scalar c"
  shows "utf8_run [] (utf8_cp c) = Some ([c], [])"
proof -
  consider "c < 128" | "128 \<le> c" "c < 2048" | "2048 \<le> c" "c < 65536" | "65536 \<le> c" "c < 0x110000"
    using assms by (auto simp: scalar_def not_less; linarith)
  then show ?thesis
  proof cases
    case 1
    then show ?thesis by (simp add: utf8_cp_def utf8_next_def)
  next
    case 2
    have "c div 64 < 32" using 2 by (simp add: div_less_iff_less_mult)
    moreover have "2 \<le> c div 64" using 2 by (simp add: less_eq_div_iff_mult_less_eq)
    moreover have "c div 64 * 64 + c mod 64 = c" by simp
    ultimately show ?thesis using 2
      by (simp add: utf8_cp_def utf8_next_def second_ok_def cont_def)
  qed (use assms utf8_run_3 utf8_run_4 in blast)+
qed

lemma utf8_run_utf8: "list_all scalar s \<Longrightarrow> utf8_run [] (utf8 s) = Some (s, [])"
  by (induction s) (simp_all add: utf8_Cons utf8_run_append utf8_run_cp)

lemma utf8_decode_utf8: "list_all scalar s \<Longrightarrow> utf8_decode (utf8 s) = Some s"
  by (simp add: utf8_decode_def utf8_run_utf8)

end
