(* ===== verification/ProtocolBase.thy ===== *)
theory ProtocolBase
  imports Json Utf8
begin

text \<open>
  Primitives of the inspectable agent protocols, \<^verbatim>\<open>gateway/protocols/base.py\<close>: the bounds of a decoded
  JSON tree, the validators of fields, the builder that classifies every string of a request, and the
  replacement of one classified string.  Keys of a decoded tree are strings (\<open>bounded_json\<close> refuses
  others), the text of one is \<open>key_text\<close>.  A raised refusal discards the builder with the request, so an
  operation of the builder returns its result and the new builder or the refusal.
\<close>

definition MAX_DEPTH :: nat where "MAX_DEPTH = 32"
definition MAX_COLLECTION :: nat where "MAX_COLLECTION = 512"
definition MAX_JSON_BYTES :: nat where "MAX_JSON_BYTES = 4 * 1024 * 1024"

datatype pelem = Key ustr | Idx nat
type_synonym path = "pelem list"

record location =
  lo_path :: path
  lo_text :: ustr
  lo_structural :: bool
  lo_json :: "path option"

record validated_request =
  vr_protocol :: ustr
  vr_payload :: pydict
  vr_locations :: "location list"
  vr_stream :: bool

definition reject_status :: "string \<Rightarrow> nat" where
  "reject_status code = (if code = ''invalid_json'' then 400 else if code = ''request_too_large'' then 413 else 422)"

definition reject :: "string \<Rightarrow> 'a res" where
  "reject code = Inl (RequestRejected (reject_status code) code)"

lemma reject_neq [simp]: "reject c \<noteq> Inr x" "Inr x \<noteq> reject c"
  by (simp_all add: reject_def)

fun key_text :: "pyval \<Rightarrow> ustr" where
  "key_text (PStr s) = s"
| "key_text _ = []"

definition is_str :: "pyval \<Rightarrow> bool" where "is_str v \<longleftrightarrow> py_unstr v \<noteq> None"

subsection \<open>Bounds of a decoded tree\<close>

definition is_surrogate :: "cp \<Rightarrow> bool" where
  "is_surrogate c \<longleftrightarrow> 0xD800 \<le> c \<and> c \<le> 0xDFFF"

fun is_finite :: "pyfloat \<Rightarrow> bool" where
  "is_finite (Fin _) \<longleftrightarrow> True" | "is_finite _ \<longleftrightarrow> False"

definition pushed :: "nat \<Rightarrow> pyval list \<Rightarrow> (pyval \<times> nat) list \<Rightarrow> (pyval \<times> nat) list" where
  \<comment> \<open>the stack, its top first, after the values were appended in order\<close>
  "pushed depth vs stack = rev (map (\<lambda>v. (v, depth)) vs) @ stack"

definition stack_size :: "(pyval \<times> nat) list \<Rightarrow> nat" where
  "stack_size st = sum_list (map (\<lambda>(v, _). Suc (size v)) st)"

lemma stack_size_simps [simp]:
  "stack_size [] = 0" "stack_size ((v, n) # st) = Suc (size v) + stack_size st"
  by (simp_all add: stack_size_def)

lemma stack_size_pushed [simp]: "stack_size (pushed n vs st) = sum_list (map (\<lambda>v. Suc (size v)) vs) + stack_size st"
  by (simp add: stack_size_def pushed_def rev_map [symmetric] sum_list_rev comp_def)

definition entries :: "pydict \<Rightarrow> pyval list" where
  "entries d = concat (map (\<lambda>(k, v). [k, v]) d)"

lemma size_list_conv: "size_list f xs = sum_list (map (\<lambda>x. Suc (f x)) xs)"
  by (induction xs) simp_all

lemma size_entries: "sum_list (map (\<lambda>v. Suc (size v)) (entries d)) = size_list (size_prod size size) d"
  by (induction d) (auto simp: entries_def)

function bounded_loop :: "(pyval \<times> nat) list \<Rightarrow> unit res" where
  "bounded_loop [] = Inr ()"
| "bounded_loop ((node, depth) # stack) =
     (if MAX_DEPTH < depth then reject ''request_too_large''
      else case node of
        PDict d \<Rightarrow>
          if MAX_COLLECTION < length d then reject ''request_too_large''
          else if \<not> list_all (\<lambda>(k, _). is_str k) d then reject ''invalid_json''
          else bounded_loop (pushed (Suc depth) (entries d) stack)
      | PList xs \<Rightarrow>
          if MAX_COLLECTION < length xs then reject ''request_too_large''
          else bounded_loop (pushed (Suc depth) xs stack)
      | PStr s \<Rightarrow> if list_ex is_surrogate s then reject ''invalid_json'' else bounded_loop stack
      | PFloat f \<Rightarrow> if is_finite f then bounded_loop stack else reject ''invalid_json''
      | _ \<Rightarrow> bounded_loop stack)"
  by pat_completeness auto
termination
  by (relation "measure stack_size") (auto simp: size_entries size_list_conv)

declare bounded_loop.simps(2) [simp del]

definition bounded_json :: "pyval \<Rightarrow> unit res" where
  "bounded_json v = bounded_loop [(v, 0)]"

subsection \<open>Decoding\<close>

text \<open>
  The hooks run on what the scanner completed: \<open>_pairs\<close> refuses an object with a repeated key,
  \<open>_constant\<close> a non-finite constant (\<open>None\<close>).  What the interpreter decides is a record of parameters: the
  nesting its recursion limit allows, \<open>float.__repr__\<close> and the decimal text of a float.
\<close>

record json_lib =
  jl_nest :: nat
  jl_repr :: "rat \<Rightarrow> ustr"
  jl_decimal :: "rat \<Rightarrow> ustr"

fun hooked :: "raw \<Rightarrow> pyval option" and hooked_list :: "raw list \<Rightarrow> pyval list option"
  and hooked_pairs :: "(ustr \<times> raw) list \<Rightarrow> pydict option" where
  "hooked RNull = Some PNone"
| "hooked (RBool b) = Some (PBool b)"
| "hooked (RInt i) = Some (PInt i)"
| "hooked (RFloat f) = Some (PFloat f)"
| "hooked (RConst _) = None"
| "hooked (RStr s) = Some (PStr s)"
| "hooked (RArr xs) = map_option PList (hooked_list xs)"
| "hooked (RObj ps) = (if distinct (map fst ps) then map_option PDict (hooked_pairs ps) else None)"
| "hooked_list [] = Some []"
| "hooked_list (x # xs) = (case (hooked x, hooked_list xs) of (Some v, Some vs) \<Rightarrow> Some (v # vs) | _ \<Rightarrow> None)"
| "hooked_pairs [] = Some []"
| "hooked_pairs ((k, x) # ps) = (case (hooked x, hooked_pairs ps) of (Some v, Some d) \<Rightarrow> Some ((PStr k, v) # d) | _ \<Rightarrow> None)"

definition loads_text :: "json_lib \<Rightarrow> ustr \<Rightarrow> pyval res" where
  "loads_text J s =
     (if list_ex is_surrogate s then reject ''invalid_json''
      else if MAX_JSON_BYTES < length (utf8 s) then reject ''request_too_large''
      else case Option.bind (json_parse (jl_nest J) s) hooked of
        None \<Rightarrow> reject ''invalid_json''
      | Some v \<Rightarrow> rbind (bounded_json v) (\<lambda>_. Inr v))"

definition loads_bytes :: "json_lib \<Rightarrow> bytes \<Rightarrow> pyval res" where
  "loads_bytes J b =
     (if MAX_JSON_BYTES < length b then reject ''request_too_large''
      else case utf8_decode b of
        None \<Rightarrow> reject ''invalid_json''
      | Some s \<Rightarrow> (case Option.bind (json_parse (jl_nest J) s) hooked of
          None \<Rightarrow> reject ''invalid_json''
        | Some v \<Rightarrow> rbind (bounded_json v) (\<lambda>_. Inr v)))"

datatype body = Text ustr | Bytes bytes | Decoded pyval

definition request_body :: "json_lib \<Rightarrow> body \<Rightarrow> pydict res" where
  "request_body J b =
     rbind (case b of Text s \<Rightarrow> loads_text J s | Bytes bs \<Rightarrow> loads_bytes J bs | Decoded v \<Rightarrow> Inr v) (\<lambda>v.
     rbind (bounded_json v) (\<lambda>_.
     case v of PDict d \<Rightarrow> Inr d | _ \<Rightarrow> Inl (RequestRejected 400 ''invalid_request'')))"

subsection \<open>Validators\<close>

definition in_names :: "pyval \<Rightarrow> string list \<Rightarrow> bool" where
  "in_names v names \<longleftrightarrow> v \<in> set (map (PStr \<circ> lit) names)"

definition object_fields :: "pyval \<Rightarrow> string list \<Rightarrow> string list \<Rightarrow> pydict res" where
  "object_fields v allowed required =
     (case v of
        PDict d \<Rightarrow>
          if \<not> list_all (\<lambda>(k, _). in_names k allowed) d then reject ''unknown_field''
          else if \<not> list_all (\<lambda>r. pd_get d r \<noteq> None) required then reject ''invalid_request''
          else Inr d
      | _ \<Rightarrow> reject ''invalid_request'')"

definition py_array :: "pyval \<Rightarrow> bool \<Rightarrow> pyval list res" where
  "py_array v nonempty =
     (case v of
        PList xs \<Rightarrow> if MAX_COLLECTION < length xs \<or> (nonempty \<and> xs = []) then reject ''invalid_request'' else Inr xs
      | _ \<Rightarrow> reject ''invalid_request'')"

definition py_string :: "pyval \<Rightarrow> ustr res" where
  "py_string v = (case v of PStr s \<Rightarrow> Inr s | _ \<Rightarrow> reject ''invalid_request'')"

definition py_boolean :: "pyval \<Rightarrow> bool res" where
  "py_boolean v = (case v of PBool b \<Rightarrow> Inr b | _ \<Rightarrow> reject ''invalid_request'')"

definition py_integer :: "pyval \<Rightarrow> int \<Rightarrow> int \<Rightarrow> int res" where
  "py_integer v low high = (case v of PInt i \<Rightarrow> if low \<le> i \<and> i \<le> high then Inr i else reject ''invalid_request''
     | _ \<Rightarrow> reject ''invalid_request'')"

definition py_count :: "pyval \<Rightarrow> int res" where
  "py_count v = py_integer v 0 (2 ^ 31 - 1)"

definition py_number :: "pyval \<Rightarrow> rat \<Rightarrow> rat \<Rightarrow> pyval res" where
  "py_number v low high =
     (case v of
        PInt i \<Rightarrow> if low \<le> of_int i \<and> of_int i \<le> high then Inr v else reject ''invalid_request''
      | PFloat (Fin q) \<Rightarrow> if low \<le> q \<and> q \<le> high then Inr v else reject ''invalid_request''
      | _ \<Rightarrow> reject ''invalid_request'')"

definition py_choice :: "pyval \<Rightarrow> string list \<Rightarrow> ustr res" where
  "py_choice v choices = (case v of PStr s \<Rightarrow> if in_names v choices then Inr s else reject ''unsupported_field''
     | _ \<Rightarrow> reject ''unsupported_field'')"

datatype id_kind = Plain_id | Model_id | Tool_id

definition id_char :: "cp \<Rightarrow> bool" where
  "id_char c \<longleftrightarrow> ascii_alpha c \<or> ascii_digit c \<or> c = 95 \<or> c = 45"

definition identifier_ok :: "id_kind \<Rightarrow> ustr \<Rightarrow> bool" where
  "identifier_ok k s =
     (case k of
        Plain_id \<Rightarrow> 1 \<le> length s \<and> length s \<le> 128 \<and> list_all id_char s
      | Tool_id \<Rightarrow> 1 \<le> length s \<and> length s \<le> 64 \<and> list_all id_char s
      | Model_id \<Rightarrow> s \<noteq> [] \<and> (ascii_alpha (hd s) \<or> ascii_digit (hd s)) \<and> length s \<le> 128
          \<and> list_all (\<lambda>c. id_char c \<or> c = 46 \<or> c = 58 \<or> c = 47) (tl s))"

definition py_identifier :: "pyval \<Rightarrow> id_kind \<Rightarrow> ustr res" where
  "py_identifier v k = rbind (py_string v) (\<lambda>s. if identifier_ok k s then Inr s else reject ''invalid_identifier'')"

definition cache_control :: "pyval \<Rightarrow> pydict res" where
  "cache_control v =
     rbind (object_fields v [''type'', ''ttl''] [''type'']) (\<lambda>source.
     rbind (py_choice (pd_get_or source ''type'' PNone) [''ephemeral'']) (\<lambda>t.
     let result = [(PStr (lit ''type''), PStr t)]
     in case pd_get source ''ttl'' of
          None \<Rightarrow> Inr result
        | Some x \<Rightarrow> rbind (py_choice x [''5m'', ''1h'']) (\<lambda>ttl. Inr (result @ [(PStr (lit ''ttl''), PStr ttl)]))))"

subsection \<open>The builder of locations\<close>

record builder =
  lb_content :: "path set"
  lb_numeric :: "path set"
  lb_json :: "(path \<times> pyval) list"
  lb_structural :: "path set"
  lb_controls :: "(path \<times> path set) list"

definition builder_init :: builder where
  "builder_init = \<lparr>lb_content = {}, lb_numeric = {}, lb_json = [], lb_structural = {}, lb_controls = []\<rparr>"

definition b_numeric :: "path \<Rightarrow> builder \<Rightarrow> builder" where
  "b_numeric p b = b\<lparr>lb_numeric := insert p (lb_numeric b)\<rparr>"

definition b_content :: "path \<Rightarrow> builder \<Rightarrow> builder" where
  "b_content p b = b\<lparr>lb_content := insert p (lb_content b)\<rparr>"

definition b_text :: "pyval \<Rightarrow> path \<Rightarrow> builder \<Rightarrow> (ustr \<times> builder) res" where
  "b_text v p b = rbind (py_string v) (\<lambda>s. Inr (s, b_content p b))"

definition encoded_object :: "json_lib \<Rightarrow> pyval \<Rightarrow> path \<Rightarrow> bool \<Rightarrow> path set \<Rightarrow> builder \<Rightarrow> (ustr \<times> builder) res" where
  "encoded_object J v p structural controls b =
     rbind (py_string v) (\<lambda>s.
     rbind (loads_text J s) (\<lambda>decoded.
     case decoded of
       PDict _ \<Rightarrow> rbind (json_dumps (jl_repr J) decoded) (\<lambda>t. Inr (t,
          b\<lparr>lb_json := AList.update p decoded (lb_json b),
            lb_structural := (if structural then insert p (lb_structural b) else lb_structural b),
            lb_controls := (if controls = {} then lb_controls b else AList.update p controls (lb_controls b))\<rparr>))
     | _ \<Rightarrow> reject ''invalid_arguments''))"

definition b_arguments :: "json_lib \<Rightarrow> pyval \<Rightarrow> path \<Rightarrow> builder \<Rightarrow> (ustr \<times> builder) res" where
  "b_arguments J v p b = encoded_object J v p False {} b"

text \<open>\<open>json_content\<close> returns a copy of its value; what it does is to classify.\<close>

fun json_content :: "bool \<Rightarrow> pyval \<Rightarrow> path \<Rightarrow> builder \<Rightarrow> builder"
  and json_content_items :: "bool \<Rightarrow> pydict \<Rightarrow> path \<Rightarrow> builder \<Rightarrow> builder"
  and json_content_list :: "bool \<Rightarrow> nat \<Rightarrow> pyval list \<Rightarrow> path \<Rightarrow> builder \<Rightarrow> builder" where
  "json_content st (PDict d) p b = json_content_items st d p b"
| "json_content st (PList xs) p b = json_content_list st 0 xs p b"
| "json_content st (PStr s) p b = (if st then b else b_content p b)"
| "json_content st (PInt i) p b = b_numeric p b"
| "json_content st (PFloat f) p b = b_numeric p b"
| "json_content st (PBool _) p b = b"
| "json_content st PNone p b = b"
| "json_content_items st [] p b = b"
| "json_content_items st ((k, v) # d) p b = json_content_items st d p (json_content st v (p @ [Key (key_text k)]) b)"
| "json_content_list st i [] p b = b"
| "json_content_list st i (x # xs) p b = json_content_list st (Suc i) xs p (json_content st x (p @ [Idx i]) b)"

subsection \<open>\<open>finish\<close>\<close>

text \<open>Where a location stands: its path and, inside an encoded argument, the path in the decoded value.\<close>

definition child_json :: "path option \<Rightarrow> pelem \<Rightarrow> path option" where
  "child_json jp e = map_option (\<lambda>j. j @ [e]) jp"

definition child_path :: "path \<Rightarrow> path option \<Rightarrow> pelem \<Rightarrow> path" where
  "child_path p jp e = (if jp = None then p @ [e] else p)"

definition number_text :: "json_lib \<Rightarrow> pyval \<Rightarrow> ustr res" where
  "number_text J v =
     (case v of
        PInt i \<Rightarrow> if 10 ^ INT_DIGITS \<le> \<bar>i\<bar> then reject ''invalid_json'' else Inr (py_str_int i)
      | PFloat (Fin q) \<Rightarrow> Inr (jl_decimal J q)
      | PFloat PosInf \<Rightarrow> Inr (lit ''Infinity'')
      | PFloat NegInf \<Rightarrow> Inr (lit ''-Infinity'')
      | PFloat NaN \<Rightarrow> Inr (lit ''NaN'')
      | _ \<Rightarrow> reject ''invalid_json'')"

definition number_walked :: "builder \<Rightarrow> path \<Rightarrow> path option \<Rightarrow> bool" where
  "number_walked b p jp \<longleftrightarrow> (jp \<noteq> None \<or> p \<in> lb_numeric b)
     \<and> (case (jp, map_of (lb_controls b) p) of (Some j, Some controls) \<Rightarrow> j \<notin> controls | _ \<Rightarrow> True)"

definition str_location :: "builder \<Rightarrow> ustr \<Rightarrow> path \<Rightarrow> path option \<Rightarrow> location" where
  "str_location b s p jp = \<lparr>lo_path = p, lo_text = s,
     lo_structural = ((jp = None \<and> p \<notin> lb_content b) \<or> p \<in> lb_structural b), lo_json = jp\<rparr>"

definition key_location :: "pyval \<Rightarrow> path \<Rightarrow> path option \<Rightarrow> location" where
  "key_location k p jp = \<lparr>lo_path = child_path p jp (Key (key_text k)), lo_text = key_text k, lo_structural = True,
     lo_json = child_json jp (Key (key_text k))\<rparr>"

definition number_locations :: "json_lib \<Rightarrow> builder \<Rightarrow> pyval \<Rightarrow> path \<Rightarrow> path option \<Rightarrow> location list res" where
  "number_locations J b v p jp =
     (if number_walked b p jp
      then rbind (number_text J v) (\<lambda>t. Inr [\<lparr>lo_path = p, lo_text = t, lo_structural = True, lo_json = jp\<rparr>])
      else Inr [])"

text \<open>Inside an encoded argument no string is itself decoded again.\<close>

fun walk_json :: "json_lib \<Rightarrow> builder \<Rightarrow> pyval \<Rightarrow> path \<Rightarrow> path \<Rightarrow> location list res"
  and walk_json_items :: "json_lib \<Rightarrow> builder \<Rightarrow> pydict \<Rightarrow> path \<Rightarrow> path \<Rightarrow> location list res"
  and walk_json_list :: "json_lib \<Rightarrow> builder \<Rightarrow> nat \<Rightarrow> pyval list \<Rightarrow> path \<Rightarrow> path \<Rightarrow> location list res" where
  "walk_json J b (PDict d) p j = walk_json_items J b d p j"
| "walk_json J b (PList xs) p j = walk_json_list J b 0 xs p j"
| "walk_json J b (PStr s) p j = Inr [str_location b s p (Some j)]"
| "walk_json J b (PInt i) p j = number_locations J b (PInt i) p (Some j)"
| "walk_json J b (PFloat f) p j = number_locations J b (PFloat f) p (Some j)"
| "walk_json J b (PBool _) p j = Inr []"
| "walk_json J b PNone p j = Inr []"
| "walk_json_items J b [] p j = Inr []"
| "walk_json_items J b ((k, v) # d) p j =
     rbind (walk_json J b v p (j @ [Key (key_text k)])) (\<lambda>ls.
     rbind (walk_json_items J b d p j) (\<lambda>rest. Inr (key_location k p (Some j) # ls @ rest)))"
| "walk_json_list J b i [] p j = Inr []"
| "walk_json_list J b i (x # xs) p j =
     rbind (walk_json J b x p (j @ [Idx i])) (\<lambda>ls. rbind (walk_json_list J b (Suc i) xs p j) (\<lambda>rest. Inr (ls @ rest)))"

fun walk_node :: "json_lib \<Rightarrow> builder \<Rightarrow> pyval \<Rightarrow> path \<Rightarrow> location list res"
  and walk_items :: "json_lib \<Rightarrow> builder \<Rightarrow> pydict \<Rightarrow> path \<Rightarrow> location list res"
  and walk_list :: "json_lib \<Rightarrow> builder \<Rightarrow> nat \<Rightarrow> pyval list \<Rightarrow> path \<Rightarrow> location list res" where
  "walk_node J b (PDict d) p = walk_items J b d p"
| "walk_node J b (PList xs) p = walk_list J b 0 xs p"
| "walk_node J b (PStr s) p =
     (case map_of (lb_json b) p of
        Some decoded \<Rightarrow> walk_json J b decoded p []
      | None \<Rightarrow> Inr [str_location b s p None])"
| "walk_node J b (PInt i) p = number_locations J b (PInt i) p None"
| "walk_node J b (PFloat f) p = number_locations J b (PFloat f) p None"
| "walk_node J b (PBool _) p = Inr []"
| "walk_node J b PNone p = Inr []"
| "walk_items J b [] p = Inr []"
| "walk_items J b ((k, v) # d) p =
     rbind (walk_node J b v (p @ [Key (key_text k)])) (\<lambda>ls.
     rbind (walk_items J b d p) (\<lambda>rest. Inr (key_location k p None # ls @ rest)))"
| "walk_list J b i [] p = Inr []"
| "walk_list J b i (x # xs) p =
     rbind (walk_node J b x (p @ [Idx i])) (\<lambda>ls. rbind (walk_list J b (Suc i) xs p) (\<lambda>rest. Inr (ls @ rest)))"

definition finish :: "json_lib \<Rightarrow> builder \<Rightarrow> pydict \<Rightarrow> location list res" where
  "finish J b payload = walk_node J b (PDict payload) []"

subsection \<open>Replacing a leaf\<close>

text \<open>\<open>target[e]\<close> and \<open>target[e] = v\<close>.\<close>

fun item_at :: "pyval \<Rightarrow> pelem \<Rightarrow> pyval res" where
  "item_at (PDict d) (Key k) = (case map_of d (PStr k) of Some v \<Rightarrow> Inr v | None \<Rightarrow> Inl KeyError)"
| "item_at (PDict d) (Idx i) = (case map_of d (PInt (int i)) of Some v \<Rightarrow> Inr v | None \<Rightarrow> Inl KeyError)"
| "item_at (PList xs) (Idx i) = (if i < length xs then Inr (xs ! i) else Inl IndexError)"
| "item_at (PStr s) (Idx i) = (if i < length s then Inr (PStr [s ! i]) else Inl IndexError)"
| "item_at _ _ = Inl TypeError"

fun set_item :: "pyval \<Rightarrow> pelem \<Rightarrow> pyval \<Rightarrow> pyval res" where
  "set_item (PDict d) (Key k) v = Inr (PDict (AList.update (PStr k) v d))"
| "set_item (PDict d) (Idx i) v = Inr (PDict (AList.update (PInt (int i)) v d))"
| "set_item (PList xs) (Idx i) v = (if i < length xs then Inr (PList (xs[i := v])) else Inl IndexError)"
| "set_item _ _ v = Inl TypeError"

fun update_at :: "pyval \<Rightarrow> path \<Rightarrow> (pyval \<Rightarrow> pelem \<Rightarrow> pyval res) \<Rightarrow> pyval res" where
  \<comment> \<open>descend to the container of the last element and update it there, in place\<close>
  "update_at v [] f = Inl IndexError"
| "update_at v [e] f = f v e"
| "update_at v (e # es) f = rbind (item_at v e) (\<lambda>x. rbind (update_at x es f) (\<lambda>x'. set_item v e x'))"

definition replace_encoded :: "json_lib \<Rightarrow> path \<Rightarrow> ustr \<Rightarrow> pyval \<Rightarrow> pelem \<Rightarrow> pyval res" where
  "replace_encoded J j t v e =
     rbind (item_at v e) (\<lambda>x.
     rbind (case x of PStr s \<Rightarrow> loads_text J s | _ \<Rightarrow> reject ''invalid_json'') (\<lambda>decoded.
     rbind (if j = [] then Inr (PStr t) else update_at decoded j (\<lambda>c k. set_item c k (PStr t))) (\<lambda>changed.
     rbind (json_dumps (jl_repr J) changed) (\<lambda>s. set_item v e (PStr s)))))"

definition replace_location :: "json_lib \<Rightarrow> pyval \<Rightarrow> location \<Rightarrow> ustr \<Rightarrow> pyval res" where
  "replace_location J payload l t =
     (if lo_structural l then Inl ValueError
      else if t = lo_text l then Inr payload
      else case lo_json l of
        None \<Rightarrow> update_at payload (lo_path l) (\<lambda>c k. set_item c k (PStr t))
      | Some j \<Rightarrow> update_at payload (lo_path l) (replace_encoded J j t))"

subsection \<open>JSON Schema\<close>

definition SCHEMA_TEXT :: "string list" where "SCHEMA_TEXT = [''title'', ''description'', ''$comment'']"

definition SCHEMA_STRING :: "string list" where
  "SCHEMA_STRING = [''$schema'', ''$id'', ''$anchor'', ''$dynamicAnchor'', ''$ref'', ''$dynamicRef'', ''pattern'',
     ''format'', ''contentEncoding'', ''contentMediaType'']"

definition SCHEMA_NUMBER :: "string list" where
  "SCHEMA_NUMBER = [''multipleOf'', ''maximum'', ''exclusiveMaximum'', ''minimum'', ''exclusiveMinimum'']"

definition SCHEMA_COUNT :: "string list" where
  "SCHEMA_COUNT = [''maxLength'', ''minLength'', ''maxItems'', ''minItems'', ''maxContains'', ''minContains'',
     ''maxProperties'', ''minProperties'']"

definition SCHEMA_BOOL :: "string list" where
  "SCHEMA_BOOL = [''uniqueItems'', ''readOnly'', ''writeOnly'', ''deprecated'']"

definition SCHEMA_OBJECT :: "string list" where
  "SCHEMA_OBJECT = [''properties'', ''patternProperties'', ''$defs'', ''definitions'', ''dependentSchemas'']"

definition SCHEMA_CHILD :: "string list" where
  "SCHEMA_CHILD = [''items'', ''contains'', ''additionalProperties'', ''unevaluatedProperties'', ''unevaluatedItems'',
     ''propertyNames'', ''not'', ''if'', ''then'', ''else'', ''contentSchema'']"

definition SCHEMA_ARRAY :: "string list" where
  "SCHEMA_ARRAY = [''allOf'', ''anyOf'', ''oneOf'', ''prefixItems'']"

definition SCHEMA_OTHER :: "string list" where
  "SCHEMA_OTHER = [''type'', ''required'', ''enum'', ''const'', ''default'', ''examples'', ''dependentRequired'']"

definition SCHEMA_FIELDS :: "string list" where
  "SCHEMA_FIELDS = SCHEMA_TEXT @ SCHEMA_STRING @ SCHEMA_NUMBER @ SCHEMA_COUNT @ SCHEMA_BOOL @ SCHEMA_OBJECT
     @ SCHEMA_CHILD @ SCHEMA_ARRAY @ SCHEMA_OTHER"

definition SCHEMA_TYPES :: "string list" where
  "SCHEMA_TYPES = [''null'', ''boolean'', ''object'', ''array'', ''number'', ''string'', ''integer'']"

definition schema_string :: "pyval \<Rightarrow> pyval \<Rightarrow> pyval res" where
  "schema_string key item =
     rbind (py_string item) (\<lambda>s.
     if in_names key [''$ref'', ''$dynamicRef''] \<and> \<not> starts_with s [35] then reject ''uninspectable_field''
     else Inr item)"

definition schema_number :: "pyval \<Rightarrow> pyval res" where
  "schema_number item = (case item of PInt _ \<Rightarrow> Inr item | PFloat (Fin _) \<Rightarrow> Inr item | _ \<Rightarrow> reject ''invalid_request'')"

definition schema_type :: "pyval \<Rightarrow> pyval res" where
  "schema_type item =
     (case item of
        PList _ \<Rightarrow> rbind (py_array item True) (\<lambda>xs.
          rbind (rmap (\<lambda>t. py_choice t SCHEMA_TYPES) xs) (\<lambda>ts. Inr (PList (map PStr ts))))
      | _ \<Rightarrow> rbind (py_choice item SCHEMA_TYPES) (\<lambda>t. Inr (PStr t)))"

definition string_array :: "pyval \<Rightarrow> ustr list res" where
  "string_array v = rbind (py_array v False) (rmap py_string)"

definition schema_required :: "pyval \<Rightarrow> pyval res" where
  "schema_required item =
     rbind (string_array item) (\<lambda>names. if distinct names then Inr (PList (map PStr names)) else reject ''invalid_request'')"

definition schema_dependent :: "pyval \<Rightarrow> pyval res" where
  "schema_dependent item =
     (case item of
        PDict d \<Rightarrow> rbind (rmap (\<lambda>(name, names). rbind (string_array names) (\<lambda>ns. Inr (name, PList (map PStr ns)))) d)
                     (\<lambda>d'. Inr (PDict d'))
      | _ \<Rightarrow> reject ''invalid_request'')"

text \<open>The keywords whose value is not itself a schema.\<close>

definition schema_leaf :: "pyval \<Rightarrow> pyval \<Rightarrow> path \<Rightarrow> builder \<Rightarrow> (pyval \<times> builder) res" where
  "schema_leaf key item p b =
     (if in_names key SCHEMA_TEXT then rbind (b_text item p b) (\<lambda>(s, b'). Inr (PStr s, b'))
      else if in_names key SCHEMA_STRING then rbind (schema_string key item) (\<lambda>v. Inr (v, b))
      else if in_names key SCHEMA_NUMBER then rbind (schema_number item) (\<lambda>v. Inr (v, b_numeric p b))
      else if in_names key SCHEMA_COUNT then rbind (py_count item) (\<lambda>i. Inr (PInt i, b_numeric p b))
      else if in_names key SCHEMA_BOOL then rbind (py_boolean item) (\<lambda>x. Inr (PBool x, b))
      else if in_names key [''type''] then rbind (schema_type item) (\<lambda>v. Inr (v, b))
      else if in_names key [''required''] then rbind (schema_required item) (\<lambda>v. Inr (v, b))
      else if in_names key [''dependentRequired''] then rbind (schema_dependent item) (\<lambda>v. Inr (v, b))
      else if in_names key [''enum'']
      then rbind (py_array item True) (\<lambda>xs. Inr (PList xs, json_content True (PList xs) p b))
      else if in_names key [''examples'']
      then rbind (py_array item False) (\<lambda>xs. Inr (PList xs, json_content False (PList xs) p b))
      else Inr (item, json_content True item p b))"

fun json_schema :: "pyval \<Rightarrow> path \<Rightarrow> builder \<Rightarrow> (pyval \<times> builder) res"
  and schema_fields :: "pydict \<Rightarrow> path \<Rightarrow> builder \<Rightarrow> (pydict \<times> builder) res"
  and schema_map :: "pydict \<Rightarrow> path \<Rightarrow> builder \<Rightarrow> (pydict \<times> builder) res"
  and schema_list :: "nat \<Rightarrow> pyval list \<Rightarrow> path \<Rightarrow> builder \<Rightarrow> (pyval list \<times> builder) res" where
  "json_schema (PBool x) p b = Inr (PBool x, b)"
| "json_schema (PDict d) p b =
     rbind (object_fields (PDict d) SCHEMA_FIELDS []) (\<lambda>_. rbind (schema_fields d p b) (\<lambda>(d', b'). Inr (PDict d', b')))"
| "json_schema v p b = reject ''invalid_request''"
| "schema_fields [] p b = Inr ([], b)"
| "schema_fields ((k, v) # d) p b =
     rbind (if in_names k SCHEMA_OBJECT
            then (case v of PDict e \<Rightarrow> rbind (schema_map e (p @ [Key (key_text k)]) b) (\<lambda>(e', b'). Inr (PDict e', b'))
                  | _ \<Rightarrow> reject ''invalid_request'')
            else if in_names k SCHEMA_CHILD then json_schema v (p @ [Key (key_text k)]) b
            else if in_names k SCHEMA_ARRAY
            then rbind (py_array v True) (\<lambda>_.
                   case v of PList xs \<Rightarrow> rbind (schema_list 0 xs (p @ [Key (key_text k)]) b) (\<lambda>(ys, b'). Inr (PList ys, b'))
                   | _ \<Rightarrow> reject ''invalid_request'')
            else schema_leaf k v (p @ [Key (key_text k)]) b) (\<lambda>(v', b').
     rbind (schema_fields d p b') (\<lambda>(d', b''). Inr ((k, v') # d', b'')))"
| "schema_map [] p b = Inr ([], b)"
| "schema_map ((k, v) # d) p b =
     rbind (json_schema v (p @ [Key (key_text k)]) b) (\<lambda>(v', b').
     rbind (schema_map d p b') (\<lambda>(d', b''). Inr ((k, v') # d', b'')))"
| "schema_list i [] p b = Inr ([], b)"
| "schema_list i (x # xs) p b =
     rbind (json_schema x (p @ [Idx i]) b) (\<lambda>(y, b').
     rbind (schema_list (Suc i) xs p b') (\<lambda>(ys, b''). Inr (y # ys, b'')))"

end
