(* ===== verification/JsonFacts.thy ===== *)
theory JsonFacts
  imports Json
begin

text \<open>
  \<open>json.loads\<close> reads back what \<open>json.dumps\<close> wrote, for every value with string keys whose nesting the
  recursion limit allows; the law assumed of \<open>float.__repr__\<close> is that a float's text is a number
  literal that reads back as the float.  The fuel of the scanner is enough on every text.
\<close>

subsection \<open>Strings and integers\<close>

lemma json_hex_digit: "n < 16 \<Longrightarrow> json_hex (hex_digit n) = Some n"
  by (auto simp: json_hex_def hex_digit_def ascii_digit_def)

lemma four: "take 4 (a # b # c # d # t) = [a, b, c, d]" "drop 4 (a # b # c # d # t) = t"
  by (simp_all add: numeral_eq_Suc)

lemma hex_zero: "json_hex 48 = Some 0"
  by (simp add: json_hex_def ascii_digit_def)

lemma scan_escape: "scan_string (escape c @ t) = map_option (\<lambda>(s, q). (c # s, q)) (scan_string t)"
proof (cases "c \<in> {34, 92, 8, 12, 10, 13, 9}")
  case True
  then show ?thesis by (auto simp: escape_def scan_string.simps(2) simple_escape_def)
next
  case False
  show ?thesis
  proof (cases "c < 32")
    case True
    have "hex4 (48 # 48 # hex_digit (c div 16) # hex_digit (c mod 16) # t) = Some (c, t)"
      using True json_hex_digit [of "c div 16"] json_hex_digit [of "c mod 16"]
      by (simp add: hex4_def four hex_zero)
    then have "unicode_escape (48 # 48 # hex_digit (c div 16) # hex_digit (c mod 16) # t) = Some (c, t)"
      using True by (simp add: unicode_escape_def)
    with True False show ?thesis by (simp add: escape_def scan_string.simps(2))
  next
    case ge: False
    with False show ?thesis by (simp add: escape_def scan_string.simps(2))
  qed
qed

lemma scan_quoted: "scan_string (concat (map escape s) @ 34 # t) = Some (s, t)"
  by (induction s) (simp_all add: scan_string.simps(2) [of 34] scan_escape)

definition num_stop :: "ustr \<Rightarrow> bool" where
  \<comment> \<open>no number goes on here\<close>
  "num_stop s \<longleftrightarrow> (case s of [] \<Rightarrow> True | c # _ \<Rightarrow> \<not> ascii_digit c \<and> c \<noteq> 46 \<and> c \<noteq> 69 \<and> c \<noteq> 101)"

lemma takeWhile_stop: "list_all p a \<Longrightarrow> (b = [] \<or> \<not> p (hd b)) \<Longrightarrow> takeWhile p (a @ b) = a"
  by (induction a) (auto simp: takeWhile_eq_Nil_iff)

lemma dec_nat_head: "hd (dec_nat n) = 48 \<Longrightarrow> n = 0"
proof (induction n rule: dec_nat.induct)
  case (1 n)
  show ?case
  proof (cases "n < 10")
    case True
    with 1(2) show ?thesis by (subst (asm) dec_nat.simps) simp
  next
    case False
    have "hd (dec_nat n) = hd (dec_nat (n div 10))"
      by (subst dec_nat.simps) (use False in simp)
    with 1 False show ?thesis by simp
  qed
qed

lemma length_dec_nat: "n < 10 ^ Suc k \<Longrightarrow> length (dec_nat n) \<le> Suc k"
proof (induction k arbitrary: n)
  case 0
  then show ?case by (subst dec_nat.simps) simp
next
  case (Suc k)
  show ?case
  proof (cases "n < 10")
    case True
    then show ?thesis by (subst dec_nat.simps) simp
  next
    case False
    have "n div 10 < 10 ^ Suc k" using Suc.prems by (simp add: div_less_iff_less_mult mult.commute)
    from Suc.IH [OF this] False show ?thesis by (subst dec_nat.simps) simp
  qed
qed

lemma scan_natural:
  assumes "num_stop rest" "n < 10 ^ INT_DIGITS"
  shows "scan_number (dec_nat n @ rest) = Some (RInt (int n), rest)"
    and "scan_number (45 # dec_nat n @ rest) = Some (RInt (- int n), rest)"
proof -
  have len: "length (dec_nat n) \<le> INT_DIGITS"
  proof -
    have "Suc (INT_DIGITS - 1) = INT_DIGITS" by (simp add: INT_DIGITS_def)
    from length_dec_nat [of n "INT_DIGITS - 1", unfolded this, OF assms(2)] show ?thesis .
  qed
  obtain c q where c: "dec_nat n = c # q" by (cases "dec_nat n") (use dec_nat_nonempty in auto)
  from dec_nat_digits [of n] have d: "list_all ascii_digit (dec_nat n)" by (simp add: list_all_iff)
  then have c45: "c \<noteq> 45" using c by (auto simp: ascii_digit_def)
  have stop: "rest = [] \<or> \<not> ascii_digit (hd rest)" using assms(1) by (cases rest) (auto simp: num_stop_def)
  have whole: "whole_digits (dec_nat n @ rest) = dec_nat n"
  proof (cases "c = 48")
    case True
    with dec_nat_head [of n] c have "n = 0" by simp
    then have "dec_nat n = [48]" by (simp add: dec_nat.simps [of 0])
    with True show ?thesis by (simp add: whole_digits_def)
  next
    case False
    with takeWhile_stop [OF d stop] c show ?thesis by (simp add: whole_digits_def)
  qed
  have f: "json_fraction rest = ([], rest)" "json_exponent rest = (None, rest)"
    using assms(1) by (cases rest; auto simp: json_fraction_def json_exponent_def num_stop_def)+
  have u: "scan_unsigned neg (dec_nat n @ rest) = Some (RInt (if neg then - int n else int n), rest)" for neg
    using len by (simp add: scan_unsigned_def whole f Let_def)
  from u [of False] c c45 show "scan_number (dec_nat n @ rest) = Some (RInt (int n), rest)"
    by (simp add: scan_number_def)
  from u [of True] show "scan_number (45 # dec_nat n @ rest) = Some (RInt (- int n), rest)"
    by (simp add: scan_number_def)
qed

lemma scan_integer:
  assumes "num_stop rest" "\<bar>i\<bar> < 10 ^ INT_DIGITS"
  shows "scan_number (py_str_int i @ rest) = Some (RInt i, rest)"
proof (cases "i < 0")
  case True
  with assms(2) have "nat (- i) < 10 ^ INT_DIGITS" by (simp add: nat_less_iff)
  from scan_natural(2) [OF assms(1) this] True show ?thesis by (simp add: py_str_int_def)
next
  case False
  with assms(2) have "nat i < 10 ^ INT_DIGITS" by (simp add: nat_less_iff)
  from scan_natural(1) [OF assms(1) this] False show ?thesis by (simp add: py_str_int_def)
qed

subsection \<open>The round trip\<close>

definition float_law :: "(rat \<Rightarrow> ustr) \<Rightarrow> rat \<Rightarrow> bool" where
  "float_law shw q \<longleftrightarrow> shw q \<noteq> [] \<and> list_all (\<lambda>c. 32 \<le> c \<and> c < 127) (shw q) \<and> (hd (shw q) = 45 \<or> ascii_digit (hd (shw q)))
     \<and> (\<forall>rest. num_stop rest \<longrightarrow> scan_number (shw q @ rest) = Some (RFloat (Fin q), rest) \<and> scan_word (shw q @ rest) = None)"

fun json_clean :: "(rat \<Rightarrow> ustr) \<Rightarrow> nat \<Rightarrow> pyval \<Rightarrow> bool"
  and clean_list :: "(rat \<Rightarrow> ustr) \<Rightarrow> nat \<Rightarrow> pyval list \<Rightarrow> bool"
  and clean_pairs :: "(rat \<Rightarrow> ustr) \<Rightarrow> nat \<Rightarrow> pydict \<Rightarrow> bool" where
  "json_clean shw n (PList xs) \<longleftrightarrow> 0 < n \<and> clean_list shw (n - 1) xs"
| "json_clean shw n (PDict d) \<longleftrightarrow> 0 < n \<and> clean_pairs shw (n - 1) d"
| "json_clean shw n (PFloat f) \<longleftrightarrow> (case f of Fin q \<Rightarrow> float_law shw q | _ \<Rightarrow> False)"
| "json_clean shw n (PInt i) \<longleftrightarrow> \<bar>i\<bar> < 10 ^ INT_DIGITS"
| "json_clean shw n (PStr s) \<longleftrightarrow> True"
| "json_clean shw n (PBool b) \<longleftrightarrow> True"
| "json_clean shw n PNone \<longleftrightarrow> True"
| "clean_list shw n [] \<longleftrightarrow> True"
| "clean_list shw n (x # xs) \<longleftrightarrow> json_clean shw n x \<and> clean_list shw n xs"
| "clean_pairs shw n [] \<longleftrightarrow> True"
| "clean_pairs shw n ((k, v) # d) \<longleftrightarrow> py_unstr k \<noteq> None \<and> json_clean shw n v \<and> clean_pairs shw n d"

fun raw_of :: "pyval \<Rightarrow> raw" and raw_list :: "pyval list \<Rightarrow> raw list" and raw_pairs :: "pydict \<Rightarrow> (ustr \<times> raw) list" where
  "raw_of PNone = RNull"
| "raw_of (PBool b) = RBool b"
| "raw_of (PInt i) = RInt i"
| "raw_of (PFloat f) = RFloat f"
| "raw_of (PStr s) = RStr s"
| "raw_of (PList xs) = RArr (raw_list xs)"
| "raw_of (PDict d) = RObj (raw_pairs d)"
| "raw_list [] = []"
| "raw_list (x # xs) = raw_of x # raw_list xs"
| "raw_pairs [] = []"
| "raw_pairs ((k, v) # d) = ((case k of PStr s \<Rightarrow> s | _ \<Rightarrow> []), raw_of v) # raw_pairs d"

definition json_start :: "ustr \<Rightarrow> bool" where
  \<comment> \<open>the first character of a value\<close>
  "json_start t \<longleftrightarrow> t \<noteq> [] \<and> (ascii_digit (hd t) \<or> hd t \<in> {45, 34, 91, 123, 110, 116, 102})"

lemma json_start_append: "json_start t \<Longrightarrow> skip_ws (t @ r) = t @ r \<and> t \<noteq> [] \<and> hd t \<noteq> 93 \<and> hd t \<noteq> 125"
  by (cases t) (auto simp: json_start_def json_ws_def ascii_digit_def)

lemma py_str_int_start: "py_str_int i \<noteq> [] \<and> (hd (py_str_int i) = 45 \<or> ascii_digit (hd (py_str_int i)))"
  using dec_nat_digits [of "nat i"] dec_nat_nonempty [of "nat i"]
  by (cases "dec_nat (nat i)") (auto simp: py_str_int_def)

lemma dumps_start: "json_clean shw n v \<Longrightarrow> json_dumps shw v = Inr t \<Longrightarrow> json_start t"
  using py_str_int_start
  by (cases v) (auto simp: json_start_def quoted_def res_simps lit_def of_char_def float_law_def ascii_digit_def
      split: if_splits pyfloat.splits)

lemma dumps_total:
  "json_clean shw n v \<Longrightarrow> \<exists>t. json_dumps shw v = Inr t"
  "clean_list shw n xs \<Longrightarrow> \<exists>ts. dumps_list shw xs = Inr ts"
  "clean_pairs shw n d \<Longrightarrow> \<exists>ts. dumps_pairs shw d = Inr ts"
  by (induction shw n v and shw n xs and shw n d rule: json_clean_clean_list_clean_pairs.induct)
    (auto simp: dumps_key_def split: pyfloat.splits)

lemma dumps_list_Nil [simp]: "dumps_list shw xs = Inr [] \<longleftrightarrow> xs = []"
  by (cases xs) (auto simp: res_simps)

lemma dumps_pairs_Nil [simp]: "dumps_pairs shw d = Inr [] \<longleftrightarrow> d = []"
  by (cases d) (auto simp: res_simps)

lemma scan_word_None:
  "c \<notin> {110, 116, 102, 78, 73} \<Longrightarrow> c \<noteq> 45 \<Longrightarrow> scan_word (c # r) = None"
  "d \<noteq> 73 \<Longrightarrow> scan_word (45 # d # r) = None"
  by (simp_all add: scan_word_def json_words_def starts_with_def lit_def of_char_def)

lemma parse_scalar:
  assumes "c \<noteq> 34" "c \<noteq> 91" "c \<noteq> 123"
  shows "parse_value (Suc f) n (c # r) = (case scan_word (c # r) of Some w \<Rightarrow> Some w | None \<Rightarrow> scan_number (c # r))"
  using assms by simp

lemma parse_int:
  assumes "num_stop rest" "\<bar>i\<bar> < 10 ^ INT_DIGITS"
  shows "parse_value (Suc f) n (py_str_int i @ rest) = Some (RInt i, rest)"
proof -
  obtain c q where c: "py_str_int i = c # q" "c = 45 \<or> ascii_digit c"
    using py_str_int_start [of i] by (cases "py_str_int i") auto
  have "scan_word (py_str_int i @ rest) = None"
  proof (cases "i < 0")
    case True
    obtain d q' where d: "dec_nat (nat (- i)) = d # q'" "ascii_digit d"
      using dec_nat_digits [of "nat (- i)"] dec_nat_nonempty [of "nat (- i)"] by (cases "dec_nat (nat (- i))") auto
    with True scan_word_None(2) [of d "q' @ rest"] show ?thesis by (auto simp: py_str_int_def ascii_digit_def)
  next
    case False
    obtain d q' where d: "dec_nat (nat i) = d # q'" "ascii_digit d"
      using dec_nat_digits [of "nat i"] dec_nat_nonempty [of "nat i"] by (cases "dec_nat (nat i)") auto
    with False scan_word_None(1) [of d "q' @ rest"] show ?thesis by (auto simp: py_str_int_def ascii_digit_def)
  qed
  moreover have "parse_value (Suc f) n (py_str_int i @ rest) =
      (case scan_word (py_str_int i @ rest) of Some w \<Rightarrow> Some w | None \<Rightarrow> scan_number (py_str_int i @ rest))"
    unfolding c(1) append_Cons by (rule parse_scalar) (use c(2) in \<open>auto simp: ascii_digit_def\<close>)
  ultimately show ?thesis by (simp add: scan_integer [OF assms])
qed

lemma parse_float:
  assumes "num_stop rest" "float_law shw q"
  shows "parse_value (Suc f) n (shw q @ rest) = Some (RFloat (Fin q), rest)"
proof -
  from assms(2) obtain c r where c: "shw q = c # r" "c = 45 \<or> ascii_digit c"
    by (cases "shw q") (auto simp: float_law_def)
  have "parse_value (Suc f) n (shw q @ rest) =
      (case scan_word (shw q @ rest) of Some w \<Rightarrow> Some w | None \<Rightarrow> scan_number (shw q @ rest))"
    unfolding c(1) append_Cons by (rule parse_scalar) (use c(2) in \<open>auto simp: ascii_digit_def\<close>)
  with assms show ?thesis by (simp add: float_law_def)
qed

lemma parse_word:
  "parse_value (Suc f) n (lit ''null'' @ rest) = Some (RNull, rest)"
  "parse_value (Suc f) n (lit ''true'' @ rest) = Some (RBool True, rest)"
  "parse_value (Suc f) n (lit ''false'' @ rest) = Some (RBool False, rest)"
  by (simp_all add: lit_def of_char_def scan_word_def json_words_def starts_with_def)

lemma py_join_Cons: "py_join [44] (t # ts) = t @ (if ts = [] then [] else 44 # py_join [44] ts)"
  by (cases ts) simp_all

lemma json_start_join: "json_start t \<Longrightarrow> json_start (py_join [44] (t # ts))"
  by (cases t) (auto simp: json_start_def py_join_Cons)

lemma num_stop_simps [simp]: "num_stop (93 # r)" "num_stop (125 # r)" "num_stop (44 # r)" "num_stop []"
  by (simp_all add: num_stop_def ascii_digit_def)

lemma quoted_start: "json_start (quoted s @ r)"
  by (simp add: json_start_def quoted_def)

lemma parse_container:
  assumes "json_start t" and "c = 91 \<or> c = 123"
  shows "parse_value (Suc f) (Suc n) (c # t @ r) =
     (if c = 91 then map_option (\<lambda>(xs, q). (RArr xs, q)) (parse_elements f n (t @ r))
      else map_option (\<lambda>(ps, q). (RObj ps, q)) (parse_members f n (t @ r)))"
proof -
  from json_start_append [OF assms(1), of r] obtain d q where d: "t @ r = d # q" "d \<noteq> 93" "d \<noteq> 125"
    "skip_ws (t @ r) = d # q" by (cases t) auto
  from assms(2) show ?thesis using d by auto
qed

lemma parse_dumps:
  "json_clean shw n v \<Longrightarrow> json_dumps shw v = Inr t \<Longrightarrow> num_stop rest \<Longrightarrow> 2 * length t \<le> f
     \<Longrightarrow> parse_value f n (t @ rest) = Some (raw_of v, rest)"
  "clean_list shw n xs \<Longrightarrow> dumps_list shw xs = Inr ts \<Longrightarrow> xs \<noteq> [] \<Longrightarrow> 2 * length (py_join [44] ts) + 2 \<le> f
     \<Longrightarrow> parse_elements f n (py_join [44] ts @ 93 # rest) = Some (raw_list xs, rest)"
  "clean_pairs shw n d \<Longrightarrow> dumps_pairs shw d = Inr ts \<Longrightarrow> d \<noteq> [] \<Longrightarrow> 2 * length (py_join [44] ts) + 2 \<le> f
     \<Longrightarrow> parse_members f n (py_join [44] ts @ 125 # rest) = Some (raw_pairs d, rest)"
proof (induction shw n v and shw n xs and shw n d arbitrary: t rest f and ts rest f and ts rest f
    rule: json_clean_clean_list_clean_pairs.induct)
  case (1 shw n xs)
  from 1(2,3) obtain ts m where ts: "dumps_list shw xs = Inr ts" "t = 91 # py_join [44] ts @ [93]" "n = Suc m"
    "clean_list shw m xs" by (cases n) (auto simp: res_simps)
  obtain g where g: "f = Suc g" using 1(5) ts(2) by (cases f) auto
  show ?case
  proof (cases "xs = []")
    case True
    then show ?thesis using ts g by (simp add: json_ws_def)
  next
    case False
    then obtain x xs' t1 ts' where x: "xs = x # xs'" "ts = t1 # ts'" "json_dumps shw x = Inr t1" "json_clean shw m x"
      using ts(1,4) by (cases xs) (auto simp: res_simps)
    have js: "json_start (py_join [44] ts)" unfolding x(2) by (rule json_start_join [OF dumps_start [OF x(4,3)]])
    have "parse_elements g m (py_join [44] ts @ 93 # rest) = Some (raw_list xs, rest)"
      using 1(1) [of ts g rest] ts False 1(5) g by simp
    then show ?thesis
      using parse_container [OF js, of 91 g m "93 # rest"] ts(2,3) g by simp
  qed
next
  case (2 shw n d)
  from 2(2,3) obtain ts m where ts: "dumps_pairs shw d = Inr ts" "t = 123 # py_join [44] ts @ [125]" "n = Suc m"
    "clean_pairs shw m d" by (cases n) (auto simp: res_simps)
  obtain g where g: "f = Suc g" using 2(5) ts(2) by (cases f) auto
  show ?case
  proof (cases "d = []")
    case True
    then show ?thesis using ts g by (simp add: json_ws_def)
  next
    case False
    then obtain k r ts' where k: "ts = (quoted k @ r) # ts'"
      using ts(1) by (cases d) (auto simp: res_simps)
    have js: "json_start (py_join [44] ts)" unfolding k by (rule json_start_join [OF quoted_start])
    have "parse_members g m (py_join [44] ts @ 125 # rest) = Some (raw_pairs d, rest)"
      using 2(1) [of ts g rest] ts False 2(5) g by simp
    then show ?thesis
      using parse_container [OF js, of 123 g m "125 # rest"] ts(2,3) g by simp
  qed
next
  case (3 shw n fl)
  then obtain q where q: "fl = Fin q" "float_law shw q" "t = shw q" by (cases fl) auto
  then obtain g where "f = Suc g" using 3(4) by (cases f) (auto simp: float_law_def)
  with parse_float [OF 3(3) q(2)] q show ?case by simp
next
  case (4 shw n i)
  then have i: "t = py_str_int i" by (auto split: if_splits)
  then obtain g where "f = Suc g" using 4(4) py_str_int_start [of i] by (cases f) auto
  with parse_int [OF 4(3), of i] 4(1) i show ?case by simp
next
  case (5 shw n s)
  then have t: "t = 34 # concat (map escape s) @ [34]" by (simp add: quoted_def)
  then obtain g where "f = Suc g" using 5(4) by (cases f) auto
  with t show ?case by (simp add: scan_quoted)
next
  case (6 shw n b)
  then obtain g where "f = Suc g" by (cases f) (auto split: if_splits)
  with 6 parse_word(2,3) [of g n rest] show ?case by (auto split: if_splits simp del: parse_value.simps)
next
  case (7 shw n)
  then obtain g where "f = Suc g" by (cases f) auto
  with 7 parse_word(1) [of g n rest] show ?case by (simp del: parse_value.simps)
next
  case (9 shw n x xs)
  from 9(4) obtain t1 ts' where t: "json_dumps shw x = Inr t1" "dumps_list shw xs = Inr ts'" "ts = t1 # ts'"
    by (auto simp: res_simps)
  obtain g where g: "f = Suc g" using 9(6) by (cases f) auto
  show ?case
  proof (cases "xs = []")
    case True
    then have "ts' = []" using t(2) by simp
    then have "parse_value g n (t1 @ 93 # rest) = Some (raw_of x, 93 # rest)"
      using 9(1) [of t1 "93 # rest" g] 9(3,6) t g by (simp add: py_join_Cons)
    with True \<open>ts' = []\<close> t g show ?thesis by (simp add: json_ws_def)
  next
    case False
    then obtain t2 ts'' where t2: "ts' = t2 # ts''" using t(2) by (cases ts') auto
    have len: "length (py_join [44] ts) = length t1 + 1 + length (py_join [44] ts')"
      by (simp add: t(3) t2 py_join_Cons)
    have v: "parse_value g n (t1 @ 44 # py_join [44] ts' @ 93 # rest) = Some (raw_of x, 44 # py_join [44] ts' @ 93 # rest)"
      using 9(1) [of t1 "44 # py_join [44] ts' @ 93 # rest" g] 9(3,6) t g len by simp
    have e: "parse_elements g n (py_join [44] ts' @ 93 # rest) = Some (raw_list xs, rest)"
      using 9(2) [of ts' g rest] 9(3,6) t False g len by simp
    obtain x2 xs2 where x2: "xs = x2 # xs2" using False by (cases xs) auto
    have "json_start (py_join [44] ts')"
    proof -
      from t(2) x2 t2 have "json_dumps shw x2 = Inr t2" by (auto simp: res_simps)
      moreover from 9(3) x2 have "json_clean shw n x2" by simp
      ultimately show ?thesis unfolding t2 by (intro json_start_join dumps_start)
    qed
    with json_start_append [of "py_join [44] ts'" "93 # rest"] v e g t2
    show ?thesis by (simp add: t(3) py_join_Cons json_ws_def)
  qed
next
  case (11 shw n k v d)
  from 11(3) obtain s where s: "k = PStr s" by auto
  from 11(4) s obtain t1 ts' where t: "json_dumps shw v = Inr t1" "dumps_pairs shw d = Inr ts'"
    "ts = (quoted s @ 58 # t1) # ts'" by (auto simp: res_simps dumps_key_def)
  obtain g where g: "f = Suc g" using 11(6) by (cases f) auto
  have js: "json_start t1" using dumps_start [of shw n v t1] 11(3) t(1) by simp
  have colon: "\<not> json_ws 58" "\<not> json_ws 44" "\<not> json_ws 125"
    by (simp_all add: json_ws_def)
  have q: "scan_string (tl (quoted s @ z)) = Some (s, z)" "hd (quoted s @ z) = 34" "quoted s @ z = 34 # tl (quoted s @ z)" for z
    by (simp_all add: quoted_def scan_quoted)
  show ?case
  proof (cases "d = []")
    case True
    then have n: "ts' = []" using t(2) by simp
    then have v: "parse_value g n (t1 @ 125 # rest) = Some (raw_of v, 125 # rest)"
      using 11(1) [of t1 "125 # rest" g] 11(3,6) t g by simp
    have "parse_members (Suc g) n (34 # tl (quoted s @ 58 # t1 @ 125 # rest)) = Some ([(s, raw_of v)], rest)"
      using q(1) [of "58 # t1 @ 125 # rest"] v json_start_append [OF js, of "125 # rest"] by (simp add: colon)
    with True n t(3) g s q(3) [of "58 # t1 @ 125 # rest"] show ?thesis by simp
  next
    case False
    then obtain t2 ts'' where t2: "ts' = t2 # ts''" using t(2) by (cases ts') auto
    define more where "more = py_join [44] ts' @ 125 # rest"
    have len: "length (py_join [44] ts) = length (quoted s) + 1 + length t1 + 1 + length (py_join [44] ts')"
      by (simp add: t(3) t2 py_join_Cons)
    have v: "parse_value g n (t1 @ 44 # more) = Some (raw_of v, 44 # more)"
      using 11(1) [of t1 "44 # more" g] 11(3,6) t g len by simp
    have e: "parse_members g n more = Some (raw_pairs d, rest)"
      unfolding more_def using 11(2) [of ts' g rest] 11(3,6) t False g len by simp
    have "skip_ws more = more"
    proof -
      from t(2) t2 False obtain k2 r2 where "t2 = quoted k2 @ r2" by (cases d) (auto simp: res_simps)
      then have "json_start (py_join [44] ts')" unfolding t2 by (simp add: json_start_join quoted_start)
      then show ?thesis unfolding more_def using json_start_append by blast
    qed
    then have "parse_members (Suc g) n (34 # tl (quoted s @ 58 # t1 @ 44 # more)) = Some ((s, raw_of v) # raw_pairs d, rest)"
      using q(1) [of "58 # t1 @ 44 # more"] v e json_start_append [OF js, of "44 # more"] by (simp add: colon)
    moreover have "py_join [44] ts @ 125 # rest = quoted s @ 58 # t1 @ 44 # more"
      by (simp add: t(3) t2 py_join_Cons more_def)
    ultimately show ?thesis using g s q(3) [of "58 # t1 @ 44 # more"] by simp
  qed
qed simp_all

theorem json_roundtrip:
  assumes "json_clean shw nest v"
  shows "\<exists>t. json_dumps shw v = Inr t \<and> json_parse nest t = Some (raw_of v)"
proof -
  from dumps_total(1) [OF assms] obtain t where t: "json_dumps shw v = Inr t" by blast
  have js: "json_start t" by (rule dumps_start [OF assms t])
  then have "\<not> starts_with t [0xFEFF]"
    by (cases t) (auto simp: json_start_def starts_with_def ascii_digit_def)
  moreover have "parse_value (json_fuel t) nest (t @ []) = Some (raw_of v, [])"
    by (rule parse_dumps(1) [OF assms t]) (simp_all add: json_fuel_def)
  ultimately have "json_parse nest t = Some (raw_of v)"
    using json_start_append [OF js, of "[]"] by (simp add: json_parse_def)
  with t show ?thesis by blast
qed

text \<open>The text is one line.\<close>

lemma escape_one_line: "\<forall>d \<in> set (escape c). 32 \<le> d"
proof -
  have "32 \<le> hex_digit n" for n by (simp add: hex_digit_def)
  then show ?thesis by (auto simp: escape_def split: option.splits if_splits)
qed

lemma quoted_one_line: "\<forall>d \<in> set (quoted s). 32 \<le> d"
  using escape_one_line by (auto simp: quoted_def)

lemma set_py_join: "set (py_join sep ts) \<subseteq> set sep \<union> (\<Union>t \<in> set ts. set t)"
  by (induction sep ts rule: py_join.induct) auto

lemma dec_nat_one_line: "\<forall>d \<in> set (dec_nat n). 32 \<le> d"
  using dec_nat_digits [of n] by (auto simp: ascii_digit_def)

lemma dumps_one_line:
  "json_clean shw n v \<Longrightarrow> json_dumps shw v = Inr t \<Longrightarrow> \<forall>d \<in> set t. 32 \<le> d"
  "clean_list shw n xs \<Longrightarrow> dumps_list shw xs = Inr ts \<Longrightarrow> \<forall>u \<in> set ts. \<forall>d \<in> set u. 32 \<le> d"
  "clean_pairs shw n d \<Longrightarrow> dumps_pairs shw d = Inr ts \<Longrightarrow> \<forall>u \<in> set ts. \<forall>d \<in> set u. 32 \<le> d"
proof (induction shw n v and shw n xs and shw n d arbitrary: t and ts and ts rule: json_clean_clean_list_clean_pairs.induct)
  case (1 shw n xs)
  then show ?case using set_py_join [of "[44]"] by (fastforce simp: res_simps)
next
  case (2 shw n d)
  then show ?case using set_py_join [of "[44]"] by (fastforce simp: res_simps)
next
  case (3 shw n f)
  then show ?case by (auto simp: float_law_def list_all_iff split: pyfloat.splits)
next
  case (4 shw n i)
  then show ?case using dec_nat_one_line by (auto simp: py_str_int_def split: if_splits)
next
  case (5 shw n s)
  then show ?case using quoted_one_line by auto
next
  case (11 shw n k v d)
  then show ?case using quoted_one_line by (fastforce simp: res_simps dumps_key_def)
qed (auto simp: res_simps lit_def of_char_def split: if_splits)

subsection \<open>The fuel is enough\<close>

lemma scan_string_shorter: "scan_string s = Some (t, r) \<Longrightarrow> length r < length s"
proof (induction s arbitrary: t r rule: scan_string.induct)
  case (2 c s)
  then show ?case
    by (auto simp: scan_string.simps(2) split: if_splits option.splits list.splits
        dest!: unicode_escape_shorter) (meson Suc_lessD less_SucI less_trans)+
qed simp

lemma scan_word_shorter: "scan_word s = Some (v, r) \<Longrightarrow> length r < length s"
  by (cases s) (auto simp: scan_word_def json_words_def starts_with_def split: if_splits)

lemma json_fraction_le: "json_fraction s = (ds, r) \<Longrightarrow> length r \<le> length s"
  by (auto simp: json_fraction_def Let_def split: list.splits if_splits)

lemma json_exponent_le: "json_exponent s = (e, r) \<Longrightarrow> length r \<le> length s"
  by (auto simp: json_exponent_def Let_def split: list.splits if_splits)

lemma whole_digits_le: "length (whole_digits r) \<le> length r"
  by (auto simp: whole_digits_def length_takeWhile_le split: list.splits intro: le_SucI)

lemma scan_unsigned_shorter: "scan_unsigned neg s = Some (v, r) \<Longrightarrow> length r < length s"
proof -
  assume a: "scan_unsigned neg s = Some (v, r)"
  obtain fr r1 where f: "json_fraction (drop (length (whole_digits s)) s) = (fr, r1)" by fastforce
  obtain ex r2 where e: "json_exponent r1 = (ex, r2)" by fastforce
  from a f e have "whole_digits s \<noteq> []" "r = r2"
    by (auto simp: scan_unsigned_def Let_def split: if_splits)
  with json_fraction_le [OF f] json_exponent_le [OF e] whole_digits_le [of s] show ?thesis
    by (cases "whole_digits s") auto
qed

lemma scan_number_shorter: "scan_number s = Some (v, r) \<Longrightarrow> length r < length s"
  by (auto simp: scan_number_def split: list.splits if_splits dest!: scan_unsigned_shorter)

lemma skip_ws_le: "length (skip_ws s) \<le> length s"
  by (rule length_dropWhile_le)

lemma skip_ws_Cons: "skip_ws s = c # q \<Longrightarrow> length q < length s"
  using skip_ws_le [of s] by simp

lemma parse_shorter:
  "parse_value f n s = Some (v, r) \<Longrightarrow> length r < length s"
  "parse_elements f n s = Some (vs, r) \<Longrightarrow> length r < length s"
  "parse_members f n s = Some (ps, r) \<Longrightarrow> length r < length s"
proof (induction f arbitrary: n s v vs ps r)
  case (Suc f)
  {
    case 1
    then obtain c q where s: "s = c # q" by (cases s) auto
    consider (str) t where "scan_string q = Some (t, r)"
      | (empty) d where "skip_ws q = d # r"
      | (elems) m d q' vs where "skip_ws q = d # q'" "parse_elements f m (d # q') = Some (vs, r)"
      | (members) m d q' ps where "skip_ws q = d # q'" "parse_members f m (d # q') = Some (ps, r)"
      | (word) w where "scan_word s = Some (w, r)"
      | (number) w where "scan_number s = Some (w, r)"
      using 1 unfolding s by (auto split: if_splits nat.splits list.splits option.splits)
    then show ?case
    proof cases
      case str
      then show ?thesis using scan_string_shorter s by fastforce
    next
      case empty
      then show ?thesis using skip_ws_Cons s by fastforce
    next
      case elems
      from Suc.IH(2) [OF elems(2)] elems(1) skip_ws_le [of q] show ?thesis by (simp add: s)
    next
      case members
      from Suc.IH(3) [OF members(2)] members(1) skip_ws_le [of q] show ?thesis by (simp add: s)
    qed (use scan_word_shorter scan_number_shorter in blast)+
  next
    case 2
    then obtain v r1 c q where v: "parse_value f n s = Some (v, r1)" "skip_ws r1 = c # q"
      and rest: "r = q \<or> (\<exists>vs'. parse_elements f n (skip_ws q) = Some (vs', r))"
      by (auto split: option.splits list.splits if_splits)
    from Suc.IH(1) [OF v(1)] skip_ws_Cons [OF v(2)] have "length q < length s" by simp
    with rest Suc.IH(2) [of n "skip_ws q"] skip_ws_le [of q] show ?case by fastforce
  next
    case 3
    then obtain c q where s: "s = c # q" by (cases s) auto
    with 3 obtain k r1 d r2 v r3 e z where k: "scan_string q = Some (k, r1)" "skip_ws r1 = d # r2"
      "parse_value f n (skip_ws r2) = Some (v, r3)" "skip_ws r3 = e # z"
      and rest: "r = z \<or> (\<exists>ps'. parse_members f n (skip_ws z) = Some (ps', r))"
      by (auto split: option.splits list.splits if_splits)
    from scan_string_shorter [OF k(1)] skip_ws_Cons [OF k(2)] skip_ws_le [of r2] Suc.IH(1) [OF k(3)] skip_ws_Cons [OF k(4)]
    have "length z < length s" by (simp add: s)
    with rest Suc.IH(3) [of n "skip_ws z"] skip_ws_le [of z] show ?case by fastforce
  }
qed simp_all

lemma parse_fuel_step:
  "2 * length s < f \<Longrightarrow> parse_value (Suc f) n s = parse_value f n s"
  "Suc (2 * length s) < f \<Longrightarrow> parse_elements (Suc f) n s = parse_elements f n s"
  "Suc (2 * length s) < f \<Longrightarrow> parse_members (Suc f) n s = parse_members f n s"
proof (induction f arbitrary: n s)
  case (Suc f)
  {
    case 1
    show ?case
    proof (cases s)
      case (Cons c r)
      have sub: "parse_elements (Suc f) m (d # q) = parse_elements f m (d # q)"
        "parse_members (Suc f) m (d # q) = parse_members f m (d # q)" if "skip_ws r = d # q" for m d q
        using Suc.IH(2,3) [of "d # q" m] that 1 skip_ws_le [of r]
        by (simp_all add: Cons del: parse_elements.simps parse_members.simps)
      show ?thesis
        unfolding parse_value.simps(2) [of "Suc f" n s] parse_value.simps(2) [of f n s] unfolding Cons
        by (auto simp: sub split: nat.splits list.splits
            simp del: dropWhile_eq_Nil_conv parse_elements.simps parse_members.simps parse_value.simps)
    qed simp
  next
    case 2
    have v: "parse_value (Suc f) n s = parse_value f n s" using Suc.IH(1) [of s n] 2 by simp
    have sub: "parse_elements (Suc f) n (skip_ws q) = parse_elements f n (skip_ws q)"
      if "parse_value f n s = Some (v, r)" "skip_ws r = c # q" for v r c q
      using Suc.IH(2) [of "skip_ws q" n] 2 parse_shorter(1) [OF that(1)] skip_ws_Cons [OF that(2)] skip_ws_le [of q]
      by (simp del: parse_elements.simps)
    show ?case
      unfolding parse_elements.simps(2) [of "Suc f" n s] parse_elements.simps(2) [of f n s] v
      by (auto simp: sub split: option.splits list.splits simp del: dropWhile_eq_Nil_conv parse_elements.simps)
  next
    case 3
    show ?case
    proof (cases s)
      case (Cons c q)
      have v: "parse_value (Suc f) n (skip_ws r2) = parse_value f n (skip_ws r2)"
        if "scan_string q = Some (k, r1)" "skip_ws r1 = d # r2" for k r1 d r2
        using Suc.IH(1) [of "skip_ws r2" n] 3 scan_string_shorter [OF that(1)] skip_ws_Cons [OF that(2)] skip_ws_le [of r2]
        by (simp add: Cons del: parse_value.simps)
      have m: "parse_members (Suc f) n (skip_ws z) = parse_members f n (skip_ws z)"
        if "scan_string q = Some (k, r1)" "skip_ws r1 = d # r2" "parse_value f n (skip_ws r2) = Some (v, r3)"
          "skip_ws r3 = e # z" for k r1 d r2 v r3 e z
        using Suc.IH(3) [of "skip_ws z" n] 3 scan_string_shorter [OF that(1)] skip_ws_Cons [OF that(2)] skip_ws_le [of r2]
          parse_shorter(1) [OF that(3)] skip_ws_Cons [OF that(4)] skip_ws_le [of z]
        by (simp add: Cons del: parse_members.simps)
      show ?thesis
        unfolding parse_members.simps(2) [of "Suc f" n s] parse_members.simps(2) [of f n s] unfolding Cons
        by (auto simp: v m split: option.splits list.splits simp del: dropWhile_eq_Nil_conv parse_members.simps parse_value.simps)
    qed simp
  }
qed simp_all

lemma parse_value_fuel: "json_fuel s \<le> f \<Longrightarrow> parse_value f n s = parse_value (json_fuel s) n s"
proof (induction f)
  case (Suc f)
  show ?case
  proof (cases "json_fuel s \<le> f")
    case True
    with Suc.IH parse_fuel_step(1) [of s f n] show ?thesis by (simp add: json_fuel_def)
  next
    case False
    with Suc.prems have "Suc f = json_fuel s" by simp
    then show ?thesis by simp
  qed
qed (simp add: json_fuel_def)

end
