(* ===== verification/ProtocolFacts.thy ===== *)
theory ProtocolFacts
  imports ProtocolBase JsonFacts
begin

text \<open>
  What the primitives guarantee: the bounds check accepts exactly the bounded trees, the locations of a
  request cover every string in it, and replacing one leaf touches no other.
\<close>

subsection \<open>The bounds\<close>

function json_ok :: "nat \<Rightarrow> pyval \<Rightarrow> bool" where
  "json_ok n v \<longleftrightarrow> n \<le> MAX_DEPTH \<and> (case v of
       PDict d \<Rightarrow> length d \<le> MAX_COLLECTION \<and> (\<forall>(k, x) \<in> set d. is_str k \<and> json_ok (Suc n) k \<and> json_ok (Suc n) x)
     | PList xs \<Rightarrow> length xs \<le> MAX_COLLECTION \<and> (\<forall>x \<in> set xs. json_ok (Suc n) x)
     | PStr s \<Rightarrow> \<not> list_ex is_surrogate s
     | PFloat f \<Rightarrow> is_finite f
     | _ \<Rightarrow> True)"
  by pat_completeness auto

lemma size_in_list: "x \<in> set xs \<Longrightarrow> size x < Suc (size_list size xs)"
  by (induction xs) auto

lemma size_in_dict: "(k, x) \<in> set d \<Longrightarrow> size k < Suc (size_list (size_prod size size) d) \<and> size x < Suc (size_list (size_prod size size) d)"
  by (induction d) auto

termination json_ok
  by (relation "measure (\<lambda>(n, v). size v)") (auto dest: size_in_list size_in_dict)

declare json_ok.simps [simp del]

lemma json_ok_scalars [simp]:
  "json_ok n PNone \<longleftrightarrow> n \<le> MAX_DEPTH" "json_ok n (PBool x) \<longleftrightarrow> n \<le> MAX_DEPTH" "json_ok n (PInt i) \<longleftrightarrow> n \<le> MAX_DEPTH"
  "json_ok n (PStr s) \<longleftrightarrow> n \<le> MAX_DEPTH \<and> \<not> list_ex is_surrogate s" "json_ok n (PFloat f) \<longleftrightarrow> n \<le> MAX_DEPTH \<and> is_finite f"
  "json_ok n (PList xs) \<longleftrightarrow> n \<le> MAX_DEPTH \<and> length xs \<le> MAX_COLLECTION \<and> (\<forall>x \<in> set xs. json_ok (Suc n) x)"
  by (simp_all add: json_ok.simps [of n])

lemma set_pushed: "set (pushed n vs st) = (\<lambda>v. (v, n)) ` set vs \<union> set st"
  by (simp add: pushed_def)

lemma set_entries: "set (entries d) = fst ` set d \<union> snd ` set d"
  by (induction d) (auto simp: entries_def)

lemma bounded_loop_Inr: "bounded_loop st = Inr () \<longleftrightarrow> (\<forall>(v, n) \<in> set st. json_ok n v)"
proof (induction st rule: bounded_loop.induct)
  case (2 node depth stack)
  note IH = 2
  show ?case
  proof (cases "MAX_DEPTH < depth")
    case True
    then show ?thesis by (cases node) (auto simp: bounded_loop.simps(2) json_ok.simps [of depth "PDict _"])
  next
    case d: False
    show ?thesis
    proof (cases node)
      case (PDict e)
      have all: "(\<forall>(w, m) \<in> set (pushed (Suc depth) (entries e) stack). json_ok m w) \<longleftrightarrow>
          (\<forall>(k, x) \<in> set e. json_ok (Suc depth) k \<and> json_ok (Suc depth) x) \<and> (\<forall>(v, n) \<in> set stack. json_ok n v)"
        unfolding set_pushed set_entries by (auto simp: ball_Un)
      show ?thesis
      proof (cases "MAX_COLLECTION < length e \<or> \<not> list_all (\<lambda>(k, _). is_str k) e")
        case True
        then have "\<not> json_ok depth node"
          by (auto simp: PDict json_ok.simps [of depth "PDict e"] list_all_iff)
        with True d PDict show ?thesis by (auto simp: bounded_loop.simps(2))
      next
        case False
        with IH(7) d PDict have "bounded_loop ((node, depth) # stack) = Inr () \<longleftrightarrow>
            (\<forall>(w, m) \<in> set (pushed (Suc depth) (entries e) stack). json_ok m w)"
          by (simp add: bounded_loop.simps(2))
        moreover from False d PDict have "json_ok depth node \<longleftrightarrow>
            (\<forall>(k, x) \<in> set e. json_ok (Suc depth) k \<and> json_ok (Suc depth) x)"
          unfolding json_ok.simps [of depth node] by (auto simp: list_all_iff)
        ultimately show ?thesis unfolding all by simp
      qed
    next
      case (PList xs)
      then show ?thesis
        using d IH(6) by (auto simp: bounded_loop.simps(2) set_pushed ball_Un)
    qed (use d IH(1-5) in \<open>auto simp: bounded_loop.simps(2) \<close>)
  qed
qed simp

lemma bounded_json_iff: "bounded_json v = Inr () \<longleftrightarrow> json_ok 0 v"
  by (simp add: bounded_json_def bounded_loop_Inr)

text \<open>
  The bounds check, a loop over an explicit stack, accepts exactly the values that are JSON trees of
  bounded depth and breadth with string keys, valid Unicode and finite numbers.
\<close>

theorem bounded_json_exact: "bounded_json v = Inr () \<longleftrightarrow> json_ok 0 v"
  by (rule bounded_json_iff)

subsection \<open>Where a value stands\<close>

fun value_at :: "pyval \<Rightarrow> path \<Rightarrow> pyval option" where
  "value_at v [] = Some v"
| "value_at (PDict d) (Key k # q) = Option.bind (map_of d (PStr k)) (\<lambda>x. value_at x q)"
| "value_at (PList xs) (Idx i # q) = (if i < length xs then value_at (xs ! i) q else None)"
| "value_at _ _ = None"

lemma value_at_scalar [simp]:
  "value_at (PInt i) q = Some (PStr s) \<longleftrightarrow> False" "value_at (PFloat f) q = Some (PStr s) \<longleftrightarrow> False"
  "value_at (PBool x) q = Some (PStr s) \<longleftrightarrow> False" "value_at PNone q = Some (PStr s) \<longleftrightarrow> False"
  by (cases q; simp)+

text \<open>Every string of a decoded argument has its location.\<close>

lemma rbind3: "rbind m (\<lambda>ls. rbind n (\<lambda>rest. Inr (f ls rest))) = Inr out \<longleftrightarrow> (\<exists>ls rest. m = Inr ls \<and> n = Inr rest \<and> out = f ls rest)"
  by (auto simp: rbind_eq_Inr)

lemma walk_json_covers:
  "walk_json J b v p j = Inr ls \<Longrightarrow> value_at v q = Some (PStr s) \<Longrightarrow> str_location b s p (Some (j @ q)) \<in> set ls"
  "walk_json_items J b d p j = Inr ls \<Longrightarrow> map_of d (PStr kk) = Some x \<Longrightarrow> value_at x q = Some (PStr s)
     \<Longrightarrow> str_location b s p (Some (j @ Key kk # q)) \<in> set ls"
  "walk_json_list J b i xs p j = Inr ls \<Longrightarrow> n < length xs \<Longrightarrow> value_at (xs ! n) q = Some (PStr s)
     \<Longrightarrow> str_location b s p (Some (j @ Idx (i + n) # q)) \<in> set ls"
proof (induction J b v p j and J b d p j and J b i xs p j arbitrary: q s ls and q s ls kk x and q s ls n
    rule: walk_json_walk_json_items_walk_json_list.induct)
  case (1 J b d p j)
  then show ?case
    by (cases q rule: list.exhaust; cases "hd q") (auto simp: bind_eq_Some_conv)
next
  case (2 J b xs p j)
  then show ?case
    by (cases q rule: list.exhaust; cases "hd q") (auto split: if_splits dest!: 2(1))
next
  case (3 J b s p j)
  then show ?case by (cases q) auto
next
  case (9 J b k v d p j)
  from 9(3) obtain l1 l2 where l: "walk_json J b v p (j @ [Key (key_text k)]) = Inr l1"
    "walk_json_items J b d p j = Inr l2" "ls = key_location k p (Some j) # l1 @ l2" by (auto simp: rbind3)
  show ?case
  proof (cases "k = PStr kk")
    case True
    with 9(4) have "x = v" by simp
    with 9(1) [OF l(1) 9(5) [unfolded this]] True l(3) show ?thesis by simp
  next
    case False
    with 9(4) have "map_of d (PStr kk) = Some x" by (auto split: if_splits)
    from 9(2) [OF l(2) this 9(5)] l(3) show ?thesis by simp
  qed
next
  case (11 J b i x xs p j)
  from 11(3) obtain l1 l2 where l: "walk_json J b x p (j @ [Idx i]) = Inr l1"
    "walk_json_list J b (Suc i) xs p j = Inr l2" "ls = l1 @ l2" by (auto simp: rbind3)
  show ?case
  proof (cases n)
    case 0
    with 11(1) [OF l(1), of q s] 11(5) l(3) show ?thesis by simp
  next
    case (Suc m)
    with 11(2) [OF l(2), of m q s] 11(4,5) l(3) show ?thesis by simp
  qed
qed auto

text \<open>Every string of the payload has its location, the strings of an encoded argument one each.\<close>

definition covered_at :: "json_lib \<Rightarrow> builder \<Rightarrow> location list \<Rightarrow> path \<Rightarrow> ustr \<Rightarrow> bool" where
  "covered_at J b ls q s \<longleftrightarrow>
     (case map_of (lb_json b) q of
        None \<Rightarrow> str_location b s q None \<in> set ls
      | Some decoded \<Rightarrow> \<forall>r t. value_at decoded r = Some (PStr t) \<longrightarrow> str_location b t q (Some r) \<in> set ls)"

lemma covered_at_append: "covered_at J b l1 q s \<or> covered_at J b l2 q s \<Longrightarrow> covered_at J b (l1 @ l2) q s"
  by (auto simp: covered_at_def split: option.splits)

lemma covered_at_Cons: "covered_at J b ls q s \<Longrightarrow> covered_at J b (l # ls) q s"
  by (auto simp: covered_at_def split: option.splits)

lemma walk_covers:
  "walk_node J b v p = Inr ls \<Longrightarrow> value_at v q = Some (PStr s) \<Longrightarrow> covered_at J b ls (p @ q) s"
  "walk_items J b d p = Inr ls \<Longrightarrow> map_of d (PStr kk) = Some x \<Longrightarrow> value_at x q = Some (PStr s)
     \<Longrightarrow> covered_at J b ls (p @ Key kk # q) s"
  "walk_list J b i xs p = Inr ls \<Longrightarrow> n < length xs \<Longrightarrow> value_at (xs ! n) q = Some (PStr s)
     \<Longrightarrow> covered_at J b ls (p @ Idx (i + n) # q) s"
proof (induction J b v p and J b d p and J b i xs p arbitrary: q s ls and q s ls kk x and q s ls n
    rule: walk_node_walk_items_walk_list.induct)
  case (1 J b d p)
  then show ?case
    by (cases q rule: list.exhaust; cases "hd q") (auto simp: bind_eq_Some_conv)
next
  case (2 J b xs p)
  then show ?case
    by (cases q rule: list.exhaust; cases "hd q") (auto split: if_splits dest!: 2(1))
next
  case (3 J b t p)
  show ?case
  proof (cases "map_of (lb_json b) p")
    case None
    with 3 show ?thesis by (cases q) (auto simp: covered_at_def)
  next
    case (Some decoded)
    with 3 walk_json_covers(1) [of J b decoded p "[]" ls] show ?thesis
      by (cases q) (auto simp: covered_at_def)
  qed
next
  case (9 J b k v d p)
  from 9(3) obtain l1 l2 where l: "walk_node J b v (p @ [Key (key_text k)]) = Inr l1"
    "walk_items J b d p = Inr l2" "ls = key_location k p None # l1 @ l2" by (auto simp: rbind3)
  show ?case
  proof (cases "k = PStr kk")
    case True
    with 9(4) have "x = v" by simp
    with 9(1) [OF l(1) 9(5) [unfolded this]] True l(3) show ?thesis
      by (simp add: covered_at_Cons covered_at_append)
  next
    case False
    with 9(4) have "map_of d (PStr kk) = Some x" by (auto split: if_splits)
    from 9(2) [OF l(2) this 9(5)] l(3) show ?thesis by (simp add: covered_at_Cons covered_at_append)
  qed
next
  case (11 J b i x xs p)
  from 11(3) obtain l1 l2 where l: "walk_node J b x (p @ [Idx i]) = Inr l1"
    "walk_list J b (Suc i) xs p = Inr l2" "ls = l1 @ l2" by (auto simp: rbind3)
  show ?case
  proof (cases n)
    case 0
    with 11(1) [OF l(1), of q s] 11(5) l(3) show ?thesis by (simp add: covered_at_append)
  next
    case (Suc m)
    with 11(2) [OF l(2), of m q s] 11(4,5) l(3) show ?thesis by (simp add: covered_at_append)
  qed
qed auto


subsection \<open>Replacing a leaf\<close>

lemma value_at_Cons: "value_at v (e # q) = Option.bind (value_at v [e]) (\<lambda>x. value_at x q)"
proof (cases v)
  case (PList xs)
  then show ?thesis by (cases e) (auto split: option.splits)
next
  case (PDict d)
  then show ?thesis by (cases e) (auto split: option.splits simp: Option.bind_assoc)
qed simp_all

lemma item_at_value: "value_at v [e] = Some w \<Longrightarrow> item_at v e = Inr w"
proof (cases v)
  assume a: "value_at v [e] = Some w"
  show ?thesis if "v = PList xs" for xs using a that by (cases e) (auto split: if_splits)
  show ?thesis if "v = PDict d" for d using a that by (cases e) (auto simp: bind_eq_Some_conv)
qed simp_all

lemma set_item_value:
  assumes "value_at v [e] = Some w"
  shows "\<exists>v'. set_item v e y = Inr v' \<and> value_at v' [e] = Some y \<and> (\<forall>e'. e' \<noteq> e \<longrightarrow> value_at v' [e'] = value_at v [e'])
     \<and> (\<forall>s. v \<noteq> PStr s)"
proof (cases v)
  case (PList xs)
  with assms obtain i where e: "e = Idx i" "i < length xs" by (cases e) (auto split: if_splits)
  have "value_at (PList (xs[i := y])) [e'] = value_at (PList xs) [e']" if "e' \<noteq> e" for e'
    using that e by (cases e') auto
  with PList e show ?thesis by auto
next
  case (PDict d)
  with assms obtain k where e: "e = Key k" by (cases e) auto
  have "value_at (PDict (AList.update (PStr k) y d)) [e'] = value_at (PDict d) [e']" if "e' \<noteq> e" for e'
    using that e by (cases e') auto
  with PDict e show ?thesis by auto
qed (use assms in simp_all)

definition only_changed :: "path \<Rightarrow> pyval \<Rightarrow> pyval \<Rightarrow> pyval \<Rightarrow> bool" where
  \<comment> \<open>\<open>y\<close> stands at \<open>p\<close>, every other string where it was\<close>
  "only_changed p y v v' \<longleftrightarrow> value_at v' p = Some y
     \<and> (\<forall>q u. q \<noteq> p \<longrightarrow> value_at v q = Some (PStr u) \<longrightarrow> value_at v' q = Some (PStr u))"

lemma update_at_leaf:
  assumes "value_at v p = Some (PStr s)" and "p \<noteq> []"
    and "\<And>c k. value_at c [k] = Some (PStr s) \<Longrightarrow> f c k = set_item c k y"
  shows "\<exists>v'. update_at v p f = Inr v' \<and> only_changed p y v v'"
  using assms
proof (induction v p f rule: update_at.induct)
  case (2 v e f)
  from set_item_value [OF 2(1)] obtain v' where
    v': "set_item v e y = Inr v'" "value_at v' [e] = Some y" "\<forall>e'. e' \<noteq> e \<longrightarrow> value_at v' [e'] = value_at v [e']"
    and v: "\<forall>s. v \<noteq> PStr s" by blast
  have "value_at v' q = Some (PStr u)" if q: "q \<noteq> [e]" "value_at v q = Some (PStr u)" for q u
  proof (cases q)
    case Nil
    with q(2) v show ?thesis by simp
  next
    case (Cons e' q')
    show ?thesis
    proof (cases "e' = e")
      case True
      with Cons q(1) obtain e'' q'' where "q' = e'' # q''" by (cases q') auto
      with q(2) Cons True 2(1) show ?thesis by (simp add: value_at_Cons [of v e "e'' # q''"])
    next
      case False
      with q(2) Cons v'(3) show ?thesis
        by (simp add: value_at_Cons [of v e' q'] value_at_Cons [of v' e' q'])
    qed
  qed
  with v' 2(3) [OF 2(1)] show ?case by (auto simp: only_changed_def)
next
  case (3 v e e1 es f)
  from 3(2) obtain w where w: "value_at v [e] = Some w" "value_at w (e1 # es) = Some (PStr s)"
    by (subst (asm) value_at_Cons) (auto simp: bind_eq_Some_conv)
  from 3(1) [OF w(2) _ 3(4)] obtain w' where
    w': "update_at w (e1 # es) f = Inr w'" "only_changed (e1 # es) y w w'" by auto
  from set_item_value [OF w(1), of w'] obtain v' where
    v': "set_item v e w' = Inr v'" "value_at v' [e] = Some w'" "\<forall>e'. e' \<noteq> e \<longrightarrow> value_at v' [e'] = value_at v [e']"
    and v: "\<forall>s. v \<noteq> PStr s" by blast
  have "value_at v' q = Some (PStr u)" if q: "q \<noteq> e # e1 # es" "value_at v q = Some (PStr u)" for q u
  proof (cases q)
    case Nil
    with q(2) v show ?thesis by simp
  next
    case (Cons e' q')
    show ?thesis
    proof (cases "e' = e")
      case True
      with q(2) Cons w(1) have "value_at w q' = Some (PStr u)" by (simp add: value_at_Cons [of v e q'])
      moreover from q(1) Cons True have "q' \<noteq> e1 # es" by simp
      ultimately have "value_at w' q' = Some (PStr u)" using w'(2) by (simp add: only_changed_def)
      with Cons True v'(2) show ?thesis by (simp add: value_at_Cons [of v' e q'])
    next
      case False
      with q(2) Cons v'(3) show ?thesis
        by (simp add: value_at_Cons [of v e' q'] value_at_Cons [of v' e' q'])
    qed
  qed
  moreover from w'(2) v'(2) have "value_at v' (e # e1 # es) = Some y"
    by (simp add: value_at_Cons [of v' e "e1 # es"] only_changed_def)
  moreover have "update_at v (e # e1 # es) f = Inr v'"
    using item_at_value [OF w(1)] w'(1) v'(1) by simp
  ultimately show ?case by (auto simp: only_changed_def)
qed simp

text \<open>Decoding what was encoded.\<close>

fun unique_keys :: "pyval \<Rightarrow> bool" and unique_list :: "pyval list \<Rightarrow> bool" and unique_pairs :: "pydict \<Rightarrow> bool" where
  "unique_keys (PList xs) \<longleftrightarrow> unique_list xs"
| "unique_keys (PDict d) \<longleftrightarrow> distinct (map fst d) \<and> unique_pairs d"
| "unique_keys _ \<longleftrightarrow> True"
| "unique_list [] \<longleftrightarrow> True"
| "unique_list (x # xs) \<longleftrightarrow> unique_keys x \<and> unique_list xs"
| "unique_pairs [] \<longleftrightarrow> True"
| "unique_pairs ((k, v) # d) \<longleftrightarrow> py_unstr k \<noteq> None \<and> unique_keys v \<and> unique_pairs d"

lemma raw_pairs_keys: "unique_pairs d \<Longrightarrow> map fst (raw_pairs d) = map (key_text \<circ> fst) d"
  by (induction d) auto

lemma distinct_key_text: "unique_pairs d \<Longrightarrow> distinct (map fst d) \<Longrightarrow> distinct (map (key_text \<circ> fst) d)"
proof -
  have k: "\<forall>k \<in> fst ` set d. py_unstr k \<noteq> None" if "unique_pairs d" for d using that by (induction d) force+
  assume u: "unique_pairs d" "distinct (map fst d)"
  have "inj_on key_text (fst ` set d)"
  proof (rule inj_onI)
    fix a b assume ab: "a \<in> fst ` set d" "b \<in> fst ` set d" "key_text a = key_text b"
    from bspec [OF k [OF u(1)] ab(1)] bspec [OF k [OF u(1)] ab(2)] obtain s t where "a = PStr s" "b = PStr t"
      by auto
    with ab(3) show "a = b" by simp
  qed
  with u(2) show ?thesis by (simp add: distinct_map comp_inj_on)
qed

lemma hooked_raw_of:
  "unique_keys v \<Longrightarrow> hooked (raw_of v) = Some v"
  "unique_list xs \<Longrightarrow> hooked_list (raw_list xs) = Some xs"
  "unique_pairs d \<Longrightarrow> hooked_pairs (raw_pairs d) = Some d"
proof (induction v and xs and d rule: unique_keys_unique_list_unique_pairs.induct)
  case (2 d)
  then show ?case using raw_pairs_keys [of d] distinct_key_text [of d] by simp
qed auto

text \<open>A new string keeps a value encodable and its keys distinct.\<close>

lemma clean_pairs_update: "clean_pairs shw n d \<Longrightarrow> json_clean shw n y \<Longrightarrow> clean_pairs shw n (AList.update (PStr k) y d)"
  by (induction d) auto

lemma clean_list_update: "clean_list shw n xs \<Longrightarrow> json_clean shw n y \<Longrightarrow> clean_list shw n (xs[i := y])"
  by (induction xs arbitrary: i) (auto split: nat.splits)

lemma clean_list_nth: "clean_list shw n xs \<Longrightarrow> i < length xs \<Longrightarrow> json_clean shw n (xs ! i)"
  by (induction xs arbitrary: i) (auto simp: nth_Cons split: nat.splits)

lemma clean_pairs_lookup: "clean_pairs shw n d \<Longrightarrow> map_of d k = Some v \<Longrightarrow> json_clean shw n v"
  by (induction d) (auto split: if_splits)

lemma unique_pairs_update: "unique_pairs d \<Longrightarrow> unique_keys y \<Longrightarrow> unique_pairs (AList.update (PStr k) y d)"
  by (induction d) auto

lemma unique_list_update: "unique_list xs \<Longrightarrow> unique_keys y \<Longrightarrow> unique_list (xs[i := y])"
  by (induction xs arbitrary: i) (auto split: nat.splits)

lemma unique_list_nth: "unique_list xs \<Longrightarrow> i < length xs \<Longrightarrow> unique_keys (xs ! i)"
  by (induction xs arbitrary: i) (auto simp: nth_Cons split: nat.splits)

lemma unique_pairs_lookup: "unique_pairs d \<Longrightarrow> map_of d k = Some v \<Longrightarrow> unique_keys v"
  by (induction d) (auto split: if_splits)

definition sound :: "(rat \<Rightarrow> ustr) \<Rightarrow> nat \<Rightarrow> pyval \<Rightarrow> bool" where
  "sound shw n v \<longleftrightarrow> json_clean shw n v \<and> unique_keys v"

lemma sound_child: "sound shw n v \<Longrightarrow> value_at v [e] = Some w \<Longrightarrow> sound shw (n - 1) w"
  by (cases v; cases e)
    (auto simp: sound_def bind_eq_Some_conv split: if_splits
      intro: clean_list_nth clean_pairs_lookup unique_list_nth unique_pairs_lookup)

lemma sound_set_item:
  assumes "sound shw n v" "value_at v [e] = Some w" "sound shw (n - 1) y" "set_item v e y = Inr v'"
  shows "sound shw n v'"
  using assms
  by (cases v; cases e)
    (auto simp: sound_def distinct_update split: if_splits
      intro: clean_list_update clean_pairs_update unique_list_update unique_pairs_update)

lemma sound_update_at:
  "update_at v p (\<lambda>c k. set_item c k (PStr t)) = Inr v' \<Longrightarrow> value_at v p = Some (PStr s) \<Longrightarrow> sound shw n v
     \<Longrightarrow> sound shw n v'"
proof (induction v p "\<lambda>c k. set_item c k (PStr t)" arbitrary: v' n rule: update_at.induct)
  case (2 v e)
  have "sound shw (n - 1) (PStr t)" by (simp add: sound_def)
  from sound_set_item [OF 2(3,2) this] 2(1) show ?case by simp
next
  case (3 v e e1 es)
  from 3(3) obtain w where w: "value_at v [e] = Some w" "value_at w (e1 # es) = Some (PStr s)"
    by (subst (asm) value_at_Cons) (auto simp: bind_eq_Some_conv)
  from 3(2) item_at_value [OF w(1)] obtain w' where w': "update_at w (e1 # es) (\<lambda>c k. set_item c k (PStr t)) = Inr w'"
    "set_item v e w' = Inr v'" by (auto simp: rbind_eq_Inr)
  have "sound shw (n - 1) w'" using 3(1) [OF w'(1) w(2)] sound_child [OF 3(4) w(1)] by blast
  with sound_set_item [OF 3(4) w(1) _ w'(2)] show ?case by blast
qed simp

lemma unique_hooked:
  "hooked r = Some v \<Longrightarrow> unique_keys v"
  "hooked_list rs = Some vs \<Longrightarrow> unique_list vs"
  "hooked_pairs ps = Some d \<Longrightarrow> unique_pairs d \<and> map fst d = map (PStr \<circ> fst) ps"
proof (induction r and rs and ps arbitrary: v and vs and d rule: hooked_hooked_list_hooked_pairs.induct)
  case (8 ps)
  then show ?case by (auto simp: distinct_map inj_on_def split: if_splits)
qed (auto split: option.splits)

lemma loads_text_unique: "loads_text J s = Inr v \<Longrightarrow> unique_keys v"
  by (auto simp: loads_text_def rbind_eq_Inr bind_eq_Some_conv dest: unique_hooked(1)
      split: if_splits option.splits Option.bind_splits)

text \<open>
  Replacing the text of a content location puts the new text exactly there and changes no other
  string of the payload.
\<close>

theorem replace_changes_one_leaf:
  assumes "\<not> lo_structural l" and "lo_json l = None" and "lo_path l \<noteq> []"
    and "value_at payload (lo_path l) = Some (PStr (lo_text l))"
  shows "\<exists>payload'. replace_location J payload l t = Inr payload' \<and> only_changed (lo_path l) (PStr t) payload payload'"
proof (cases "t = lo_text l")
  case True
  with assms show ?thesis by (auto simp: replace_location_def only_changed_def)
next
  case False
  from update_at_leaf [OF assms(4,3), of "\<lambda>c k. set_item c k (PStr t)" "PStr t"] False assms(1,2)
  show ?thesis by (auto simp: replace_location_def)
qed

text \<open>
  Replacing a string inside an encoded argument leaves a valid encoding: the argument still decodes,
  to the same value with the new text exactly at its place, and no other string of the payload changes.
\<close>

theorem replace_keeps_encoding:
  assumes "\<not> lo_structural l" and "lo_json l = Some j" and "lo_path l \<noteq> []" and "j \<noteq> []"
    and "value_at payload (lo_path l) = Some (PStr s)" and "loads_text J s = Inr decoded"
    and "value_at decoded j = Some (PStr (lo_text l))" and "t \<noteq> lo_text l"
    and "json_clean (jl_repr J) (jl_nest J) decoded"
  shows "\<exists>payload' s' changed. replace_location J payload l t = Inr payload'
     \<and> only_changed (lo_path l) (PStr s') payload payload'
     \<and> Option.bind (json_parse (jl_nest J) s') hooked = Some changed \<and> only_changed j (PStr t) decoded changed"
proof -
  from update_at_leaf [OF assms(7,4), of "\<lambda>c k. set_item c k (PStr t)" "PStr t"] obtain changed where
    c: "update_at decoded j (\<lambda>c k. set_item c k (PStr t)) = Inr changed" "only_changed j (PStr t) decoded changed"
    by blast
  have "sound (jl_repr J) (jl_nest J) changed"
    by (rule sound_update_at [OF c(1) assms(7)]) (simp add: sound_def assms(9) loads_text_unique [OF assms(6)])
  then have ok: "json_clean (jl_repr J) (jl_nest J) changed" "unique_keys changed" by (simp_all add: sound_def)
  from json_roundtrip [OF ok(1)] obtain s' where
    s': "json_dumps (jl_repr J) changed = Inr s'" "json_parse (jl_nest J) s' = Some (raw_of changed)" by blast
  have f: "replace_encoded J j t d k = set_item d k (PStr s')" if "value_at d [k] = Some (PStr s)" for d k
    using item_at_value [OF that] assms(4,6) c(1) s'(1) by (simp add: replace_encoded_def)
  from update_at_leaf [OF assms(5,3) f] obtain payload' where
    "update_at payload (lo_path l) (replace_encoded J j t) = Inr payload'"
    "only_changed (lo_path l) (PStr s') payload payload'" by blast
  moreover have "Option.bind (json_parse (jl_nest J) s') hooked = Some changed"
    using s'(2) hooked_raw_of(1) [OF ok(2)] by simp
  ultimately show ?thesis using assms(1,2,8) c(2) by (auto simp: replace_location_def)
qed

subsection \<open>A concrete request\<close>

definition sample_json :: json_lib where
  "sample_json = \<lparr>jl_nest = 32, jl_repr = (\<lambda>_. []), jl_decimal = (\<lambda>_. [])\<rparr>"

definition sample_arguments :: pyval where "sample_arguments = PDict [(PStr [97], PStr [120])]"

definition encoded_arguments :: ustr where "encoded_arguments = [123, 34, 97, 34, 58, 34, 120, 34, 125]"

definition agent_payload :: pydict where
  "agent_payload = [(PStr (lit ''text''), PStr [121]), (PStr (lit ''arguments''), PStr encoded_arguments)]"

definition agent_builder :: builder where
  "agent_builder = builder_init\<lparr>lb_content := {[Key (lit ''text'')]}, lb_json := [([Key (lit ''arguments'')], sample_arguments)]\<rparr>"

definition text_location :: location where
  "text_location = \<lparr>lo_path = [Key (lit ''text'')], lo_text = [121], lo_structural = False, lo_json = None\<rparr>"

definition argument_location :: location where
  "argument_location = \<lparr>lo_path = [Key (lit ''arguments'')], lo_text = [120], lo_structural = False, lo_json = Some [Key [97]]\<rparr>"

lemma sample_clean: "json_clean (jl_repr sample_json) (jl_nest sample_json) sample_arguments"
  by (simp add: sample_json_def sample_arguments_def)

lemma sample_dumps_eq: "json_dumps (jl_repr sample_json) sample_arguments = Inr encoded_arguments"
  by (simp add: sample_arguments_def encoded_arguments_def dumps_key_def quoted_def escape_def)

lemma sample_loads: "loads_text sample_json encoded_arguments = Inr sample_arguments"
proof -
  from json_roundtrip [OF sample_clean] sample_dumps_eq
  have "json_parse (jl_nest sample_json) encoded_arguments = Some (raw_of sample_arguments)" by auto
  moreover have "bounded_json sample_arguments = Inr ()"
    unfolding bounded_json_def bounded_loop_Inr
    by (simp add: sample_arguments_def json_ok.simps [of 0] is_str_def is_surrogate_def MAX_DEPTH_def MAX_COLLECTION_def)
  ultimately show ?thesis
    by (simp add: loads_text_def sample_arguments_def)
      (simp add: encoded_arguments_def is_surrogate_def utf8_def utf8_cp_def MAX_JSON_BYTES_def)
qed


theorem replace_changes_one_leaf_witness:
  "\<exists>payload'. replace_location sample_json (PDict agent_payload) text_location [122] = Inr payload'
     \<and> only_changed [Key (lit ''text'')] (PStr [122]) (PDict agent_payload) payload'"
  using replace_changes_one_leaf [of text_location "PDict agent_payload" sample_json "[122]"]
  by (simp add: text_location_def agent_payload_def)

theorem replace_keeps_encoding_witness:
  "\<exists>payload' s' changed. replace_location sample_json (PDict agent_payload) argument_location [122] = Inr payload'
     \<and> only_changed [Key (lit ''arguments'')] (PStr s') (PDict agent_payload) payload'
     \<and> Option.bind (json_parse (jl_nest sample_json) s') hooked = Some changed
     \<and> only_changed [Key [97]] (PStr [122]) sample_arguments changed"
  using replace_keeps_encoding [of argument_location "[Key [97]]" "PDict agent_payload" encoded_arguments sample_json
      sample_arguments "[122]"] sample_loads sample_clean
  by (simp add: argument_location_def agent_payload_def) (simp add: sample_arguments_def)

end
