(* ===== verification/Sse.thy ===== *)
theory Sse
  imports ProtocolFacts
begin

text \<open>
  The bounded parser of server-sent events and the encoder, \<^verbatim>\<open>gateway/streaming/sse.py\<close>.  The parser is a
  generator: a run yields events and ends normally or with an exception, so its result is the list of
  the events yielded and the exception, if any.  Its local variables are the record \<open>sse\<close>; the incremental UTF-8
  decoder keeps the bytes \<open>pend\<close> of an unfinished character.
\<close>

definition MAX_EVENT_BYTES :: nat where "MAX_EVENT_BYTES = 1024 * 1024"

definition invalid_stream :: exn where "invalid_stream = StreamProtocolError ''invalid_provider_stream''"

record sse_event =
  se_event :: "ustr option"
  se_data :: ustr
  se_heartbeat :: bool

definition json_object :: "json_lib \<Rightarrow> ustr \<Rightarrow> pydict res" where
  "json_object J data =
     (case Option.bind (json_parse (jl_nest J) data) hooked of
        Some (PDict d) \<Rightarrow> (case bounded_json (PDict d) of Inr _ \<Rightarrow> Inr d | Inl _ \<Rightarrow> Inl invalid_stream)
      | _ \<Rightarrow> Inl invalid_stream)"

record sse =
  ps_line :: ustr
  ps_data :: "ustr list"
  ps_event :: "ustr option"
  ps_bytes :: nat
  ps_seen :: bool
  ps_skip_lf :: bool

definition sse_init :: sse where
  "sse_init = \<lparr>ps_line = [], ps_data = [], ps_event = None, ps_bytes = 0, ps_seen = False, ps_skip_lf = False\<rparr>"

definition sse_field :: "ustr \<Rightarrow> ustr \<times> ustr" where
  \<comment> \<open>field and value of a line; one space after the colon belongs to neither\<close>
  "sse_field current =
     (let (field, sep, v) = partition_on 58 current
      in (field, if sep \<and> starts_with v [32] then tl v else v))"

definition take_line :: "sse \<Rightarrow> sse_event option res \<times> sse" where
  "take_line st0 =
     (let current = ps_line st0; st = st0\<lparr>ps_line := []\<rparr>
      in if current = []
         then (if ps_seen st \<and> ps_event st \<noteq> None \<and> ps_data st = [] then (Inl invalid_stream, st)
               else (Inr (if ps_seen st
                          then Some \<lparr>se_event = ps_event st, se_data = py_join [10] (ps_data st),
                                     se_heartbeat = (ps_data st = [] \<and> ps_event st = None)\<rparr>
                          else None),
                     st\<lparr>ps_data := [], ps_event := None, ps_bytes := 0, ps_seen := False\<rparr>))
         else let st1 = st\<lparr>ps_seen := True\<rparr>
         in if starts_with current [58] then (Inr None, st1)
         else let (field, v) = sse_field current
         in if field = lit ''data'' then (Inr None, st1\<lparr>ps_data := ps_data st1 @ [v]\<rparr>)
         else if field = lit ''event'' \<and> ps_event st1 = None \<and> v \<noteq> [] then (Inr None, st1\<lparr>ps_event := Some v\<rparr>)
         else (Inl invalid_stream, st1))"

definition char_cost :: "cp \<Rightarrow> nat" where
  "char_cost c = (if c = 13 then 2 else length (utf8_cp c))"

definition sse_char :: "nat \<Rightarrow> cp \<Rightarrow> sse \<Rightarrow> sse_event option res \<times> sse" where
  "sse_char limit c st =
     (if ps_skip_lf st \<and> c = 10 then (Inr None, st\<lparr>ps_skip_lf := False\<rparr>)
      else let st1 = st\<lparr>ps_skip_lf := False, ps_bytes := ps_bytes st + char_cost c\<rparr>
      in if limit < ps_bytes st1 then (Inl (StreamProtocolError ''provider_event_too_large''), st1)
      else if c = 13 \<or> c = 10 then take_line (st1\<lparr>ps_skip_lf := (c = 13)\<rparr>)
      else (Inr None, st1\<lparr>ps_line := ps_line st1 @ [c]\<rparr>))"

fun sse_chars :: "nat \<Rightarrow> ustr \<Rightarrow> sse \<Rightarrow> sse_event list \<times> exn option \<times> sse" where
  "sse_chars limit [] st = ([], None, st)"
| "sse_chars limit (c # cs) st =
     (case sse_char limit c st of
        (Inl e, st') \<Rightarrow> ([], Some e, st')
      | (Inr y, st') \<Rightarrow>
          (case sse_chars limit cs st' of (evs, r) \<Rightarrow> ((case y of Some ev \<Rightarrow> [ev] | None \<Rightarrow> []) @ evs, r)))"

fun sse_slices :: "nat \<Rightarrow> bytes list \<Rightarrow> bytes \<Rightarrow> sse \<Rightarrow> sse_event list \<times> exn option \<times> bytes \<times> sse" where
  "sse_slices limit [] pend st = ([], None, pend, st)"
| "sse_slices limit (b # bs) pend st =
     (case utf8_run pend b of
        None \<Rightarrow> ([], Some invalid_stream, pend, st)
      | Some (cs, pend') \<Rightarrow>
          (case sse_chars limit cs st of
             (evs, Some e, st') \<Rightarrow> (evs, Some e, pend', st')
           | (evs, None, st') \<Rightarrow> (case sse_slices limit bs pend' st' of (evs', r) \<Rightarrow> (evs @ evs', r))))"

text \<open>A chunk is decoded in slices of 8192 bytes.\<close>

function slices :: "bytes \<Rightarrow> bytes list" where
  "slices b = (if b = [] then [] else take 8192 b # slices (drop 8192 b))"
  by pat_completeness auto
termination by (relation "measure length") auto

declare slices.simps [simp del]

definition sse_end :: "bytes \<Rightarrow> sse \<Rightarrow> exn option" where
  "sse_end pend st =
     (if pend \<noteq> [] then Some invalid_stream
      else if ps_line st \<noteq> [] \<or> ps_seen st \<or> ps_data st \<noteq> [] \<or> ps_event st \<noteq> None
      then Some (StreamProtocolError ''truncated_provider_stream'') else None)"

definition parse_sse :: "int \<Rightarrow> bytes list \<Rightarrow> sse_event list \<times> exn option" where
  "parse_sse limit chunks =
     (if limit < 1 then ([], Some ValueError)
      else case sse_slices (nat limit) (concat (map slices chunks)) [] sse_init of
        (evs, Some e, _) \<Rightarrow> (evs, Some e)
      | (evs, None, pend, st) \<Rightarrow> (evs, sse_end pend st))"

definition event_text :: "ustr option \<Rightarrow> ustr \<Rightarrow> ustr" where
  "event_text event data =
     (case event of Some e \<Rightarrow> lit ''event: '' @ e @ [10] | None \<Rightarrow> []) @ lit ''data: '' @ data @ [10, 10]"

definition encode_event :: "json_lib \<Rightarrow> pydict \<Rightarrow> ustr option \<Rightarrow> bytes res" where
  "encode_event J payload event =
     rbind (json_dumps (jl_repr J) (PDict payload)) (\<lambda>data.
     let t = event_text event data
     in if list_ex is_surrogate t then Inl UnicodeError else Inr (utf8 t))"

subsection \<open>Cuts between chunks do not matter\<close>

lemma concat_slices: "concat (slices b) = b"
  by (induction b rule: slices.induct) (subst slices.simps, auto)

lemma sse_chars_append:
  "sse_chars limit (a @ b) st =
     (case sse_chars limit a st of
        (evs, Some e, st') \<Rightarrow> (evs, Some e, st')
      | (evs, None, st') \<Rightarrow> (case sse_chars limit b st' of (evs', r) \<Rightarrow> (evs @ evs', r)))"
  by (induction a arbitrary: st) (auto split: prod.splits sum.splits option.splits)

lemma sse_slices_decoded:
  "utf8_run pend (concat bs) = Some (cs, q) \<Longrightarrow> sse_chars limit cs st = (evs, r, st')
     \<Longrightarrow> \<exists>p s. sse_slices limit bs pend st = (evs, r, p, s) \<and> (r = None \<longrightarrow> p = q \<and> s = st')"
proof (induction bs arbitrary: pend st cs evs r st')
  case (Cons b bs)
  from Cons.prems(1) obtain c1 p1 c2 where u: "utf8_run pend b = Some (c1, p1)"
    "utf8_run p1 (concat bs) = Some (c2, q)" "cs = c1 @ c2"
    by (auto simp: utf8_run_append split: option.splits prod.splits)
  obtain e1 r1 s1 where one: "sse_chars limit c1 st = (e1, r1, s1)" by (metis prod_cases3)
  show ?case
  proof (cases r1)
    case (Some e)
    with Cons.prems(2) one u show ?thesis by (auto simp: sse_chars_append)
  next
    case None
    obtain e2 r2 s2 where two: "sse_chars limit c2 s1 = (e2, r2, s2)" by (metis prod_cases3)
    from Cons.prems(2) one None two u(3) have "evs = e1 @ e2" "r = r2" "st' = s2" by (auto simp: sse_chars_append)
    moreover from Cons.IH [OF u(2) two] obtain p s where
      "sse_slices limit bs p1 s1 = (e2, r2, p, s)" "r2 = None \<longrightarrow> p = q \<and> s = s2"
      using calculation by blast
    ultimately show ?thesis using u one None by auto
  qed
qed auto

lemma concat_slices_chunks: "concat (concat (map slices chunks)) = concat chunks"
  by (induction chunks) (simp_all add: concat_slices)

lemma parse_sse_decoded:
  assumes "1 \<le> limit" and "utf8_run [] (concat chunks) = Some (cs, q)"
  shows "parse_sse limit chunks = (case sse_chars (nat limit) cs sse_init of
       (evs, Some e, _) \<Rightarrow> (evs, Some e) | (evs, None, st) \<Rightarrow> (evs, sse_end q st))"
proof -
  obtain evs r st where c: "sse_chars (nat limit) cs sse_init = (evs, r, st)" by (metis prod_cases3)
  have u: "utf8_run [] (concat (concat (map slices chunks))) = Some (cs, q)" using assms(2) by (simp add: concat_slices_chunks)
  from sse_slices_decoded [OF u c] c assms(1) show ?thesis
    by (cases r) (auto simp: parse_sse_def)
qed

text \<open>A stream that is not UTF-8 ends with an exception.\<close>

lemma sse_slices_undecoded:
  "utf8_run pend (concat bs) = None \<Longrightarrow> fst (snd (sse_slices limit bs pend st)) \<noteq> None"
proof (induction bs arbitrary: pend st)
  case (Cons b bs)
  show ?case
  proof (cases "utf8_run pend b")
    case (Some r)
    obtain c1 p1 where r: "r = (c1, p1)" by (cases r)
    with Cons.prems Some have "utf8_run p1 (concat bs) = None" by (simp add: utf8_run_append)
    moreover obtain e1 r1 s1 where "sse_chars limit c1 st = (e1, r1, s1)" by (metis prod_cases3)
    moreover obtain e2 r2 z where "sse_slices limit bs p1 s1 = (e2, r2, z)" by (metis prod_cases3)
    ultimately show ?thesis using Cons.IH [of p1 s1] Some r by (cases r1) auto
  qed simp
qed simp

text \<open>
  C26: What a stream parses to does not depend on how the network cut it into chunks: two deliveries of
  the same bytes yield the same events and end the same way, and bytes that are not UTF-8 always end
  with an exception.
\<close>

theorem sse_chunking_irrelevant:
  assumes "concat chunks = concat chunks'"
  shows "if utf8_run [] (concat chunks) = None
     then snd (parse_sse limit chunks) \<noteq> None \<and> snd (parse_sse limit chunks') \<noteq> None
     else parse_sse limit chunks = parse_sse limit chunks'"
proof (cases "1 \<le> limit")
  case True
  show ?thesis
  proof (cases "utf8_run [] (concat chunks)")
    case None
    have "snd (parse_sse limit c) \<noteq> None" if "utf8_run [] (concat c) = None" for c
      using sse_slices_undecoded [of "[]" "concat (map slices c)" "nat limit" sse_init] that True
      by (auto simp: parse_sse_def concat_slices_chunks split: prod.splits option.splits)
    with None assms show ?thesis by simp
  next
    case (Some r)
    obtain cs q where "r = (cs, q)" by (cases r)
    with Some parse_sse_decoded [OF True, of chunks cs q] parse_sse_decoded [OF True, of chunks' cs q] assms
    show ?thesis by simp
  qed
qed (simp add: parse_sse_def)

subsection \<open>What is encoded parses back\<close>

definition one_line :: "ustr \<Rightarrow> bool" where "one_line s \<longleftrightarrow> 10 \<notin> set s \<and> 13 \<notin> set s"

lemma sse_chars_line:
  "one_line s \<Longrightarrow> \<not> ps_skip_lf st \<Longrightarrow> ps_bytes st + length (utf8 s) \<le> limit \<Longrightarrow>
     sse_chars limit (s @ rest) st
       = sse_chars limit rest (st\<lparr>ps_line := ps_line st @ s, ps_bytes := ps_bytes st + length (utf8 s)\<rparr>)"
proof (induction s arbitrary: st)
  case (Cons c s)
  from Cons.prems have c: "c \<noteq> 10" "c \<noteq> 13" "one_line s"
    and b: "ps_bytes st + length (utf8_cp c) + length (utf8 s) \<le> limit"
    by (auto simp: one_line_def utf8_Cons)
  define st1 where "st1 = st\<lparr>ps_line := ps_line st @ [c], ps_bytes := ps_bytes st + length (utf8_cp c)\<rparr>"
  have "sse_char limit c st = (Inr None, st1)"
    using c b Cons.prems(2) by (simp add: sse_char_def char_cost_def st1_def)
  moreover have "sse_chars limit (s @ rest) st1
      = sse_chars limit rest (st1\<lparr>ps_line := ps_line st1 @ s, ps_bytes := ps_bytes st1 + length (utf8 s)\<rparr>)"
    by (rule Cons.IH [OF c(3)]) (use Cons.prems(2) b in \<open>simp_all add: st1_def\<close>)
  ultimately show ?case
    by (simp add: st1_def utf8_Cons add.assoc split: prod.splits)
qed simp

lemma newline_cost: "char_cost 10 = 1" "length (utf8_cp 10) = 1"
  by (simp_all add: char_cost_def utf8_cp_def)

lemma sse_chars_newline:
  assumes "\<not> ps_skip_lf st" "ps_bytes st + 1 \<le> limit"
    and "take_line (st\<lparr>ps_bytes := ps_bytes st + 1\<rparr>) = (Inr y, st')"
  shows "sse_chars limit (10 # rest) st =
     (case sse_chars limit rest st' of (evs, r) \<Rightarrow> ((case y of Some ev \<Rightarrow> [ev] | None \<Rightarrow> []) @ evs, r))"
proof -
  have same: "st\<lparr>ps_bytes := Suc (ps_bytes st), ps_skip_lf := False\<rparr> = st\<lparr>ps_bytes := Suc (ps_bytes st)\<rparr>"
    using assms(1) by (cases st) simp
  show ?thesis using assms by (simp add: sse_char_def newline_cost same)
qed

lemma sse_field_simps:
  "sse_field (lit ''data: '' @ s) = (lit ''data'', s)" "sse_field (lit ''event: '' @ s) = (lit ''event'', s)"
  by (simp_all add: sse_field_def partition_on_def lit_def of_char_def starts_with_def)

lemma lit_data_event: "lit ''event'' \<noteq> lit ''data''" by simp

definition name_ok :: "ustr option \<Rightarrow> bool" where
  "name_ok event \<longleftrightarrow> (case event of None \<Rightarrow> True | Some e \<Rightarrow> e \<noteq> [] \<and> one_line e)"

lemma data_frame:
  assumes "one_line data" and "\<not> ps_skip_lf st" "ps_line st = []" "ps_data st = []"
    and "ps_bytes st + length (utf8 (lit ''data: '' @ data @ [10, 10])) \<le> limit"
  shows "sse_chars limit (lit ''data: '' @ data @ 10 # 10 # rest) st =
     (case sse_chars limit rest (st\<lparr>ps_bytes := 0, ps_line := [], ps_data := [], ps_event := None, ps_seen := False\<rparr>) of
        (evs, r) \<Rightarrow> (\<lparr>se_event = ps_event st, se_data = data, se_heartbeat = False\<rparr> # evs, r))"
proof -
  let ?s = "lit ''data: '' @ data"
  define st1 where "st1 = st\<lparr>ps_line := ?s, ps_bytes := ps_bytes st + length (utf8 ?s)\<rparr>"
  define st2 where "st2 = st1\<lparr>ps_bytes := ps_bytes st1 + 1, ps_line := [], ps_seen := True, ps_data := [data]\<rparr>"
  have ol: "one_line ?s" using assms(1) by (auto simp: one_line_def lit_def of_char_def)
  have b: "ps_bytes st + length (utf8 ?s) + 2 \<le> limit" using assms(5) by (simp add: utf8_Cons newline_cost)
  have "sse_chars limit (?s @ 10 # 10 # rest) st = sse_chars limit (10 # 10 # rest) st1"
    using sse_chars_line [OF ol assms(2), of limit "10 # 10 # rest"] b assms(3) by (simp add: st1_def)
  also have "\<dots> = sse_chars limit (10 # rest) st2"
  proof -
    have "?s \<noteq> []" "\<not> starts_with ?s [58]" by (simp_all add: lit_def of_char_def starts_with_def)
    then have "take_line (st1\<lparr>ps_bytes := ps_bytes st1 + 1\<rparr>) = (Inr None, st2)"
      using assms(4) by (simp add: take_line_def st1_def st2_def sse_field_simps)
    with sse_chars_newline [of st1 limit] show ?thesis using assms(2) b by (simp add: st1_def)
  qed
  also have "\<dots> = (case sse_chars limit rest (st2\<lparr>ps_bytes := 0, ps_line := [], ps_data := [], ps_event := None, ps_seen := False\<rparr>) of
      (evs, r) \<Rightarrow> (\<lparr>se_event = ps_event st, se_data = data, se_heartbeat = False\<rparr> # evs, r))"
  proof -
    have "take_line (st2\<lparr>ps_bytes := ps_bytes st2 + 1\<rparr>) =
        (Inr (Some \<lparr>se_event = ps_event st, se_data = data, se_heartbeat = False\<rparr>),
         st2\<lparr>ps_bytes := 0, ps_line := [], ps_data := [], ps_event := None, ps_seen := False\<rparr>)"
      by (simp add: take_line_def st1_def st2_def)
    with sse_chars_newline [of st2 limit] show ?thesis using assms(2) b by (simp add: st1_def st2_def)
  qed
  finally show ?thesis by (simp add: st1_def st2_def)
qed

lemma event_frame:
  assumes "one_line data" "name_ok event" "length (utf8 (event_text event data)) \<le> limit"
  shows "sse_chars limit (event_text event data @ rest) sse_init =
     (case sse_chars limit rest sse_init of
        (evs, r) \<Rightarrow> (\<lparr>se_event = event, se_data = data, se_heartbeat = False\<rparr> # evs, r))"
proof (cases event)
  case None
  with data_frame [OF assms(1), of sse_init limit rest] assms(3) show ?thesis
    by (simp add: event_text_def sse_init_def)
next
  case (Some e)
  let ?s = "lit ''event: '' @ e"
  have ol: "one_line ?s" "e \<noteq> []" using assms(2) Some by (auto simp: name_ok_def one_line_def lit_def of_char_def)
  define st1 where "st1 = sse_init\<lparr>ps_line := ?s, ps_bytes := length (utf8 ?s)\<rparr>"
  define st2 where "st2 = st1\<lparr>ps_bytes := ps_bytes st1 + 1, ps_line := [], ps_seen := True, ps_event := Some e\<rparr>"
  have len: "length (utf8 ?s) + 1 + length (utf8 (lit ''data: '' @ data @ [10, 10])) \<le> limit"
    using assms(3) Some by (simp add: event_text_def utf8_Cons newline_cost)
  have "sse_chars limit (?s @ 10 # lit ''data: '' @ data @ 10 # 10 # rest) sse_init
      = sse_chars limit (10 # lit ''data: '' @ data @ 10 # 10 # rest) st1"
    using sse_chars_line [OF ol(1), of sse_init limit "10 # lit ''data: '' @ data @ 10 # 10 # rest"] len
    by (simp add: st1_def sse_init_def)
  also have "\<dots> = sse_chars limit (lit ''data: '' @ data @ 10 # 10 # rest) st2"
  proof -
    have "?s \<noteq> []" "\<not> starts_with ?s [58]" by (simp_all add: lit_def of_char_def starts_with_def)
    then have "take_line (st1\<lparr>ps_bytes := ps_bytes st1 + 1\<rparr>) = (Inr None, st2)"
      using ol(2) by (simp add: take_line_def st1_def st2_def sse_init_def sse_field_simps)
    with sse_chars_newline [of st1 limit] show ?thesis using len by (simp add: st1_def sse_init_def)
  qed
  also have "\<dots> = (case sse_chars limit rest sse_init of
        (evs, r) \<Rightarrow> (\<lparr>se_event = event, se_data = data, se_heartbeat = False\<rparr> # evs, r))"
    using data_frame [OF assms(1), of st2 limit rest] len Some
    by (simp add: st1_def st2_def sse_init_def)
  finally show ?thesis using Some by (simp add: event_text_def)
qed

lemma frames_parse:
  assumes "\<forall>(event, data) \<in> set fs. one_line data \<and> name_ok event \<and> length (utf8 (event_text event data)) \<le> limit"
  shows "sse_chars limit (concat (map (\<lambda>(event, data). event_text event data) fs)) sse_init
     = (map (\<lambda>(event, data). \<lparr>se_event = event, se_data = data, se_heartbeat = False\<rparr>) fs, None, sse_init)"
  using assms by (induction fs) (auto simp: event_frame)

text \<open>A message: payload, event name, the bytes it is encoded to.\<close>

definition sendable :: "json_lib \<Rightarrow> nat \<Rightarrow> pydict \<times> ustr option \<times> bytes \<Rightarrow> bool" where
  "sendable J limit m \<longleftrightarrow> (case m of (payload, event, b) \<Rightarrow>
     encode_event J payload event = Inr b \<and> length b \<le> limit \<and> name_ok event
     \<and> json_clean (jl_repr J) (jl_nest J) (PDict payload) \<and> unique_keys (PDict payload)
     \<and> bounded_json (PDict payload) = Inr ()
     \<and> (\<forall>t. json_dumps (jl_repr J) (PDict payload) = Inr t \<longrightarrow> list_all (\<lambda>c. c < 0x110000) (event_text event t)))"

definition framed :: "json_lib \<Rightarrow> nat \<Rightarrow> pydict \<times> ustr option \<times> bytes \<Rightarrow> ustr \<Rightarrow> bool" where
  "framed J limit m t \<longleftrightarrow> (case m of (payload, event, b) \<Rightarrow>
     b = utf8 (event_text event t) \<and> list_all scalar (event_text event t) \<and> one_line t \<and> name_ok event
     \<and> length (utf8 (event_text event t)) \<le> limit \<and> json_object J t = Inr payload)"

lemma sendable_frame:
  assumes "sendable J limit m"
  shows "\<exists>t. framed J limit m t"
proof -
  obtain payload event b where m: "m = (payload, event, b)" by (metis prod_cases3)
  from assms have clean: "json_clean (jl_repr J) (jl_nest J) (PDict payload)" "unique_keys (PDict payload)"
    and b: "encode_event J payload event = Inr b" "length b \<le> limit" "name_ok event" "bounded_json (PDict payload) = Inr ()"
    and cp: "\<forall>t. json_dumps (jl_repr J) (PDict payload) = Inr t \<longrightarrow> list_all (\<lambda>c. c < 0x110000) (event_text event t)"
    by (simp_all add: sendable_def m)
  from json_roundtrip [OF clean(1)] obtain t where
    t: "json_dumps (jl_repr J) (PDict payload) = Inr t" "json_parse (jl_nest J) t = Some (raw_of (PDict payload))" by blast
  from b(1) t(1) have u: "b = utf8 (event_text event t)" "\<not> list_ex is_surrogate (event_text event t)"
    by (auto simp: encode_event_def Let_def split: if_splits)
  have "list_all scalar (event_text event t)"
    using u(2) cp t(1) by (auto simp: list_all_iff list_ex_iff is_surrogate_def scalar_def)
  moreover have "one_line t" using dumps_one_line(1) [OF clean(1) t(1)] by (auto simp: one_line_def)
  moreover have "json_object J t = Inr payload"
    using t(2) hooked_raw_of(1) [OF clean(2)] b(4) by (simp add: json_object_def)
  ultimately have "framed J limit m t" using u b by (simp add: framed_def m)
  then show ?thesis ..
qed

lemma messages_read:
  assumes "\<forall>m \<in> set msgs. sendable J (nat limit) m" and "1 \<le> limit"
    and "concat chunks = concat (map (\<lambda>(_, _, b). b) msgs)"
  shows "\<exists>events. parse_sse limit chunks = (events, None)
     \<and> list_all2 (\<lambda>(payload, event, _) e. se_event e = event \<and> \<not> se_heartbeat e \<and> json_object J (se_data e) = Inr payload)
         msgs events"
proof -
  have "\<forall>m \<in> set msgs. \<exists>t. framed J (nat limit) m t"
    using assms(1) sendable_frame by blast
  from bchoice [OF this] obtain f where f: "\<forall>m \<in> set msgs. framed J (nat limit) m (f m)" by blast
  define fs where "fs = map (\<lambda>m. (fst (snd m), f m)) msgs"
  define whole where "whole = concat (map (\<lambda>(event, data). event_text event data) fs)"
  have u: "concat chunks = utf8 whole \<and> list_all scalar whole"
    unfolding assms(3) whole_def fs_def using f by (induction msgs) (auto simp: framed_def)
  have "\<forall>(event, data) \<in> set fs. one_line data \<and> name_ok event \<and> length (utf8 (event_text event data)) \<le> nat limit"
    using f by (auto simp: fs_def framed_def)
  from frames_parse [OF this] parse_sse_decoded [OF assms(2), of chunks whole "[]"] u utf8_run_utf8 [of whole]
  have "parse_sse limit chunks
      = (map (\<lambda>(event, data). \<lparr>se_event = event, se_data = data, se_heartbeat = False\<rparr>) fs, None)"
    by (simp add: whole_def sse_end_def sse_init_def)
  moreover have "list_all2 (\<lambda>(payload, event, _) e. se_event e = event \<and> \<not> se_heartbeat e \<and> json_object J (se_data e) = Inr payload)
      msgs (map (\<lambda>(event, data). \<lparr>se_event = event, se_data = data, se_heartbeat = False\<rparr>) fs)"
    unfolding fs_def map_map list_all2_map2 list_all2_same
  proof
    fix m assume m: "m \<in> set msgs"
    obtain payload event b where "m = (payload, event, b)" by (metis prod_cases3)
    with bspec [OF f m] show "(case m of (payload, event, _) \<Rightarrow> \<lambda>e. se_event e = event \<and> \<not> se_heartbeat e
        \<and> json_object J (se_data e) = Inr payload)
        (((\<lambda>(event, data). \<lparr>se_event = event, se_data = data, se_heartbeat = False\<rparr>) \<circ> (\<lambda>m. (fst (snd m), f m))) m)"
      by (simp add: framed_def)
  qed
  ultimately show ?thesis by blast
qed

text \<open>
  C27: What the gateway encodes as server-sent events is read back by its own parser: however the bytes
  are cut on the way, the stream yields one event per message, in order, each with its name, and the
  decoder returns each payload as it was.
\<close>

theorem sse_roundtrip:
  assumes "\<forall>m \<in> set msgs. sendable J (nat limit) m" and "1 \<le> limit"
    and "concat chunks = concat (map (\<lambda>(_, _, b). b) msgs)"
  shows "\<exists>events. parse_sse limit chunks = (events, None)
     \<and> list_all2 (\<lambda>(payload, event, _) e. se_event e = event \<and> \<not> se_heartbeat e \<and> json_object J (se_data e) = Inr payload)
         msgs events"
  by (rule messages_read [OF assms])

theorem sse_chunking_irrelevant_witness:
  "parse_sse 100 [[58], [10, 10]] = parse_sse 100 [[58, 10], [10]]"
  using sse_chunking_irrelevant [of "[[58], [10, 10]]" "[[58, 10], [10]]" 100]
  by (simp add: utf8_next_def)

definition sample_message :: "pydict \<times> ustr option \<times> bytes" where
  "sample_message = ([(PStr [97], PStr [120])], None, utf8 (event_text None encoded_arguments))"

lemma sample_sendable: "sendable sample_json 100 sample_message"
proof -
  have d: "json_dumps (jl_repr sample_json) (PDict [(PStr [97], PStr [120])]) = Inr encoded_arguments"
    using sample_dumps_eq by (simp add: sample_arguments_def)
  have b: "bounded_json (PDict [(PStr [97], PStr [120])]) = Inr ()"
    using sample_loads by (auto simp: loads_text_def sample_arguments_def rbind_eq_Inr split: if_splits option.splits)
  have t: "event_text None encoded_arguments = [100, 97, 116, 97, 58, 32, 123, 34, 97, 34, 58, 34, 120, 34, 125, 10, 10]"
    by (simp add: event_text_def encoded_arguments_def lit_def of_char_def)
  show ?thesis
    unfolding sendable_def sample_message_def prod.case
    using d b sample_clean
    by (simp add: encode_event_def t name_ok_def sample_arguments_def is_surrogate_def utf8_def utf8_cp_def)
qed

theorem sse_roundtrip_witness:
  "\<exists>events. parse_sse 100 [snd (snd sample_message)] = (events, None)
     \<and> list_all2 (\<lambda>(payload, event, _) e. se_event e = event \<and> \<not> se_heartbeat e
         \<and> json_object sample_json (se_data e) = Inr payload) [sample_message] events"
proof (rule sse_roundtrip)
  show "\<forall>m \<in> set [sample_message]. sendable sample_json (nat 100) m" using sample_sendable by simp
  show "concat [snd (snd sample_message)] = concat (map (\<lambda>(_, _, b). b) [sample_message])"
    by (simp add: split_def)
qed simp

end
