(* ===== verification/Messages.thy ===== *)
theory Messages
  imports ProtocolFacts
begin

text \<open>
  The native Messages contract, \<^verbatim>\<open>gateway/protocols/messages.py\<close>: a request is rebuilt from the fields the
  contract supports, its strings are classified by the builder, and anything else is refused.  An
  operation that uses the builder takes it as its last argument and returns its result with the new one.
\<close>

subsection \<open>Operations with the builder\<close>

type_synonym 'a building = "builder \<Rightarrow> ('a \<times> builder) res"

definition bret :: "'a \<Rightarrow> 'a building" where "bret x b = Inr (x, b)"
definition bbind :: "'a building \<Rightarrow> ('a \<Rightarrow> 'c building) \<Rightarrow> 'c building" where
  "bbind m f b = rbind (m b) (\<lambda>(x, b'). f x b')"
definition blift :: "'a res \<Rightarrow> 'a building" where "blift r b = rbind r (\<lambda>x. Inr (x, b))"

fun each :: "(nat \<Rightarrow> pyval \<Rightarrow> 'a building) \<Rightarrow> nat \<Rightarrow> pyval list \<Rightarrow> 'a list building" where
  \<comment> \<open>\<open>[f(i, x) for i, x in enumerate(xs)]\<close>\<close>
  "each f i [] = bret []"
| "each f i (x # xs) = bbind (f i x) (\<lambda>y. bbind (each f (Suc i) xs) (\<lambda>ys. bret (y # ys)))"

definition field_if :: "pydict \<Rightarrow> string \<Rightarrow> (pyval \<Rightarrow> pyval building) \<Rightarrow> pydict \<Rightarrow> pydict building" where
  \<comment> \<open>\<open>if k in source: result[k] = f(source[k])\<close>\<close>
  "field_if source k f result =
     (case pd_get source k of None \<Rightarrow> bret result | Some v \<Rightarrow> bbind (f v) (\<lambda>x. bret (pd_set k x result)))"

definition text_at :: "pyval \<Rightarrow> path \<Rightarrow> pyval building" where
  "text_at v p = bbind (b_text v p) (\<lambda>s. bret (PStr s))"

abbreviation key :: "string \<Rightarrow> pelem" where "key s \<equiv> Key (lit s)"
abbreviation str :: "string \<Rightarrow> pyval" where "str s \<equiv> PStr (lit s)"

definition get :: "pydict \<Rightarrow> string \<Rightarrow> pyval" where
  \<comment> \<open>a required field\<close>
  "get d k = pd_get_or d k PNone"

definition py_cache_control :: "pyval \<Rightarrow> pyval building" where
  "py_cache_control v = blift (rbind (cache_control v) (\<lambda>d. Inr (PDict d)))"

subsection \<open>Metadata\<close>

definition SUPPORTED_MESSAGES_BETAS :: "string list" where
  "SUPPORTED_MESSAGES_BETAS = [''claude-code-20250219'', ''effort-2025-11-24'', ''interleaved-thinking-2025-05-14'',
     ''context-1m-2025-08-07'', ''extended-cache-ttl-2025-04-11'', ''prompt-caching-2024-07-31'',
     ''token-counting-2024-11-01'', ''token-efficient-tools-2025-02-19'', ''fine-grained-tool-streaming-2025-05-14'']"

definition MESSAGES_FIELDS :: "string list" where
  "MESSAGES_FIELDS = [''model'', ''messages'', ''max_tokens'', ''stream'', ''system'', ''tools'', ''tool_choice'',
     ''temperature'', ''top_p'', ''top_k'', ''stop_sequences'', ''service_tier'', ''thinking'', ''metadata'',
     ''cache_control'', ''output_config'']"

definition OPAQUE_FIELDS :: "string list" where
  "OPAQUE_FIELDS = [''container'', ''mcp_servers'', ''context_management'']"

definition is_hex :: "cp \<Rightarrow> bool" where "is_hex c \<longleftrightarrow> json_hex c \<noteq> None"

definition is_uuid :: "ustr \<Rightarrow> bool" where
  "is_uuid s \<longleftrightarrow> map length (split_on 45 s) = [8, 4, 4, 4, 12] \<and> list_all (list_all is_hex) (split_on 45 s)"

definition opaque_id :: "ustr \<Rightarrow> bool" where
  "opaque_id s \<longleftrightarrow> s \<noteq> [] \<and> length s \<le> 256 \<and> (ascii_alpha (hd s) \<or> ascii_digit (hd s))
     \<and> list_all (\<lambda>c. id_char c \<or> c = 46 \<or> c = 58) (tl s)"

definition msg_metadata :: "json_lib \<Rightarrow> pyval \<Rightarrow> pyval res" where
  \<comment> \<open>the identity is ASCII where it is accepted, so \<open>ensure_ascii\<close> makes no difference\<close>
  "msg_metadata J v =
     rbind (object_fields v [''user_id''] []) (\<lambda>source.
     case pd_get source ''user_id'' of
       None \<Rightarrow> Inr (PDict [])
     | Some u \<Rightarrow>
         rbind (py_string u) (\<lambda>user_id.
         if 512 < length user_id then reject ''invalid_metadata''
         else if starts_with user_id [123]
         then rbind (loads_text J user_id) (\<lambda>decoded.
              rbind (object_fields decoded [''device_id'', ''account_uuid'', ''session_id'']
                       [''device_id'', ''account_uuid'', ''session_id'']) (\<lambda>identity.
              rbind (py_string (get identity ''device_id'')) (\<lambda>device.
              rbind (py_string (get identity ''account_uuid'')) (\<lambda>account.
              rbind (py_string (get identity ''session_id'')) (\<lambda>session.
              if length device \<noteq> 64 \<or> \<not> list_all is_lower_hex device \<or> (account \<noteq> [] \<and> \<not> is_uuid account)
                 \<or> \<not> is_uuid session
              then reject ''invalid_metadata''
              else rbind (json_dumps (jl_repr J) (PDict identity)) (\<lambda>t. Inr (PDict [(str ''user_id'', PStr t)])))))))
         else if \<not> opaque_id user_id then reject ''invalid_metadata''
         else Inr (PDict [(str ''user_id'', PStr user_id)])))"

subsection \<open>Blocks\<close>

definition no_citations :: "pyval \<Rightarrow> pyval building" where
  "no_citations v = blift (rbind (py_array v False) (\<lambda>xs. if xs \<noteq> [] then reject ''uninspectable_field'' else Inr (PList [])))"

definition msg_text :: "pyval \<Rightarrow> path \<Rightarrow> pyval building" where
  "msg_text v p =
     bbind (blift (object_fields v [''type'', ''text'', ''cache_control'', ''citations''] [''type'', ''text''])) (\<lambda>source.
     bbind (blift (py_choice (get source ''type'') [''text''])) (\<lambda>t.
     bbind (text_at (get source ''text'') (p @ [key ''text''])) (\<lambda>s.
     bbind (field_if source ''cache_control'' py_cache_control [(str ''type'', PStr t), (str ''text'', s)]) (\<lambda>r.
     bbind (field_if source ''citations'' no_citations r) (\<lambda>r. bret (PDict r))))))"

definition tool_use_fields :: "pydict \<Rightarrow> pydict \<Rightarrow> path \<Rightarrow> pyval building" where
  "tool_use_fields source d p =
     bbind (blift (py_identifier (get source ''id'') Plain_id)) (\<lambda>i.
     bbind (blift (py_identifier (get source ''name'') Tool_id)) (\<lambda>n.
     bbind (\<lambda>b. Inr (PDict d, json_content False (PDict d) (p @ [key ''input'']) b)) (\<lambda>input.
     bbind (field_if source ''cache_control'' py_cache_control
        [(str ''type'', str ''tool_use''), (str ''id'', PStr i), (str ''name'', PStr n), (str ''input'', input)]) (\<lambda>r.
     bret (PDict r)))))"

definition tool_use_block :: "pyval \<Rightarrow> path \<Rightarrow> pyval building" where
  "tool_use_block v p =
     bbind (blift (object_fields v [''type'', ''id'', ''name'', ''input'', ''cache_control'']
              [''type'', ''id'', ''name'', ''input''])) (\<lambda>source.
     case get source ''input'' of PDict d \<Rightarrow> tool_use_fields source d p | _ \<Rightarrow> blift (reject ''invalid_arguments''))"

definition tool_result_block :: "pyval \<Rightarrow> path \<Rightarrow> pyval building" where
  "tool_result_block v p =
     bbind (blift (object_fields v [''type'', ''tool_use_id'', ''content'', ''is_error'', ''cache_control'']
              [''type'', ''tool_use_id'', ''content''])) (\<lambda>source.
     bbind (blift (py_identifier (get source ''tool_use_id'') Plain_id)) (\<lambda>i.
     bbind (case get source ''content'' of
              PStr s \<Rightarrow> text_at (PStr s) (p @ [key ''content''])
            | c \<Rightarrow> bbind (blift (py_array c False)) (\<lambda>xs.
                   bbind (each (\<lambda>n x. msg_text x (p @ [key ''content'', Idx n])) 0 xs) (\<lambda>ys. bret (PList ys)))) (\<lambda>content.
     bbind (field_if source ''is_error'' (\<lambda>e. blift (rbind (py_boolean e) (\<lambda>x. Inr (PBool x))))
        [(str ''type'', str ''tool_result''), (str ''tool_use_id'', PStr i), (str ''content'', content)]) (\<lambda>r.
     bbind (field_if source ''cache_control'' py_cache_control r) (\<lambda>r. bret (PDict r))))))"

definition msg_block :: "ustr \<Rightarrow> pyval \<Rightarrow> path \<Rightarrow> pyval building" where
  "msg_block role v p =
     (case v of
        PDict d \<Rightarrow>
          (case pd_get_or d ''type'' PNone of
             PStr kind \<Rightarrow>
               if kind = lit ''text'' then msg_text v p
               else if kind = lit ''tool_use'' \<and> role = lit ''assistant'' then tool_use_block v p
               else if kind = lit ''tool_result'' \<and> role = lit ''user'' then tool_result_block v p
               else blift (reject ''uninspectable_field'')
           | _ \<Rightarrow> blift (reject ''invalid_request''))
      | _ \<Rightarrow> blift (reject ''invalid_request''))"

subsection \<open>The replayed history\<close>

text \<open>The identifiers of the calls and of the results seen so far.\<close>

definition block_field :: "pyval \<Rightarrow> string \<Rightarrow> pyval" where
  "block_field v k = (case v of PDict d \<Rightarrow> get d k | _ \<Rightarrow> PNone)"

definition check_block :: "pyval \<Rightarrow> pyval list \<times> pyval list \<Rightarrow> (pyval list \<times> pyval list) res" where
  "check_block v seen =
     (case seen of (calls, results) \<Rightarrow>
      if block_field v ''type'' = str ''tool_use''
      then (if block_field v ''id'' \<in> set calls then reject ''invalid_history''
            else Inr (calls @ [block_field v ''id''], results))
      else if block_field v ''type'' = str ''tool_result''
      then (let i = block_field v ''tool_use_id''
            in if i \<notin> set calls \<or> i \<in> set results then reject ''invalid_history'' else Inr (calls, results @ [i]))
      else Inr seen)"

definition msg_content :: "ustr \<Rightarrow> pyval \<Rightarrow> path \<Rightarrow> pyval list \<times> pyval list
    \<Rightarrow> (pyval \<times> (pyval list \<times> pyval list)) building" where
  "msg_content role c p seen =
     (case c of
        PStr s \<Rightarrow> bbind (text_at c p) (\<lambda>t. bret (t, seen))
      | _ \<Rightarrow> bbind (blift (py_array c True)) (\<lambda>xs.
            bbind (each (\<lambda>n x. msg_block role x (p @ [Idx n])) 0 xs) (\<lambda>blocks.
            bbind (blift (rfold check_block blocks seen)) (\<lambda>seen'. bret (PList blocks, seen')))))"

definition msg_one :: "nat \<Rightarrow> pyval \<Rightarrow> pyval list \<times> pyval list \<Rightarrow> (pyval \<times> (pyval list \<times> pyval list)) building" where
  "msg_one i v seen =
     bbind (blift (object_fields v [''role'', ''content''] [''role'', ''content''])) (\<lambda>msg.
     bbind (blift (py_choice (get msg ''role'') [''user'', ''assistant''])) (\<lambda>role.
     bbind (msg_content role (get msg ''content'') [key ''messages'', Idx i, key ''content''] seen) (\<lambda>(c, seen').
     bret (PDict [(str ''role'', PStr role), (str ''content'', c)], seen'))))"

fun msg_list :: "nat \<Rightarrow> pyval list \<Rightarrow> pyval list \<times> pyval list \<Rightarrow> pyval list building" where
  "msg_list i [] seen = bret []"
| "msg_list i (m # ms) seen = bbind (msg_one i m seen) (\<lambda>(y, seen'). bbind (msg_list (Suc i) ms seen') (\<lambda>ys. bret (y # ys)))"

subsection \<open>Tools\<close>

definition msg_tool :: "pyval \<Rightarrow> path \<Rightarrow> pyval building" where
  "msg_tool v p =
     bbind (blift (object_fields v [''type'', ''name'', ''description'', ''input_schema'', ''cache_control'']
              [''name'', ''input_schema''])) (\<lambda>source.
     bbind (blift (py_identifier (get source ''name'') Tool_id)) (\<lambda>n.
     bbind (json_schema (get source ''input_schema'') (p @ [key ''input_schema''])) (\<lambda>schema.
     case schema of
       PDict _ \<Rightarrow>
         bbind (field_if source ''type'' (\<lambda>t. blift (rbind (py_choice t [''custom'']) (\<lambda>s. Inr (PStr s))))
            [(str ''name'', PStr n), (str ''input_schema'', schema)]) (\<lambda>r.
         bbind (field_if source ''description'' (\<lambda>d. text_at d (p @ [key ''description''])) r) (\<lambda>r.
         bbind (field_if source ''cache_control'' py_cache_control r) (\<lambda>r. bret (PDict r))))
     | _ \<Rightarrow> blift (reject ''invalid_request''))))"

definition msg_tool_choice :: "pyval \<Rightarrow> pyval res" where
  "msg_tool_choice v =
     rbind (object_fields v [''type'', ''name'', ''disable_parallel_tool_use''] [''type'']) (\<lambda>source.
     rbind (py_choice (get source ''type'') [''auto'', ''any'', ''none'', ''tool'']) (\<lambda>kind.
     rbind (case (kind = lit ''tool'', pd_get source ''name'') of
              (True, Some n) \<Rightarrow> rbind (py_identifier n Tool_id) (\<lambda>s. Inr [(str ''type'', PStr kind), (str ''name'', PStr s)])
            | (False, None) \<Rightarrow> Inr [(str ''type'', PStr kind)]
            | _ \<Rightarrow> reject ''invalid_request'') (\<lambda>r.
     case pd_get source ''disable_parallel_tool_use'' of
       None \<Rightarrow> Inr (PDict r)
     | Some x \<Rightarrow> rbind (py_boolean x) (\<lambda>y. Inr (PDict (pd_set ''disable_parallel_tool_use'' (PBool y) r))))))"

definition msg_tools :: "pyval \<Rightarrow> pyval building" where
  "msg_tools v =
     bbind (blift (py_array v False)) (\<lambda>xs.
     bbind (each (\<lambda>n x. msg_tool x [key ''tools'', Idx n]) 0 xs) (\<lambda>ts.
     if distinct (map (\<lambda>t. block_field t ''name'') ts) then bret (PList ts) else blift (reject ''invalid_tools'')))"

definition py_items :: "pyval \<Rightarrow> pyval list" where
  "py_items v = (case v of PList xs \<Rightarrow> xs | _ \<Rightarrow> [])"

definition msg_selected :: "pydict \<Rightarrow> pyval \<Rightarrow> pyval building" where
  "msg_selected result v =
     bbind (blift (msg_tool_choice v)) (\<lambda>c.
     if block_field c ''type'' = str ''tool''
        \<and> \<not> list_ex (\<lambda>t. block_field t ''name'' = block_field c ''name'') (py_items (pd_get_or result ''tools'' (PList [])))
     then blift (reject ''invalid_tools'') else bret c)"

subsection \<open>The request\<close>

definition msg_system :: "pyval \<Rightarrow> pyval building" where
  "msg_system v =
     (case v of
        PStr s \<Rightarrow> text_at (PStr s) [key ''system'']
      | _ \<Rightarrow> bbind (blift (py_array v False)) (\<lambda>xs.
          bbind (each (\<lambda>n x. msg_text x [key ''system'', Idx n]) 0 xs) (\<lambda>ys. bret (PList ys))))"

definition msg_stop :: "pyval \<Rightarrow> pyval building" where
  "msg_stop v = bbind (blift (py_array v False)) (\<lambda>xs.
     bbind (each (\<lambda>n x. text_at x [key ''stop_sequences'', Idx n]) 0 xs) (\<lambda>ys. bret (PList ys)))"

definition msg_thinking :: "pyval \<Rightarrow> pyval res" where
  "msg_thinking v = rbind (object_fields v [''type''] [''type'']) (\<lambda>d.
     rbind (py_choice (get d ''type'') [''disabled'']) (\<lambda>t. Inr (PDict [(str ''type'', PStr t)])))"

definition msg_output :: "pyval \<Rightarrow> pyval res" where
  "msg_output v = rbind (object_fields v [''effort''] []) (\<lambda>d.
     case pd_get d ''effort'' of
       None \<Rightarrow> Inr (PDict [])
     | Some e \<Rightarrow> rbind (py_choice e [''low'', ''medium'', ''high'', ''xhigh'', ''max''])
                   (\<lambda>s. Inr (PDict [(str ''effort'', PStr s)])))"

text \<open>The optional fields, in the order the code visits them.\<close>

definition optional_fields :: "json_lib \<Rightarrow> pydict \<Rightarrow> pydict \<Rightarrow> pydict building" where
  "optional_fields J source r =
     bbind (field_if source ''system'' msg_system r) (\<lambda>r.
     bbind (field_if source ''stream'' (\<lambda>v. blift (rbind (py_boolean v) (\<lambda>x. Inr (PBool x)))) r) (\<lambda>r.
     bbind (field_if source ''temperature'' (\<lambda>v. blift (py_number v 0 1)) r) (\<lambda>r.
     bbind (field_if source ''top_p'' (\<lambda>v. blift (py_number v 0 1)) r) (\<lambda>r.
     bbind (field_if source ''top_k'' (\<lambda>v. blift (rbind (py_count v) (\<lambda>i. Inr (PInt i)))) r) (\<lambda>r.
     bbind (field_if source ''stop_sequences'' msg_stop r) (\<lambda>r.
     bbind (field_if source ''service_tier''
       (\<lambda>v. blift (rbind (py_choice v [''auto'', ''standard_only'']) (\<lambda>s. Inr (PStr s)))) r) (\<lambda>r.
     bbind (field_if source ''thinking'' (\<lambda>v. blift (msg_thinking v)) r) (\<lambda>r.
     bbind (field_if source ''metadata'' (\<lambda>v. blift (msg_metadata J v)) r) (\<lambda>r.
     bbind (field_if source ''cache_control'' py_cache_control r) (\<lambda>r.
     bbind (field_if source ''output_config'' (\<lambda>v. blift (msg_output v)) r) (\<lambda>r.
     bbind (field_if source ''tools'' msg_tools r) (\<lambda>r.
     field_if source ''tool_choice'' (msg_selected r) r))))))))))))"

definition cache_breakpoint :: "location \<Rightarrow> bool" where
  "cache_breakpoint l \<longleftrightarrow> 2 \<le> length (lo_path l)
     \<and> drop (length (lo_path l) - 2) (lo_path l) = [key ''cache_control'', key ''type''] \<and> lo_text l = lit ''ephemeral''"

definition messages_payload :: "json_lib \<Rightarrow> pydict \<Rightarrow> pydict building" where
  "messages_payload J source =
     bbind (blift (py_identifier (get source ''model'') Model_id)) (\<lambda>model.
     bbind (blift (py_integer (get source ''max_tokens'') 1 (2 ^ 31 - 1))) (\<lambda>tokens.
     bbind (blift (py_array (get source ''messages'') True)) (\<lambda>ms.
     bbind (msg_list 0 ms ([], [])) (\<lambda>ys.
     optional_fields J source [(str ''model'', PStr model), (str ''max_tokens'', PInt tokens), (str ''messages'', PList ys)]))))"

definition parse_messages_request :: "json_lib \<Rightarrow> body \<Rightarrow> validated_request res" where
  "parse_messages_request J body =
     rbind (request_body J body) (\<lambda>d.
     if list_ex (\<lambda>f. pd_get d f \<noteq> None) OPAQUE_FIELDS then reject ''uninspectable_field''
     else rbind (object_fields (PDict d) MESSAGES_FIELDS [''model'', ''messages'', ''max_tokens'']) (\<lambda>source.
     rbind (messages_payload J source builder_init) (\<lambda>(result, b).
     rbind (finish J b result) (\<lambda>locations.
     if 4 < length (filter cache_breakpoint locations) then reject ''invalid_cache_control''
     else Inr \<lparr>vr_protocol = lit ''messages'', vr_payload = result, vr_locations = locations,
                vr_stream = (pd_get_or result ''stream'' (PBool False) = PBool True)\<rparr>))))"

end
