(* ===== verification/MessagesFacts.thy ===== *)
theory MessagesFacts
  imports Messages
begin

text \<open>
  What an accepted Messages request satisfies: every string of the rebuilt payload is in the list of
  locations, the prompt texts as content, and the replayed tool results answer preceding calls.
\<close>

subsection \<open>The builder only grows\<close>

definition grows :: "builder \<Rightarrow> builder \<Rightarrow> bool" where
  "grows b b' \<longleftrightarrow> lb_content b \<subseteq> lb_content b' \<and> lb_json b' = lb_json b \<and> lb_structural b' = lb_structural b"

definition growing :: "'a building \<Rightarrow> bool" where
  "growing m \<longleftrightarrow> (\<forall>b x b'. m b = Inr (x, b') \<longrightarrow> grows b b')"

lemma growingD: "growing m \<Longrightarrow> m b = Inr (x, b') \<Longrightarrow> grows b b'"
  by (simp add: growing_def)

lemma grows_refl [simp]: "grows b b" by (simp add: grows_def)

lemma grows_trans: "grows a b \<Longrightarrow> grows b c \<Longrightarrow> grows a c" by (auto simp: grows_def)

named_theorems growing_rules \<open>operations of the builder that only add\<close>

lemma bbind_Inr: "bbind m f b = Inr (y, b'') \<longleftrightarrow> (\<exists>x b'. m b = Inr (x, b') \<and> f x b' = Inr (y, b''))"
  by (auto simp: bbind_def rbind_eq_Inr split: prod.splits)

lemma bret_Inr [simp]: "bret x b = Inr (y, b') \<longleftrightarrow> y = x \<and> b' = b" by (auto simp: bret_def)

lemma blift_Inr: "blift r b = Inr (y, b') \<longleftrightarrow> r = Inr y \<and> b' = b" by (auto simp: blift_def rbind_eq_Inr)

lemma growing_bret [growing_rules]: "growing (bret x)" by (simp add: growing_def)

lemma growing_blift [growing_rules]: "growing (blift r)" by (simp add: growing_def blift_Inr)

lemma growing_bbind [growing_rules]: "growing m \<Longrightarrow> (\<And>x. growing (f x)) \<Longrightarrow> growing (bbind m f)"
  unfolding growing_def bbind_Inr by (blast intro: grows_trans)

lemma growing_each [growing_rules]: "(\<And>i x. growing (f i x)) \<Longrightarrow> growing (each f i xs)"
  by (induction xs arbitrary: i) (auto intro!: growing_rules)

lemma growing_field_if [growing_rules]: "(\<And>v. growing (f v)) \<Longrightarrow> growing (field_if source k f r)"
  by (auto simp: field_if_def intro!: growing_rules split: option.splits)

lemma growing_text_at [growing_rules]: "growing (text_at v p)"
  by (auto simp: growing_def text_at_def bbind_Inr b_text_def rbind_eq_Inr grows_def b_content_def)

lemma growing_cache_control [growing_rules]: "growing (py_cache_control v)"
  unfolding py_cache_control_def by (rule growing_rules)

lemma grows_b: "grows b (b_content p b)" "grows b (b_numeric p b)"
  by (auto simp: grows_def b_content_def b_numeric_def)

lemma json_content_grows:
  "grows b (json_content st v p b)"
  "grows b (json_content_items st d p b)"
  "grows b (json_content_list st i xs p b)"
  by (induction st v p b and st d p b and st i xs p b
      rule: json_content_json_content_items_json_content_list.induct)
    (auto simp: grows_b intro: grows_trans)

lemma schema_leaf_grows: "schema_leaf k v p b = Inr (x, b') \<Longrightarrow> grows b b'"
  by (auto simp: schema_leaf_def b_text_def rbind_eq_Inr grows_b json_content_grows split: if_splits)

lemma json_schema_grows:
  "json_schema v p b = Inr (x, b') \<Longrightarrow> grows b b'"
  "schema_fields d p b = Inr (y, b') \<Longrightarrow> grows b b'"
  "schema_map d p b = Inr (y, b') \<Longrightarrow> grows b b'"
  "schema_list i xs p b = Inr (z, b') \<Longrightarrow> grows b b'"
proof (induction v p b and d p b and d p b and i xs p b arbitrary: x b' and y b' and y b' and z b'
    rule: json_schema_schema_fields_schema_map_schema_list.induct)
  case (2 d p b)
  then show ?case by (auto simp: rbind_eq_Inr)
next
  case (5 k v d p b)
  from 5(5) obtain w b1 d' where one: "(if in_names k SCHEMA_OBJECT
            then (case v of PDict e \<Rightarrow> rbind (schema_map e (p @ [Key (key_text k)]) b) (\<lambda>(e', b'). Inr (PDict e', b'))
                  | _ \<Rightarrow> reject ''invalid_request'')
            else if in_names k SCHEMA_CHILD then json_schema v (p @ [Key (key_text k)]) b
            else if in_names k SCHEMA_ARRAY
            then rbind (py_array v True) (\<lambda>_.
                   case v of PList xs \<Rightarrow> rbind (schema_list 0 xs (p @ [Key (key_text k)]) b) (\<lambda>(ys, b'). Inr (PList ys, b'))
                   | _ \<Rightarrow> reject ''invalid_request'')
            else schema_leaf k v (p @ [Key (key_text k)]) b) = Inr (w, b1)"
    and rest: "schema_fields d p b1 = Inr (d', b')"
    by (auto simp: rbind_eq_Inr)
  have "grows b b1"
  proof (cases "in_names k SCHEMA_OBJECT")
    case True
    with one obtain e e' where "v = PDict e" "schema_map e (p @ [Key (key_text k)]) b = Inr (e', b1)"
      by (auto simp: rbind_eq_Inr split: pyval.splits)
    with 5(1) True show ?thesis by blast
  next
    case no_object: False
    show ?thesis
    proof (cases "in_names k SCHEMA_CHILD")
      case True
      with one no_object 5(2) show ?thesis by simp
    next
      case no_child: False
      show ?thesis
      proof (cases "in_names k SCHEMA_ARRAY")
        case True
        with one no_object no_child obtain xs ys where
          "py_array v True = Inr xs" "v = PList xs" "schema_list 0 xs (p @ [Key (key_text k)]) b = Inr (ys, b1)"
          by (auto simp: rbind_eq_Inr py_array_def split: pyval.splits if_splits)
        with 5(3) True no_object no_child show ?thesis by blast
      next
        case False
        with one no_object no_child show ?thesis by (auto intro: schema_leaf_grows)
      qed
    qed
  qed
  with 5(4) rest show ?case by (blast intro: grows_trans)
qed (auto simp: rbind_eq_Inr intro: grows_trans)

lemma growing_json_schema [growing_rules]: "growing (json_schema v p)"
  by (auto simp: growing_def intro: json_schema_grows)

lemma growing_input [growing_rules]: "growing (\<lambda>b. Inr (y, json_content st v p b))"
  by (auto simp: growing_def intro: json_content_grows)

lemma growing_items [growing_rules]: "growing (\<lambda>b. Inr (y, json_content_items st d p b))"
  by (auto simp: growing_def intro: json_content_grows)

lemma growing_no_citations [growing_rules]: "growing (no_citations v)"
  unfolding no_citations_def by (rule growing_rules)

lemma growing_if [growing_rules]: "growing m \<Longrightarrow> growing n \<Longrightarrow> growing (if c then m else n)" by simp

lemma growing_Let [growing_rules]: "growing (f x) \<Longrightarrow> growing (Let x f)" by simp

lemma growing_msg_text [growing_rules]: "growing (msg_text v p)"
  unfolding msg_text_def by (intro growing_rules)

lemma growing_msg_block [growing_rules]: "growing (msg_block role v p)"
  unfolding msg_block_def tool_use_block_def tool_use_fields_def tool_result_block_def
  by (auto intro!: growing_rules split: pyval.splits)

lemma growing_msg_one [growing_rules]: "growing (msg_one i v seen)"
  unfolding msg_one_def msg_content_def by (auto intro!: growing_rules split: pyval.splits prod.splits)

lemma growing_msg_list [growing_rules]: "growing (msg_list i ms seen)"
  by (induction i ms seen rule: msg_list.induct) (auto intro!: growing_rules split: prod.splits)

lemma growing_optional_fields [growing_rules]: "growing (optional_fields J source r)"
  unfolding optional_fields_def msg_system_def msg_stop_def msg_tools_def msg_tool_def msg_selected_def
  by (intro growing_rules; auto intro!: growing_rules split: pyval.splits)

lemma growing_messages_payload [growing_rules]: "growing (messages_payload J source)"
  unfolding messages_payload_def by (intro growing_rules)

subsection \<open>Prompt texts are content\<close>

lemma field_if_get: "field_if source k f r b = Inr (r', b') \<Longrightarrow> j \<noteq> k \<Longrightarrow> pd_get r' j = pd_get r j"
  by (auto simp: field_if_def bbind_Inr split: option.splits)

lemma value_at_field: "value_at (PDict d) (key j # q) = Option.bind (pd_get d j) (\<lambda>x. value_at x q)"
  by (simp add: pd_get_def)

lemma text_at_content: "text_at v p b = Inr (x, b') \<Longrightarrow> p \<in> lb_content b'"
  by (auto simp: text_at_def bbind_Inr b_text_def rbind_eq_Inr b_content_def)

lemma msg_text_content: "msg_text v p b = Inr (y, b') \<Longrightarrow> p @ [key ''text''] \<in> lb_content b'"
proof -
  assume "msg_text v p b = Inr (y, b')"
  then obtain source t s r r' b0 b1 b2 where
    "text_at (get source ''text'') (p @ [key ''text'']) b0 = Inr (s, b1)"
    and f: "field_if source ''cache_control'' py_cache_control [(str ''type'', PStr t), (str ''text'', s)] b1 = Inr (r, b2)"
      "field_if source ''citations'' no_citations r b2 = Inr (r', b')"
    by (auto simp: msg_text_def bbind_Inr)
  from text_at_content [OF this(1)] have "p @ [key ''text''] \<in> lb_content b1" .
  moreover have "grows b1 b2"
    by (rule growingD [OF growing_field_if [OF growing_cache_control] f(1)])
  moreover have "grows b2 b'" by (rule growingD [OF growing_field_if [OF growing_no_citations] f(2)])
  ultimately show ?thesis by (auto simp: grows_def)
qed

lemma tool_use_no_text:
  assumes "tool_use_block v p b = Inr (y, b')"
  shows "value_at y [key ''text''] = None"
proof -
  from assms obtain source b1 where
    "(case get source ''input'' of PDict d \<Rightarrow> tool_use_fields source d p | _ \<Rightarrow> blift (reject ''invalid_arguments'')) b1
       = Inr (y, b')"
    unfolding tool_use_block_def bbind_Inr by blast
  then obtain d where "tool_use_fields source d p b1 = Inr (y, b')"
    by (cases "get source ''input''") (auto simp: blift_Inr)
  then obtain i n input b0 r where
    f: "field_if source ''cache_control'' py_cache_control
        [(str ''type'', str ''tool_use''), (str ''id'', PStr i), (str ''name'', PStr n), (str ''input'', input)] b0 = Inr (r, b')"
    and y: "y = PDict r"
    by (auto simp: tool_use_fields_def bbind_Inr)
  have "pd_get r ''text'' = None" using field_if_get [OF f, of "''text''"] by (simp add: pd_get_def)
  then show ?thesis by (simp add: y pd_get_def)
qed

lemma tool_result_no_text:
  "tool_result_block v p b = Inr (y, b') \<Longrightarrow> value_at y [key ''text''] = None"
proof -
  assume "tool_result_block v p b = Inr (y, b')"
  then obtain source i c r r' b0 b1 where
    f: "field_if source ''is_error'' (\<lambda>e. blift (rbind (py_boolean e) (\<lambda>x. Inr (PBool x))))
        [(str ''type'', str ''tool_result''), (str ''tool_use_id'', PStr i), (str ''content'', c)] b0 = Inr (r, b1)"
      "field_if source ''cache_control'' py_cache_control r b1 = Inr (r', b')" and y: "y = PDict r'"
    by (auto simp: tool_result_block_def bbind_Inr)
  have "pd_get r' ''text'' = pd_get r ''text''" by (rule field_if_get [OF f(2)]) simp
  also have "\<dots> = None" using field_if_get [OF f(1), of "''text''"] by (simp add: pd_get_def)
  finally show ?thesis by (simp add: y pd_get_def)
qed

lemma msg_block_content:
  assumes "msg_block role v p b = Inr (y, b')" and "value_at y [key ''text''] = Some (PStr s)"
  shows "p @ [key ''text''] \<in> lb_content b'"
proof -
  from assms(1) consider "msg_text v p b = Inr (y, b')" | "tool_use_block v p b = Inr (y, b')"
    | "tool_result_block v p b = Inr (y, b')"
    by (auto simp: msg_block_def blift_Inr split: pyval.splits if_splits)
  then show ?thesis
    using assms(2) msg_text_content tool_use_no_text tool_result_no_text by cases auto
qed

lemma each_nth:
  assumes "each f i xs b = Inr (ys, b')" and "\<And>j x. growing (f j x)" and "n < length ys"
  shows "\<exists>b1 b2. f (i + n) (xs ! n) b1 = Inr (ys ! n, b2) \<and> grows b2 b'"
  using assms(1,3)
proof (induction xs arbitrary: i b ys n)
  case (Cons x xs)
  then obtain y ys' b1 where y: "f i x b = Inr (y, b1)" "each f (Suc i) xs b1 = Inr (ys', b')" "ys = y # ys'"
    by (auto simp: bbind_Inr)
  show ?case
  proof (cases n)
    case 0
    have "grows b1 b'" by (rule growingD [OF growing_each [OF assms(2)] y(2)])
    with 0 y show ?thesis by auto
  next
    case (Suc m)
    with Cons.IH [OF y(2), of m] Cons.prems(2) y(3) show ?thesis by auto
  qed
qed simp

definition prompt_path :: "path \<Rightarrow> bool" where
  "prompt_path q \<longleftrightarrow> (\<exists>i. q = [key ''messages'', Idx i, key ''content''])
     \<or> (\<exists>i n. q = [key ''messages'', Idx i, key ''content'', Idx n, key ''text''])"

lemma msg_one_content:
  assumes "msg_one i v seen b = Inr ((y, seen'), b')"
  shows "value_at y [key ''content''] = Some (PStr s) \<Longrightarrow> [key ''messages'', Idx i, key ''content''] \<in> lb_content b'"
    and "value_at y [key ''content'', Idx n, key ''text''] = Some (PStr s)
      \<Longrightarrow> [key ''messages'', Idx i, key ''content'', Idx n, key ''text''] \<in> lb_content b'"
proof -
  let ?p = "[key ''messages'', Idx i, key ''content'']"
  from assms obtain role c c' b0 where c: "msg_content role c ?p seen b0 = Inr ((c', seen'), b')"
    and y: "y = PDict [(str ''role'', PStr role), (str ''content'', c')]"
    by (auto simp: msg_one_def bbind_Inr split: prod.splits)
  have "(\<exists>t b0. text_at c ?p b0 = Inr (PStr t, b') \<and> c' = PStr t)
     \<or> (\<exists>xs ys b0. each (\<lambda>n x. msg_block role x (?p @ [Idx n])) 0 xs b0 = Inr (ys, b') \<and> c' = PList ys)"
    using c by (cases c) (auto simp: msg_content_def bbind_Inr blift_Inr text_at_def b_text_def rbind_eq_Inr py_string_def)
  then consider (single) t b0 where "text_at c ?p b0 = Inr (PStr t, b')"
      "y = PDict [(str ''role'', PStr role), (str ''content'', PStr t)]"
    | (blocks) xs ys b0 where "each (\<lambda>n x. msg_block role x (?p @ [Idx n])) 0 xs b0 = Inr (ys, b')"
      "y = PDict [(str ''role'', PStr role), (str ''content'', PList ys)]"
    using y by blast
  note c = this
  show "?p \<in> lb_content b'" if "value_at y [key ''content''] = Some (PStr s)"
    using c
  proof cases
    case single
    from text_at_content [OF single(1)] show ?thesis .
  next
    case blocks
    with that show ?thesis by simp
  qed
  show "[key ''messages'', Idx i, key ''content'', Idx n, key ''text''] \<in> lb_content b'"
    if v: "value_at y [key ''content'', Idx n, key ''text''] = Some (PStr s)"
    using c
  proof cases
    case single
    with v show ?thesis by simp
  next
    case blocks
    with v have n: "n < length ys" "value_at (ys ! n) [key ''text''] = Some (PStr s)" by (auto split: if_splits)
    from each_nth [OF blocks(1) _ n(1)] obtain b1 b2 where
      "msg_block role (xs ! n) (?p @ [Idx (0 + n)]) b1 = Inr (ys ! n, b2)" "grows b2 b'"
      using growing_msg_block by blast
    from msg_block_content [OF this(1) n(2)] this(2) show ?thesis by (auto simp: grows_def)
  qed
qed

lemma msg_list_nth:
  assumes "msg_list i ms seen b = Inr (ys, b')" and "n < length ys"
  shows "\<exists>s1 s2 b1 b2. msg_one (i + n) (ms ! n) s1 b1 = Inr ((ys ! n, s2), b2) \<and> grows b2 b'"
  using assms
proof (induction i ms seen arbitrary: b ys n rule: msg_list.induct)
  case (2 i m ms seen)
  then obtain y seen' b1 ys' where y: "msg_one i m seen b = Inr ((y, seen'), b1)"
    "msg_list (Suc i) ms seen' b1 = Inr (ys', b')" "ys = y # ys'"
    by (auto simp: bbind_Inr split: prod.splits)
  show ?case
  proof (cases n)
    case 0
    have "grows b1 b'" by (rule growingD [OF growing_msg_list y(2)])
    with 0 y show ?thesis by (metis add_0_right nth_Cons_0)
  next
    case (Suc k)
    with 2(1) [OF y(2), of k] 2(3) y(3) show ?thesis by auto
  qed
qed simp


subsection \<open>What an accepted request satisfies\<close>

definition keeping :: "string \<Rightarrow> (pydict \<Rightarrow> pydict building) \<Rightarrow> bool" where
  "keeping j g \<longleftrightarrow> (\<forall>r b r' b'. g r b = Inr (r', b') \<longrightarrow> pd_get r' j = pd_get r j)"

lemma keeping_field_if: "j \<noteq> k \<Longrightarrow> keeping j (\<lambda>r. field_if source k (f r) r)"
  unfolding keeping_def using field_if_get by blast

lemma keeping_bbind: "keeping j g \<Longrightarrow> keeping j h \<Longrightarrow> keeping j (\<lambda>r. bbind (g r) h)"
  by (fastforce simp: keeping_def bbind_Inr)

lemma keeping_optional_fields: "keeping ''messages'' (optional_fields J source)"
  unfolding optional_fields_def [abs_def] by (intro keeping_bbind keeping_field_if) simp_all

lemma optional_fields_get:
  "optional_fields J source r b = Inr (r', b') \<Longrightarrow> pd_get r' ''messages'' = pd_get r ''messages''"
  using keeping_optional_fields unfolding keeping_def by blast

text \<open>An accepted request is made of its messages; the builder has no encoded arguments.\<close>

lemma parse_messages_Inr:
  assumes "parse_messages_request J body = Inr r"
  obtains ms ys b1 b where "msg_list 0 ms ([], []) builder_init = Inr (ys, b1)" and "grows b1 b"
    and "pd_get (vr_payload r) ''messages'' = Some (PList ys)" and "finish J b (vr_payload r) = Inr (vr_locations r)"
    and "lb_json b = []" and "lb_structural b = {}"
proof -
  from assms obtain source result b where p: "messages_payload J source builder_init = Inr (result, b)"
    "finish J b result = Inr (vr_locations r)" and r: "vr_payload r = result"
    by (auto simp: parse_messages_request_def rbind_eq_Inr split: if_splits prod.splits)
  then obtain model tokens ms ys b1 where y: "msg_list 0 ms ([], []) builder_init = Inr (ys, b1)"
    and o: "optional_fields J source [(str ''model'', PStr model), (str ''max_tokens'', PInt tokens),
        (str ''messages'', PList ys)] b1 = Inr (result, b)"
    by (auto simp: messages_payload_def bbind_Inr blift_Inr)
  have "grows builder_init b" by (rule growingD [OF growing_messages_payload p(1)])
  moreover have "grows b1 b" by (rule growingD [OF growing_optional_fields o])
  moreover have "pd_get result ''messages'' = Some (PList ys)"
    using optional_fields_get [OF o] by (simp add: pd_get_def)
  ultimately show ?thesis using that [OF y, of b] p(2) r
    by (simp add: grows_def) (simp add: builder_init_def)
qed

lemma prompt_content:
  assumes "msg_list 0 ms ([], []) b0 = Inr (ys, b1)" and "pd_get d ''messages'' = Some (PList ys)"
    and "value_at (PDict d) q = Some (PStr s)" and "prompt_path q"
  shows "q \<in> lb_content b1"
proof -
  from assms(4) obtain i t where q: "q = key ''messages'' # Idx i # t"
    and t: "t = [key ''content''] \<or> (\<exists>n. t = [key ''content'', Idx n, key ''text''])"
    by (auto simp: prompt_path_def)
  from assms(3) have "value_at (PList ys) (Idx i # t) = Some (PStr s)"
    by (simp only: q value_at_field assms(2) bind.bind_lunit)
  then have i: "i < length ys" "value_at (ys ! i) t = Some (PStr s)" by (auto split: if_splits)
  from msg_list_nth [OF assms(1) i(1)] obtain s1 s2 b2 b3 where
    m: "msg_one i (ms ! i) s1 b2 = Inr ((ys ! i, s2), b3)" "grows b3 b1" by auto
  have "q \<in> lb_content b3"
    using t msg_one_content [OF m(1)] i(2) by (auto simp: q)
  with m(2) show ?thesis by (auto simp: grows_def)
qed


definition content_blocks :: "pyval \<Rightarrow> pyval list" where
  "content_blocks m = py_items (block_field m ''content'')"

definition history :: "pydict \<Rightarrow> pyval list" where
  "history payload = concat (map content_blocks (py_items (get payload ''messages'')))"

definition of_type :: "string \<Rightarrow> pyval \<Rightarrow> bool" where
  "of_type t x \<longleftrightarrow> block_field x ''type'' = str t"

lemma not_both: "of_type ''tool_use'' x \<Longrightarrow> \<not> of_type ''tool_result'' x"
  by (simp add: of_type_def)

lemma check_block_seen:
  "rfold check_block xs seen = Inr seen' \<Longrightarrow>
     seen' = (fst seen @ map (\<lambda>x. block_field x ''id'') (filter (of_type ''tool_use'') xs),
              snd seen @ map (\<lambda>x. block_field x ''tool_use_id'') (filter (of_type ''tool_result'') xs))"
proof (induction xs arbitrary: seen)
  case (Cons x xs)
  then obtain s1 where s: "check_block x seen = Inr s1" "rfold check_block xs s1 = Inr seen'"
    by (auto simp: rbind_eq_Inr)
  from Cons.IH [OF s(2)] s(1) show ?case
    by (auto simp: check_block_def of_type_def Let_def split: if_splits prod.splits)
qed simp

lemma msg_one_checked:
  "msg_one i v seen b = Inr ((y, seen'), b') \<Longrightarrow> rfold check_block (content_blocks y) seen = Inr seen'"
proof -
  assume "msg_one i v seen b = Inr ((y, seen'), b')"
  then obtain role c c' b0 where c: "msg_content role c [key ''messages'', Idx i, key ''content''] seen b0 = Inr ((c', seen'), b')"
    and y: "y = PDict [(str ''role'', PStr role), (str ''content'', c')]"
    by (auto simp: msg_one_def bbind_Inr split: prod.splits)
  have "content_blocks y = py_items c'"
    by (simp add: content_blocks_def block_field_def get_def pd_get_or_def pd_get_def y)
  moreover have "rfold check_block (py_items c') seen = Inr seen'"
    using c by (cases c) (auto simp: msg_content_def bbind_Inr blift_Inr text_at_def py_items_def)
  ultimately show ?thesis by simp
qed

lemma msg_list_checked:
  "msg_list i ms seen b = Inr (ys, b') \<Longrightarrow> \<exists>seen'. rfold check_block (concat (map content_blocks ys)) seen = Inr seen'"
proof (induction i ms seen arbitrary: b ys rule: msg_list.induct)
  case (2 i m ms seen)
  then obtain y seen' b1 ys' where y: "msg_one i m seen b = Inr ((y, seen'), b1)"
    "msg_list (Suc i) ms seen' b1 = Inr (ys', b')" "ys = y # ys'"
    by (auto simp: bbind_Inr split: prod.splits)
  from 2(1) [OF y(2)] msg_one_checked [OF y(1)] y(3) show ?case
    by (auto simp: rfold_append rbind_eq_Inr)
qed simp

text \<open>
  C40: The replayed history of an accepted Messages request is consistent: read in order, each tool call
  has an identifier no earlier call has, and each tool result answers an earlier call that no earlier
  result answers.
\<close>

theorem replayed_history_matched:
  assumes "parse_messages_request J body = Inr r" and "history (vr_payload r) = xs @ x # ys"
  shows "if of_type ''tool_use'' x
     then block_field x ''id'' \<notin> (\<lambda>c. block_field c ''id'') ` {c \<in> set xs. of_type ''tool_use'' c}
     else of_type ''tool_result'' x \<longrightarrow>
       block_field x ''tool_use_id'' \<in> (\<lambda>c. block_field c ''id'') ` {c \<in> set xs. of_type ''tool_use'' c}
         - (\<lambda>c. block_field c ''tool_use_id'') ` {c \<in> set xs. of_type ''tool_result'' c}"
proof -
  obtain ms zs b1 where l: "msg_list 0 ms ([], []) builder_init = Inr (zs, b1)"
    and p: "pd_get (vr_payload r) ''messages'' = Some (PList zs)"
    by (rule parse_messages_Inr [OF assms(1)])
  from p have "history (vr_payload r) = concat (map content_blocks zs)"
    by (simp add: history_def get_def pd_get_or_def py_items_def)
  with msg_list_checked [OF l]
  obtain seen where "rfold check_block (history (vr_payload r)) ([], []) = Inr seen" by auto
  then obtain s1 s2 where s: "rfold check_block xs ([], []) = Inr s1" "check_block x s1 = Inr s2"
    by (auto simp: assms(2) rfold_append rbind_eq_Inr)
  from check_block_seen [OF s(1)] s(2) show ?thesis
    by (auto simp: check_block_def of_type_def Let_def split: if_splits)
qed

subsection \<open>A concrete request\<close>

definition sample_turns :: "pyval list" where
  "sample_turns = [
     PDict [(str ''role'', str ''user''), (str ''content'', PStr [120])],
     PDict [(str ''role'', str ''assistant''), (str ''content'', PList
       [PDict [(str ''type'', str ''tool_use''), (str ''id'', PStr [97]), (str ''name'', PStr [110]), (str ''input'', PDict [])]])],
     PDict [(str ''role'', str ''user''), (str ''content'', PList
       [PDict [(str ''type'', str ''tool_result''), (str ''tool_use_id'', PStr [97]), (str ''content'', PStr [121])]])]]"

definition sample_messages :: pydict where
  "sample_messages = [(str ''model'', PStr [109]), (str ''max_tokens'', PInt 1), (str ''messages'', PList sample_turns)]"

lemmas sample_simps = bbind_def blift_def bret_def object_fields_def in_names_def pd_get_def get_def pd_get_or_def
  py_choice_def text_at_def b_text_def py_string_def py_array_def MAX_COLLECTION_def py_identifier_def identifier_ok_def
  id_char_def ascii_alpha_def field_if_def block_field_def

lemma sample_one:
  "\<exists>b'. msg_one 0 (sample_turns ! 0) ([], []) b = Inr ((sample_turns ! 0, [], []), b')"
  "\<exists>b'. msg_one 1 (sample_turns ! 1) ([], []) b = Inr ((sample_turns ! 1, [PStr [97]], []), b')"
  "\<exists>b'. msg_one 2 (sample_turns ! 2) ([PStr [97]], []) b = Inr ((sample_turns ! 2, [PStr [97]], [PStr [97]]), b')"
  by (simp_all add: sample_turns_def msg_one_def msg_content_def sample_simps msg_block_def tool_use_block_def
      tool_use_fields_def tool_result_block_def check_block_def Let_def)

lemma sample_list: "\<exists>b'. msg_list 0 sample_turns ([], []) b = Inr (sample_turns, b')"
proof -
  have s: "sample_turns = [sample_turns ! 0, sample_turns ! 1, sample_turns ! 2]" by (simp add: sample_turns_def)
  obtain b1 where 1: "msg_one 0 (sample_turns ! 0) ([], []) b = Inr ((sample_turns ! 0, [], []), b1)"
    using sample_one(1) by blast
  obtain b2 where 2: "msg_one 1 (sample_turns ! 1) ([], []) b1 = Inr ((sample_turns ! 1, [PStr [97]], []), b2)"
    using sample_one(2) by blast
  obtain b3 where 3: "msg_one 2 (sample_turns ! 2) ([PStr [97]], []) b2 = Inr ((sample_turns ! 2, [PStr [97]], [PStr [97]]), b3)"
    using sample_one(3) by blast
  have "msg_list 0 [sample_turns ! 0, sample_turns ! 1, sample_turns ! 2] ([], []) b
      = Inr ([sample_turns ! 0, sample_turns ! 1, sample_turns ! 2], b3)"
    using 1 2 3 by (simp add: bbind_def bret_def numeral_2_eq_2)
  with s show ?thesis by metis
qed

lemma sample_payload: "\<exists>b'. messages_payload sample_json sample_messages b = Inr (sample_messages, b')"
proof -
  obtain b' where b: "msg_list 0 sample_turns ([], []) b = Inr (sample_turns, b')" using sample_list by blast
  have "py_array (PList sample_turns) True = Inr sample_turns"
    by (simp add: py_array_def MAX_COLLECTION_def sample_turns_def)
  with b show ?thesis
    by (simp add: messages_payload_def optional_fields_def sample_messages_def bbind_def blift_def bret_def pd_get_def get_def
        pd_get_or_def field_if_def py_identifier_def identifier_ok_def py_string_def ascii_alpha_def py_integer_def)
qed

lemma json_ok_containers:
  "json_ok n (PDict d) \<longleftrightarrow> n \<le> MAX_DEPTH \<and> length d \<le> MAX_COLLECTION
     \<and> list_all (\<lambda>(k, x). is_str k \<and> json_ok (Suc n) k \<and> json_ok (Suc n) x) d"
  "json_ok n (PList xs) \<longleftrightarrow> n \<le> MAX_DEPTH \<and> length xs \<le> MAX_COLLECTION \<and> list_all (json_ok (Suc n)) xs"
  by (subst json_ok.simps, auto simp: list_all_iff)+

lemma lit_ok: "\<not> list_ex is_surrogate (lit s)"
proof -
  have "\<not> is_surrogate (of_char c)" for c :: char
    using nat_of_char_less_256 [of c] unfolding is_surrogate_def by linarith
  then show ?thesis by (simp add: lit_def list_ex_iff)
qed

lemma sample_bounded: "bounded_json (PDict sample_messages) = Inr ()"
  unfolding bounded_json_iff sample_messages_def sample_turns_def
  by (simp only: json_ok_containers json_ok_scalars list.pred_inject prod.case lit_ok MAX_DEPTH_def MAX_COLLECTION_def)
    (simp add: is_surrogate_def is_str_def)

lemma one_below_limit: "\<not> 10 ^ INT_DIGITS \<le> (1::int)"
proof -
  have "0 < INT_DIGITS" by (simp add: INT_DIGITS_def)
  then have "1 < (10::int) ^ INT_DIGITS" by (intro one_less_power) simp_all
  then show ?thesis by simp
qed

lemma sample_finish:
  assumes "lb_json b = []"
  shows "\<exists>ls. finish sample_json b sample_messages = Inr ls \<and> filter cache_breakpoint ls = []"
  using assms one_below_limit
  by (simp add: finish_def sample_messages_def sample_turns_def number_locations_def number_text_def cache_breakpoint_def
      key_location_def str_location_def child_path_def)

lemma sample_parses:
  "\<exists>r. parse_messages_request sample_json (Decoded (PDict sample_messages)) = Inr r \<and> vr_payload r = sample_messages"
proof -
  obtain b where b: "messages_payload sample_json sample_messages builder_init = Inr (sample_messages, b)"
    using sample_payload by blast
  have "lb_json b = []"
    using growingD [OF growing_messages_payload b] by (simp add: grows_def) (simp add: builder_init_def)
  from sample_finish [OF this] obtain ls where
    l: "finish sample_json b sample_messages = Inr ls" "filter cache_breakpoint ls = []" by blast
  have "request_body sample_json (Decoded (PDict sample_messages)) = Inr sample_messages"
    by (simp add: request_body_def sample_bounded)
  moreover have "\<not> list_ex (\<lambda>f. pd_get sample_messages f \<noteq> None) OPAQUE_FIELDS"
    by (simp add: sample_messages_def OPAQUE_FIELDS_def pd_get_def)
  moreover have "object_fields (PDict sample_messages) MESSAGES_FIELDS [''model'', ''messages'', ''max_tokens''] = Inr sample_messages"
    by (simp add: sample_messages_def object_fields_def in_names_def MESSAGES_FIELDS_def pd_get_def)
  ultimately show ?thesis
    by (simp add: parse_messages_request_def b l)
qed


theorem replayed_history_matched_witness:
  "\<exists>r x. parse_messages_request sample_json (Decoded (PDict sample_messages)) = Inr r
     \<and> x \<in> set (history (vr_payload r)) \<and> of_type ''tool_result'' x
     \<and> block_field x ''tool_use_id'' \<in> (\<lambda>c. block_field c ''id'') ` {c \<in> set (history (vr_payload r)). of_type ''tool_use'' c}"
proof -
  obtain r where r: "parse_messages_request sample_json (Decoded (PDict sample_messages)) = Inr r"
    "vr_payload r = sample_messages" using sample_parses by blast
  define u where "u = PDict [(str ''type'', str ''tool_use''), (str ''id'', PStr [97]), (str ''name'', PStr [110]), (str ''input'', PDict [])]"
  define v where "v = PDict [(str ''type'', str ''tool_result''), (str ''tool_use_id'', PStr [97]), (str ''content'', PStr [121])]"
  have h: "history (vr_payload r) = [u] @ v # []"
    by (simp add: r(2) history_def sample_messages_def sample_turns_def content_blocks_def block_field_def get_def pd_get_or_def
        pd_get_def py_items_def u_def v_def)
  have "of_type ''tool_result'' v" "\<not> of_type ''tool_use'' v"
    by (simp_all add: of_type_def block_field_def get_def pd_get_or_def pd_get_def v_def)
  with replayed_history_matched [OF r(1) h] r(1) h show ?thesis by auto
qed

end
