(* ===== verification/ToolSchema.thy ===== *)
theory ToolSchema
  imports ProtocolFacts
begin

text \<open>
  The executable tool schemas, \<^verbatim>\<open>gateway/tools/bound.py\<close> (\<open>_compile_schema\<close>, \<open>_matches\<close>): a bounded subset of
  JSON Schema is accepted at registration and arguments are matched against it before a call is
  released.  A schema stays the decoded JSON value it is in the code; a keyword whose value has the
  wrong shape, which \<open>_compile_schema\<close> refuses, makes \<open>_matches\<close> raise a \<open>TypeError\<close> here.
\<close>

definition MAX_SCHEMA_DEPTH :: nat where "MAX_SCHEMA_DEPTH = 16"
definition MAX_SCHEMA_NODES :: int where "MAX_SCHEMA_NODES = 512"
definition MAX_SCHEMA_COLLECTION :: nat where "MAX_SCHEMA_COLLECTION = 128"

definition ANNOTATIONS :: "string list" where
  "ANNOTATIONS = [''title'', ''description'', ''$comment'', ''default'', ''examples'', ''readOnly'', ''writeOnly'', ''deprecated'']"
definition BOUNDS :: "string list" where
  "BOUNDS = [''minLength'', ''maxLength'', ''minItems'', ''maxItems'', ''minProperties'', ''maxProperties'']"
definition NUMBER_BOUNDS :: "string list" where
  "NUMBER_BOUNDS = [''minimum'', ''maximum'', ''exclusiveMinimum'', ''exclusiveMaximum'']"
definition COMBINERS :: "string list" where "COMBINERS = [''allOf'', ''anyOf'', ''oneOf'']"
definition SCHEMA_KEYWORDS :: "string list" where
  "SCHEMA_KEYWORDS = ANNOTATIONS @ BOUNDS @ NUMBER_BOUNDS @ COMBINERS
     @ [''type'', ''properties'', ''required'', ''additionalProperties'', ''enum'', ''const'', ''items'', ''uniqueItems'', ''$schema'']"
definition TYPES :: "string list" where
  "TYPES = [''null'', ''boolean'', ''object'', ''array'', ''number'', ''integer'', ''string'']"

definition tool_fail :: "string \<Rightarrow> 'a res" where "tool_fail code = Inl (ToolRestorationError code)"

definition bad_schema :: "'a res" where "bad_schema = tool_fail ''unsupported_tool_schema''"

lemma bad_schema_neq [simp]: "bad_schema \<noteq> Inr x" "Inr x \<noteq> bad_schema"
  by (simp_all add: bad_schema_def tool_fail_def)

lemma rfold_cong [fundef_cong]:
  "xs = ys \<Longrightarrow> s = t \<Longrightarrow> (\<And>x u. x \<in> set ys \<Longrightarrow> f x u = g x u) \<Longrightarrow> rfold f xs s = rfold g ys t"
  by (induction ys arbitrary: xs s t) (auto simp: rbind_def split: sum.splits)

lemma rmap_cong [fundef_cong]:
  "xs = ys \<Longrightarrow> (\<And>x. x \<in> set ys \<Longrightarrow> f x = g x) \<Longrightarrow> rmap f xs = rmap g ys"
  by (induction ys arbitrary: xs) (auto simp: rbind_def split: sum.splits)

subsection \<open>Accepting a schema\<close>

function json_literal :: "nat \<Rightarrow> pyval \<Rightarrow> bool" where
  "json_literal depth v \<longleftrightarrow> depth \<le> MAX_SCHEMA_DEPTH \<and>
     (case v of
        PFloat f \<Rightarrow> is_finite f
      | PDict d \<Rightarrow> length d \<le> MAX_SCHEMA_COLLECTION \<and> list_all (\<lambda>(k, _). is_str k) d
          \<and> list_all (\<lambda>(_, x). json_literal (Suc depth) x) d
      | PList xs \<Rightarrow> length xs \<le> MAX_SCHEMA_COLLECTION \<and> list_all (json_literal (Suc depth)) xs
      | _ \<Rightarrow> True)"
  by pat_completeness auto
termination by (relation "measure (\<lambda>(n, v). size v)") (auto dest: size_in_list size_in_dict)

definition kinds_of :: "pyval \<Rightarrow> pyval list" where
  "kinds_of v = (case v of PList ks \<Rightarrow> ks | _ \<Rightarrow> [v])"

definition finite_number :: "pyval \<Rightarrow> bool" where
  \<comment> \<open>\<open>type(v) in {int, float} and math.isfinite(v)\<close>; an \<open>int\<close> beyond the floats raises instead\<close>
  "finite_number v = (case v of PInt i \<Rightarrow> \<bar>i\<bar> < float_limit | PFloat f \<Rightarrow> is_finite f | _ \<Rightarrow> False)"

definition schema_id :: pyval where "schema_id = PStr (lit ''https://json-schema.org/draft/2020-12/schema'')"

definition keyword_ok :: "pyval \<Rightarrow> pyval \<Rightarrow> bool" where
  \<comment> \<open>the keywords without a schema inside\<close>
  "keyword_ok k v =
     (if in_names k [''$schema''] then v = schema_id
      else if in_names k ANNOTATIONS then True
      else if in_names k [''type'']
      then kinds_of v \<noteq> [] \<and> length (kinds_of v) \<le> length TYPES
           \<and> list_all (\<lambda>t. in_names t TYPES) (kinds_of v) \<and> distinct (kinds_of v)
      else if in_names k [''required'']
      then (case v of PList ns \<Rightarrow> length ns \<le> MAX_SCHEMA_COLLECTION \<and> list_all is_str ns \<and> distinct ns | _ \<Rightarrow> False)
      else if in_names k BOUNDS then (case v of PInt i \<Rightarrow> 0 \<le> i | _ \<Rightarrow> False)
      else if in_names k NUMBER_BOUNDS then finite_number v
      else if in_names k [''uniqueItems''] then (case v of PBool _ \<Rightarrow> True | _ \<Rightarrow> False)
      else if in_names k [''enum'']
      then (case v of PList xs \<Rightarrow> xs \<noteq> [] \<and> length xs \<le> MAX_SCHEMA_COLLECTION \<and> list_all (json_literal 0) xs | _ \<Rightarrow> False)
      else in_names k [''const''] \<and> json_literal 0 v)"

lemma size_inner:
  "(k, PDict ps) \<in> set d \<Longrightarrow> (n, c) \<in> set ps \<Longrightarrow> size c < size (PDict d)"
  "(k, PList xs) \<in> set d \<Longrightarrow> c \<in> set xs \<Longrightarrow> size c < size (PDict d)"
  "(k, v) \<in> set d \<Longrightarrow> size v < size (PDict d)"
  by (force dest: size_in_list size_in_dict)+

text \<open>\<open>budget[0]\<close> is threaded: what is left after the schema, or a refusal.\<close>

function compile_schema :: "nat \<Rightarrow> pyval \<Rightarrow> int \<Rightarrow> int res" where
  "compile_schema depth schema budget =
     (if MAX_SCHEMA_DEPTH < depth \<or> budget - 1 < 0 then bad_schema
      else case schema of
        PBool _ \<Rightarrow> Inr (budget - 1)
      | PDict d \<Rightarrow>
          if \<not> list_all (\<lambda>(k, _). in_names k SCHEMA_KEYWORDS) d then bad_schema
          else rfold (\<lambda>(k, v) budget.
            if in_names k [''properties'']
            then (case v of
                PDict ps \<Rightarrow>
                  if MAX_SCHEMA_COLLECTION < length ps \<or> \<not> list_all (\<lambda>(n, _). is_str n) ps then bad_schema
                  else rfold (\<lambda>(_, child). compile_schema (Suc depth) child) ps budget
              | _ \<Rightarrow> bad_schema)
            else if in_names k [''additionalProperties'', ''items''] then compile_schema (Suc depth) v budget
            else if in_names k COMBINERS
            then (case v of
                PList xs \<Rightarrow>
                  if xs = [] \<or> MAX_SCHEMA_COLLECTION < length xs then bad_schema
                  else rfold (compile_schema (Suc depth)) xs budget
              | _ \<Rightarrow> bad_schema)
            else if keyword_ok k v then Inr budget else bad_schema) d (budget - 1)
      | _ \<Rightarrow> bad_schema)"
  by pat_completeness auto

termination by (relation "measure (\<lambda>(n, v, b). size v)") (auto dest: size_inner simp del: pyval.size)

subsection \<open>Equality and types of JSON values\<close>

definition num_val :: "pyval \<Rightarrow> pyfloat option" where
  "num_val v = (case v of PInt i \<Rightarrow> Some (Fin (of_int i)) | PFloat f \<Rightarrow> Some f | PBool b \<Rightarrow> Some (Fin (of_bool b)) | _ \<Rightarrow> None)"

definition is_number :: "pyval \<Rightarrow> bool" where
  "is_number v = (case v of PInt _ \<Rightarrow> True | PFloat _ \<Rightarrow> True | _ \<Rightarrow> False)"

fun float_eq :: "pyfloat \<Rightarrow> pyfloat \<Rightarrow> bool" where
  "float_eq NaN _ \<longleftrightarrow> False" | "float_eq _ NaN \<longleftrightarrow> False" | "float_eq a b \<longleftrightarrow> a = b"

fun float_less :: "pyfloat \<Rightarrow> pyfloat \<Rightarrow> bool" where
  "float_less (Fin a) (Fin b) \<longleftrightarrow> a < b"
| "float_less NaN _ \<longleftrightarrow> False"
| "float_less _ NaN \<longleftrightarrow> False"
| "float_less NegInf b \<longleftrightarrow> b \<noteq> NegInf"
| "float_less a PosInf \<longleftrightarrow> a \<noteq> PosInf"
| "float_less _ _ \<longleftrightarrow> False"

definition float_le :: "pyfloat \<Rightarrow> pyfloat \<Rightarrow> bool" where "float_le a b \<longleftrightarrow> float_less a b \<or> float_eq a b"

function json_equal :: "pyval \<Rightarrow> pyval \<Rightarrow> bool" where
  "json_equal left right =
     (case (left, right) of
        (PBool a, PBool b) \<Rightarrow> a = b
      | (PDict d, PDict e) \<Rightarrow>
          fst ` set d = fst ` set e
          \<and> list_all (\<lambda>(k, v). case map_of e k of Some w \<Rightarrow> json_equal v w | None \<Rightarrow> False) d
      | (PList xs, PList ys) \<Rightarrow> length xs = length ys \<and> list_all (\<lambda>(a, b). json_equal a b) (zip xs ys)
      | (PStr s, PStr t) \<Rightarrow> s = t
      | (PNone, PNone) \<Rightarrow> True
      | (a, b) \<Rightarrow> is_number a \<and> is_number b
          \<and> (case (num_val a, num_val b) of (Some x, Some y) \<Rightarrow> float_eq x y | _ \<Rightarrow> False))"
  by pat_completeness auto
termination
  by (relation "measure (\<lambda>(a, b). size a)") (auto dest!: set_zip_leftD dest: size_in_list size_in_dict)

definition whole :: "pyfloat \<Rightarrow> bool" where
  \<comment> \<open>\<open>value.is_integer()\<close>\<close>
  "whole f = (case f of Fin q \<Rightarrow> of_int \<lfloor>q\<rfloor> = q | _ \<Rightarrow> False)"

definition has_type :: "pyval \<Rightarrow> pyval \<Rightarrow> bool res" where
  "has_type value kind =
     (if kind = PStr (lit ''null'') then Inr (value = PNone)
      else if kind = PStr (lit ''integer'')
      then Inr (case value of PInt _ \<Rightarrow> True | PFloat f \<Rightarrow> whole f | _ \<Rightarrow> False)
      else if kind = PStr (lit ''number'') then Inr (is_number value)
      else if kind = PStr (lit ''boolean'') then Inr (case value of PBool _ \<Rightarrow> True | _ \<Rightarrow> False)
      else if kind = PStr (lit ''object'') then Inr (case value of PDict _ \<Rightarrow> True | _ \<Rightarrow> False)
      else if kind = PStr (lit ''array'') then Inr (case value of PList _ \<Rightarrow> True | _ \<Rightarrow> False)
      else if kind = PStr (lit ''string'') then Inr (case value of PStr _ \<Rightarrow> True | _ \<Rightarrow> False)
      else Inl KeyError)"

subsection \<open>Matching\<close>

fun all_of :: "bool res list \<Rightarrow> bool res" where
  \<comment> \<open>checks in order, up to the first that returns \<open>False\<close> or raises\<close>
  "all_of [] = Inr True"
| "all_of (r # rs) = rbind r (\<lambda>b. if b then all_of rs else Inr False)"

fun any_type :: "pyval \<Rightarrow> pyval list \<Rightarrow> bool res" where
  "any_type value [] = Inr False"
| "any_type value (k # ks) = rbind (has_type value k) (\<lambda>b. if b then Inr True else any_type value ks)"

definition type_check :: "pydict \<Rightarrow> pyval \<Rightarrow> bool res" where
  "type_check d value = (case pd_get d ''type'' of None \<Rightarrow> Inr True | Some t \<Rightarrow> any_type value (kinds_of t))"

definition const_check :: "pydict \<Rightarrow> pyval \<Rightarrow> bool res" where
  "const_check d value = (case pd_get d ''const'' of None \<Rightarrow> Inr True | Some c \<Rightarrow> Inr (json_equal value c))"

definition enum_check :: "pydict \<Rightarrow> pyval \<Rightarrow> bool res" where
  "enum_check d value =
     (case pd_get d ''enum'' of
        None \<Rightarrow> Inr True
      | Some (PList ms) \<Rightarrow> Inr (list_ex (json_equal value) ms)
      | Some _ \<Rightarrow> Inl TypeError)"

definition combined :: "string \<Rightarrow> bool list \<Rightarrow> bool" where
  "combined k ms =
     (if k = ''allOf'' then list_all id ms else if k = ''anyOf'' then list_ex id ms else length (filter id ms) = 1)"

definition required_check :: "pydict \<Rightarrow> pydict \<Rightarrow> bool res" where
  "required_check d value =
     (case pd_get_or d ''required'' (PList []) of
        PList ns \<Rightarrow> Inr (list_all (\<lambda>n. n \<in> fst ` set value) ns)
      | _ \<Rightarrow> Inl TypeError)"

definition compare_to :: "(pyfloat \<Rightarrow> pyfloat \<Rightarrow> bool) \<Rightarrow> pyval \<Rightarrow> pyval \<Rightarrow> bool res" where
  "compare_to holds v w = (case (num_val v, num_val w) of (Some a, Some b) \<Rightarrow> Inr (holds a b) | _ \<Rightarrow> Inl TypeError)"

definition size_check :: "string \<Rightarrow> string \<Rightarrow> pydict \<Rightarrow> nat \<Rightarrow> bool res" where
  "size_check low high d n =
     all_of [compare_to (\<lambda>a b. \<not> float_less a b) (PInt (int n)) (pd_get_or d low (PInt 0)),
             compare_to (\<lambda>a b. \<not> float_less b a) (PInt (int n)) (pd_get_or d high (PFloat PosInf))]"

definition number_check :: "string \<Rightarrow> (pyfloat \<Rightarrow> pyfloat \<Rightarrow> bool) \<Rightarrow> pydict \<Rightarrow> pyval \<Rightarrow> bool res" where
  "number_check k holds d v = (case pd_get d k of None \<Rightarrow> Inr True | Some b \<Rightarrow> compare_to holds v b)"

definition number_checks :: "pydict \<Rightarrow> pyval \<Rightarrow> bool res" where
  "number_checks d v =
     all_of [number_check ''minimum'' (\<lambda>a b. \<not> float_less a b) d v,
             number_check ''maximum'' (\<lambda>a b. \<not> float_less b a) d v,
             number_check ''exclusiveMinimum'' (\<lambda>a b. \<not> float_le a b) d v,
             number_check ''exclusiveMaximum'' (\<lambda>a b. \<not> float_le b a) d v]"

fun repeated :: "pyval list \<Rightarrow> bool" where
  \<comment> \<open>an item equal to an earlier one\<close>
  "repeated [] \<longleftrightarrow> False"
| "repeated (x # xs) \<longleftrightarrow> list_ex (\<lambda>y. json_equal y x) xs \<or> repeated xs"

definition property_schema :: "pydict \<Rightarrow> pydict \<Rightarrow> pyval \<Rightarrow> pyval" where
  "property_schema d ps name =
     (case map_of ps name of Some c \<Rightarrow> c | None \<Rightarrow> pd_get_or d ''additionalProperties'' (PBool True))"

lemma size_property: "pd_get_or d ''properties'' (PDict []) = PDict ps \<Longrightarrow> size (property_schema d ps name) \<le> size (PDict d)"
proof -
  assume ps: "pd_get_or d ''properties'' (PDict []) = PDict ps"
  have sub: "size v < size (PDict d)" if "pd_get d k = Some v" for k v
    using size_inner(3) that unfolding pd_get_def by (blast dest: map_of_SomeD)
  have "size c \<le> size (PDict ps)" if "map_of ps name = Some c" for c
    using size_inner(3) map_of_SomeD [OF that] by (blast intro: less_imp_le)
  moreover have "size (PDict ps) \<le> size (PDict d)"
    using ps sub [of "''properties''" "PDict ps"]
    by (auto simp: pd_get_or_def simp del: pyval.size split: option.splits intro: less_imp_le) simp
  moreover have "size (pd_get_or d ''additionalProperties'' (PBool True)) \<le> size (PDict d)"
    using sub by (auto simp: pd_get_or_def split: option.splits intro: less_imp_le)
  ultimately show ?thesis by (auto simp: property_schema_def split: option.splits intro: order.trans)
qed

lemma size_get_or: "size (pd_get_or d k (PBool True)) \<le> size (PDict d)"
  using size_inner(3) [of "PStr (lit k)" _ d] by (auto simp: pd_get_or_def pd_get_def split: option.splits dest!: map_of_SomeD intro: less_imp_le)

lemma size_combiner: "pd_get d k = Some (PList xs) \<Longrightarrow> c \<in> set xs \<Longrightarrow> size c < size (PDict d)"
  unfolding pd_get_def by (blast dest: map_of_SomeD size_inner(2))

lemma size_item: "x \<in> set xs \<Longrightarrow> size x < size (PList xs)"
  using size_in_list [of x xs] by simp

function matches :: "pyval \<Rightarrow> pyval \<Rightarrow> bool res" where
  "matches schema value =
     (case schema of
        PBool b \<Rightarrow> Inr b
      | PDict d \<Rightarrow>
          all_of
           ([type_check d value, const_check d value, enum_check d value]
            @ map (\<lambda>k. case pd_get d k of
                     None \<Rightarrow> Inr True
                   | Some (PList xs) \<Rightarrow> rbind (rmap (\<lambda>child. matches child value) xs) (\<lambda>ms. Inr (combined k ms))
                   | Some _ \<Rightarrow> Inl TypeError) COMBINERS
            @ (case value of
                 PDict v \<Rightarrow>
                   [required_check d v,
                    (case pd_get_or d ''properties'' (PDict []) of
                       PDict ps \<Rightarrow> all_of (map (\<lambda>(name, item). matches (property_schema d ps name) item) v)
                     | _ \<Rightarrow> Inl AttributeError),
                    size_check ''minProperties'' ''maxProperties'' d (length v)]
               | PStr s \<Rightarrow> [size_check ''minLength'' ''maxLength'' d (length s)]
               | PList xs \<Rightarrow>
                   [size_check ''minItems'' ''maxItems'' d (length xs),
                    all_of (map (matches (pd_get_or d ''items'' (PBool True))) xs),
                    Inr (\<not> (truthy (pd_get_or d ''uniqueItems'' (PBool False)) \<and> repeated xs))]
               | v \<Rightarrow> if is_number v then [number_checks d v] else []))
      | _ \<Rightarrow> Inl TypeError)"
  by pat_completeness auto
termination
proof (relation "measure (\<lambda>(s, v). size s + size v)", goal_cases)
  case 1
  show ?case by simp
qed (auto simp del: pyval.size
     intro: add_le_less_mono size_property size_get_or size_inner(3) size_item size_combiner)

declare json_literal.simps [simp del] compile_schema.simps [simp del] json_equal.simps [simp del] matches.simps [simp del]

end
