(* ===== verification/Effects.thy ===== *)
theory Effects
  imports TokenScan
begin

text \<open>
  Operations that change a state and may raise: they return their result or the exception, with the
  state after it, since a handler of the exception may read what was done before.  The callbacks the
  tool modules pass around (\<open>restore_literal\<close>, \<open>validate_path\<close>) have this type.  \<open>token_sub\<close> is
  \<open>TOKEN_PATTERN.sub\<close> with such a callback.
\<close>

type_synonym ('a, 's) act = "'s \<Rightarrow> 'a res \<times> 's"

definition ret :: "'a \<Rightarrow> ('a, 's) act" where "ret x s = (Inr x, s)"
definition raise :: "exn \<Rightarrow> ('a, 's) act" where "raise e s = (Inl e, s)"
definition bind :: "('a, 's) act \<Rightarrow> ('a \<Rightarrow> ('b, 's) act) \<Rightarrow> ('b, 's) act" where
  "bind m f s = (case m s of (Inl e, t) \<Rightarrow> (Inl e, t) | (Inr x, t) \<Rightarrow> f x t)"
definition lift :: "'a res \<Rightarrow> ('a, 's) act" where "lift r s = (r, s)"
definition guard :: "bool \<Rightarrow> exn \<Rightarrow> (unit, 's) act" where
  \<comment> \<open>\<open>if not b: raise e\<close>\<close>
  "guard b e s = (if b then (Inr (), s) else (Inl e, s))"

lemma bind_Inr: "bind m f s = (Inr y, t) \<longleftrightarrow> (\<exists>x u. m s = (Inr x, u) \<and> f x u = (Inr y, t))"
  by (auto simp: bind_def split: prod.splits sum.splits)

lemma bind_Inl:
  "bind m f s = (Inl e, t) \<longleftrightarrow> m s = (Inl e, t) \<or> (\<exists>x u. m s = (Inr x, u) \<and> f x u = (Inl e, t))"
  by (auto simp: bind_def split: prod.splits sum.splits)

lemma ret_eq [simp]: "ret x s = (r, t) \<longleftrightarrow> r = Inr x \<and> t = s" by (auto simp: ret_def)
lemma raise_eq [simp]: "raise e s = (r, t) \<longleftrightarrow> r = Inl e \<and> t = s" by (auto simp: raise_def)
lemma lift_eq [simp]: "lift r s = (r', t) \<longleftrightarrow> r = r' \<and> t = s" by (auto simp: lift_def)
lemma guard_Inr [simp]: "guard b e s = (Inr x, t) \<longleftrightarrow> b \<and> t = s" by (auto simp: guard_def)
lemma guard_Inl [simp]: "guard b e s = (Inl e', t) \<longleftrightarrow> \<not> b \<and> e' = e \<and> t = s" by (auto simp: guard_def)

lemma bind_ret [simp]: "bind (ret x) f = f x" by (rule ext) (simp add: bind_def ret_def)
lemma bind_ret_right [simp]: "bind m ret = m"
  by (rule ext) (auto simp: bind_def ret_def split: prod.splits sum.splits)
lemma bind_raise [simp]: "bind (raise e) f = raise e" by (rule ext) (simp add: bind_def raise_def)
lemma bind_assoc: "bind (bind m f) g = bind m (\<lambda>x. bind (f x) g)"
  by (rule ext) (auto simp: bind_def split: prod.splits sum.splits)

fun emap :: "('a \<Rightarrow> ('b, 's) act) \<Rightarrow> 'a list \<Rightarrow> ('b list, 's) act" where
  \<comment> \<open>\<open>[f(x) for x in xs]\<close>\<close>
  "emap f [] = ret []"
| "emap f (x # xs) = bind (f x) (\<lambda>y. bind (emap f xs) (\<lambda>ys. ret (y # ys)))"

text \<open>An action that never fails and changes nothing acts as a function.\<close>

definition pure_act :: "('a \<Rightarrow> 'b) \<Rightarrow> 'a \<Rightarrow> ('b, 's) act" where "pure_act f x = ret (f x)"

subsection \<open>Possible results of a callback\<close>

definition yields :: "('a \<Rightarrow> ('b, 's) act) \<Rightarrow> 'a \<Rightarrow> 'b \<Rightarrow> bool" where
  "yields f x y \<longleftrightarrow> (\<exists>s t. f x s = (Inr y, t))"

lemma yieldsI: "f x s = (Inr y, t) \<Longrightarrow> yields f x y" by (auto simp: yields_def)

lemma emap_yields: "emap f xs s = (Inr ys, t) \<Longrightarrow> list_all2 (yields f) xs ys"
  by (induction xs arbitrary: s ys) (auto simp: bind_Inr intro: yieldsI)

subsection \<open>Replacing the tokens of a src\<close>

fun sub_matches :: "(ustr \<Rightarrow> (ustr, 's) act) \<Rightarrow> ustr \<Rightarrow> nat \<Rightarrow> rmatch list \<Rightarrow> (ustr, 's) act" where
  "sub_matches f src p [] = ret (drop p src)"
| "sub_matches f src p (m # ms) =
     bind (f (group_text src m 0)) (\<lambda>r. bind (sub_matches f src (fst (snd m)) ms) (\<lambda>rest.
       ret (pyslice src p (fst m) @ r @ rest)))"

definition token_sub :: "(ustr \<Rightarrow> (ustr, 's) act) \<Rightarrow> ustr \<Rightarrow> (ustr, 's) act" where
  "token_sub f src = sub_matches f src 0 (finditer TOKEN_PATTERN src)"

definition has_token :: "ustr \<Rightarrow> bool" where
  \<comment> \<open>\<open>bool(TOKEN_PATTERN.search(text))\<close>\<close>
  "has_token src \<longleftrightarrow> re_matches TOKEN_PATTERN src"

fun sub_segs :: "(ustr \<Rightarrow> (ustr, 's) act) \<Rightarrow> seg list \<Rightarrow> (ustr, 's) act" where
  "sub_segs f [] = ret []"
| "sub_segs f (Chr c # gs) = bind (sub_segs f gs) (\<lambda>rest. ret (c # rest))"
| "sub_segs f (Tok t # gs) = bind (f t) (\<lambda>r. bind (sub_segs f gs) (\<lambda>rest. ret (r @ rest)))"

lemma sub_matches_Chr:
  assumes "p < length src"
  shows "sub_matches f src p (matches_of (Suc p + k) gs)
     = bind (sub_matches f src (Suc p) (matches_of (Suc p + k) gs)) (\<lambda>rest. ret (src ! p # rest))"
proof -
  have *: "drop p src = src ! p # drop (Suc p) src" using assms by (simp add: Cons_nth_drop_Suc)
  have le: "p' \<le> fst m" if "m \<in> set (matches_of p' gs)" for p' m gs
    using that by (induction p' gs rule: matches_of.induct) auto
  show ?thesis
  proof (cases "matches_of (Suc p + k) gs")
    case Nil
    then show ?thesis by (simp add: *)
  next
    case (Cons m ms)
    have "Suc p \<le> fst m" using le [of m "Suc p + k" gs] Cons by simp
    then have "pyslice src p (fst m) = src ! p # pyslice src (Suc p) (fst m)"
      by (simp add: pyslice_def * Suc_diff_Suc [symmetric] take_Suc_Cons del: drop_Suc)
    with Cons show ?thesis by (simp add: bind_assoc)
  qed
qed

lemma sub_matches_segs:
  "src = pre @ segs_text gs \<Longrightarrow> sub_matches f src (length pre) (matches_of (length pre) gs) = sub_segs f gs"
proof (induction gs arbitrary: pre)
  case (Cons g gs)
  show ?case
  proof (cases g)
    case (Chr c)
    with Cons.prems have src: "src = (pre @ [c]) @ segs_text gs" "length pre < length src" "src ! length pre = c"
      by (simp_all add: segs_text_def)
    with Cons.IH [OF src(1)] sub_matches_Chr [OF src(2), of f 0 gs] Chr show ?thesis by simp
  next
    case (Tok t)
    with Cons.prems have src: "src = (pre @ t) @ segs_text gs" by (simp add: segs_text_def)
    have "group_text src (length pre, length pre + length t, tok_groups (length pre) (length t - 38)) 0 = t"
      using src by (simp add: group_text_def group_span_def pyslice_def)
    with Cons.IH [OF src] Tok show ?thesis by (simp add: pyslice_empty)
  qed
qed (simp add: segs_text_def)

theorem token_sub_segs: "token_sub f src = sub_segs f (tok_split src)"
  using sub_matches_segs [of src "[]" "tok_split src" f] by (simp add: token_sub_def finditer_TOKEN)

lemma matches_of_tokens: "matches_of p gs \<noteq> [] \<longleftrightarrow> (\<exists>t. Tok t \<in> set gs)"
  by (induction p gs rule: matches_of.induct) auto

lemma has_token_iff: "has_token src \<longleftrightarrow> (\<exists>t. Tok t \<in> set (tok_split src))"
proof -
  have "has_token src \<longleftrightarrow> finditer TOKEN_PATTERN src \<noteq> []"
    by (subst finditer_def, subst finditer_from.simps)
      (auto simp: has_token_def re_matches_def re_search_def split: option.splits)
  also have "\<dots> \<longleftrightarrow> (\<exists>t. Tok t \<in> set (tok_split src))"
    unfolding finditer_TOKEN by (simp add: matches_of_tokens)
  finally show ?thesis .
qed

text \<open>What a replacement yields, piece by piece.\<close>

fun seg_yields :: "(ustr \<Rightarrow> (ustr, 's) act) \<Rightarrow> seg \<Rightarrow> ustr \<Rightarrow> bool" where
  "seg_yields f (Chr c) r \<longleftrightarrow> r = [c]"
| "seg_yields f (Tok t) r \<longleftrightarrow> yields f t r"

lemma sub_segs_yields:
  "sub_segs f gs s = (Inr out, t) \<Longrightarrow> \<exists>rs. list_all2 (seg_yields f) gs rs \<and> out = concat rs"
proof (induction f gs arbitrary: s out rule: sub_segs.induct)
  case (2 f c gs)
  then obtain rest where "sub_segs f gs s = (Inr rest, t)" "out = c # rest" by (auto simp: bind_Inr)
  with "2.IH" obtain rs where "list_all2 (seg_yields f) gs rs" "out = concat ([c] # rs)" by fastforce
  then show ?case by (metis list.rel_intros(2) seg_yields.simps(1))
next
  case (3 f t' gs)
  then obtain r u rest where r: "f t' s = (Inr r, u)" "sub_segs f gs u = (Inr rest, t)" "out = r @ rest"
    by (auto simp: bind_Inr)
  with "3.IH" obtain rs where "list_all2 (seg_yields f) gs rs" "out = concat (r # rs)" by fastforce
  with yieldsI [of f t' s r u, OF r(1)] show ?case by (metis list.rel_intros(2) seg_yields.simps(2))
qed auto

lemma token_sub_yields:
  "token_sub f src s = (Inr out, t) \<Longrightarrow> \<exists>rs. list_all2 (seg_yields f) (tok_split src) rs \<and> out = concat rs"
  by (simp add: token_sub_segs sub_segs_yields)

end
