(* ===== verification/Search.thy ===== *)
theory Search
  imports Effects VaultFacts
begin

text \<open>
  Local search patterns, \<^verbatim>\<open>gateway/tools/search.py\<close>: a restored value enters a regular expression as
  literal text and a glob only when it has no glob operators.  \<open>restore_literal\<close> is the caller's callback.
\<close>

subsection \<open>String methods\<close>

text \<open>\<open>s.replace(old, new)\<close> for a non-empty \<open>old\<close>.\<close>

function py_replace :: "ustr \<Rightarrow> ustr \<Rightarrow> ustr \<Rightarrow> ustr" where
  "py_replace old new s =
     (case s of
        [] \<Rightarrow> []
      | c # r \<Rightarrow> if old \<noteq> [] \<and> starts_with s old then new @ py_replace old new (drop (length old) s)
                 else c # py_replace old new r)"
  by pat_completeness auto
termination by (relation "measure (\<lambda>(old, new, s). length s)") auto

declare py_replace.simps [simp del]

lemma py_replace_Nil [simp]: "py_replace old new [] = []" by (simp add: py_replace.simps)

text \<open>The characters \<open>re.escape\<close> puts a backslash before: \<open>()[]{}?*+-|^$\.&~#\<close> and white space.\<close>

definition re_special :: "cp \<Rightarrow> bool" where
  "re_special c \<longleftrightarrow> c \<in> set (lit ''()[]{}?*+-|^$.&~# '' @ [92, 9, 10, 13, 11, 12])"

fun re_escape :: "ustr \<Rightarrow> ustr" where
  "re_escape [] = []"
| "re_escape (c # s) = (if re_special c then 92 # c # re_escape s else c # re_escape s)"

subsection \<open>Patterns\<close>

definition escaped_value :: "ustr \<Rightarrow> ustr" where
  "escaped_value v = py_replace [92, 13] [92, 114] (py_replace [92, 10] [92, 110] (re_escape v))"

definition regex_value :: "(ustr \<Rightarrow> (ustr, 's) act) \<Rightarrow> bool \<Rightarrow> ustr \<Rightarrow> (ustr, 's) act" where
  "regex_value restore_literal fixed token =
     bind (restore_literal token) (\<lambda>v.
     bind (guard (0 \<notin> set v) ValueError) (\<lambda>_. ret (if fixed then v else escaped_value v)))"

definition restore_regex :: "(ustr \<Rightarrow> (ustr, 's) act) \<Rightarrow> bool \<Rightarrow> ustr \<Rightarrow> (ustr, 's) act" where
  "restore_regex restore_literal fixed pattern =
     bind (guard (0 \<notin> set pattern) ValueError) (\<lambda>_.
     if \<not> has_token pattern then restore_literal pattern
     else token_sub (regex_value restore_literal fixed) pattern)"

text \<open>A brace expression \<open>\{([^{}]+)\}\<close>.\<close>

definition BRACES :: re where
  "BRACES = RSeqs [RChr 123, RGrp 1 (RPlus (RSet (\<lambda>c. c \<noteq> 123 \<and> c \<noteq> 125))), RChr 125]"

definition alternatives_ok :: "ustr list \<Rightarrow> bool" where
  "alternatives_ok alts \<longleftrightarrow> 2 \<le> length alts
     \<and> list_all (\<lambda>a. a \<noteq> [] \<and> a \<notin> {lit ''.'', lit ''..''} \<and> 47 \<notin> set a) alts"

fun without_braces :: "ustr \<Rightarrow> rmatch list \<Rightarrow> ustr \<Rightarrow> ustr res" where
  "without_braces pattern [] rest = Inr rest"
| "without_braces pattern (m # ms) rest =
     (if alternatives_ok (split_on 44 (group_text pattern m 1))
      then without_braces pattern ms (py_replace (group_text pattern m 0) (lit ''glob'') rest)
      else Inl ValueError)"

definition glob_char_ok :: "cp \<Rightarrow> bool" where
  "glob_char_ok c \<longleftrightarrow> c \<notin> {0, 13, 10, 92, 58}"

definition validate_glob :: "ustr \<Rightarrow> ustr res" where
  "validate_glob pattern =
     (if pattern = [] \<or> 4096 < length pattern \<or> \<not> list_all glob_char_ok pattern
         \<or> starts_with pattern [47] \<or> starts_with pattern [126] \<or> starts_with pattern [33]
         \<or> lit ''..'' \<in> set (split_on 47 pattern)
      then Inl ValueError
      else rbind (without_braces pattern (finditer BRACES pattern) pattern) (\<lambda>rest.
        if 123 \<in> set rest \<or> 125 \<in> set rest then Inl ValueError else Inr pattern))"

definition glob_operator :: "cp \<Rightarrow> bool" where
  "glob_operator c \<longleftrightarrow> c \<in> set (lit ''*?[]{}!'') \<or> c = 92"

definition glob_value :: "(ustr \<Rightarrow> (ustr, 's) act) \<Rightarrow> ustr \<Rightarrow> (ustr, 's) act" where
  "glob_value restore_literal token =
     bind (restore_literal token) (\<lambda>v. bind (guard (\<not> list_ex glob_operator v) ValueError) (\<lambda>_. ret v))"

definition restore_glob :: "(ustr \<Rightarrow> (ustr, 's) act) \<Rightarrow> ustr \<Rightarrow> (ustr, 's) act" where
  "restore_glob restore_literal pattern =
     (if \<not> has_token pattern then bind (restore_literal pattern) (\<lambda>v. lift (validate_glob v))
      else bind (token_sub (glob_value restore_literal) pattern) (\<lambda>v. lift (validate_glob v)))"

subsection \<open>Restored values are literal text of a pattern\<close>

text \<open>
  How a regular expression is read: a backslash takes the next character with it.  An atom without a
  backslash is an operator when its character is special.
\<close>

fun regex_atoms :: "ustr \<Rightarrow> (bool \<times> cp) list" where
  "regex_atoms [] = []"
| "regex_atoms [c] = [(False, c)]"
| "regex_atoms (c # d # s) = (if c = 92 then (True, d) # regex_atoms s else (False, c) # regex_atoms (d # s))"

definition value_atom :: "cp \<Rightarrow> bool \<times> cp" where
  \<comment> \<open>the atom that stands for one character of a value\<close>
  "value_atom c = (if c = 10 then (True, 110) else if c = 13 then (True, 114) else (re_special c, c))"

definition atom_text :: "bool \<times> cp \<Rightarrow> ustr" where
  "atom_text a = (if fst a then [92, snd a] else [snd a])"

lemma re_special_simps [simp]: "re_special 92" "re_special 10" "re_special 13"
  by (simp_all add: re_special_def)

lemma re_escape_atoms: "re_escape v = concat (map (\<lambda>c. atom_text (re_special c, c)) v)"
  by (induction v) (simp_all add: atom_text_def)

text \<open>Replacing a two-character escape in a list of atoms.\<close>

definition escaping :: "cp \<Rightarrow> bool \<times> cp \<Rightarrow> bool" where
  "escaping x a \<longleftrightarrow> fst a \<or> snd a \<noteq> 92 \<and> snd a \<noteq> x"

lemma take_atoms: "\<forall>a \<in> set as. escaping x a \<Longrightarrow> x \<noteq> 92 \<Longrightarrow> take (Suc 0) (concat (map atom_text as)) \<noteq> [x]"
  by (cases as) (auto simp: escaping_def atom_text_def)

lemma replace_escape:
  assumes "\<forall>a \<in> set as. escaping x a" and "x \<noteq> 92"
  shows "py_replace [92, x] [92, y] (concat (map atom_text as))
     = concat (map (\<lambda>a. atom_text (if a = (True, x) then (True, y) else a)) as)"
  using assms(1)
proof (induction as)
  case (Cons a as)
  obtain e c where a: "a = (e, c)" by (cases a)
  have tail: "take (Suc 0) (concat (map atom_text as)) \<noteq> [x]"
    using take_atoms [of as x] Cons.prems assms(2) by simp
  have one: "py_replace [92, x] [92, y] (d # s) = d # py_replace [92, x] [92, y] s"
    if "d \<noteq> 92 \<or> take (Suc 0) s \<noteq> [x]" for d s
    using that by (subst py_replace.simps) (auto simp: starts_with_def)
  have two: "py_replace [92, x] [92, y] (92 # x # s) = 92 # y # py_replace [92, x] [92, y] s" for s
    by (subst py_replace.simps) (simp add: starts_with_def)
  show ?case
  proof (cases e)
    case True
    with Cons a tail assms(2) show ?thesis
      by (cases "c = x") (simp_all add: atom_text_def [of "(True, _)"] one two)
  next
    case False
    with Cons a show ?thesis by (simp add: atom_text_def [of "(False, _)"] escaping_def one)
  qed
qed simp

lemma escaped_value_atoms: "escaped_value v = concat (map (\<lambda>c. atom_text (value_atom c)) v)"
proof -
  have "py_replace [92, 10] [92, 110] (re_escape v) = py_replace [92, 10] [92, 110]
      (concat (map atom_text (map (\<lambda>c. (re_special c, c)) v)))" by (simp add: re_escape_atoms comp_def)
  also have "\<dots> = concat (map (\<lambda>a. atom_text (if a = (True, 10) then (True, 110) else a)) (map (\<lambda>c. (re_special c, c)) v))"
    by (rule replace_escape) (auto simp: escaping_def)
  also have "\<dots> = concat (map atom_text (map (\<lambda>c. if c = 10 then (True, 110) else (re_special c, c)) v))"
    by (auto intro!: arg_cong [of _ _ concat])
  finally have "escaped_value v = py_replace [92, 13] [92, 114]
      (concat (map atom_text (map (\<lambda>c. if c = 10 then (True, 110) else (re_special c, c)) v)))"
    by (simp add: escaped_value_def)
  also have "\<dots> = concat (map (\<lambda>a. atom_text (if a = (True, 13) then (True, 114) else a))
      (map (\<lambda>c. if c = 10 then (True, 110) else (re_special c, c)) v))"
    by (rule replace_escape) (auto simp: escaping_def)
  also have "\<dots> = concat (map (\<lambda>c. atom_text (value_atom c)) v)"
    by (auto simp: value_atom_def intro!: arg_cong [of _ _ concat])
  finally show ?thesis .
qed

lemma atom_text_read:
  "fst a \<or> snd a \<noteq> 92 \<Longrightarrow> regex_atoms (atom_text a @ s) = a # regex_atoms s"
  by (cases a; cases s) (auto simp: atom_text_def)

lemma value_atom_ok: "fst (value_atom c) \<or> snd (value_atom c) \<noteq> 92"
  by (auto simp: value_atom_def)

lemma regex_atoms_value: "regex_atoms (escaped_value v @ s) = map value_atom v @ regex_atoms s"
  unfolding escaped_value_atoms by (induction v) (simp_all add: atom_text_read value_atom_ok)

definition operator_atom :: "bool \<times> cp \<Rightarrow> bool" where
  "operator_atom a \<longleftrightarrow> \<not> fst a \<and> re_special (snd a)"

lemma value_atoms_literal [simp]: "filter operator_atom (map value_atom v) = []"
  by (auto simp: filter_empty_conv operator_atom_def value_atom_def)

text \<open>No token of the pattern directly follows a backslash that would take its first character.\<close>

fun tokens_unescaped :: "bool \<Rightarrow> seg list \<Rightarrow> bool" where
  "tokens_unescaped pending [] \<longleftrightarrow> True"
| "tokens_unescaped pending (Chr c # gs) \<longleftrightarrow> tokens_unescaped (\<not> pending \<and> c = 92) gs"
| "tokens_unescaped pending (Tok t # gs) \<longleftrightarrow> \<not> pending \<and> tokens_unescaped False gs"

lemma special_codes:
  "re_special c \<longleftrightarrow> c \<in> {9, 10, 11, 12, 13, 32, 35, 36, 38, 40, 41, 42, 43, 45, 46, 63, 91, 92, 93, 94, 123, 124, 125, 126}"
  "glob_operator c \<longleftrightarrow> c \<in> {33, 42, 63, 91, 92, 93, 123, 125}"
  by (auto simp: re_special_def glob_operator_def lit_def of_char_def)

lemma token_chars: "is_token t \<Longrightarrow> c \<in> set t \<Longrightarrow> is_ent c \<or> c \<in> {49, 58, 60, 62, 118} \<or> is_lower_hex c"
  by (erule is_tokenE) (auto simp: token_string_def lit_v1 entity_ok_def tag_ok_def)

lemma token_plain: "is_token t \<Longrightarrow> c \<in> set t \<Longrightarrow> \<not> re_special c \<and> \<not> glob_operator c"
  using token_chars [of t c] unfolding special_codes
  by (auto simp: is_ent_def is_upper_def ascii_digit_def is_lower_hex_def)

lemma regex_atoms_plain:
  "\<forall>c \<in> set t. \<not> re_special c \<Longrightarrow> regex_atoms (t @ s) = map (Pair False) t @ regex_atoms s"
proof (induction t)
  case (Cons c t)
  then have "c \<noteq> 92" by auto
  with Cons show ?case by (cases "t @ s") auto
qed simp

lemma plain_atoms_literal: "\<forall>c \<in> set t. \<not> re_special c \<Longrightarrow> filter operator_atom (map (Pair False) t) = []"
  by (auto simp: filter_empty_conv operator_atom_def)

lemma regex_atoms_Cons: "c \<noteq> 92 \<Longrightarrow> regex_atoms (c # s) = (False, c) # regex_atoms s"
  by (cases s) auto

lemma same_operators:
  assumes "list_all2 (seg_yields (regex_value rl False)) gs rs" and "tokens_unescaped pending gs"
    and "\<And>t. Tok t \<in> set gs \<Longrightarrow> is_token t"
  shows "filter operator_atom (regex_atoms ((if pending then [92] else []) @ concat rs))
     = filter operator_atom (regex_atoms ((if pending then [92] else []) @ segs_text gs))"
  using assms
proof (induction gs arbitrary: rs pending)
  case (Cons g gs)
  then obtain r rs' where r: "rs = r # rs'" "seg_yields (regex_value rl False) g r"
    and rs': "list_all2 (seg_yields (regex_value rl False)) gs rs'"
    by (auto simp: list_all2_Cons1)
  have tok: "\<And>t. Tok t \<in> set gs \<Longrightarrow> is_token t" using Cons.prems(3) by simp
  show ?case
  proof (cases g)
    case (Chr c)
    note IH = Cons.IH [OF rs' _ tok]
    show ?thesis
    proof (cases "\<not> pending \<and> c = 92")
      case True
      with IH [of True] Cons.prems(2) Chr r show ?thesis by (simp add: segs_text_def)
    next
      case False
      with IH [of False] Cons.prems(2) Chr r show ?thesis
        by (cases pending) (simp_all add: segs_text_def regex_atoms_Cons)
    qed
  next
    case (Tok t)
    with r obtain v where v: "r = escaped_value v" by (auto simp: yields_def regex_value_def bind_Inr)
    from Tok Cons.prems(3) have "is_token t" by simp
    then have plain: "\<forall>c \<in> set t. \<not> re_special c" using token_plain by blast
    from Tok Cons.prems(2) have "\<not> pending" "tokens_unescaped False gs" by simp_all
    with Cons.IH [OF rs' this(2) tok] Tok r(1) v show ?thesis
      by (simp add: segs_text_def regex_atoms_value regex_atoms_plain [OF plain] plain_atoms_literal [OF plain])
  qed
qed (simp add: segs_text_def)

text \<open>
  Restored values cannot add syntax to a search pattern: when a pattern with tokens is restored, the
  operators of the result are, in order, exactly the operators of the pattern as it was authored, whatever
  the values are.  The exception is a token directly behind a backslash, which is excluded here:
  there the backslash of the authored text and the one that escapes the value pair up, and the first
  character of the value becomes an operator (\<open>escaped_token_opens_pattern\<close>).
\<close>

theorem restored_regex_same_operators:
  assumes "restore_regex rl False pattern s = (Inr out, t)" and "has_token pattern"
    and "tokens_unescaped False (tok_split pattern)"
  shows "filter operator_atom (regex_atoms out) = filter operator_atom (regex_atoms pattern)"
proof -
  from assms(1,2) have "token_sub (regex_value rl False) pattern s = (Inr out, t)"
    by (auto simp: restore_regex_def bind_Inr)
  from token_sub_yields [OF this] obtain rs where
    "list_all2 (seg_yields (regex_value rl False)) (tok_split pattern) rs" "out = concat rs" by blast
  from same_operators [OF this(1) assms(3) tok_split_tokens] this(2) show ?thesis by simp
qed

subsection \<open>Restored values of a glob\<close>

definition glob_ok :: "ustr \<Rightarrow> bool" where
  "glob_ok g \<longleftrightarrow> g \<noteq> [] \<and> length g \<le> 4096 \<and> list_all glob_char_ok g \<and> hd g \<notin> {47, 126, 33}
     \<and> lit ''..'' \<notin> set (split_on 47 g)"

lemma validate_glob_ok: "validate_glob g = Inr g' \<Longrightarrow> g' = g \<and> glob_ok g"
  by (cases g) (auto simp: validate_glob_def glob_ok_def rbind_eq_Inr starts_with_def split: if_splits)

lemma same_glob_operators:
  assumes "list_all2 (seg_yields (glob_value rl)) gs rs" and "\<And>t. Tok t \<in> set gs \<Longrightarrow> is_token t"
  shows "filter glob_operator (concat rs) = filter glob_operator (segs_text gs)"
  using assms
proof (induction gs arbitrary: rs)
  case (Cons g gs)
  then obtain r rs' where r: "rs = r # rs'" "seg_yields (glob_value rl) g r" "list_all2 (seg_yields (glob_value rl)) gs rs'"
    by (auto simp: list_all2_Cons1)
  have "filter glob_operator r = filter glob_operator (seg_text g)"
  proof (cases g)
    case (Tok t)
    with r(2) have "filter glob_operator r = []"
      by (auto simp: yields_def glob_value_def bind_Inr list_ex_iff filter_empty_conv)
    moreover have "filter glob_operator t = []"
      using token_plain Cons.prems(2) [of t] Tok by (auto simp: filter_empty_conv)
    ultimately show ?thesis using Tok by simp
  qed (use r(2) in simp)
  with Cons.IH [OF r(3)] Cons.prems(2) r(1) show ?case by (simp add: segs_text_def)
qed (simp add: segs_text_def)

text \<open>
  A restored glob stays below its search root, whatever the values are: it is not absolute, is no
  negation or home reference and has no parent component; and its operators are, in order, those of the
  authored glob.
\<close>

theorem restored_glob_stays_relative:
  assumes "restore_glob rl pattern s = (Inr out, t)" and "has_token pattern"
  shows "glob_ok out \<and> filter glob_operator out = filter glob_operator pattern"
proof -
  from assms obtain x where "token_sub (glob_value rl) pattern s = (Inr x, t)" "validate_glob x = Inr out"
    by (auto simp: restore_glob_def bind_Inr)
  with validate_glob_ok [of x out] have v: "validate_glob out = Inr out" and "token_sub (glob_value rl) pattern s = (Inr out, t)"
    by auto
  from token_sub_yields [OF this(2)] obtain rs where
    "list_all2 (seg_yields (glob_value rl)) (tok_split pattern) rs" "out = concat rs" by blast
  from same_glob_operators [OF this(1) tok_split_tokens] this(2) v show ?thesis
    by (simp add: validate_glob_ok)
qed

subsection \<open>Concrete patterns\<close>

lemma sub_one_token: "is_token t \<Longrightarrow> token_sub f t s = f t s"
  using tok_split_token [of t "[]"]
  by (simp add: token_sub_segs bind_def ret_def split: prod.splits sum.splits)

lemma sub_after_char:
  "is_token t \<Longrightarrow> c \<noteq> 60 \<Longrightarrow> tok_split (c # t) = [Chr c, Tok t]"
  using tok_split_token [of t "[]"] tok_len_head [of c t] by (cases "tok_len (c # t)") (auto simp: tok_split_Chr)

text \<open>The value \<open>(x\<close> in the patterns \<open>a<...>\<close> and \<open>\<close>, backslash, \<open><...>\<close>.\<close>

definition opening_value :: "ustr \<Rightarrow> (ustr, unit) act" where
  "opening_value _ = ret [40, 120]"

lemma restore_after_char:
  assumes "c \<noteq> 60" and "c \<noteq> 0"
  shows "restore_regex opening_value False (c # sample_token) () = (Inr [c, 92, 40, 120], ())"
proof -
  have "0 \<notin> set sample_token"
    using token_chars [OF sample_token_is_token, of 0] by (auto simp: is_ent_def is_upper_def ascii_digit_def is_lower_hex_def)
  moreover have "has_token (c # sample_token)"
    unfolding has_token_iff sub_after_char [OF sample_token_is_token assms(1)] by auto
  moreover have "regex_value opening_value False sample_token () = (Inr [92, 40, 120], ())"
    by (simp add: regex_value_def bind_def opening_value_def ret_def guard_def escaped_value_atoms value_atom_def
        special_codes atom_text_def)
  ultimately show ?thesis using assms
    by (simp add: restore_regex_def bind_def guard_def token_sub_segs sub_after_char [OF sample_token_is_token assms(1)] ret_def)
qed

lemma escaped_token_opens_pattern:
  "\<exists>out. restore_regex opening_value False (92 # sample_token) () = (Inr out, ())
     \<and> (False, 40) \<in> set (regex_atoms out) \<and> (False, 40) \<notin> set (regex_atoms (92 # sample_token))"
proof -
  have "40 \<notin> set sample_token"
    using token_plain [OF sample_token_is_token, of 40] by (auto simp: special_codes)
  moreover have "snd a \<in> set s" if "a \<in> set (regex_atoms s)" for a s
    using that by (induction s rule: regex_atoms.induct) (auto split: if_splits)
  ultimately have "(False, 40) \<notin> set (regex_atoms (92 # sample_token))" by fastforce
  with restore_after_char [of 92] show ?thesis by simp
qed

theorem restored_regex_same_operators_witness:
  "\<exists>out. restore_regex opening_value False (97 # sample_token) () = (Inr out, ())
     \<and> filter operator_atom (regex_atoms out) = filter operator_atom (regex_atoms (97 # sample_token))"
proof -
  have split: "tok_split (97 # sample_token) = [Chr 97, Tok sample_token]"
    by (rule sub_after_char [OF sample_token_is_token]) simp
  have r: "restore_regex opening_value False (97 # sample_token) () = (Inr [97, 92, 40, 120], ())"
    by (rule restore_after_char) simp_all
  have "has_token (97 # sample_token)" unfolding has_token_iff split by auto
  from restored_regex_same_operators [OF r this] r split show ?thesis by auto
qed

definition plain_value :: "ustr \<Rightarrow> (ustr, unit) act" where
  "plain_value _ = ret [97, 46, 112, 121]"

theorem restored_glob_stays_relative_witness:
  "\<exists>out. restore_glob plain_value (42 # sample_token) () = (Inr out, ())
     \<and> glob_ok out \<and> filter glob_operator out = filter glob_operator (42 # sample_token)"
proof -
  have split: "tok_split (42 # sample_token) = [Chr 42, Tok sample_token]"
    by (rule sub_after_char [OF sample_token_is_token]) simp
  have token: "has_token (42 # sample_token)" unfolding has_token_iff split by auto
  have "finditer BRACES [42, 97, 46, 112, 121] = []"
    by (simp add: BRACES_def finditer_def finditer_from.simps search_from.simps match_at_def RChr_def)
  then have "validate_glob [42, 97, 46, 112, 121] = Inr [42, 97, 46, 112, 121]"
    by (simp add: validate_glob_def glob_char_ok_def starts_with_def lit_def of_char_def)
  with token have r: "restore_glob plain_value (42 # sample_token) () = (Inr [42, 97, 46, 112, 121], ())"
    by (simp add: restore_glob_def token_sub_segs split bind_def glob_value_def plain_value_def ret_def guard_def lift_def
        glob_operator_def lit_def of_char_def)
  from restored_glob_stays_relative [OF r token] r show ?thesis by auto
qed

end
