(* ===== verification/Shell.thy ===== *)
theory Shell
  imports Search
begin

text \<open>
  Restoration inside shell commands, \<^verbatim>\<open>gateway/tools/shell.py\<close>: a command is split into words, the
  tokens in its arguments are restored, and the words are quoted again.  \<open>shlex_split\<close> and \<open>shlex_quote\<close>
  are the library's \<open>shlex.split(s, posix=True)\<close> and \<open>shlex.quote\<close>.
\<close>

subsection \<open>Splitting and quoting\<close>

datatype lexst = Space | Word | Quote cp | EscWord | EscQuote cp

definition lex_space :: "cp \<Rightarrow> bool" where "lex_space c \<longleftrightarrow> c \<in> {32, 9, 13, 10}"

definition emit :: "ustr \<Rightarrow> bool \<Rightarrow> ustr list res \<Rightarrow> ustr list res" where
  \<comment> \<open>a word that is empty and was not quoted is no word\<close>
  "emit tok quoted rest = (if tok = [] \<and> \<not> quoted then rest else rbind rest (\<lambda>ws. Inr (tok # ws)))"

fun shlex :: "lexst \<Rightarrow> ustr \<Rightarrow> bool \<Rightarrow> ustr \<Rightarrow> ustr list res" where
  "shlex Space tok q [] = Inr []"
| "shlex Word tok q [] = emit tok q (Inr [])"
| "shlex st tok q [] = Inl ValueError"
| "shlex Space tok q (c # s) =
     (if lex_space c then shlex Space [] False s
      else if c = 92 then shlex EscWord [] False s
      else if c = 39 \<or> c = 34 then shlex (Quote c) [] False s
      else shlex Word [c] False s)"
| "shlex Word tok q (c # s) =
     (if lex_space c then emit tok q (shlex Space [] False s)
      else if c = 39 \<or> c = 34 then shlex (Quote c) tok q s
      else if c = 92 then shlex EscWord tok q s
      else shlex Word (tok @ [c]) q s)"
| "shlex (Quote d) tok q (c # s) =
     (if c = d then shlex Word tok True s
      else if c = 92 \<and> d = 34 then shlex (EscQuote d) tok True s
      else shlex (Quote d) (tok @ [c]) True s)"
| "shlex EscWord tok q (c # s) = shlex Word (tok @ [c]) q s"
| "shlex (EscQuote d) tok q (c # s) =
     shlex (Quote d) (if c \<noteq> 92 \<and> c \<noteq> d then tok @ [92, c] else tok @ [c]) q s"

definition shlex_split :: "ustr \<Rightarrow> ustr list res" where
  "shlex_split s = shlex Space [] False s"

definition shell_safe :: "cp \<Rightarrow> bool" where
  "shell_safe c \<longleftrightarrow> ascii_alpha c \<or> ascii_digit c \<or> c = 95 \<or> c \<in> set (lit ''@%+=:,./-'')"

definition shlex_quote :: "ustr \<Rightarrow> ustr" where
  "shlex_quote s =
     (if s = [] then [39, 39] else if list_all shell_safe s then s
      else [39] @ py_replace [39] [39, 34, 39, 34, 39] s @ [39])"

text \<open>Quoting and splitting are inverse, for every list of words.\<close>

lemma py_replace_char: "py_replace [d] new s = concat (map (\<lambda>c. if c = d then new else [c]) s)"
  by (induction s) (simp_all add: py_replace.simps [of "[d]" new "_ # _"] starts_with_def)

lemma shell_safe_plain: "shell_safe c \<Longrightarrow> \<not> lex_space c \<and> c \<notin> {92, 39, 34}"
  by (auto simp: shell_safe_def lex_space_def ascii_alpha_def ascii_digit_def lit_def of_char_def)

lemma shlex_word: "list_all shell_safe s \<Longrightarrow> shlex Word tok q (s @ rest) = shlex Word (tok @ s) q rest"
  by (induction s arbitrary: tok) (auto dest: shell_safe_plain)

lemma shlex_quoted:
  "shlex (Quote 39) tok True (concat (map (\<lambda>c. if c = 39 then [39, 34, 39, 34, 39] else [c]) s) @ 39 # rest)
     = shlex Word (tok @ s) True rest"
  by (induction s arbitrary: tok) (auto simp: lex_space_def)

lemma shlex_quote_word: "\<exists>q. (w = [] \<longrightarrow> q) \<and> shlex Space [] False (shlex_quote w @ rest) = shlex Word w q rest"
proof -
  consider "w = []" | "w \<noteq> []" "list_all shell_safe w" | "w \<noteq> []" "\<not> list_all shell_safe w" by blast
  then show ?thesis
  proof cases
    case 1
    then show ?thesis by (intro exI [of _ True]) (simp add: shlex_quote_def lex_space_def)
  next
    case 2
    then obtain c s where w: "w = c # s" "shell_safe c" "list_all shell_safe s" by (cases w) auto
    with shell_safe_plain [of c] shlex_word [OF w(3), of "[c]" False rest] 2 show ?thesis
      by (auto simp: shlex_quote_def)
  next
    case 3
    have "shlex Space [] False (39 # s) = shlex (Quote 39) [] True s" for s
      by (cases s) (simp_all add: lex_space_def)
    with shlex_quoted [of "[]" w rest] 3 show ?thesis
      by (intro exI [of _ True]) (simp add: shlex_quote_def py_replace_char)
  qed
qed

lemma split_join_quote: "shlex_split (py_join [32] (map shlex_quote ws)) = Inr ws"
proof (induction ws rule: induct_list012)
  case (2 w)
  obtain q where "w = [] \<longrightarrow> q" "shlex Space [] False (shlex_quote w @ []) = shlex Word w q []"
    using shlex_quote_word [of w "[]"] by blast
  then have "shlex_split (shlex_quote w) = emit w q (Inr [])"
    by (simp only: shlex_split_def append_Nil2 shlex.simps)
  with \<open>w = [] \<longrightarrow> q\<close> show ?case by (auto simp: emit_def)
next
  case (3 w v ws)
  let ?rest = "py_join [32] (map shlex_quote (v # ws))"
  obtain q where q: "w = [] \<longrightarrow> q" "shlex Space [] False (shlex_quote w @ 32 # ?rest) = shlex Word w q (32 # ?rest)"
    using shlex_quote_word [of w "32 # ?rest"] by blast
  have "shlex Word w q (32 # ?rest) = emit w q (shlex Space [] False ?rest)" by (simp add: lex_space_def del: py_join.simps)
  also have "shlex Space [] False ?rest = Inr (v # ws)" using 3(2) by (simp only: shlex_split_def)
  also have "emit w q (Inr (v # ws)) = Inr (w # v # ws)" using q(1) by (auto simp: emit_def)
  finally show ?case using q(2) by (simp add: shlex_split_def del: shlex.simps)
qed (simp add: shlex_split_def)

subsection \<open>The source of a command\<close>

definition unsupported_syntax :: "cp \<Rightarrow> bool" where
  "unsupported_syntax c \<longleftrightarrow> c \<in> {0, 13, 10, 92} \<union> set (lit ''$`;|&<>()*?[]{}!~'')"

fun validate_source :: "cp option \<Rightarrow> bool \<Rightarrow> ustr \<Rightarrow> unit res" where
  "validate_source quote escaped [] = (if quote \<noteq> None \<or> escaped then Inl ShellValidationError else Inr ())"
| "validate_source quote escaped (c # s) =
     (if c \<in> {0, 13, 10} then Inl ShellValidationError
      else if escaped then validate_source quote False s
      else case quote of
        Some q \<Rightarrow>
          if c = q then validate_source None False s
          else if q = 34 \<and> c = 92 then validate_source quote True s
          else if q = 34 \<and> c \<in> {36, 96} then Inl ShellValidationError
          else validate_source quote False s
      | None \<Rightarrow>
          if c = 39 \<or> c = 34 then validate_source (Some c) False s
          else if unsupported_syntax c then Inl ShellValidationError
          else validate_source None False s)"

lemma starts_with_length: "starts_with s p \<Longrightarrow> length p \<le> length s"
  by (metis length_take min.cobounded1 starts_with_def)

lemma is_infix_length: "is_infix p s \<Longrightarrow> length p \<le> length s"
  by (induction p s rule: is_infix.induct) (auto dest: starts_with_length)

function marker_prefix :: "ustr \<Rightarrow> ustr \<Rightarrow> ustr" where
  "marker_prefix command p = (if is_infix p command then marker_prefix command (p @ [88]) else p)"
  by pat_completeness auto
termination by (relation "measure (\<lambda>(command, p). Suc (length command) - length p)") (auto dest: is_infix_length)

declare marker_prefix.simps [simp del]

definition mask_token :: "ustr \<Rightarrow> ustr \<Rightarrow> (ustr, (ustr \<times> ustr) list) act" where
  "mask_token prefix token placeholders =
     (let marker = prefix @ dec_nat (length placeholders) @ [90]
      in (Inr marker, AList.update marker token placeholders))"

fun unmask :: "(ustr \<times> ustr) list \<Rightarrow> ustr \<Rightarrow> ustr" where
  "unmask [] v = v"
| "unmask ((marker, token) # ps) v = unmask ps (py_replace marker token v)"

definition command_words :: "ustr \<Rightarrow> ustr list res" where
  \<comment> \<open>the words of a command, with the tokens in them\<close>
  "command_words command =
     (case token_sub (mask_token (marker_prefix command (lit ''CLOAKSPAN_LITERAL_''))) command [] of
        (Inl e, _) \<Rightarrow> Inl e
      | (Inr masked, placeholders) \<Rightarrow>
          rbind (validate_source None False masked) (\<lambda>_.
          case shlex_split masked of
            Inl _ \<Rightarrow> Inl ShellValidationError
          | Inr argv \<Rightarrow> if argv = [] \<or> 256 < length argv then Inl ShellValidationError
                        else Inr (map (unmask placeholders) argv)))"

subsection \<open>The programs\<close>

definition READ_FLAGS :: "(string \<times> string list) list" where
  "READ_FLAGS =
     [(''cat'', [''-n'', ''-b'', ''-s'', ''--'']), (''ls'', [''-a'', ''-l'', ''-la'', ''-al'', ''-h'', ''-R'', ''--'']),
      (''wc'', [''-l'', ''-w'', ''-c'', ''-m'', ''--'']), (''stat'', [''--'']), (''head'', [''--'']), (''tail'', [''--'']),
      (''touch'', [''--'']), (''mkdir'', [''-p'', ''--'']), (''cp'', [''--'']), (''mv'', [''--''])]"

definition TEST_FLAGS :: "string list" where
  "TEST_FLAGS = [''-q'', ''-v'', ''-vv'', ''-x'', ''--disable-warnings'', ''--maxfail=1'']"

definition SEARCH_FLAGS :: "string list" where
  "SEARCH_FLAGS = [''-n'', ''--line-number'', ''-i'', ''--ignore-case'', ''-l'', ''--files-with-matches'', ''-c'', ''--count'',
     ''-o'', ''--only-matching'', ''-F'', ''--fixed-strings'', ''-U'', ''--multiline'', ''--multiline-dotall'', ''--hidden'',
     ''--no-heading'', ''--files'', ''-q'', ''--quiet'']"

definition SEARCH_OPTIONS :: "string list" where
  "SEARCH_OPTIONS = [''-e'', ''--regexp'', ''-g'', ''--glob'', ''-t'', ''--type'', ''-A'', ''-B'', ''-C'', ''-m'', ''--max-count'']"

definition one_of :: "ustr \<Rightarrow> string list \<Rightarrow> bool" where
  "one_of w names \<longleftrightarrow> w \<in> lit ` set names"

abbreviation dashed :: "ustr \<Rightarrow> bool" where "dashed w \<equiv> starts_with w [45]"

definition digits_upto :: "nat \<Rightarrow> ustr \<Rightarrow> bool" where
  \<comment> \<open>\<open>[0-9]{1,n}\<close>\<close>
  "digits_upto n w \<longleftrightarrow> w \<noteq> [] \<and> length w \<le> n \<and> list_all ascii_digit w"

definition line_count :: "ustr \<Rightarrow> bool" where
  \<comment> \<open>\<open>[1-9][0-9]{0,6}\<close>\<close>
  "line_count w \<longleftrightarrow> digits_upto 7 w \<and> hd w \<noteq> 48"

definition type_name :: "ustr \<Rightarrow> bool" where
  \<comment> \<open>\<open>[A-Za-z][A-Za-z0-9_-]{0,31}\<close>\<close>
  "type_name w \<longleftrightarrow> w \<noteq> [] \<and> length w \<le> 32 \<and> ascii_alpha (hd w)
     \<and> list_all (\<lambda>c. ascii_alpha c \<or> ascii_digit c \<or> c = 95 \<or> c = 45) (tl w)"

type_synonym 's callback = "ustr \<Rightarrow> (ustr, 's) act"

definition refuse :: "('a, 's) act" where "refuse = raise ShellValidationError"

definition path_argument :: "'s callback \<Rightarrow> 's callback \<Rightarrow> 's callback" where
  "path_argument restore_literal validate_path v =
     bind (restore_literal v) (\<lambda>restored.
     bind (guard (\<not> dashed restored) ShellValidationError) (\<lambda>_. validate_path restored))"

definition keep :: "ustr \<Rightarrow> (ustr list, 's) act \<Rightarrow> (ustr list, 's) act" where
  "keep w m = bind m (\<lambda>ws. ret (w # ws))"

definition test_command :: "'s callback \<Rightarrow> ustr list \<Rightarrow> (ustr list, 's) act" where
  "test_command path values =
     (case values of
        [flag, v] \<Rightarrow> if one_of flag [''-f'', ''-d'', ''-e'', ''-r'', ''-w'']
                     then bind (path v) (\<lambda>w. ret [flag, w]) else refuse
      | _ \<Rightarrow> refuse)"

definition printf_command :: "'s callback \<Rightarrow> ustr list \<Rightarrow> (ustr list, 's) act" where
  "printf_command restore_literal values =
     (case values of
        format # vs \<Rightarrow> if format = lit ''%s'' then keep format (emap restore_literal vs) else refuse
      | [] \<Rightarrow> refuse)"

fun pytest_arguments :: "'s callback \<Rightarrow> ustr list \<Rightarrow> (ustr list, 's) act" where
  "pytest_arguments path [] = ret []"
| "pytest_arguments path (v # vs) =
     (if one_of v TEST_FLAGS then keep v (pytest_arguments path vs)
      else if dashed v then refuse
      else bind (path v) (\<lambda>w. keep w (pytest_arguments path vs)))"

definition pytest_command :: "'s callback \<Rightarrow> ustr \<Rightarrow> ustr list \<Rightarrow> (ustr list, 's) act" where
  "pytest_command path program values =
     (if program = lit ''pytest'' then pytest_arguments path values
      else if take 2 values = [lit ''-m'', lit ''pytest'']
      then keep (lit ''-m'') (keep (lit ''pytest'') (pytest_arguments path (drop 2 values)))
      else refuse)"

definition option_argument :: "'s callback \<Rightarrow> 's callback \<Rightarrow> ustr \<Rightarrow> bool \<Rightarrow> bool \<Rightarrow> ustr \<Rightarrow> ustr \<Rightarrow> (ustr, 's) act" where
  "option_argument restore_literal glob program fixed listing option argument =
     (if one_of option [''-e'', ''--regexp'']
      then if listing then refuse else restore_regex restore_literal fixed argument
      else if one_of option [''-g'', ''--glob'']
      then if program \<noteq> lit ''rg'' then refuse else glob argument
      else if one_of option [''-t'', ''--type'']
      then if program \<noteq> lit ''rg'' \<or> \<not> type_name argument then refuse else ret argument
      else if digits_upto 6 argument then ret argument else refuse)"

fun search_arguments :: "'s callback \<Rightarrow> 's callback \<Rightarrow> 's callback \<Rightarrow> ustr \<Rightarrow> bool \<Rightarrow> bool \<Rightarrow> bool \<Rightarrow> bool
    \<Rightarrow> ustr list \<Rightarrow> (ustr list, 's) act" where
  "search_arguments restore_literal path glob program fixed listing flags_ended pattern_seen [] =
     (if \<not> listing \<and> \<not> pattern_seen then refuse else ret [])"
| "search_arguments restore_literal path glob program fixed listing flags_ended pattern_seen (v # vs) =
     (if \<not> flags_ended \<and> v = lit ''--''
      then keep v (search_arguments restore_literal path glob program fixed listing True pattern_seen vs)
      else if \<not> flags_ended \<and> one_of v SEARCH_FLAGS
      then if program = lit ''grep'' \<and> one_of v [''--files'', ''--hidden'', ''-U'', ''--multiline'', ''--multiline-dotall'']
           then refuse
           else keep v (search_arguments restore_literal path glob program fixed listing flags_ended pattern_seen vs)
      else if \<not> flags_ended \<and> one_of v SEARCH_OPTIONS
      then case vs of
             [] \<Rightarrow> refuse
           | a # vs' \<Rightarrow>
               bind (option_argument restore_literal glob program fixed listing v a) (\<lambda>w.
               keep v (keep w (search_arguments restore_literal path glob program fixed listing flags_ended
                 (pattern_seen \<or> one_of v [''-e'', ''--regexp'']) vs')))
      else if dashed v then refuse
      else if \<not> listing \<and> \<not> pattern_seen
      then bind (restore_regex restore_literal fixed v) (\<lambda>w.
           bind (guard (\<not> dashed w) ShellValidationError) (\<lambda>_.
           keep w (search_arguments restore_literal path glob program fixed listing flags_ended True vs)))
      else bind (path v) (\<lambda>w.
           keep w (search_arguments restore_literal path glob program fixed listing flags_ended pattern_seen vs)))"

definition search_command :: "'s callback \<Rightarrow> 's callback \<Rightarrow> 's callback \<Rightarrow> ustr \<Rightarrow> ustr list \<Rightarrow> (ustr list, 's) act" where
  "search_command restore_literal path glob program values =
     search_arguments restore_literal path glob program
       (list_ex (\<lambda>v. one_of v [''-F'', ''--fixed-strings'']) values)
       (program = lit ''rg'' \<and> lit ''--files'' \<in> set values) False False values"

fun find_arguments :: "'s callback \<Rightarrow> 's callback \<Rightarrow> nat \<Rightarrow> bool \<Rightarrow> ustr list \<Rightarrow> (ustr list, 's) act" where
  "find_arguments path glob paths expression [] = (if paths = 0 then refuse else ret [])"
| "find_arguments path glob paths expression (v # vs) =
     (if one_of v [''-name'', ''-iname'']
      then case vs of
             [] \<Rightarrow> refuse
           | a # vs' \<Rightarrow> bind (glob a) (\<lambda>w. keep v (keep w (find_arguments path glob paths True vs')))
      else if one_of v [''-maxdepth'', ''-mindepth'', ''-type'']
      then case vs of
             [] \<Rightarrow> refuse
           | a # vs' \<Rightarrow>
               if v = lit ''-type'' \<and> \<not> one_of a [''f'', ''d''] \<or> v \<noteq> lit ''-type'' \<and> \<not> digits_upto 3 a then refuse
               else keep v (keep a (find_arguments path glob paths True vs'))
      else if v = lit ''-print'' then keep v (find_arguments path glob paths True vs)
      else if dashed v \<or> expression then refuse
      else bind (path v) (\<lambda>w. keep w (find_arguments path glob (Suc paths) expression vs)))"

fun read_arguments :: "'s callback \<Rightarrow> ustr \<Rightarrow> string list \<Rightarrow> nat \<Rightarrow> bool \<Rightarrow> ustr list \<Rightarrow> (ustr list, 's) act" where
  "read_arguments path program flags paths flags_ended [] =
     (if one_of program [''cp'', ''mv''] \<and> paths \<noteq> 2 then refuse
      else if one_of program [''cat'', ''wc'', ''head'', ''tail'', ''stat'', ''touch'', ''mkdir''] \<and> paths = 0 then refuse
      else ret [])"
| "read_arguments path program flags paths flags_ended (v # vs) =
     (if \<not> flags_ended \<and> one_of program [''head'', ''tail''] \<and> v = lit ''-n''
      then case vs of
             [] \<Rightarrow> refuse
           | a # vs' \<Rightarrow> if line_count a then keep v (keep a (read_arguments path program flags paths flags_ended vs'))
                        else refuse
      else if \<not> flags_ended \<and> one_of v flags
      then keep v (read_arguments path program flags paths (v = lit ''--'') vs)
      else if dashed v then refuse
      else bind (path v) (\<lambda>w. keep w (read_arguments path program flags (Suc paths) flags_ended vs)))"

definition read_flags :: "ustr \<Rightarrow> string list option" where
  "read_flags program = map_of (map (\<lambda>(k, v). (lit k, v)) READ_FLAGS) program"

definition restore_arguments :: "'s callback \<Rightarrow> 's callback \<Rightarrow> 's callback \<Rightarrow> ustr \<Rightarrow> ustr list \<Rightarrow> (ustr list, 's) act" where
  "restore_arguments restore_literal validate_path glob program values =
     (let path = path_argument restore_literal validate_path in
      if program = lit ''pwd'' then if values \<noteq> [] then refuse else ret []
      else if program = lit ''test'' then test_command path values
      else if program = lit ''printf'' then printf_command restore_literal values
      else if one_of program [''pytest'', ''python'', ''python3''] then pytest_command path program values
      else if one_of program [''rg'', ''grep''] then search_command restore_literal path glob program values
      else if program = lit ''find'' then find_arguments path glob 0 False values
      else case read_flags program of
             Some flags \<Rightarrow> read_arguments path program flags 0 False values
           | None \<Rightarrow> refuse)"

definition default_glob :: "'s callback \<Rightarrow> 's callback" where
  "default_glob restore_literal pattern = bind (restore_literal pattern) (\<lambda>v. lift (validate_glob v))"

definition restore_shell :: "'s callback \<Rightarrow> 's callback \<Rightarrow> 's callback option \<Rightarrow> ustr \<Rightarrow> (ustr, 's) act" where
  "restore_shell restore_literal validate_path restore_glob_opt command =
     bind (lift (command_words command)) (\<lambda>argv.
     bind (guard (\<not> has_token (hd argv)) ShellValidationError) (\<lambda>_.
     bind (restore_arguments restore_literal validate_path
             (case restore_glob_opt of Some g \<Rightarrow> g | None \<Rightarrow> default_glob restore_literal) (hd argv) (tl argv)) (\<lambda>ws.
     ret (py_join [32] (map shlex_quote (hd argv # ws))))))"

subsection \<open>What restoration may change of a command\<close>

text \<open>Options that take the next word as their value.\<close>

definition VALUE_OPTIONS :: "string list" where
  "VALUE_OPTIONS = SEARCH_OPTIONS @ [''-name'', ''-iname'', ''-maxdepth'', ''-mindepth'', ''-type'', ''-n'']"

text \<open>
  The words of a command before and after: a word stays, or becomes one that is no option, or is the
  value of an option that stays.
\<close>

inductive words_ok :: "ustr list \<Rightarrow> ustr list \<Rightarrow> bool" where
  Nil: "words_ok [] []"
| Same: "words_ok vs ws \<Longrightarrow> words_ok (v # vs) (v # ws)"
| Operand: "\<not> dashed w \<Longrightarrow> words_ok vs ws \<Longrightarrow> words_ok (v # vs) (w # ws)"
| Argument: "one_of v VALUE_OPTIONS \<Longrightarrow> words_ok vs ws \<Longrightarrow> words_ok (v # a # vs) (v # w # ws)"

declare words_ok.intros [intro]

lemma words_ok_refl: "words_ok vs vs" by (induction vs) auto

lemma words_ok_length: "words_ok vs ws \<Longrightarrow> length ws = length vs" by (induction rule: words_ok.induct) auto

lemma keep_Inr: "keep w m s = (Inr ws, t) \<longleftrightarrow> (\<exists>r. m s = (Inr r, t) \<and> ws = w # r)"
  by (auto simp: keep_def bind_Inr)

lemma refuse_Inr [simp]: "refuse s = (Inr x, t) \<longleftrightarrow> False" by (simp add: refuse_def)

definition operands :: "'s callback \<Rightarrow> bool" where
  \<comment> \<open>a callback whose results are no options\<close>
  "operands path \<longleftrightarrow> (\<forall>v s w t. path v s = (Inr w, t) \<longrightarrow> \<not> dashed w)"

lemma operandsD: "operands path \<Longrightarrow> path v s = (Inr w, t) \<Longrightarrow> \<not> dashed w"
  by (auto simp: operands_def)

lemma pytest_ok: "operands path \<Longrightarrow> pytest_arguments path vs s = (Inr ws, t) \<Longrightarrow> words_ok vs ws"
  by (induction vs arbitrary: s ws) (auto simp: keep_Inr bind_Inr split: if_splits dest: operandsD)

lemma search_ok:
  assumes "operands path"
  shows "search_arguments rl path glob program fixed listing ended seen vs s = (Inr ws, t) \<Longrightarrow> words_ok vs ws"
proof (induction vs arbitrary: ended seen s ws rule: length_induct)
  case (1 vs)
  note IH = 1(1) [rule_format]
  show ?case
  proof (cases vs)
    case Nil
    with 1(2) show ?thesis by (auto split: if_splits)
  next
    case (Cons v vs')
    show ?thesis
    proof (cases "\<not> ended \<and> v \<noteq> lit ''--'' \<and> \<not> one_of v SEARCH_FLAGS \<and> one_of v SEARCH_OPTIONS")
      case True
      with 1(2) Cons obtain a vs'' w r u where v: "vs' = a # vs''" "ws = v # w # r"
        "search_arguments rl path glob program fixed listing ended (seen \<or> one_of v [''-e'', ''--regexp'']) vs'' u = (Inr r, t)"
        by (auto simp: keep_Inr bind_Inr split: list.splits if_splits)
      from IH [OF _ v(3)] v Cons have "words_ok vs'' r" by simp
      with True v Cons show ?thesis by (auto simp: VALUE_OPTIONS_def one_of_def)
    next
      case False
      with 1(2) Cons obtain w r u ended' seen' where v: "ws = w # r" "w = v \<or> \<not> dashed w"
        "search_arguments rl path glob program fixed listing ended' seen' vs' u = (Inr r, t)"
        by (auto simp: keep_Inr bind_Inr split: if_splits dest: operandsD [OF assms])
      from IH [OF _ v(3)] v(1,2) Cons show ?thesis by auto
    qed
  qed
qed

lemma find_ok:
  assumes "operands path"
  shows "find_arguments path glob paths expr vs s = (Inr ws, t) \<Longrightarrow> words_ok vs ws"
proof (induction vs arbitrary: paths expr s ws rule: length_induct)
  case (1 vs)
  note IH = 1(1) [rule_format]
  show ?case
  proof (cases vs)
    case Nil
    with 1(2) show ?thesis by (auto split: if_splits)
  next
    case (Cons v vs')
    show ?thesis
    proof (cases "one_of v [''-name'', ''-iname'', ''-maxdepth'', ''-mindepth'', ''-type'']")
      case True
      with 1(2) Cons obtain a vs'' w r u where v: "vs' = a # vs''" "ws = v # w # r"
        "find_arguments path glob paths True vs'' u = (Inr r, t)"
        by (cases vs') (auto simp: keep_Inr bind_Inr one_of_def split: if_splits)
      from IH [OF _ v(3)] v Cons have "words_ok vs'' r" by simp
      with True v Cons show ?thesis by (auto simp: VALUE_OPTIONS_def one_of_def)
    next
      case False
      with 1(2) Cons obtain w r u paths' expr' where v: "ws = w # r" "w = v \<or> \<not> dashed w"
        "find_arguments path glob paths' expr' vs' u = (Inr r, t)"
        by (auto simp: keep_Inr bind_Inr one_of_def split: if_splits dest: operandsD [OF assms])
      from IH [OF _ v(3)] v(1,2) Cons show ?thesis by auto
    qed
  qed
qed

lemma read_ok:
  assumes "operands path"
  shows "read_arguments path program flags paths ended vs s = (Inr ws, t) \<Longrightarrow> words_ok vs ws"
proof (induction vs arbitrary: paths ended s ws rule: length_induct)
  case (1 vs)
  note IH = 1(1) [rule_format]
  show ?case
  proof (cases vs)
    case Nil
    with 1(2) show ?thesis by (auto split: if_splits)
  next
    case (Cons v vs')
    show ?thesis
    proof (cases "\<not> ended \<and> one_of program [''head'', ''tail''] \<and> v = lit ''-n''")
      case True
      with 1(2) Cons obtain a vs'' r where v: "vs' = a # vs''" "ws = v # a # r"
        "read_arguments path program flags paths ended vs'' s = (Inr r, t)"
        by (auto simp: keep_Inr split: list.splits if_splits)
      from IH [OF _ v(3)] v Cons show ?thesis by auto
    next
      case False
      with 1(2) Cons obtain w r u paths' ended' where v: "ws = w # r" "w = v \<or> \<not> dashed w"
        "read_arguments path program flags paths' ended' vs' u = (Inr r, t)"
        by (auto simp: keep_Inr bind_Inr split: if_splits dest: operandsD [OF assms])
      from IH [OF _ v(3)] v(1,2) Cons show ?thesis by auto
    qed
  qed
qed

definition PROGRAMS :: "string list" where
  "PROGRAMS = [''pwd'', ''test'', ''printf'', ''pytest'', ''python'', ''python3'', ''rg'', ''grep'', ''find'']
     @ map fst READ_FLAGS"

text \<open>
  The words of a command before and after restoration: the same registered program and as many words;
  the words after the format of \<open>printf\<close> are data, those of other programs as in \<open>words_ok\<close>.
\<close>

definition restored_words :: "ustr list \<Rightarrow> ustr list \<Rightarrow> bool" where
  "restored_words orig argv \<longleftrightarrow>
     (case (orig, argv) of
        (program # vs, program' # ws) \<Rightarrow> program' = program \<and> one_of program PROGRAMS
          \<and> (if program = lit ''printf'' then length ws = length vs \<and> take 1 ws = [lit ''%s''] \<and> take 1 vs = [lit ''%s'']
             else words_ok vs ws)
      | _ \<Rightarrow> False)"

text \<open>The client of a path validator relies on one law: an accepted path is returned as it is.\<close>

locale local_paths =
  fixes validate_path :: "'s callback"
  assumes path_kept: "validate_path v s = (Inr w, t) \<Longrightarrow> w = v"
begin

lemma path_operands: "operands (path_argument rl validate_path)"
  by (auto simp: operands_def path_argument_def bind_Inr dest: path_kept)

lemma arguments_ok:
  assumes "restore_arguments rl validate_path glob program vs s = (Inr ws, t)"
  shows "if program = lit ''printf'' then length ws = length vs \<and> take 1 ws = [lit ''%s''] \<and> take 1 vs = [lit ''%s'']
    else words_ok vs ws"
proof -
  consider "program = lit ''pwd''" | "program = lit ''test''" | "program = lit ''printf''"
    | "one_of program [''pytest'', ''python'', ''python3'']" | "one_of program [''rg'', ''grep'']" | "program = lit ''find''"
    | "program \<notin> lit ` {''pwd'', ''test'', ''printf'', ''pytest'', ''python'', ''python3'', ''rg'', ''grep'', ''find''}"
    by (auto simp: one_of_def)
  then show ?thesis
  proof cases
    case 2
    with assms show ?thesis
      by (auto simp: restore_arguments_def test_command_def bind_Inr split: list.splits if_splits
          dest: operandsD [OF path_operands])
  next
    case 3
    with assms show ?thesis
      by (auto simp: restore_arguments_def printf_command_def keep_Inr split: list.splits if_splits
          dest!: emap_yields list_all2_lengthD)
  next
    case 4
    then have p: "pytest_command (path_argument rl validate_path) program vs s = (Inr ws, t)"
      using assms by (auto simp: restore_arguments_def one_of_def)
    have "words_ok vs ws"
    proof (cases "program = lit ''pytest''")
      case True
      with p pytest_ok [OF path_operands] show ?thesis by (auto simp: pytest_command_def)
    next
      case False
      with p obtain r where r: "take 2 vs = [lit ''-m'', lit ''pytest'']" "ws = lit ''-m'' # lit ''pytest'' # r"
        "pytest_arguments (path_argument rl validate_path) (drop 2 vs) s = (Inr r, t)"
        by (auto simp: pytest_command_def keep_Inr split: if_splits)
      have "vs = lit ''-m'' # lit ''pytest'' # drop 2 vs" using append_take_drop_id [of 2 vs] r(1) by simp
      moreover have "words_ok (drop 2 vs) r" by (rule pytest_ok [OF path_operands r(3)])
      ultimately show ?thesis using r(2) by (metis words_ok.Same)
    qed
    with 4 show ?thesis by (auto simp: one_of_def)
  next
    case 5
    with assms search_ok [OF path_operands] show ?thesis by (auto simp: restore_arguments_def search_command_def one_of_def)
  next
    case 6
    with assms find_ok [OF path_operands] show ?thesis by (auto simp: restore_arguments_def one_of_def)
  next
    case 7
    with assms read_ok [OF path_operands] show ?thesis
      by (auto simp: restore_arguments_def one_of_def split: option.splits)
  qed (use assms in \<open>auto simp: restore_arguments_def split: if_splits\<close>)
qed

lemma arguments_program:
  "restore_arguments rl validate_path glob program vs s = (Inr ws, t) \<Longrightarrow> one_of program PROGRAMS"
  by (auto simp: restore_arguments_def one_of_def PROGRAMS_def read_flags_def READ_FLAGS_def split: if_splits option.splits
      dest!: map_of_SomeD)

lemma shell_words:
  assumes "restore_shell rl validate_path glob command s = (Inr out, t)"
  shows "\<exists>orig argv. command_words command = Inr orig \<and> shlex_split out = Inr argv \<and> restored_words orig argv"
proof -
  define g where "g = (case glob of Some g \<Rightarrow> g | None \<Rightarrow> default_glob rl)"
  from assms obtain orig ws u where o: "command_words command = Inr orig"
    and w: "restore_arguments rl validate_path g (hd orig) (tl orig) u = (Inr ws, t)"
    and out: "out = py_join [32] (map shlex_quote (hd orig # ws))"
    unfolding restore_shell_def bind_Inr lift_eq guard_Inr ret_eq g_def by (metis Inr_inject)
  have "orig \<noteq> []"
    using o by (auto simp: command_words_def rbind_eq_Inr split: prod.splits sum.splits if_splits)
  then obtain program vs where orig: "orig = program # vs" by (cases orig) auto
  have "shlex_split out = Inr (program # ws)" unfolding out by (simp only: split_join_quote orig list.sel)
  moreover have "restored_words orig (program # ws)"
    using arguments_ok [of rl g program vs u ws t] arguments_program [of rl g program vs u ws t] w
    by (simp add: restored_words_def orig)
  ultimately show ?thesis using o by blast
qed

end

end
