(* ===== verification/Patches.thy ===== *)
theory Patches
  imports Search
begin

text \<open>
  The \<open>apply_patch\<close> grammar, \<^verbatim>\<open>gateway/tools/patches.py\<close>: a patch is read line by line, the paths of its
  headers and the contents of its lines are restored in place, and the envelope is kept.
\<close>

definition refuse_patch :: "('a, 's) act" where "refuse_patch = raise PatchValidationError"

definition APPLY_PATCH_LARK_GRAMMAR :: ustr where
  "APPLY_PATCH_LARK_GRAMMAR = py_join [10] (map lit
    [''start: begin_patch hunk+ end_patch'',
     ''begin_patch: \"*** Begin Patch\" LF'',
     ''end_patch: \"*** End Patch\" LF?'',
     '''',
     ''hunk: add_hunk | delete_hunk | update_hunk'',
     ''add_hunk: \"*** Add File: \" filename LF add_line+'',
     ''delete_hunk: \"*** Delete File: \" filename LF'',
     ''update_hunk: \"*** Update File: \" filename LF change_move? change?'',
     '''',
     ''filename: /(.+)/'',
     ''add_line: \"+\" /(.*)/ LF -> line'',
     '''',
     ''change_move: \"*** Move to: \" filename LF'',
     ''change: (change_context | change_line)+ eof_line?'',
     ''change_context: (\"@@\" | \"@@ \" /(.+)/) LF'',
     ''change_line: (\"+\" | \"-\" | \" \") /(.*)/ LF'',
     ''eof_line: \"*** End of File\" LF'',
     '''',
     ''%import common.LF'',
     ''''])"

definition equals_texts :: "pyval \<Rightarrow> (string \<times> ustr) list \<Rightarrow> bool" where
  \<comment> \<open>\<open>value == {...}\<close> for a dictionary of texts\<close>
  "equals_texts v kvs =
     (case v of PDict d \<Rightarrow> length d = length kvs \<and> list_all (\<lambda>(k, s). pd_get d k = Some (PStr s)) kvs | _ \<Rightarrow> False)"

definition validate_apply_patch_format :: "pyval \<Rightarrow> pydict res" where
  "validate_apply_patch_format v =
     (if equals_texts v [(''type'', lit ''text'')] then Inr [(PStr (lit ''type''), PStr (lit ''text''))]
      else let known = [(''type'', lit ''grammar''), (''syntax'', lit ''lark''), (''definition'', APPLY_PATCH_LARK_GRAMMAR)]
      in if equals_texts v known then Inr (map (\<lambda>(k, s). (PStr (lit k), PStr s)) known) else Inl PatchValidationError)"

subsection \<open>Lines\<close>

datatype patch_op = Add | Update | Delete

definition op_marker :: "patch_op \<Rightarrow> ustr" where
  "op_marker op = (case op of Add \<Rightarrow> lit ''*** Add File: '' | Update \<Rightarrow> lit ''*** Update File: '' | Delete \<Rightarrow> lit ''*** Delete File: '')"

definition MOVE_TO :: ustr where "MOVE_TO = lit ''*** Move to: ''"
definition END_OF_FILE :: ustr where "END_OF_FILE = lit ''*** End of File''"
definition STARS :: ustr where "STARS = lit ''*** ''"

definition operation_of :: "ustr \<Rightarrow> patch_op option" where
  "operation_of header = List.find (\<lambda>op. starts_with header (op_marker op)) [Add, Update, Delete]"

definition single_line :: "ustr \<Rightarrow> (ustr, 's) act" where
  "single_line v = bind (guard (\<not> list_ex (\<lambda>c. c \<in> {13, 10, 0}) v) PatchValidationError) (\<lambda>_. ret v)"

definition restored_line :: "(ustr \<Rightarrow> (ustr, 's) act) \<Rightarrow> ustr \<Rightarrow> (ustr, 's) act" where
  "restored_line f v = bind (f v) single_line"

type_synonym hunks = "ustr list \<times> nat \<times> nat \<times> ustr list"

text \<open>
  The lines of one file: the lines written, the number of hunks, the lines of the last hunk, and the
  lines left.  The line that ends the patch is not among the lines.
\<close>

fun hunk_loop :: "(ustr \<Rightarrow> (ustr, 's) act) \<Rightarrow> patch_op \<Rightarrow> nat \<Rightarrow> nat \<Rightarrow> ustr list \<Rightarrow> (hunks, 's) act" where
  "hunk_loop rc op hunks n [] = ret ([], hunks, n, [])"
| "hunk_loop rc op hunks n (l # ls) =
     (if starts_with l STARS then ret ([], hunks, n, l # ls)
      else if op = Update \<and> (l = [64, 64] \<or> starts_with l [64, 64, 32])
      then if hunks \<noteq> 0 \<and> n = 0 then refuse_patch
           else bind (restored_line rc (drop 2 l)) (\<lambda>x.
                bind (hunk_loop rc op (Suc hunks) 0 ls) (\<lambda>(out, rest). ret (([64, 64] @ x) # out, rest)))
      else if l \<noteq> [] \<and> hd l \<in> (if op = Add then {43} else {32, 43, 45})
      then bind (restored_line rc (tl l)) (\<lambda>x.
           bind (hunk_loop rc op (if op = Update \<and> hunks = 0 then 1 else hunks) (Suc n) ls) (\<lambda>(out, rest).
           ret ((hd l # x) # out, rest)))
      else refuse_patch)"

definition move_line :: "(ustr \<Rightarrow> (ustr, 's) act) \<Rightarrow> patch_op \<Rightarrow> ustr list \<Rightarrow> ustr list
    \<Rightarrow> (ustr list \<times> ustr list \<times> ustr list, 's) act" where
  \<comment> \<open>the line written, if any, the paths seen, the lines left\<close>
  "move_line rp op seen ls =
     (case ls of
        l # rest \<Rightarrow>
          if op = Update \<and> starts_with l MOVE_TO
          then bind (restored_line rp (drop (length MOVE_TO) l)) (\<lambda>target.
               if target \<in> set seen then refuse_patch else ret ([MOVE_TO @ target], target # seen, rest))
          else ret ([], seen, ls)
      | [] \<Rightarrow> ret ([], seen, ls))"

definition file_end :: "patch_op \<Rightarrow> hunks \<Rightarrow> (ustr list \<times> ustr list, 's) act" where
  "file_end op h =
     (case h of (out, hunks, n, rest) \<Rightarrow>
      let ended = op = Update \<and> rest \<noteq> [] \<and> hd rest = END_OF_FILE;
          rest' = (if ended then tl rest else rest)
      in if op = Add \<and> n = 0 then refuse_patch
         else if op = Update \<and> hunks \<noteq> 0 \<and> n = 0 then refuse_patch
         else if ended \<and> rest' \<noteq> [] \<and> \<not> starts_with (hd rest') STARS then refuse_patch
         else ret (if ended then out @ [END_OF_FILE] else out, rest'))"

definition patch_file :: "(ustr \<Rightarrow> (ustr, 's) act) \<Rightarrow> (ustr \<Rightarrow> (ustr, 's) act) \<Rightarrow> ustr list \<Rightarrow> ustr \<Rightarrow> ustr list
    \<Rightarrow> (ustr list \<times> ustr list \<times> ustr list, 's) act" where
  \<comment> \<open>the lines written, the paths seen, the lines left\<close>
  "patch_file rp rc seen header ls =
     (case operation_of header of
        None \<Rightarrow> refuse_patch
      | Some op \<Rightarrow>
          bind (restored_line rp (drop (length (op_marker op)) header)) (\<lambda>path.
          if path \<in> set seen then refuse_patch
          else if op = Delete then ret ([op_marker op @ path], path # seen, ls)
          else bind (move_line rp op (path # seen) ls) (\<lambda>(move, seen', ls').
               bind (hunk_loop rc op 0 0 ls') (\<lambda>h.
               bind (file_end op h) (\<lambda>(out, rest).
               ret ((op_marker op @ path) # move @ out, seen', rest))))))"

lemma hunk_loop_rest:
  "hunk_loop rc op hunks n ls s = (Inr (out, h, m, rest), t) \<Longrightarrow> length rest \<le> length ls"
proof (induction rc op hunks n ls arbitrary: s out rule: hunk_loop.induct)
  case (2 rc op hunks n l ls)
  then show ?case
    by (auto simp: bind_Inr refuse_patch_def split: if_splits) (fastforce+)
qed auto

lemma move_line_rest: "move_line rp op seen ls s = (Inr (out, seen', rest), t) \<Longrightarrow> length rest \<le> length ls"
  by (auto simp: move_line_def bind_Inr refuse_patch_def split: list.splits if_splits)

lemma file_end_rest: "file_end op (out, h, n, rest) s = (Inr (out', rest'), t) \<Longrightarrow> length rest' \<le> length rest"
  by (auto simp: file_end_def refuse_patch_def Let_def split: if_splits)

lemma patch_file_rest:
  "patch_file rp rc seen header ls s = (Inr (out, seen', rest), t) \<Longrightarrow> length rest \<le> length ls"
  by (auto simp: patch_file_def bind_Inr refuse_patch_def split: option.splits if_splits prod.splits
      dest!: hunk_loop_rest move_line_rest file_end_rest)

function patch_loop :: "(ustr \<Rightarrow> (ustr, 's) act) \<Rightarrow> (ustr \<Rightarrow> (ustr, 's) act) \<Rightarrow> ustr list \<Rightarrow> ustr list
    \<Rightarrow> (ustr list, 's) act" where
  "patch_loop rp rc seen ls s =
     (case ls of
        [] \<Rightarrow> (Inr [], s)
      | header # rest \<Rightarrow>
          (case patch_file rp rc seen header rest s of
             (Inl e, t) \<Rightarrow> (Inl e, t)
           | (Inr (out, seen', ls'), t) \<Rightarrow> bind (patch_loop rp rc seen' ls') (\<lambda>more. ret (out @ more)) t))"
  by pat_completeness auto
termination
  by (relation "measure (\<lambda>(rp, rc, seen, ls, s). length ls)") (auto dest: patch_file_rest [OF sym])

declare patch_loop.simps [simp del]

definition restore_patch :: "(ustr \<Rightarrow> (ustr, 's) act) \<Rightarrow> (ustr \<Rightarrow> (ustr, 's) act) \<Rightarrow> ustr \<Rightarrow> (ustr, 's) act" where
  "restore_patch rp rc patch =
     (if 13 \<in> set patch \<or> 0 \<in> set patch then refuse_patch
      else let lines = split_on 10 patch; lines = (if last lines = [] then butlast lines else lines)
      in if length lines < 3 \<or> hd lines \<noteq> lit ''*** Begin Patch'' \<or> last lines \<noteq> lit ''*** End Patch'' then refuse_patch
      else bind (patch_loop rp rc [] (butlast (tl lines))) (\<lambda>out.
        ret (py_join [10] (hd lines # out @ [last lines]) @ (if ends_with patch [10] then [10] else []))))"

subsection \<open>What restoration may change of a patch\<close>

definition path_markers :: "ustr set" where
  "path_markers = {op_marker Add, op_marker Update, op_marker Delete, MOVE_TO}"

definition content_markers :: "ustr set" where
  "content_markers = {[43], [45], [32], [64, 64]}"

text \<open>
  A line of a patch before and after: the same, or the same marker with a restored path or a restored
  content behind it, still one line.
\<close>

inductive patch_line :: "(ustr \<Rightarrow> (ustr, 's) act) \<Rightarrow> (ustr \<Rightarrow> (ustr, 's) act) \<Rightarrow> ustr \<Rightarrow> ustr \<Rightarrow> bool" for rp rc where
  Fixed: "a \<in> {lit ''*** Begin Patch'', lit ''*** End Patch'', END_OF_FILE, []} \<Longrightarrow> patch_line rp rc a a"
| Path: "m \<in> path_markers \<Longrightarrow> yields rp x y \<Longrightarrow> {10, 13, 0} \<inter> set y = {} \<Longrightarrow> patch_line rp rc (m @ x) (m @ y)"
| Content: "m \<in> content_markers \<Longrightarrow> yields rc x y \<Longrightarrow> {10, 13, 0} \<inter> set y = {} \<Longrightarrow> patch_line rp rc (m @ x) (m @ y)"

lemma restored_line_Inr:
  "restored_line f v s = (Inr y, t) \<longleftrightarrow> f v s = (Inr y, t) \<and> {10, 13, 0} \<inter> set y = {}"
  by (auto simp: restored_line_def single_line_def bind_Inr list_ex_iff intro: gr0I)

lemma starts_with_append: "starts_with s p \<Longrightarrow> s = p @ drop (length p) s"
  by (metis append_take_drop_id starts_with_def)

lemma path_line:
  "m \<in> path_markers \<Longrightarrow> starts_with l m \<Longrightarrow> restored_line rp (drop (length m) l) s = (Inr y, t) \<Longrightarrow> patch_line rp rc l (m @ y)"
  by (subst starts_with_append, assumption) (auto simp: restored_line_Inr intro: patch_line.Path yieldsI)

lemma hunk_line_chunk: "l = [64, 64] \<or> starts_with l [64, 64, 32] \<Longrightarrow> l = [64, 64] @ drop 2 l"
  by (cases l; cases "tl l") (auto simp: starts_with_def numeral_2_eq_2 numeral_3_eq_3)

lemma hunk_loop_cases:
  assumes "hunk_loop rc op hunks n (l # ls) s = (Inr (out, h, m, rest), t)"
  obtains (Stop) "out = []" "rest = l # ls"
    | (Line) mk v x u h' n' out' where "l = mk @ v" "mk \<in> content_markers" "restored_line rc v s = (Inr x, u)"
        "hunk_loop rc op h' n' ls u = (Inr (out', h, m, rest), t)" "out = (mk @ x) # out'"
proof -
  consider "starts_with l STARS"
    | "\<not> starts_with l STARS" "op = Update" "l = [64, 64] \<or> starts_with l [64, 64, 32]" "\<not> (hunks \<noteq> 0 \<and> n = 0)"
    | "\<not> starts_with l STARS" "\<not> (op = Update \<and> (l = [64, 64] \<or> starts_with l [64, 64, 32]))"
      "l \<noteq> []" "hd l \<in> (if op = Add then {43} else {32, 43, 45})"
    using assms by (auto simp: refuse_patch_def split: if_splits)
  then show ?thesis
  proof cases
    case 1
    with assms Stop show ?thesis by simp
  next
    case 2
    with assms obtain x u out' where x: "restored_line rc (drop 2 l) s = (Inr x, u)"
      "hunk_loop rc op (Suc hunks) 0 ls u = (Inr (out', h, m, rest), t)" "out = ([64, 64] @ x) # out'"
      by (auto simp: bind_Inr)
    show ?thesis by (rule Line [OF hunk_line_chunk [OF 2(3)] _ x]) (simp add: content_markers_def)
  next
    case 3
    with assms obtain x u out' where x: "restored_line rc (tl l) s = (Inr x, u)"
      "hunk_loop rc op (if op = Update \<and> hunks = 0 then 1 else hunks) (Suc n) ls u = (Inr (out', h, m, rest), t)"
      "out = ([hd l] @ x) # out'"
      by (auto simp: bind_Inr)
    show ?thesis by (rule Line [OF _ _ x]) (use 3 in \<open>auto simp: content_markers_def split: if_splits\<close>)
  qed
qed

lemma hunk_loop_lines:
  "hunk_loop rc op hunks n ls s = (Inr (out, h, m, rest), t) \<Longrightarrow>
     \<exists>front. ls = front @ rest \<and> list_all2 (patch_line rp rc) front out"
proof (induction ls arbitrary: hunks n s out)
  case (Cons l ls)
  from Cons.prems show ?case
  proof (cases rule: hunk_loop_cases)
    case (Line mk v x u h' n' out')
    from Cons.IH [OF Line(4)] obtain front where "ls = front @ rest" "list_all2 (patch_line rp rc) front out'" by blast
    moreover have "patch_line rp rc (mk @ v) (mk @ x)"
      using Line(2,3) by (intro patch_line.Content) (auto simp: restored_line_Inr intro: yieldsI)
    ultimately show ?thesis using Line(1,5) by (intro exI [of _ "l # front"]) simp
  qed simp
qed simp

lemma move_lines:
  "move_line rp op seen ls s = (Inr (out, seen', rest), t) \<Longrightarrow>
     \<exists>front. ls = front @ rest \<and> list_all2 (patch_line rp rc) front out"
proof -
  assume m: "move_line rp op seen ls s = (Inr (out, seen', rest), t)"
  show ?thesis
  proof (cases "\<exists>l r. ls = l # r \<and> op = Update \<and> starts_with l MOVE_TO")
    case True
    then obtain l r where l: "ls = l # r" "op = Update" "starts_with l MOVE_TO" by blast
    with m obtain y u where y: "restored_line rp (drop (length MOVE_TO) l) s = (Inr y, u)" "out = [MOVE_TO @ y]" "rest = r"
      by (auto simp: move_line_def bind_Inr refuse_patch_def split: if_splits)
    have "patch_line rp rc l (MOVE_TO @ y)" by (rule path_line [OF _ l(3) y(1)]) (simp add: path_markers_def)
    with l y show ?thesis by (intro exI [of _ "[l]"]) simp
  next
    case False
    with m show ?thesis by (auto simp: move_line_def split: list.splits if_splits)
  qed
qed

lemma file_end_lines:
  "file_end op (out, h, n, rest) s = (Inr (out', rest'), t) \<Longrightarrow>
     \<exists>front new. rest = front @ rest' \<and> out' = out @ new \<and> list_all2 (patch_line rp rc) front new"
proof -
  assume e: "file_end op (out, h, n, rest) s = (Inr (out', rest'), t)"
  show ?thesis
  proof (cases "op = Update \<and> rest \<noteq> [] \<and> hd rest = END_OF_FILE")
    case True
    with e have "out' = out @ [END_OF_FILE]" "rest = [END_OF_FILE] @ rest'"
      by (auto simp: file_end_def refuse_patch_def Let_def neq_Nil_conv split: if_splits)
    then show ?thesis by (auto intro: patch_line.Fixed)
  next
    case False
    with e show ?thesis by (auto simp: file_end_def refuse_patch_def Let_def split: if_splits)
  qed
qed

lemma operation_of_Some: "operation_of h = Some op \<Longrightarrow> starts_with h (op_marker op)"
  unfolding operation_of_def find_Some_iff by blast

lemma patch_file_Inr:
  assumes "patch_file rp rc seen header ls s = (Inr (out, seen', rest), t)"
  obtains op y u where "operation_of header = Some op"
    and "restored_line rp (drop (length (op_marker op)) header) s = (Inr y, u)" and "y \<notin> set seen"
    and "(if op = Delete then ret ([op_marker op @ y], y # seen, ls)
          else bind (move_line rp op (y # seen) ls) (\<lambda>(move, seen', ls').
               bind (hunk_loop rc op 0 0 ls') (\<lambda>h.
               bind (file_end op h) (\<lambda>(out, rest).
               ret ((op_marker op @ y) # move @ out, seen', rest))))) u = (Inr (out, seen', rest), t)"
proof (cases "operation_of header")
  case (Some op)
  with assms obtain y u where "restored_line rp (drop (length (op_marker op)) header) s = (Inr y, u)"
    "(if y \<in> set seen then refuse_patch else if op = Delete then ret ([op_marker op @ y], y # seen, ls)
          else bind (move_line rp op (y # seen) ls) (\<lambda>(move, seen', ls').
               bind (hunk_loop rc op 0 0 ls') (\<lambda>h.
               bind (file_end op h) (\<lambda>(out, rest).
               ret ((op_marker op @ y) # move @ out, seen', rest))))) u = (Inr (out, seen', rest), t)"
    unfolding patch_file_def by (auto simp only: option.case bind_Inr)
  with that [OF Some] show ?thesis by (cases "y \<in> set seen") (simp_all add: refuse_patch_def)
qed (use assms in \<open>simp add: patch_file_def refuse_patch_def\<close>)

lemma patch_file_lines:
  assumes "patch_file rp rc seen header ls s = (Inr (out, seen', rest), t)"
  shows "\<exists>front. ls = front @ rest \<and> list_all2 (patch_line rp rc) (header # front) out"
proof -
  obtain op y u where op: "operation_of header = Some op"
    and y: "restored_line rp (drop (length (op_marker op)) header) s = (Inr y, u)" and "y \<notin> set seen"
    and r: "(if op = Delete then ret ([op_marker op @ y], y # seen, ls)
          else bind (move_line rp op (y # seen) ls) (\<lambda>(move, seen', ls').
               bind (hunk_loop rc op 0 0 ls') (\<lambda>h.
               bind (file_end op h) (\<lambda>(out, rest).
               ret ((op_marker op @ y) # move @ out, seen', rest))))) u = (Inr (out, seen', rest), t)"
    by (rule patch_file_Inr [OF assms])
  have head: "patch_line rp rc header (op_marker op @ y)"
    by (rule path_line [OF _ operation_of_Some [OF op] y]) (cases op; simp add: path_markers_def)
  show ?thesis
  proof (cases "op = Delete")
    case True
    with r head show ?thesis by auto
  next
    case False
    with r obtain move ls1 s1 h1 n1 rest1 out1 s2 new where
      m: "move_line rp op (y # seen) ls u = (Inr (move, seen', ls1), s1)"
      and h: "hunk_loop rc op 0 0 ls1 s1 = (Inr (out1, h1, n1, rest1), s2)"
      and e: "file_end op (out1, h1, n1, rest1) s2 = (Inr (new, rest), t)"
      and out: "out = (op_marker op @ y) # move @ new"
      by (auto simp: bind_Inr)
    from move_lines [OF m, of rc] obtain f1 where f1: "ls = f1 @ ls1" "list_all2 (patch_line rp rc) f1 move" by blast
    from hunk_loop_lines [OF h, of rp] obtain f2 where f2: "ls1 = f2 @ rest1" "list_all2 (patch_line rp rc) f2 out1" by blast
    from file_end_lines [OF e, of rp rc] obtain f3 n3 where
      f3: "rest1 = f3 @ rest" "new = out1 @ n3" "list_all2 (patch_line rp rc) f3 n3" by blast
    show ?thesis using f1 f2 f3 head out
      by (intro exI [of _ "f1 @ f2 @ f3"]) (simp add: list_all2_appendI)
  qed
qed

lemma patch_loop_lines:
  "patch_loop rp rc seen ls s = (Inr out, t) \<Longrightarrow> list_all2 (patch_line rp rc) ls out"
proof (induction rp rc seen ls s arbitrary: out t rule: patch_loop.induct)
  case (1 rp rc seen ls s)
  show ?case
  proof (cases ls)
    case Nil
    with 1(2) show ?thesis by (simp add: patch_loop.simps [of rp rc seen "[]"])
  next
    case (Cons header rest)
    with 1(2) obtain o1 seen' ls' u o2 where
      f: "patch_file rp rc seen header rest s = (Inr (o1, seen', ls'), u)"
      and l: "patch_loop rp rc seen' ls' u = (Inr o2, t)" and out: "out = o1 @ o2"
      by (auto simp: patch_loop.simps [of rp rc seen "header # rest"] bind_Inr split: prod.splits sum.splits)
    from patch_file_lines [OF f] obtain front where
      front: "rest = front @ ls'" "list_all2 (patch_line rp rc) (header # front) o1" by blast
    have "list_all2 (patch_line rp rc) ls' o2"
      using 1(1) [OF Cons f [symmetric] refl refl refl l] .
    with front out Cons list_all2_appendI [of "patch_line rp rc" "header # front" o1 ls' o2] show ?thesis by simp
  qed
qed

subsection \<open>The lines of the whole patch\<close>

lemma split_on_no: "d \<notin> set s \<Longrightarrow> split_on d s = [s]"
  by (induction s) auto

lemma split_on_Cons: "d \<notin> set a \<Longrightarrow> split_on d (a @ d # s) = a # split_on d s"
  by (induction a) (auto split: list.splits)

lemma split_join: "ls \<noteq> [] \<Longrightarrow> \<forall>l \<in> set ls. d \<notin> set l \<Longrightarrow> split_on d (py_join [d] ls) = ls"
  by (induction ls rule: induct_list012) (simp_all add: split_on_no split_on_Cons)

lemma split_join_end: "ls \<noteq> [] \<Longrightarrow> \<forall>l \<in> set ls. d \<notin> set l \<Longrightarrow> split_on d (py_join [d] ls @ [d]) = ls @ [[]]"
proof (induction ls rule: induct_list012)
  case (2 x)
  then show ?case using split_on_Cons [of d x "[]"] by simp
qed (simp_all add: split_on_Cons)

lemma split_on_empty: "split_on d s = [[]] \<longleftrightarrow> s = []"
  by (cases s) (auto split: list.splits)

lemma split_on_last: "last (split_on d s) = [] \<longleftrightarrow> s = [] \<or> ends_with s [d]"
proof (induction s)
  case (Cons c s)
  obtain w ws where "split_on d s = w # ws" by (cases "split_on d s") auto
  with Cons split_on_empty [of d s] show ?case
    by (cases "s = []") (auto simp: ends_with_def Suc_diff_le drop_Cons')
qed simp

lemma patch_line_plain: "patch_line rp rc a b \<Longrightarrow> 10 \<notin> set b"
  by (cases rule: patch_line.cases)
    (auto simp: path_markers_def content_markers_def op_marker_def MOVE_TO_def END_OF_FILE_def lit_def of_char_def)

lemma patch_lines_plain: "list_all2 (patch_line rp rc) as bs \<Longrightarrow> \<forall>b \<in> set bs. 10 \<notin> set b"
  by (induction rule: list_all2_induct) (auto dest: patch_line_plain)

lemma restore_patch_lines:
  assumes "restore_patch rp rc patch s = (Inr out, t)"
  obtains ls body where "split_on 10 patch = ls @ (if ends_with patch [10] then [[]] else [])"
    and "ls = lit ''*** Begin Patch'' # butlast (tl ls) @ [lit ''*** End Patch'']"
    and "patch_loop rp rc [] (butlast (tl ls)) s = (Inr body, t)"
    and "split_on 10 out = lit ''*** Begin Patch'' # body @ [lit ''*** End Patch''] @ (if ends_with patch [10] then [[]] else [])"
proof -
  define all where "all = split_on 10 patch"
  define ls where "ls = (if last all = [] then butlast all else all)"
  from assms obtain body where l: "3 \<le> length ls" "hd ls = lit ''*** Begin Patch''" "last ls = lit ''*** End Patch''"
    and b: "patch_loop rp rc [] (butlast (tl ls)) s = (Inr body, t)"
    and out: "out = py_join [10] (hd ls # body @ [last ls]) @ (if ends_with patch [10] then [10] else [])"
    by (auto simp: restore_patch_def refuse_patch_def bind_Inr Let_def all_def ls_def split: if_splits)
  have ls: "ls = lit ''*** Begin Patch'' # butlast (tl ls) @ [lit ''*** End Patch'']"
  proof -
    obtain a r where "ls = a # r" "r \<noteq> []" using l(1) by (cases ls; cases "tl ls") auto
    with l append_butlast_last_id [of r] show ?thesis by simp
  qed
  have "\<forall>l \<in> set body. 10 \<notin> set l" by (rule patch_lines_plain [OF patch_loop_lines [OF b]])
  then have plain: "\<forall>l \<in> set (hd ls # body @ [last ls]). 10 \<notin> set l" using l by (auto simp: lit_def of_char_def)
  have "patch \<noteq> []" using l(1) by (auto simp: ls_def all_def)
  then have "last all = [] \<longleftrightarrow> ends_with patch [10]" by (simp add: all_def split_on_last)
  moreover have "all \<noteq> []" by (simp add: all_def)
  ultimately have 1: "split_on 10 patch = ls @ (if ends_with patch [10] then [[]] else [])"
    unfolding ls_def all_def [symmetric] by (auto, metis append_butlast_last_id)
  have 2: "split_on 10 out = (hd ls # body @ [last ls]) @ (if ends_with patch [10] then [[]] else [])"
    unfolding out using split_join [OF _ plain] split_join_end [OF _ plain] by simp
  show ?thesis by (rule that [OF 1 ls b]) (use 2 l in simp)
qed

lemma patch_structure:
  assumes "restore_patch rp rc patch s = (Inr out, t)"
  shows "list_all2 (patch_line rp rc) (split_on 10 patch) (split_on 10 out)"
proof -
  obtain ls body where l: "split_on 10 patch = ls @ (if ends_with patch [10] then [[]] else [])"
    "ls = lit ''*** Begin Patch'' # butlast (tl ls) @ [lit ''*** End Patch'']"
    "patch_loop rp rc [] (butlast (tl ls)) s = (Inr body, t)"
    "split_on 10 out = lit ''*** Begin Patch'' # body @ [lit ''*** End Patch''] @ (if ends_with patch [10] then [[]] else [])"
    by (rule restore_patch_lines [OF assms])
  have "list_all2 (patch_line rp rc) (lit ''*** Begin Patch'' # butlast (tl ls) @ [lit ''*** End Patch''] @
      (if ends_with patch [10] then [[]] else []))
    (lit ''*** Begin Patch'' # body @ [lit ''*** End Patch''] @ (if ends_with patch [10] then [[]] else []))"
    using patch_loop_lines [OF l(3)] by (auto intro!: list_all2_appendI patch_line.Fixed)
  then show ?thesis using l(1,2,4) by (metis append.assoc append_Cons)
qed

text \<open>
  Restoration keeps the envelope of a patch, whatever the values are: the result has as many lines as
  the patch, each with the marker it had; only what follows the marker may differ, a path or a content
  that the callback returned and that fits on the line.  No restored value becomes a header, a hunk or
  an end marker.
\<close>

theorem restored_patch_same_structure:
  assumes "restore_patch rp rc patch s = (Inr out, t)"
  shows "list_all2 (patch_line rp rc) (split_on 10 patch) (split_on 10 out)"
  by (rule patch_structure [OF assms])

subsection \<open>No file is touched twice\<close>

definition header_path :: "ustr \<Rightarrow> ustr option" where
  "header_path l = map_option (\<lambda>m. drop (length m) l)
     (List.find (starts_with l) [op_marker Add, op_marker Update, op_marker Delete, MOVE_TO])"

definition touched :: "ustr list \<Rightarrow> ustr list" where
  "touched ls = List.map_filter header_path ls"

lemma touched_simps [simp]:
  "touched [] = []" "touched (a @ b) = touched a @ touched b"
  "touched (l # ls) = (case header_path l of None \<Rightarrow> touched ls | Some p \<Rightarrow> p # touched ls)"
  by (auto simp: touched_def map_filter_def split: option.splits)

lemmas marker_defs = op_marker_def MOVE_TO_def END_OF_FILE_def lit_def of_char_def

lemma header_path_marker [simp]:
  "header_path (op_marker op @ p) = Some p" "header_path (MOVE_TO @ p) = Some p"
  by (cases op; simp add: header_path_def starts_with_def marker_defs)
    (simp add: header_path_def starts_with_def marker_defs)

lemma header_path_other [simp]:
  "c \<noteq> 42 \<Longrightarrow> header_path (c # s) = None" "header_path END_OF_FILE = None" "header_path [] = None"
  "header_path (lit ''*** Begin Patch'') = None" "header_path (lit ''*** End Patch'') = None"
  by (simp_all add: header_path_def starts_with_def marker_defs)

lemma hunk_loop_touched:
  "hunk_loop rc op hunks n ls s = (Inr (out, h, m, rest), t) \<Longrightarrow> touched out = []"
proof (induction ls arbitrary: hunks n s out)
  case (Cons l ls)
  from Cons.prems show ?case
  proof (cases rule: hunk_loop_cases)
    case (Line mk v x u h' n' out')
    with Cons.IH [OF Line(4)] show ?thesis by (auto simp: content_markers_def)
  qed simp
qed simp

lemma patch_file_seen:
  assumes "patch_file rp rc seen header ls s = (Inr (out, seen', rest), t)" and "distinct seen"
  shows "seen' = rev (touched out) @ seen \<and> distinct seen'"
proof -
  obtain op y u where "operation_of header = Some op"
    and "restored_line rp (drop (length (op_marker op)) header) s = (Inr y, u)" and y: "y \<notin> set seen"
    and r: "(if op = Delete then ret ([op_marker op @ y], y # seen, ls)
          else bind (move_line rp op (y # seen) ls) (\<lambda>(move, seen', ls').
               bind (hunk_loop rc op 0 0 ls') (\<lambda>h.
               bind (file_end op h) (\<lambda>(out, rest).
               ret ((op_marker op @ y) # move @ out, seen', rest))))) u = (Inr (out, seen', rest), t)"
    by (rule patch_file_Inr [OF assms(1)])
  show ?thesis
  proof (cases "op = Delete")
    case True
    with r y assms(2) show ?thesis by auto
  next
    case False
    with r obtain move ls1 s1 h1 n1 rest1 out1 s2 new where
      m: "move_line rp op (y # seen) ls u = (Inr (move, seen', ls1), s1)"
      and h: "hunk_loop rc op 0 0 ls1 s1 = (Inr (out1, h1, n1, rest1), s2)"
      and e: "file_end op (out1, h1, n1, rest1) s2 = (Inr (new, rest), t)"
      and out: "out = (op_marker op @ y) # move @ new"
      by (auto simp: bind_Inr)
    have "touched new = []"
      using e hunk_loop_touched [OF h] by (auto simp: file_end_def refuse_patch_def Let_def split: if_splits)
    moreover have "seen' = rev (touched move) @ y # seen \<and> distinct seen'"
      using m y assms(2) by (auto simp: move_line_def bind_Inr refuse_patch_def split: list.splits if_splits)
    ultimately show ?thesis using out by auto
  qed
qed

lemma patch_loop_seen:
  "patch_loop rp rc seen ls s = (Inr out, t) \<Longrightarrow> distinct seen \<Longrightarrow> distinct (rev (touched out) @ seen)"
proof (induction rp rc seen ls s arbitrary: out t rule: patch_loop.induct)
  case (1 rp rc seen ls s)
  have disj: "distinct (rev a @ b) \<Longrightarrow> distinct (rev c @ rev a @ b) \<Longrightarrow> distinct (rev (a @ c) @ b)" for a b c :: "ustr list"
    by auto
  show ?case
  proof (cases ls)
    case Nil
    with 1(2,3) show ?thesis by (simp add: patch_loop.simps [of rp rc seen "[]"])
  next
    case (Cons header rest)
    with 1(2) obtain o1 seen' ls' u o2 where
      f: "patch_file rp rc seen header rest s = (Inr (o1, seen', ls'), u)"
      and l: "patch_loop rp rc seen' ls' u = (Inr o2, t)" and out: "out = o1 @ o2"
      by (auto simp: patch_loop.simps [of rp rc seen "header # rest"] bind_Inr split: prod.splits sum.splits)
    from patch_file_seen [OF f 1(3)] have s: "seen' = rev (touched o1) @ seen" "distinct seen'" by blast+
    from disj [OF s(2) [unfolded s(1)] 1(1) [OF Cons f [symmetric] refl refl refl l s(2), unfolded s(1)]] out
    show ?thesis by simp
  qed
qed

lemma patch_paths_distinct:
  assumes "restore_patch rp rc patch s = (Inr out, t)"
  shows "distinct (touched (split_on 10 out))"
proof -
  obtain ls body where "patch_loop rp rc [] (butlast (tl ls)) s = (Inr body, t)"
    "split_on 10 out = lit ''*** Begin Patch'' # body @ [lit ''*** End Patch''] @ (if ends_with patch [10] then [[]] else [])"
    by (rule restore_patch_lines [OF assms])
  with patch_loop_seen [OF this(1)] show ?thesis by simp
qed

text \<open>
  A restored patch touches no path twice, as target of an operation or of a move, also when different
  tokens of the patch stand for the same path.
\<close>

theorem restored_patch_paths_distinct:
  assumes "restore_patch rp rc patch s = (Inr out, t)"
  shows "distinct (touched (split_on 10 out))"
  by (rule patch_paths_distinct [OF assms])

subsection \<open>A concrete patch\<close>

definition sample_patch :: ustr where
  "sample_patch = py_join [10] [lit ''*** Begin Patch'', op_marker Add @ [97], [43, 98], lit ''*** End Patch'']"

definition upper :: "ustr \<Rightarrow> (ustr, unit) act" where "upper s = ret (map ascii_upper_cp s)"

lemma sample_patch_restored:
  "restore_patch upper upper sample_patch () =
     (Inr (py_join [10] [lit ''*** Begin Patch'', op_marker Add @ [65], [43, 66], lit ''*** End Patch'']), ())"
proof -
  have one: "patch_file upper upper [] (op_marker Add @ [97]) [[43, 98]] () = (Inr ([op_marker Add @ [65], [43, 66]], [[65]], []), ())"
    by (simp add: patch_file_def operation_of_def starts_with_def restored_line_def single_line_def upper_def bind_def ret_def
        guard_def ascii_upper_cp_def move_line_def STARS_def lit_def of_char_def file_end_def)
  have body: "patch_loop upper upper [] [op_marker Add @ [97], [43, 98]] () = (Inr [op_marker Add @ [65], [43, 66]], ())"
    by (simp add: patch_loop.simps [of _ _ _ "_ # _"] patch_loop.simps [of _ _ _ "[]"] one bind_def ret_def)
  have plain: "\<forall>l \<in> set [lit ''*** Begin Patch'', op_marker Add @ [97], [43, 98], lit ''*** End Patch'']. 10 \<notin> set l"
    by (simp add: op_marker_def lit_def of_char_def)
  have "split_on 10 sample_patch = [lit ''*** Begin Patch'', op_marker Add @ [97], [43, 98], lit ''*** End Patch'']"
    unfolding sample_patch_def by (rule split_join [OF _ plain]) simp
  moreover have "13 \<notin> set sample_patch" "0 \<notin> set sample_patch" "\<not> ends_with sample_patch [10]"
    by (simp_all add: sample_patch_def ends_with_def op_marker_def lit_def of_char_def)
  ultimately show ?thesis by (simp add: restore_patch_def body bind_def ret_def)
qed

theorem restored_patch_same_structure_witness:
  "\<exists>out. restore_patch upper upper sample_patch () = (Inr out, ())
     \<and> list_all2 (patch_line upper upper) (split_on 10 sample_patch) (split_on 10 out)"
  using restored_patch_same_structure [OF sample_patch_restored] sample_patch_restored by blast

theorem restored_patch_paths_distinct_witness:
  "\<exists>out. restore_patch upper upper sample_patch () = (Inr out, ()) \<and> distinct (touched (split_on 10 out))"
  using restored_patch_paths_distinct [OF sample_patch_restored] sample_patch_restored by blast

end
