(* ===== verification/Registry.thy ===== *)
theory Registry
  imports Shell Patches Restoration ProtocolBase
begin

text \<open>
  Restoration of tool arguments, \<^verbatim>\<open>gateway/tools/registry.py\<close>: the arguments of a registered tool are
  decoded, each field is restored according to its role (path, content, command, pattern, patch), and
  anything else is refused.  The closures of \<open>ToolRegistry.restore\<close> share the vault, the aggregate outcome,
  the bytes restored so far and, within a patch, the canonical paths seen; they are one state here.  The
  file system answers \<open>Path.resolve\<close> through a parameter.  Where the handler of \<open>restore\<close> turns several
  exceptions into the same refusal, \<open>ValueError\<close> stands for the \<open>TypeError\<close> of an unhashable value too.
\<close>

subsection \<open>The environment of a call\<close>

record 'b tool_env =
  te_vault_env :: vault_env
  te_backend :: "'b backend_ops"
  te_ucd :: ucd
  te_clock :: "nat \<Rightarrow> clock"                   \<comment> \<open>the clock readings of each restoration\<close>
  te_json :: json_lib
  te_ctx :: req_context
  te_prov :: provenance
  te_max :: int                              \<comment> \<open>\<open>restorer.max_output_bytes\<close>\<close>
  te_root :: "ustr list"                     \<comment> \<open>the components of \<open>workspace_root\<close>\<close>
  te_resolve :: "ustr list \<Rightarrow> ustr list res"  \<comment> \<open>\<open>resolve(strict=False)\<close> of an absolute path\<close>

record 'b tool_state =
  tl_vault :: "'b vault"
  tl_aggregate :: outcome
  tl_bytes :: nat
  tl_calls :: nat
  tl_seen :: "ustr list list"

type_synonym ('a, 'b) tool = "('a, 'b tool_state) act"

definition READ :: "string list" where "READ = [''read_file'', ''read'', ''Read'']"
definition EDIT :: "string list" where "EDIT = [''edit_file'', ''edit'', ''Edit'']"
definition WRITE :: "string list" where "WRITE = [''write_file'', ''write'', ''Write'']"
definition SHELL :: "string list" where "SHELL = [''shell'', ''run_shell'', ''exec_command'', ''Bash'']"
definition SEARCH :: "string list" where "SEARCH = [''Grep'', ''Glob'']"
definition SUPPORTED :: "string list" where
  "SUPPORTED = READ @ EDIT @ WRITE @ SHELL @ SEARCH @ [''apply_patch'', ''write_stdin'', ''TodoWrite'']"

definition refusal :: exn where "refusal = ToolRestorationError ''tool_restoration_refused''"

subsection \<open>Placeholders\<close>

definition letter :: "cp \<Rightarrow> bool" where "letter c \<longleftrightarrow> ascii_alpha c"
definition word_char :: "cp \<Rightarrow> bool" where "word_char c \<longleftrightarrow> ascii_alpha c \<or> ascii_digit c \<or> c = 95"
definition upper_char :: "cp \<Rightarrow> bool" where "upper_char c \<longleftrightarrow> 65 \<le> c \<and> c \<le> 90 \<or> ascii_digit c \<or> c = 95"
definition hex_char :: "cp \<Rightarrow> bool" where
  "hex_char c \<longleftrightarrow> ascii_digit c \<or> 97 \<le> c \<and> c \<le> 102 \<or> 65 \<le> c \<and> c \<le> 70"

definition at_line_end :: re where
  \<comment> \<open>\<open>$\<close>: the end of the text, or a final newline ahead\<close>
  "at_line_end = RNotAhead (RNotAhead (RAlt REnd (RSeq (RChr 10) REnd)))"

definition TOKEN_LOOKALIKE :: "ucd \<Rightarrow> re" where
  "TOKEN_LOOKALIKE U = RAlts
     [RSeqs [RChr 60, RSet letter, RBetween 0 63 (RSet word_char), RStar (RSet (u_isspace U)), RChr 58],
      RSeqs [RChr 60, RSet (\<lambda>c. 65 \<le> c \<and> c \<le> 90), RBetween 0 63 (RSet upper_char), RChr 95, RPlus (RSet ascii_digit),
        RAlt (RChr 62) at_line_end],
      RSeqs [RChr 60, RSet (\<lambda>c. 65 \<le> c \<and> c \<le> 90), RBetween 1 63 (RSet upper_char), at_line_end],
      RSeqs [RNotBehind word_char, RSet letter, RBetween 0 63 (RSet word_char), RChr 58, RSet (\<lambda>c. c = 118 \<or> c = 86),
        RPlus (RSet ascii_digit), RChr 58, RPlus (RSet hex_char), ROpt (RChr 62)]]"

definition lookalike :: "ucd \<Rightarrow> ustr \<Rightarrow> bool" where
  "lookalike U v \<longleftrightarrow> re_matches (TOKEN_LOOKALIKE U) (u_nfkc U v)"

definition has_placeholder :: "ucd \<Rightarrow> ustr \<Rightarrow> bool" where
  "has_placeholder U v \<longleftrightarrow> has_token v \<or> lookalike U v"

definition without_tokens :: "ustr \<Rightarrow> ustr" where
  "without_tokens v = (case token_sub (\<lambda>_. ret []) v () of (Inr w, _) \<Rightarrow> w | (Inl _, _) \<Rightarrow> v)"

definition has_malformed_placeholder :: "ucd \<Rightarrow> ustr \<Rightarrow> bool" where
  "has_malformed_placeholder U v \<longleftrightarrow> lookalike U (without_tokens v)"

subsection \<open>Decoding\<close>

fun key_texts :: "pyval \<Rightarrow> ustr list" and key_texts_list :: "pyval list \<Rightarrow> ustr list"
  and key_texts_pairs :: "pydict \<Rightarrow> ustr list" where
  "key_texts (PDict d) = key_texts_pairs d"
| "key_texts (PList xs) = key_texts_list xs"
| "key_texts _ = []"
| "key_texts_list [] = []"
| "key_texts_list (x # xs) = key_texts x @ key_texts_list xs"
| "key_texts_pairs [] = []"
| "key_texts_pairs ((k, v) # d) = key_text k # key_texts v @ key_texts_pairs d"

definition children :: "pyval \<Rightarrow> pyval list option" where
  "children v = (case v of PDict d \<Rightarrow> Some (map snd d) | PList xs \<Rightarrow> Some xs | _ \<Rightarrow> None)"

lemma size_children: "children v = Some vs \<Longrightarrow> sum_list (map (\<lambda>v. Suc (size v)) vs) < Suc (size v)"
proof (cases v)
  case (PDict d)
  have "sum_list (map (\<lambda>v. Suc (size v)) (map snd d)) \<le> size_list (size_prod size size) d"
    by (induction d) auto
  then show "children v = Some vs \<Longrightarrow> ?thesis" using PDict by (auto simp: children_def)
qed (auto simp: children_def size_list_conv)

function argument_bounds :: "nat \<Rightarrow> (pyval \<times> nat) list \<Rightarrow> bool" where
  "argument_bounds visited [] \<longleftrightarrow> True"
| "argument_bounds visited ((node, depth) # stack) \<longleftrightarrow>
     depth \<le> 8 \<and> Suc visited \<le> 4096
     \<and> (case children node of
          None \<Rightarrow> argument_bounds (Suc visited) stack
        | Some vs \<Rightarrow> length vs \<le> 128 \<and> argument_bounds (Suc visited) (pushed (Suc depth) vs stack))"
  by pat_completeness auto
termination
  by (relation "measure (\<lambda>(n, st). stack_size st)") (auto dest: size_children)

declare argument_bounds.simps(2) [simp del]

definition decode_arguments :: "ucd \<Rightarrow> json_lib \<Rightarrow> ustr \<Rightarrow> pydict res" where
  "decode_arguments U J arguments =
     (case Option.bind (json_parse (jl_nest J) arguments) hooked of
        Some (PDict d) \<Rightarrow>
          if list_ex (has_placeholder U) (key_texts (PDict d)) then Inl ValueError
          else if argument_bounds 0 [(PDict d, 0)] then Inr d else Inl ValueError
      | _ \<Rightarrow> Inl ValueError)"

subsection \<open>Paths\<close>

type_synonym ppath = "bool \<times> ustr list"  \<comment> \<open>absolute?, components\<close>

definition path_of :: "ustr \<Rightarrow> ppath" where
  \<comment> \<open>\<open>Path(s)\<close>: empty and \<open>.\<close> components vanish\<close>
  "path_of s = (starts_with s [47], filter (\<lambda>p. p \<noteq> [] \<and> p \<noteq> [46]) (split_on 47 s))"

definition joined :: "ustr list \<Rightarrow> ppath \<Rightarrow> ustr list" where
  "joined base p = (if fst p then snd p else base @ snd p)"

definition inside :: "ustr list \<Rightarrow> ustr list \<Rightarrow> bool" where
  \<comment> \<open>\<open>is_relative_to\<close>\<close>
  "inside base p \<longleftrightarrow> take (length base) p = base"

definition validate_path :: "'b tool_env \<Rightarrow> ustr list \<Rightarrow> ustr \<Rightarrow> ustr res" where
  "validate_path T cwd v =
     (if v = [] \<or> list_ex (\<lambda>c. c \<in> {0, 13, 10, 92}) v \<or> 58 \<in> set v
         \<or> starts_with v [47, 47] \<or> starts_with v [126] \<or> starts_with v [45] \<or> has_placeholder (te_ucd T) v
      then Inl ValueError
      else if [46, 46] \<in> set (snd (path_of v)) then Inl ValueError
      else rbind (te_resolve T (joined cwd (path_of v))) (\<lambda>resolved.
        if inside (te_root T) resolved then Inr v else Inl ValueError))"

text \<open>A path the tools may use: below the workspace once the file system resolved it.\<close>

definition confined :: "'b tool_env \<Rightarrow> ustr list \<Rightarrow> ustr \<Rightarrow> bool" where
  "confined T cwd p \<longleftrightarrow> p \<noteq> [] \<and> hd p \<notin> {45, 126} \<and> [46, 46] \<notin> set (snd (path_of p))
     \<and> (\<exists>r. te_resolve T (joined cwd (path_of p)) = Inr r \<and> inside (te_root T) r)"

lemma validate_path_Inr: "validate_path T cwd v = Inr w \<Longrightarrow> w = v \<and> confined T cwd v"
  by (cases v) (auto simp: validate_path_def confined_def rbind_eq_Inr starts_with_def split: if_splits)

interpretation registry_paths: local_paths "\<lambda>p. lift (validate_path T cwd p)" for T :: "'b tool_env" and cwd
  by unfold_locales (auto dest!: validate_path_Inr)

subsection \<open>The callbacks\<close>

text \<open>\<open>len(s.encode("utf-8"))\<close>, which raises on a surrogate.\<close>

definition encoded_length :: "ustr \<Rightarrow> nat res" where
  "encoded_length s = (if list_ex is_surrogate s then Inl UnicodeError else Inr (length (utf8 s)))"

definition call_restore :: "'b tool_env \<Rightarrow> ustr \<Rightarrow> (outcome, 'b) tool" where
  "call_restore T v st =
     (case restore (te_vault_env T) (te_backend T) (te_ucd T) (te_clock T (tl_calls st)) (te_ctx T) v (te_prov T)
             (max 0 (te_max T - int (tl_bytes st))) (tl_vault st) of
        (r, vault) \<Rightarrow> (r, st\<lparr>tl_vault := vault, tl_calls := Suc (tl_calls st)\<rparr>))"

definition tool_content :: "'b tool_env \<Rightarrow> ustr \<Rightarrow> (ustr, 'b) tool" where
  "tool_content T v =
     bind (guard (\<not> has_malformed_placeholder (te_ucd T) v) ValueError) (\<lambda>_.
     bind (guard (\<not> list_ex is_surrogate v) UnicodeError) (\<lambda>_.
     bind (call_restore T v) (\<lambda>out.
     bind (\<lambda>st. (Inr (), st\<lparr>tl_aggregate := outcome_merge (tl_aggregate st) out\<rparr>)) (\<lambda>_.
     bind (guard (total_refused out = 0 \<and> \<not> has_placeholder (te_ucd T) (ro_text out)) refusal) (\<lambda>_.
     bind (lift (encoded_length (ro_text out))) (\<lambda>n.
     bind (\<lambda>st. (Inr (), st\<lparr>tl_bytes := tl_bytes st + n\<rparr>)) (\<lambda>_. ret (ro_text out))))))))"

definition content_value :: "'b tool_env \<Rightarrow> pyval \<Rightarrow> (pyval, 'b) tool" where
  \<comment> \<open>\<open>content\<close> of a value of any type\<close>
  "content_value T v = (case v of PStr s \<Rightarrow> bind (tool_content T s) (\<lambda>t. ret (PStr t)) | _ \<Rightarrow> raise ValueError)"

definition tool_path :: "'b tool_env \<Rightarrow> ustr \<Rightarrow> (ustr, 'b) tool" where
  "tool_path T v = bind (tool_content T v) (\<lambda>s. lift (validate_path T (te_root T) s))"

definition path_value :: "'b tool_env \<Rightarrow> pyval \<Rightarrow> (pyval, 'b) tool" where
  "path_value T v = (case v of PStr s \<Rightarrow> bind (tool_path T s) (\<lambda>t. ret (PStr t)) | _ \<Rightarrow> raise ValueError)"

definition tool_glob :: "'b tool_env \<Rightarrow> ustr \<Rightarrow> (ustr, 'b) tool" where
  "tool_glob T v =
     bind (guard (\<not> has_malformed_placeholder (te_ucd T) v) ValueError) (\<lambda>_. restore_glob (tool_content T) v)"

definition glob_field :: "'b tool_env \<Rightarrow> pyval \<Rightarrow> (pyval, 'b) tool" where
  "glob_field T v = (case v of PStr s \<Rightarrow> bind (tool_glob T s) (\<lambda>t. ret (PStr t)) | _ \<Rightarrow> raise ValueError)"

definition patch_path :: "'b tool_env \<Rightarrow> ustr \<Rightarrow> (ustr, 'b) tool" where
  "patch_path T v =
     bind (tool_path T v) (\<lambda>restored.
     bind (lift (te_resolve T (joined (te_root T) (path_of restored)))) (\<lambda>canonical.
     bind (\<lambda>st. if canonical \<in> set (tl_seen st) then (Inl ValueError, st)
                else (Inr (), st\<lparr>tl_seen := canonical # tl_seen st\<rparr>)) (\<lambda>_. ret restored)))"

definition tool_patch :: "'b tool_env \<Rightarrow> ustr \<Rightarrow> (ustr, 'b) tool" where
  "tool_patch T v =
     bind (\<lambda>st. (Inr (), st\<lparr>tl_seen := []\<rparr>)) (\<lambda>_.
     bind (restore_patch (patch_path T) (tool_content T) v) (\<lambda>restored.
     bind (restore_patch (\<lambda>p. lift (validate_path T (te_root T) p)) ret restored) (\<lambda>_. ret restored)))"

subsection \<open>The tools\<close>

definition keys_within :: "pydict \<Rightarrow> string list \<Rightarrow> bool" where
  "keys_within d names \<longleftrightarrow> list_all (\<lambda>(k, _). in_names k names) d"

definition has_keys :: "pydict \<Rightarrow> string list \<Rightarrow> bool" where
  "has_keys d names \<longleftrightarrow> list_all (\<lambda>k. pd_get d k \<noteq> None) names"

definition set_field :: "string \<Rightarrow> (pyval \<Rightarrow> (pyval, 'b) tool) \<Rightarrow> pydict \<Rightarrow> (pydict, 'b) tool" where
  \<comment> \<open>\<open>values[k] = f(values[k])\<close>\<close>
  "set_field k f d = (case pd_get d k of None \<Rightarrow> raise KeyError | Some v \<Rightarrow> bind (f v) (\<lambda>x. ret (pd_set k x d)))"

definition set_if :: "string \<Rightarrow> (pyval \<Rightarrow> (pyval, 'b) tool) \<Rightarrow> pydict \<Rightarrow> (pydict, 'b) tool" where
  \<comment> \<open>\<open>if k in values: values[k] = f(values[k])\<close>\<close>
  "set_if k f d = (if pd_get d k = None then ret d else set_field k f d)"

fun set_fields :: "string list \<Rightarrow> (pyval \<Rightarrow> (pyval, 'b) tool) \<Rightarrow> pydict \<Rightarrow> (pydict, 'b) tool" where
  "set_fields [] f d = ret d"
| "set_fields (k # ks) f d = bind (set_field k f d) (set_fields ks f)"

definition check_int :: "int \<Rightarrow> int option \<Rightarrow> pydict \<Rightarrow> string \<Rightarrow> bool" where
  \<comment> \<open>a field that is absent, or an \<open>int\<close> (no \<open>bool\<close>) within the bounds\<close>
  "check_int lo hi d k =
     (case pd_get d k of
        None \<Rightarrow> True
      | Some (PInt i) \<Rightarrow> lo \<le> i \<and> (case hi of None \<Rightarrow> True | Some h \<Rightarrow> i \<le> h)
      | _ \<Rightarrow> False)"

definition check_bool :: "pydict \<Rightarrow> string \<Rightarrow> bool" where
  "check_bool d k = (case pd_get d k of None \<Rightarrow> True | Some (PBool b) \<Rightarrow> True | _ \<Rightarrow> False)"

text \<open>
  The fields of a file tool: its path, the required fields, the integers, the booleans, the fields restored as
  content.  The code iterates over a set of the latter; their order here is one of those it may take.
\<close>

record file_fields =
  ff_path :: string
  ff_required :: "string list"
  ff_ints :: "string list"
  ff_bools :: "string list"
  ff_contents :: "string list"

definition file_fields_of :: "ustr \<Rightarrow> pydict \<Rightarrow> file_fields" where
  "file_fields_of name d =
     (let path_key = (if one_of name [''Read'', ''Edit'', ''Write''] then ''file_path'' else ''path'') in
      if one_of name READ
      then \<lparr>ff_path = path_key, ff_required = [path_key],
            ff_ints = (if name = lit ''Read'' then [''offset'', ''limit''] else [''start_line'', ''end_line'']),
            ff_bools = [], ff_contents = []\<rparr>
      else if one_of name WRITE
      then \<lparr>ff_path = path_key, ff_required = [path_key, ''content''], ff_ints = [], ff_bools = [],
            ff_contents = [''content'']\<rparr>
      else let texts = (if name = lit ''Edit'' \<or> pd_get d ''old_string'' \<noteq> None \<or> pd_get d ''new_string'' \<noteq> None
                        then [''old_string'', ''new_string''] else [''old_text'', ''new_text''])
      in \<lparr>ff_path = path_key, ff_required = path_key # texts, ff_ints = [], ff_bools = [''replace_all''], ff_contents = texts\<rparr>)"

definition restore_file :: "'b tool_env \<Rightarrow> ustr \<Rightarrow> pydict \<Rightarrow> (pydict, 'b) tool" where
  "restore_file T name d =
     (let F = file_fields_of name d in
      if \<not> has_keys d (ff_required F) \<or> \<not> keys_within d (ff_required F @ ff_ints F @ ff_bools F) then raise ValueError
      else if \<not> list_all (\<lambda>k. check_int (if k = ''offset'' then 0 else 1) None d k) (ff_ints F)
              \<or> \<not> list_all (check_bool d) (ff_bools F) then raise ValueError
      else bind (set_field (ff_path F) (path_value T) d) (set_fields (ff_contents F) (content_value T)))"

definition restore_patch_field :: "'b tool_env \<Rightarrow> pydict \<Rightarrow> (pydict, 'b) tool" where
  "restore_patch_field T d =
     (if \<not> keys_within d [''patch''] then raise ValueError
      else case pd_get d ''patch'' of
        Some (PStr p) \<Rightarrow> bind (tool_patch T p) (\<lambda>q. ret (pd_set ''patch'' (PStr q) d))
      | _ \<Rightarrow> raise ValueError)"

definition as_dict :: "pyval \<Rightarrow> pydict option" where
  "as_dict v = (case v of PDict d \<Rightarrow> Some d | _ \<Rightarrow> None)"

definition permission_paths_ok :: "'b tool_env \<Rightarrow> pyval \<Rightarrow> bool" where
  "permission_paths_ok T v =
     (case v of
        PList xs \<Rightarrow> length xs \<le> 64
          \<and> list_all (\<lambda>x. case x of
               PStr s \<Rightarrow> starts_with s [47] \<and> (case validate_path T (te_root T) s of Inr _ \<Rightarrow> True | Inl _ \<Rightarrow> False)
             | _ \<Rightarrow> False) xs
      | _ \<Rightarrow> False)"

definition additional_permissions_ok :: "'b tool_env \<Rightarrow> pyval \<Rightarrow> bool" where
  "additional_permissions_ok T v =
     (case v of
        PDict d \<Rightarrow> keys_within d [''network'', ''file_system'']
          \<and> (case pd_get_or d ''network'' (PDict []) of
               PDict n \<Rightarrow> keys_within n [''enabled''] \<and> pd_get_or n ''enabled'' (PBool False) = PBool False
             | _ \<Rightarrow> False)
          \<and> (case pd_get_or d ''file_system'' (PDict []) of
               PDict f \<Rightarrow> keys_within f [''read'', ''write''] \<and> list_all (\<lambda>(_, paths). permission_paths_ok T paths) f
             | _ \<Rightarrow> False)
      | _ \<Rightarrow> False)"

definition prefix_words :: "pyval \<Rightarrow> ustr list option" where
  \<comment> \<open>the texts of a list of texts\<close>
  "prefix_words v = (case v of PList xs \<Rightarrow> those (map py_unstr xs) | _ \<Rightarrow> None)"

definition exec_controls_ok :: "'b tool_env \<Rightarrow> pydict \<Rightarrow> bool" where
  "exec_controls_ok T d =
     (let permission = pd_get_or d ''sandbox_permissions'' (PStr (lit ''use_default'')) in
      in_names permission [''use_default'', ''require_escalated'', ''with_additional_permissions'']
      \<and> pd_get d ''environment_id'' = None
      \<and> (case pd_get d ''justification'' of
           None \<Rightarrow> True
         | Some (PStr s) \<Rightarrow> \<not> has_placeholder (te_ucd T) s \<and> permission = PStr (lit ''require_escalated'')
         | Some _ \<Rightarrow> False)
      \<and> (case pd_get d ''prefix_rule'' of
           None \<Rightarrow> True
         | Some v \<Rightarrow> permission = PStr (lit ''require_escalated'')
             \<and> (case prefix_words v of
                  None \<Rightarrow> False
                | Some ws \<Rightarrow> ws \<noteq> [] \<and> length ws \<le> 32 \<and> list_all (\<lambda>w. w \<noteq> [] \<and> \<not> has_placeholder (te_ucd T) w) ws))
      \<and> (case pd_get d ''additional_permissions'' of
           None \<Rightarrow> permission \<noteq> PStr (lit ''with_additional_permissions'')
         | Some v \<Rightarrow> permission = PStr (lit ''with_additional_permissions'') \<and> additional_permissions_ok T v))"

definition shell_fields :: "ustr \<Rightarrow> string list" where
  "shell_fields name =
     (if name = lit ''exec_command'' then [''cmd''] else [''command'']) @ [''shell'', ''cwd'']
     @ (if name = lit ''exec_command''
        then [''workdir'', ''yield_time_ms'', ''max_output_tokens'', ''login'', ''tty'', ''sandbox_permissions'', ''justification'',
              ''prefix_rule'', ''additional_permissions'', ''environment_id''] else [])
     @ (if name = lit ''Bash'' then [''timeout'', ''description'', ''run_in_background'', ''dangerouslyDisableSandbox''] else [])"

definition command_key :: "ustr \<Rightarrow> string" where
  "command_key name = (if name = lit ''exec_command'' then ''cmd'' else ''command'')"

definition shell_controls_ok :: "'b tool_env \<Rightarrow> ustr \<Rightarrow> pydict \<Rightarrow> bool" where
  "shell_controls_ok T name d \<longleftrightarrow>
     pd_get d (command_key name) \<noteq> None \<and> keys_within d (shell_fields name)
     \<and> (case pd_get d (command_key name) of
          Some (PStr c) \<Rightarrow> \<not> has_malformed_placeholder (te_ucd T) c | _ \<Rightarrow> False)
     \<and> (case pd_get d ''shell'' of
          None \<Rightarrow> True | Some v \<Rightarrow> in_names v [''sh'', ''bash'', ''/bin/sh'', ''/bin/bash''])
     \<and> list_all (check_int 1 None d) [''yield_time_ms'', ''max_output_tokens'', ''timeout'']
     \<and> list_all (check_bool d) [''login'', ''tty'', ''run_in_background'', ''dangerouslyDisableSandbox'']
     \<and> (pd_get d ''cwd'' = None \<or> pd_get d ''workdir'' = None)"

definition cwd_of :: "'b tool_env \<Rightarrow> pydict \<Rightarrow> ustr list" where
  \<comment> \<open>the working directory after \<open>cwd\<close> or \<open>workdir\<close> was restored\<close>
  "cwd_of T d =
     (case (pd_get d ''cwd'', pd_get d ''workdir'') of
        (Some (PStr s), _) \<Rightarrow> joined (te_root T) (path_of s)
      | (_, Some (PStr s)) \<Rightarrow> joined (te_root T) (path_of s)
      | _ \<Rightarrow> te_root T)"

definition command_value :: "'b tool_env \<Rightarrow> ustr list \<Rightarrow> pyval \<Rightarrow> (pyval, 'b) tool" where
  "command_value T cwd v =
     (case v of
        PStr c \<Rightarrow> bind (restore_shell (tool_content T) (\<lambda>p. lift (validate_path T cwd p)) (Some (tool_glob T)) c)
                    (\<lambda>out. ret (PStr out))
      | _ \<Rightarrow> raise ValueError)"

definition prefix_rule_ok :: "ustr \<Rightarrow> pydict \<Rightarrow> bool" where
  "prefix_rule_ok name d =
     (case (Option.bind (pd_get d ''prefix_rule'') prefix_words, pd_get d (command_key name)) of
        (Some ws, Some (PStr c)) \<Rightarrow> (case shlex_split c of Inr argv \<Rightarrow> take (length ws) argv = ws | Inl _ \<Rightarrow> False)
      | _ \<Rightarrow> pd_get d ''prefix_rule'' = None)"

definition restore_shell_values :: "'b tool_env \<Rightarrow> ustr \<Rightarrow> pydict \<Rightarrow> (pydict, 'b) tool" where
  "restore_shell_values T name d =
     bind (guard (shell_controls_ok T name d) ValueError) (\<lambda>_.
     bind (set_if ''cwd'' (path_value T) d) (\<lambda>d.
     bind (set_if ''workdir'' (path_value T) d) (\<lambda>d.
     bind (set_if ''description'' (content_value T) d) (\<lambda>d.
     bind (guard (pd_get d ''dangerouslyDisableSandbox'' \<noteq> Some (PBool True)) ValueError) (\<lambda>_.
     bind (guard (name = lit ''exec_command'' \<longrightarrow> exec_controls_ok T d) ValueError) (\<lambda>_.
     bind (set_field (command_key name) (command_value T (cwd_of T d)) d) (\<lambda>d.
     bind (guard (prefix_rule_ok name d) ValueError) (\<lambda>_. ret d))))))))"

definition stdin_ok :: "pydict \<Rightarrow> bool" where
  "stdin_ok d \<longleftrightarrow> pd_get d ''session_id'' \<noteq> None
     \<and> keys_within d [''session_id'', ''chars'', ''yield_time_ms'', ''max_output_tokens'']
     \<and> check_int 0 (Some (2 ^ 31 - 1)) d ''session_id''
     \<and> pd_get_or d ''chars'' (PStr []) \<in> {PStr [], PStr [3]}
     \<and> list_all (check_int 0 None d) [''yield_time_ms'', ''max_output_tokens'']"

definition INTEGER_CONTROLS :: "string list" where
  "INTEGER_CONTROLS = [''-A'', ''-B'', ''-C'', ''context'', ''head_limit'', ''offset'']"

definition BOOLEAN_CONTROLS :: "string list" where
  "BOOLEAN_CONTROLS = [''-i'', ''-n'', ''-o'', ''multiline'']"

definition search_fields :: "ustr \<Rightarrow> string list" where
  "search_fields name = [''pattern'', ''path'']
     @ (if name = lit ''Grep'' then INTEGER_CONTROLS @ BOOLEAN_CONTROLS @ [''glob'', ''type'', ''output_mode''] else [])"

definition regex_field :: "'b tool_env \<Rightarrow> pyval \<Rightarrow> (pyval, 'b) tool" where
  "regex_field T v =
     (case v of
        PStr p \<Rightarrow> bind (guard (\<not> has_malformed_placeholder (te_ucd T) p) ValueError) (\<lambda>_.
                  bind (restore_regex (tool_content T) False p) (\<lambda>q. ret (PStr q)))
      | _ \<Rightarrow> raise ValueError)"

definition search_controls_ok :: "pydict \<Rightarrow> bool" where
  "search_controls_ok d \<longleftrightarrow>
     (case pd_get d ''type'' of None \<Rightarrow> True | Some (PStr s) \<Rightarrow> type_name s | Some _ \<Rightarrow> False)
     \<and> (case pd_get d ''output_mode'' of None \<Rightarrow> True | Some v \<Rightarrow> in_names v [''content'', ''files_with_matches'', ''count''])
     \<and> list_all (check_int 0 (Some 1000000) d) INTEGER_CONTROLS \<and> list_all (check_bool d) BOOLEAN_CONTROLS"

definition restore_search :: "'b tool_env \<Rightarrow> ustr \<Rightarrow> pydict \<Rightarrow> (pydict, 'b) tool" where
  "restore_search T name d =
     bind (guard (pd_get d ''pattern'' \<noteq> None \<and> keys_within d (search_fields name)) ValueError) (\<lambda>_.
     bind (set_if ''path'' (path_value T) d) (\<lambda>d.
     if name = lit ''Glob'' then set_field ''pattern'' (glob_field T) d
     else bind (set_field ''pattern'' (regex_field T) d) (\<lambda>d.
          bind (set_if ''glob'' (glob_field T) d) (\<lambda>d.
          bind (guard (search_controls_ok d) ValueError) (\<lambda>_. ret d)))))"

definition restore_todo :: "'b tool_env \<Rightarrow> pyval \<Rightarrow> (pyval, 'b) tool" where
  "restore_todo T v =
     (case v of
        PDict d \<Rightarrow>
          if keys_within d [''content'', ''status'', ''activeForm''] \<and> has_keys d [''content'', ''status'', ''activeForm'']
             \<and> in_names (pd_get_or d ''status'' PNone) [''pending'', ''in_progress'', ''completed'']
          then bind (set_fields [''content'', ''activeForm''] (content_value T) d) (\<lambda>d. ret (PDict d))
          else raise ValueError
      | _ \<Rightarrow> raise ValueError)"

definition restore_todos :: "'b tool_env \<Rightarrow> pydict \<Rightarrow> (pydict, 'b) tool" where
  "restore_todos T d =
     (if \<not> keys_within d [''todos''] then raise ValueError
      else case pd_get d ''todos'' of
        Some (PList xs) \<Rightarrow> if 128 < length xs then raise ValueError
          else bind (emap (restore_todo T) xs) (\<lambda>ys. ret (pd_set ''todos'' (PList ys) d))
      | _ \<Rightarrow> raise ValueError)"

subsection \<open>A call\<close>

definition restore_values :: "'b tool_env \<Rightarrow> ustr \<Rightarrow> pydict \<Rightarrow> (pydict, 'b) tool" where
  "restore_values T name d =
     (if one_of name (READ @ EDIT @ WRITE) then restore_file T name d
      else if name = lit ''apply_patch'' then restore_patch_field T d
      else if one_of name SHELL then restore_shell_values T name d
      else if one_of name SEARCH then restore_search T name d
      else if name = lit ''write_stdin'' then bind (guard (stdin_ok d) ValueError) (\<lambda>_. ret d)
      else if name = lit ''TodoWrite'' then restore_todos T d
      else ret d)"

definition within_limit :: "'b tool_env \<Rightarrow> ustr \<Rightarrow> (unit, 'b) tool" where
  "within_limit T s =
     bind (lift (encoded_length s)) (\<lambda>n. guard (int n \<le> te_max T) (ToolRestorationError ''tool_arguments_too_large''))"

definition restore_call :: "'b tool_env \<Rightarrow> bool \<Rightarrow> ustr \<Rightarrow> ustr \<Rightarrow> (ustr, 'b) tool" where
  "restore_call T custom name arguments =
     bind (guard (one_of name SUPPORTED \<and> \<not> has_placeholder (te_ucd T) name) (ToolRestorationError ''unsupported_tool'')) (\<lambda>_.
     bind (within_limit T arguments) (\<lambda>_.
     bind (if custom
           then if name \<noteq> lit ''apply_patch'' then raise (ToolRestorationError ''unsupported_tool_format'')
                else tool_patch T arguments
           else bind (lift (decode_arguments (te_ucd T) (te_json T) arguments)) (\<lambda>d.
                bind (restore_values T name d) (\<lambda>d. lift (json_dumps (jl_repr (te_json T)) (PDict d))))) (\<lambda>out.
     bind (within_limit T out) (\<lambda>_. ret out))))"

text \<open>
  What leaves \<open>restore\<close>: the arguments with the aggregate outcome, a refusal that carries the aggregate, or
  an exception the handler lets pass.
\<close>

datatype tool_result = Done ustr outcome | Refused string outcome | Raises exn

definition handled :: "exn \<Rightarrow> outcome \<Rightarrow> tool_result" where
  "handled e aggregate =
     (case e of
        ToolRestorationError code \<Rightarrow> Refused code aggregate
      | RestorationOutputTooLargeError \<Rightarrow> Refused ''tool_arguments_too_large'' aggregate
      | e \<Rightarrow> if e \<in> {ValueError, UnicodeError, TypeError, KeyError, RecursionError, OSError, PatchValidationError,
                    ShellValidationError}
            then Refused ''tool_restoration_refused'' aggregate else Raises e)"

definition tool_restore :: "'b tool_env \<Rightarrow> bool \<Rightarrow> ustr \<Rightarrow> ustr \<Rightarrow> 'b vault \<Rightarrow> tool_result \<times> 'b vault" where
  "tool_restore T custom name arguments v =
     (case restore_call T custom name arguments
             \<lparr>tl_vault = v, tl_aggregate = outcome_init [], tl_bytes = 0, tl_calls = 0, tl_seen = []\<rparr> of
        (Inr out, st) \<Rightarrow> (Done out ((tl_aggregate st)\<lparr>ro_text := out\<rparr>), tl_vault st)
      | (Inl e, st) \<Rightarrow> (handled e (tl_aggregate st), tl_vault st))"

end
