(* ===== verification/Bound.thy ===== *)
theory Bound
  imports ToolSchema Registry
begin

text \<open>
  Tools bound to a request, \<^verbatim>\<open>gateway/tools/bound.py\<close>: the declarations of a request are checked against
  the fields of the registered tools, and a call is released only when the request declared and selected
  its tool and the restored arguments match the declared schema.  A set of names is a list here.
\<close>

subsection \<open>The fields of a tool\<close>

definition fields_for :: "ustr \<Rightarrow> string list res" where
  "fields_for name =
     (if one_of name (READ @ WRITE @ EDIT)
      then let path = (if one_of name [''Read'', ''Edit'', ''Write''] then ''file_path'' else ''path'') in
        Inr (path # (if one_of name READ
                     then (if name = lit ''Read'' then [''offset'', ''limit'', ''pages''] else [''start_line'', ''end_line''])
                     else if one_of name WRITE then [''content'']
                     else [''old_string'', ''new_string'', ''replace_all'']
                       @ (if name \<noteq> lit ''Edit'' then [''old_text'', ''new_text''] else [])))
      else if name = lit ''apply_patch'' then Inr [''patch'']
      else if name = lit ''write_stdin'' then Inr [''session_id'', ''chars'', ''yield_time_ms'', ''max_output_tokens'']
      else if name = lit ''TodoWrite'' then Inr [''todos'']
      else if one_of name SEARCH
      then Inr ([''path'', ''pattern'']
        @ (if name = lit ''Grep''
           then [''glob'', ''output_mode'', ''-i'', ''-n'', ''-o'', ''multiline'', ''-A'', ''-B'', ''-C'', ''context'',
                 ''head_limit'', ''offset'', ''type''] else []))
      else if one_of name SHELL
      then Inr ([if name = lit ''exec_command'' then ''cmd'' else ''command'', ''shell'', ''cwd'']
        @ (if name = lit ''exec_command''
           then [''workdir'', ''yield_time_ms'', ''max_output_tokens'', ''login'', ''tty'', ''sandbox_permissions'',
                 ''justification'', ''prefix_rule'', ''additional_permissions'', ''environment_id''] else [])
        @ (if name = lit ''Bash'' then [''timeout'', ''description'', ''run_in_background'', ''dangerouslyDisableSandbox''] else []))
      else tool_fail ''unsupported_tool'')"

text \<open>The expected type of a field: a JSON type, a list (a tuple of one element in the code), an object.\<close>

datatype expected = Kind string | Items expected | Fields "(string \<times> expected) list"

definition INTEGERS :: "string list" where
  "INTEGERS = [''offset'', ''limit'', ''start_line'', ''end_line'', ''yield_time_ms'', ''max_output_tokens'', ''timeout'',
     ''session_id'', ''-A'', ''-B'', ''-C'', ''context'', ''head_limit'']"

definition BOOLEANS :: "string list" where
  "BOOLEANS = [''replace_all'', ''login'', ''tty'', ''-i'', ''-n'', ''-o'', ''multiline'', ''run_in_background'',
     ''dangerouslyDisableSandbox'']"

definition field_kind :: "string \<Rightarrow> expected" where
  "field_kind f = Kind (if f \<in> set INTEGERS then ''integer'' else if f \<in> set BOOLEANS then ''boolean'' else ''string'')"

definition field_types :: "ustr \<Rightarrow> (string \<times> expected) list res" where
  "field_types name =
     rbind (fields_for name) (\<lambda>names.
     let kinds = map (\<lambda>f. (f, field_kind f)) names;
         kinds = (if name = lit ''exec_command''
           then AList.update ''additional_permissions''
                  (Fields [(''network'', Fields [(''enabled'', Kind ''boolean'')]),
                           (''file_system'', Fields [(''read'', Items (Kind ''string'')), (''write'', Items (Kind ''string''))])])
                  (AList.update ''prefix_rule'' (Items (Kind ''string'')) kinds)
           else kinds)
     in Inr (if name = lit ''TodoWrite''
             then AList.update ''todos''
                    (Items (Fields [(''content'', Kind ''string''), (''activeForm'', Kind ''string''), (''status'', Kind ''string'')]))
                    kinds
             else kinds))"

definition field_of :: "(string \<times> expected) list \<Rightarrow> pyval \<Rightarrow> expected option" where
  "field_of fs name = map_option snd (List.find (\<lambda>(f, _). name = PStr (lit f)) fs)"

definition names_known :: "(string \<times> expected) list \<Rightarrow> pydict \<Rightarrow> bool" where
  \<comment> \<open>the properties and the required names of a schema are fields of the tool\<close>
  "names_known fs d \<longleftrightarrow>
     (case pd_get_or d ''properties'' (PDict []) of
        PDict ps \<Rightarrow> list_all (\<lambda>(name, _). field_of fs name \<noteq> None) ps | _ \<Rightarrow> False)
     \<and> (case pd_get_or d ''required'' (PList []) of
          PList ns \<Rightarrow> list_all (\<lambda>name. field_of fs name \<noteq> None) ns | _ \<Rightarrow> False)"

definition type_compatible :: "pydict \<Rightarrow> expected \<Rightarrow> bool" where
  "type_compatible d e =
     (case pd_get d ''type'' of
        None \<Rightarrow> True
      | Some t \<Rightarrow>
          let kind = (case e of Fields _ \<Rightarrow> ''object'' | Items _ \<Rightarrow> ''array'' | Kind k \<Rightarrow> k)
          in list_all (\<lambda>k. in_names k (if kind = ''integer'' then [kind, ''number''] else [kind])) (kinds_of t))"

definition alternatives :: "pydict \<Rightarrow> pyval list" where
  \<comment> \<open>the schemas the combiners of a schema hold\<close>
  "alternatives d = concat (map (\<lambda>k. case pd_get d k of Some (PList xs) \<Rightarrow> xs | _ \<Rightarrow> []) COMBINERS)"

lemma size_alternatives: "c \<in> set (alternatives d) \<Longrightarrow> size c < size (PDict d)"
  by (auto simp: alternatives_def simp del: pyval.size split: option.splits pyval.splits dest: size_combiner [OF sym])

lemma size_properties: "pd_get_or d k (PDict []) = PDict ps \<Longrightarrow> (n, c) \<in> set ps \<Longrightarrow> size c < size (PDict d)"
  unfolding pd_get_or_def pd_get_def using size_inner(1)
  by (fastforce simp del: pyval.size split: option.splits dest: map_of_SomeD)

lemma size_get: "pd_get d k = Some c \<Longrightarrow> size c < size (PDict d)"
  unfolding pd_get_def by (blast dest: map_of_SomeD size_inner(3))

text \<open>\<open>_check_property_type\<close>, \<open>_check_flat_contract\<close>: true where the function returns, false where it refuses.\<close>

function check_property_type :: "pyval \<Rightarrow> expected \<Rightarrow> bool" where
  "check_property_type schema e =
     (case schema of
        PBool _ \<Rightarrow> True
      | PDict d \<Rightarrow>
          type_compatible d e
          \<and> (case e of
               Fields fs \<Rightarrow>
                 names_known fs d
                 \<and> (case pd_get_or d ''properties'' (PDict []) of
                      PDict ps \<Rightarrow> list_all (\<lambda>(name, child).
                        case field_of fs name of Some e' \<Rightarrow> check_property_type child e' | None \<Rightarrow> False) ps
                    | _ \<Rightarrow> False)
                 \<and> (case pd_get d ''additionalProperties'' of Some (PDict _) \<Rightarrow> False | _ \<Rightarrow> True)
             | Items e' \<Rightarrow> (case pd_get d ''items'' of Some c \<Rightarrow> check_property_type c e' | None \<Rightarrow> True)
             | Kind _ \<Rightarrow> True)
          \<and> list_all (\<lambda>child. check_property_type child e) (alternatives d)
      | _ \<Rightarrow> False)"
  by pat_completeness auto
termination
  by (relation "measure (\<lambda>(s, e). size s)")
    (auto simp del: pyval.size dest: size_alternatives size_properties size_get)

function check_flat_contract :: "pyval \<Rightarrow> (string \<times> expected) list \<Rightarrow> bool" where
  "check_flat_contract schema fs =
     (case schema of
        PBool _ \<Rightarrow> True
      | PDict d \<Rightarrow>
          list_ex (\<lambda>k. k = PStr (lit ''object'')) (kinds_of (pd_get_or d ''type'' (PList [PStr (lit ''object'')])))
          \<and> names_known fs d
          \<and> (case pd_get_or d ''properties'' (PDict []) of
               PDict ps \<Rightarrow> list_all (\<lambda>(name, child).
                 case field_of fs name of Some e \<Rightarrow> check_property_type child e | None \<Rightarrow> False) ps
             | _ \<Rightarrow> False)
          \<and> list_all (\<lambda>child. check_flat_contract child fs) (alternatives d)
      | _ \<Rightarrow> False)"
  by pat_completeness auto
termination
  by (relation "measure (\<lambda>(s, fs). size s)") (auto simp del: pyval.size dest: size_alternatives)

declare check_property_type.simps [simp del] check_flat_contract.simps [simp del]


subsection \<open>The registry of one request\<close>

record bound_tools =
  bt_declared :: "(ustr \<times> bool \<times> pyval option) list"   \<comment> \<open>name, custom, schema\<close>
  bt_required :: bool
  bt_selected :: "(pyval \<times> bool) option"
  bt_forbidden :: bool
  bt_max_calls :: int

definition py_member :: "pyval \<Rightarrow> string list \<Rightarrow> bool res" where
  \<comment> \<open>\<open>v in {...}\<close>\<close>
  "py_member v names = (case v of PList _ \<Rightarrow> Inl TypeError | PDict _ \<Rightarrow> Inl TypeError | _ \<Rightarrow> Inr (in_names v names))"

definition py_item :: "pydict \<Rightarrow> string \<Rightarrow> pyval res" where
  \<comment> \<open>\<open>d[k]\<close>\<close>
  "py_item d k = (case pd_get d k of Some v \<Rightarrow> Inr v | None \<Rightarrow> Inl KeyError)"

definition kind_check :: "bool \<Rightarrow> pyval \<Rightarrow> unit res" where
  \<comment> \<open>the \<open>type\<close> of a declaration, \<open>None\<close> when absent; the flag tells the Responses protocol\<close>
  "kind_check responses t =
     rbind (py_member t (if responses then [''function'', ''custom''] else [''custom''])) (\<lambda>ok.
     if ok \<or> (\<not> responses \<and> t = PNone) then Inr () else tool_fail ''unsupported_tool_format'')"

definition declare_tool :: "bool \<Rightarrow> pyval \<Rightarrow> (ustr \<times> bool \<times> pyval option) list \<Rightarrow> (ustr \<times> bool \<times> pyval option) list res" where
  "declare_tool responses defn declared =
     (case defn of
        PDict d \<Rightarrow>
          rbind (py_item d ''name'') (\<lambda>n. case n of
            PStr name \<Rightarrow>
              if \<not> one_of name SUPPORTED \<or> map_of declared name \<noteq> None then tool_fail ''unsupported_tool''
              else let t = pd_get_or d ''type'' PNone; custom = (responses \<and> t = PStr (lit ''custom'')) in
                rbind (kind_check responses t) (\<lambda>_.
                if custom
                then if name \<noteq> lit ''apply_patch'' then tool_fail ''unsupported_tool_format''
                     else rbind (validate_apply_patch_format (pd_get_or d ''format'' (PDict [(PStr (lit ''type''), PStr (lit ''text''))])))
                            (\<lambda>_. Inr (declared @ [(name, True, None)]))
                else rbind (py_item d (if responses then ''parameters'' else ''input_schema'')) (\<lambda>schema.
                     rbind (compile_schema 0 schema MAX_SCHEMA_NODES) (\<lambda>_.
                     rbind (field_types name) (\<lambda>fs.
                     if check_flat_contract schema fs then Inr (declared @ [(name, False, Some schema)]) else bad_schema))))
          | _ \<Rightarrow> tool_fail ''unsupported_tool'')
      | _ \<Rightarrow> tool_fail ''unsupported_tool_format'')"

text \<open>The choice of a request: forbidden, required, selected, and the largest number of calls.\<close>

type_synonym choice = "bool \<times> bool \<times> (pyval \<times> bool) option \<times> int"

definition responses_choice :: "pydict \<Rightarrow> choice res" where
  "responses_choice p =
     rbind (case pd_get_or p ''tool_choice'' (PStr (lit ''auto'')) of
        PStr s \<Rightarrow> if one_of s [''auto'', ''none'', ''required''] then Inr (s = lit ''none'', s = lit ''required'', None)
                  else tool_fail ''invalid_tool_choice''
      | PDict c \<Rightarrow>
          rbind (py_item c ''type'') (\<lambda>t.
          rbind (py_member t [''function'', ''custom'']) (\<lambda>ok.
          if \<not> ok then tool_fail ''invalid_tool_choice''
          else rbind (py_item c ''name'') (\<lambda>n. Inr (False, True, Some (n, t = PStr (lit ''custom''))))))
      | _ \<Rightarrow> Inl TypeError) (\<lambda>(forbidden, required, selected).
     case pd_get_or p ''parallel_tool_calls'' (PBool True) of
       PBool parallel \<Rightarrow>
         let most = (if parallel then 512 else 1) in
         (case pd_get p ''max_tool_calls'' of
            None \<Rightarrow> Inr (forbidden, required, selected, most)
          | Some (PInt limit) \<Rightarrow>
              if limit < 1 then tool_fail ''invalid_tool_choice'' else Inr (forbidden, required, selected, min most limit)
          | Some _ \<Rightarrow> tool_fail ''invalid_tool_choice'')
     | _ \<Rightarrow> tool_fail ''invalid_tool_choice'')"

definition messages_choice :: "pydict \<Rightarrow> choice res" where
  "messages_choice p =
     (case pd_get_or p ''tool_choice'' (PDict [(PStr (lit ''type''), PStr (lit ''auto''))]) of
        PDict c \<Rightarrow>
          rbind (py_item c ''type'') (\<lambda>kind.
          rbind (py_member kind [''auto'', ''any'', ''none'', ''tool'']) (\<lambda>ok.
          if \<not> ok then tool_fail ''invalid_tool_choice''
          else rbind (if kind = PStr (lit ''tool'') then rbind (py_item c ''name'') (\<lambda>n. Inr (Some (n, False))) else Inr None) (\<lambda>selected.
          case pd_get_or c ''disable_parallel_tool_use'' (PBool False) of
            PBool single \<Rightarrow>
              Inr (kind = PStr (lit ''none''), in_names kind [''any'', ''tool''], selected, if single then 1 else 512)
          | _ \<Rightarrow> tool_fail ''invalid_tool_choice'')))
      | _ \<Rightarrow> Inl TypeError)"

definition declared_as :: "(ustr \<times> bool \<times> pyval option) list \<Rightarrow> pyval \<Rightarrow> bool \<Rightarrow> bool" where
  "declared_as declared name custom = (case name of PStr n \<Rightarrow> map_option fst (map_of declared n) = Some custom | _ \<Rightarrow> False)"

definition unhashable :: "pyval \<Rightarrow> bool" where
  "unhashable v = (case v of PList _ \<Rightarrow> True | PDict _ \<Rightarrow> True | _ \<Rightarrow> False)"

definition declared_tools :: "bool \<Rightarrow> pydict \<Rightarrow> (ustr \<times> bool \<times> pyval option) list res" where
  "declared_tools responses p =
     (case pd_get_or p ''tools'' (PList []) of
        PList defs \<Rightarrow> if MAX_SCHEMA_COLLECTION < length defs then bad_schema else rfold (declare_tool responses) defs []
      | _ \<Rightarrow> bad_schema)"

definition bind_request :: "pydict \<Rightarrow> ustr \<Rightarrow> bound_tools res" where
  "bind_request p protocol =
     (if \<not> one_of protocol [''responses'', ''messages''] then tool_fail ''unsupported_tool_protocol''
      else let responses = (protocol = lit ''responses'') in
        rbind (declared_tools responses p) (\<lambda>declared.
        rbind (if responses then responses_choice p else messages_choice p) (\<lambda>(forbidden, required, selected, most).
        if required \<and> declared = [] then tool_fail ''invalid_tool_choice''
        else case selected of
          None \<Rightarrow> Inr \<lparr>bt_declared = declared, bt_required = required, bt_selected = None, bt_forbidden = forbidden,
                      bt_max_calls = most\<rparr>
        | Some (n, custom) \<Rightarrow>
            if unhashable n then Inl TypeError
            else if \<not> declared_as declared n custom then tool_fail ''invalid_tool_choice''
            else Inr \<lparr>bt_declared = declared, bt_required = required, bt_selected = Some (n, custom), bt_forbidden = forbidden,
                      bt_max_calls = most\<rparr>)))"

definition bind_tools :: "pydict \<Rightarrow> ustr \<Rightarrow> bound_tools res" where
  \<comment> \<open>\<open>BoundToolRegistry(registry, payload, protocol)\<close>\<close>
  "bind_tools p protocol =
     (case bind_request p protocol of
        Inr B \<Rightarrow> Inr B
      | Inl e \<Rightarrow> if e \<in> {TypeError, ValueError, UnicodeError, PatchValidationError, KeyError, RecursionError, OverflowError}
                then bad_schema else Inl e)"

definition call_allowed :: "bound_tools \<Rightarrow> ustr \<Rightarrow> bool \<Rightarrow> unit res" where
  "call_allowed B name custom =
     (case map_of (bt_declared B) name of
        None \<Rightarrow> tool_fail ''undeclared_tool_call''
      | Some (kind, _) \<Rightarrow>
          if bt_forbidden B then tool_fail ''undeclared_tool_call''
          else if kind \<noteq> custom \<or> (bt_selected B \<noteq> None \<and> bt_selected B \<noteq> Some (PStr name, custom))
          then tool_fail ''tool_choice_violation'' else Inr ())"

definition validate_batch :: "bound_tools \<Rightarrow> (ustr \<times> ustr \<times> bool) list \<Rightarrow> unit res" where
  "validate_batch B calls =
     (if bt_max_calls B < int (length calls) \<or> (bt_required B \<and> calls = []) then tool_fail ''tool_choice_violation''
      else rfold (\<lambda>(name, _, custom) _. call_allowed B name custom) calls ())"

subsection \<open>Restoring a call\<close>

fun loaded :: "raw \<Rightarrow> pyval" and loaded_list :: "raw list \<Rightarrow> pyval list" and loaded_pairs :: "(ustr \<times> raw) list \<Rightarrow> pydict \<Rightarrow> pydict" where
  \<comment> \<open>\<open>json.loads\<close> without hooks: the last of equal keys wins\<close>
  "loaded RNull = PNone"
| "loaded (RBool b) = PBool b"
| "loaded (RInt i) = PInt i"
| "loaded (RFloat f) = PFloat f"
| "loaded (RConst w) = PFloat (if w = ''NaN'' then NaN else if w = ''Infinity'' then PosInf else NegInf)"
| "loaded (Json.RStr s) = PStr s"
| "loaded (RArr xs) = PList (loaded_list xs)"
| "loaded (RObj ps) = PDict (loaded_pairs ps [])"
| "loaded_list [] = []"
| "loaded_list (x # xs) = loaded x # loaded_list xs"
| "loaded_pairs [] d = d"
| "loaded_pairs ((k, x) # ps) d = loaded_pairs ps (AList.update (PStr k) (loaded x) d)"

definition json_loads :: "json_lib \<Rightarrow> ustr \<Rightarrow> pyval res" where
  "json_loads J s = (case json_parse (jl_nest J) s of Some r \<Rightarrow> Inr (loaded r) | None \<Rightarrow> Inl ValueError)"

definition schema_matched :: "json_lib \<Rightarrow> pyval option \<Rightarrow> ustr \<Rightarrow> bool res" where
  "schema_matched J schema text =
     (case schema of None \<Rightarrow> Inl TypeError | Some s \<Rightarrow> rbind (json_loads J text) (matches s))"

definition bound_restore :: "'b tool_env \<Rightarrow> bound_tools \<Rightarrow> bool \<Rightarrow> ustr \<Rightarrow> ustr \<Rightarrow> 'b vault \<Rightarrow> tool_result \<times> 'b vault" where
  "bound_restore T B custom name arguments v =
     (case call_allowed B name custom of
        Inl (ToolRestorationError code) \<Rightarrow> (Refused code (outcome_init []), v)
      | Inl e \<Rightarrow> (Raises e, v)
      | Inr _ \<Rightarrow>
          (case tool_restore T custom name arguments v of
             (Done out outcome, v') \<Rightarrow>
               if custom then (Done out outcome, v')
               else (case schema_matched (te_json T) (Option.bind (map_of (bt_declared B) name) snd) out of
                   Inl e \<Rightarrow> (Raises e, v')
                 | Inr ok \<Rightarrow> if ok then (Done out outcome, v')
                            else (Refused ''tool_schema_violation'' (outcome\<lparr>ro_text := []\<rparr>), v'))
           | r \<Rightarrow> r))"

end
