(* ===== verification/SchemaFacts.thy ===== *)
theory SchemaFacts
  imports ToolSchema
begin

text \<open>
  What an accepted tool schema guarantees: it is bounded, matching a value never raises, and it accepts
  the values that satisfy each of its keywords; the equality of JSON values it uses is an equivalence.
\<close>

subsection \<open>Accepted schemas\<close>

definition compiled :: "pyval \<Rightarrow> bool" where
  "compiled s \<longleftrightarrow> (\<exists>n b b'. compile_schema n s b = Inr b')"

lemma rfold_Inr_each: "rfold f xs s = Inr t \<Longrightarrow> x \<in> set xs \<Longrightarrow> \<exists>u w. f x u = Inr w"
  by (induction xs arbitrary: s) (auto simp: res_simps)

definition field_ok :: "pyval \<Rightarrow> pyval \<Rightarrow> bool" where
  "field_ok k v \<longleftrightarrow>
     (if in_names k [''properties''] then \<exists>ps. v = PDict ps \<and> (\<forall>(n, c) \<in> set ps. compiled c)
      else if in_names k [''additionalProperties'', ''items''] then compiled v
      else if in_names k COMBINERS then \<exists>xs. v = PList xs \<and> (\<forall>c \<in> set xs. compiled c)
      else keyword_ok k v)"

definition compile_field :: "nat \<Rightarrow> pyval \<Rightarrow> pyval \<Rightarrow> int \<Rightarrow> int res" where
  "compile_field n k v budget =
     (if in_names k [''properties'']
      then (case v of
          PDict ps \<Rightarrow>
            if MAX_SCHEMA_COLLECTION < length ps \<or> \<not> list_all (\<lambda>(n, _). is_str n) ps then bad_schema
            else rfold (\<lambda>(_, child). compile_schema (Suc n) child) ps budget
        | _ \<Rightarrow> bad_schema)
      else if in_names k [''additionalProperties'', ''items''] then compile_schema (Suc n) v budget
      else if in_names k COMBINERS
      then (case v of
          PList xs \<Rightarrow>
            if xs = [] \<or> MAX_SCHEMA_COLLECTION < length xs then bad_schema
            else rfold (compile_schema (Suc n)) xs budget
        | _ \<Rightarrow> bad_schema)
      else if keyword_ok k v then Inr budget else bad_schema)"

lemma compile_dict:
  "compile_schema n (PDict d) b = Inr b' \<longleftrightarrow>
     n \<le> MAX_SCHEMA_DEPTH \<and> 0 < b \<and> list_all (\<lambda>(k, _). in_names k SCHEMA_KEYWORDS) d
     \<and> rfold (\<lambda>(k, v). compile_field n k v) d (b - 1) = Inr b'"
  by (subst compile_schema.simps) (auto simp: compile_field_def [abs_def] split_def)

lemma compile_field_ok: "compile_field n k v b = Inr b' \<Longrightarrow> field_ok k v"
  by (fastforce simp: compile_field_def field_ok_def compiled_def split: if_splits pyval.splits dest: rfold_Inr_each)

lemma compiled_dict: "compiled (PDict d) \<Longrightarrow> (k, v) \<in> set d \<Longrightarrow> field_ok k v"
  unfolding compiled_def compile_dict by (fastforce dest: rfold_Inr_each compile_field_ok)

lemma compiled_get: "compiled (PDict d) \<Longrightarrow> pd_get d k = Some v \<Longrightarrow> field_ok (PStr (lit k)) v"
  unfolding pd_get_def by (blast dest: map_of_SomeD compiled_dict)

lemma compiled_cases: "compiled s \<Longrightarrow> (\<exists>b. s = PBool b) \<or> (\<exists>d. s = PDict d)"
  by (cases s) (auto simp: compiled_def compile_schema.simps split: if_splits)

lemma compiled_PBool [simp]: "compiled (PBool b)"
  unfolding compiled_def by (rule exI [of _ 0], rule exI [of _ 1]) (simp add: compile_schema.simps [of 0 "PBool b"])

lemma in_names_lit [simp]: "in_names (PStr (lit k)) names \<longleftrightarrow> k \<in> set names"
  by (auto simp: in_names_def)


subsection \<open>The meaning of a schema\<close>

text \<open>
  The specification: a schema is an assertion per keyword, and a value is valid if it satisfies every keyword
  that occurs.  It fixes no order of evaluation and never raises.  A keyword about another type of value
  holds, and \<open>additionalProperties\<close> is about the properties without a schema of their own.
\<close>

definition is_of_type :: "pyval \<Rightarrow> pyval \<Rightarrow> bool" where
  "is_of_type v t \<longleftrightarrow>
     (case v of
        PNone \<Rightarrow> in_names t [''null'']
      | PBool _ \<Rightarrow> in_names t [''boolean'']
      | PInt _ \<Rightarrow> in_names t [''integer'', ''number'']
      | PFloat f \<Rightarrow> in_names t [''number''] \<or> whole f \<and> in_names t [''integer'']
      | PStr _ \<Rightarrow> in_names t [''string'']
      | PList _ \<Rightarrow> in_names t [''array'']
      | PDict _ \<Rightarrow> in_names t [''object''])"

definition length_of :: "string \<Rightarrow> pyval \<Rightarrow> nat option" where
  \<comment> \<open>the length a bound is about, for the values it is about\<close>
  "length_of k v =
     (case v of
        PStr s \<Rightarrow> if k \<in> {''minLength'', ''maxLength''} then Some (length s) else None
      | PList xs \<Rightarrow> if k \<in> {''minItems'', ''maxItems''} then Some (length xs) else None
      | PDict d \<Rightarrow> if k \<in> {''minProperties'', ''maxProperties''} then Some (length d) else None
      | _ \<Rightarrow> None)"

definition limit_holds :: "string \<Rightarrow> int \<Rightarrow> nat \<Rightarrow> bool" where
  "limit_holds k i n \<longleftrightarrow> (if k \<in> {''minLength'', ''minItems'', ''minProperties''} then i \<le> int n else int n \<le> i)"

definition num_within :: "string \<Rightarrow> pyfloat \<Rightarrow> pyfloat \<Rightarrow> bool" where
  "num_within k x y \<longleftrightarrow>
     (if k = ''minimum'' then \<not> float_less x y else if k = ''maximum'' then \<not> float_less y x
      else if k = ''exclusiveMinimum'' then \<not> float_le x y else \<not> float_le y x)"

definition scalar_holds :: "string \<Rightarrow> pyval \<Rightarrow> pyval \<Rightarrow> bool" where
  \<comment> \<open>the keywords without a schema inside\<close>
  "scalar_holds k x v \<longleftrightarrow>
     (if k = ''type'' then \<exists>t \<in> set (kinds_of x). is_of_type v t
      else if k = ''const'' then json_equal v x
      else if k = ''enum'' then \<exists>ms. x = PList ms \<and> (\<exists>m \<in> set ms. json_equal v m)
      else if k = ''required''
      then (\<forall>d. v = PDict d \<longrightarrow> (\<exists>ns. x = PList ns \<and> set ns \<subseteq> fst ` set d))
      else if k \<in> set BOUNDS
      then (\<forall>n. length_of k v = Some n \<longrightarrow> (\<exists>i. x = PInt i \<and> limit_holds k i n))
      else if k \<in> set NUMBER_BOUNDS
      then (is_number v \<longrightarrow> num_within k (the (num_val v)) (the (num_val x)))
      else if k = ''uniqueItems''
      then x = PBool True \<longrightarrow> (\<forall>xs. v = PList xs \<longrightarrow> (\<forall>j < length xs. \<forall>i < j. \<not> json_equal (xs ! j) (xs ! i)))
      else True)"

function valid :: "pyval \<Rightarrow> pyval \<Rightarrow> bool" where
  "valid schema v \<longleftrightarrow>
     (case schema of
        PBool b \<Rightarrow> b
      | PDict d \<Rightarrow>
          (\<forall>k x. pd_get d k = Some x \<longrightarrow> scalar_holds k x v)
          \<and> (\<forall>xs. pd_get d ''allOf'' = Some (PList xs) \<longrightarrow> (\<forall>c \<in> set xs. valid c v))
          \<and> (\<forall>xs. pd_get d ''anyOf'' = Some (PList xs) \<longrightarrow> (\<exists>c \<in> set xs. valid c v))
          \<and> (\<forall>xs. pd_get d ''oneOf'' = Some (PList xs) \<longrightarrow> length (filter (\<lambda>c. valid c v) xs) = 1)
          \<and> (\<forall>e. v = PDict e \<longrightarrow> (\<forall>ps. pd_get_or d ''properties'' (PDict []) = PDict ps \<longrightarrow>
               (\<forall>(n, x) \<in> set e. valid (property_schema d ps n) x)))
          \<and> (\<forall>xs. v = PList xs \<longrightarrow> (\<forall>x \<in> set xs. valid (pd_get_or d ''items'' (PBool True)) x))
      | _ \<Rightarrow> False)"
  by pat_completeness auto
termination
  by (relation "measure (\<lambda>(s, v). size s + size v)")
    (auto simp del: pyval.size intro: add_le_less_mono size_property size_get_or size_inner(3) size_item size_combiner)

declare valid.simps [simp del]


subsection \<open>Matching decides validity\<close>

definition kw :: "pydict \<Rightarrow> pyval \<Rightarrow> string \<Rightarrow> bool" where
  "kw d v k \<longleftrightarrow> (\<forall>x. pd_get d k = Some x \<longrightarrow> scalar_holds k x v)"

definition SCALARS :: "string list" where
  "SCALARS = [''type'', ''const'', ''enum'', ''required'', ''uniqueItems''] @ BOUNDS @ NUMBER_BOUNDS"

lemma kw_other: "k \<notin> set SCALARS \<Longrightarrow> kw d v k"
  by (simp add: kw_def scalar_holds_def SCALARS_def)

lemma kw_all: "(\<forall>k x. pd_get d k = Some x \<longrightarrow> scalar_holds k x v) \<longleftrightarrow> (\<forall>k \<in> set SCALARS. kw d v k)"
  using kw_other by (fold kw_def) blast

lemma all_of_append: "all_of (rs @ ss) = rbind (all_of rs) (\<lambda>b. if b then all_of ss else Inr False)"
  by (induction rs) (auto simp: rbind_def split: sum.splits)

lemma all_of_map: "(\<And>x. x \<in> set xs \<Longrightarrow> f x = Inr (g x)) \<Longrightarrow> all_of (map f xs) = Inr (\<forall>x \<in> set xs. g x)"
  by (induction xs) auto

lemma rmap_pure: "(\<And>x. x \<in> set xs \<Longrightarrow> f x = Inr (g x)) \<Longrightarrow> rmap f xs = Inr (map g xs)"
  by (induction xs) auto

lemma keyword_get:
  "compiled (PDict d) \<Longrightarrow> pd_get d k = Some x \<Longrightarrow> k \<notin> {''properties'', ''additionalProperties'', ''items''} \<union> set COMBINERS
    \<Longrightarrow> keyword_ok (PStr (lit k)) x"
  using compiled_get [of d k x] by (auto simp: field_ok_def)

lemma has_type_ok:
  assumes "in_names t TYPES" shows "has_type v t = Inr (is_of_type v t)"
proof -
  from assms obtain k where k: "t = PStr (lit k)" "k \<in> set TYPES" by (auto simp: in_names_def)
  then show ?thesis
    by (cases v) (auto simp: TYPES_def has_type_def is_of_type_def is_number_def)
qed

lemma any_type_ok: "list_all (\<lambda>t. in_names t TYPES) ks \<Longrightarrow> any_type v ks = Inr (\<exists>t \<in> set ks. is_of_type v t)"
  by (induction ks) (auto simp: has_type_ok)

lemma type_check_ok: "compiled (PDict d) \<Longrightarrow> type_check d v = Inr (kw d v ''type'')"
  using keyword_get [of d "''type''"]
  by (auto simp: type_check_def kw_def scalar_holds_def keyword_ok_def any_type_ok COMBINERS_def ANNOTATIONS_def split: option.splits)

lemma const_check_ok: "const_check d v = Inr (kw d v ''const'')"
  by (auto simp: const_check_def kw_def scalar_holds_def split: option.splits)

lemma enum_check_ok: "compiled (PDict d) \<Longrightarrow> enum_check d v = Inr (kw d v ''enum'')"
  using keyword_get [of d "''enum''"]
  by (auto simp: enum_check_def kw_def scalar_holds_def keyword_ok_def COMBINERS_def ANNOTATIONS_def BOUNDS_def NUMBER_BOUNDS_def list_ex_iff
      split: option.splits pyval.splits)

lemma required_check_ok: "compiled (PDict d) \<Longrightarrow> required_check d e = Inr (kw d (PDict e) ''required'')"
  using keyword_get [of d "''required''"]
  by (auto simp: required_check_def kw_def scalar_holds_def keyword_ok_def COMBINERS_def ANNOTATIONS_def pd_get_or_def list_all_iff
      split: option.splits pyval.splits)

lemma keyword_bound: "k \<in> set BOUNDS \<Longrightarrow> keyword_ok (PStr (lit k)) x \<longleftrightarrow> (case x of PInt i \<Rightarrow> 0 \<le> i | _ \<Rightarrow> False)"
  unfolding BOUNDS_def by (simp, elim disjE; simp add: keyword_ok_def BOUNDS_def ANNOTATIONS_def)

lemma scalar_bound:
  "k \<in> set BOUNDS \<Longrightarrow> scalar_holds k x v \<longleftrightarrow> (\<forall>n. length_of k v = Some n \<longrightarrow> (\<exists>i. x = PInt i \<and> limit_holds k i n))"
  unfolding BOUNDS_def by (simp, elim disjE; simp add: scalar_holds_def BOUNDS_def)

lemma bound_get:
  assumes "compiled (PDict d)" "k \<in> set BOUNDS" "pd_get d k = Some x"
  shows "\<exists>i. x = PInt i"
proof -
  have "k \<notin> {''properties'', ''additionalProperties'', ''items''} \<union> set COMBINERS"
    using assms(2) unfolding BOUNDS_def COMBINERS_def by (simp, elim disjE; simp)
  with assms(2) keyword_get [OF assms(1,3)] show ?thesis by (cases x) (simp_all add: keyword_bound)
qed

lemma kw_bound:
  assumes "compiled (PDict d)" "k \<in> set BOUNDS" "length_of k v = Some n"
  shows "kw d v k \<longleftrightarrow> (\<forall>i. pd_get d k = Some (PInt i) \<longrightarrow> limit_holds k i n)"
  using bound_get [OF assms(1,2)] assms(3) by (auto simp: kw_def scalar_bound [OF assms(2)])

lemma kw_bound_other: "k \<in> set BOUNDS \<Longrightarrow> length_of k v = None \<Longrightarrow> kw d v k"
  by (simp add: kw_def scalar_bound)

lemma size_check_ok:
  assumes "compiled (PDict d)" "low \<in> {''minLength'', ''minItems'', ''minProperties''}" "high \<in> {''maxLength'', ''maxItems'', ''maxProperties''}"
    and "length_of low v = Some n" "length_of high v = Some n"
  shows "size_check low high d n = Inr (kw d v low \<and> kw d v high)"
proof -
  have b: "low \<in> set BOUNDS" "high \<in> set BOUNDS" using assms(2,3) by (auto simp: BOUNDS_def)
  have low: "limit_holds low i n \<longleftrightarrow> i \<le> int n" for i using assms(2) by (simp add: limit_holds_def)
  have "high \<notin> {''minLength'', ''minItems'', ''minProperties''}" using assms(3) by (simp, elim disjE; simp)
  then have lim: "limit_holds high i n \<longleftrightarrow> int n \<le> i" for i by (simp add: limit_holds_def)
  have "compare_to (\<lambda>a b. \<not> float_less a b) (PInt (int n)) (pd_get_or d low (PInt 0)) = Inr (kw d v low)"
    unfolding kw_bound [OF assms(1) b(1) assms(4)] low using bound_get [OF assms(1) b(1)]
    by (cases "pd_get d low") (auto simp: compare_to_def pd_get_or_def num_val_def)
  moreover have "compare_to (\<lambda>a b. \<not> float_less b a) (PInt (int n)) (pd_get_or d high (PFloat PosInf)) = Inr (kw d v high)"
    unfolding kw_bound [OF assms(1) b(2) assms(5)] lim using bound_get [OF assms(1) b(2)]
    by (cases "pd_get d high") (auto simp: compare_to_def pd_get_or_def num_val_def)
  ultimately show ?thesis by (simp add: size_check_def)
qed

lemma keyword_number: "k \<in> set NUMBER_BOUNDS \<Longrightarrow> keyword_ok (PStr (lit k)) x \<longleftrightarrow> finite_number x"
  unfolding NUMBER_BOUNDS_def by (simp, elim disjE; simp add: keyword_ok_def BOUNDS_def NUMBER_BOUNDS_def ANNOTATIONS_def)

lemma scalar_number:
  "k \<in> set NUMBER_BOUNDS \<Longrightarrow> scalar_holds k x v \<longleftrightarrow> (is_number v \<longrightarrow> num_within k (the (num_val v)) (the (num_val x)))"
  unfolding NUMBER_BOUNDS_def by (simp, elim disjE; simp add: scalar_holds_def BOUNDS_def NUMBER_BOUNDS_def)

lemma number_get:
  assumes "compiled (PDict d)" "k \<in> set NUMBER_BOUNDS" "pd_get d k = Some x"
  shows "\<exists>y. num_val x = Some y"
proof -
  have "k \<notin> {''properties'', ''additionalProperties'', ''items''} \<union> set COMBINERS"
    using assms(2) by (auto simp: NUMBER_BOUNDS_def COMBINERS_def)
  with assms(2) keyword_get [OF assms(1,3)] have "finite_number x" by (simp add: keyword_number)
  then show ?thesis by (cases x) (simp_all add: finite_number_def num_val_def)
qed

lemma number_check_ok:
  assumes "compiled (PDict d)" "k \<in> set NUMBER_BOUNDS" "is_number v"
  shows "number_check k (num_within k) d v = Inr (kw d v k)"
proof -
  obtain y where "num_val v = Some y" using assms(3) by (cases v) (simp_all add: is_number_def num_val_def)
  then show ?thesis using number_get [OF assms(1,2)] assms(3)
    by (auto simp: number_check_def compare_to_def kw_def scalar_number [OF assms(2)] split: option.splits)
qed

lemma number_checks_ok:
  assumes "compiled (PDict d)" "is_number v"
  shows "number_checks d v = Inr (\<forall>k \<in> set NUMBER_BOUNDS. kw d v k)"
proof -
  have w: "(\<lambda>a b. \<not> float_less a b) = num_within ''minimum''" "(\<lambda>a b. \<not> float_less b a) = num_within ''maximum''"
    "(\<lambda>a b. \<not> float_le a b) = num_within ''exclusiveMinimum''" "(\<lambda>a b. \<not> float_le b a) = num_within ''exclusiveMaximum''"
    by (auto simp: num_within_def fun_eq_iff)
  show ?thesis unfolding number_checks_def w
    using number_check_ok [OF assms(1) _ assms(2)] by (simp add: NUMBER_BOUNDS_def)
qed

lemma repeated_iff: "repeated xs \<longleftrightarrow> (\<exists>j < length xs. \<exists>i < j. json_equal (xs ! j) (xs ! i))"
proof (induction xs)
  case (Cons x xs)
  have "(\<exists>j < length (x # xs). \<exists>i < j. json_equal ((x # xs) ! j) ((x # xs) ! i)) \<longleftrightarrow>
        (\<exists>j < length xs. json_equal (xs ! j) x \<or> (\<exists>i < j. json_equal (xs ! j) (xs ! i)))"
    by (simp add: Ex_less_Suc2)
  also have "\<dots> \<longleftrightarrow> (\<exists>j < length xs. json_equal (xs ! j) x) \<or> (\<exists>j < length xs. \<exists>i < j. json_equal (xs ! j) (xs ! i))"
    by blast
  finally show ?case using Cons.IH by (simp add: list_ex_iff) (metis in_set_conv_nth)
qed simp

lemma unique_ok:
  assumes "compiled (PDict d)"
  shows "(\<not> (truthy (pd_get_or d ''uniqueItems'' (PBool False)) \<and> repeated xs)) \<longleftrightarrow> kw d (PList xs) ''uniqueItems''"
  using keyword_get [OF assms, of "''uniqueItems''"]
  by (auto simp: pd_get_or_def kw_def scalar_holds_def keyword_ok_def COMBINERS_def ANNOTATIONS_def BOUNDS_def NUMBER_BOUNDS_def repeated_iff
      split: option.splits pyval.splits)


lemma all_of_kw: "all_of (map (\<lambda>k. Inr (P k)) ks) = Inr (\<forall>k \<in> set ks. P k)"
  by (rule all_of_map) simp

lemma combined_iff:
  "combined ''allOf'' (map f xs) \<longleftrightarrow> (\<forall>c \<in> set xs. f c)"
  "combined ''anyOf'' (map f xs) \<longleftrightarrow> (\<exists>c \<in> set xs. f c)"
  "combined ''oneOf'' (map f xs) \<longleftrightarrow> length (filter f xs) = 1"
  by (simp_all add: combined_def list_all_iff list_ex_iff filter_map comp_def)

lemma combiner_get:
  assumes "compiled (PDict d)" "k \<in> set COMBINERS" "pd_get d k = Some x"
  shows "\<exists>xs. x = PList xs \<and> (\<forall>c \<in> set xs. compiled c)"
proof -
  have "k \<notin> {''properties'', ''additionalProperties'', ''items''}" using assms(2) by (auto simp: COMBINERS_def)
  with assms(2) compiled_get [OF assms(1,3)] show ?thesis by (simp add: field_ok_def)
qed

lemma subschemas_compiled:
  assumes "compiled (PDict d)"
  shows "\<exists>ps. pd_get_or d ''properties'' (PDict []) = PDict ps \<and> (\<forall>n. compiled (property_schema d ps n))"
    and "compiled (pd_get_or d ''items'' (PBool True))"
proof -
  have sub: "compiled (pd_get_or d k (PBool True))" if "k \<in> {''additionalProperties'', ''items''}" for k
    using that compiled_get [OF assms, of k] by (auto simp: pd_get_or_def field_ok_def split: option.splits)
  then show "compiled (pd_get_or d ''items'' (PBool True))" by simp
  obtain ps where ps: "pd_get_or d ''properties'' (PDict []) = PDict ps" "\<forall>(n, c) \<in> set ps. compiled c"
    using compiled_get [OF assms, of "''properties''"]
    by (cases "pd_get d ''properties''") (auto simp: pd_get_or_def field_ok_def)
  have "compiled (property_schema d ps n)" for n
    using ps(2) sub [of "''additionalProperties''"] by (auto simp: property_schema_def split: option.splits dest: map_of_SomeD)
  with ps(1) show "\<exists>ps. pd_get_or d ''properties'' (PDict []) = PDict ps \<and> (\<forall>n. compiled (property_schema d ps n))" by blast
qed

lemma kw_bounds:
  "(\<forall>k \<in> set BOUNDS. kw d v k) \<longleftrightarrow> kw d v ''minLength'' \<and> kw d v ''maxLength'' \<and> kw d v ''minItems'' \<and> kw d v ''maxItems''
     \<and> kw d v ''minProperties'' \<and> kw d v ''maxProperties''"
  by (simp add: BOUNDS_def)

lemma kw_scalars:
  "(\<forall>k \<in> set SCALARS. kw d v k) \<longleftrightarrow> kw d v ''type'' \<and> kw d v ''const'' \<and> kw d v ''enum'' \<and> kw d v ''required''
     \<and> (\<forall>k \<in> set BOUNDS. kw d v k) \<and> (\<forall>k \<in> set NUMBER_BOUNDS. kw d v k) \<and> kw d v ''uniqueItems''"
  unfolding SCALARS_def by auto

text \<open>The keywords that are about values of another type hold.\<close>

lemma kw_irrelevant:
  "\<not> is_number v \<Longrightarrow> k \<in> set NUMBER_BOUNDS \<Longrightarrow> kw d v k"
  "(\<And>e. v \<noteq> PDict e) \<Longrightarrow> kw d v ''required''"
  "(\<And>xs. v \<noteq> PList xs) \<Longrightarrow> kw d v ''uniqueItems''"
  by (simp_all add: kw_def scalar_number) (simp_all add: scalar_holds_def BOUNDS_def NUMBER_BOUNDS_def)

definition value_checks :: "pydict \<Rightarrow> pyval \<Rightarrow> bool res list" where
  \<comment> \<open>the checks of \<open>_matches\<close> that depend on the type of the value\<close>
  "value_checks d value =
     (case value of
        PDict v \<Rightarrow>
          [required_check d v,
           (case pd_get_or d ''properties'' (PDict []) of
              PDict ps \<Rightarrow> all_of (map (\<lambda>(name, item). matches (property_schema d ps name) item) v)
            | _ \<Rightarrow> Inl AttributeError),
           size_check ''minProperties'' ''maxProperties'' d (length v)]
      | PStr s \<Rightarrow> [size_check ''minLength'' ''maxLength'' d (length s)]
      | PList xs \<Rightarrow>
          [size_check ''minItems'' ''maxItems'' d (length xs),
           all_of (map (matches (pd_get_or d ''items'' (PBool True))) xs),
           Inr (\<not> (truthy (pd_get_or d ''uniqueItems'' (PBool False)) \<and> repeated xs))]
      | v \<Rightarrow> if is_number v then [number_checks d v] else [])"

definition value_holds :: "pydict \<Rightarrow> pyval \<Rightarrow> bool" where
  "value_holds d v \<longleftrightarrow>
     kw d v ''required'' \<and> (\<forall>k \<in> set BOUNDS. kw d v k) \<and> (\<forall>k \<in> set NUMBER_BOUNDS. kw d v k) \<and> kw d v ''uniqueItems''
     \<and> (\<forall>e. v = PDict e \<longrightarrow> (\<forall>ps. pd_get_or d ''properties'' (PDict []) = PDict ps \<longrightarrow>
          (\<forall>(n, x) \<in> set e. valid (property_schema d ps n) x)))
     \<and> (\<forall>xs. v = PList xs \<longrightarrow> (\<forall>x \<in> set xs. valid (pd_get_or d ''items'' (PBool True)) x))"

lemma value_checks_ok:
  assumes c: "compiled (PDict d)"
    and IH: "\<And>s w. size s + size w < size (PDict d) + size v \<Longrightarrow> compiled s \<Longrightarrow> matches s w = Inr (valid s w)"
  shows "all_of (value_checks d v) = Inr (value_holds d v)"
proof (cases v)
  case (PDict e)
  obtain ps where ps: "pd_get_or d ''properties'' (PDict []) = PDict ps" "\<And>n. compiled (property_schema d ps n)"
    using subschemas_compiled(1) [OF c] by blast
  have "all_of (map (\<lambda>(name, item). matches (property_schema d ps name) item) e)
      = Inr (\<forall>p \<in> set e. case p of (n, x) \<Rightarrow> valid (property_schema d ps n) x)"
  proof (rule all_of_map, clarify)
    fix n x assume "(n, x) \<in> set e"
    then have "size x < size v" unfolding PDict by (rule size_inner(3))
    with size_property [OF ps(1), of n] IH [OF _ ps(2)] show "matches (property_schema d ps n) x = Inr (valid (property_schema d ps n) x)"
      by (simp add: add_le_less_mono del: pyval.size)
  qed
  then show ?thesis
    using size_check_ok [OF c, of "''minProperties''" "''maxProperties''" v "length e"] required_check_ok [OF c, of e]
    by (simp add: PDict value_checks_def value_holds_def ps(1) kw_bounds kw_irrelevant is_number_def kw_bound_other length_of_def BOUNDS_def)
next
  case (PList xs)
  have "all_of (map (matches (pd_get_or d ''items'' (PBool True))) xs)
      = Inr (\<forall>x \<in> set xs. valid (pd_get_or d ''items'' (PBool True)) x)"
  proof (rule all_of_map)
    fix x assume "x \<in> set xs"
    then have "size x < size v" unfolding PList by (rule size_item)
    with IH [OF _ subschemas_compiled(2) [OF c]] size_get_or [of d "''items''"]
    show "matches (pd_get_or d ''items'' (PBool True)) x = Inr (valid (pd_get_or d ''items'' (PBool True)) x)"
      by (simp add: add_le_less_mono del: pyval.size)
  qed
  then show ?thesis
    using size_check_ok [OF c, of "''minItems''" "''maxItems''" v "length xs"] unique_ok [OF c, of xs]
    by (simp add: PList value_checks_def value_holds_def kw_bounds kw_irrelevant is_number_def kw_bound_other length_of_def BOUNDS_def)
      blast
next
  case (PStr s)
  then show ?thesis
    using size_check_ok [OF c, of "''minLength''" "''maxLength''" v "length s"]
    by (simp add: value_checks_def value_holds_def kw_bounds kw_irrelevant is_number_def kw_bound_other length_of_def BOUNDS_def)
qed (use number_checks_ok [OF c, of v] in \<open>simp_all add: value_checks_def value_holds_def kw_bounds kw_irrelevant is_number_def
       kw_bound_other length_of_def BOUNDS_def\<close>)


lemma matches_dict:
  "matches (PDict d) v =
     all_of ([type_check d v, const_check d v, enum_check d v]
       @ map (\<lambda>k. case pd_get d k of
                None \<Rightarrow> Inr True
              | Some (PList xs) \<Rightarrow> rbind (rmap (\<lambda>child. matches child v) xs) (\<lambda>ms. Inr (combined k ms))
              | Some _ \<Rightarrow> Inl TypeError) COMBINERS
       @ value_checks d v)"
  unfolding value_checks_def by (subst matches.simps) (simp only: pyval.case)

lemma valid_dict:
  "valid (PDict d) v \<longleftrightarrow> kw d v ''type'' \<and> kw d v ''const'' \<and> kw d v ''enum''
     \<and> (\<forall>xs. pd_get d ''allOf'' = Some (PList xs) \<longrightarrow> (\<forall>c \<in> set xs. valid c v))
     \<and> (\<forall>xs. pd_get d ''anyOf'' = Some (PList xs) \<longrightarrow> (\<exists>c \<in> set xs. valid c v))
     \<and> (\<forall>xs. pd_get d ''oneOf'' = Some (PList xs) \<longrightarrow> length (filter (\<lambda>c. valid c v) xs) = 1)
     \<and> value_holds d v"
  by (subst valid.simps) (simp only: pyval.case kw_all kw_scalars value_holds_def conj_assoc conj_ac)

lemma matches_valid: "compiled s \<Longrightarrow> matches s v = Inr (valid s v)"
proof (induction "size s + size v" arbitrary: s v rule: less_induct)
  case less
  from compiled_cases [OF less.prems] show ?case
  proof (elim disjE exE)
    fix b assume "s = PBool b"
    then show ?thesis by (simp add: matches.simps [of "PBool b"] valid.simps [of "PBool b"])
  next
    fix d assume d: "s = PDict d"
    note c = less.prems [unfolded d]
    have comb: "(case pd_get d k of
          None \<Rightarrow> Inr True
        | Some (PList xs) \<Rightarrow> rbind (rmap (\<lambda>child. matches child v) xs) (\<lambda>ms. Inr (combined k ms))
        | Some _ \<Rightarrow> Inl TypeError)
        = Inr (\<forall>xs. pd_get d k = Some (PList xs) \<longrightarrow> combined k (map (\<lambda>child. valid child v) xs))" if k: "k \<in> set COMBINERS" for k
    proof (cases "pd_get d k")
      case (Some x)
      from combiner_get [OF c k this] obtain xs where xs: "x = PList xs" "\<forall>c \<in> set xs. compiled c" by blast
      have "rmap (\<lambda>child. matches child v) xs = Inr (map (\<lambda>child. valid child v) xs)"
        using size_combiner [OF Some [unfolded xs(1)]] xs(2) by (intro rmap_pure less.hyps) (simp_all add: d del: pyval.size)
      with Some xs(1) show ?thesis by simp
    qed simp
    have "all_of (value_checks d v) = Inr (value_holds d v)"
      by (rule value_checks_ok [OF c]) (use less.hyps in \<open>simp add: d del: pyval.size\<close>)
    with comb show ?thesis
      unfolding d matches_dict valid_dict all_of_append
      by (simp add: type_check_ok [OF c] const_check_ok enum_check_ok [OF c] COMBINERS_def combined_iff)
  qed
qed


text \<open>
  C13: An accepted tool schema means what JSON Schema says it does: matching a value never raises,
  and it accepts exactly the values that satisfy every keyword of the schema on its own, whatever the
  order in which the code checks them.
\<close>

theorem accepted_schema_meaning:
  assumes "compile_schema 0 schema MAX_SCHEMA_NODES = Inr left"
  shows "matches schema value = Inr (valid schema value)"
  using assms by (intro matches_valid) (auto simp: compiled_def)

definition sample_schema :: pyval where
  "sample_schema = PDict [(PStr (lit ''type''), PStr (lit ''object'')),
     (PStr (lit ''properties''), PDict [(PStr (lit ''path''), PDict [(PStr (lit ''minLength''), PInt 1)])])]"

lemma sample_schema_compiles: "compile_schema 0 sample_schema MAX_SCHEMA_NODES = Inr 510"
  by (simp add: sample_schema_def compile_dict compile_field_def compile_schema.simps [of "Suc 0"] SCHEMA_KEYWORDS_def MAX_SCHEMA_NODES_def
      MAX_SCHEMA_DEPTH_def MAX_SCHEMA_COLLECTION_def BOUNDS_def is_str_def keyword_ok_def kinds_of_def TYPES_def COMBINERS_def ANNOTATIONS_def)


lemma sample_schema_matches:
  "matches sample_schema (PDict [(PStr (lit ''path''), PStr [97])]) = Inr True"
  "matches sample_schema (PDict [(PStr (lit ''path''), PStr [])]) = Inr False"
  by (simp_all add: sample_schema_def matches_dict value_checks_def type_check_def pd_get_def pd_get_or_def const_check_def enum_check_def
      required_check_def size_check_def compare_to_def num_val_def property_schema_def kinds_of_def has_type_def COMBINERS_def)

theorem accepted_schema_meaning_witness:
  "valid sample_schema (PDict [(PStr (lit ''path''), PStr [97])]) \<and> \<not> valid sample_schema (PDict [(PStr (lit ''path''), PStr [])])"
  using accepted_schema_meaning [OF sample_schema_compiles] sample_schema_matches by simp

subsection \<open>The size of an accepted schema\<close>

definition subs_of :: "pyval \<times> pyval \<Rightarrow> pyval list" where
  \<comment> \<open>the schemas one field of a schema holds\<close>
  "subs_of f =
     (case f of (k, v) \<Rightarrow>
        if in_names k [''properties''] then (case v of PDict ps \<Rightarrow> map snd ps | _ \<Rightarrow> [])
        else if in_names k [''additionalProperties'', ''items''] then [v]
        else if in_names k COMBINERS then (case v of PList xs \<Rightarrow> xs | _ \<Rightarrow> [])
        else [])"

definition subschemas :: "pyval \<Rightarrow> pyval list" where
  "subschemas s = (case s of PDict d \<Rightarrow> concat (map subs_of d) | _ \<Rightarrow> [])"

lemma subs_of_cases:
  assumes "c \<in> set (subs_of (k, v))"
  shows "c = v \<or> (\<exists>ps n. v = PDict ps \<and> (n, c) \<in> set ps) \<or> (\<exists>xs. v = PList xs \<and> c \<in> set xs)"
proof (cases "in_names k [''properties'']")
  case True
  with assms show ?thesis by (cases v) (auto simp: subs_of_def)
next
  case False
  with assms show ?thesis
    by (cases "in_names k [''additionalProperties'', ''items'']"; cases "in_names k COMBINERS"; cases v) (simp_all add: subs_of_def)
qed

lemma size_subs_of: "(k, v) \<in> set d \<Longrightarrow> c \<in> set (subs_of (k, v)) \<Longrightarrow> size c < size (PDict d)"
  by (drule subs_of_cases) (metis size_inner)

lemma size_subschemas: "c \<in> set (subschemas s) \<Longrightarrow> size c < size s"
  by (cases s) (auto simp: subschemas_def simp del: pyval.size intro: size_subs_of)

function schema_nodes :: "pyval \<Rightarrow> nat" where
  "schema_nodes s = Suc (sum_list (map schema_nodes (subschemas s)))"
  by auto
termination by (relation "measure size") (auto dest: size_subschemas)

function schema_depth :: "pyval \<Rightarrow> nat" where
  "schema_depth s = fold max (map (\<lambda>c. Suc (schema_depth c)) (subschemas s)) 0"
  by auto
termination by (relation "measure size") (auto dest: size_subschemas)

declare schema_nodes.simps [simp del] schema_depth.simps [simp del]

lemma compile_field_subs: "compile_field n k v b = Inr b' \<Longrightarrow> rfold (compile_schema (Suc n)) (subs_of (k, v)) b = Inr b'"
proof -
  have m: "rfold (\<lambda>(_, child). compile_schema (Suc n) child) ps = rfold (compile_schema (Suc n)) (map snd ps)" for ps
    by (induction ps) (auto simp: fun_eq_iff rbind_def split: sum.splits)
  show "compile_field n k v b = Inr b' \<Longrightarrow> ?thesis"
    by (auto simp: compile_field_def subs_of_def m split: if_splits pyval.splits)
qed

lemma compile_subschemas:
  assumes "compile_schema n s b = Inr b'"
  shows "n \<le> MAX_SCHEMA_DEPTH \<and> 0 < b \<and> rfold (compile_schema (Suc n)) (subschemas s) (b - 1) = Inr b'"
proof -
  have f: "rfold (\<lambda>(k, v). compile_field n k v) d b = Inr b' \<Longrightarrow> rfold (compile_schema (Suc n)) (concat (map subs_of d)) b = Inr b'" for d b
    by (induction d arbitrary: b) (auto simp: rfold_append rbind_eq_Inr dest!: compile_field_subs)
  have "compiled s" using assms by (auto simp: compiled_def)
  then consider t where "s = PBool t" | d where "s = PDict d" using compiled_cases by blast
  then show ?thesis
  proof cases
    case 1
    with assms show ?thesis by (simp add: subschemas_def compile_schema.simps split: if_splits)
  next
    case 2
    with assms f show ?thesis by (auto simp: subschemas_def compile_dict)
  qed
qed

lemma fold_max_le: "fold max xs (m :: nat) \<le> k \<longleftrightarrow> m \<le> k \<and> (\<forall>x \<in> set xs. x \<le> k)"
  by (induction xs arbitrary: m) auto

lemma compile_counts:
  "compile_schema n s b = Inr b' \<Longrightarrow> b' = b - int (schema_nodes s) \<and> 0 \<le> b' \<and> n + schema_depth s \<le> MAX_SCHEMA_DEPTH"
proof (induction "size s" arbitrary: n s b b' rule: less_induct)
  case less
  note sub = compile_subschemas [OF less.prems]
  have IH: "compile_schema (Suc n) c b = Inr b' \<Longrightarrow> b' = b - int (schema_nodes c) \<and> 0 \<le> b' \<and> Suc n + schema_depth c \<le> MAX_SCHEMA_DEPTH"
    if "c \<in> set (subschemas s)" for c b b'
    using less.hyps [OF size_subschemas [OF that]] by blast
  have "rfold (compile_schema (Suc n)) cs b = Inr b' \<Longrightarrow> 0 \<le> b \<Longrightarrow> set cs \<subseteq> set (subschemas s)
      \<Longrightarrow> b' = b - int (sum_list (map schema_nodes cs)) \<and> 0 \<le> b' \<and> (\<forall>c \<in> set cs. Suc n + schema_depth c \<le> MAX_SCHEMA_DEPTH)" for cs b
  proof (induction cs arbitrary: b)
    case (Cons c cs)
    from Cons.prems(1) obtain m where m: "compile_schema (Suc n) c b = Inr m" "rfold (compile_schema (Suc n)) cs m = Inr b'"
      by (auto simp: rbind_eq_Inr)
    from IH [OF _ m(1)] Cons.prems(3) have "m = b - int (schema_nodes c)" "0 \<le> m" "Suc n + schema_depth c \<le> MAX_SCHEMA_DEPTH" by auto
    with Cons.IH [OF m(2)] Cons.prems(3) show ?case by auto
  qed simp
  from this [OF _ _ subset_refl] sub
  have "b' = b - 1 - int (sum_list (map schema_nodes (subschemas s))) \<and> 0 \<le> b'
    \<and> (\<forall>c \<in> set (subschemas s). Suc n + schema_depth c \<le> MAX_SCHEMA_DEPTH)" by auto
  moreover have "schema_depth s \<le> MAX_SCHEMA_DEPTH - n" if "\<forall>c \<in> set (subschemas s). Suc n + schema_depth c \<le> MAX_SCHEMA_DEPTH"
    using that by (subst schema_depth.simps) (auto simp: fold_max_le)
  ultimately show ?case using sub by (subst schema_nodes.simps) (auto simp: le_diff_conv2 add.commute)
qed

text \<open>
  An accepted tool schema is small: it has at most 512 subschemas, counted with itself, and they nest at most 16
  deep, so that matching a value visits a bounded part of the schema per part of the value.
\<close>

theorem accepted_schema_bounded:
  assumes "compile_schema 0 schema MAX_SCHEMA_NODES = Inr left"
  shows "schema_nodes schema \<le> 512 \<and> int (schema_nodes schema) = 512 - left \<and> schema_depth schema \<le> 16"
  using compile_counts [OF assms] by (auto simp: MAX_SCHEMA_NODES_def MAX_SCHEMA_DEPTH_def)

theorem accepted_schema_bounded_witness: "schema_nodes sample_schema = 2"
  using accepted_schema_bounded [OF sample_schema_compiles] by simp


subsection \<open>Equality of JSON values\<close>

text \<open>A value as \<open>json.loads\<close> makes them: no NaN, and no key twice.\<close>

function json_value :: "pyval \<Rightarrow> bool" where
  "json_value v \<longleftrightarrow>
     (case v of
        PFloat f \<Rightarrow> f \<noteq> NaN
      | PList xs \<Rightarrow> list_all json_value xs
      | PDict d \<Rightarrow> distinct (map fst d) \<and> list_all (\<lambda>(_, x). json_value x) d
      | _ \<Rightarrow> True)"
  by auto
termination by (relation "measure size") (auto dest: size_in_list size_in_dict)

declare json_value.simps [simp del]

lemma json_value_simps:
  "json_value (PList xs) \<longleftrightarrow> (\<forall>x \<in> set xs. json_value x)"
  "json_value (PDict d) \<longleftrightarrow> distinct (map fst d) \<and> (\<forall>(k, x) \<in> set d. json_value x)"
  by (auto simp: json_value.simps [of "PList _"] json_value.simps [of "PDict _"] list_all_iff)

lemma case_Some_ex: "(case x of Some w \<Rightarrow> P w | None \<Rightarrow> False) \<longleftrightarrow> (\<exists>w. x = Some w \<and> P w)"
  by (cases x) simp_all

lemma json_equal_dict:
  "json_equal (PDict d) (PDict e) \<longleftrightarrow>
     fst ` set d = fst ` set e \<and> (\<forall>(k, v) \<in> set d. \<exists>w. map_of e k = Some w \<and> json_equal v w)"
  by (subst json_equal.simps) (simp add: list_all_iff case_Some_ex)

lemma json_equal_entry:
  "json_equal (PDict d) (PDict e) \<Longrightarrow> (k, v) \<in> set d \<Longrightarrow> \<exists>w. map_of e k = Some w \<and> json_equal v w"
  unfolding json_equal_dict by blast

lemma json_equal_list:
  "json_equal (PList xs) (PList ys) \<longleftrightarrow> list_all2 json_equal xs ys"
  by (subst json_equal.simps) (auto simp: list_all2_iff list_all_iff)

lemma float_eq_iff: "float_eq a b \<longleftrightarrow> a = b \<and> a \<noteq> NaN"
  by (cases a; cases b) simp_all

lemma num_val_number: "is_number v \<Longrightarrow> \<exists>x. num_val v = Some x"
  by (cases v) (simp_all add: is_number_def num_val_def)

text \<open>Two values of the same container kind, or two values of which one is no container.\<close>

definition leaf_equal :: "pyval \<Rightarrow> pyval \<Rightarrow> bool" where
  "leaf_equal a b \<longleftrightarrow>
     (if is_number a \<and> is_number b then num_val a = num_val b \<and> num_val a \<noteq> Some NaN else a = b \<and> a \<noteq> PFloat NaN)"

definition container :: "pyval \<Rightarrow> bool" where
  "container v = (case v of PDict _ \<Rightarrow> True | PList _ \<Rightarrow> True | _ \<Rightarrow> False)"

lemma json_equal_leaf: "\<not> container a \<or> \<not> container b \<Longrightarrow> json_equal a b \<longleftrightarrow> leaf_equal a b \<and> \<not> container a"
  by (subst json_equal.simps, cases a; cases b)
    (auto simp: is_number_def num_val_def float_eq_iff leaf_equal_def container_def)

lemma container_cases: "container v \<longleftrightarrow> (\<exists>d. v = PDict d) \<or> (\<exists>xs. v = PList xs)"
  by (cases v) (simp_all add: container_def)

lemma json_equal_PDict: "json_equal (PDict d) b \<Longrightarrow> \<exists>e. b = PDict e"
  by (cases b) (simp_all add: json_equal.simps [of "PDict d"] is_number_def)

lemma json_equal_PList: "json_equal (PList xs) b \<Longrightarrow> \<exists>ys. b = PList ys"
  by (cases b) (simp_all add: json_equal.simps [of "PList xs"] is_number_def)

lemma json_equal_refl: "json_value a \<Longrightarrow> json_equal a a"
proof (induction "size a" arbitrary: a rule: less_induct)
  case less
  show ?case
  proof (cases "container a")
    case True
    then show ?thesis unfolding container_cases
    proof (elim disjE exE)
      fix d assume d: "a = PDict d"
      have "map_of d k = Some v \<and> json_equal v v" if "(k, v) \<in> set d" for k v
        using that less.prems less.hyps [of v] size_inner(3) [OF that] by (auto simp: d json_value_simps simp del: pyval.size)
      then show ?thesis unfolding d json_equal_dict by blast
    next
      fix xs assume xs: "a = PList xs"
      have "json_equal x x" if "x \<in> set xs" for x
        using that less.prems less.hyps [of x] size_item [OF that] by (simp add: xs json_value_simps del: pyval.size)
      then show ?thesis unfolding xs json_equal_list by (simp add: list.rel_refl_strong)
    qed
  next
    case False
    moreover have "leaf_equal a a" using less.prems by (cases a) (auto simp: leaf_equal_def is_number_def num_val_def json_value.simps)
    ultimately show ?thesis by (simp add: json_equal_leaf)
  qed
qed


lemma map_of_distinct: "distinct (map fst d) \<Longrightarrow> map_of d k = Some v \<longleftrightarrow> (k, v) \<in> set d"
  by (auto dest: map_of_SomeD)

lemma leaf_equal_sym: "leaf_equal a b \<Longrightarrow> leaf_equal b a"
  by (auto simp: leaf_equal_def split: if_splits)

lemma leaf_equal_trans: "leaf_equal a b \<Longrightarrow> leaf_equal b c \<Longrightarrow> leaf_equal a c"
  by (auto simp: leaf_equal_def split: if_splits)

lemma leaf_equal_container: "leaf_equal a b \<Longrightarrow> container a \<longleftrightarrow> container b"
  by (cases a; cases b) (auto simp: leaf_equal_def container_def is_number_def num_val_def)

lemma json_equal_sym: "json_equal a b \<Longrightarrow> json_value a \<Longrightarrow> json_value b \<Longrightarrow> json_equal b a"
proof (induction "size a" arbitrary: a b rule: less_induct)
  case less
  show ?case
  proof (cases "container a")
    case True
    then show ?thesis unfolding container_cases
    proof (elim disjE exE)
      fix d assume d: "a = PDict d"
      obtain e where e: "b = PDict e" using less.prems(1) d json_equal_PDict by blast
      have "\<exists>v. map_of d k = Some v \<and> json_equal w v" if "(k, w) \<in> set e" for k w
      proof -
        have "k \<in> fst ` set d" using less.prems(1) that unfolding d e json_equal_dict by force
        then obtain v where v: "(k, v) \<in> set d" by auto
        then obtain w' where "map_of e k = Some w'" "json_equal v w'" using json_equal_entry [OF less.prems(1) [unfolded d e]] by blast
        moreover have "map_of e k = Some w" using that less.prems(3) by (simp add: e json_value_simps)
        ultimately have "json_equal v w" by simp
        then have "json_equal w v"
          using less.hyps [of v w] size_inner(3) [OF v] less.prems(2,3) v that by (auto simp: d e json_value_simps simp del: pyval.size)
        moreover have "map_of d k = Some v" using v less.prems(2) by (simp add: d json_value_simps)
        ultimately show ?thesis by blast
      qed
      then show ?thesis using less.prems(1) unfolding d e json_equal_dict by blast
    next
      fix xs assume xs: "a = PList xs"
      obtain ys where ys: "b = PList ys" using less.prems(1) xs json_equal_PList by blast
      have "json_equal y x" if "x \<in> set xs" "y \<in> set ys" "json_equal x y" for x y
        using that less.prems(2,3) less.hyps [of x y] size_item [OF that(1)] by (simp add: xs ys json_value_simps del: pyval.size)
      then show ?thesis using less.prems(1) unfolding xs ys json_equal_list
        by (auto simp: list_all2_conv_all_nth)
    qed
  next
    case False
    with less.prems(1) have l: "leaf_equal a b" by (simp add: json_equal_leaf)
    with False leaf_equal_container leaf_equal_sym show ?thesis by (simp add: json_equal_leaf)
  qed
qed

lemma json_equal_trans: "json_equal a b \<Longrightarrow> json_equal b c \<Longrightarrow> json_equal a c"
proof (induction "size a" arbitrary: a b c rule: less_induct)
  case less
  show ?case
  proof (cases "container a")
    case True
    then show ?thesis unfolding container_cases
    proof (elim disjE exE)
      fix d assume d: "a = PDict d"
      obtain e where e: "b = PDict e" using less.prems(1) d json_equal_PDict by blast
      obtain f where f: "c = PDict f" using less.prems(2) e json_equal_PDict by blast
      have "\<exists>u. map_of f k = Some u \<and> json_equal v u" if kv: "(k, v) \<in> set d" for k v
      proof -
        obtain w where w: "map_of e k = Some w" "json_equal v w" using json_equal_entry [OF less.prems(1) [unfolded d e] kv] by blast
        obtain u where u: "map_of f k = Some u" "json_equal w u"
          using json_equal_entry [OF less.prems(2) [unfolded e f] map_of_SomeD [OF w(1)]] by blast
        have "json_equal v u" using less.hyps [OF _ w(2) u(2)] size_inner(3) [OF kv] by (simp add: d del: pyval.size)
        with u(1) show ?thesis by blast
      qed
      moreover have "fst ` set d = fst ` set f" using less.prems by (simp add: d e f json_equal_dict)
      ultimately show ?thesis unfolding d f json_equal_dict by blast
    next
      fix xs assume xs: "a = PList xs"
      obtain ys where ys: "b = PList ys" using less.prems(1) xs json_equal_PList by blast
      obtain zs where zs: "c = PList zs" using less.prems(2) ys json_equal_PList by blast
      have "json_equal x z" if "x \<in> set xs" "json_equal x y" "json_equal y z" for x y z
        using less.hyps [OF _ that(2,3)] size_item [OF that(1)] by (simp add: xs del: pyval.size)
      then show ?thesis using less.prems unfolding xs ys zs json_equal_list
        by (fastforce simp: list_all2_conv_all_nth)
    qed
  next
    case False
    with less.prems(1) have l: "leaf_equal a b" by (simp add: json_equal_leaf)
    with False leaf_equal_container have "\<not> container b" by blast
    with less.prems(2) have "leaf_equal b c" by (simp add: json_equal_leaf)
    with l False leaf_equal_trans show ?thesis by (auto simp: json_equal_leaf)
  qed
qed


text \<open>
  \<open>_equal\<close>, by which \<open>const\<close>, \<open>enum\<close> and \<open>uniqueItems\<close> compare, is an equivalence on decoded JSON values: so
  \<open>uniqueItems\<close> does not depend on which of two equal items comes first, and a value equal to an allowed
  one is allowed.
\<close>

theorem json_equal_equivalence:
  assumes "json_value a" "json_value b" "json_value c"
  shows "json_equal a a \<and> (json_equal a b \<longleftrightarrow> json_equal b a) \<and> (json_equal a b \<longrightarrow> json_equal b c \<longrightarrow> json_equal a c)"
  using assms json_equal_refl json_equal_sym json_equal_trans by blast

theorem json_equal_equivalence_witness:
  "json_equal (PList [PInt 1]) (PList [PInt 1]) \<and> (json_equal (PList [PInt 1]) (PList [PBool True]) \<longleftrightarrow> json_equal (PList [PBool True]) (PList [PInt 1]))"
  using json_equal_equivalence [of "PList [PInt 1]" "PList [PBool True]" PNone] by (simp add: json_value.simps)

end
