(* ===== verification/RegistryFacts.thy ===== *)
theory RegistryFacts
  imports Registry
begin

text \<open>
  What a restored tool call satisfies.  A property of the state that every callback keeps is kept by the
  whole call (\<open>keeping\<close> rules, one per operation), which gives the aggregate properties; the roles of the
  fields follow from the lemmas of the pattern, patch and shell theories through the interpretation of
  \<open>local_paths\<close> on the registry's own path validation.
\<close>

subsection \<open>Properties every success keeps\<close>

definition keeps :: "('s \<Rightarrow> bool) \<Rightarrow> ('a, 's) act \<Rightarrow> bool" where
  "keeps P m \<longleftrightarrow> (\<forall>s x t. P s \<longrightarrow> m s = (Inr x, t) \<longrightarrow> P t)"

named_theorems keeps_rules \<open>operations that keep what their callbacks keep\<close>

lemma keepsD: "keeps P m \<Longrightarrow> P s \<Longrightarrow> m s = (Inr x, t) \<Longrightarrow> P t" by (auto simp: keeps_def)

lemma keeps_ret [keeps_rules]: "keeps P (ret x)" by (simp add: keeps_def)
lemma keeps_raise [keeps_rules]: "keeps P (raise e)" by (simp add: keeps_def)
lemma keeps_lift [keeps_rules]: "keeps P (lift r)" by (simp add: keeps_def)
lemma keeps_guard [keeps_rules]: "keeps P (guard b e)" by (simp add: keeps_def)
lemma keeps_bind [keeps_rules]: "keeps P m \<Longrightarrow> (\<And>x. keeps P (f x)) \<Longrightarrow> keeps P (bind m f)"
  unfolding keeps_def bind_Inr by blast
lemma keeps_if [keeps_rules]: "keeps P m \<Longrightarrow> keeps P n \<Longrightarrow> keeps P (if b then m else n)" by simp
lemma keeps_refuse [keeps_rules]: "keeps P refuse" "keeps P refuse_patch"
  by (simp_all add: refuse_def refuse_patch_def keeps_raise)
lemma keeps_keep [keeps_rules]: "keeps P m \<Longrightarrow> keeps P (keep w m)"
  unfolding keep_def by (intro keeps_rules)

lemma keeps_emap [keeps_rules]: "(\<And>x. keeps P (f x)) \<Longrightarrow> keeps P (emap f xs)"
  by (induction xs) (auto intro!: keeps_rules)

lemma keeps_sub_matches: "(\<And>x. keeps P (f x)) \<Longrightarrow> keeps P (sub_matches f src p ms)"
  by (induction f src p ms rule: sub_matches.induct) (auto intro!: keeps_rules)

lemma keeps_token_sub [keeps_rules]: "(\<And>x. keeps P (f x)) \<Longrightarrow> keeps P (token_sub f src)"
  unfolding token_sub_def by (rule keeps_sub_matches)

lemma keeps_regex [keeps_rules]: "(\<And>x. keeps P (rl x)) \<Longrightarrow> keeps P (restore_regex rl fixed p)"
  unfolding restore_regex_def regex_value_def by (intro keeps_rules)

lemma keeps_glob [keeps_rules]: "(\<And>x. keeps P (rl x)) \<Longrightarrow> keeps P (restore_glob rl p)"
  unfolding restore_glob_def glob_value_def by (intro keeps_rules)

lemma keeps_path_argument [keeps_rules]:
  "(\<And>x. keeps P (rl x)) \<Longrightarrow> (\<And>x. keeps P (vp x)) \<Longrightarrow> keeps P (path_argument rl vp v)"
  unfolding path_argument_def by (intro keeps_rules)

lemma keeps_pytest [keeps_rules]: "(\<And>x. keeps P (path x)) \<Longrightarrow> keeps P (pytest_arguments path vs)"
  by (induction path vs rule: pytest_arguments.induct) (auto intro!: keeps_rules)

lemma keeps_option [keeps_rules]:
  "(\<And>x. keeps P (rl x)) \<Longrightarrow> (\<And>x. keeps P (g x)) \<Longrightarrow> keeps P (option_argument rl g program fixed listing opt a)"
  unfolding option_argument_def by (intro keeps_rules)

lemma keeps_list_case [keeps_rules]:
  "keeps P m \<Longrightarrow> (\<And>a r. xs = a # r \<Longrightarrow> keeps P (f a r)) \<Longrightarrow> keeps P (case xs of [] \<Rightarrow> m | a # r \<Rightarrow> f a r)"
  by (cases xs) simp_all

lemma keeps_option_case [keeps_rules]:
  "keeps P m \<Longrightarrow> (\<And>a. keeps P (f a)) \<Longrightarrow> keeps P (case x of None \<Rightarrow> m | Some a \<Rightarrow> f a)"
  by (cases x) simp_all

lemma keeps_search [keeps_rules]:
  assumes "\<And>x. keeps P (rl x)" "\<And>x. keeps P (path x)" "\<And>x. keeps P (g x)"
  shows "keeps P (search_arguments rl path g program fixed listing ended seen vs)"
proof (induction vs arbitrary: ended seen rule: length_induct)
  case (1 vs)
  have IH: "length ws < length vs \<Longrightarrow> keeps P (search_arguments rl path g program fixed listing e n ws)" for ws e n
    using 1 by blast
  show ?case
    by (cases vs; simp only: search_arguments.simps; intro keeps_rules assms IH; simp)
qed

lemma keeps_find [keeps_rules]:
  assumes "\<And>x. keeps P (path x)" "\<And>x. keeps P (g x)"
  shows "keeps P (find_arguments path g paths expr vs)"
proof (induction vs arbitrary: paths expr rule: length_induct)
  case (1 vs)
  have IH: "length ws < length vs \<Longrightarrow> keeps P (find_arguments path g n e ws)" for ws e n using 1 by blast
  show ?case
    by (cases vs; simp only: find_arguments.simps; intro keeps_rules assms IH; simp)
qed

lemma keeps_read [keeps_rules]:
  assumes "\<And>x. keeps P (path x)"
  shows "keeps P (read_arguments path program flags paths ended vs)"
proof (induction vs arbitrary: paths ended rule: length_induct)
  case (1 vs)
  have IH: "length ws < length vs \<Longrightarrow> keeps P (read_arguments path program flags n e ws)" for ws e n using 1 by blast
  show ?case
    by (cases vs; simp only: read_arguments.simps; intro keeps_rules assms IH; simp)
qed

lemma keeps_arguments [keeps_rules]:
  assumes "\<And>x. keeps P (rl x)" "\<And>x. keeps P (vp x)" "\<And>x. keeps P (g x)"
  shows "keeps P (restore_arguments rl vp g program vs)"
  unfolding restore_arguments_def Let_def test_command_def printf_command_def pytest_command_def search_command_def
  by (intro keeps_rules assms)

lemma keeps_shell [keeps_rules]:
  assumes "\<And>x. keeps P (rl x)" "\<And>x. keeps P (vp x)" "\<And>x. keeps P (g x)"
  shows "keeps P (restore_shell rl vp (Some g) command)"
  unfolding restore_shell_def option.case by (intro keeps_rules assms)

subsection \<open>Patches\<close>

lemma keeps_prod_case [keeps_rules]: "(\<And>a b. keeps P (f a b)) \<Longrightarrow> keeps P (case x of (a, b) \<Rightarrow> f a b)"
  by (cases x) simp

lemma keeps_restored_line [keeps_rules]: "(\<And>x. keeps P (f x)) \<Longrightarrow> keeps P (restored_line f v)"
  unfolding restored_line_def single_line_def by (intro keeps_rules)

lemma keeps_hunks [keeps_rules]:
  assumes "\<And>x. keeps P (rc x)" shows "keeps P (hunk_loop rc op hunks n ls)"
proof (induction ls arbitrary: hunks n)
  case (Cons l ls)
  show ?case by (simp only: hunk_loop.simps, intro keeps_rules assms Cons.IH)
qed (simp add: keeps_rules)

lemma keeps_patch_file [keeps_rules]:
  assumes "\<And>x. keeps P (rp x)" "\<And>x. keeps P (rc x)"
  shows "keeps P (patch_file rp rc seen header ls)"
  unfolding patch_file_def move_line_def file_end_def Let_def by (intro keeps_rules assms)

lemma keeps_patch_loop [keeps_rules]:
  assumes "\<And>x. keeps P (rp x)" "\<And>x. keeps P (rc x)"
  shows "keeps P (patch_loop rp rc seen ls)"
proof -
  have "P s \<Longrightarrow> patch_loop rp rc seen ls s = (Inr out, t) \<Longrightarrow> P t" for s out t
    using assms
  proof (induction rp rc seen ls s arbitrary: out t rule: patch_loop.induct)
    case (1 rp rc seen ls s)
    show ?case
    proof (cases ls)
      case Nil
      with 1(2,3) show ?thesis by (simp add: patch_loop.simps [of rp rc seen "[]"])
    next
      case (Cons header rest)
      with 1(3) obtain o1 seen' ls' u o2 where
        f: "patch_file rp rc seen header rest s = (Inr (o1, seen', ls'), u)"
        and l: "patch_loop rp rc seen' ls' u = (Inr o2, t)"
        by (auto simp: patch_loop.simps [of rp rc seen "header # rest"] bind_Inr split: prod.splits sum.splits)
      have "keeps P (patch_file rp rc seen header rest)" by (intro keeps_patch_file 1(4,5))
      with f 1(2) have "P u" unfolding keeps_def by blast
      from 1(1) [OF Cons f [symmetric] refl refl refl this l 1(4,5)] show ?thesis .
    qed
  qed
  then show ?thesis by (simp add: keeps_def)
qed

lemma keeps_patch [keeps_rules]:
  assumes "\<And>x. keeps P (rp x)" "\<And>x. keeps P (rc x)"
  shows "keeps P (restore_patch rp rc patch)"
  unfolding restore_patch_def Let_def by (intro keeps_rules assms)

subsection \<open>The content callback\<close>

text \<open>A text with each token replaced by the value it was minted for in this request.\<close>

definition seg_original :: "provenance \<Rightarrow> seg \<Rightarrow> ustr \<Rightarrow> bool" where
  "seg_original prov g r \<longleftrightarrow> (case g of Chr c \<Rightarrow> r = [c] | Tok t \<Rightarrow> \<exists>m. prov_lookup prov t = Some m \<and> r = su_original m)"

definition originals :: "provenance \<Rightarrow> ustr \<Rightarrow> ustr \<Rightarrow> bool" where
  "originals prov v out \<longleftrightarrow> (\<exists>rs. list_all2 (seg_original prov) (tok_split v) rs \<and> out = concat rs)"

lemma tool_content_Inr:
  assumes "tool_content T v st = (Inr out, st')"
  shows "\<not> has_placeholder (te_ucd T) out" "originals (te_prov T) v out"
    "tl_bytes st' = tl_bytes st + length (utf8 out)" "tl_seen st' = tl_seen st"
    "int (length (utf8 out)) \<le> max 0 (te_max T - int (tl_bytes st))"
    "total_refused (tl_aggregate st') = total_refused (tl_aggregate st)"
proof -
  from assms obtain o1 v1 where
    r: "restore (te_vault_env T) (te_backend T) (te_ucd T) (te_clock T (tl_calls st)) (te_ctx T) v (te_prov T)
          (max 0 (te_max T - int (tl_bytes st))) (tl_vault st) = (Inr o1, v1)"
    and o1: "total_refused o1 = 0" "\<not> has_placeholder (te_ucd T) (ro_text o1)" "out = ro_text o1"
    and st': "st' = st\<lparr>tl_vault := v1, tl_calls := Suc (tl_calls st), tl_aggregate := outcome_merge (tl_aggregate st) o1,
        tl_bytes := tl_bytes st + length (utf8 out)\<rparr>"
    by (auto simp: tool_content_def bind_Inr call_restore_def encoded_length_def split: prod.splits if_splits)
  show "\<not> has_placeholder (te_ucd T) out" using o1 by simp
  show "tl_bytes st' = tl_bytes st + length (utf8 out)" "tl_seen st' = tl_seen st"
    "total_refused (tl_aggregate st') = total_refused (tl_aggregate st)"
    using o1 by (simp_all add: st')
  from restore_Inr [OF r] o1(3) obtain rs where
    rs: "list_all2 (seg_result (te_prov T)) (tok_split v) rs" "out = concat rs"
    and le: "int (length (utf8 out)) \<le> max 0 (te_max T - int (tl_bytes st))" by blast
  show "int (length (utf8 out)) \<le> max 0 (te_max T - int (tl_bytes st))" by (rule le)
  have "\<not> is_token r" if "r \<in> set rs" for r
  proof
    assume "is_token r"
    from that obtain a b where "rs = a @ r # b" by (auto simp: in_set_conv_decomp)
    with tok_split_append_token [OF \<open>is_token r\<close>, of "concat a" "concat b"] rs(2)
    have "has_token out" unfolding has_token_iff by auto
    with o1(2,3) show False by (simp add: has_placeholder_def)
  qed
  have "list_all2 (seg_original (te_prov T)) (tok_split v) rs"
  proof (rule list.rel_mono_strong [OF rs(1)])
    fix g r assume "g \<in> set (tok_split v)" "r \<in> set rs" "seg_result (te_prov T) g r"
    with \<open>\<And>r. r \<in> set rs \<Longrightarrow> \<not> is_token r\<close> tok_split_tokens [of _ v] show "seg_original (te_prov T) g r"
      by (cases g) (auto simp: seg_original_def)
  qed
  with rs(2) show "originals (te_prov T) v out" by (auto simp: originals_def)
qed

definition clean_state :: "'b tool_env \<Rightarrow> 'b tool_state \<Rightarrow> bool" where
  \<comment> \<open>nothing refused so far, and the bytes restored within the limit\<close>
  "clean_state T st \<longleftrightarrow> total_refused (tl_aggregate st) = 0 \<and> int (tl_bytes st) \<le> max 0 (te_max T)"

lemma keeps_content [keeps_rules]: "keeps (clean_state T) (tool_content T v)"
  by (auto simp: keeps_def clean_state_def tool_content_Inr(3,6) dest: tool_content_Inr(5))

lemma keeps_seen: "keeps (clean_state T) (\<lambda>st. (r st, st\<lparr>tl_seen := f st\<rparr>))"
  by (simp add: keeps_def clean_state_def)

lemma keeps_path [keeps_rules]: "keeps (clean_state T) (tool_path T v)"
  unfolding tool_path_def by (intro keeps_rules)

lemma keeps_tool_glob [keeps_rules]: "keeps (clean_state T) (tool_glob T v)"
  unfolding tool_glob_def by (intro keeps_rules)

lemma keeps_patch_path [keeps_rules]: "keeps (clean_state T) (patch_path T v)"
proof -
  have "keeps (clean_state T) (\<lambda>st. if c \<in> set (tl_seen st) then (Inl ValueError, st)
      else (Inr (), st\<lparr>tl_seen := c # tl_seen st\<rparr>))" for c
    by (simp add: keeps_def clean_state_def)
  then show ?thesis unfolding patch_path_def by (intro keeps_rules)
qed

lemma keeps_tool_patch [keeps_rules]: "keeps (clean_state T) (tool_patch T v)"
  unfolding tool_patch_def by (intro keeps_rules keeps_seen)

lemma keeps_pyval_str [keeps_rules]:
  "(\<And>s. keeps P (f s)) \<Longrightarrow> keeps P (case v of PStr s \<Rightarrow> f s | _ \<Rightarrow> raise e)"
  by (cases v) (simp_all add: keeps_raise)

lemma keeps_values [keeps_rules]:
  "keeps (clean_state T) (content_value T v)" "keeps (clean_state T) (path_value T v)" "keeps (clean_state T) (glob_field T v)"
  "keeps (clean_state T) (regex_field T v)" "keeps (clean_state T) (command_value T cwd v)"
  unfolding content_value_def path_value_def glob_field_def regex_field_def command_value_def
  by (intro keeps_rules)+

lemma keeps_set_field [keeps_rules]: "(\<And>v. keeps P (f v)) \<Longrightarrow> keeps P (set_field k f d)"
  unfolding set_field_def by (intro keeps_rules)

lemma keeps_set_if [keeps_rules]: "(\<And>v. keeps P (f v)) \<Longrightarrow> keeps P (set_if k f d)"
  unfolding set_if_def by (intro keeps_rules)

lemma keeps_set_fields [keeps_rules]: "(\<And>v. keeps P (f v)) \<Longrightarrow> keeps P (set_fields ks f d)"
  by (induction ks f d rule: set_fields.induct) (auto intro!: keeps_rules)

lemma keeps_todo [keeps_rules]: "keeps (clean_state T) (restore_todo T v)"
  unfolding restore_todo_def
  by (cases v) (simp_all add: keeps_raise keeps_bind keeps_ret keeps_set_fields keeps_values del: set_fields.simps)

lemma keeps_restore_values [keeps_rules]: "keeps (clean_state T) (restore_values T name d)"
proof -
  have "keeps (clean_state T) (restore_patch_field T d)" "keeps (clean_state T) (restore_todos T d)"
    unfolding restore_patch_field_def restore_todos_def
    by (auto intro!: keeps_rules split: option.splits pyval.splits)
  then show ?thesis
    unfolding restore_values_def restore_file_def restore_shell_values_def restore_search_def Let_def
    by (intro keeps_rules)
qed

lemma keeps_call: "keeps (clean_state T) (restore_call T custom name arguments)"
  unfolding restore_call_def within_limit_def by (intro keeps_rules)

text \<open>
  C10: A tool call is released only as a whole: when \<open>restore\<close> returns, no token of its arguments was
  refused, and what was restored, counted over all fields, stays within the output limit; a call with any
  refused token ends as a refusal.
\<close>

theorem tool_call_all_or_nothing:
  "case tool_restore T custom name arguments v of
     (Done out outcome, _) \<Rightarrow> total_refused outcome = 0 \<and> ro_text outcome = out \<and> int (length (utf8 out)) \<le> te_max T
   | _ \<Rightarrow> True"
proof -
  let ?s = "\<lparr>tl_vault = v, tl_aggregate = outcome_init [], tl_bytes = 0, tl_calls = 0, tl_seen = []\<rparr>"
  obtain r st where r: "restore_call T custom name arguments ?s = (r, st)" by (cases "restore_call T custom name arguments ?s")
  show ?thesis
  proof (cases r)
    case (Inl e)
    with r show ?thesis
      by (auto simp: tool_restore_def handled_def split: exn.splits)
  next
    case (Inr out)
    have "clean_state T ?s" by (simp add: clean_state_def total_refused_def outcome_init_def)
    with keeps_call r Inr have "clean_state T st" unfolding keeps_def by blast
    moreover have "int (length (utf8 out)) \<le> te_max T"
      using r Inr by (auto simp: restore_call_def bind_Inr within_limit_def encoded_length_def split: if_splits)
    ultimately show ?thesis using r Inr by (simp add: tool_restore_def clean_state_def total_refused_def)
  qed
qed

subsection \<open>The fields of a call\<close>

lemma tool_restore_Done:
  assumes "tool_restore T custom name arguments v = (Done out outcome, v')"
  obtains st where "restore_call T custom name arguments
     \<lparr>tl_vault = v, tl_aggregate = outcome_init [], tl_bytes = 0, tl_calls = 0, tl_seen = []\<rparr> = (Inr out, st)"
  using assms by (auto simp: tool_restore_def handled_def split: prod.splits sum.splits exn.splits if_splits)

lemma restore_call_function:
  assumes "restore_call T False name arguments st = (Inr out, st')"
  obtains d d' s t where "one_of name SUPPORTED" and "decode_arguments (te_ucd T) (te_json T) arguments = Inr d"
    and "restore_values T name d s = (Inr d', t)" and "json_dumps (jl_repr (te_json T)) (PDict d') = Inr out"
  using assms by (auto simp: restore_call_def bind_Inr simp del: json_dumps.simps)

lemma set_field_Inr:
  "set_field k f d s = (Inr d', t) \<Longrightarrow> \<exists>v x. pd_get d k = Some v \<and> f v s = (Inr x, t) \<and> d' = pd_set k x d"
  by (auto simp: set_field_def bind_Inr split: option.splits)

lemma content_value_Inr:
  "content_value T v s = (Inr x, t) \<Longrightarrow> \<exists>a b. v = PStr a \<and> x = PStr b \<and> originals (te_prov T) a b"
  by (cases v) (auto simp: content_value_def bind_Inr dest: tool_content_Inr(2))

lemma tool_path_Inr: "tool_path T v s = (Inr w, t) \<Longrightarrow> originals (te_prov T) v w \<and> confined T (te_root T) w"
  by (auto simp: tool_path_def bind_Inr dest!: validate_path_Inr dest: tool_content_Inr(2))

lemma path_value_Inr:
  "path_value T v s = (Inr x, t) \<Longrightarrow>
     \<exists>a b. v = PStr a \<and> x = PStr b \<and> originals (te_prov T) a b \<and> confined T (te_root T) b"
  by (cases v) (auto simp: path_value_def bind_Inr dest: tool_path_Inr)

lemma set_fields_content:
  "set_fields ks (content_value T) d s = (Inr d', t) \<Longrightarrow> distinct ks \<Longrightarrow>
     (\<forall>k \<in> set ks. \<exists>a b. pd_get d k = Some (PStr a) \<and> pd_get d' k = Some (PStr b) \<and> originals (te_prov T) a b)
     \<and> (\<forall>k. k \<notin> set ks \<longrightarrow> pd_get d' k = pd_get d k)"
proof (induction ks arbitrary: d s)
  case (Cons k ks)
  then obtain d1 s1 where d1: "set_field k (content_value T) d s = (Inr d1, s1)"
    "set_fields ks (content_value T) d1 s1 = (Inr d', t)" by (auto simp: bind_Inr)
  from set_field_Inr [OF d1(1)] content_value_Inr obtain a b where
    ab: "pd_get d k = Some (PStr a)" "d1 = pd_set k (PStr b) d" "originals (te_prov T) a b" by blast
  have same: "pd_get d1 j = pd_get d j" if "j \<noteq> k" for j using that ab(2) by simp
  from Cons.prems(2) have k: "k \<notin> set ks" "distinct ks" by auto
  from Cons.IH [OF d1(2) k(2)] have
    new: "\<exists>a b. pd_get d j = Some (PStr a) \<and> pd_get d' j = Some (PStr b) \<and> originals (te_prov T) a b" if "j \<in> set ks" for j
    using that same [of j] k(1) by (metis (full_types))
  from Cons.IH [OF d1(2) k(2)] have old: "pd_get d' j = pd_get d1 j" if "j \<notin> set ks" for j using that by blast
  show ?case using new old same ab k by auto
qed simp

text \<open>The fields of a file tool before and after.\<close>

definition file_restored :: "'b tool_env \<Rightarrow> ustr \<Rightarrow> pydict \<Rightarrow> pydict \<Rightarrow> bool" where
  "file_restored T name d d' \<longleftrightarrow>
     (let F = file_fields_of name d in
      (\<exists>a b. pd_get d (ff_path F) = Some (PStr a) \<and> pd_get d' (ff_path F) = Some (PStr b)
         \<and> originals (te_prov T) a b \<and> confined T (te_root T) b)
      \<and> (\<forall>k \<in> set (ff_contents F). \<exists>a b. pd_get d k = Some (PStr a) \<and> pd_get d' k = Some (PStr b)
            \<and> originals (te_prov T) a b)
      \<and> (\<forall>k. k \<notin> set (ff_path F # ff_contents F) \<longrightarrow> pd_get d' k = pd_get d k))"

lemma restore_file_Inr:
  assumes "restore_file T name d s = (Inr d', t)"
  shows "file_restored T name d d'"
proof -
  let ?F = "file_fields_of name d"
  from assms obtain d1 s1 where d1: "set_field (ff_path ?F) (path_value T) d s = (Inr d1, s1)"
    "set_fields (ff_contents ?F) (content_value T) d1 s1 = (Inr d', t)"
    by (auto simp: restore_file_def Let_def bind_Inr split: if_splits)
  from set_field_Inr [OF d1(1)] path_value_Inr obtain a b where
    ab: "pd_get d (ff_path ?F) = Some (PStr a)" "d1 = pd_set (ff_path ?F) (PStr b) d" "originals (te_prov T) a b"
      "confined T (te_root T) b" by blast
  have "distinct (ff_contents ?F)" "ff_path ?F \<notin> set (ff_contents ?F)"
    by (simp_all add: file_fields_of_def Let_def)
  note fields = set_fields_content [OF d1(2) this(1)] and path = this(2)
  have same: "pd_get d1 k = pd_get d k" if "k \<noteq> ff_path ?F" for k using that ab(2) by simp
  have "\<exists>a b. pd_get d k = Some (PStr a) \<and> pd_get d' k = Some (PStr b) \<and> originals (te_prov T) a b"
    if "k \<in> set (ff_contents ?F)" for k
    using that fields path same [of k] by (metis (full_types))
  moreover have "pd_get d' k = pd_get d1 k" if "k \<notin> set (ff_contents ?F)" for k using that fields by blast
  ultimately show ?thesis using ab path same by (simp add: file_restored_def Let_def)
qed

text \<open>
  C16: A file tool only ever reaches the workspace: when the call of a file tool is released, its path field is
  the original of the masked path and lies below the workspace root as the file system resolves it, its
  contents are the originals, and every other field is what the model wrote.
\<close>

theorem file_call_confined:
  assumes "tool_restore T False name arguments v = (Done out outcome, v')" and "one_of name (READ @ EDIT @ WRITE)"
  shows "\<exists>d d'. decode_arguments (te_ucd T) (te_json T) arguments = Inr d
     \<and> json_dumps (jl_repr (te_json T)) (PDict d') = Inr out \<and> file_restored T name d d'"
proof -
  obtain st where "restore_call T False name arguments
     \<lparr>tl_vault = v, tl_aggregate = outcome_init [], tl_bytes = 0, tl_calls = 0, tl_seen = []\<rparr> = (Inr out, st)"
    by (rule tool_restore_Done [OF assms(1)])
  then obtain d d' s t where d: "decode_arguments (te_ucd T) (te_json T) arguments = Inr d"
    "restore_values T name d s = (Inr d', t)" "json_dumps (jl_repr (te_json T)) (PDict d') = Inr out"
    by (rule restore_call_function)
  from d(2) assms(2) have "restore_file T name d s = (Inr d', t)" by (simp add: restore_values_def)
  from restore_file_Inr [OF this] d(1,3) show ?thesis by blast
qed

text \<open>The command of a shell call before and after.\<close>

definition shell_restored :: "ustr \<Rightarrow> pydict \<Rightarrow> pydict \<Rightarrow> bool" where
  "shell_restored name d d' \<longleftrightarrow>
     (\<exists>c c' orig argv. pd_get d (command_key name) = Some (PStr c) \<and> pd_get d' (command_key name) = Some (PStr c')
        \<and> command_words c = Inr orig \<and> shlex_split c' = Inr argv \<and> restored_words orig argv)"

lemma set_if_other: "set_if k f d s = (Inr d', t) \<Longrightarrow> j \<noteq> k \<Longrightarrow> pd_get d' j = pd_get d j"
  by (auto simp: set_if_def split: if_splits dest!: set_field_Inr)

lemma restore_shell_Inr:
  assumes "restore_shell_values T name d s = (Inr d', t)"
  shows "shell_restored name d d'"
proof -
  let ?k = "command_key name"
  from assms obtain d1 s1 d2 s2 d3 s3 u where
    d: "set_if ''cwd'' (path_value T) d s = (Inr d1, s1)" "set_if ''workdir'' (path_value T) d1 s1 = (Inr d2, s2)"
      "set_if ''description'' (content_value T) d2 s2 = (Inr d3, s3)"
      "set_field ?k (command_value T (cwd_of T d3)) d3 s3 = (Inr d', u)"
    by (auto simp: restore_shell_values_def bind_Inr)
  have k: "?k \<noteq> ''cwd''" "?k \<noteq> ''workdir''" "?k \<noteq> ''description''" by (simp_all add: command_key_def)
  have "pd_get d3 ?k = pd_get d ?k"
    using set_if_other [OF d(1) k(1)] set_if_other [OF d(2) k(2)] set_if_other [OF d(3) k(3)] by simp
  with set_field_Inr [OF d(4)] obtain w x where
    w: "pd_get d ?k = Some w" "command_value T (cwd_of T d3) w s3 = (Inr x, u)" "d' = pd_set ?k x d3" by auto
  from w(2) obtain c out where c: "w = PStr c" "x = PStr out"
    "restore_shell (tool_content T) (\<lambda>p. lift (validate_path T (cwd_of T d3) p)) (Some (tool_glob T)) c s3 = (Inr out, u)"
    by (cases w) (auto simp: command_value_def bind_Inr)
  from registry_paths.shell_words [OF c(3)] c(1,2) w(1,3) show ?thesis
    by (auto simp: shell_restored_def)
qed


lemma tool_patch_Inr:
  assumes "tool_patch T p s = (Inr out, t)"
  shows "list_all2 (patch_line (patch_path T) (tool_content T)) (split_on 10 p) (split_on 10 out)"
    "distinct (touched (split_on 10 out))" "\<forall>q \<in> set (touched (split_on 10 out)). confined T (te_root T) q"
proof -
  from assms obtain s1 s2 out2 where r: "restore_patch (patch_path T) (tool_content T) p s1 = (Inr out, s2)"
    "restore_patch (\<lambda>p. lift (validate_path T (te_root T) p)) ret out s2 = (Inr out2, t)"
    by (auto simp: tool_patch_def bind_Inr)
  show "list_all2 (patch_line (patch_path T) (tool_content T)) (split_on 10 p) (split_on 10 out)"
    by (rule patch_structure [OF r(1)])
  show "distinct (touched (split_on 10 out))" by (rule patch_paths_distinct [OF r(1)])
  have "\<exists>q'. validate_path T (te_root T) q = Inr q'"
    if "patch_line (\<lambda>p. lift (validate_path T (te_root T) p)) (ret :: ustr \<Rightarrow> (ustr, 'a tool_state) act) a b"
      and "header_path a = Some q" for a b q
    using that(1)
  proof cases
    case (Path m x y)
    with that(2) show ?thesis by (auto simp: path_markers_def yields_def)
  next
    case (Content m x y)
    with that(2) show ?thesis by (auto simp: content_markers_def)
  qed (use that(2) in auto)
  with patch_structure [OF r(2)] show "\<forall>q \<in> set (touched (split_on 10 out)). confined T (te_root T) q"
    by (fastforce simp: touched_def map_filter_def list_all2_conv_all_nth in_set_conv_nth dest: validate_path_Inr)
qed


text \<open>A tool that is not registered is refused before anything is restored: the vault is not read.\<close>

theorem unregistered_tool_refused:
  assumes "\<not> one_of name SUPPORTED"
  shows "tool_restore T custom name arguments v = (Refused ''unsupported_tool'' (outcome_init []), v)"
  using assms by (simp add: tool_restore_def restore_call_def bind_def guard_def handled_def)

end
