(* ===== verification/RegistrySamples.thy ===== *)
theory RegistrySamples
  imports RegistryFacts ProtocolFacts RestorationFacts MessagesFacts
begin

text \<open>
  A workspace, an empty vault and calls without placeholders on which the properties of the tool registry
  are applied.
\<close>

lemma concat_map_empty [simp]: "concat (map (\<lambda>x. []) xs) = []" by (induction xs) simp_all

lemma lookalike_needs: "60 \<notin> set s \<Longrightarrow> 58 \<notin> set s \<Longrightarrow> \<not> re_matches (TOKEN_LOOKALIKE U) s"
proof -
  assume s: "60 \<notin> set s" "58 \<notin> set s"
  have "rm (RChr c) s = (\<lambda>i g. [])" if "c \<notin> set s" for c
    using that by (auto simp: fun_eq_iff rm_chr char_at_nth in_set_conv_nth)
  with s have "rm (TOKEN_LOOKALIKE U) s = (\<lambda>i g. [])"
    by (simp add: TOKEN_LOOKALIKE_def split_def)
  then have "match_at (TOKEN_LOOKALIKE U) s i a = None" for i a by (simp add: match_at_def)
  then have "search_from (TOKEN_LOOKALIKE U) s i a = None" for i a
    by (induction "TOKEN_LOOKALIKE U" s i a rule: search_from.induct) (simp add: search_from.simps)
  then show ?thesis by (simp add: re_matches_def re_search_def)
qed

definition plain :: "ustr \<Rightarrow> bool" where
  "plain s \<longleftrightarrow> 60 \<notin> set s \<and> 58 \<notin> set s \<and> (\<forall>c \<in> set s. c < 128)"

lemma token_sub_plain: "60 \<notin> set s \<Longrightarrow> token_sub f s = ret s"
proof -
  have "sub_segs f (map Chr s) = ret s" by (induction s) simp_all
  then show "60 \<notin> set s \<Longrightarrow> token_sub f s = ret s" by (simp add: token_sub_segs tok_split_no_lt)
qed

lemma plain_placeholder: "plain s \<Longrightarrow> \<not> has_placeholder ascii_ucd s" "plain s \<Longrightarrow> \<not> has_malformed_placeholder ascii_ucd s"
  using lookalike_needs [of s ascii_ucd]
  by (auto simp: has_placeholder_def has_malformed_placeholder_def lookalike_def without_tokens_def token_sub_plain ret_def
      has_token_iff tok_split_no_lt plain_def ascii_ucd_def)

definition sample_tools where
  "sample_tools = \<lparr>te_vault_env = sample_env, te_backend = in_memory, te_ucd = ascii_ucd, te_clock = (\<lambda>_ _. (10, 10)),
     te_json = sample_json, te_ctx = sample_ctx, te_prov = sample_prov, te_max = 1000, te_root = [[119]], te_resolve = Inr\<rparr>"

lemma tool_content_plain:
  assumes "plain s" and "int (tl_bytes st + length s) \<le> 1000"
  shows "\<exists>st'. tool_content sample_tools s st = (Inr s, st') \<and> tl_bytes st' = tl_bytes st + length s
     \<and> tl_seen st' = tl_seen st"
proof -
  have s: "utf8 s = s" "\<not> list_ex is_surrogate s" "finditer TOKEN_PATTERN s = []"
    using assms(1) by (auto simp: plain_def utf8_ascii list_ex_iff is_surrogate_def finditer_TOKEN matches_of_Nil
        tok_split_no_lt tok_count_def filter_empty_conv)
  with assms plain_placeholder [OF assms(1)] show ?thesis
    by (simp add: tool_content_def bind_def guard_def call_restore_def sample_tools_def restore_def outcome_init_def
        total_refused_def encoded_length_def lift_def ret_def)
qed

lemma tool_path_plain:
  assumes "plain s" and "int (tl_bytes st + length s) \<le> 1000" and "validate_path sample_tools [[119]] s = Inr s"
  shows "\<exists>st'. tool_path sample_tools s st = (Inr s, st') \<and> tl_bytes st' = tl_bytes st + length s \<and> tl_seen st' = tl_seen st"
  using tool_content_plain [OF assms(1,2)] assms(3)
  by (auto simp: tool_path_def bind_def lift_def sample_tools_def)

lemma sample_path: "plain [97]" "validate_path sample_tools [[119]] [97] = Inr [97]"
proof -
  show "plain [97]" by (simp add: plain_def)
  then show "validate_path sample_tools [[119]] [97] = Inr [97]"
    using plain_placeholder(1) [of "[97]"]
    by (simp add: validate_path_def sample_tools_def starts_with_def path_of_def joined_def inside_def)
qed

text \<open>The calls of two function tools with one argument each.\<close>

lemma sample_arguments_decode:
  assumes "plain k" and "k \<noteq> []" and "length k \<le> 20" and "plain a" and "length a \<le> 20"
  shows "\<exists>args. json_dumps (jl_repr sample_json) (PDict [(PStr k, PStr a)]) = Inr args
     \<and> decode_arguments ascii_ucd sample_json args = Inr [(PStr k, PStr a)]"
proof -
  have "json_clean (jl_repr sample_json) (jl_nest sample_json) (PDict [(PStr k, PStr a)])"
    by (simp add: sample_json_def)
  from json_roundtrip [OF this] obtain args where
    args: "json_dumps (jl_repr sample_json) (PDict [(PStr k, PStr a)]) = Inr args"
      "json_parse (jl_nest sample_json) args = Some (raw_of (PDict [(PStr k, PStr a)]))" by blast
  then show ?thesis using plain_placeholder(1) [OF assms(1)]
    by (simp add: decode_arguments_def argument_bounds.simps(2) children_def pushed_def)
qed

lemma dumps_plain:
  assumes "plain k" "plain a" "list_all (\<lambda>c. 32 \<le> c \<and> c \<noteq> 34 \<and> c \<noteq> 92) (k @ a)"
  shows "json_dumps shw (PDict [(PStr k, PStr a)]) = Inr ([123, 34] @ k @ [34, 58, 34] @ a @ [34, 125])"
proof -
  have "concat (map escape s) = s" if "list_all (\<lambda>c. 32 \<le> c \<and> c \<noteq> 34 \<and> c \<noteq> 92) s" for s
    using that by (induction s) (auto simp: escape_def)
  with assms(3) show ?thesis by (simp add: dumps_key_def quoted_def)
qed

text \<open>A call with one argument whose text stays the same, from the restored values to the released call.\<close>

lemma sample_call:
  assumes name: "plain name" "one_of name SUPPORTED"
    and k: "plain (lit k)" "k \<noteq> []" "length k \<le> 20" and a: "plain a" "length a \<le> 20"
    and printable: "list_all (\<lambda>c. 32 \<le> c \<and> c \<noteq> 34 \<and> c \<noteq> 92) (lit k @ a)"
    and same: "\<And>s. tl_bytes s = 0 \<Longrightarrow> \<exists>t. restore_values sample_tools name [(str k, PStr a)] s = (Inr [(str k, PStr a)], t)"
  shows "\<exists>args out v'. json_dumps (jl_repr sample_json) (PDict [(str k, PStr a)]) = Inr args
     \<and> decode_arguments ascii_ucd sample_json args = Inr [(str k, PStr a)]
     \<and> tool_restore sample_tools False name args sample_stored = (Done args out, v')"
proof -
  let ?s = "\<lparr>tl_vault = sample_stored, tl_aggregate = outcome_init [], tl_bytes = 0, tl_calls = 0, tl_seen = []\<rparr>"
  define args where "args = [123, 34] @ lit k @ [34, 58, 34] @ a @ [34, 125]"
  have j: "json_dumps (jl_repr sample_json) (PDict [(str k, PStr a)]) = Inr args"
    unfolding args_def by (rule dumps_plain [OF k(1) a(1) printable])
  have d: "decode_arguments ascii_ucd sample_json args = Inr [(str k, PStr a)]"
    using sample_arguments_decode [OF k(1) _ _ a] k(2,3) j by (auto simp del: json_dumps.simps)
  have chars: "\<forall>c \<in> set args. c < 128" using k(1) a(1) by (auto simp: args_def plain_def)
  then have "\<not> list_ex is_surrogate args" by (auto simp: list_ex_iff is_surrogate_def)
  moreover have "length (utf8 args) \<le> 1000" using utf8_ascii [OF chars] k(3) a(2) by (simp add: args_def)
  ultimately have limit: "within_limit sample_tools args t = (Inr (), t)" for t
    by (simp add: within_limit_def encoded_length_def bind_def lift_def guard_def sample_tools_def)
  obtain t where t: "restore_values sample_tools name [(str k, PStr a)] ?s = (Inr [(str k, PStr a)], t)"
    using same [of ?s] by auto
  have T: "te_ucd sample_tools = ascii_ucd" "te_json sample_tools = sample_json" by (simp_all add: sample_tools_def)
  have "restore_call sample_tools False name args ?s = (Inr args, t)"
    using name(2) plain_placeholder(1) [OF name(1)] d t j
    by (simp add: restore_call_def bind_def guard_def limit T lift_def ret_def del: json_dumps.simps)
  with j d show ?thesis by (auto simp: tool_restore_def)
qed

lemma sample_read_call:
  "\<exists>args out v'. json_dumps (jl_repr sample_json) (PDict [(str ''file_path'', PStr [97])]) = Inr args
     \<and> decode_arguments ascii_ucd sample_json args = Inr [(str ''file_path'', PStr [97])]
     \<and> tool_restore sample_tools False (lit ''Read'') args sample_stored = (Done args out, v')"
proof -
  let ?d = "[(str ''file_path'', PStr [97])]"
  have "\<exists>t. restore_values sample_tools (lit ''Read'') ?d s = (Inr ?d, t)" if "tl_bytes s = 0" for s
    using tool_path_plain [OF sample_path(1) _ sample_path(2), of s] that
    by (auto simp: restore_values_def one_of_def READ_def restore_file_def file_fields_of_def Let_def has_keys_def
        keys_within_def in_names_def pd_get_def check_int_def set_field_def path_value_def bind_def ret_def pd_set_def)
  then show ?thesis
    by (intro sample_call) (simp_all add: plain_def lit_def of_char_def one_of_def SUPPORTED_def READ_def)
qed

theorem file_call_confined_witness:
  "\<exists>args out v' d d'. tool_restore sample_tools False (lit ''Read'') args sample_stored = (Done args out, v')
     \<and> decode_arguments (te_ucd sample_tools) (te_json sample_tools) args = Inr d \<and> file_restored sample_tools (lit ''Read'') d d'"
proof -
  obtain args out v' where c: "tool_restore sample_tools False (lit ''Read'') args sample_stored = (Done args out, v')"
    using sample_read_call by blast
  from file_call_confined [OF this] c show ?thesis by (auto simp: one_of_def READ_def)
qed

lemma pwd_restored: "restore_shell rl vp g (lit ''pwd'') s = (Inr (lit ''pwd''), s)"
proof -
  have pwd: "command_words (lit ''pwd'') = Inr [lit ''pwd'']" "\<not> has_token (lit ''pwd'')"
    by (simp_all add: command_words_def token_sub_plain lit_def of_char_def ret_def shlex_split_def lex_space_def emit_def
        unsupported_syntax_def has_token_iff tok_split_no_lt)
  have "shlex_quote (lit ''pwd'') = lit ''pwd''"
    by (simp add: shlex_quote_def lit_def of_char_def shell_safe_def ascii_alpha_def)
  with pwd show ?thesis
    by (simp add: restore_shell_def bind_def lift_def guard_def restore_arguments_def Let_def ret_def)
qed


definition delete_patch :: ustr where
  "delete_patch = py_join [10] [lit ''*** Begin Patch'', op_marker Delete @ [97], lit ''*** End Patch'']"

lemma delete_patch_restored:
  assumes "rp [97] s = (Inr [97], t)"
  shows "restore_patch rp rc delete_patch s = (Inr delete_patch, t)"
proof -
  have one: "patch_file rp rc [] (op_marker Delete @ [97]) [] s = (Inr ([op_marker Delete @ [97]], [[97]], []), t)"
    using assms by (simp add: patch_file_def operation_of_def starts_with_def restored_line_def single_line_def bind_def ret_def
        guard_def op_marker_def lit_def of_char_def)
  have body: "patch_loop rp rc [] [op_marker Delete @ [97]] s = (Inr [op_marker Delete @ [97]], t)"
    by (simp add: patch_loop.simps [of _ _ _ "_ # _"] patch_loop.simps [of _ _ _ "[]"] one bind_def ret_def)
  have plain: "\<forall>l \<in> set [lit ''*** Begin Patch'', op_marker Delete @ [97], lit ''*** End Patch'']. 10 \<notin> set l"
    by (simp add: op_marker_def lit_def of_char_def)
  have "split_on 10 delete_patch = [lit ''*** Begin Patch'', op_marker Delete @ [97], lit ''*** End Patch'']"
    unfolding delete_patch_def by (rule split_join [OF _ plain]) simp
  moreover have "13 \<notin> set delete_patch" "0 \<notin> set delete_patch" "\<not> ends_with delete_patch [10]"
    by (simp_all add: delete_patch_def ends_with_def op_marker_def lit_def of_char_def)
  ultimately show ?thesis by (simp add: restore_patch_def body bind_def ret_def delete_patch_def)
qed

lemma delete_patch_plain: "length delete_patch \<le> 100" "\<forall>c \<in> set delete_patch. c < 128"
  by (simp_all add: delete_patch_def op_marker_def lit_def of_char_def)


theorem unregistered_tool_refused_witness:
  "tool_restore sample_tools False (lit ''WebFetch'') [] sample_stored
     = (Refused ''unsupported_tool'' (outcome_init []), sample_stored)"
  by (rule unregistered_tool_refused)
    (simp add: one_of_def SUPPORTED_def READ_def EDIT_def WRITE_def SHELL_def SEARCH_def)

end
