(* ===== verification/BoundFacts.thy ===== *)
theory BoundFacts
  imports Bound SchemaFacts RegistrySamples
begin

text \<open>
  What the bound registry guarantees: the tools and the choice of an accepted request are consistent, and a
  released call was declared, selected, and fits its schema.
\<close>

subsection \<open>Calls\<close>

lemma call_allowed_Inr:
  "call_allowed B name custom = Inr () \<longleftrightarrow>
     (\<exists>s. map_of (bt_declared B) name = Some (custom, s)) \<and> \<not> bt_forbidden B
     \<and> (bt_selected B = None \<or> bt_selected B = Some (PStr name, custom))"
  by (cases "bt_selected B") (auto simp: call_allowed_def tool_fail_def split: option.splits)

lemma rfold_unit: "rfold (\<lambda>x _. f x) xs () = Inr () \<longleftrightarrow> (\<forall>x \<in> set xs. f x = Inr ())"
  by (induction xs) (auto simp: rbind_eq_Inr)

text \<open>
  \<open>validate_batch\<close> accepts exactly the batches the request asked for: not more calls than allowed, at least one
  where one is required, and every call to a declared tool in its declared format, the selected one if one was
  selected, and none if calls were forbidden.
\<close>

theorem validate_batch_exact:
  "validate_batch B calls = Inr () \<longleftrightarrow>
     int (length calls) \<le> bt_max_calls B \<and> (bt_required B \<longrightarrow> calls \<noteq> [])
     \<and> (\<forall>(name, _, custom) \<in> set calls.
          map_option fst (map_of (bt_declared B) name) = Some custom \<and> \<not> bt_forbidden B
          \<and> (bt_selected B = None \<or> bt_selected B = Some (PStr name, custom)))"
proof -
  have "validate_batch B calls = Inr () \<longleftrightarrow>
     \<not> (bt_max_calls B < int (length calls) \<or> bt_required B \<and> calls = [])
     \<and> (\<forall>c \<in> set calls. (case c of (name, _, custom) \<Rightarrow> call_allowed B name custom) = Inr ())"
    unfolding validate_batch_def rfold_unit [symmetric] by (simp add: tool_fail_def split_def)
  then show ?thesis by (auto simp: call_allowed_Inr)
qed

definition declaration_ok :: "ustr \<times> bool \<times> pyval option \<Rightarrow> bool" where
  \<comment> \<open>a registered tool; the patch format, or a schema that compiled and is about the fields of the tool\<close>
  "declaration_ok decl =
     (case decl of (name, custom, schema) \<Rightarrow>
        one_of name SUPPORTED
        \<and> (if custom then name = lit ''apply_patch'' \<and> schema = None
           else \<exists>s left fs. schema = Some s \<and> compile_schema 0 s MAX_SCHEMA_NODES = Inr left
             \<and> field_types name = Inr fs \<and> check_flat_contract s fs))"

definition declarations_ok :: "(ustr \<times> bool \<times> pyval option) list \<Rightarrow> bool" where
  "declarations_ok ds \<longleftrightarrow> distinct (map fst ds) \<and> list_all declaration_ok ds"

lemma tool_fail_neq [simp]: "tool_fail c \<noteq> Inr x" "Inr x \<noteq> tool_fail c"
  by (simp_all add: tool_fail_def)

lemma declare_tool_ok:
  assumes "declare_tool responses defn ds = Inr ds'" and "declarations_ok ds"
  shows "declarations_ok ds'"
proof -
  from assms(1) obtain d where defn: "defn = PDict d" by (cases defn) (simp_all add: declare_tool_def)
  from assms(1) obtain n where n: "py_item d ''name'' = Inr n" by (auto simp: defn declare_tool_def rbind_eq_Inr)
  from assms(1) obtain name where name: "n = PStr name" by (cases n) (simp_all add: defn declare_tool_def n)
  define custom where "custom = (responses \<and> pd_get_or d ''type'' PNone = PStr (lit ''custom''))"
  have "one_of name SUPPORTED \<and> map_of ds name = None"
    using assms(1) by (cases "map_of ds name") (simp_all add: defn declare_tool_def n name Let_def split: if_splits)
  moreover have "\<exists>schema. ds' = ds @ [(name, custom, schema)]
      \<and> (if custom then name = lit ''apply_patch'' \<and> schema = None
         else \<exists>s left fs. schema = Some s \<and> compile_schema 0 s MAX_SCHEMA_NODES = Inr left
             \<and> field_types name = Inr fs \<and> check_flat_contract s fs)"
  proof (cases custom)
    case True
    with assms(1) show ?thesis
      by (simp add: defn declare_tool_def n name Let_def custom_def [symmetric] rbind_eq_Inr split: if_splits)
  next
    case False
    with assms(1) show ?thesis
      by (simp add: defn declare_tool_def n name Let_def custom_def [symmetric] rbind_eq_Inr split: if_splits) (auto split: if_splits)
  qed
  ultimately obtain schema where d: "ds' = ds @ [(name, custom, schema)]" "map_of ds name = None"
    and ok: "declaration_ok (name, custom, schema)" by (auto simp: declaration_ok_def)
  from d(2) have "name \<notin> set (map fst ds)" by (simp add: map_of_eq_None_iff)
  with assms(2) d(1) ok show ?thesis by (auto simp: declarations_ok_def)
qed

lemma declared_tools_ok:
  assumes "declared_tools responses p = Inr ds" shows "declarations_ok ds"
proof -
  from assms obtain defs where "rfold (declare_tool responses) defs [] = Inr ds"
    by (cases "pd_get_or p ''tools'' (PList [])") (simp_all add: declared_tools_def split: if_splits)
  then show ?thesis by (rule rfold_invariant) (auto simp: declarations_ok_def [of "[]"] intro: declare_tool_ok)
qed

lemma responses_choice_max:
  assumes "responses_choice p = Inr (f, r, s, m)" shows "1 \<le> m \<and> m \<le> 512"
proof -
  from assms obtain parallel where p: "pd_get_or p ''parallel_tool_calls'' (PBool True) = PBool parallel"
    by (cases "pd_get_or p ''parallel_tool_calls'' (PBool True)") (auto simp: responses_choice_def rbind_eq_Inr)
  show ?thesis
  proof (cases "pd_get p ''max_tool_calls''")
    case (Some v)
    with assms p show ?thesis by (cases v) (auto simp: responses_choice_def rbind_eq_Inr Let_def split: if_splits)
  qed (use assms p in \<open>auto simp: responses_choice_def rbind_eq_Inr Let_def split: if_splits\<close>)
qed

lemma messages_choice_max:
  assumes "messages_choice p = Inr (f, r, s, m)" shows "1 \<le> m \<and> m \<le> 512"
proof -
  obtain c where c: "pd_get_or p ''tool_choice'' (PDict [(PStr (lit ''type''), PStr (lit ''auto''))]) = PDict c"
    using assms by (cases "pd_get_or p ''tool_choice'' (PDict [(PStr (lit ''type''), PStr (lit ''auto''))])")
      (simp_all add: messages_choice_def)
  show ?thesis
    using assms by (cases "pd_get_or c ''disable_parallel_tool_use'' (PBool False)")
      (auto simp: messages_choice_def c rbind_eq_Inr split: if_splits)
qed

lemma bind_tools_request: "bind_tools p protocol = Inr B \<Longrightarrow> bind_request p protocol = Inr B"
  by (auto simp: bind_tools_def split: sum.splits if_splits)

text \<open>
  C17: The registry of an accepted request is consistent: its tools have different names, each is registered and is either
  the patch tool in its own format or has a schema that compiled and names fields of the tool only; a selected
  tool is declared in the selected format, a required call has a tool to choose, and the limit on
  calls is between 1 and 512.
\<close>

theorem bound_tools_consistent:
  assumes "bind_tools p protocol = Inr B"
  shows "declarations_ok (bt_declared B) \<and> (bt_required B \<longrightarrow> bt_declared B \<noteq> [])
     \<and> (\<forall>n custom. bt_selected B = Some (n, custom) \<longrightarrow> declared_as (bt_declared B) n custom)
     \<and> 1 \<le> bt_max_calls B \<and> bt_max_calls B \<le> 512"
proof -
  define responses where "responses = (protocol = lit ''responses'')"
  from bind_tools_request [OF assms] obtain ds forbidden required selected most where
    ds: "declared_tools responses p = Inr ds"
    and choice: "(if responses then responses_choice p else messages_choice p) = Inr (forbidden, required, selected, most)"
    and B: "bt_declared B = ds" "bt_required B = required" "bt_selected B = selected" "bt_max_calls B = most"
      "required \<longrightarrow> ds \<noteq> []" "\<forall>n custom. selected = Some (n, custom) \<longrightarrow> declared_as ds n custom"
    by (auto simp: bind_request_def Let_def rbind_eq_Inr responses_def [symmetric] split: if_split_asm option.split_asm)
  have "1 \<le> most \<and> most \<le> 512"
    using choice responses_choice_max messages_choice_max by (cases responses) auto
  with B declared_tools_ok [OF ds] show ?thesis by simp
qed


text \<open>
  C11: A call that the bound registry releases was declared by the request in that format, was not forbidden, is the
  selected tool where one was selected, and, for a function tool, its restored arguments decode to a value
  that satisfies every keyword of the schema the request declared.
\<close>

theorem released_call_fits_schema:
  assumes "bind_tools p protocol = Inr B" and "bound_restore T B custom name arguments v = (Done out outcome, v')"
  shows "\<exists>schema. (name, custom, schema) \<in> set (bt_declared B) \<and> \<not> bt_forbidden B
     \<and> (bt_selected B = None \<or> bt_selected B = Some (PStr name, custom))
     \<and> tool_restore T custom name arguments v = (Done out outcome, v')
     \<and> (\<not> custom \<longrightarrow> (\<exists>s value. schema = Some s \<and> json_loads (te_json T) out = Inr value \<and> valid s value))"
proof -
  from assms(2) have allowed: "call_allowed B name custom = Inr ()"
    by (auto simp: bound_restore_def split: sum.splits exn.splits)
  then obtain schema where s: "map_of (bt_declared B) name = Some (custom, schema)" by (auto simp: call_allowed_Inr)
  obtain r u where t: "tool_restore T custom name arguments v = (r, u)" by fastforce
  have "tool_restore T custom name arguments v = (Done out outcome, v')
     \<and> (\<not> custom \<longrightarrow> schema_matched (te_json T) schema out = Inr True)"
    using assms(2) by (cases r) (simp_all add: bound_restore_def allowed s t split: if_splits sum.splits)
  moreover have "\<exists>s value. schema = Some s \<and> json_loads (te_json T) out = Inr value \<and> valid s value"
    if "schema_matched (te_json T) schema out = Inr True" "\<not> custom"
  proof -
    have "declaration_ok (name, custom, schema)"
      using declared_tools_ok bind_tools_request [OF assms(1)] map_of_SomeD [OF s]
      by (auto simp: bind_request_def Let_def rbind_eq_Inr declarations_ok_def list_all_iff split: if_split_asm option.split_asm)
    with that(2) obtain sc where sc: "schema = Some sc" "compiled sc" by (auto simp: declaration_ok_def compiled_def)
    with that(1) show ?thesis by (auto simp: schema_matched_def rbind_eq_Inr matches_valid)
  qed
  ultimately show ?thesis using map_of_SomeD [OF s] allowed unfolding call_allowed_Inr by blast
qed

text \<open>A request that declares one tool with a schema, and a call to it.\<close>

definition read_tool :: pyval where
  "read_tool = PDict [(PStr (lit ''name''), PStr (lit ''Read'')),
     (PStr (lit ''input_schema''), PDict [(PStr (lit ''type''), PStr (lit ''object'')),
        (PStr (lit ''required''), PList [PStr (lit ''file_path'')])])]"

definition read_request :: pydict where "read_request = [(PStr (lit ''tools''), PList [read_tool])]"

definition read_schema :: pyval where
  "read_schema = PDict [(PStr (lit ''type''), PStr (lit ''object'')), (PStr (lit ''required''), PList [PStr (lit ''file_path'')])]"

definition read_bound :: bound_tools where
  "read_bound = \<lparr>bt_declared = [(lit ''Read'', False, Some read_schema)], bt_required = False, bt_selected = None,
     bt_forbidden = False, bt_max_calls = 512\<rparr>"

lemma read_schema_compiles: "compile_schema 0 read_schema MAX_SCHEMA_NODES = Inr 511"
  by (simp add: read_schema_def compile_dict compile_field_def SCHEMA_KEYWORDS_def MAX_SCHEMA_NODES_def
      MAX_SCHEMA_DEPTH_def MAX_SCHEMA_COLLECTION_def BOUNDS_def is_str_def keyword_ok_def kinds_of_def TYPES_def COMBINERS_def ANNOTATIONS_def)

lemma read_schema_contract: "\<exists>fs. field_types (lit ''Read'') = Inr fs \<and> check_flat_contract read_schema fs"
  by (simp add: field_types_def fields_for_def one_of_def READ_def WRITE_def EDIT_def Let_def check_flat_contract.simps [of "PDict _"]
      read_schema_def pd_get_or_def pd_get_def kinds_of_def names_known_def field_of_def alternatives_def COMBINERS_def)

lemma read_request_bound: "bind_tools read_request (lit ''messages'') = Inr read_bound"
proof -
  obtain fs where fs: "field_types (lit ''Read'') = Inr fs" "check_flat_contract read_schema fs" using read_schema_contract by blast
  have "declare_tool False read_tool [] = Inr [(lit ''Read'', False, Some read_schema)]"
    using fs read_schema_compiles
    by (simp add: declare_tool_def read_tool_def py_item_def pd_get_def pd_get_or_def one_of_def SUPPORTED_def READ_def Let_def
        kind_check_def py_member_def in_names_def read_schema_def [symmetric])
  then show ?thesis
    by (simp add: bind_tools_def bind_request_def one_of_def declared_tools_def read_request_def pd_get_or_def pd_get_def Let_def
        MAX_SCHEMA_COLLECTION_def messages_choice_def py_item_def py_member_def in_names_def read_bound_def)
qed


theorem bound_tools_consistent_witness: "declarations_ok (bt_declared read_bound) \<and> bt_declared read_bound \<noteq> []"
  using bound_tools_consistent [OF read_request_bound] by (simp add: read_bound_def)

lemma read_loaded:
  assumes "json_dumps (jl_repr sample_json) (PDict [(str ''file_path'', PStr [97])]) = Inr args"
  shows "json_loads sample_json args = Inr (PDict [(str ''file_path'', PStr [97])])"
proof -
  have "json_clean (jl_repr sample_json) (jl_nest sample_json) (PDict [(str ''file_path'', PStr [97])])"
    by (simp add: sample_json_def)
  from json_roundtrip [OF this] assms show ?thesis by (auto simp: json_loads_def simp del: json_dumps.simps)
qed

lemma read_matches: "matches read_schema (PDict [(str ''file_path'', PStr [97])]) = Inr True"
  by (simp add: read_schema_def matches_dict value_checks_def type_check_def pd_get_def pd_get_or_def const_check_def enum_check_def
      required_check_def size_check_def compare_to_def num_val_def property_schema_def kinds_of_def has_type_def COMBINERS_def
      matches.simps [of "PBool True"])

theorem released_call_fits_schema_witness:
  "\<exists>args outcome v'. bound_restore sample_tools read_bound False (lit ''Read'') args sample_stored = (Done args outcome, v')
     \<and> (\<exists>value. json_loads sample_json args = Inr value \<and> valid read_schema value)"
proof -
  obtain args out v' where c: "json_dumps (jl_repr sample_json) (PDict [(str ''file_path'', PStr [97])]) = Inr args"
      "tool_restore sample_tools False (lit ''Read'') args sample_stored = (Done args out, v')"
    using sample_read_call by blast
  have "te_json sample_tools = sample_json" by (simp add: sample_tools_def)
  then have b: "bound_restore sample_tools read_bound False (lit ''Read'') args sample_stored = (Done args out, v')"
    by (simp add: bound_restore_def call_allowed_def c(2) schema_matched_def read_loaded [OF c(1)] read_matches read_bound_def)
  from released_call_fits_schema [OF read_request_bound b] have "\<exists>value. json_loads sample_json args = Inr value \<and> valid read_schema value"
    by (auto simp: read_bound_def sample_tools_def)
  with b show ?thesis by blast
qed


theorem validate_batch_exact_witness:
  "validate_batch read_bound [(lit ''Read'', [], False)] = Inr () \<and> validate_batch read_bound [(lit ''Write'', [], False)] \<noteq> Inr ()"
  by (simp add: validate_batch_exact read_bound_def)

end
