(* ===== verification/ProviderShapes.thy ===== *)
theory ProviderShapes
  imports Messages Bound Sse
begin

text \<open>
  The visitors of provider output, \<^verbatim>\<open>gateway/streaming/protocols.py\<close>: the shapes of identifiers, usage
  counts, content blocks and messages that a provider may return.  A visitor that only checks is a
  \<open>unit res\<close>; a check that fails raises the \<open>StreamProtocolError\<close> of its code.
\<close>

definition MAX_ITEMS :: int where "MAX_ITEMS = 512"

definition INVALID :: string where "INVALID = ''invalid_provider_stream''"

definition ensure :: "bool \<Rightarrow> string \<Rightarrow> unit res" where
  \<comment> \<open>\<open>if not b: raise StreamProtocolError(code)\<close>\<close>
  "ensure b code = (if b then Inr () else Inl (StreamProtocolError code))"

fun checks :: "unit res list \<Rightarrow> unit res" where
  \<comment> \<open>checks in order, up to the first that raises\<close>
  "checks [] = Inr ()"
| "checks (r # rs) = rbind r (\<lambda>_. checks rs)"

lemma ensure_Inr [simp]: "ensure b code = Inr x \<longleftrightarrow> b"
  by (simp add: ensure_def)

lemma checks_Inr: "checks rs = Inr () \<longleftrightarrow> (\<forall>r \<in> set rs. r = Inr ())"
  by (induction rs) (auto simp: rbind_eq_Inr)

subsection \<open>Texts of values\<close>

text \<open>
  \<open>json.dumps\<close> with its default separators, with \<open>ensure_ascii\<close> (the flag) or without.  It raises where
  \<open>json_dumps\<close> does.
\<close>

definition hex4_text :: "nat \<Rightarrow> ustr" where
  "hex4_text n = [92, 117, hex_digit (n div 4096), hex_digit (n div 256 mod 16), hex_digit (n div 16 mod 16), hex_digit (n mod 16)]"

definition escape_ascii :: "cp \<Rightarrow> ustr" where
  "escape_ascii c =
     (if 32 \<le> c \<and> c \<le> 126 then escape c
      else if c \<in> {8, 9, 10, 12, 13} then escape c
      else if c < 65536 then hex4_text c
      else hex4_text (0xD800 + (c - 65536) div 1024) @ hex4_text (0xDC00 + (c - 65536) mod 1024))"

definition quoted_as :: "bool \<Rightarrow> ustr \<Rightarrow> ustr" where
  "quoted_as ascii s = (if ascii then 34 # concat (map escape_ascii s) @ [34] else quoted s)"

fun dumps_text :: "bool \<Rightarrow> (rat \<Rightarrow> ustr) \<Rightarrow> pyval \<Rightarrow> ustr res"
  and dumps_texts :: "bool \<Rightarrow> (rat \<Rightarrow> ustr) \<Rightarrow> pyval list \<Rightarrow> ustr list res"
  and dumps_fields :: "bool \<Rightarrow> (rat \<Rightarrow> ustr) \<Rightarrow> pydict \<Rightarrow> ustr list res" where
  "dumps_text ascii shw (PStr s) = Inr (quoted_as ascii s)"
| "dumps_text ascii shw (PList xs) = rbind (dumps_texts ascii shw xs) (\<lambda>ts. Inr (91 # py_join [44, 32] ts @ [93]))"
| "dumps_text ascii shw (PDict d) = rbind (dumps_fields ascii shw d) (\<lambda>ts. Inr (123 # py_join [44, 32] ts @ [125]))"
| "dumps_text ascii shw PNone = scalar_text shw PNone"
| "dumps_text ascii shw (PBool b) = scalar_text shw (PBool b)"
| "dumps_text ascii shw (PInt i) = scalar_text shw (PInt i)"
| "dumps_text ascii shw (PFloat f) = scalar_text shw (PFloat f)"
| "dumps_texts ascii shw [] = Inr []"
| "dumps_texts ascii shw (x # xs) = rbind (dumps_text ascii shw x) (\<lambda>t. rbind (dumps_texts ascii shw xs) (\<lambda>ts. Inr (t # ts)))"
| "dumps_fields ascii shw [] = Inr []"
| "dumps_fields ascii shw ((k, v) # d) =
     rbind (dumps_key shw k) (\<lambda>kt. rbind (dumps_text ascii shw v) (\<lambda>t.
     rbind (dumps_fields ascii shw d) (\<lambda>ts. Inr ((quoted_as ascii kt @ [58, 32] @ t) # ts))))"

definition size_of :: "json_lib \<Rightarrow> pyval \<Rightarrow> int res" where
  \<comment> \<open>\<open>_size\<close>\<close>
  "size_of J v =
     (case dumps_text False (jl_repr J) v of
        Inl _ \<Rightarrow> Inl invalid_stream
      | Inr t \<Rightarrow> if list_ex is_surrogate t then Inl invalid_stream else Inr (int (length (utf8 t))))"

subsection \<open>Fields\<close>

definition shape :: "pyval \<Rightarrow> string list \<Rightarrow> string list \<Rightarrow> pydict res" where
  \<comment> \<open>\<open>_keys\<close>\<close>
  "shape v allowed required =
     (case v of
        PDict d \<Rightarrow> if keys_within d allowed \<and> has_keys d required then Inr d else Inl invalid_stream
      | _ \<Rightarrow> Inl invalid_stream)"

definition stream_string :: "pyval \<Rightarrow> ustr res" where
  "stream_string v = (case v of PStr s \<Rightarrow> if list_ex is_surrogate s then Inl invalid_stream else Inr s | _ \<Rightarrow> Inl invalid_stream)"

definition is_string :: "pyval \<Rightarrow> unit res" where
  "is_string v = rbind (stream_string v) (\<lambda>_. Inr ())"

definition is_identifier :: "id_kind \<Rightarrow> pyval \<Rightarrow> unit res" where
  \<comment> \<open>\<open>_identifier\<close>; its patterns are those of the request identifiers\<close>
  "is_identifier k v = rbind (stream_string v) (\<lambda>s. ensure (identifier_ok k s) INVALID)"

definition stream_index :: "int \<Rightarrow> pyval \<Rightarrow> nat res" where
  "stream_index maximum v = (case v of PInt i \<Rightarrow> if 0 \<le> i \<and> i < maximum then Inr (nat i) else Inl invalid_stream
     | _ \<Rightarrow> Inl invalid_stream)"

definition is_count :: "pyval \<Rightarrow> bool" where
  \<comment> \<open>\<open>type(n) is int and n >= 0\<close>\<close>
  "is_count v = (case v of PInt i \<Rightarrow> 0 \<le> i | _ \<Rightarrow> False)"

definition finite_in :: "pyval \<Rightarrow> (rat \<Rightarrow> bool) \<Rightarrow> unit res" where
  \<comment> \<open>a number with \<open>math.isfinite\<close> within bounds; an \<open>int\<close> no float can hold raises an \<open>OverflowError\<close>\<close>
  "finite_in v ok =
     (case v of
        PInt i \<Rightarrow> if float_limit \<le> \<bar>i\<bar> then Inl OverflowError else ensure (ok (of_int i)) INVALID
      | PFloat (Fin q) \<Rightarrow> ensure (ok q) INVALID
      | _ \<Rightarrow> Inl invalid_stream)"

definition empty_or_none :: "pyval \<Rightarrow> bool" where
  \<comment> \<open>\<open>v in (None, [])\<close>\<close>
  "empty_or_none v \<longleftrightarrow> v = PNone \<or> v = PList []"

subsection \<open>Usage\<close>

definition usage_counts :: "bool \<Rightarrow> string list" where
  "usage_counts messages =
     (if messages then [''input_tokens'', ''output_tokens'', ''cache_creation_input_tokens'', ''cache_read_input_tokens'']
      else [''input_tokens'', ''output_tokens'', ''total_tokens'', ''codex_rollout_budget_units''])"

definition usage_nested :: "bool \<Rightarrow> (string \<times> string list) list" where
  "usage_nested messages =
     (if messages
      then [(''cache_creation'', [''ephemeral_5m_input_tokens'', ''ephemeral_1h_input_tokens'']),
            (''server_tool_use'', [''web_search_requests'', ''web_fetch_requests'']), (''output_tokens_details'', [''thinking_tokens''])]
      else [(''input_tokens_details'', [''cached_tokens'', ''cache_write_tokens'']), (''output_tokens_details'', [''reasoning_tokens''])])"

definition usage_enumerated :: "bool \<Rightarrow> (string \<times> string list) list" where
  "usage_enumerated messages =
     (if messages
      then [(''service_tier'', [''standard'', ''priority'', ''batch'']), (''inference_geo'', [''us'', ''global'', ''not_available''])]
      else [])"

definition usage_nullable :: "bool \<Rightarrow> string list" where
  "usage_nullable messages = map fst (usage_nested messages)
     @ (if messages then [''cache_creation_input_tokens'', ''cache_read_input_tokens''] else [''codex_rollout_budget_units''])"

definition lookup :: "(string \<times> string list) list \<Rightarrow> pyval \<Rightarrow> string list option" where
  "lookup table k = map_option snd (List.find (\<lambda>(n, _). k = PStr (lit n)) table)"

definition usage_field :: "bool \<Rightarrow> pyval \<times> pyval \<Rightarrow> unit res" where
  "usage_field messages f =
     (case f of (k, v) \<Rightarrow>
        case lookup (usage_enumerated messages) k of
          Some names \<Rightarrow> ensure (v = PNone \<or> in_names v names) INVALID
        | None \<Rightarrow>
            if in_names k (usage_nullable messages) \<and> v = PNone then Inr ()
            else if in_names k [''codex_rollout_budget_units''] then finite_in v (\<lambda>q. 0 \<le> q)
            else case lookup (usage_nested messages) k of
              Some names \<Rightarrow> rbind (shape v names []) (\<lambda>d. ensure (list_all (\<lambda>(_, n). is_count n) d) INVALID)
            | None \<Rightarrow> ensure (is_count v) INVALID)"

definition usage_shape :: "bool \<Rightarrow> pyval \<Rightarrow> unit res" where
  "usage_shape messages v =
     rbind (shape v (usage_counts messages @ map fst (usage_nested messages @ usage_enumerated messages)) []) (\<lambda>d.
     checks (map (usage_field messages) d))"

subsection \<open>Messages\<close>

definition STOP_REASONS :: "string list" where
  "STOP_REASONS = [''end_turn'', ''tool_use'', ''max_tokens'', ''refusal'', ''pause_turn'', ''stop_sequence'',
     ''model_context_window_exceeded'']"

definition direct_caller :: "pyval \<Rightarrow> bool" where
  \<comment> \<open>\<open>caller in (None, {"type": "direct"})\<close>\<close>
  "direct_caller v \<longleftrightarrow> v = PNone \<or> v = PDict [(str ''type'', str ''direct'')]"

definition block_shape :: "json_lib \<Rightarrow> bool \<Rightarrow> pyval \<Rightarrow> pydict res" where
  \<comment> \<open>\<open>_block\<close>: the block, when it is one the contract supports\<close>
  "block_shape J start v =
     (case v of
        PDict d \<Rightarrow>
          if get d ''type'' = str ''text''
          then rbind (checks
            [rbind (shape v [''type'', ''text'', ''citations''] [''type'', ''text'']) (\<lambda>_. Inr ()),
             is_string (get d ''text''),
             ensure (empty_or_none (pd_get_or d ''citations'' (PList [])) \<and> \<not> (start \<and> get d ''text'' \<noteq> PStr [])) INVALID]) (\<lambda>_. Inr d)
          else if get d ''type'' = str ''tool_use''
          then rbind (checks
            [rbind (shape v [''type'', ''id'', ''name'', ''input'', ''caller'', ''toolset_name''] [''type'', ''id'', ''name'', ''input'']) (\<lambda>_. Inr ()),
             ensure (direct_caller (get d ''caller'') \<and> get d ''toolset_name'' = PNone) ''unsupported_provider_content'',
             is_identifier Plain_id (get d ''id''),
             is_identifier Tool_id (get d ''name''),
             (case get d ''input'' of
                PDict input \<Rightarrow>
                  if start \<and> input \<noteq> [] then Inl invalid_stream
                  else rbind (dumps_text False (jl_repr J) (PDict input)) (\<lambda>t. rbind (json_object J t) (\<lambda>_. Inr ()))
              | _ \<Rightarrow> Inl invalid_stream)]) (\<lambda>_. Inr d)
          else Inl (StreamProtocolError ''unsupported_provider_content'')
      | _ \<Rightarrow> Inl invalid_stream)"

definition stop_sequence_sent :: "pydict option \<Rightarrow> pyval \<Rightarrow> bool res" where
  \<comment> \<open>\<open>expected is not None and sequence in expected.get("stop_sequences", [])\<close>\<close>
  "stop_sequence_sent expected s =
     (case expected of
        None \<Rightarrow> Inr False
      | Some r \<Rightarrow> (case pd_get_or r ''stop_sequences'' (PList []) of
          PList xs \<Rightarrow> Inr (s \<in> set xs) | PDict d \<Rightarrow> Inr (s \<in> fst ` set d) | _ \<Rightarrow> Inl TypeError))"

definition stop_shape :: "pydict \<Rightarrow> pydict option \<Rightarrow> unit res" where
  "stop_shape d expected =
     checks
      [is_string (get d ''stop_reason''),
       ensure (in_names (get d ''stop_reason'') STOP_REASONS) INVALID,
       (if get d ''stop_reason'' = str ''stop_sequence''
        then rbind (is_string (get d ''stop_sequence'')) (\<lambda>_.
             rbind (stop_sequence_sent expected (get d ''stop_sequence'')) (\<lambda>sent. ensure sent ''provider_snapshot_mismatch''))
        else ensure (get d ''stop_sequence'' = PNone) INVALID),
       ensure (get d ''container'' = PNone) ''unsupported_provider_continuation'',
       (if get d ''stop_details'' = PNone then Inr ()
        else rbind (shape (get d ''stop_details'') [''type'', ''category'', ''explanation''] [''type'']) (\<lambda>details.
          checks
           [ensure (get d ''stop_reason'' = str ''refusal'' \<and> get details ''type'' = str ''refusal''
                    \<and> (get details ''category'' = PNone
                       \<or> in_names (get details ''category'') [''cyber'', ''bio'', ''frontier_llm'', ''reasoning_extraction'', ''general_harms''])) INVALID,
            if get details ''explanation'' = PNone then Inr () else is_string (get details ''explanation'')]))]"

fun blocks_shape :: "json_lib \<Rightarrow> pyval list \<Rightarrow> pyval list \<Rightarrow> pyval list res" where
  \<comment> \<open>the identifiers of the calls, first seen last\<close>
  "blocks_shape J calls [] = Inr calls"
| "blocks_shape J calls (b # bs) =
     rbind (block_shape J False b) (\<lambda>d.
     if get d ''type'' = str ''tool_use''
     then if get d ''id'' \<in> set calls then Inl invalid_stream else blocks_shape J (get d ''id'' # calls) bs
     else blocks_shape J calls bs)"

definition message_shape :: "json_lib \<Rightarrow> bool \<Rightarrow> int \<Rightarrow> pydict option \<Rightarrow> pyval \<Rightarrow> pydict res" where
  \<comment> \<open>\<open>_message\<close>\<close>
  "message_shape J start max_items expected v =
     rbind (shape v [''id'', ''type'', ''role'', ''model'', ''content'', ''stop_reason'', ''stop_sequence'', ''usage'', ''container'',
                     ''diagnostics'', ''stop_details''] [''id'', ''type'', ''role'', ''content'']) (\<lambda>d.
     rbind (checks
       [is_identifier Plain_id (get d ''id''),
        ensure (get d ''type'' = str ''message'' \<and> get d ''role'' = str ''assistant'') INVALID,
        (if pd_get d ''model'' = None then Inr () else is_identifier Model_id (get d ''model'')),
        (if pd_get d ''usage'' = None then Inr () else usage_shape True (get d ''usage''))]) (\<lambda>_.
     case get d ''content'' of
       PList content \<Rightarrow>
         if max_items < int (length content) then Inl (StreamProtocolError ''provider_item_limit'')
         else rbind (checks
           [ensure (\<not> (start \<and> content \<noteq> [])) INVALID,
            (if start then ensure (get d ''stop_reason'' = PNone \<and> get d ''stop_sequence'' = PNone \<and> get d ''stop_details'' = PNone) INVALID
             else stop_shape d expected),
            ensure (get d ''container'' = PNone \<and> get d ''diagnostics'' = PNone) ''unsupported_provider_content'']) (\<lambda>_.
         rbind (blocks_shape J [] content) (\<lambda>calls.
         if calls \<noteq> [] \<and> get d ''stop_reason'' \<noteq> str ''tool_use'' then Inl (StreamProtocolError ''upstream_response_failed'')
         else Inr d))
     | _ \<Rightarrow> Inl (StreamProtocolError ''provider_item_limit'')))"

end
