(* ===== verification/StreamMachine.thy ===== *)
theory StreamMachine
  imports ProviderShapes StreamTokens RegistryFacts
begin

text \<open>
  The state both stream machines share, \<open>_Machine\<close> of \<^verbatim>\<open>gateway/streaming/protocols.py\<close>, with its
  operations, and the calls of the tool registry.  The vault, the aggregate outcome and the number of
  restorations so far, which selects the clock readings, are part of the state.  A refused tool call merges
  its outcome into the aggregate where the handler of \<open>restore_stream\<close> does.
\<close>

record 'b stream_env =
  sv_tools :: "'b tool_env"
  sv_clock :: "nat \<Rightarrow> nat \<Rightarrow> clock"     \<comment> \<open>per operation, and per restoration within a tool call\<close>
  sv_bound :: bound_tools
  sv_max_items :: int
  sv_max_output :: int
  sv_expected :: "pydict option"        \<comment> \<open>\<open>expected_request\<close>\<close>

record 'b machine =
  mc_vault :: "'b vault"
  mc_outcome :: outcome
  mc_steps :: nat
  mc_started :: bool
  mc_terminal :: bool
  mc_pending :: "pydict list"
  mc_pending_bytes :: int
  mc_raw_bytes :: int
  mc_restored_bytes :: int
  mc_sequence :: int
  mc_mode :: "bool option"              \<comment> \<open>\<open>sequence_mode\<close>\<close>
  mc_sequenced :: bool
  mc_emit :: nat                        \<comment> \<open>\<open>emit_sequence\<close>\<close>
  mc_total :: int                       \<comment> \<open>\<open>total_items\<close>\<close>

definition machine_init :: "'b vault \<Rightarrow> outcome \<Rightarrow> 'b machine" where
  "machine_init v out =
     \<lparr>mc_vault = v, mc_outcome = out, mc_steps = 0, mc_started = False, mc_terminal = False, mc_pending = [],
      mc_pending_bytes = 0, mc_raw_bytes = 0, mc_restored_bytes = 0, mc_sequence = - 1, mc_mode = None,
      mc_sequenced = False, mc_emit = 0, mc_total = 0\<rparr>"

definition step_if :: "bool \<Rightarrow> string \<Rightarrow> (unit, 's) act" where
  \<comment> \<open>\<open>if not b: raise StreamProtocolError(code)\<close>\<close>
  "step_if b code = guard b (StreamProtocolError code)"

definition fail_with :: "string \<Rightarrow> ('a, 's) act" where "fail_with code = raise (StreamProtocolError code)"

definition modify :: "('s \<Rightarrow> 's) \<Rightarrow> (unit, 's) act" where "modify f s = (Inr (), f s)"

lemma step_if_Inr [simp]: "step_if b code s = (Inr x, t) \<longleftrightarrow> b \<and> t = s"
  by (simp add: step_if_def)

lemma fail_with_Inr [simp]: "\<not> (fail_with code s = (Inr x, t))"
  by (simp add: fail_with_def)

lemma modify_eq [simp]: "modify f s = (r, t) \<longleftrightarrow> r = Inr () \<and> t = f s"
  by (auto simp: modify_def)

subsection \<open>Operations\<close>

definition m_add_item :: "'b stream_env \<Rightarrow> (unit, ('b, 'z) machine_scheme) act" where
  "m_add_item V =
     bind (modify (\<lambda>st. st\<lparr>mc_total := mc_total st + 1\<rparr>)) (\<lambda>_ st.
     step_if (mc_total st \<le> sv_max_items V) ''provider_item_limit'' st)"

definition m_event :: "pydict \<Rightarrow> string list \<Rightarrow> string list \<Rightarrow> (unit, ('b, 'z) machine_scheme) act" where
  "m_event e allowed required =
     bind (lift (shape (PDict e) (allowed @ [''type'', ''sequence_number'']) (required @ [''type'']))) (\<lambda>_.
     let number = pd_get e ''sequence_number'' in
     bind (\<lambda>st. step_if (mc_mode st = None \<or> mc_mode st = Some (number \<noteq> None)) INVALID st) (\<lambda>_.
     bind (modify (\<lambda>st. st\<lparr>mc_mode := Some (number \<noteq> None)\<rparr>)) (\<lambda>_.
     bind (case number of
             None \<Rightarrow> ret ()
           | Some (PInt n) \<Rightarrow>
               bind (\<lambda>st. step_if (mc_sequence st < n) INVALID st) (\<lambda>_.
               modify (\<lambda>st. st\<lparr>mc_sequence := n, mc_sequenced := True\<rparr>))
           | Some _ \<Rightarrow> fail_with INVALID) (\<lambda>_ st.
     step_if (\<not> mc_terminal st) INVALID st))))"

definition m_count :: "'b stream_env \<Rightarrow> bool \<Rightarrow> ustr \<Rightarrow> (unit, ('b, 'z) machine_scheme) act" where
  "m_count V restored s =
     bind (lift (encoded_length s)) (\<lambda>n.
     bind (modify (\<lambda>st. if restored then st\<lparr>mc_restored_bytes := mc_restored_bytes st + int n\<rparr>
                        else st\<lparr>mc_raw_bytes := mc_raw_bytes st + int n\<rparr>)) (\<lambda>_ st.
     step_if ((if restored then mc_restored_bytes st else mc_raw_bytes st) \<le> sv_max_output V) ''provider_output_too_large'' st))"

definition m_hold :: "'b stream_env \<Rightarrow> pydict \<Rightarrow> (unit, ('b, 'z) machine_scheme) act" where
  "m_hold V e =
     bind (lift (size_of (te_json (sv_tools V)) (PDict e))) (\<lambda>n.
     bind (modify (\<lambda>st. st\<lparr>mc_pending_bytes := mc_pending_bytes st + n\<rparr>)) (\<lambda>_.
     bind (\<lambda>st. step_if (mc_pending_bytes st \<le> sv_max_output V) ''provider_output_too_large'' st) (\<lambda>_.
     modify (\<lambda>st. st\<lparr>mc_pending := mc_pending st @ [e]\<rparr>))))"

definition m_encode :: "'b stream_env \<Rightarrow> bool \<Rightarrow> pydict \<Rightarrow> (bytes, ('b, 'z) machine_scheme) act" where
  "m_encode V responses e st =
     (let numbered = responses \<and> mc_sequenced st;
          e' = (if numbered then pd_set ''sequence_number'' (PInt (int (mc_emit st))) e else e);
          st' = (if numbered then st\<lparr>mc_emit := Suc (mc_emit st)\<rparr> else st)
      in (case pd_get e' ''type'' of
            Some (PStr t) \<Rightarrow> encode_event (te_json (sv_tools V)) e' (Some t)
          | _ \<Rightarrow> Inl KeyError, st'))"

definition m_feed :: "'b stream_env \<Rightarrow> stream \<Rightarrow> ustr \<Rightarrow> bool \<Rightarrow> (ustr \<times> stream, ('b, 'z) machine_scheme) act" where
  \<comment> \<open>\<open>buffer.feed(delta, final=final)\<close>; the buffer shares the aggregate outcome\<close>
  "m_feed V buffer delta final st =
     (let T = sv_tools V in
      case stream_feed (te_vault_env T) (te_backend T) (te_ucd T) (te_ctx T) (te_prov T) (sv_max_output V)
             (sv_clock V (mc_steps st) 0) delta final (buffer\<lparr>ss_outcome := mc_outcome st\<rparr>) (mc_vault st) of
        (r, buffer', v) \<Rightarrow>
          (case r of Inl e \<Rightarrow> Inl e | Inr t \<Rightarrow> Inr (t, buffer'),
           st\<lparr>mc_vault := v, mc_outcome := ss_outcome buffer', mc_steps := Suc (mc_steps st)\<rparr>))"

definition m_restore :: "'b stream_env \<Rightarrow> ustr \<Rightarrow> int \<Rightarrow> (outcome, ('b, 'z) machine_scheme) act" where
  \<comment> \<open>\<open>self.restorer.restore(...)\<close> of a text, with a budget\<close>
  "m_restore V s budget st =
     (let T = sv_tools V in
      case restore (te_vault_env T) (te_backend T) (te_ucd T) (sv_clock V (mc_steps st) 0) (te_ctx T) s (te_prov T) budget (mc_vault st) of
        (r, v) \<Rightarrow> (r, st\<lparr>mc_vault := v, mc_steps := Suc (mc_steps st)\<rparr>))"

definition m_merge :: "outcome \<Rightarrow> (unit, ('b, 'z) machine_scheme) act" where
  "m_merge out = modify (\<lambda>st. st\<lparr>mc_outcome := outcome_merge (mc_outcome st) out\<rparr>)"

subsection \<open>Tools\<close>

definition tools_at :: "'b stream_env \<Rightarrow> nat \<Rightarrow> 'b tool_env" where
  \<comment> \<open>the environment of the tool call that is the \<open>n\<close>-th operation\<close>
  "tools_at V n = (sv_tools V)\<lparr>te_clock := sv_clock V n\<rparr>"

definition m_restore_tool :: "'b stream_env \<Rightarrow> ustr \<Rightarrow> ustr \<Rightarrow> bool \<Rightarrow> (ustr \<times> outcome, ('b, 'z) machine_scheme) act" where
  \<comment> \<open>\<open>_restore_tool\<close>: whatever the registry raises becomes one refusal\<close>
  "m_restore_tool V name arguments custom st =
     (case bound_restore (tools_at V (mc_steps st)) (sv_bound V) custom name arguments (mc_vault st) of
        (r, v) \<Rightarrow>
          let st' = st\<lparr>mc_vault := v, mc_steps := Suc (mc_steps st)\<rparr>
          in (case r of
                Done out outcome \<Rightarrow> (Inr (out, outcome), st')
              | Refused code outcome \<Rightarrow>
                  (Inl (StreamProtocolError ''tool_restoration_failed''), st'\<lparr>mc_outcome := outcome_merge (mc_outcome st') outcome\<rparr>)
              | Raises e \<Rightarrow> (Inl (StreamProtocolError ''tool_restoration_failed''), st')))"

definition m_validate_batch :: "'b stream_env \<Rightarrow> (ustr \<times> ustr \<times> bool) list \<Rightarrow> (unit, ('b, 'z) machine_scheme) act" where
  \<comment> \<open>\<open>_validate_batch\<close>\<close>
  "m_validate_batch V calls =
     (case validate_batch (sv_bound V) calls of Inr _ \<Rightarrow> ret () | Inl _ \<Rightarrow> fail_with ''tool_restoration_failed'')"

text \<open>What a released tool call is: the registry restored these arguments and returned these.\<close>

definition tool_released :: "'b stream_env \<Rightarrow> ustr \<Rightarrow> bool \<Rightarrow> ustr \<Rightarrow> ustr \<Rightarrow> bool" where
  "tool_released V name custom arguments out \<longleftrightarrow>
     (\<exists>n v v' outcome. bound_restore (tools_at V n) (sv_bound V) custom name arguments v = (Done out outcome, v'))"

lemma m_restore_tool_Inr:
  "m_restore_tool V name arguments custom st = (Inr (out, outcome), st') \<Longrightarrow> tool_released V name custom arguments out"
  unfolding m_restore_tool_def tool_released_def Let_def
  by (auto split: prod.splits tool_result.splits)

lemma m_validate_batch_Inr [simp]:
  "m_validate_batch V calls s = (Inr x, t) \<longleftrightarrow> validate_batch (sv_bound V) calls = Inr () \<and> t = s"
  by (auto simp: m_validate_batch_def split: sum.splits)

end
