(* ===== verification/MessagesStream.thy ===== *)
theory MessagesStream
  imports StreamMachine
begin

text \<open>
  The state machine of the Messages stream, \<open>_Messages\<close> of \<^verbatim>\<open>gateway/streaming/protocols.py\<close>.  A block keeps
  what the provider sent and the buffer of its text; the events of tool calls are held until
  the whole stream has succeeded.
\<close>

record stream_block =
  mb_raw :: pydict
  mb_done :: bool
  mb_chunks :: "ustr list"
  mb_buffer :: stream
  mb_restored :: "ustr option"

record 'b messages_machine = "'b machine" +
  mm_blocks :: "stream_block list"
  mm_calls :: "pyval list"
  mm_done :: bool                  \<comment> \<open>\<open>message_done\<close>\<close>
  mm_delta :: "pydict option"      \<comment> \<open>\<open>message_delta\<close>\<close>

type_synonym ('a, 'b) messages_run = "('a, 'b messages_machine) act"

definition messages_init :: "'b vault \<Rightarrow> outcome \<Rightarrow> 'b messages_machine" where
  "messages_init v out = machine.extend (machine_init v out)
     \<lparr>mm_blocks = [], mm_calls = [], mm_done = False, mm_delta = None\<rparr>"

definition is_call :: "stream_block \<Rightarrow> bool" where "is_call b \<longleftrightarrow> get (mb_raw b) ''type'' = str ''tool_use''"

definition block_arguments :: "stream_block \<Rightarrow> ustr" where
  \<comment> \<open>\<open>"".join(block["argument_chunks"]) or "{}"\<close>\<close>
  "block_arguments b = (let s = concat (mb_chunks b) in if s = [] then [123, 125] else s)"

definition name_of :: "pydict \<Rightarrow> ustr" where "name_of d = key_text (get d ''name'')"

definition mm_located :: "'b stream_env \<Rightarrow> pydict \<Rightarrow> (nat \<times> stream_block, 'b) messages_run" where
  "mm_located V e =
     bind (lift (stream_index (sv_max_items V) (get e ''index''))) (\<lambda>i st.
     if length (mm_blocks st) \<le> i \<or> mb_done (mm_blocks st ! i) then fail_with INVALID st
     else ret (i, mm_blocks st ! i) st)"

definition mm_put :: "nat \<Rightarrow> stream_block \<Rightarrow> (unit, 'b) messages_run" where
  "mm_put i b = modify (\<lambda>st. st\<lparr>mm_blocks := (mm_blocks st)[i := b]\<rparr>)"

subsection \<open>Release\<close>

definition mm_restore_call :: "'b stream_env \<Rightarrow> nat \<Rightarrow> (unit, 'b) messages_run" where
  "mm_restore_call V i st =
     (let b = mm_blocks st ! i in
      if \<not> is_call b then ret () st
      else bind (lift (json_object (te_json (sv_tools V)) (block_arguments b))) (\<lambda>_.
           bind (m_restore_tool V (name_of (mb_raw b)) (block_arguments b) False) (\<lambda>(out, outcome).
           bind (mm_put i (b\<lparr>mb_restored := Some out\<rparr>)) (\<lambda>_.
           bind (lift (json_object (te_json (sv_tools V)) out)) (\<lambda>_.
           bind (m_count V True out) (\<lambda>_. m_merge outcome))))) st)"

fun mm_restore_calls :: "'b stream_env \<Rightarrow> nat list \<Rightarrow> (unit, 'b) messages_run" where
  "mm_restore_calls V [] = ret ()"
| "mm_restore_calls V (i # is) = bind (mm_restore_call V i) (\<lambda>_. mm_restore_calls V is)"

definition input_delta :: "pyval \<Rightarrow> ustr \<Rightarrow> pydict" where
  "input_delta i s =
     [(str ''type'', str ''content_block_delta''), (str ''index'', i),
      (str ''delta'', PDict [(str ''type'', str ''input_json_delta''), (str ''partial_json'', PStr s)])]"

definition event_index :: "string \<Rightarrow> pydict \<Rightarrow> nat" where
  "event_index k e = (case get e k of PInt i \<Rightarrow> nat i | _ \<Rightarrow> 0)"

definition with_delta :: "string \<Rightarrow> ustr \<Rightarrow> pydict \<Rightarrow> pydict" where
  \<comment> \<open>\<open>event["delta"][k] = s\<close>\<close>
  "with_delta k s e = (case get e ''delta'' of PDict d \<Rightarrow> pd_set ''delta'' (PDict (pd_set k (PStr s) d)) e | _ \<Rightarrow> e)"

definition restored_of :: "stream_block list \<Rightarrow> nat \<Rightarrow> ustr" where
  "restored_of blocks i = (case mb_restored (blocks ! i) of Some s \<Rightarrow> s | None \<Rightarrow> [])"

fun mm_released :: "stream_block list \<Rightarrow> nat list \<Rightarrow> pydict list \<Rightarrow> pydict list" where
  \<comment> \<open>the held events with the restored arguments in one delta per call\<close>
  "mm_released blocks sent [] = []"
| "mm_released blocks sent (e # es) =
     (let i = event_index ''index'' e; s = restored_of blocks i in
      if get e ''type'' = str ''content_block_delta''
      then if i \<in> set sent then mm_released blocks sent es
           else with_delta ''partial_json'' s e # mm_released blocks (i # sent) es
      else if get e ''type'' = str ''content_block_stop'' \<and> i \<notin> set sent
      then input_delta (get e ''index'') s # e # mm_released blocks (i # sent) es
      else e # mm_released blocks sent es)"

definition mm_calls_of :: "stream_block list \<Rightarrow> (ustr \<times> ustr \<times> bool) list" where
  "mm_calls_of blocks = map (\<lambda>b. (name_of (mb_raw b), block_arguments b, False)) (filter is_call blocks)"

definition mm_release :: "'b stream_env \<Rightarrow> (pydict list, 'b) messages_run" where
  "mm_release V st =
     bind (m_validate_batch V (mm_calls_of (mm_blocks st))) (\<lambda>_.
     bind (mm_restore_calls V [0..<length (mm_blocks st)]) (\<lambda>_ st.
     ret (mm_released (mm_blocks st) [] (mc_pending st)) st)) st"

subsection \<open>Events\<close>

definition mm_start :: "'b stream_env \<Rightarrow> pydict \<Rightarrow> (pydict list, 'b) messages_run" where
  "mm_start V e =
     bind (m_event e [''message''] [''message'']) (\<lambda>_.
     bind (\<lambda>st. step_if (\<not> mc_started st) INVALID st) (\<lambda>_.
     bind (lift (message_shape (te_json (sv_tools V)) True (sv_max_items V) (sv_expected V) (get e ''message''))) (\<lambda>_.
     bind (modify (\<lambda>st. st\<lparr>mc_started := True\<rparr>)) (\<lambda>_. ret [e]))))"

definition mm_new_block :: "pydict \<Rightarrow> stream_block" where
  "mm_new_block d = \<lparr>mb_raw = d, mb_done = False, mb_chunks = [], mb_buffer = stream_init, mb_restored = None\<rparr>"

definition mm_block_start :: "'b stream_env \<Rightarrow> pydict \<Rightarrow> (pydict list, 'b) messages_run" where
  "mm_block_start V e =
     bind (m_event e [''index'', ''content_block''] [''index'', ''content_block'']) (\<lambda>_.
     bind (lift (stream_index (sv_max_items V) (get e ''index''))) (\<lambda>i.
     bind (lift (block_shape (te_json (sv_tools V)) True (get e ''content_block''))) (\<lambda>d.
     let call = get d ''type'' = str ''tool_use'' in
     bind (\<lambda>st. step_if (i = length (mm_blocks st)) INVALID st) (\<lambda>_.
     bind (if call
           then bind (\<lambda>st. step_if (get d ''id'' \<notin> set (mm_calls st)) INVALID st) (\<lambda>_.
                modify (\<lambda>st. st\<lparr>mm_calls := get d ''id'' # mm_calls st\<rparr>))
           else ret ()) (\<lambda>_.
     bind (modify (\<lambda>st. st\<lparr>mm_blocks := mm_blocks st @ [mm_new_block d]\<rparr>)) (\<lambda>_.
     bind (m_add_item V) (\<lambda>_.
     if call then bind (m_hold V e) (\<lambda>_. ret []) else ret [e])))))))"

definition mm_text_delta :: "'b stream_env \<Rightarrow> pydict \<Rightarrow> nat \<Rightarrow> stream_block \<Rightarrow> (pydict list, 'b) messages_run" where
  "mm_text_delta V e i b =
     bind (lift (shape (get e ''delta'') [''type'', ''text''] [''type'', ''text''])) (\<lambda>delta.
     bind (step_if (get delta ''type'' = str ''text_delta'') INVALID) (\<lambda>_.
     bind (lift (stream_string (get delta ''text''))) (\<lambda>s.
     bind (m_count V False s) (\<lambda>_.
     bind (m_feed V (mb_buffer b) s False) (\<lambda>(restored, buffer).
     bind (mm_put i (b\<lparr>mb_buffer := buffer\<rparr>)) (\<lambda>_.
     bind (m_count V True restored) (\<lambda>_.
     ret (if restored = [] then [] else [with_delta ''text'' restored e]))))))))"

definition mm_input_delta :: "'b stream_env \<Rightarrow> pydict \<Rightarrow> nat \<Rightarrow> stream_block \<Rightarrow> (pydict list, 'b) messages_run" where
  "mm_input_delta V e i b =
     bind (lift (shape (get e ''delta'') [''type'', ''partial_json''] [''type'', ''partial_json''])) (\<lambda>delta.
     bind (step_if (get delta ''type'' = str ''input_json_delta'') INVALID) (\<lambda>_.
     bind (lift (stream_string (get delta ''partial_json''))) (\<lambda>s.
     bind (m_count V False s) (\<lambda>_.
     bind (mm_put i (b\<lparr>mb_chunks := mb_chunks b @ [s]\<rparr>)) (\<lambda>_.
     bind (m_hold V e) (\<lambda>_. ret []))))))"

definition mm_block_delta :: "'b stream_env \<Rightarrow> pydict \<Rightarrow> (pydict list, 'b) messages_run" where
  "mm_block_delta V e =
     bind (m_event e [''index'', ''delta''] [''index'', ''delta'']) (\<lambda>_.
     bind (mm_located V e) (\<lambda>(i, b).
     if get (mb_raw b) ''type'' = str ''text'' then mm_text_delta V e i b else mm_input_delta V e i b))"

definition text_delta :: "pyval \<Rightarrow> ustr \<Rightarrow> pydict" where
  "text_delta i s =
     [(str ''type'', str ''content_block_delta''), (str ''index'', i),
      (str ''delta'', PDict [(str ''type'', str ''text_delta''), (str ''text'', PStr s)])]"

definition mm_text_stop :: "'b stream_env \<Rightarrow> pydict \<Rightarrow> nat \<Rightarrow> stream_block \<Rightarrow> (pydict list, 'b) messages_run" where
  "mm_text_stop V e i b =
     bind (m_feed V (mb_buffer b) [] True) (\<lambda>(restored, buffer).
     bind (mm_put i (b\<lparr>mb_buffer := buffer\<rparr>)) (\<lambda>_.
     bind (m_count V True restored) (\<lambda>_.
     ret ((if restored = [] then [] else [text_delta (get e ''index'') restored]) @ [e]))))"

definition mm_stop_at :: "'b stream_env \<Rightarrow> pydict \<Rightarrow> nat \<Rightarrow> stream_block \<Rightarrow> (pydict list, 'b) messages_run" where
  "mm_stop_at V e i b =
     bind (mm_put i b) (\<lambda>_. if is_call b then bind (m_hold V e) (\<lambda>_. ret []) else mm_text_stop V e i b)"

definition mm_block_stop :: "'b stream_env \<Rightarrow> pydict \<Rightarrow> (pydict list, 'b) messages_run" where
  "mm_block_stop V e =
     bind (m_event e [''index''] [''index'']) (\<lambda>_.
     bind (mm_located V e) (\<lambda>(i, b). mm_stop_at V e i (b\<lparr>mb_done := True\<rparr>)))"

definition mm_explanation :: "'b stream_env \<Rightarrow> pydict \<Rightarrow> (pydict, 'b) messages_run" where
  \<comment> \<open>the event with the explanation of a refusal restored\<close>
  "mm_explanation V e =
     (case get e ''delta'' of
        PDict delta \<Rightarrow> (case get delta ''stop_details'' of
          PDict details \<Rightarrow> (case get details ''explanation'' of
            PStr s \<Rightarrow>
              bind (\<lambda>st. m_restore V s (sv_max_output V - mc_restored_bytes st) st) (\<lambda>out.
              bind (m_count V True (ro_text out)) (\<lambda>_.
              bind (m_merge out) (\<lambda>_.
              ret (pd_set ''delta'' (PDict (pd_set ''stop_details''
                     (PDict (pd_set ''explanation'' (PStr (ro_text out)) details)) delta)) e))))
          | _ \<Rightarrow> ret e)
        | _ \<Rightarrow> ret e)
      | _ \<Rightarrow> ret e)"

definition mm_message_delta :: "'b stream_env \<Rightarrow> pydict \<Rightarrow> (pydict list, 'b) messages_run" where
  "mm_message_delta V e =
     bind (m_event e [''delta'', ''usage''] [''delta'', ''usage'']) (\<lambda>_.
     bind (lift (shape (get e ''delta'') [''stop_reason'', ''stop_sequence'', ''container'', ''stop_details''] [''stop_reason''])) (\<lambda>delta.
     bind (lift (stop_shape delta (sv_expected V))) (\<lambda>_.
     bind (lift (usage_shape True (get e ''usage''))) (\<lambda>_.
     bind (\<lambda>st. step_if (mm_delta st = None \<and> list_all mb_done (mm_blocks st)) INVALID st) (\<lambda>_.
     bind (\<lambda>st. step_if (mm_calls st = [] \<or> get delta ''stop_reason'' = str ''tool_use'') ''upstream_response_failed'' st) (\<lambda>_.
     bind (mm_explanation V e) (\<lambda>e'.
     bind (modify (\<lambda>st. st\<lparr>mm_delta := Some e', mm_done := True\<rparr>)) (\<lambda>_. ret []))))))))"

definition mm_handle :: "'b stream_env \<Rightarrow> pydict \<Rightarrow> (pydict list, 'b) messages_run" where
  "mm_handle V e =
     (let kind = get e ''type'' in
      if kind = str ''error'' then fail_with ''upstream_response_failed''
      else if kind = str ''ping'' then bind (m_event e [] []) (\<lambda>_. ret [e])
      else if kind = str ''message_start'' then mm_start V e
      else bind (\<lambda>st. step_if (mc_started st \<and> \<not> mm_done st) INVALID st) (\<lambda>_.
        if kind = str ''content_block_start'' then mm_block_start V e
        else if kind = str ''content_block_delta'' then mm_block_delta V e
        else if kind = str ''content_block_stop'' then mm_block_stop V e
        else if kind = str ''message_delta'' then mm_message_delta V e
        else if kind = str ''message_stop'' then fail_with INVALID
        else fail_with ''unsupported_provider_event''))"

definition mm_complete :: "'b stream_env \<Rightarrow> pydict \<Rightarrow> (pydict list, 'b) messages_run" where
  "mm_complete V e =
     bind (m_event e [] []) (\<lambda>_.
     bind (\<lambda>st. step_if (mc_started st \<and> mm_done st \<and> mm_delta st \<noteq> None) ''truncated_provider_stream'' st) (\<lambda>_.
     bind (mm_release V) (\<lambda>released.
     bind (modify (\<lambda>st. st\<lparr>mc_terminal := True\<rparr>)) (\<lambda>_ st.
     ret (released @ [the (mm_delta st), e]) st))))"

definition mm_dispatch :: "'b stream_env \<Rightarrow> pydict \<Rightarrow> (pydict list, 'b) messages_run" where
  \<comment> \<open>what \<open>restore_stream\<close> calls for an event\<close>
  "mm_dispatch V e = (if get e ''type'' = str ''message_stop'' then mm_complete V e else mm_handle V e)"

end
