(* ===== verification/Responses.thy ===== *)
theory Responses
  imports Messages Patches Shell
begin

text \<open>
  The native Responses contract, \<^verbatim>\<open>gateway/protocols/responses.py\<close>: as for Messages, a request is rebuilt
  from the fields the contract supports, with its strings classified by the builder.  The snapshot of the
  client's turn, a JSON text inside a field, is rebuilt and stays structural.
\<close>

subsection \<open>Fields\<close>

definition RESPONSES_FIELDS :: "string list" where
  "RESPONSES_FIELDS = [''model'', ''input'', ''instructions'', ''stream'', ''store'', ''background'', ''tools'', ''tool_choice'',
     ''parallel_tool_calls'', ''max_output_tokens'', ''max_tool_calls'', ''temperature'', ''top_p'', ''truncation'', ''text'',
     ''reasoning'', ''service_tier'', ''include'', ''prompt_cache_key'', ''client_metadata'']"

definition RESPONSES_OPAQUE :: "string list" where
  "RESPONSES_OPAQUE = [''previous_response_id'', ''metadata'', ''prompt'', ''prompt_cache_retention'', ''user'',
     ''safety_identifier'', ''conversation'']"

definition METADATA_IDS :: "string list" where
  "METADATA_IDS = [''x-codex-installation-id'', ''session_id'', ''thread_id'', ''x-codex-window-id'', ''turn_id'',
     ''x-codex-parent-thread-id'', ''parent_turn_id'', ''root_turn_id'', ''x-openai-subagent'']"

definition TURN_IDS :: "string list" where
  "TURN_IDS = [''installation_id'', ''session_id'', ''thread_id'', ''turn_id'', ''window_id'', ''context_window_id'',
     ''forked_from_thread_id'', ''parent_thread_id'', ''parent_turn_id'', ''root_turn_id'']"

definition TURN_TEXT :: "string list" where
  "TURN_TEXT = [''agent_name'', ''subagent_kind'', ''thread_source'', ''turn_trigger'', ''sandbox'', ''sandbox_mode'']"

definition TURN_COUNTS :: "string list" where
  "TURN_COUNTS = [''window_number'', ''forked_from_ordinal_exclusive'', ''turn_started_at_unix_ms'']"

definition TURN_FLAGS :: "string list" where
  "TURN_FLAGS = [''auto_review_enabled'', ''node_repl_auto_review_required'', ''node_repl_disabled'',
     ''history_ingest_requested'', ''analytics_enabled'']"

definition TURN_FIELDS :: "string list" where
  "TURN_FIELDS = TURN_IDS @ TURN_TEXT @ TURN_COUNTS @ TURN_FLAGS
     @ [''request_kind'', ''compaction'', ''workspaces'', ''tool_namespaces_info'', ''model'', ''reasoning_effort'']"

definition REASONING_EFFORTS :: "string list" where
  "REASONING_EFFORTS = [''none'', ''minimal'', ''low'', ''medium'', ''high'', ''xhigh'', ''max'']"

definition as_str :: "ustr res \<Rightarrow> pyval res" where "as_str r = rbind r (\<lambda>s. Inr (PStr s))"
definition as_bool :: "bool res \<Rightarrow> pyval res" where "as_bool r = rbind r (\<lambda>b. Inr (PBool b))"
definition as_int :: "int res \<Rightarrow> pyval res" where "as_int r = rbind r (\<lambda>i. Inr (PInt i))"

definition bounded_text :: "pyval \<Rightarrow> nat \<Rightarrow> ustr res" where
  "bounded_text v limit = rbind (py_string v) (\<lambda>s. if limit < length s then reject ''request_too_large'' else Inr s)"

definition window_id :: "pyval \<Rightarrow> ustr res" where
  "window_id v = rbind (py_string v) (\<lambda>s.
     case split_on 58 s of
       [i, n] \<Rightarrow>
         if identifier_ok Plain_id i \<and> n \<noteq> [] \<and> length n \<le> 10 \<and> list_all ascii_digit n \<and> int (undec n) \<le> 2 ^ 31 - 1
         then Inr s else reject ''invalid_identifier''
     | _ \<Rightarrow> reject ''invalid_identifier'')"

fun each_field :: "(pyval \<Rightarrow> pyval \<Rightarrow> pyval res) \<Rightarrow> pydict \<Rightarrow> pydict res" where
  \<comment> \<open>\<open>{k: f(k, v) for k, v in d.items()}\<close>\<close>
  "each_field f [] = Inr []"
| "each_field f ((k, v) # d) = rbind (f k v) (\<lambda>x. rbind (each_field f d) (\<lambda>r. Inr ((k, x) # r)))"

definition dict_of :: "pyval \<Rightarrow> pydict res" where
  \<comment> \<open>\<open>if not isinstance(v, dict): reject()\<close>\<close>
  "dict_of v = (case v of PDict d \<Rightarrow> Inr d | _ \<Rightarrow> reject ''invalid_request'')"

definition field_res :: "pydict \<Rightarrow> string \<Rightarrow> (pyval \<Rightarrow> pyval res) \<Rightarrow> pydict \<Rightarrow> pydict res" where
  \<comment> \<open>\<open>if k in source: result[k] = f(source[k])\<close>\<close>
  "field_res source k f result = (case pd_get source k of None \<Rightarrow> Inr result | Some v \<Rightarrow> rbind (f v) (\<lambda>x. Inr (pd_set k x result)))"

subsection \<open>The snapshot of a turn\<close>

definition turn_compaction :: "pyval \<Rightarrow> pyval res" where
  "turn_compaction v =
     (let names = [''trigger'', ''reason'', ''implementation'', ''phase'', ''strategy''] in
      rbind (object_fields v names names) (\<lambda>meta.
      rbind (py_choice (get meta ''trigger'') [''manual'', ''auto'']) (\<lambda>trigger.
      rbind (py_choice (get meta ''reason'') [''user_requested'', ''context_limit'', ''model_downshift'', ''comp_hash_changed'']) (\<lambda>reason.
      rbind (py_choice (get meta ''implementation'') [''responses'']) (\<lambda>implementation.
      rbind (py_choice (get meta ''phase'') [''standalone_turn'', ''pre_turn'', ''mid_turn'', ''post_turn'']) (\<lambda>phase.
      rbind (py_choice (get meta ''strategy'') [''memento'', ''prefix_compaction'']) (\<lambda>strategy.
      Inr (PDict [(str ''trigger'', PStr trigger), (str ''reason'', PStr reason), (str ''implementation'', PStr implementation),
                  (str ''phase'', PStr phase), (str ''strategy'', PStr strategy)]))))))))"

definition turn_workspace :: "pyval \<Rightarrow> pyval \<Rightarrow> pyval res" where
  "turn_workspace name v =
     rbind (bounded_text name 4096) (\<lambda>_.
     rbind (object_fields v [''associated_remote_urls'', ''latest_git_commit_hash'', ''has_changes''] []) (\<lambda>details.
     rbind (field_res details ''associated_remote_urls''
       (\<lambda>remotes. rbind (dict_of remotes) (\<lambda>d.
          rbind (each_field (\<lambda>n url. rbind (bounded_text n 128) (\<lambda>_. as_str (bounded_text url 4096))) d) (\<lambda>r. Inr (PDict r)))) []) (\<lambda>r.
     rbind (field_res details ''latest_git_commit_hash'' (\<lambda>h. as_str (py_identifier h Plain_id)) r) (\<lambda>r.
     rbind (field_res details ''has_changes'' (\<lambda>b. as_bool (py_boolean b)) r) (\<lambda>r. Inr (PDict r))))))"

definition turn_owner :: "pyval \<Rightarrow> pyval res" where
  "turn_owner v =
     rbind (object_fields v [''kind'', ''server_name''] [''kind'']) (\<lambda>owner.
     rbind (py_choice (get owner ''kind'') [''harness'', ''mcp'']) (\<lambda>kind.
     if kind = lit ''mcp''
     then rbind (object_fields v [''kind'', ''server_name''] [''kind'', ''server_name'']) (\<lambda>_.
          rbind (py_identifier (get owner ''server_name'') Plain_id) (\<lambda>s.
          Inr (PDict [(str ''kind'', str ''mcp''), (str ''server_name'', PStr s)])))
     else if pd_get owner ''server_name'' \<noteq> None then reject ''invalid_request''
     else Inr (PDict [(str ''kind'', str ''harness'')])))"

definition turn_function :: "pyval \<Rightarrow> pyval \<Rightarrow> pyval res" where
  "turn_function name v =
     (let names = [''name'', ''direct'', ''code_mode_name'', ''deferred'', ''source''] in
      rbind (py_identifier name Tool_id) (\<lambda>_.
      rbind (object_fields v names names) (\<lambda>f.
      rbind (turn_owner (get f ''source'')) (\<lambda>owner.
      rbind (py_identifier (get f ''name'') Tool_id) (\<lambda>n.
      rbind (py_boolean (get f ''direct'')) (\<lambda>direct.
      rbind (if get f ''code_mode_name'' = PNone then Inr PNone else as_str (py_identifier (get f ''code_mode_name'') Model_id)) (\<lambda>code.
      rbind (py_boolean (get f ''deferred'')) (\<lambda>deferred.
      Inr (PDict [(str ''name'', PStr n), (str ''direct'', PBool direct), (str ''code_mode_name'', code),
                  (str ''deferred'', PBool deferred), (str ''source'', owner)])))))))))"

definition turn_namespace :: "pyval \<Rightarrow> pyval \<Rightarrow> pyval res" where
  "turn_namespace name v =
     rbind (py_identifier name Tool_id) (\<lambda>_.
     rbind (object_fields v [''name'', ''functions''] [''name'', ''functions'']) (\<lambda>details.
     rbind (dict_of (get details ''functions'')) (\<lambda>functions.
     rbind (each_field turn_function functions) (\<lambda>entries.
     rbind (py_identifier (get details ''name'') Tool_id) (\<lambda>n.
     Inr (PDict [(str ''name'', PStr n), (str ''functions'', PDict entries)]))))))"

definition turn_field :: "pyval \<Rightarrow> pyval \<Rightarrow> pyval res" where
  "turn_field k v =
     (if v = PNone then reject ''invalid_request''
      else if in_names k TURN_IDS
      then as_str (if in_names k [''window_id''] then window_id v else py_identifier v Plain_id)
      else if in_names k [''model''] then as_str (py_identifier v Model_id)
      else if in_names k [''reasoning_effort''] then as_str (py_choice v REASONING_EFFORTS)
      else if in_names k TURN_TEXT then as_str (bounded_text v 128)
      else if in_names k TURN_COUNTS then as_int (py_integer v 0 (2 ^ 63 - 1))
      else if in_names k TURN_FLAGS then as_bool (py_boolean v)
      else if in_names k [''request_kind''] then as_str (py_choice v [''turn'', ''prewarm'', ''compaction'', ''memory''])
      else if in_names k [''compaction''] then turn_compaction v
      else if in_names k [''workspaces''] then rbind (dict_of v) (\<lambda>d. rbind (each_field turn_workspace d) (\<lambda>r. Inr (PDict r)))
      else rbind (dict_of v) (\<lambda>d. rbind (each_field turn_namespace d) (\<lambda>r. Inr (PDict r))))"

definition turn_metadata :: "pyval \<Rightarrow> pydict res" where
  "turn_metadata v = rbind (object_fields v TURN_FIELDS []) (each_field turn_field)"

definition client_field :: "json_lib \<Rightarrow> pyval \<Rightarrow> pyval \<Rightarrow> pyval building" where
  "client_field J k v =
     (if in_names k METADATA_IDS
      then blift (as_str (if in_names k [''x-codex-window-id''] then window_id v else py_identifier v Plain_id))
      else bbind (blift (bounded_text v (64 * 1024))) (\<lambda>raw.
           bbind (blift (rbind (loads_text J raw) turn_metadata)) (\<lambda>rebuilt.
           bbind (blift (json_dumps (jl_repr J) (PDict rebuilt))) (\<lambda>t.
           bbind (encoded_object J (PStr t) [key ''client_metadata'', Key (key_text k)] True
                    ((\<lambda>f. [key f]) ` set TURN_COUNTS)) (\<lambda>s. bret (PStr s))))))"

fun client_fields :: "json_lib \<Rightarrow> pydict \<Rightarrow> pydict building" where
  "client_fields J [] = bret []"
| "client_fields J ((k, v) # d) = bbind (client_field J k v) (\<lambda>x. bbind (client_fields J d) (\<lambda>r. bret ((k, x) # r)))"

definition client_metadata :: "json_lib \<Rightarrow> pyval \<Rightarrow> pyval building" where
  "client_metadata J v =
     bbind (blift (object_fields v (METADATA_IDS @ [''x-codex-turn-metadata'']) [])) (\<lambda>source.
     bbind (client_fields J source) (\<lambda>r. bret (PDict r)))"


subsection \<open>Input items\<close>

definition no_annotations :: "ustr \<Rightarrow> pyval \<Rightarrow> pyval res" where
  "no_annotations kind v =
     (if kind \<noteq> lit ''output_text'' then reject ''uninspectable_field''
      else rbind (py_array v False) (\<lambda>xs. if xs \<noteq> [] then reject ''uninspectable_field'' else Inr (PList [])))"

definition rs_plain_block :: "ustr \<Rightarrow> pyval \<Rightarrow> path \<Rightarrow> pyval building" where
  "rs_plain_block kind v p =
     bbind (blift (object_fields v [''type'', ''text'', ''annotations''] [''type'', ''text''])) (\<lambda>source.
     bbind (text_at (get source ''text'') (p @ [key ''text''])) (\<lambda>s.
     bbind (blift (field_res source ''annotations'' (no_annotations kind) [(str ''type'', PStr kind), (str ''text'', s)])) (\<lambda>r.
     bret (PDict r))))"

definition rs_refusal_block :: "pyval \<Rightarrow> path \<Rightarrow> pyval building" where
  "rs_refusal_block v p =
     bbind (blift (object_fields v [''type'', ''refusal''] [''type'', ''refusal''])) (\<lambda>source.
     bbind (text_at (get source ''refusal'') (p @ [key ''refusal''])) (\<lambda>s.
     bret (PDict [(str ''type'', str ''refusal''), (str ''refusal'', s)])))"

definition rs_text_block :: "ustr \<Rightarrow> pyval \<Rightarrow> path \<Rightarrow> pyval building" where
  "rs_text_block role v p =
     (case v of
        PDict d \<Rightarrow>
          (case get d ''type'' of
             PStr kind \<Rightarrow>
               if one_of kind [''input_image'', ''input_file'', ''image'', ''file''] then blift (reject ''uninspectable_field'')
               else if kind = lit ''input_text'' \<or> (kind = lit ''output_text'' \<and> role = lit ''assistant'') then rs_plain_block kind v p
               else if kind = lit ''refusal'' \<and> role = lit ''assistant'' then rs_refusal_block v p
               else blift (reject ''uninspectable_field'')
           | _ \<Rightarrow> blift (reject ''invalid_request''))
      | _ \<Rightarrow> blift (reject ''invalid_request''))"

definition rs_texts :: "ustr \<Rightarrow> pyval \<Rightarrow> path \<Rightarrow> pyval building" where
  \<comment> \<open>a text, or a list of text blocks\<close>
  "rs_texts role c p =
     (case c of
        PStr s \<Rightarrow> text_at c p
      | _ \<Rightarrow> bbind (blift (py_array c True)) (\<lambda>xs.
            bbind (each (\<lambda>n x. rs_text_block role x (p @ [Idx n])) 0 xs) (\<lambda>ys. bret (PList ys))))"

definition rs_tail :: "pydict \<Rightarrow> pydict \<Rightarrow> pydict res" where
  \<comment> \<open>the identifier and the status of an item; the flag of the reasoning item is in its own branch\<close>
  "rs_tail source r =
     rbind (field_res source ''id'' (\<lambda>i. as_str (py_identifier i Plain_id)) r) (\<lambda>r.
     field_res source ''status'' (\<lambda>s. as_str (py_choice s [''completed'', ''incomplete''])) r)"

definition rs_message :: "pyval \<Rightarrow> path \<Rightarrow> pyval building" where
  "rs_message v p =
     bbind (blift (object_fields v [''type'', ''role'', ''content'', ''id'', ''status'', ''phase''] [''role'', ''content''])) (\<lambda>source.
     bbind (blift (py_choice (get source ''role'') [''developer'', ''system'', ''user'', ''assistant''])) (\<lambda>role.
     bbind (rs_texts role (get source ''content'') (p @ [key ''content''])) (\<lambda>content.
     bbind (blift (field_res source ''type'' (\<lambda>_. Inr (str ''message'')) [(str ''role'', PStr role), (str ''content'', content)])) (\<lambda>r.
     bbind (blift (field_res source ''phase'' (\<lambda>phase.
        if role \<noteq> lit ''assistant'' then reject ''invalid_request''
        else if phase = PNone then Inr PNone else as_str (py_choice phase [''commentary'', ''final_answer''])) r)) (\<lambda>r.
     bbind (blift (rs_tail source r)) (\<lambda>r. bret (PDict r)))))))"

definition rs_placeholder :: "pydict \<Rightarrow> pydict res" where
  "rs_placeholder source =
     rbind (field_res source ''content'' Inr [(str ''type'', str ''reasoning''), (str ''summary'', PList [])]) (\<lambda>r.
     rbind (field_res source ''encrypted_content'' Inr r) (\<lambda>r.
     if pd_get source ''status'' = Some PNone
     then rs_tail (AList.delete (str ''status'') source) (pd_set ''status'' PNone r)
     else rs_tail source r))"

definition rs_reasoning :: "pyval \<Rightarrow> pyval building" where
  "rs_reasoning v =
     blift
      (rbind (object_fields v [''type'', ''id'', ''summary'', ''content'', ''encrypted_content'', ''status''] [''type'', ''summary'']) (\<lambda>source.
       rbind (py_array (get source ''summary'') False) (\<lambda>summary.
       if summary \<noteq> [] \<or> \<not> (get source ''content'' = PNone \<or> get source ''content'' = PList []) \<or> get source ''encrypted_content'' \<noteq> PNone
       then reject ''uninspectable_field''
       else rbind (rs_placeholder source) (\<lambda>r. Inr (PDict r)))))"

definition rs_call :: "json_lib \<Rightarrow> ustr \<Rightarrow> pyval \<Rightarrow> path \<Rightarrow> pyval building" where
  "rs_call J kind v p =
     (let function = kind = lit ''function_call''; field = (if function then ''arguments'' else ''input'') in
      bbind (blift (object_fields v [''type'', ''id'', ''call_id'', ''name'', field, ''status''] [''type'', ''call_id'', ''name'', field])) (\<lambda>source.
      bbind (blift (py_identifier (get source ''call_id'') Plain_id)) (\<lambda>c.
      bbind (blift (py_identifier (get source ''name'') Tool_id)) (\<lambda>n.
      bbind (if function then bbind (b_arguments J (get source field) (p @ [key field])) (\<lambda>s. bret (PStr s))
             else text_at (get source field) (p @ [key field])) (\<lambda>content.
      bbind (blift (rs_tail source [(str ''type'', PStr kind), (str ''call_id'', PStr c), (str ''name'', PStr n), (str field, content)])) (\<lambda>r.
      bret (PDict r)))))))"

definition rs_output :: "ustr \<Rightarrow> pyval \<Rightarrow> path \<Rightarrow> pyval building" where
  "rs_output kind v p =
     bbind (blift (object_fields v [''type'', ''id'', ''call_id'', ''output'', ''status''] [''type'', ''call_id'', ''output''])) (\<lambda>source.
     bbind (blift (py_identifier (get source ''call_id'') Plain_id)) (\<lambda>c.
     bbind (rs_texts (lit ''user'') (get source ''output'') (p @ [key ''output''])) (\<lambda>out.
     bbind (blift (rs_tail source [(str ''type'', PStr kind), (str ''call_id'', PStr c), (str ''output'', out)])) (\<lambda>r.
     bret (PDict r)))))"

definition rs_item :: "json_lib \<Rightarrow> pyval \<Rightarrow> path \<Rightarrow> pyval building" where
  "rs_item J v p =
     (case v of
        PDict d \<Rightarrow>
          (case pd_get_or d ''type'' (str ''message'') of
             PStr kind \<Rightarrow>
               if kind = lit ''message'' then rs_message v p
               else if kind = lit ''reasoning'' then rs_reasoning v
               else if one_of kind [''function_call'', ''custom_tool_call''] then rs_call J kind v p
               else if one_of kind [''function_call_output'', ''custom_tool_call_output''] then rs_output kind v p
               else blift (reject ''uninspectable_field'')
           | _ \<Rightarrow> blift (reject ''invalid_request''))
      | _ \<Rightarrow> blift (reject ''invalid_request''))"

subsection \<open>The replayed history\<close>

text \<open>The calls seen with their kind, the results seen, the item identifiers seen.\<close>

type_synonym rs_seen = "(pyval \<times> pyval) list \<times> pyval list \<times> pyval list"

definition rs_check_id :: "pyval \<Rightarrow> pyval list \<Rightarrow> pyval list res" where
  "rs_check_id v ids =
     (case v of
        PDict d \<Rightarrow> (case pd_get d ''id'' of
            None \<Rightarrow> Inr ids
          | Some i \<Rightarrow> if i \<in> set ids then reject ''invalid_history'' else Inr (i # ids))
      | _ \<Rightarrow> Inr ids)"

definition kind_of :: "pyval \<Rightarrow> pyval" where
  "kind_of v = (case v of PDict d \<Rightarrow> pd_get_or d ''type'' (str ''message'') | _ \<Rightarrow> PNone)"

definition rs_check_item :: "pyval \<Rightarrow> rs_seen \<Rightarrow> rs_seen res" where
  "rs_check_item v seen =
     (case seen of (calls, outputs, ids) \<Rightarrow>
      rbind (rs_check_id v ids) (\<lambda>ids.
      let c = block_field v ''call_id'' in
      if in_names (kind_of v) [''function_call'', ''custom_tool_call'']
      then (if map_of calls c \<noteq> None then reject ''invalid_history'' else Inr ((c, kind_of v) # calls, outputs, ids))
      else if in_names (kind_of v) [''function_call_output'', ''custom_tool_call_output'']
      then (let expected = (if kind_of v = str ''function_call_output'' then str ''function_call'' else str ''custom_tool_call'')
            in if map_of calls c \<noteq> Some expected \<or> c \<in> set outputs then reject ''invalid_history''
               else Inr (calls, c # outputs, ids))
      else Inr (calls, outputs, ids)))"

definition rs_input :: "json_lib \<Rightarrow> pyval \<Rightarrow> pyval building" where
  "rs_input J v =
     (case v of
        PStr s \<Rightarrow> text_at v [key ''input'']
      | _ \<Rightarrow> bbind (blift (py_array v True)) (\<lambda>xs.
            bbind (each (\<lambda>n x. rs_item J x [key ''input'', Idx n]) 0 xs) (\<lambda>ys.
            bbind (blift (rfold rs_check_item ys ([], [], []))) (\<lambda>_. bret (PList ys)))))"

subsection \<open>Tools and formats\<close>

definition rs_format :: "pydict \<Rightarrow> pyval \<Rightarrow> pyval res" where
  "rs_format source v =
     (if get source ''name'' \<noteq> str ''apply_patch''
      then rbind (object_fields v [''type''] [''type'']) (\<lambda>f.
           rbind (py_choice (get f ''type'') [''text'']) (\<lambda>t. Inr (PDict [(str ''type'', PStr t)])))
      else (case validate_apply_patch_format v of
          Inr f \<Rightarrow> Inr (PDict f) | Inl _ \<Rightarrow> Inl (RequestRejected 422 ''unsupported_tool_format'')))"

definition rs_defer :: "pyval \<Rightarrow> pyval res" where
  "rs_defer v = rbind (py_boolean v) (\<lambda>b. if b then reject ''unsupported_field'' else Inr (PBool False))"

definition rs_tool_tail :: "pydict \<Rightarrow> path \<Rightarrow> pydict \<Rightarrow> pyval building" where
  "rs_tool_tail source p r =
     bbind (field_if source ''description'' (\<lambda>d. text_at d (p @ [key ''description''])) r) (\<lambda>r.
     bbind (blift (field_res source ''defer_loading'' rs_defer r)) (\<lambda>r. bret (PDict r)))"

definition rs_tool :: "pyval \<Rightarrow> path \<Rightarrow> pyval building" where
  "rs_tool v p =
     (case v of
        PDict d \<Rightarrow>
          (case get d ''type'' of
             PStr kind \<Rightarrow>
               if kind = lit ''function''
               then bbind (blift (object_fields v [''type'', ''name'', ''description'', ''parameters'', ''strict'', ''defer_loading'']
                                    [''type'', ''name'', ''parameters''])) (\<lambda>source.
                    bbind (blift (py_identifier (get source ''name'') Tool_id)) (\<lambda>n.
                    bbind (json_schema (get source ''parameters'') (p @ [key ''parameters''])) (\<lambda>parameters.
                    bbind (blift (field_res source ''strict'' (\<lambda>b. as_bool (py_boolean b))
                             [(str ''type'', str ''function''), (str ''name'', PStr n), (str ''parameters'', parameters)])) (\<lambda>r.
                    rs_tool_tail source p r))))
               else if kind = lit ''custom''
               then bbind (blift (object_fields v [''type'', ''name'', ''description'', ''format'', ''defer_loading''] [''type'', ''name''])) (\<lambda>source.
                    bbind (blift (py_identifier (get source ''name'') Tool_id)) (\<lambda>n.
                    bbind (blift (field_res source ''format'' (rs_format source)
                             [(str ''type'', str ''custom''), (str ''name'', PStr n)])) (\<lambda>r.
                    rs_tool_tail source p r)))
               else blift (reject ''uninspectable_field'')
           | _ \<Rightarrow> blift (reject ''invalid_request''))
      | _ \<Rightarrow> blift (reject ''invalid_request''))"

definition rs_tools :: "pyval \<Rightarrow> pyval building" where
  "rs_tools v =
     bbind (blift (py_array v False)) (\<lambda>xs.
     bbind (each (\<lambda>n x. rs_tool x [key ''tools'', Idx n]) 0 xs) (\<lambda>ts.
     if distinct (map (\<lambda>t. block_field t ''name'') ts) then bret (PList ts) else blift (reject ''invalid_tools'')))"

definition rs_tool_choice :: "pyval \<Rightarrow> pyval res" where
  "rs_tool_choice v =
     (case v of
        PStr _ \<Rightarrow> as_str (py_choice v [''none'', ''auto'', ''required''])
      | _ \<Rightarrow>
          rbind (object_fields v [''type'', ''name''] [''type'', ''name'']) (\<lambda>source.
          rbind (py_choice (get source ''type'') [''function'', ''custom'']) (\<lambda>t.
          rbind (py_identifier (get source ''name'') Tool_id) (\<lambda>n.
          Inr (PDict [(str ''type'', PStr t), (str ''name'', PStr n)])))))"

definition rs_selected :: "pydict \<Rightarrow> pyval \<Rightarrow> pyval res" where
  "rs_selected result v =
     rbind (rs_tool_choice v) (\<lambda>c.
     case c of
       PDict _ \<Rightarrow>
         if list_ex (\<lambda>t. block_field t ''name'' = block_field c ''name'' \<and> block_field t ''type'' = block_field c ''type'')
              (py_items (pd_get_or result ''tools'' (PList [])))
         then Inr c else reject ''invalid_tools''
     | _ \<Rightarrow> Inr c)"

definition rs_output_format :: "pyval \<Rightarrow> path \<Rightarrow> pyval building" where
  "rs_output_format fmt p =
     (case fmt of
        PDict d \<Rightarrow>
          (case get d ''type'' of
             PStr kind \<Rightarrow>
               if one_of kind [''text'', ''json_object'']
               then bbind (blift (object_fields fmt [''type''] [''type''])) (\<lambda>_. bret (PDict [(str ''type'', PStr kind)]))
               else if kind = lit ''json_schema''
               then bbind (blift (object_fields fmt [''type'', ''name'', ''schema'', ''strict'', ''description''] [''type'', ''name'', ''schema''])) (\<lambda>_.
                    bbind (blift (py_identifier (get d ''name'') Tool_id)) (\<lambda>n.
                    bbind (json_schema (get d ''schema'') (p @ [key ''format'', key ''schema''])) (\<lambda>schema.
                    bbind (blift (field_res d ''strict'' (\<lambda>b. as_bool (py_boolean b))
                             [(str ''type'', str ''json_schema''), (str ''name'', PStr n), (str ''schema'', schema)])) (\<lambda>built.
                    bbind (field_if d ''description'' (\<lambda>x. text_at x (p @ [key ''format'', key ''description''])) built) (\<lambda>built.
                    bret (PDict built))))))
               else blift (reject ''unsupported_field'')
           | _ \<Rightarrow> blift (reject ''invalid_request''))
      | _ \<Rightarrow> blift (reject ''invalid_request''))"

definition rs_text :: "pyval \<Rightarrow> path \<Rightarrow> pyval building" where
  "rs_text v p =
     bbind (blift (object_fields v [''format'', ''verbosity''] [])) (\<lambda>source.
     bbind (blift (field_res source ''verbosity'' (\<lambda>x. as_str (py_choice x [''low'', ''medium'', ''high''])) [])) (\<lambda>r.
     bbind (field_if source ''format'' (\<lambda>f. rs_output_format f p) r) (\<lambda>r. bret (PDict r))))"

definition rs_reasoning_control :: "pyval \<Rightarrow> pyval res" where
  "rs_reasoning_control v =
     rbind (object_fields v [''effort'', ''summary''] []) (\<lambda>d.
     rbind (field_res d ''effort'' (\<lambda>x. as_str (py_choice x REASONING_EFFORTS)) []) (\<lambda>r.
     rbind (field_res d ''summary'' (\<lambda>x. as_str (py_choice x [''auto'', ''concise'', ''detailed''])) r) (\<lambda>r. Inr (PDict r))))"

definition rs_include :: "pyval \<Rightarrow> pyval res" where
  "rs_include v =
     rbind (py_array v False) (\<lambda>xs.
     rbind (rmap (\<lambda>x. as_str (py_choice x [''reasoning.encrypted_content''])) xs) (\<lambda>ys.
     if distinct ys then Inr (PList ys) else reject ''invalid_request''))"

definition rs_retention :: "pyval \<Rightarrow> pyval res" where
  "rs_retention v = rbind (py_boolean v) (\<lambda>b. if b then reject ''continuation_unsupported'' else Inr (PBool False))"

subsection \<open>The request\<close>

definition rs_controls :: "pydict \<Rightarrow> pydict \<Rightarrow> pydict res" where
  \<comment> \<open>the optional fields between the client metadata and the tools\<close>
  "rs_controls source r =
     rbind (field_res source ''stream'' (\<lambda>v. as_bool (py_boolean v)) r) (\<lambda>r.
     rbind (field_res source ''parallel_tool_calls'' (\<lambda>v. as_bool (py_boolean v)) r) (\<lambda>r.
     rbind (field_res source ''store'' rs_retention r) (\<lambda>r.
     rbind (field_res source ''background'' rs_retention r) (\<lambda>r.
     let r = pd_set ''store'' (PBool False) r in
     rbind (field_res source ''max_output_tokens'' (\<lambda>v. as_int (py_integer v 1 (2 ^ 31 - 1))) r) (\<lambda>r.
     rbind (field_res source ''max_tool_calls'' (\<lambda>v. as_int (py_integer v 1 (2 ^ 31 - 1))) r) (\<lambda>r.
     rbind (field_res source ''temperature'' (\<lambda>v. py_number v 0 2) r) (\<lambda>r.
     field_res source ''top_p'' (\<lambda>v. py_number v 0 1) r)))))))"

definition rs_settings :: "json_lib \<Rightarrow> pydict \<Rightarrow> pydict \<Rightarrow> pydict building" where
  \<comment> \<open>the optional fields after the instructions\<close>
  "rs_settings J source r =
     bbind (blift (field_res source ''prompt_cache_key'' (\<lambda>v. as_str (py_identifier v Plain_id)) r)) (\<lambda>r.
     bbind (field_if source ''client_metadata'' (client_metadata J) r) (\<lambda>r.
     bbind (blift (rs_controls source r)) (\<lambda>r.
     bbind (field_if source ''tools'' rs_tools r) (\<lambda>r.
     bbind (blift (field_res source ''tool_choice'' (rs_selected r) r)) (\<lambda>r.
     bbind (blift (field_res source ''truncation'' (\<lambda>v. as_str (py_choice v [''auto'', ''disabled''])) r)) (\<lambda>r.
     bbind (blift (field_res source ''service_tier''
        (\<lambda>v. as_str (py_choice v [''auto'', ''default'', ''flex'', ''scale'', ''priority'', ''fast'', ''ultrafast''])) r)) (\<lambda>r.
     bbind (field_if source ''text'' (\<lambda>v. rs_text v [key ''text'']) r) (\<lambda>r.
     bbind (blift (field_res source ''reasoning'' rs_reasoning_control r)) (\<lambda>r.
     blift (field_res source ''include'' rs_include r))))))))))"

definition rs_optional :: "json_lib \<Rightarrow> pydict \<Rightarrow> pydict \<Rightarrow> pydict building" where
  "rs_optional J source r =
     bbind (field_if source ''instructions'' (\<lambda>v. text_at v [key ''instructions'']) r) (rs_settings J source)"

definition responses_payload :: "json_lib \<Rightarrow> pydict \<Rightarrow> pydict building" where
  "responses_payload J source =
     bbind (blift (py_identifier (get source ''model'') Model_id)) (\<lambda>model.
     bbind (rs_input J (get source ''input'')) (\<lambda>input.
     rs_optional J source [(str ''model'', PStr model), (str ''input'', input)]))"

definition parse_responses_request :: "json_lib \<Rightarrow> body \<Rightarrow> validated_request res" where
  "parse_responses_request J body =
     rbind (request_body J body) (\<lambda>d.
     if list_ex (\<lambda>f. pd_get d f \<noteq> None) RESPONSES_OPAQUE then reject ''uninspectable_field''
     else rbind (object_fields (PDict d) RESPONSES_FIELDS [''model'', ''input'']) (\<lambda>source.
     rbind (responses_payload J source builder_init) (\<lambda>(result, b).
     rbind (finish J b result) (\<lambda>locations.
     Inr \<lparr>vr_protocol = lit ''responses'', vr_payload = result, vr_locations = locations,
          vr_stream = (pd_get_or result ''stream'' (PBool False) = PBool True)\<rparr>))))"

end
