(* ===== verification/ResponseShapes.thy ===== *)
theory ResponseShapes
  imports ProviderShapes Responses
begin

text \<open>
  The visitors of Responses output, \<open>_part\<close>, \<open>_item\<close> and \<open>_response\<close> of \<^verbatim>\<open>gateway/streaming/protocols.py\<close>.  What a
  response echoes of the request must be what was sent, and is parsed as a request of its own.
\<close>

subsection \<open>Python's equality of decoded values\<close>

definition numeric :: "pyval \<Rightarrow> pyfloat option" where
  "numeric v = (case v of PBool b \<Rightarrow> Some (Fin (if b then 1 else 0)) | PInt i \<Rightarrow> Some (Fin (of_int i)) | PFloat f \<Rightarrow> Some f | _ \<Rightarrow> None)"

function py_eq :: "pyval \<Rightarrow> pyval \<Rightarrow> bool" where
  \<comment> \<open>\<open>a == b\<close>: numbers by value, dictionaries whatever their order\<close>
  "py_eq a b =
     (case (a, b) of
        (PDict d, PDict e) \<Rightarrow> length d = length e \<and> list_all (\<lambda>(k, v). case map_of e k of Some w \<Rightarrow> py_eq v w | None \<Rightarrow> False) d
      | (PList xs, PList ys) \<Rightarrow> length xs = length ys \<and> list_all (\<lambda>(x, y). py_eq x y) (zip xs ys)
      | (PStr s, PStr t) \<Rightarrow> s = t
      | (PNone, PNone) \<Rightarrow> True
      | _ \<Rightarrow> (case (numeric a, numeric b) of (Some x, Some y) \<Rightarrow> x = y \<and> x \<noteq> NaN | _ \<Rightarrow> False))"
  by pat_completeness auto
termination
  by (relation "measure (\<lambda>(a, b). size a)") (auto dest!: set_zip_leftD dest: size_in_list size_in_dict)

declare py_eq.simps [simp del]

lemma py_eq_simps [simp]:
  "py_eq (PStr s) v \<longleftrightarrow> v = PStr s" "py_eq PNone v \<longleftrightarrow> v = PNone"
  "py_eq (PList xs) (PList ys) \<longleftrightarrow> length xs = length ys \<and> list_all (\<lambda>(x, y). py_eq x y) (zip xs ys)"
  "py_eq (PDict d) (PDict e) \<longleftrightarrow>
     length d = length e \<and> list_all (\<lambda>(k, v). case map_of e k of Some w \<Rightarrow> py_eq v w | None \<Rightarrow> False) d"
  by (subst py_eq.simps; cases v; auto simp: numeric_def)+

definition sent_same :: "pydict option \<Rightarrow> string \<Rightarrow> pyval \<Rightarrow> bool" where
  \<comment> \<open>\<open>expected is not None and v == expected.get(k)\<close>\<close>
  "sent_same expected k v = (case expected of None \<Rightarrow> False | Some r \<Rightarrow> py_eq v (get r k))"

definition set_member_ok :: "pyval \<Rightarrow> bool" where
  "set_member_ok v \<longleftrightarrow> (case v of PList _ \<Rightarrow> False | PDict _ \<Rightarrow> False | _ \<Rightarrow> True)"

definition in_set :: "pyval \<Rightarrow> string list \<Rightarrow> bool res" where
  \<comment> \<open>membership in a set of strings raises for a value without a hash\<close>
  "in_set v names = (if set_member_ok v then Inr (in_names v names) else Inl TypeError)"

definition ensure_in :: "pyval \<Rightarrow> string list \<Rightarrow> unit res" where
  \<comment> \<open>\<open>if v not in {None, ...}: raise StreamProtocolError()\<close>\<close>
  "ensure_in v names = (if v = PNone then Inr () else rbind (in_set v names) (\<lambda>b. ensure b INVALID))"

subsection \<open>Parts and items\<close>

definition TOOL_KINDS :: "string list" where "TOOL_KINDS = [''function_call'', ''custom_tool_call'']"

definition only :: "'a res \<Rightarrow> unit res" where "only r = rbind r (\<lambda>_. Inr ())"

definition part_shape :: "pyval \<Rightarrow> pydict res" where
  \<comment> \<open>\<open>_part\<close>\<close>
  "part_shape v =
     rbind (shape v [''type'', ''text'', ''refusal'', ''annotations'', ''logprobs''] [''type'']) (\<lambda>d.
     if get d ''type'' = str ''output_text''
     then rbind (checks
       [only (shape v [''type'', ''text'', ''annotations'', ''logprobs''] [''type'', ''text'']),
        is_string (get d ''text''),
        ensure (pd_get_or d ''annotations'' (PList []) = PList [] \<and> empty_or_none (pd_get_or d ''logprobs'' (PList []))) INVALID]) (\<lambda>_. Inr d)
     else if get d ''type'' = str ''refusal''
     then rbind (checks [only (shape v [''type'', ''refusal''] [''type'', ''refusal'']), is_string (get d ''refusal'')]) (\<lambda>_. Inr d)
     else Inl invalid_stream)"

definition part_field :: "pydict \<Rightarrow> string" where
  "part_field d = (if get d ''type'' = str ''output_text'' then ''text'' else ''refusal'')"

definition ITEM_COMMON :: "string list" where
  "ITEM_COMMON = [''type'', ''id'', ''status'', ''internal_chat_message_metadata_passthrough'']"

fun parts_shape :: "pyval list \<Rightarrow> unit res" where
  "parts_shape [] = Inr ()"
| "parts_shape (p # ps) = rbind (part_shape p) (\<lambda>_. parts_shape ps)"

definition message_item :: "int \<Rightarrow> pyval \<Rightarrow> unit res" where
  "message_item max_items v =
     rbind (shape v (ITEM_COMMON @ [''role'', ''content'', ''phase'']) [''id'', ''type'', ''role'', ''content'']) (\<lambda>d.
     rbind (ensure (get d ''phase'' = PNone \<or> in_names (get d ''phase'') [''commentary'', ''final_answer'']) INVALID) (\<lambda>_.
     case get d ''content'' of
       PList content \<Rightarrow>
         if get d ''role'' \<noteq> str ''assistant'' then Inl invalid_stream
         else if max_items < int (length content) then Inl (StreamProtocolError ''provider_item_limit'')
         else parts_shape content
     | _ \<Rightarrow> Inl invalid_stream))"

definition call_field :: "pydict \<Rightarrow> string" where
  "call_field d = (if get d ''type'' = str ''function_call'' then ''arguments'' else ''input'')"

definition falsy_flag :: "pyval \<Rightarrow> bool" where
  \<comment> \<open>\<open>v in (None, False)\<close>; zero equals \<open>False\<close>\<close>
  "falsy_flag v \<longleftrightarrow> v = PNone \<or> py_eq (PBool False) v"

definition is_bool :: "pyval \<Rightarrow> bool" where "is_bool v = (case v of PBool _ \<Rightarrow> True | _ \<Rightarrow> False)"

definition call_shape :: "pydict \<Rightarrow> unit res" where
  "call_shape d =
     rbind (shape (PDict d) (ITEM_COMMON @ [''call_id'', ''name'', call_field d, ''namespace'', ''caller'', ''async'', ''encrypted_function_args''])
              [''id'', ''type'', ''call_id'', ''name'', call_field d]) (\<lambda>_.
     checks
      [ensure (get d ''namespace'' = PNone \<and> direct_caller (get d ''caller'') \<and> falsy_flag (get d ''async'')
               \<and> empty_or_none (get d ''encrypted_function_args'')) ''unsupported_provider_content'',
       ensure (get d ''async'' = PNone \<or> is_bool (get d ''async'')) INVALID,
       is_identifier Plain_id (get d ''call_id''),
       is_identifier Tool_id (get d ''name''),
       is_string (get d (call_field d))])"

definition reasoning_item :: "pyval \<Rightarrow> unit res" where
  "reasoning_item v =
     rbind (shape v (ITEM_COMMON @ [''summary'', ''content'', ''encrypted_content'']) [''type'', ''id'', ''summary'']) (\<lambda>d.
     ensure (get d ''summary'' = PList [] \<and> empty_or_none (get d ''content'') \<and> get d ''encrypted_content'' = PNone)
       ''unsupported_provider_content'')"

definition item_kind :: "int \<Rightarrow> pydict \<Rightarrow> unit res" where
  "item_kind max_items d =
     (let kind = get d ''type'' in
      if kind = str ''message'' then message_item max_items (PDict d)
      else rbind (in_set kind TOOL_KINDS) (\<lambda>tool.
        if tool then call_shape d
        else if kind = str ''reasoning'' then reasoning_item (PDict d)
        else Inl (StreamProtocolError ''unsupported_provider_content'')))"

definition item_shape :: "bool \<Rightarrow> int \<Rightarrow> pyval \<Rightarrow> pydict res" where
  \<comment> \<open>\<open>_item\<close>\<close>
  "item_shape completed max_items v =
     (case v of
        PDict d \<Rightarrow>
          (let expected = (if completed then str ''completed'' else str ''in_progress''); status = pd_get_or d ''status'' expected in
           rbind (checks
            [ensure (get d ''internal_chat_message_metadata_passthrough'' = PNone) ''unsupported_provider_content'',
             item_kind max_items d,
             is_identifier Plain_id (get d ''id''),
             ensure (status = expected \<or> (get d ''type'' \<noteq> str ''message'' \<and> status = PNone)) INVALID]) (\<lambda>_. Inr d))
      | _ \<Rightarrow> Inl invalid_stream)"

subsection \<open>Responses\<close>

definition RESPONSE_BASIC :: "string list" where
  "RESPONSE_BASIC = [''id'', ''output'', ''status'', ''object'', ''created_at'', ''completed_at'', ''model'', ''usage'', ''error'',
     ''incomplete_details'', ''end_turn'', ''usage_metadata'']"

definition RESPONSE_CONTROLS :: "string list" where
  "RESPONSE_CONTROLS = [''parallel_tool_calls'', ''store'', ''background'', ''max_output_tokens'', ''max_tool_calls'',
     ''previous_response_id'', ''service_tier'', ''temperature'', ''top_p'', ''truncation'', ''reasoning'', ''text'', ''tool_choice'',
     ''tools'', ''metadata'', ''instructions'', ''user'', ''safety_identifier'', ''prompt_cache_key'', ''prompt_cache_retention'',
     ''top_logprobs'', ''conversation'', ''prompt'', ''moderation'', ''access_programs'', ''prompt_cache_options'',
     ''prompt_cache_diagnostics'']"

definition unless_none :: "pyval \<Rightarrow> unit res \<Rightarrow> unit res" where
  "unless_none v r = (if v = PNone then Inr () else r)"

definition basic_checks :: "bool \<Rightarrow> pydict \<Rightarrow> unit res list" where
  "basic_checks completed d =
     [is_identifier Plain_id (get d ''id''),
      ensure (pd_get_or d ''object'' (str ''response'') = str ''response'') INVALID,
      is_string (get d ''status''),
      ensure (in_names (get d ''status'') (if completed then [''completed''] else [''queued'', ''in_progress''])) ''upstream_response_failed'',
      unless_none (get d ''created_at'') (finite_in (get d ''created_at'') (\<lambda>q. 0 \<le> q)),
      unless_none (get d ''completed_at'') (finite_in (get d ''completed_at'') (\<lambda>q. 0 \<le> q)),
      ensure (pd_get d ''created_at'' \<noteq> Some PNone) INVALID,
      ensure (list_all (\<lambda>f. get d f = PNone) [''conversation'', ''prompt'', ''moderation'', ''access_programs'', ''prompt_cache_options'',
                ''prompt_cache_diagnostics'', ''usage_metadata'']) ''unsupported_provider_content'',
      ensure (get d ''end_turn'' = PNone \<or> is_bool (get d ''end_turn'')) INVALID,
      (if pd_get d ''model'' = None then Inr () else is_identifier Model_id (get d ''model'')),
      ensure (get d ''error'' = PNone \<and> get d ''incomplete_details'' = PNone) ''upstream_response_failed'',
      unless_none (get d ''usage'') (usage_shape False (get d ''usage''))]"

definition positive_or_none :: "pyval \<Rightarrow> bool" where
  "positive_or_none v = (case v of PNone \<Rightarrow> True | PInt i \<Rightarrow> 1 \<le> i | _ \<Rightarrow> False)"

definition flag_present :: "pydict \<Rightarrow> string \<Rightarrow> bool" where
  "flag_present d k = (case pd_get d k of None \<Rightarrow> True | Some v \<Rightarrow> is_bool v \<or> (k = ''background'' \<and> v = PNone))"

definition text_choice :: "pydict \<Rightarrow> string \<Rightarrow> string list \<Rightarrow> unit res" where
  "text_choice d k names = unless_none (get d k) (ensure (in_names (get d k) names) INVALID)"

definition echoed_id :: "pydict option \<Rightarrow> pydict \<Rightarrow> string \<Rightarrow> unit res" where
  "echoed_id expected d k =
     unless_none (get d k) (rbind (ensure (sent_same expected k (get d k)) ''unsupported_provider_content'') (\<lambda>_. is_string (get d k)))"

definition short_text :: "nat \<Rightarrow> pyval \<Rightarrow> bool" where
  "short_text n v = (case v of PStr s \<Rightarrow> length s \<le> n | _ \<Rightarrow> False)"

definition metadata_shape :: "pydict option \<Rightarrow> pyval \<Rightarrow> unit res" where
  "metadata_shape expected v =
     (case v of
        PNone \<Rightarrow> Inr ()
      | PDict m \<Rightarrow>
          rbind (ensure (length m \<le> 16 \<and> list_all (\<lambda>(k, x). short_text 64 k \<and> short_text 512 x) m) INVALID) (\<lambda>_.
          ensure (m = [] \<or> sent_same expected ''metadata'' v) ''provider_snapshot_mismatch'')
      | _ \<Rightarrow> Inl invalid_stream)"

definition in_range :: "int \<Rightarrow> int \<Rightarrow> pyval \<Rightarrow> bool" where
  "in_range low high v = (case v of PInt i \<Rightarrow> low \<le> i \<and> i \<le> high | _ \<Rightarrow> False)"

definition control_checks :: "pydict option \<Rightarrow> pydict \<Rightarrow> unit res list" where
  "control_checks expected d =
     [ensure (list_all (flag_present d) [''parallel_tool_calls'', ''store'', ''background'']) INVALID,
      ensure (\<not> truthy (pd_get_or d ''store'' (PBool False)) \<and> \<not> truthy (pd_get_or d ''background'' (PBool False)))
        ''unsupported_provider_continuation'',
      ensure (positive_or_none (get d ''max_output_tokens'') \<and> positive_or_none (get d ''max_tool_calls'')) INVALID,
      unless_none (get d ''temperature'') (finite_in (get d ''temperature'') (\<lambda>q. 0 \<le> q \<and> q \<le> 2)),
      unless_none (get d ''top_p'') (finite_in (get d ''top_p'') (\<lambda>q. 0 \<le> q \<and> q \<le> 1)),
      text_choice d ''service_tier'' [''auto'', ''default'', ''flex'', ''priority'', ''scale'', ''fast'', ''ultrafast''],
      text_choice d ''truncation'' [''disabled'', ''auto''],
      text_choice d ''prompt_cache_retention'' [''in_memory'', ''24h''],
      ensure (get d ''previous_response_id'' = PNone) ''unsupported_provider_continuation'',
      echoed_id expected d ''user'', echoed_id expected d ''safety_identifier'', echoed_id expected d ''prompt_cache_key'',
      metadata_shape expected (get d ''metadata''),
      ensure (get d ''top_logprobs'' = PNone \<or> in_range 0 20 (get d ''top_logprobs'')) INVALID]"

text \<open>
  The echoes of the request: content must be what was sent, and all of them together with a harmless
  input must be a valid request.
\<close>

definition plain_format :: "pyval \<Rightarrow> bool" where
  "plain_format v \<longleftrightarrow> v = PDict [(str ''type'', str ''text'')]"

definition content_bearing :: "string \<Rightarrow> pyval \<Rightarrow> bool" where
  "content_bearing k v =
     (if k = ''instructions'' then True
      else if k = ''tools'' then truthy v
      else case v of
        PDict f \<Rightarrow> k = ''tool_choice'' \<or> \<not> plain_format (pd_get_or f ''format'' (PDict [(str ''type'', str ''text'')]))
      | _ \<Rightarrow> False)"

fun echoes :: "pydict option \<Rightarrow> pydict \<Rightarrow> string list \<Rightarrow> pydict \<Rightarrow> pydict res" where
  "echoes expected d [] out = Inr out"
| "echoes expected d (k # ks) out =
     (if get d k = PNone then echoes expected d ks out
      else if content_bearing k (get d k) \<and> \<not> sent_same expected k (get d k)
      then Inl (StreamProtocolError ''provider_snapshot_mismatch'')
      else echoes expected d ks (pd_set k (get d k) out))"

definition echo_check :: "json_lib \<Rightarrow> pydict option \<Rightarrow> pydict \<Rightarrow> unit res" where
  "echo_check J expected d =
     rbind (echoes expected d [''instructions'', ''tools'', ''tool_choice'', ''text'']
              [(str ''model'', pd_get_or d ''model'' (str ''provider'')), (str ''input'', PStr [])]) (\<lambda>out.
     case parse_responses_request J (Decoded (PDict out)) of Inr _ \<Rightarrow> Inr () | Inl _ \<Rightarrow> Inl invalid_stream)"

definition reasoning_shape :: "pyval \<Rightarrow> unit res" where
  "reasoning_shape v =
     unless_none v (rbind (shape v [''effort'', ''summary'', ''context'', ''generate_summary'', ''mode''] []) (\<lambda>d.
       checks
        [ensure_in (get d ''effort'') REASONING_EFFORTS,
         ensure_in (get d ''summary'') [''auto'', ''concise'', ''detailed''],
         ensure_in (get d ''generate_summary'') [''auto'', ''concise'', ''detailed''],
         ensure_in (get d ''context'') [''auto'', ''current_turn'', ''all_turns''],
         ensure_in (get d ''mode'') [''standard'', ''pro'']]))"

fun output_shape :: "bool \<Rightarrow> int \<Rightarrow> int \<Rightarrow> pyval list \<Rightarrow> pyval list \<Rightarrow> pyval list \<Rightarrow> unit res" where
  \<comment> \<open>the items counted so far, the identifiers and the calls seen\<close>
  "output_shape completed max_items n ids calls [] = Inr ()"
| "output_shape completed max_items n ids calls (v # vs) =
     rbind (item_shape completed max_items v) (\<lambda>d.
     let n' = (if get d ''type'' = str ''message'' then n + int (length (py_items (get d ''content''))) else n) in
     if max_items < n' \<and> get d ''type'' = str ''message'' then Inl (StreamProtocolError ''provider_item_limit'')
     else if get d ''id'' \<in> set ids \<or> (pd_get d ''call_id'' \<noteq> None \<and> get d ''call_id'' \<in> set calls) then Inl invalid_stream
     else output_shape completed max_items n' (get d ''id'' # ids)
            (if pd_get d ''call_id'' \<noteq> None then get d ''call_id'' # calls else calls) vs)"

definition response_shape :: "json_lib \<Rightarrow> bool \<Rightarrow> int \<Rightarrow> pydict option \<Rightarrow> pyval \<Rightarrow> pydict res" where
  \<comment> \<open>\<open>_response\<close>\<close>
  "response_shape J completed max_items expected v =
     rbind (shape v (RESPONSE_BASIC @ RESPONSE_CONTROLS) [''id'', ''output'', ''status'']) (\<lambda>d.
     rbind (checks (basic_checks completed d)) (\<lambda>_.
     rbind (checks (control_checks expected d)) (\<lambda>_.
     rbind (echo_check J expected d) (\<lambda>_.
     rbind (reasoning_shape (get d ''reasoning'')) (\<lambda>_.
     case get d ''output'' of
       PList items \<Rightarrow>
         if max_items < int (length items) then Inl (StreamProtocolError ''provider_item_limit'')
         else rbind (output_shape completed max_items (int (length items)) [] [] items) (\<lambda>_. Inr d)
     | _ \<Rightarrow> Inl (StreamProtocolError ''provider_item_limit''))))))"

end
