(* ===== verification/ResponsesStream.thy ===== *)
theory ResponsesStream
  imports StreamMachine ResponseShapes
begin

text \<open>
  The state machine of the Responses stream, \<open>_Responses\<close> of \<^verbatim>\<open>gateway/streaming/protocols.py\<close>.  An item keeps
  what the provider announced, its parts with their buffers, and the arguments of a call; every
  snapshot the provider repeats must agree with what it streamed.
\<close>

record rs_part =
  pt_raw :: pydict
  pt_buffer :: stream
  pt_done :: bool

record rs_state =
  it_raw :: pydict
  it_done :: bool
  it_parts :: "rs_part list"
  it_chunks :: "ustr list"           \<comment> \<open>\<open>argument_chunks\<close>\<close>
  it_arguments :: ustr
  it_args_done :: bool
  it_final :: "pydict option"        \<comment> \<open>\<open>final_raw\<close>\<close>
  it_restored :: "ustr option"

record 'b responses_machine = "'b machine" +
  rm_id :: "pyval option"            \<comment> \<open>\<open>response_id\<close>\<close>
  rm_items :: "rs_state list"
  rm_ids :: "pyval list"
  rm_calls :: "pyval list"
  rm_in_progress :: bool

type_synonym ('a, 'b) responses_run = "('a, 'b responses_machine) act"

definition responses_init :: "'b vault \<Rightarrow> outcome \<Rightarrow> 'b responses_machine" where
  "responses_init v out = machine.extend (machine_init v out)
     \<lparr>rm_id = None, rm_items = [], rm_ids = [], rm_calls = [], rm_in_progress = False\<rparr>"

definition tool_dict :: "pydict \<Rightarrow> bool" where "tool_dict d \<longleftrightarrow> in_names (get d ''type'') TOOL_KINDS"
definition custom_dict :: "pydict \<Rightarrow> bool" where "custom_dict d \<longleftrightarrow> get d ''type'' = str ''custom_tool_call''"

definition rm_located :: "'b stream_env \<Rightarrow> pydict \<Rightarrow> (nat \<times> rs_state, 'b) responses_run" where
  "rm_located V e =
     bind (lift (stream_index (sv_max_items V) (get e ''output_index''))) (\<lambda>i st.
     if length (rm_items st) \<le> i \<or> it_done (rm_items st ! i) \<or> get e ''item_id'' \<noteq> get (it_raw (rm_items st ! i)) ''id''
     then fail_with INVALID st
     else ret (i, rm_items st ! i) st)"

definition rm_part :: "'b stream_env \<Rightarrow> pydict \<Rightarrow> rs_state \<Rightarrow> (nat \<times> rs_part, 'b) responses_run" where
  \<comment> \<open>\<open>part_state\<close>\<close>
  "rm_part V e s =
     bind (lift (stream_index (sv_max_items V) (get e ''content_index''))) (\<lambda>i.
     if get (it_raw s) ''type'' \<noteq> str ''message'' \<or> length (it_parts s) \<le> i then fail_with INVALID
     else ret (i, it_parts s ! i))"

definition rm_put :: "nat \<Rightarrow> rs_state \<Rightarrow> (unit, 'b) responses_run" where
  "rm_put i s = modify (\<lambda>st. st\<lparr>rm_items := (rm_items st)[i := s]\<rparr>)"

definition put_part :: "nat \<Rightarrow> rs_part \<Rightarrow> rs_state \<Rightarrow> rs_state" where
  "put_part j p s = s\<lparr>it_parts := (it_parts s)[j := p]\<rparr>"

subsection \<open>Snapshots\<close>

definition part_snapshot :: "bool \<Rightarrow> rs_part \<Rightarrow> pyval" where
  "part_snapshot restored p =
     PDict (pd_set (part_field (pt_raw p)) (PStr (concat (if restored then ss_text (pt_buffer p) else ss_raw (pt_buffer p)))) (pt_raw p))"

definition item_snapshot :: "bool \<Rightarrow> rs_state \<Rightarrow> pydict" where
  "item_snapshot restored s =
     (let r = (case it_final s of Some f \<Rightarrow> f | None \<Rightarrow> pd_set ''status'' (str ''completed'') (it_raw s))
      in if get r ''type'' = str ''message'' then pd_set ''content'' (PList (map (part_snapshot restored) (it_parts s))) r
         else if tool_dict r
         then pd_set (call_field r)
                (PStr (if restored then (case it_restored s of Some t \<Rightarrow> t | None \<Rightarrow> []) else it_arguments s)) r
         else r)"

definition pd_default :: "string \<Rightarrow> pyval \<Rightarrow> pydict \<Rightarrow> pydict" where
  \<comment> \<open>\<open>d.setdefault(k, v)\<close>\<close>
  "pd_default k v d = (if pd_get d k = None then pd_set k v d else d)"

definition settled :: "pydict \<Rightarrow> pydict" where
  \<comment> \<open>the optional fields a provider may leave out of one snapshot\<close>
  "settled d =
     (let d = (if get d ''status'' = PNone then pd_set ''status'' (str ''completed'') d else d);
          d = pd_default ''internal_chat_message_metadata_passthrough'' PNone d
      in if get d ''type'' = str ''message'' then pd_default ''phase'' PNone d
         else if get d ''type'' = str ''reasoning'' then pd_default ''encrypted_content'' PNone (pd_set ''content'' (PList []) d)
         else pd_set ''encrypted_function_args'' (PList []) (pd_set ''async'' (PBool False)
                (pd_set ''caller'' PNone (pd_default ''namespace'' PNone d))))"

definition settled_part :: "pyval \<Rightarrow> pyval" where
  "settled_part p =
     (case p of
        PDict d \<Rightarrow> if get d ''type'' = str ''output_text''
                    then PDict (pd_set ''logprobs'' (PList []) (pd_default ''annotations'' (PList []) d)) else p
      | _ \<Rightarrow> p)"

definition settled_content :: "pydict \<Rightarrow> pydict" where
  "settled_content d = pd_set ''content'' (PList (map settled_part (py_items (get d ''content'')))) d"

definition compare_item :: "'b stream_env \<Rightarrow> pyval \<Rightarrow> rs_state \<Rightarrow> unit res" where
  "compare_item V snapshot s =
     rbind (item_shape True (sv_max_items V) snapshot) (\<lambda>v.
     let validated = settled v; expected = settled (item_snapshot False s)
     in if get validated ''type'' = str ''message''
        then if get expected ''type'' = str ''reasoning'' \<and> it_final s \<noteq> None
             then Inl (StreamProtocolError ''provider_snapshot_mismatch'')
             else if get expected ''type'' \<noteq> str ''message'' then Inl KeyError
             else let expected = (if it_final s = None \<and> get expected ''phase'' = PNone
                                  then pd_set ''phase'' (get validated ''phase'') expected else expected)
                  in ensure (py_eq (PDict (settled_content validated)) (PDict (settled_content expected))) ''provider_snapshot_mismatch''
        else ensure (py_eq (PDict validated) (PDict expected)) ''provider_snapshot_mismatch'')"

fun compare_items :: "'b stream_env \<Rightarrow> pyval list \<Rightarrow> rs_state list \<Rightarrow> unit res" where
  "compare_items V (v # vs) (s # ss) =
     (if \<not> it_done s then Inl (StreamProtocolError ''truncated_provider_stream'')
      else rbind (compare_item V v s) (\<lambda>_. compare_items V vs ss))"
| "compare_items V _ _ = Inr ()"

subsection \<open>Release\<close>

definition rm_name :: "rs_state \<Rightarrow> ustr" where "rm_name s = key_text (get (it_raw s) ''name'')"

definition rm_restore_call :: "'b stream_env \<Rightarrow> nat \<Rightarrow> (unit, 'b) responses_run" where
  "rm_restore_call V i st =
     (let s = rm_items st ! i in
      if \<not> tool_dict (it_raw s) then ret () st
      else bind (m_restore_tool V (rm_name s) (it_arguments s) (custom_dict (it_raw s))) (\<lambda>(out, outcome).
           bind (rm_put i (s\<lparr>it_restored := Some out\<rparr>)) (\<lambda>_.
           bind (m_count V True out) (\<lambda>_. m_merge outcome))) st)"

fun rm_restore_calls :: "'b stream_env \<Rightarrow> nat list \<Rightarrow> (unit, 'b) responses_run" where
  "rm_restore_calls V [] = ret ()"
| "rm_restore_calls V (i # is) = bind (rm_restore_call V i) (\<lambda>_. rm_restore_calls V is)"

definition call_prefix :: "rs_state \<Rightarrow> string" where
  "call_prefix s = (if custom_dict (it_raw s) then ''response.custom_tool_call_input'' else ''response.function_call_arguments'')"

definition restored_arguments :: "rs_state \<Rightarrow> ustr" where
  "restored_arguments s = (case it_restored s of Some t \<Rightarrow> t | None \<Rightarrow> [])"

definition call_delta :: "rs_state \<Rightarrow> pyval \<Rightarrow> pydict" where
  "call_delta s i =
     [(str ''type'', str (call_prefix s @ ''.delta'')), (str ''item_id'', get (it_raw s) ''id''), (str ''output_index'', i),
      (str ''delta'', PStr (restored_arguments s))]"

fun rm_released :: "rs_state list \<Rightarrow> nat list \<Rightarrow> pydict list \<Rightarrow> pydict list" where
  \<comment> \<open>the held events with the restored arguments in one delta per call\<close>
  "rm_released items sent [] = []"
| "rm_released items sent (e # es) =
     (let i = (case get e ''output_index'' of PInt n \<Rightarrow> nat n | _ \<Rightarrow> 0); s = items ! i;
          field = (if custom_dict (it_raw s) then ''input'' else ''arguments'')
      in if get e ''type'' = str (call_prefix s @ ''.delta'')
         then if i \<in> set sent then rm_released items sent es
              else pd_set ''delta'' (PStr (restored_arguments s)) e # rm_released items (i # sent) es
         else if get e ''type'' = str (call_prefix s @ ''.done'')
         then (if i \<in> set sent then [] else [call_delta s (get e ''output_index'')])
              @ pd_set field (PStr (restored_arguments s)) e # rm_released items (i # sent) es
         else if get e ''type'' = str ''response.output_item.done''
         then pd_set ''item'' (PDict (item_snapshot True s)) e # rm_released items sent es
         else e # rm_released items sent es)"

definition rm_calls_of :: "rs_state list \<Rightarrow> (ustr \<times> ustr \<times> bool) list" where
  "rm_calls_of items =
     map (\<lambda>s. (rm_name s, it_arguments s, custom_dict (it_raw s))) (filter (\<lambda>s. tool_dict (it_raw s)) items)"

definition rm_release :: "'b stream_env \<Rightarrow> (pydict list, 'b) responses_run" where
  "rm_release V st =
     bind (m_validate_batch V (rm_calls_of (rm_items st))) (\<lambda>_.
     bind (rm_restore_calls V [0..<length (rm_items st)]) (\<lambda>_ st.
     ret (rm_released (rm_items st) [] (mc_pending st)) st)) st"

subsection \<open>Events\<close>

definition rm_lifecycle :: "'b stream_env \<Rightarrow> pydict \<Rightarrow> (pydict list, 'b) responses_run" where
  \<comment> \<open>\<open>response.created\<close> and \<open>response.in_progress\<close>\<close>
  "rm_lifecycle V e =
     bind (m_event e [''response''] [''response'']) (\<lambda>_.
     bind (lift (response_shape (te_json (sv_tools V)) False (sv_max_items V) (sv_expected V) (get e ''response''))) (\<lambda>r.
     bind (step_if (get r ''output'' = PList []) INVALID) (\<lambda>_.
     bind (if get e ''type'' = str ''response.created''
           then bind (\<lambda>st. step_if (\<not> mc_started st) INVALID st) (\<lambda>_.
                modify (\<lambda>st. st\<lparr>mc_started := True, rm_id := Some (get r ''id'')\<rparr>))
           else bind (\<lambda>st. step_if (mc_started st \<and> \<not> rm_in_progress st \<and> rm_items st = []) INVALID st) (\<lambda>_.
                modify (\<lambda>st. st\<lparr>rm_in_progress := True\<rparr>))) (\<lambda>_.
     bind (\<lambda>st. step_if (rm_id st = Some (get r ''id'')) INVALID st) (\<lambda>_. ret [e])))))"

definition new_item :: "pydict \<Rightarrow> rs_state" where
  "new_item d = \<lparr>it_raw = d, it_done = False, it_parts = [], it_chunks = [], it_arguments = [], it_args_done = False,
     it_final = None, it_restored = None\<rparr>"

definition rm_new_call :: "pydict \<Rightarrow> (unit, 'b) responses_run" where
  "rm_new_call d =
     bind (\<lambda>st. step_if (\<not> truthy (get d (call_field d)) \<and> get d ''call_id'' \<notin> set (rm_calls st)) INVALID st) (\<lambda>_.
     modify (\<lambda>st. st\<lparr>rm_calls := get d ''call_id'' # rm_calls st\<rparr>))"

definition rm_item_added :: "'b stream_env \<Rightarrow> pydict \<Rightarrow> (pydict list, 'b) responses_run" where
  "rm_item_added V e =
     bind (m_event e [''output_index'', ''item''] [''output_index'', ''item'']) (\<lambda>_.
     bind (lift (stream_index (sv_max_items V) (get e ''output_index''))) (\<lambda>i.
     bind (lift (item_shape False (sv_max_items V) (get e ''item''))) (\<lambda>d.
     bind (\<lambda>st. step_if (i = length (rm_items st) \<and> get d ''id'' \<notin> set (rm_ids st)) INVALID st) (\<lambda>_.
     bind (modify (\<lambda>st. st\<lparr>rm_ids := get d ''id'' # rm_ids st\<rparr>)) (\<lambda>_.
     bind (if get d ''type'' = str ''message'' then step_if (get d ''content'' = PList []) INVALID
           else if tool_dict d then rm_new_call d else ret ()) (\<lambda>_.
     bind (modify (\<lambda>st. st\<lparr>rm_items := rm_items st @ [new_item d]\<rparr>)) (\<lambda>_.
     bind (m_add_item V) (\<lambda>_.
     if tool_dict d then bind (m_hold V e) (\<lambda>_. ret []) else ret [e]))))))))"

definition PART_FIELDS :: "string list" where "PART_FIELDS = [''output_index'', ''item_id'', ''content_index'', ''part'']"

definition rm_part_added :: "'b stream_env \<Rightarrow> pydict \<Rightarrow> nat \<Rightarrow> rs_state \<Rightarrow> pydict \<Rightarrow> nat \<Rightarrow> (pydict list, 'b) responses_run" where
  "rm_part_added V e i s part j =
     bind (step_if (j = length (it_parts s) \<and> get part (part_field part) = PStr []) INVALID) (\<lambda>_.
     bind (rm_put i (s\<lparr>it_parts := it_parts s @ [\<lparr>pt_raw = part, pt_buffer = stream_init, pt_done = False\<rparr>]\<rparr>)) (\<lambda>_.
     bind (m_add_item V) (\<lambda>_. ret [e])))"

definition with_part_text :: "string \<Rightarrow> ustr \<Rightarrow> pydict \<Rightarrow> pydict" where
  \<comment> \<open>\<open>event["part"][k] = s\<close>\<close>
  "with_part_text k s e = (case get e ''part'' of PDict d \<Rightarrow> pd_set ''part'' (PDict (pd_set k (PStr s) d)) e | _ \<Rightarrow> e)"

definition rm_part_done :: "'b stream_env \<Rightarrow> pydict \<Rightarrow> nat \<Rightarrow> rs_state \<Rightarrow> pydict \<Rightarrow> (pydict list, 'b) responses_run" where
  "rm_part_done V e i s part =
     bind (rm_part V e s) (\<lambda>(j, p).
     bind (step_if (\<not> pt_done p \<and> ss_closed (pt_buffer p) \<and> get part ''type'' = get (pt_raw p) ''type'') INVALID) (\<lambda>_.
     bind (step_if (get part (part_field part) = PStr (concat (ss_raw (pt_buffer p)))) ''provider_snapshot_mismatch'') (\<lambda>_.
     bind (rm_put i (put_part j (p\<lparr>pt_done := True, pt_raw := part\<rparr>) s)) (\<lambda>_.
     ret [with_part_text (part_field part) (concat (ss_text (pt_buffer p))) e]))))"

definition rm_content_part :: "'b stream_env \<Rightarrow> pydict \<Rightarrow> (pydict list, 'b) responses_run" where
  "rm_content_part V e =
     bind (m_event e PART_FIELDS PART_FIELDS) (\<lambda>_.
     bind (rm_located V e) (\<lambda>(i, s).
     bind (lift (part_shape (get e ''part''))) (\<lambda>part.
     bind (lift (stream_index (sv_max_items V) (get e ''content_index''))) (\<lambda>j.
     bind (step_if (get (it_raw s) ''type'' = str ''message'') INVALID) (\<lambda>_.
     if get e ''type'' = str ''response.content_part.added'' then rm_part_added V e i s part j
     else rm_part_done V e i s part)))))"

definition text_refusal :: "pyval \<Rightarrow> bool" where
  "text_refusal kind \<longleftrightarrow> kind = str ''response.refusal.delta'' \<or> kind = str ''response.refusal.done''"

definition text_is_delta :: "pyval \<Rightarrow> bool" where
  "text_is_delta kind \<longleftrightarrow> kind = str ''response.output_text.delta'' \<or> kind = str ''response.refusal.delta''"

definition text_field :: "pyval \<Rightarrow> string" where
  "text_field kind = (if text_is_delta kind then ''delta'' else if text_refusal kind then ''refusal'' else ''text'')"

definition rm_final_text :: "pydict \<Rightarrow> stream \<Rightarrow> ustr \<Rightarrow> pydict list" where
  \<comment> \<open>the whole text of a part, after a delta with what was still held back\<close>
  "rm_final_text e buffer t =
     (let field = text_field (get e ''type''); result = pd_set field (PStr (concat (ss_text buffer))) e;
          kind = (if text_refusal (get e ''type'') then ''response.refusal.delta'' else ''response.output_text.delta'')
      in (if t = [] then []
          else [pd_set ''delta'' (PStr t) (AList.delete (str field) (pd_set ''type'' (str kind) result))]) @ [result])"

definition rm_feed_part :: "'b stream_env \<Rightarrow> pydict \<Rightarrow> nat \<Rightarrow> rs_state \<Rightarrow> nat \<Rightarrow> rs_part \<Rightarrow> ustr \<Rightarrow> (pydict list, 'b) responses_run" where
  "rm_feed_part V e i s j p v =
     (let is_delta = text_is_delta (get e ''type'') in
      bind (step_if (\<not> ss_closed (pt_buffer p)) INVALID) (\<lambda>_.
      bind (step_if (is_delta \<or> v = concat (ss_raw (pt_buffer p))) ''provider_snapshot_mismatch'') (\<lambda>_.
      bind (if is_delta then m_count V False v else ret ()) (\<lambda>_.
      bind (m_feed V (pt_buffer p) (if is_delta then v else []) (\<not> is_delta)) (\<lambda>(t, buffer).
      bind (rm_put i (put_part j (p\<lparr>pt_buffer := buffer\<rparr>) s)) (\<lambda>_.
      bind (m_count V True t) (\<lambda>_.
      ret (if is_delta then (if t = [] then [] else [pd_set ''delta'' (PStr t) e]) else rm_final_text e buffer t))))))))"

definition rm_text :: "'b stream_env \<Rightarrow> pydict \<Rightarrow> (pydict list, 'b) responses_run" where
  "rm_text V e =
     (let kind = get e ''type''; field = text_field kind;
          fields = [''output_index'', ''item_id'', ''content_index'', field] in
      bind (m_event e (fields @ [''logprobs'']) fields) (\<lambda>_.
      bind (step_if (empty_or_none (pd_get_or e ''logprobs'' (PList []))) INVALID) (\<lambda>_.
      bind (rm_located V e) (\<lambda>(i, s).
      bind (rm_part V e s) (\<lambda>(j, p).
      bind (step_if (get (pt_raw p) ''type'' = (if text_refusal kind then str ''refusal'' else str ''output_text'') \<and> \<not> pt_done p) INVALID) (\<lambda>_.
      bind (lift (stream_string (get e field))) (\<lambda>v. rm_feed_part V e i s j p v)))))))"

definition argument_custom :: "pyval \<Rightarrow> bool" where
  "argument_custom kind \<longleftrightarrow> kind = str ''response.custom_tool_call_input.delta'' \<or> kind = str ''response.custom_tool_call_input.done''"

definition argument_delta :: "pyval \<Rightarrow> bool" where
  "argument_delta kind \<longleftrightarrow> kind = str ''response.custom_tool_call_input.delta'' \<or> kind = str ''response.function_call_arguments.delta''"

definition argument_field :: "pyval \<Rightarrow> string" where
  "argument_field kind = (if argument_delta kind then ''delta'' else if argument_custom kind then ''input'' else ''arguments'')"

definition rm_arguments :: "'b stream_env \<Rightarrow> pydict \<Rightarrow> (pydict list, 'b) responses_run" where
  "rm_arguments V e =
     (let kind = get e ''type''; field = argument_field kind; fields = [''output_index'', ''item_id'', field] in
      bind (m_event e fields fields) (\<lambda>_.
      bind (rm_located V e) (\<lambda>(i, s).
      bind (step_if (get (it_raw s) ''type'' = (if argument_custom kind then str ''custom_tool_call'' else str ''function_call'')
                     \<and> \<not> it_args_done s) INVALID) (\<lambda>_.
      bind (lift (stream_string (get e field))) (\<lambda>v.
      bind (if argument_delta kind
            then bind (m_count V False v) (\<lambda>_. rm_put i (s\<lparr>it_chunks := it_chunks s @ [v]\<rparr>))
            else bind (step_if (v = concat (it_chunks s)) ''provider_snapshot_mismatch'') (\<lambda>_.
                 rm_put i (s\<lparr>it_arguments := concat (it_chunks s), it_chunks := [], it_args_done := True\<rparr>))) (\<lambda>_.
      bind (m_hold V e) (\<lambda>_. ret [])))))))"

definition rm_item_done :: "'b stream_env \<Rightarrow> pydict \<Rightarrow> (pydict list, 'b) responses_run" where
  "rm_item_done V e =
     bind (m_event e [''output_index'', ''item''] [''output_index'', ''item'']) (\<lambda>_.
     bind (lift (stream_index (sv_max_items V) (get e ''output_index''))) (\<lambda>i.
     bind (\<lambda>st. step_if (i < length (rm_items st) \<and> \<not> it_done (rm_items st ! i)) INVALID st) (\<lambda>_ st.
     let s = rm_items st ! i in
     bind (step_if (if get (it_raw s) ''type'' = str ''message'' then list_all pt_done (it_parts s)
                    else tool_dict (it_raw s) \<longrightarrow> it_args_done s) INVALID) (\<lambda>_.
     bind (lift (compare_item V (get e ''item'') s)) (\<lambda>_.
     let s' = s\<lparr>it_final := (case get e ''item'' of PDict d \<Rightarrow> Some d | _ \<Rightarrow> None), it_done := True\<rparr> in
     bind (rm_put i s') (\<lambda>_.
     if tool_dict (it_raw s) then bind (m_hold V e) (\<lambda>_. ret [])
     else ret [pd_set ''item'' (PDict (item_snapshot True s')) e]))) st)))"

definition rm_completed :: "'b stream_env \<Rightarrow> pydict \<Rightarrow> (pydict list, 'b) responses_run" where
  "rm_completed V e =
     bind (m_event e [''response''] [''response'']) (\<lambda>_.
     bind (lift (response_shape (te_json (sv_tools V)) True (sv_max_items V) (sv_expected V) (get e ''response''))) (\<lambda>r.
     bind (\<lambda>st. step_if (rm_id st = Some (get r ''id'') \<and> length (py_items (get r ''output'')) = length (rm_items st)) INVALID st) (\<lambda>_.
     bind (\<lambda>st. lift (compare_items V (py_items (get r ''output'')) (rm_items st)) st) (\<lambda>_.
     bind (rm_release V) (\<lambda>released st.
     let r' = pd_set ''output'' (PList (map (\<lambda>s. PDict (item_snapshot True s)) (rm_items st))) r in
     bind (lift (size_of (te_json (sv_tools V)) (PDict r'))) (\<lambda>n.
     bind (step_if (n \<le> sv_max_output V) ''provider_output_too_large'') (\<lambda>_.
     bind (modify (\<lambda>st. st\<lparr>mc_terminal := True\<rparr>)) (\<lambda>_.
     ret (released @ [pd_set ''response'' (PDict r') e])))) st)))))"

definition rm_kind :: "pydict \<Rightarrow> string list \<Rightarrow> bool" where "rm_kind e names = in_names (get e ''type'') names"

definition rm_handle :: "'b stream_env \<Rightarrow> pydict \<Rightarrow> (pydict list, 'b) responses_run" where
  "rm_handle V e =
     (if rm_kind e [''error'', ''response.failed'', ''response.incomplete''] then fail_with ''upstream_response_failed''
      else if rm_kind e [''response.created'', ''response.in_progress''] then rm_lifecycle V e
      else bind (\<lambda>st. step_if (mc_started st) INVALID st) (\<lambda>_.
        if rm_kind e [''response.output_item.added''] then rm_item_added V e
        else if rm_kind e [''response.content_part.added'', ''response.content_part.done''] then rm_content_part V e
        else if rm_kind e [''response.output_text.delta'', ''response.output_text.done'', ''response.refusal.delta'', ''response.refusal.done'']
        then rm_text V e
        else if rm_kind e [''response.function_call_arguments.delta'', ''response.function_call_arguments.done'',
                           ''response.custom_tool_call_input.delta'', ''response.custom_tool_call_input.done''] then rm_arguments V e
        else if rm_kind e [''response.output_item.done''] then rm_item_done V e
        else if rm_kind e [''response.completed''] then rm_completed V e
        else fail_with ''unsupported_provider_event''))"

end
