(* ===== verification/BufferedRestore.thy ===== *)
theory BufferedRestore
  imports StreamMachine ResponseShapes
begin

text \<open>
  Restoration of a whole response, \<open>restore_response\<close> of \<^verbatim>\<open>gateway/streaming/protocols.py\<close>: the response is
  checked, all its tool calls are validated as a batch, and each text and call is restored in order.  The
  counter of restored bytes of the machine is \<open>content_bytes\<close>; a refused call leaves its outcome, which the
  code attaches to the exception, in the aggregate.
\<close>

type_synonym ('a, 'b) buffered = "('a, 'b machine) act"

definition caught :: "exn \<Rightarrow> exn" where
  \<comment> \<open>the handlers of \<open>restore_response\<close> and, but for refused requests, of \<open>restore_stream\<close>\<close>
  "caught e =
     (case e of
        RestorationOutputTooLargeError \<Rightarrow> StreamProtocolError ''provider_output_too_large''
      | TypeError \<Rightarrow> invalid_stream | KeyError \<Rightarrow> invalid_stream | ValueError \<Rightarrow> invalid_stream | UnicodeError \<Rightarrow> invalid_stream
      | RecursionError \<Rightarrow> invalid_stream | PatchValidationError \<Rightarrow> invalid_stream | ShellValidationError \<Rightarrow> invalid_stream
      | _ \<Rightarrow> e)"

definition caught_response :: "exn \<Rightarrow> exn" where
  "caught_response e = (case e of RequestRejected _ _ \<Rightarrow> invalid_stream | _ \<Rightarrow> caught e)"

definition b_add :: "ustr \<Rightarrow> (unit, 'b) buffered" where
  "b_add s = bind (lift (encoded_length s)) (\<lambda>n. modify (\<lambda>st. st\<lparr>mc_restored_bytes := mc_restored_bytes st + int n\<rparr>))"

definition b_within :: "'b stream_env \<Rightarrow> (unit, 'b) buffered" where
  "b_within V st = step_if (mc_restored_bytes st \<le> sv_max_output V) ''provider_output_too_large'' st"

definition b_restore_text :: "'b stream_env \<Rightarrow> ustr \<Rightarrow> (outcome, 'b) buffered" where
  "b_restore_text V s st = m_restore V s (sv_max_output V - mc_restored_bytes st) st"

fun b_each :: "(pyval \<Rightarrow> (pyval, 'b) buffered) \<Rightarrow> pyval list \<Rightarrow> (pyval list, 'b) buffered" where
  "b_each f [] = ret []"
| "b_each f (v # vs) = bind (f v) (\<lambda>w. bind (b_each f vs) (\<lambda>ws. ret (w # ws)))"

subsection \<open>Responses\<close>

definition b_part :: "'b stream_env \<Rightarrow> pyval \<Rightarrow> (pyval, 'b) buffered" where
  "b_part V p =
     (case p of
        PDict d \<Rightarrow>
          bind (b_restore_text V (key_text (get d (part_field d)))) (\<lambda>out.
          bind (m_merge out) (\<lambda>_.
          bind (b_add (ro_text out)) (\<lambda>_. ret (PDict (pd_set (part_field d) (PStr (ro_text out)) d)))))
      | _ \<Rightarrow> ret p)"

definition b_call :: "'b stream_env \<Rightarrow> pydict \<Rightarrow> (pyval, 'b) buffered" where
  "b_call V d =
     bind (m_restore_tool V (key_text (get d ''name'')) (key_text (get d (call_field d))) (get d ''type'' = str ''custom_tool_call''))
       (\<lambda>(out, outcome).
     bind (m_merge outcome) (\<lambda>_.
     bind (b_add out) (\<lambda>_.
     bind (b_within V) (\<lambda>_. ret (PDict (pd_set (call_field d) (PStr out) d))))))"

definition b_item :: "'b stream_env \<Rightarrow> pyval \<Rightarrow> (pyval, 'b) buffered" where
  "b_item V v =
     (case v of
        PDict d \<Rightarrow>
          if get d ''type'' = str ''message''
          then bind (b_each (b_part V) (py_items (get d ''content''))) (\<lambda>ps. ret (PDict (pd_set ''content'' (PList ps) d)))
          else if in_names (get d ''type'') TOOL_KINDS then b_call V d
          else ret v
      | _ \<Rightarrow> ret v)"

definition response_calls :: "pyval list \<Rightarrow> (ustr \<times> ustr \<times> bool) list" where
  "response_calls vs = concat (map (\<lambda>v. case v of
      PDict d \<Rightarrow> if in_names (get d ''type'') TOOL_KINDS
        then [(key_text (get d ''name''), key_text (get d (call_field d)), get d ''type'' = str ''custom_tool_call'')] else []
    | _ \<Rightarrow> []) vs)"

definition b_responses :: "'b stream_env \<Rightarrow> pyval \<Rightarrow> (pydict, 'b) buffered" where
  "b_responses V v =
     bind (lift (response_shape (te_json (sv_tools V)) True (sv_max_items V) (sv_expected V) v)) (\<lambda>d.
     bind (m_validate_batch V (response_calls (py_items (get d ''output'')))) (\<lambda>_.
     bind (b_each (b_item V) (py_items (get d ''output''))) (\<lambda>items. ret (pd_set ''output'' (PList items) d))))"

subsection \<open>Messages\<close>

definition dumped_input :: "'b stream_env \<Rightarrow> pydict \<Rightarrow> ustr res" where
  \<comment> \<open>\<open>json.dumps(block["input"])\<close>\<close>
  "dumped_input V d = dumps_text True (jl_repr (te_json (sv_tools V))) (get d ''input'')"

fun message_calls :: "'b stream_env \<Rightarrow> pyval list \<Rightarrow> (ustr \<times> ustr \<times> bool) list res" where
  "message_calls V [] = Inr []"
| "message_calls V (PDict d # vs) =
     (if get d ''type'' = str ''tool_use''
      then rbind (dumped_input V d) (\<lambda>t. rbind (message_calls V vs) (\<lambda>cs. Inr ((key_text (get d ''name''), t, False) # cs)))
      else message_calls V vs)"
| "message_calls V (_ # vs) = message_calls V vs"

definition b_text_block :: "'b stream_env \<Rightarrow> pydict \<Rightarrow> (pyval, 'b) buffered" where
  "b_text_block V d =
     bind (b_restore_text V (key_text (get d ''text''))) (\<lambda>out.
     bind (b_add (ro_text out)) (\<lambda>_.
     bind (m_merge out) (\<lambda>_.
     bind (b_within V) (\<lambda>_. ret (PDict (pd_set ''text'' (PStr (ro_text out)) d))))))"

definition b_tool_block :: "'b stream_env \<Rightarrow> pydict \<Rightarrow> (pyval, 'b) buffered" where
  "b_tool_block V d =
     bind (lift (dumped_input V d)) (\<lambda>t.
     bind (m_restore_tool V (key_text (get d ''name'')) t False) (\<lambda>(out, outcome).
     bind (lift (json_object (te_json (sv_tools V)) out)) (\<lambda>input.
     bind (b_add out) (\<lambda>_.
     bind (m_merge outcome) (\<lambda>_.
     bind (b_within V) (\<lambda>_. ret (PDict (pd_set ''input'' (PDict input) d))))))))"

definition b_block :: "'b stream_env \<Rightarrow> pyval \<Rightarrow> (pyval, 'b) buffered" where
  "b_block V v =
     (case v of
        PDict d \<Rightarrow> if get d ''type'' = str ''text'' then b_text_block V d else b_tool_block V d
      | _ \<Rightarrow> ret v)"

definition b_explanation :: "'b stream_env \<Rightarrow> pydict \<Rightarrow> (pydict, 'b) buffered" where
  "b_explanation V d =
     (case get d ''stop_details'' of
        PDict details \<Rightarrow> (case get details ''explanation'' of
          PStr s \<Rightarrow>
            bind (b_restore_text V s) (\<lambda>out.
            bind (m_merge out) (\<lambda>_.
            ret (pd_set ''stop_details'' (PDict (pd_set ''explanation'' (PStr (ro_text out)) details)) d)))
        | _ \<Rightarrow> ret d)
      | _ \<Rightarrow> ret d)"

definition b_messages :: "'b stream_env \<Rightarrow> pyval \<Rightarrow> (pydict, 'b) buffered" where
  "b_messages V v =
     bind (lift (message_shape (te_json (sv_tools V)) False (sv_max_items V) (sv_expected V) v)) (\<lambda>d.
     bind (lift (message_calls V (py_items (get d ''content'')))) (\<lambda>calls.
     bind (m_validate_batch V calls) (\<lambda>_.
     bind (b_each (b_block V) (py_items (get d ''content''))) (\<lambda>blocks.
     b_explanation V (pd_set ''content'' (PList blocks) d)))))"

subsection \<open>The response\<close>

definition b_sized :: "'b stream_env \<Rightarrow> pyval \<Rightarrow> (unit, 'b) buffered" where
  "b_sized V v =
     bind (lift (size_of (te_json (sv_tools V)) v)) (\<lambda>n. step_if (n \<le> sv_max_output V) ''provider_output_too_large'')"

definition b_response :: "'b stream_env \<Rightarrow> ustr \<Rightarrow> pyval \<Rightarrow> (pydict, 'b) buffered" where
  \<comment> \<open>\<open>_restore_response\<close>\<close>
  "b_response V protocol v =
     bind (b_sized V v) (\<lambda>_.
     bind (if protocol = lit ''responses'' then b_responses V v else b_messages V v) (\<lambda>d.
     bind (b_sized V (PDict d)) (\<lambda>_. ret d)))"

definition restore_protocol_response :: "'b stream_env \<Rightarrow> ustr \<Rightarrow> pyval \<Rightarrow> 'b vault \<Rightarrow> pydict res \<times> 'b machine" where
  "restore_protocol_response V protocol v vault =
     (let st = machine_init vault (outcome_init []) in
      if protocol \<noteq> lit ''responses'' \<and> protocol \<noteq> lit ''messages'' then (Inl ValueError, st)
      else if sv_max_items V < 1 \<or> sv_max_output V < 1 then (Inl ValueError, st)
      else case bind (lift (bounded_json v)) (\<lambda>_. b_response V protocol v) st of
        (Inr d, st') \<Rightarrow> (Inr d, st')
      | (Inl e, st') \<Rightarrow> (Inl (caught_response e), st'))"

end
