(* ===== verification/RestoreStream.thy ===== *)
theory RestoreStream
  imports MessagesStream ResponsesStream BufferedRestore
begin

text \<open>
  The driver of a stream, \<open>restore_stream\<close> of \<^verbatim>\<open>gateway/streaming/protocols.py\<close>.  It is a generator over the
  events of the parser: a run yields heartbeats and encoded events, and ends normally or with an
  exception.  The events of the step that ends the stream are held back until the transport has ended.
\<close>

datatype emitted = Heartbeat | Event pydict bytes

definition keep_alive :: bytes where "keep_alive = utf8 (lit '': keep-alive'' @ [10, 10])"

fun emitted_bytes :: "emitted \<Rightarrow> bytes" where
  "emitted_bytes Heartbeat = keep_alive"
| "emitted_bytes (Event e b) = b"

type_synonym ('b, 'z) dispatch = "pydict \<Rightarrow> (pydict list, ('b, 'z) machine_scheme) act"

fun send :: "'b stream_env \<Rightarrow> bool \<Rightarrow> pydict list \<Rightarrow> ('b, 'z) machine_scheme \<Rightarrow> emitted list \<times> exn option \<times> ('b, 'z) machine_scheme" where
  \<comment> \<open>\<open>for event in events: yield machine.encode(event, ...)\<close>\<close>
  "send V responses [] st = ([], None, st)"
| "send V responses (e # es) st =
     (case m_encode V responses e st of
        (Inl x, st') \<Rightarrow> ([], Some x, st')
      | (Inr b, st') \<Rightarrow> (case send V responses es st' of (out, r) \<Rightarrow> (Event e b # out, r)))"

definition payload_of :: "json_lib \<Rightarrow> sse_event \<Rightarrow> pydict res" where
  "payload_of J f =
     rbind (json_object J (se_data f)) (\<lambda>d.
     rbind (is_string (get d ''type'')) (\<lambda>_.
     rbind (ensure (case se_event f of None \<Rightarrow> True | Some n \<Rightarrow> get d ''type'' = PStr n) INVALID) (\<lambda>_. Inr d)))"

fun frames :: "'b stream_env \<Rightarrow> bool \<Rightarrow> ('b, 'z) dispatch \<Rightarrow> sse_event list \<Rightarrow> exn option \<Rightarrow> pydict list \<Rightarrow> ('b, 'z) machine_scheme
    \<Rightarrow> emitted list \<times> exn option \<times> pydict list \<times> ('b, 'z) machine_scheme" where
  \<comment> \<open>the loop over the parser's events; the parser then ends, or raises\<close>
  "frames V responses dispatch [] ending last_events st = ([], ending, last_events, st)"
| "frames V responses dispatch (f # fs) ending last_events st =
     (if se_heartbeat f
      then if mc_terminal st then ([], Some invalid_stream, last_events, st)
           else case frames V responses dispatch fs ending last_events st of (out, r) \<Rightarrow> (Heartbeat # out, r)
      else case payload_of (te_json (sv_tools V)) f of
        Inl x \<Rightarrow> ([], Some x, last_events, st)
      | Inr d \<Rightarrow>
          (case dispatch d st of
             (Inl x, st') \<Rightarrow> ([], Some x, last_events, st')
           | (Inr events, st') \<Rightarrow>
               if mc_terminal st' then frames V responses dispatch fs ending events st'
               else case send V responses events st' of
                 (out, Some x, st'') \<Rightarrow> (out, Some x, last_events, st'')
               | (out, None, st'') \<Rightarrow>
                   (case frames V responses dispatch fs ending last_events st'' of (out', r) \<Rightarrow> (out @ out', r))))"

definition stream_result :: "'b stream_env \<Rightarrow> bool \<Rightarrow> ('b, 'z) dispatch \<Rightarrow> sse_event list \<Rightarrow> exn option \<Rightarrow> ('b, 'z) machine_scheme
    \<Rightarrow> emitted list \<times> exn option \<times> ('b, 'z) machine_scheme" where
  "stream_result V responses dispatch fs ending st =
     (case frames V responses dispatch fs ending [] st of
        (out, Some x, _, st') \<Rightarrow> (out, Some (caught x), st')
      | (out, None, events, st') \<Rightarrow>
          if \<not> mc_terminal st' then (out, Some (StreamProtocolError ''truncated_provider_stream''), st')
          else case send V responses events st' of (out', r) \<Rightarrow> (out @ out', r))"

definition restore_messages_stream :: "'b stream_env \<Rightarrow> int \<Rightarrow> bytes list \<Rightarrow> outcome \<Rightarrow> 'b vault
    \<Rightarrow> emitted list \<times> exn option \<times> 'b messages_machine" where
  \<comment> \<open>\<open>restore_stream("messages", ...)\<close>\<close>
  "restore_messages_stream V limit pieces out v =
     (if sv_max_items V < 1 \<or> sv_max_output V < 1 then ([], Some ValueError, messages_init v out)
      else case parse_sse limit pieces of (fs, ending) \<Rightarrow>
        stream_result V False (mm_dispatch V) fs ending (messages_init v out))"

definition restore_responses_stream :: "'b stream_env \<Rightarrow> int \<Rightarrow> bytes list \<Rightarrow> outcome \<Rightarrow> 'b vault
    \<Rightarrow> emitted list \<times> exn option \<times> 'b responses_machine" where
  \<comment> \<open>\<open>restore_stream("responses", ...)\<close>\<close>
  "restore_responses_stream V limit pieces out v =
     (if sv_max_items V < 1 \<or> sv_max_output V < 1 then ([], Some ValueError, responses_init v out)
      else case parse_sse limit pieces of (fs, ending) \<Rightarrow>
        stream_result V True (rm_handle V) fs ending (responses_init v out))"

end
