(* ===== verification/StreamFacts.thy ===== *)
theory StreamFacts
  imports RestoreStream
begin

text \<open>
  What both stream machines share: operations that neither hold events back nor touch the protocol's own
  state, and the contract of a machine with the driver, the locale \<open>stream_machine\<close>: no step but the one
  that ends the stream hands out an executable event.
\<close>

subsection \<open>Inert operations\<close>

definition core :: "('b, 'z) machine_scheme \<Rightarrow> 'z \<times> pydict list \<times> bool" where
  "core st = (machine.more st, mc_pending st, mc_terminal st)"

definition inert :: "('a, ('b, 'z) machine_scheme) act \<Rightarrow> bool" where
  "inert m \<longleftrightarrow> (\<forall>s x t. m s = (Inr x, t) \<longrightarrow> core t = core s)"

named_theorems inert_rules \<open>operations that are inert\<close>

lemma inertD: "inert m \<Longrightarrow> m s = (Inr x, t) \<Longrightarrow> core t = core s"
  by (simp add: inert_def)

lemma inert_bind [inert_rules]: "inert m \<Longrightarrow> (\<And>x. inert (f x)) \<Longrightarrow> inert (bind m f)"
  unfolding inert_def bind_Inr by metis

lemma inert_ret [inert_rules]: "inert (ret x)" by (simp add: inert_def ret_def)
lemma inert_lift [inert_rules]: "inert (lift r)" by (simp add: inert_def)
lemma inert_step_if [inert_rules]: "inert (step_if b c)" by (simp add: inert_def)
lemma inert_fail [inert_rules]: "inert (fail_with c)" by (simp add: inert_def)
lemma inert_step_state [inert_rules]: "inert (\<lambda>st. step_if (b st) c st)" by (simp add: inert_def)
lemma inert_modify [inert_rules]: "(\<And>s. core (f s) = core s) \<Longrightarrow> inert (modify f)" by (simp add: inert_def)
lemma inert_if [inert_rules]: "inert m \<Longrightarrow> inert n \<Longrightarrow> inert (if c then m else n)" by simp

lemma inert_state: "(\<And>s. inert (f s)) \<Longrightarrow> inert (\<lambda>s. f s s)"
  by (simp add: inert_def)

lemma inert_add_item [inert_rules]: "inert (m_add_item V)"
  unfolding m_add_item_def by (intro inert_rules) (simp_all add: core_def inert_def)

lemma inert_count [inert_rules]: "inert (m_count V restored s)"
  unfolding m_count_def by (intro inert_rules) (simp_all add: core_def)

lemma inert_feed [inert_rules]: "inert (m_feed V buffer delta final)"
  by (auto simp: inert_def m_feed_def core_def Let_def split: prod.splits)

lemma inert_restore [inert_rules]: "inert (m_restore V s n)"
  by (auto simp: inert_def m_restore_def core_def Let_def split: prod.splits)

lemma inert_merge [inert_rules]: "inert (m_merge out)"
  unfolding m_merge_def by (intro inert_rules) (simp add: core_def)

lemma inert_restore_tool [inert_rules]: "inert (m_restore_tool V name arguments custom)"
  by (auto simp: inert_def m_restore_tool_def core_def Let_def split: prod.splits tool_result.splits)

lemma inert_batch [inert_rules]: "inert (m_validate_batch V calls)" by (simp add: inert_def)

lemma inert_event [inert_rules]: "inert (m_event e allowed required)"
  unfolding m_event_def Let_def
  by (intro inert_rules) (auto simp: core_def inert_def bind_Inr ret_def split: option.splits pyval.splits)

lemma m_event_open: "m_event e allowed required s = (Inr x, t) \<Longrightarrow> \<not> mc_terminal s"
  using inertD [OF inert_event] by (fastforce simp: m_event_def bind_Inr Let_def core_def)

lemma m_hold_core: "m_hold V e s = (Inr x, t) \<Longrightarrow> core t = (machine.more s, mc_pending s @ [e], mc_terminal s)"
  by (auto simp: m_hold_def bind_Inr core_def)

lemma m_encode_core: "m_encode V responses e s = (r, t) \<Longrightarrow> core t = core s"
  by (auto simp: m_encode_def Let_def core_def split: if_splits)

lemma send_core: "send V responses es s = (out, r, t) \<Longrightarrow> core t = core s"
proof (induction es arbitrary: s out r t)
  case (Cons e es)
  obtain x s1 where m: "m_encode V responses e s = (x, s1)" by (metis surj_pair)
  from m_encode_core [OF m] Cons m show ?case by (auto split: sum.splits prod.splits)
qed simp

lemma send_events: "send V responses es s = (out, r, t) \<Longrightarrow> y \<in> set out \<Longrightarrow> \<exists>e b. y = Event e b \<and> e \<in> set es"
  by (induction es arbitrary: s out r t) (fastforce split: sum.splits prod.splits)+

fun events_of :: "emitted list \<Rightarrow> pydict list" where
  "events_of [] = []"
| "events_of (Heartbeat # out) = events_of out"
| "events_of (Event e b # out) = e # events_of out"

lemma events_of_append [simp]: "events_of (a @ b) = events_of a @ events_of b"
  by (induction a rule: events_of.induct) simp_all

lemma events_of_set: "e \<in> set (events_of out) \<longleftrightarrow> (\<exists>b. Event e b \<in> set out)"
  by (induction out rule: events_of.induct) auto

lemma send_all: "send V responses es s = (out, None, t) \<Longrightarrow> events_of out = es"
  by (induction es arbitrary: s out t) (auto split: sum.splits prod.splits)

subsection \<open>The contract of a machine\<close>

locale stream_machine =
  fixes V :: "'b stream_env"
    and dispatch :: "pydict \<Rightarrow> (pydict list, ('b, 'z) machine_scheme) act"
    and executable :: "pydict \<Rightarrow> bool"
    and good :: "('b, 'z) machine_scheme \<Rightarrow> bool"
    and sanctioned :: "pydict list \<Rightarrow> ('b, 'z) machine_scheme \<Rightarrow> bool"
  assumes closed: "dispatch e s = (Inr es, t) \<Longrightarrow> \<not> mc_terminal s"
    and quiet: "good s \<Longrightarrow> dispatch e s = (Inr es, t) \<Longrightarrow> \<not> mc_terminal t \<Longrightarrow> list_all (\<lambda>e. \<not> executable e) es"
    and kept: "good s \<Longrightarrow> dispatch e s = (Inr es, t) \<Longrightarrow> \<not> mc_terminal t \<Longrightarrow> good t"
    and released: "good s \<Longrightarrow> dispatch e s = (Inr es, t) \<Longrightarrow> mc_terminal t \<Longrightarrow> sanctioned es t"
    and frame: "core s = core t \<Longrightarrow> good s = good t"
    and frame_sanctioned: "core s = core t \<Longrightarrow> sanctioned es s = sanctioned es t"
begin

lemma send_quiet:
  "send V responses es s = (out, r, t) \<Longrightarrow> list_all (\<lambda>e. \<not> executable e) es \<Longrightarrow> Event e b \<in> set out \<Longrightarrow> \<not> executable e"
  by (auto dest!: send_events simp: list_all_iff)

text \<open>After the end of the stream no further frame is accepted.\<close>

lemma frames_terminal:
  "frames V responses dispatch fs ending evs s = (out, None, evs', t) \<Longrightarrow> mc_terminal s \<Longrightarrow> fs = [] \<and> out = [] \<and> evs' = evs \<and> t = s"
  by (cases fs) (auto split: if_splits sum.splits prod.splits dest: closed)

lemma frames_terminal_out:
  "frames V responses dispatch fs ending evs s = (out, r) \<Longrightarrow> mc_terminal s \<Longrightarrow> out = []"
  by (cases fs) (auto split: if_splits sum.splits prod.splits dest: closed)

lemma frames_quiet:
  assumes "frames V responses dispatch fs ending evs s = (out, r, evs', t)" and "good s" and "Event e b \<in> set out"
  shows "\<not> executable e"
  using assms
proof (induction fs arbitrary: s out evs)
  case (Cons f fs)
  show ?case
  proof (cases "se_heartbeat f")
    case True
    with Cons show ?thesis by (auto split: if_splits prod.splits)
  next
    case False
    with Cons.prems obtain d es s1 where d: "payload_of (te_json (sv_tools V)) f = Inr d" "dispatch d s = (Inr es, s1)"
      by (auto split: sum.splits prod.splits)
    show ?thesis
    proof (cases "mc_terminal s1")
      case True
      with Cons.prems False d have "frames V responses dispatch fs ending es s1 = (out, r, evs', t)" by simp
      from frames_terminal_out [OF this True] Cons.prems(3) show ?thesis by simp
    next
      case not_terminal: False
      obtain o1 x s2 where o: "send V responses es s1 = (o1, x, s2)" by (metis prod_cases3)
      have "good s2" using kept [OF Cons.prems(2) d(2) not_terminal] frame send_core [OF o] by blast
      from quiet [OF Cons.prems(2) d(2) not_terminal] have q: "list_all (\<lambda>e. \<not> executable e) es" .
      show ?thesis
      proof (cases x)
        case None
        obtain o2 y where f: "frames V responses dispatch fs ending evs s2 = (o2, y)" by (metis surj_pair)
        with Cons.prems False d not_terminal o None have "out = o1 @ o2" "y = (r, evs', t)" by auto
        with Cons.prems(3) send_quiet [OF o q] Cons.IH [of evs s2 o2] f \<open>good s2\<close> show ?thesis by auto
      next
        case (Some z)
        with Cons.prems False d not_terminal o send_quiet [OF o q] show ?thesis by auto
      qed
    qed
  qed
qed simp

lemma frames_good:
  assumes "frames V responses dispatch fs ending evs s = (out, None, evs', t)" and "good s" and "\<not> mc_terminal s" and "mc_terminal t"
  shows "sanctioned evs' t \<and> ending = None"
  using assms
proof (induction fs arbitrary: s out evs)
  case (Cons f fs)
  show ?case
  proof (cases "se_heartbeat f")
    case True
    with Cons show ?thesis by (auto split: if_splits prod.splits)
  next
    case False
    with Cons.prems obtain d es s1 where d: "payload_of (te_json (sv_tools V)) f = Inr d" "dispatch d s = (Inr es, s1)"
      by (auto split: sum.splits prod.splits)
    show ?thesis
    proof (cases "mc_terminal s1")
      case True
      with Cons.prems False d have f: "frames V responses dispatch fs ending es s1 = (out, None, evs', t)" by simp
      from frames_terminal [OF this True] released [OF Cons.prems(2) d(2) True] f show ?thesis by simp
    next
      case not_terminal: False
      obtain o1 x s2 where o: "send V responses es s1 = (o1, x, s2)" by (metis prod_cases3)
      from Cons.prems False d not_terminal o have x: "x = None" by (cases x) auto
      obtain o2 y where f: "frames V responses dispatch fs ending evs s2 = (o2, y)" by (metis surj_pair)
      with Cons.prems False d not_terminal o x have y: "y = (None, evs', t)" by auto
      from send_core [OF o] have c: "core s2 = core s1" .
      with kept [OF Cons.prems(2) d(2) not_terminal] have "good s2" using frame by blast
      moreover from c not_terminal have "\<not> mc_terminal s2" by (simp add: core_def)
      ultimately show ?thesis using Cons.IH [of evs s2 o2] f y Cons.prems(4) by simp
    qed
  qed
qed simp

text \<open>An executable event is handed out only after the whole stream was accepted, and then it is sanctioned.\<close>

lemma executable_after_success:
  assumes "stream_result V responses dispatch fs ending s = (out, r, t)" and "good s" and "\<not> mc_terminal s"
    and "Event e b \<in> set out" and "executable e"
  shows "ending = None \<and> mc_terminal t \<and> (\<exists>es. e \<in> set es \<and> sanctioned es t)"
proof -
  obtain o1 x evs s1 where f: "frames V responses dispatch fs ending [] s = (o1, x, evs, s1)" by (metis prod_cases4)
  note no = frames_quiet [OF f assms(2)]
  show ?thesis
  proof (cases x)
    case (Some z)
    with assms(1,4,5) f no show ?thesis by (auto simp: stream_result_def)
  next
    case None
    show ?thesis
    proof (cases "mc_terminal s1")
      case False
      with assms(1,4,5) f no None show ?thesis by (auto simp: stream_result_def)
    next
      case True
      obtain o2 y s2 where o: "send V responses evs s1 = (o2, y, s2)" by (metis prod_cases3)
      with assms(1) f None True have out: "out = o1 @ o2" "t = s2" by (auto simp: stream_result_def)
      with assms(4,5) no have "Event e b \<in> set o2" by auto
      from send_events [OF o this] have "e \<in> set evs" by simp
      from f None have "frames V responses dispatch fs ending [] s = (o1, None, evs, s1)" by simp
      from frames_good [OF this assms(2,3) True] have "sanctioned evs s1" "ending = None" by simp_all
      moreover have "core s2 = core s1" by (rule send_core [OF o])
      ultimately have "sanctioned evs t" using frame_sanctioned [of s2 s1 evs] out(2) by simp
      with \<open>e \<in> set evs\<close> \<open>ending = None\<close> \<open>core s2 = core s1\<close> True out(2) show ?thesis by (auto simp: core_def)
    qed
  qed
qed

text \<open>On success the run is prose and then the sanctioned events of the last step.\<close>

lemma success_releases:
  assumes "stream_result V responses dispatch fs ending s = (out, None, t)" and "good s" and "\<not> mc_terminal s"
  shows "\<exists>pre es. events_of out = pre @ es \<and> list_all (\<lambda>e. \<not> executable e) pre \<and> sanctioned es t"
proof -
  obtain o1 x evs s1 where f: "frames V responses dispatch fs ending [] s = (o1, x, evs, s1)" by (metis prod_cases4)
  with assms(1) have x: "x = None" by (cases x) (auto simp: stream_result_def)
  with assms(1) f have T: "mc_terminal s1" by (cases "mc_terminal s1") (auto simp: stream_result_def)
  obtain o2 y s2 where o: "send V responses evs s1 = (o2, y, s2)" by (metis prod_cases3)
  with assms(1) f x T have out: "out = o1 @ o2" "t = s2" "y = None" by (auto simp: stream_result_def)
  from f x have "frames V responses dispatch fs ending [] s = (o1, None, evs, s1)" by simp
  from frames_good [OF this assms(2,3) T] have "sanctioned evs s1" by simp
  moreover have "core s2 = core s1" by (rule send_core [OF o])
  ultimately have "sanctioned evs t" using frame_sanctioned [of s2 s1 evs] out(2) by simp
  moreover have "events_of o2 = evs" using send_all o out(3) by blast
  moreover have "list_all (\<lambda>e. \<not> executable e) (events_of o1)"
    using frames_quiet [OF f assms(2)] by (auto simp: list_all_iff events_of_set)
  ultimately show ?thesis by (intro exI [of _ "events_of o1"] exI [of _ evs]) (simp add: out(1))
qed

end

end
