(* ===== verification/MessagesStreamFacts.thy ===== *)
theory MessagesStreamFacts
  imports StreamFacts
begin

text \<open>
  What the Messages stream hands out: prose as it comes, and of a tool call, once the whole stream has
  succeeded, its start, one delta with the arguments the registry returned, and its stop.
\<close>

subsection \<open>What each handler does to the blocks and to the held events\<close>

definition mm_view :: "'b messages_machine \<Rightarrow> stream_block list \<times> pydict list \<times> bool \<times> bool" where
  "mm_view st = (mm_blocks st, mc_pending st, mm_done st, mc_terminal st)"

lemma same_more:
  "machine.more s = machine.more t \<Longrightarrow> mm_blocks s = mm_blocks t"
  "machine.more s = machine.more t \<Longrightarrow> mm_done s = mm_done t"
  "machine.more s = machine.more t \<Longrightarrow> mm_delta s = mm_delta t"
  by (cases s; cases t; clarsimp)+

lemma core_view: "core s = core t \<Longrightarrow> mm_view s = mm_view t \<and> mm_delta s = mm_delta t"
  using same_more [of s t] by (simp add: core_def mm_view_def)

lemma inert_view: "inert m \<Longrightarrow> m s = (Inr x, t) \<Longrightarrow> mm_view t = mm_view s"
  by (rule core_view [THEN conjunct1, OF inertD])

lemma ret_Inr [simp]: "ret x s = (Inr y, t) \<longleftrightarrow> y = x \<and> t = s" by (auto simp: ret_def)

definition of_block :: "nat \<Rightarrow> pydict \<Rightarrow> bool" where "of_block i e \<longleftrightarrow> get e ''index'' = PInt (int i)"

lemma stream_index_Inr: "stream_index m v = Inr i \<Longrightarrow> v = PInt (int i)"
  by (auto simp: stream_index_def split: pyval.splits if_splits)

lemma shape_Inr: "shape v a r = Inr d \<Longrightarrow> v = PDict d"
  by (auto simp: shape_def split: pyval.splits if_splits)

lemma mm_located_Inr:
  assumes "mm_located V e s = (Inr (i, b), t)"
  shows "t = s \<and> of_block i e \<and> i < length (mm_blocks s) \<and> b = mm_blocks s ! i \<and> \<not> mb_done b"
proof -
  from assms obtain j where "stream_index (sv_max_items V) (get e ''index'') = Inr j"
    "(if length (mm_blocks s) \<le> j \<or> mb_done (mm_blocks s ! j) then fail_with INVALID s else ret (j, mm_blocks s ! j) s) = (Inr (i, b), t)"
    by (auto simp: mm_located_def bind_Inr)
  then show ?thesis by (auto simp: of_block_def dest: stream_index_Inr split: if_splits)
qed

lemma mm_put_view: "mm_put i b s = (Inr x, t) \<Longrightarrow> mm_view t = ((mm_blocks s)[i := b], mc_pending s, mm_done s, mc_terminal s)"
  by (simp add: mm_put_def mm_view_def)

lemma m_hold_view: "m_hold V e s = (Inr x, t) \<Longrightarrow> mm_view t = (mm_blocks s, mc_pending s @ [e], mm_done s, mc_terminal s)"
  by (auto simp: m_hold_def bind_Inr mm_view_def)

lemma block_shape_Inr: "block_shape J start v = Inr d \<Longrightarrow> v = PDict d \<and> (get d ''type'' = str ''text'' \<or> get d ''type'' = str ''tool_use'')"
  by (auto simp: block_shape_def rbind_eq_Inr split: pyval.splits if_splits)

lemma mm_block_start_view:
  assumes "mm_block_start V e s = (Inr es, t)"
  shows "\<exists>d. get e ''content_block'' = PDict d \<and> of_block (length (mm_blocks s)) e
     \<and> (get d ''type'' = str ''text'' \<or> get d ''type'' = str ''tool_use'')
     \<and> mm_view t = (mm_blocks s @ [mm_new_block d],
                    if get d ''type'' = str ''tool_use'' then mc_pending s @ [e] else mc_pending s, mm_done s, mc_terminal s)
     \<and> es = (if get d ''type'' = str ''tool_use'' then [] else [e])"
proof -
  from assms obtain x1 s1 i d s2 x3 s3 x4 s4 where
    a: "m_event e [''index'', ''content_block''] [''index'', ''content_block''] s = (Inr x1, s1)"
    and i: "stream_index (sv_max_items V) (get e ''index'') = Inr i"
    and d: "block_shape (te_json (sv_tools V)) True (get e ''content_block'') = Inr d"
    and l: "i = length (mm_blocks s1)"
    and b: "(if get d ''type'' = str ''tool_use''
           then bind (\<lambda>st. step_if (get d ''id'' \<notin> set (mm_calls st)) INVALID st) (\<lambda>_.
                modify (\<lambda>st. st\<lparr>mm_calls := get d ''id'' # mm_calls st\<rparr>))
           else ret ()) s1 = (Inr x3, s2)"
    and c: "m_add_item V (s2\<lparr>mm_blocks := mm_blocks s2 @ [mm_new_block d]\<rparr>) = (Inr x4, s3)"
    and f: "(if get d ''type'' = str ''tool_use'' then bind (m_hold V e) (\<lambda>_. ret []) else ret [e]) s3 = (Inr es, t)"
    unfolding mm_block_start_def Let_def by (auto simp: bind_Inr simp del: bind_ret bind_ret_right)
  have v1: "mm_view s1 = mm_view s" by (rule inert_view [OF inert_event a])
  have v2: "mm_view s2 = mm_view s1" using b by (auto simp: bind_Inr mm_view_def split: if_splits)
  have v3: "mm_view s3 = (mm_blocks s2 @ [mm_new_block d], mc_pending s2, mm_done s2, mc_terminal s2)"
    using inert_view [OF inert_add_item c] by (simp add: mm_view_def)
  have "mm_view t = (mm_blocks s3, if get d ''type'' = str ''tool_use'' then mc_pending s3 @ [e] else mc_pending s3, mm_done s3, mc_terminal s3)
     \<and> es = (if get d ''type'' = str ''tool_use'' then [] else [e])"
    using f by (auto simp: bind_Inr mm_view_def dest!: m_hold_view split: if_splits)
  with v1 v2 v3 stream_index_Inr [OF i] l block_shape_Inr [OF d] show ?thesis
    by (auto simp: mm_view_def of_block_def)
qed

lemma mm_text_delta_view:
  assumes "mm_text_delta V e i b s = (Inr es, t)"
  shows "\<exists>buffer. mm_view t = ((mm_blocks s)[i := b\<lparr>mb_buffer := buffer\<rparr>], mc_pending s, mm_done s, mc_terminal s)
     \<and> (es = [] \<or> (\<exists>r. r \<noteq> [] \<and> es = [with_delta ''text'' r e]))
     \<and> (\<exists>d. get e ''delta'' = PDict d \<and> get d ''type'' = str ''text_delta'')"
proof -
  from assms obtain d x1 s1 r buffer s2 x3 s3 x4 where
    d: "shape (get e ''delta'') [''type'', ''text''] [''type'', ''text''] = Inr d" "get d ''type'' = str ''text_delta''"
    and a: "m_count V False x1 s = (Inr (), s1)" "m_feed V (mb_buffer b) x1 False s1 = (Inr (r, buffer), s2)"
    and p: "mm_put i (b\<lparr>mb_buffer := buffer\<rparr>) s2 = (Inr x3, s3)" and c: "m_count V True r s3 = (Inr x4, t)"
    and es: "es = (if r = [] then [] else [with_delta ''text'' r e])"
    unfolding mm_text_delta_def by (auto simp: bind_Inr)
  have "mm_view s2 = mm_view s" using inert_view [OF inert_count a(1)] inert_view [OF inert_feed a(2)] by simp
  moreover have "mm_view t = mm_view s3" by (rule inert_view [OF inert_count c])
  ultimately show ?thesis using mm_put_view [OF p] shape_Inr [OF d(1)] d(2) es
    by (auto simp: mm_view_def)
qed

lemma mm_input_delta_view:
  assumes "mm_input_delta V e i b s = (Inr es, t)"
  shows "\<exists>c. mm_view t = ((mm_blocks s)[i := b\<lparr>mb_chunks := c\<rparr>], mc_pending s @ [e], mm_done s, mc_terminal s)
     \<and> es = [] \<and> (\<exists>d. get e ''delta'' = PDict d \<and> get d ''type'' = str ''input_json_delta'')"
proof -
  from assms obtain d x1 s1 x2 s2 x3 where
    d: "shape (get e ''delta'') [''type'', ''partial_json''] [''type'', ''partial_json''] = Inr d" "get d ''type'' = str ''input_json_delta''"
    and a: "m_count V False x1 s = (Inr (), s1)"
    and p: "mm_put i (b\<lparr>mb_chunks := mb_chunks b @ [x1]\<rparr>) s1 = (Inr x2, s2)" and h: "m_hold V e s2 = (Inr x3, t)" and es: "es = []"
    unfolding mm_input_delta_def by (auto simp: bind_Inr)
  have "mm_view s1 = mm_view s" by (rule inert_view [OF inert_count a])
  with mm_put_view [OF p] m_hold_view [OF h] shape_Inr [OF d(1)] d(2) es show ?thesis
    by (auto simp: mm_view_def)
qed

lemma mm_block_delta_view:
  assumes "mm_block_delta V e s = (Inr es, t)"
  shows "\<exists>i b'. of_block i e \<and> i < length (mm_blocks s) \<and> mb_raw b' = mb_raw (mm_blocks s ! i) \<and> \<not> mb_done b'
     \<and> \<not> mb_done (mm_blocks s ! i)
     \<and> mm_view t = ((mm_blocks s)[i := b'],
          if get (mb_raw (mm_blocks s ! i)) ''type'' = str ''text'' then mc_pending s else mc_pending s @ [e], mm_done s, mc_terminal s)
     \<and> (if get (mb_raw (mm_blocks s ! i)) ''type'' = str ''text''
        then (\<exists>d. get e ''delta'' = PDict d \<and> get d ''type'' = str ''text_delta'') \<and> (es = [] \<or> (\<exists>r. r \<noteq> [] \<and> es = [with_delta ''text'' r e]))
        else es = [] \<and> (\<exists>d. get e ''delta'' = PDict d \<and> get d ''type'' = str ''input_json_delta''))"
proof -
  from assms obtain x1 s1 i b s2 where
    a: "m_event e [''index'', ''delta''] [''index'', ''delta''] s = (Inr x1, s1)" and l: "mm_located V e s1 = (Inr (i, b), s2)"
    and m: "(if get (mb_raw b) ''type'' = str ''text'' then mm_text_delta V e i b else mm_input_delta V e i b) s2 = (Inr es, t)"
    unfolding mm_block_delta_def by (auto simp: bind_Inr)
  have v: "mm_view s1 = mm_view s" by (rule inert_view [OF inert_event a])
  from mm_located_Inr [OF l] have i: "s2 = s1" "of_block i e" "i < length (mm_blocks s1)" "b = mm_blocks s1 ! i" "\<not> mb_done b" by auto
  show ?thesis
  proof (cases "get (mb_raw b) ''type'' = str ''text''")
    case True
    with m have "mm_text_delta V e i b s2 = (Inr es, t)" by simp
    from mm_text_delta_view [OF this] obtain buffer where
      "mm_view t = ((mm_blocks s2)[i := b\<lparr>mb_buffer := buffer\<rparr>], mc_pending s2, mm_done s2, mc_terminal s2)"
      "es = [] \<or> (\<exists>r. r \<noteq> [] \<and> es = [with_delta ''text'' r e])" "\<exists>d. get e ''delta'' = PDict d \<and> get d ''type'' = str ''text_delta''"
      by blast
    with v i True show ?thesis
      by (intro exI [of _ i] exI [of _ "b\<lparr>mb_buffer := buffer\<rparr>"]) (simp add: mm_view_def)
  next
    case False
    with m have "mm_input_delta V e i b s2 = (Inr es, t)" by simp
    from mm_input_delta_view [OF this] obtain c where
      "mm_view t = ((mm_blocks s2)[i := b\<lparr>mb_chunks := c\<rparr>], mc_pending s2 @ [e], mm_done s2, mc_terminal s2)"
      "es = []" "\<exists>d. get e ''delta'' = PDict d \<and> get d ''type'' = str ''input_json_delta''"
      by blast
    with v i False show ?thesis
      by (intro exI [of _ i] exI [of _ "b\<lparr>mb_chunks := c\<rparr>"]) (simp add: mm_view_def)
  qed
qed

lemma mm_block_stop_view:
  assumes "mm_block_stop V e s = (Inr es, t)"
  shows "\<exists>i b'. of_block i e \<and> i < length (mm_blocks s) \<and> mb_raw b' = mb_raw (mm_blocks s ! i) \<and> mb_done b'
     \<and> \<not> mb_done (mm_blocks s ! i)
     \<and> mm_view t = ((mm_blocks s)[i := b'],
          if is_call (mm_blocks s ! i) then mc_pending s @ [e] else mc_pending s, mm_done s, mc_terminal s)
     \<and> (if is_call (mm_blocks s ! i) then es = [] else \<exists>r. es = (if r = [] then [] else [text_delta (get e ''index'') r]) @ [e])"
proof -
  from assms obtain x1 s1 i b s2 where
    a: "m_event e [''index''] [''index''] s = (Inr x1, s1)" and l: "mm_located V e s1 = (Inr (i, b), s2)"
    and m: "mm_stop_at V e i (b\<lparr>mb_done := True\<rparr>) s2 = (Inr es, t)"
    unfolding mm_block_stop_def by (auto simp: bind_Inr)
  define b' where "b' = b\<lparr>mb_done := True\<rparr>"
  from m obtain x2 s3 where p: "mm_put i b' s2 = (Inr x2, s3)"
    and m': "(if is_call b' then bind (m_hold V e) (\<lambda>_. ret []) else mm_text_stop V e i b') s3 = (Inr es, t)"
    unfolding mm_stop_at_def bind_Inr b'_def by blast
  have v: "mm_view s1 = mm_view s" by (rule inert_view [OF inert_event a])
  from mm_located_Inr [OF l] have i: "s2 = s1" "of_block i e" "i < length (mm_blocks s1)" "b = mm_blocks s1 ! i" "\<not> mb_done b" by auto
  have b': "mb_raw b' = mb_raw b" "is_call b' = is_call b" "mb_done b'" by (simp_all add: b'_def is_call_def)
  from mm_put_view [OF p] i(1) have v3: "mm_view s3 = ((mm_blocks s1)[i := b'], mc_pending s1, mm_done s1, mc_terminal s1)" by simp
  show ?thesis
  proof (cases "is_call b")
    case True
    with m' b' obtain x where h: "m_hold V e s3 = (Inr x, t)" "es = []" by (auto simp: bind_Inr)
    from m_hold_view [OF h(1)] v v3 i True h(2) b' show ?thesis
      by (intro exI [of _ i] exI [of _ b']) (auto simp: mm_view_def)
  next
    case False
    with m' b' obtain r buffer s4 x5 s5 x6 where f: "m_feed V (mb_buffer b') [] True s3 = (Inr (r, buffer), s4)"
      and q: "mm_put i (b'\<lparr>mb_buffer := buffer\<rparr>) s4 = (Inr x5, s5)" and c: "m_count V True r s5 = (Inr x6, t)"
      and es: "es = (if r = [] then [] else [text_delta (get e ''index'') r]) @ [e]"
      by (auto simp: bind_Inr mm_text_stop_def)
    have "mm_view s4 = mm_view s3" by (rule inert_view [OF inert_feed f])
    moreover have "mm_view t = mm_view s5" by (rule inert_view [OF inert_count c])
    ultimately show ?thesis using mm_put_view [OF q] v v3 i False es b'
      by (intro exI [of _ i] exI [of _ "b'\<lparr>mb_buffer := buffer\<rparr>"]) (auto simp: mm_view_def)
  qed
qed

lemma m_event_lacks:
  assumes "m_event e allowed required s = (Inr x, t)" and "k \<notin> set allowed" and "k \<noteq> ''type''" and "k \<noteq> ''sequence_number''"
  shows "get e k = PNone"
proof -
  from assms(1) obtain d where "shape (PDict e) (allowed @ [''type'', ''sequence_number'']) (required @ [''type'']) = Inr d"
    unfolding m_event_def by (auto simp: bind_Inr)
  then have "keys_within e (allowed @ [''type'', ''sequence_number''])" by (simp add: shape_def split: if_splits)
  with assms(2-4) have "PStr (lit k) \<notin> fst ` set e"
    by (auto simp: keys_within_def list_all_iff in_names_def)
  then show ?thesis by (simp add: get_def pd_get_or_def pd_get_def map_of_eq_None_iff [symmetric])
qed

lemma inert_explanation [inert_rules]: "inert (mm_explanation V e)"
  unfolding mm_explanation_def
  by (auto intro!: inert_rules inert_state [where f = "\<lambda>st. m_restore V x (sv_max_output V - mc_restored_bytes st)" for x]
      split: pyval.splits)

lemma mm_message_delta_view:
  assumes "mm_message_delta V e s = (Inr es, t)"
  shows "mm_view t = (mm_blocks s, mc_pending s, True, mc_terminal s) \<and> list_all mb_done (mm_blocks s) \<and> es = []
     \<and> (\<exists>e'. mm_delta t = Some e' \<and> get e' ''type'' = get e ''type'' \<and> get e' ''index'' = PNone)"
proof -
  from assms obtain x1 s1 delta e' s2 where
    a: "m_event e [''delta'', ''usage''] [''delta'', ''usage''] s = (Inr x1, s1)" and l: "list_all mb_done (mm_blocks s1)"
    and m: "mm_explanation V e s1 = (Inr e', s2)" and t: "t = s2\<lparr>mm_delta := Some e', mm_done := True\<rparr>" and es: "es = []"
    unfolding mm_message_delta_def by (auto simp: bind_Inr)
  have v: "mm_view s1 = mm_view s" by (rule inert_view [OF inert_event a])
  have v2: "mm_view s2 = mm_view s1" by (rule inert_view [OF inert_explanation m])
  have "get e' ''type'' = get e ''type'' \<and> get e' ''index'' = get e ''index''"
    using m by (auto simp: mm_explanation_def bind_Inr get_def pd_get_or_def split: pyval.splits option.splits)
  with v v2 l t es m_event_lacks [OF a, of "''index''"] show ?thesis by (auto simp: mm_view_def)
qed

subsection \<open>Which events a client executes, and what is held of a call\<close>

definition mm_executable :: "pydict \<Rightarrow> bool" where
  "mm_executable e \<longleftrightarrow>
     (get e ''type'' = str ''content_block_start'' \<and> block_field (get e ''content_block'') ''type'' = str ''tool_use'')
   \<or> (get e ''type'' = str ''content_block_delta'' \<and> block_field (get e ''delta'') ''type'' = str ''input_json_delta'')"

definition is_start :: "stream_block \<Rightarrow> pydict \<Rightarrow> bool" where
  "is_start b e \<longleftrightarrow> get e ''type'' = str ''content_block_start'' \<and> get e ''content_block'' = PDict (mb_raw b)"

definition is_delta :: "pydict \<Rightarrow> bool" where
  "is_delta e \<longleftrightarrow> get e ''type'' = str ''content_block_delta''
     \<and> (\<exists>d. get e ''delta'' = PDict d \<and> get d ''type'' = str ''input_json_delta'')"

definition is_stop :: "pydict \<Rightarrow> bool" where "is_stop e \<longleftrightarrow> get e ''type'' = str ''content_block_stop''"

definition call_held :: "stream_block \<Rightarrow> pydict list \<Rightarrow> bool" where
  \<comment> \<open>the held events of a call: its start, deltas, and its stop once it has one\<close>
  "call_held b es \<longleftrightarrow> (\<exists>start ds stops. es = start # ds @ stops \<and> is_start b start \<and> list_all is_delta ds
     \<and> (if mb_done b then \<exists>stop. stops = [stop] \<and> is_stop stop else stops = []))"

definition block_ok :: "stream_block list \<Rightarrow> pydict list \<Rightarrow> nat \<Rightarrow> bool" where
  "block_ok blocks pending i \<longleftrightarrow>
     (get (mb_raw (blocks ! i)) ''type'' = str ''text'' \<or> is_call (blocks ! i))
   \<and> (is_call (blocks ! i) \<longrightarrow> call_held (blocks ! i) (filter (of_block i) pending))"

definition mm_good :: "'b messages_machine \<Rightarrow> bool" where
  "mm_good st \<longleftrightarrow> (\<forall>i < length (mm_blocks st). block_ok (mm_blocks st) (mc_pending st) i)
     \<and> (\<forall>e \<in> set (mc_pending st). \<exists>i < length (mm_blocks st). of_block i e \<and> is_call (mm_blocks st ! i))
     \<and> (mm_done st \<longrightarrow> list_all mb_done (mm_blocks st))"

lemma of_block_unique: "of_block i e \<Longrightarrow> of_block j e \<longleftrightarrow> j = i" by (auto simp: of_block_def)

lemma good_init: "mm_good (messages_init v out)"
  by (simp add: mm_good_def messages_init_def machine_init_def machine.defs)

lemma mm_good_view: "mm_view s = mm_view t \<Longrightarrow> mm_good s = mm_good t"
  by (simp add: mm_good_def mm_view_def)

text \<open>Adding a block, and updating one block with perhaps one more held event.\<close>

lemma good_new_block:
  assumes g: "mm_good s" and v: "mm_view t = (mm_blocks s @ [mm_new_block d], if get d ''type'' = str ''tool_use'' then mc_pending s @ [e] else mc_pending s, mm_done s, b)"
    and e: "of_block (length (mm_blocks s)) e" "get d ''type'' = str ''text'' \<or> get d ''type'' = str ''tool_use''"
      "get e ''type'' = str ''content_block_start''" "get e ''content_block'' = PDict d" and n: "\<not> mm_done s"
  shows "mm_good t"
proof -
  let ?n = "length (mm_blocks s)"
  have none: "filter (of_block ?n) (mc_pending s) = []"
    using g of_block_unique by (fastforce simp: mm_good_def filter_empty_conv)
  have old: "filter (of_block i) (mc_pending t) = filter (of_block i) (mc_pending s)" if "i < ?n" for i
    using v e(1) that by (auto simp: mm_view_def of_block_unique split: if_splits)
  have "block_ok (mm_blocks t) (mc_pending t) i" if "i < length (mm_blocks t)" for i
  proof (cases "i < ?n")
    case True
    with g v old show ?thesis by (auto simp: mm_good_def mm_view_def block_ok_def nth_append)
  next
    case False
    with that v have i: "i = ?n" by (auto simp: mm_view_def)
    have b: "mm_blocks t ! ?n = mm_new_block d" using v by (auto simp: mm_view_def)
    have "call_held (mm_new_block d) (filter (of_block ?n) (mc_pending t))" if "get d ''type'' = str ''tool_use''"
    proof -
      have "filter (of_block ?n) (mc_pending t) = [e]" using v that none e(1) by (auto simp: mm_view_def)
      then show ?thesis using e(3,4) by (auto simp: call_held_def is_start_def mm_new_block_def intro!: exI [of _ e] exI [of _ "[]"])
    qed
    with e(2) show ?thesis by (auto simp: block_ok_def i b is_call_def mm_new_block_def)
  qed
  moreover have "\<exists>i < length (mm_blocks t). of_block i x \<and> is_call (mm_blocks t ! i)" if x: "x \<in> set (mc_pending t)" for x
  proof (cases "x \<in> set (mc_pending s)")
    case True
    with g obtain i where "i < ?n" "of_block i x" "is_call (mm_blocks s ! i)" by (auto simp: mm_good_def)
    with v show ?thesis by (intro exI [of _ i]) (auto simp: mm_view_def nth_append)
  next
    case False
    with x v have "x = e" "get d ''type'' = str ''tool_use''" by (auto simp: mm_view_def split: if_splits)
    with v e(1) show ?thesis by (intro exI [of _ ?n]) (auto simp: mm_view_def is_call_def mm_new_block_def)
  qed
  moreover have "\<not> mm_done t" using v n by (auto simp: mm_view_def)
  ultimately show ?thesis by (simp add: mm_good_def)
qed

lemma good_update:
  assumes g: "mm_good s" and i: "i < length (mm_blocks s)" "of_block i e" and r: "mb_raw b' = mb_raw (mm_blocks s ! i)"
    and v: "mm_view t = ((mm_blocks s)[i := b'], if is_call (mm_blocks s ! i) then mc_pending s @ [e] else mc_pending s, mm_done s, b)"
    and h: "is_call (mm_blocks s ! i) \<Longrightarrow> call_held (mm_blocks s ! i) (filter (of_block i) (mc_pending s)) \<Longrightarrow>
      call_held b' (filter (of_block i) (mc_pending s) @ [e])" and n: "\<not> mm_done s"
  shows "mm_good t"
proof -
  have raw: "mb_raw ((mm_blocks s)[i := b'] ! j) = mb_raw (mm_blocks s ! j)" for j
    using r by (cases "j = i") (auto simp: nth_list_update i(1))
  have calls: "is_call ((mm_blocks s)[i := b'] ! j) = is_call (mm_blocks s ! j)" for j by (simp add: is_call_def raw)
  have t: "mm_blocks t = (mm_blocks s)[i := b']" "\<not> mm_done t"
    "mc_pending t = (if is_call (mm_blocks s ! i) then mc_pending s @ [e] else mc_pending s)" using v n by (auto simp: mm_view_def)
  have "block_ok (mm_blocks t) (mc_pending t) j" if "j < length (mm_blocks t)" for j
  proof -
    have old: "block_ok (mm_blocks s) (mc_pending s) j" using g that t(1) by (simp add: mm_good_def)
    have "call_held ((mm_blocks s)[i := b'] ! j) (filter (of_block j) (mc_pending t))" if c: "is_call (mm_blocks s ! j)"
    proof (cases "j = i")
      case True
      with old c h i t(3) show ?thesis by (simp add: block_ok_def)
    next
      case False
      then have "filter (of_block j) (mc_pending t) = filter (of_block j) (mc_pending s)" using i(2) t(3) by (simp add: of_block_unique)
      with old c False show ?thesis by (simp add: block_ok_def)
    qed
    with old show ?thesis by (simp add: block_ok_def t(1) raw calls)
  qed
  moreover have "\<exists>j < length (mm_blocks t). of_block j x \<and> is_call (mm_blocks t ! j)" if x: "x \<in> set (mc_pending t)" for x
  proof (cases "x \<in> set (mc_pending s)")
    case True
    with g show ?thesis by (auto simp: mm_good_def t(1) calls)
  next
    case False
    with x t(3) have "x = e" "is_call (mm_blocks s ! i)" by (auto split: if_splits)
    with i show ?thesis by (auto simp: t(1) calls)
  qed
  ultimately show ?thesis by (simp add: mm_good_def t(2))
qed

subsection \<open>The steps before the end\<close>

lemma chain:
  "(if c1 then m1 else if c2 then m2 else if c3 then m3 else if c4 then m4 else if c5 then fail_with a else fail_with b) s = (Inr x, t)
     \<Longrightarrow> c1 \<and> m1 s = (Inr x, t) \<or> c2 \<and> m2 s = (Inr x, t) \<or> c3 \<and> m3 s = (Inr x, t) \<or> c4 \<and> m4 s = (Inr x, t)"
  "(if c1 then fail_with a else if c2 then m2 else if c3 then m3 else m4) s = (Inr x, t)
     \<Longrightarrow> c2 \<and> m2 s = (Inr x, t) \<or> c3 \<and> m3 s = (Inr x, t) \<or> m4 s = (Inr x, t)"
  by (auto split: if_splits)

text \<open>An accepted event is one of six kinds.\<close>

lemma mm_handle_cases:
  assumes "mm_handle V e s = (Inr es, t)"
  obtains (ping) "get e ''type'' = str ''ping''" "m_event e [] [] s = (Inr (), t)" "es = [e]"
    | (first) "get e ''type'' = str ''message_start''" "mm_start V e s = (Inr es, t)"
    | (start) "get e ''type'' = str ''content_block_start''" "mm_block_start V e s = (Inr es, t)" "\<not> mm_done s"
    | (delta) "get e ''type'' = str ''content_block_delta''" "mm_block_delta V e s = (Inr es, t)" "\<not> mm_done s"
    | (stop) "get e ''type'' = str ''content_block_stop''" "mm_block_stop V e s = (Inr es, t)" "\<not> mm_done s"
    | (final) "get e ''type'' = str ''message_delta''" "mm_message_delta V e s = (Inr es, t)" "\<not> mm_done s"
proof -
  from chain(2) [OF assms [unfolded mm_handle_def Let_def]] show ?thesis
  proof (elim disjE conjE)
    assume "bind (\<lambda>st. step_if (mc_started st \<and> \<not> mm_done st) INVALID st) (\<lambda>_.
        if get e ''type'' = str ''content_block_start'' then mm_block_start V e
        else if get e ''type'' = str ''content_block_delta'' then mm_block_delta V e
        else if get e ''type'' = str ''content_block_stop'' then mm_block_stop V e
        else if get e ''type'' = str ''message_delta'' then mm_message_delta V e
        else if get e ''type'' = str ''message_stop'' then fail_with INVALID
        else fail_with ''unsupported_provider_event'') s = (Inr es, t)"
    then have d: "\<not> mm_done s" and m: "(if get e ''type'' = str ''content_block_start'' then mm_block_start V e
        else if get e ''type'' = str ''content_block_delta'' then mm_block_delta V e
        else if get e ''type'' = str ''content_block_stop'' then mm_block_stop V e
        else if get e ''type'' = str ''message_delta'' then mm_message_delta V e
        else if get e ''type'' = str ''message_stop'' then fail_with INVALID
        else fail_with ''unsupported_provider_event'') s = (Inr es, t)"
      unfolding bind_Inr by simp_all
    from chain(1) [OF m] show ?thesis
      by (elim disjE conjE) (erule (1) start [OF _ _ d] delta [OF _ _ d] stop [OF _ _ d] final [OF _ _ d])+
  qed (use ping first in \<open>auto simp: bind_Inr\<close>)
qed

lemma mm_start_view: "mm_start V e s = (Inr es, t) \<Longrightarrow> mm_view t = mm_view s \<and> es = [e]"
proof -
  assume "mm_start V e s = (Inr es, t)"
  then obtain x s1 where "m_event e [''message''] [''message''] s = (Inr x, s1)" "t = s1\<lparr>mc_started := True\<rparr>" "es = [e]"
    by (auto simp: mm_start_def bind_Inr)
  with inert_view [OF inert_event this(1)] show ?thesis by (simp add: mm_view_def)
qed

lemma not_executable: "get e ''type'' \<noteq> str ''content_block_start'' \<Longrightarrow> get e ''type'' \<noteq> str ''content_block_delta'' \<Longrightarrow> \<not> mm_executable e"
  by (simp add: mm_executable_def)

lemma text_deltas_inert:
  "get e ''delta'' = PDict d \<Longrightarrow> get d ''type'' = str ''text_delta'' \<Longrightarrow> get e ''type'' = str ''content_block_delta''
     \<Longrightarrow> \<not> mm_executable (with_delta ''text'' r e)"
  "\<not> mm_executable (text_delta i r)"
  by (simp_all add: mm_executable_def with_delta_def block_field_def get_def pd_get_or_def)
    (simp add: text_delta_def pd_get_def get_def pd_get_or_def)

lemma mm_handle_steps:
  assumes "mm_handle V e s = (Inr es, t)"
  shows "mc_terminal t = mc_terminal s" and "list_all (\<lambda>e. \<not> mm_executable e) es" and "mm_good s \<Longrightarrow> mm_good t"
proof -
  have "mc_terminal t = mc_terminal s \<and> list_all (\<lambda>e. \<not> mm_executable e) es \<and> (mm_good s \<longrightarrow> mm_good t)"
    using assms
  proof (cases rule: mm_handle_cases)
    case ping
    from inert_view [OF inert_event ping(2)] have v: "mm_view t = mm_view s" .
    with ping mm_good_view [OF v] show ?thesis by (auto simp: mm_view_def not_executable)
  next
    case first
    from mm_start_view [OF first(2)] have v: "mm_view t = mm_view s" "es = [e]" by auto
    with first mm_good_view [OF v(1)] show ?thesis by (auto simp: mm_view_def not_executable)
  next
    case start
    from mm_block_start_view [OF start(2)] obtain d where d: "get e ''content_block'' = PDict d" "of_block (length (mm_blocks s)) e"
      "get d ''type'' = str ''text'' \<or> get d ''type'' = str ''tool_use''"
      "mm_view t = (mm_blocks s @ [mm_new_block d],
         if get d ''type'' = str ''tool_use'' then mc_pending s @ [e] else mc_pending s, mm_done s, mc_terminal s)"
      "es = (if get d ''type'' = str ''tool_use'' then [] else [e])" by blast
    from good_new_block [OF _ d(4,2,3) start(1) d(1) start(3)] d(1,4,5) show ?thesis
      by (auto simp: mm_view_def mm_executable_def block_field_def start(1))
  next
    case delta
    from mm_block_delta_view [OF delta(2)] obtain i b' where i: "of_block i e" "i < length (mm_blocks s)"
      "mb_raw b' = mb_raw (mm_blocks s ! i)" "\<not> mb_done b'" "\<not> mb_done (mm_blocks s ! i)"
      and v: "mm_view t = ((mm_blocks s)[i := b'],
          if get (mb_raw (mm_blocks s ! i)) ''type'' = str ''text'' then mc_pending s else mc_pending s @ [e], mm_done s, mc_terminal s)"
      and es: "if get (mb_raw (mm_blocks s ! i)) ''type'' = str ''text''
        then (\<exists>d. get e ''delta'' = PDict d \<and> get d ''type'' = str ''text_delta'') \<and> (es = [] \<or> (\<exists>r. r \<noteq> [] \<and> es = [with_delta ''text'' r e]))
        else es = [] \<and> (\<exists>d. get e ''delta'' = PDict d \<and> get d ''type'' = str ''input_json_delta'')" by blast
    have "mm_good t" if g: "mm_good s"
    proof (rule good_update [OF g i(2,1,3) _ _ delta(3)])
      from g i(2) have ok: "get (mb_raw (mm_blocks s ! i)) ''type'' = str ''text'' \<or> is_call (mm_blocks s ! i)"
        by (auto simp: mm_good_def block_ok_def)
      then show "mm_view t = ((mm_blocks s)[i := b'], if is_call (mm_blocks s ! i) then mc_pending s @ [e] else mc_pending s, mm_done s, mc_terminal s)"
        using v by (auto simp: is_call_def)
      assume c: "is_call (mm_blocks s ! i)" and h: "call_held (mm_blocks s ! i) (filter (of_block i) (mc_pending s))"
      from es c have "is_delta e" by (auto simp: is_call_def is_delta_def delta(1))
      moreover from h i(5) obtain a ds where "filter (of_block i) (mc_pending s) = a # ds" "is_start (mm_blocks s ! i) a" "list_all is_delta ds"
        by (auto simp: call_held_def)
      ultimately show "call_held b' (filter (of_block i) (mc_pending s) @ [e])"
        using i(3,4) by (auto simp: call_held_def is_start_def intro!: exI [of _ a] exI [of _ "ds @ [e]"])
    qed
    moreover have "list_all (\<lambda>e. \<not> mm_executable e) es"
      using es text_deltas_inert(1) [OF _ _ delta(1)] by (auto split: if_splits)
    ultimately show ?thesis using v by (simp add: mm_view_def)
  next
    case stop
    from mm_block_stop_view [OF stop(2)] obtain i b' where i: "of_block i e" "i < length (mm_blocks s)"
      "mb_raw b' = mb_raw (mm_blocks s ! i)" "mb_done b'" "\<not> mb_done (mm_blocks s ! i)"
      and v: "mm_view t = ((mm_blocks s)[i := b'], if is_call (mm_blocks s ! i) then mc_pending s @ [e] else mc_pending s, mm_done s, mc_terminal s)"
      and es: "if is_call (mm_blocks s ! i) then es = [] else \<exists>r. es = (if r = [] then [] else [text_delta (get e ''index'') r]) @ [e]" by blast
    have "mm_good t" if g: "mm_good s"
    proof (rule good_update [OF g i(2,1,3) v _ stop(3)])
      assume "is_call (mm_blocks s ! i)" and h: "call_held (mm_blocks s ! i) (filter (of_block i) (mc_pending s))"
      from h i(5) obtain a ds where "filter (of_block i) (mc_pending s) = a # ds" "is_start (mm_blocks s ! i) a" "list_all is_delta ds"
        by (auto simp: call_held_def)
      then show "call_held b' (filter (of_block i) (mc_pending s) @ [e])"
        unfolding call_held_def using i(3,4)
        by - (rule exI [of _ a], rule exI [of _ ds], rule exI [of _ "[e]"], simp add: is_start_def is_stop_def stop(1))
    qed
    moreover have "list_all (\<lambda>e. \<not> mm_executable e) es"
      using es text_deltas_inert(2) by (auto simp: not_executable stop(1) split: if_splits)
    ultimately show ?thesis using v by (simp add: mm_view_def)
  next
    case final
    from mm_message_delta_view [OF final(2)] have v: "mm_view t = (mm_blocks s, mc_pending s, True, mc_terminal s)"
      "list_all mb_done (mm_blocks s)" "es = []" by auto
    then show ?thesis by (auto simp: mm_view_def mm_good_def)
  qed
  then show "mc_terminal t = mc_terminal s" "list_all (\<lambda>e. \<not> mm_executable e) es" "mm_good s \<Longrightarrow> mm_good t" by auto
qed

subsection \<open>The kept message delta\<close>

definition still :: "('a, 'b) messages_run \<Rightarrow> bool" where
  "still m \<longleftrightarrow> (\<forall>s x t. m s = (Inr x, t) \<longrightarrow> mm_delta t = mm_delta s)"

named_theorems still_rules \<open>operations that leave the message delta\<close>

lemma stillD: "still m \<Longrightarrow> m s = (Inr x, t) \<Longrightarrow> mm_delta t = mm_delta s" by (simp add: still_def)

lemma still_inert: "inert m \<Longrightarrow> still m"
  using inertD core_view by (fastforce simp: still_def)

lemmas still_leaves [still_rules] = inert_ret [THEN still_inert] inert_lift [THEN still_inert] inert_step_if [THEN still_inert]
  inert_step_state [THEN still_inert] inert_add_item [THEN still_inert] inert_count [THEN still_inert]
  inert_feed [THEN still_inert] inert_event [THEN still_inert]

lemma still_pair [still_rules]: "(\<And>a b. still (f a b)) \<Longrightarrow> still (case p of (a, b) \<Rightarrow> f a b)" by (cases p) simp

lemma still_bind [still_rules]: "still m \<Longrightarrow> (\<And>x. still (f x)) \<Longrightarrow> still (bind m f)"
  unfolding still_def bind_Inr by metis

lemma still_modify [still_rules]: "(\<And>s. mm_delta (f s) = mm_delta s) \<Longrightarrow> still (modify f)" by (simp add: still_def)
lemma still_if [still_rules]: "still m \<Longrightarrow> still n \<Longrightarrow> still (if c then m else n)" by simp
lemma still_hold [still_rules]: "still (m_hold V e)" by (auto simp: still_def m_hold_def bind_Inr)
lemma still_put [still_rules]: "still (mm_put i b)" by (auto simp: still_def mm_put_def)
lemma still_located [still_rules]: "still (mm_located V e)" by (auto simp: still_def dest!: mm_located_Inr)

lemma still_handlers:
  "still (mm_start V e)" "still (mm_block_start V e)" "still (mm_block_delta V e)" "still (mm_block_stop V e)"
  unfolding mm_start_def mm_block_start_def mm_block_delta_def mm_block_stop_def mm_text_delta_def mm_input_delta_def
    mm_stop_at_def mm_text_stop_def Let_def
  by (intro still_rules; simp)+

definition mm_ready :: "'b messages_machine \<Rightarrow> bool" where
  "mm_ready st \<longleftrightarrow> mm_good st \<and> (\<forall>d. mm_delta st = Some d \<longrightarrow> get d ''type'' = str ''message_delta'' \<and> get d ''index'' = PNone)"

lemma mm_handle_ready: "mm_handle V e s = (Inr es, t) \<Longrightarrow> mm_ready s \<Longrightarrow> mm_ready t"
proof -
  assume h: "mm_handle V e s = (Inr es, t)" and r: "mm_ready s"
  from h have "mm_delta t = mm_delta s \<or> (\<exists>d. mm_delta t = Some d \<and> get d ''type'' = str ''message_delta'' \<and> get d ''index'' = PNone)"
  proof (cases rule: mm_handle_cases)
    case ping
    from stillD [OF still_inert [OF inert_event] ping(2)] show ?thesis by simp
  next
    case first
    from stillD [OF still_handlers(1) first(2)] show ?thesis by simp
  next
    case start
    from stillD [OF still_handlers(2) start(2)] show ?thesis by simp
  next
    case delta
    from stillD [OF still_handlers(3) delta(2)] show ?thesis by simp
  next
    case stop
    from stillD [OF still_handlers(4) stop(2)] show ?thesis by simp
  next
    case final
    with mm_message_delta_view [OF final(2)] show ?thesis by auto
  qed
  with mm_handle_steps(3) [OF h] r show ?thesis by (auto simp: mm_ready_def)
qed

subsection \<open>The end of the stream\<close>

definition call_done :: "'b stream_env \<Rightarrow> stream_block \<Rightarrow> stream_block \<Rightarrow> bool" where
  \<comment> \<open>the block after the release: a call has what the registry returned for its arguments\<close>
  "call_done V b b' \<longleftrightarrow>
     (if is_call b
      then \<exists>out. b' = b\<lparr>mb_restored := Some out\<rparr> \<and> tool_released V (name_of (mb_raw b)) False (block_arguments b) out
      else b' = b)"

lemma mm_restore_call_done:
  assumes "mm_restore_call V i s = (Inr x, t)" and "i < length (mm_blocks s)"
  shows "mc_pending t = mc_pending s \<and> mm_delta t = mm_delta s \<and> length (mm_blocks t) = length (mm_blocks s)
     \<and> (\<forall>j. j \<noteq> i \<longrightarrow> mm_blocks t ! j = mm_blocks s ! j) \<and> call_done V (mm_blocks s ! i) (mm_blocks t ! i)"
proof (cases "is_call (mm_blocks s ! i)")
  case False
  with assms show ?thesis by (auto simp: mm_restore_call_def Let_def call_done_def)
next
  case True
  define b where "b = mm_blocks s ! i"
  from assms(1) True obtain out outcome s1 x2 s2 x3 s3 x4 where
    r: "m_restore_tool V (name_of (mb_raw b)) (block_arguments b) False s = (Inr (out, outcome), s1)"
    and p: "mm_put i (b\<lparr>mb_restored := Some out\<rparr>) s1 = (Inr x2, s2)"
    and c: "m_count V True out s2 = (Inr x3, s3)" "m_merge outcome s3 = (Inr x4, t)"
    unfolding mm_restore_call_def Let_def b_def [symmetric] by (auto simp: bind_Inr)
  have v1: "mm_view s1 = mm_view s" "mm_delta s1 = mm_delta s"
    using core_view [OF inertD [OF inert_restore_tool r]] by auto
  have "core t = core s2" using inertD [OF inert_count c(1)] inertD [OF inert_merge c(2)] by simp
  from core_view [OF this] have v2: "mm_view t = mm_view s2" "mm_delta t = mm_delta s2" by auto
  have "mm_delta s2 = mm_delta s1" using p by (simp add: mm_put_def)
  with mm_put_view [OF p] v1 v2 m_restore_tool_Inr [OF r] True assms(2) show ?thesis
    by (auto simp: mm_view_def call_done_def b_def)
qed

lemma mm_restore_calls_done:
  assumes "mm_restore_calls V is s = (Inr x, t)" and "distinct is" and "\<forall>i \<in> set is. i < length (mm_blocks s)"
  shows "mc_pending t = mc_pending s \<and> mm_delta t = mm_delta s \<and> length (mm_blocks t) = length (mm_blocks s)
     \<and> (\<forall>j. if j \<in> set is then call_done V (mm_blocks s ! j) (mm_blocks t ! j) else mm_blocks t ! j = mm_blocks s ! j)"
  using assms
proof (induction "is" arbitrary: s)
  case (Cons i "is")
  from Cons.prems(1) obtain y s1 where s1: "mm_restore_call V i s = (Inr y, s1)" "mm_restore_calls V is s1 = (Inr x, t)"
    by (auto simp: bind_Inr)
  from mm_restore_call_done [OF s1(1)] Cons.prems(3) have one: "mc_pending s1 = mc_pending s" "mm_delta s1 = mm_delta s"
    "length (mm_blocks s1) = length (mm_blocks s)" "\<forall>j. j \<noteq> i \<longrightarrow> mm_blocks s1 ! j = mm_blocks s ! j"
    "call_done V (mm_blocks s ! i) (mm_blocks s1 ! i)" by auto
  from Cons.IH [OF s1(2)] Cons.prems(2,3) one(3) have rest: "mc_pending t = mc_pending s1 \<and> mm_delta t = mm_delta s1
     \<and> length (mm_blocks t) = length (mm_blocks s1)
     \<and> (\<forall>j. if j \<in> set is then call_done V (mm_blocks s1 ! j) (mm_blocks t ! j) else mm_blocks t ! j = mm_blocks s1 ! j)" by simp
  show ?case
  proof (intro conjI allI)
    fix j
    have r: "if j \<in> set is then call_done V (mm_blocks s1 ! j) (mm_blocks t ! j) else mm_blocks t ! j = mm_blocks s1 ! j"
      using rest by blast
    show "if j \<in> set (i # is) then call_done V (mm_blocks s ! j) (mm_blocks t ! j) else mm_blocks t ! j = mm_blocks s ! j"
      using r one(4,5) Cons.prems(2) by (cases "j = i") (auto split: if_splits)
  qed (use one rest in auto)
qed simp

text \<open>The events of one call among those released.\<close>

fun one_call :: "ustr \<Rightarrow> bool \<Rightarrow> pydict list \<Rightarrow> pydict list" where
  "one_call s sent [] = []"
| "one_call s sent (e # es) =
     (if get e ''type'' = str ''content_block_delta''
      then if sent then one_call s sent es else with_delta ''partial_json'' s e # one_call s True es
      else if get e ''type'' = str ''content_block_stop'' \<and> \<not> sent
      then input_delta (get e ''index'') s # e # one_call s True es
      else e # one_call s sent es)"

lemma of_block_delta: "of_block i (with_delta k s e) = of_block i e" "get (input_delta v s) ''index'' = v"
  by (auto simp: of_block_def with_delta_def get_def pd_get_or_def input_delta_def split: pyval.splits) (simp add: pd_get_def)

lemma released_one:
  "\<forall>e \<in> set es. \<exists>k. of_block k e \<Longrightarrow>
     filter (of_block i) (mm_released blocks sent es) = one_call (restored_of blocks i) (i \<in> set sent) (filter (of_block i) es)"
proof (induction es arbitrary: sent)
  case (Cons e es)
  then obtain k where k: "of_block k e" by auto
  then have ix: "event_index ''index'' e = k" by (simp add: of_block_def event_index_def)
  have id: "of_block j (input_delta (get e ''index'') s) \<longleftrightarrow> j = k" for j s
    using k by (simp add: of_block_def of_block_delta(2)) auto
  show ?case
  proof (cases "i = k")
    case True
    with Cons k show ?thesis by (simp add: Let_def ix of_block_delta(1) id)
  next
    case False
    with Cons k show ?thesis by (simp add: Let_def ix of_block_delta(1) id of_block_unique)
  qed
qed simp

lemma released_index:
  "x \<in> set (mm_released blocks sent es) \<Longrightarrow> \<forall>e \<in> set es. \<exists>k. of_block k e \<Longrightarrow> \<exists>k. of_block k x \<and> (\<exists>y \<in> set es. of_block k y)"
proof (induction es arbitrary: sent)
  case (Cons e es)
  then obtain k where k: "of_block k e" by auto
  have new: "of_block k (input_delta (get e ''index'') s)" "of_block k (with_delta ''partial_json'' s e)" for s
    using k by (simp_all add: of_block_def of_block_delta(2)) (simp add: of_block_delta(1) [unfolded of_block_def])
  have ih: "\<exists>k. of_block k x \<and> (\<exists>y \<in> set (e # es). of_block k y)" if "x \<in> set (mm_released blocks sent' es)" for sent'
    using Cons.IH [OF that] Cons.prems(2) by auto
  have "x \<in> set (mm_released blocks sent es) \<or> x \<in> set (mm_released blocks (event_index ''index'' e # sent) es) \<or> x = e
    \<or> (\<exists>s. x = with_delta ''partial_json'' s e) \<or> (\<exists>s. x = input_delta (get e ''index'') s)"
    using Cons.prems(1) by (auto simp: Let_def split: if_splits)
  then show ?case using ih k new by (elim disjE exE) auto
qed simp

definition call_events :: "stream_block \<Rightarrow> ustr \<Rightarrow> pydict list \<Rightarrow> bool" where
  "call_events b out es \<longleftrightarrow> (\<exists>start delta stop. es = [start, delta, stop] \<and> is_start b start
     \<and> is_delta delta \<and> block_field (get delta ''delta'') ''partial_json'' = PStr out \<and> is_stop stop)"

lemma kinds_differ: "is_start b e \<Longrightarrow> \<not> is_stop e \<and> get e ''type'' \<noteq> str ''content_block_delta''"
  by (simp add: is_start_def is_stop_def)

lemma one_call_sent: "list_all is_delta ds \<Longrightarrow> is_stop stop \<Longrightarrow> one_call s True (ds @ [stop]) = [stop]"
  by (induction ds) (auto simp: is_delta_def is_stop_def)

lemma held_released: "call_held b es \<Longrightarrow> mb_done b \<Longrightarrow> call_events b s (one_call s False es)"
proof -
  assume "call_held b es" "mb_done b"
  then obtain a ds stop where es: "es = a # ds @ [stop]" and a: "is_start b a" and ds: "list_all is_delta ds" and stop: "is_stop stop"
    by (auto simp: call_held_def)
  show ?thesis
  proof (cases ds)
    case Nil
    then have "one_call s False es = [a, input_delta (get stop ''index'') s, stop]"
      using a stop by (simp add: es is_start_def is_stop_def)
    moreover have "is_delta (input_delta v s)" "block_field (get (input_delta v s) ''delta'') ''partial_json'' = PStr s" for v
      by (simp_all add: is_delta_def input_delta_def get_def pd_get_or_def pd_get_def block_field_def)
    ultimately show ?thesis using a stop by (simp add: call_events_def)
  next
    case (Cons d ds')
    with ds obtain x where d: "get d ''type'' = str ''content_block_delta''" "get d ''delta'' = PDict x" "get x ''type'' = str ''input_json_delta''"
      by (auto simp: is_delta_def)
    have "one_call s True (ds' @ [stop]) = [stop]" using ds Cons stop by (intro one_call_sent) auto
    then have "one_call s False es = [a, with_delta ''partial_json'' s d, stop]"
      using a stop d(1) Cons by (simp add: es is_start_def)
    moreover have "is_delta (with_delta ''partial_json'' s d)"
      "block_field (get (with_delta ''partial_json'' s d) ''delta'') ''partial_json'' = PStr s"
      using d by (simp_all add: is_delta_def with_delta_def get_def pd_get_or_def block_field_def)
    ultimately show ?thesis using a stop by (simp add: call_events_def)
  qed
qed

definition mm_sanctioned :: "'b stream_env \<Rightarrow> pydict list \<Rightarrow> 'b messages_machine \<Rightarrow> bool" where
  "mm_sanctioned V es t \<longleftrightarrow> validate_batch (sv_bound V) (mm_calls_of (mm_blocks t)) = Inr ()
     \<and> (\<forall>i < length (mm_blocks t). let b = mm_blocks t ! i in is_call b \<longrightarrow>
          (\<exists>out. tool_released V (name_of (mb_raw b)) False (block_arguments b) out \<and> call_events b out (filter (of_block i) es)))
     \<and> (\<forall>e \<in> set es. mm_executable e \<longrightarrow> (\<exists>i < length (mm_blocks t). is_call (mm_blocks t ! i) \<and> of_block i e))"

lemma call_done_same:
  "call_done V b b' \<Longrightarrow> mb_raw b' = mb_raw b \<and> mb_chunks b' = mb_chunks b \<and> mb_done b' = mb_done b \<and> is_call b' = is_call b
     \<and> block_arguments b' = block_arguments b"
  by (auto simp: call_done_def is_call_def block_arguments_def split: if_splits)

lemma calls_of_done: "list_all2 (call_done V) bs bs' \<Longrightarrow> mm_calls_of bs' = mm_calls_of bs"
  unfolding mm_calls_of_def by (induction rule: list_all2_induct) (auto dest!: call_done_same)

lemma mm_complete_sanctioned:
  assumes "mm_complete V e s = (Inr es, t)" and "mm_ready s" and "get e ''type'' = str ''message_stop''"
  shows "mm_sanctioned V es t \<and> \<not> mc_terminal s \<and> mc_terminal t"
proof -
  from assms(1) obtain x1 s1 released s2 where
    a: "m_event e [] [] s = (Inr x1, s1)" and d: "mm_done s1" "mm_delta s1 \<noteq> None" and r: "mm_release V s1 = (Inr released, s2)"
    and t: "t = s2\<lparr>mc_terminal := True\<rparr>" and es: "es = released @ [the (mm_delta t), e]"
    unfolding mm_complete_def by (auto simp: bind_Inr)
  from core_view [OF inertD [OF inert_event a]] have v1: "mm_view s1 = mm_view s" "mm_delta s1 = mm_delta s" by auto
  then have ready: "mm_ready s1" using assms(2) mm_good_view [OF v1(1)] by (simp add: mm_ready_def)
  from r obtain x2 where batch: "validate_batch (sv_bound V) (mm_calls_of (mm_blocks s1)) = Inr ()"
    and c: "mm_restore_calls V [0..<length (mm_blocks s1)] s1 = (Inr x2, s2)"
    and rel: "released = mm_released (mm_blocks s2) [] (mc_pending s2)"
    unfolding mm_release_def by (auto simp: bind_Inr)
  from mm_restore_calls_done [OF c] have fin: "mc_pending s2 = mc_pending s1" "mm_delta s2 = mm_delta s1"
    "length (mm_blocks s2) = length (mm_blocks s1)"
    and each: "\<And>j. if j \<in> set [0..<length (mm_blocks s1)] then call_done V (mm_blocks s1 ! j) (mm_blocks s2 ! j) else mm_blocks s2 ! j = mm_blocks s1 ! j"
    by auto
  then have all2: "list_all2 (call_done V) (mm_blocks s1) (mm_blocks s2)"
    unfolding list_all2_conv_all_nth by (metis atLeastLessThan_iff atLeast_upt set_upt zero_le)
  have good: "mm_good s1" "list_all mb_done (mm_blocks s1)" using ready d(1) by (auto simp: mm_ready_def mm_good_def)
  have indexed: "\<forall>e \<in> set (mc_pending s1). \<exists>k. of_block k e" using good(1) by (auto simp: mm_good_def)
  obtain md where md: "mm_delta t = Some md" "get md ''type'' = str ''message_delta''" "get md ''index'' = PNone"
    using ready d(2) fin(2) t by (auto simp: mm_ready_def)
  have "get e ''index'' = PNone" by (rule m_event_lacks [OF a]) simp_all
  then have last: "filter (of_block i) es = filter (of_block i) released" for i
    using md by (simp add: es of_block_def)
  have "\<exists>out. tool_released V (name_of (mb_raw b)) False (block_arguments b) out \<and> call_events b out (filter (of_block i) es)"
    if i: "i < length (mm_blocks t)" and b: "b = mm_blocks t ! i" "is_call b" for i b
  proof -
    have i1: "i < length (mm_blocks s1)" using i t fin(3) by simp
    have b2: "b = mm_blocks s2 ! i" using b t by simp
    from each [of i] i1 have cd: "call_done V (mm_blocks s1 ! i) b" by (simp add: b2)
    from call_done_same [OF cd] b(2) have call: "is_call (mm_blocks s1 ! i)" by simp
    with cd obtain out where out: "b = (mm_blocks s1 ! i)\<lparr>mb_restored := Some out\<rparr>"
      "tool_released V (name_of (mb_raw (mm_blocks s1 ! i))) False (block_arguments (mm_blocks s1 ! i)) out" by (auto simp: call_done_def)
    have h: "call_held (mm_blocks s1 ! i) (filter (of_block i) (mc_pending s1))" using good(1) i1 call by (auto simp: mm_good_def block_ok_def)
    have "mb_done (mm_blocks s1 ! i)" using good(2) i1 by (simp add: list_all_length)
    from held_released [OF h this, of out] have "call_events (mm_blocks s1 ! i) out (one_call out False (filter (of_block i) (mc_pending s1)))" .
    moreover have "restored_of (mm_blocks s2) i = out" using out(1) by (simp add: restored_of_def b2 [symmetric])
    ultimately have "call_events (mm_blocks s1 ! i) out (filter (of_block i) es)"
      using released_one [OF indexed, of i "mm_blocks s2" "[]"] by (simp add: last rel fin(1))
    moreover have "call_events b out xs = call_events (mm_blocks s1 ! i) out xs" for xs
      by (simp add: call_events_def is_start_def out(1))
    moreover have "block_arguments b = block_arguments (mm_blocks s1 ! i)" "mb_raw b = mb_raw (mm_blocks s1 ! i)"
      using call_done_same [OF cd] by simp_all
    ultimately show ?thesis using out(2) by auto
  qed
  moreover have "\<exists>i < length (mm_blocks t). is_call (mm_blocks t ! i) \<and> of_block i x" if x: "x \<in> set es" "mm_executable x" for x
  proof -
    have "x \<noteq> md" "x \<noteq> e" using x(2) md(2) assms(3) by (auto simp: mm_executable_def)
    with x(1) md(1) have "x \<in> set released" by (auto simp: es)
    then obtain k where k: "of_block k x" "\<exists>y \<in> set (mc_pending s1). of_block k y"
      using released_index indexed unfolding rel fin(1) by blast
    with good(1) obtain y where y: "y \<in> set (mc_pending s1)" "of_block k y" by blast
    with good(1) obtain j where "j < length (mm_blocks s1)" "of_block j y" "is_call (mm_blocks s1 ! j)" by (auto simp: mm_good_def)
    with y(2) have "k < length (mm_blocks s1)" "is_call (mm_blocks s1 ! k)" by (auto simp: of_block_unique)
    moreover from each [of k] this(1) have "is_call (mm_blocks s2 ! k) = is_call (mm_blocks s1 ! k)" using call_done_same by auto
    ultimately show ?thesis using k(1) t fin(3) by auto
  qed
  moreover have "mm_calls_of (mm_blocks t) = mm_calls_of (mm_blocks s1)" using calls_of_done [OF all2] t by simp
  ultimately show ?thesis using batch m_event_open [OF a] t by (simp add: mm_sanctioned_def Let_def)
qed

subsection \<open>The machine keeps the contract of the driver\<close>

lemma opened: "bind (m_event e a r) f s = (Inr x, t) \<Longrightarrow> \<not> mc_terminal s"
  unfolding bind_Inr using m_event_open by blast

lemma mm_handle_open:
  assumes "mm_handle V e s = (Inr es, t)"
  shows "\<not> mc_terminal s"
  using assms
proof (cases rule: mm_handle_cases)
  case ping
  from m_event_open [OF ping(2)] show ?thesis .
next
  case first
  from opened [OF first(2) [unfolded mm_start_def]] show ?thesis .
next
  case start
  from opened [OF start(2) [unfolded mm_block_start_def]] show ?thesis .
next
  case delta
  from opened [OF delta(2) [unfolded mm_block_delta_def]] show ?thesis .
next
  case stop
  from opened [OF stop(2) [unfolded mm_block_stop_def]] show ?thesis .
next
  case final
  from opened [OF final(2) [unfolded mm_message_delta_def]] show ?thesis .
qed

lemma mm_complete_terminal: "mm_complete V e s = (Inr es, t) \<Longrightarrow> \<not> mc_terminal s \<and> mc_terminal t"
  by (auto simp: mm_complete_def bind_Inr dest: m_event_open)

interpretation mm: stream_machine V "mm_dispatch V" mm_executable mm_ready "mm_sanctioned V"
  for V :: "'b stream_env"
proof
  fix e s es and t :: "'b messages_machine"
  assume d: "mm_dispatch V e s = (Inr es, t)"
  show "\<not> mc_terminal s" using d mm_handle_open mm_complete_terminal by (fastforce simp: mm_dispatch_def split: if_splits)
  show "list_all (\<lambda>e. \<not> mm_executable e) es" if "mm_ready s" "\<not> mc_terminal t"
    using d that by (auto simp: mm_dispatch_def split: if_splits dest: mm_handle_steps(2) mm_complete_terminal)
  show "mm_ready t" if "mm_ready s" "\<not> mc_terminal t"
    using d that by (auto simp: mm_dispatch_def split: if_splits dest: mm_handle_ready mm_complete_terminal)
  show "mm_sanctioned V es t" if "mm_ready s" "mc_terminal t"
  proof (cases "get e ''type'' = str ''message_stop''")
    case True
    with d have "mm_complete V e s = (Inr es, t)" by (simp add: mm_dispatch_def)
    from mm_complete_sanctioned [OF this that(1) True] show ?thesis by simp
  next
    case False
    with d have h: "mm_handle V e s = (Inr es, t)" by (simp add: mm_dispatch_def)
    from mm_handle_steps(1) [OF h] mm_handle_open [OF h] that(2) show ?thesis by simp
  qed
next
  fix s t :: "'b messages_machine"
  assume "core s = core t"
  from core_view [OF this] have v: "mm_view s = mm_view t" "mm_delta s = mm_delta t" by auto
  show "mm_ready s = mm_ready t" using mm_good_view [OF v(1)] v(2) by (simp add: mm_ready_def)
  show "mm_sanctioned V es s = mm_sanctioned V es t" for es using v(1) by (simp add: mm_sanctioned_def mm_view_def)
qed

lemma init_ready: "mm_ready (messages_init v out)" "\<not> mc_terminal (messages_init v out)"
  using good_init by (simp_all add: mm_ready_def messages_init_def machine_init_def machine.defs)

text \<open>
  C3: No tool call of a Messages stream reaches the client before the whole stream has succeeded: when an
  executable event is handed out, the transport had ended cleanly, the batch of all calls was valid, the
  event belongs to one call, the registry restored the arguments of that call, and what the event carries
  of them is exactly what the registry returned.
\<close>

theorem no_call_before_success:
  assumes "restore_messages_stream V limit pieces out v = (ems, r, t)" and "e \<in> set (events_of ems)" and "mm_executable e"
  shows "snd (parse_sse limit pieces) = None \<and> validate_batch (sv_bound V) (mm_calls_of (mm_blocks t)) = Inr ()
     \<and> (\<exists>i < length (mm_blocks t). \<exists>arguments. let b = mm_blocks t ! i in is_call b \<and> of_block i e
          \<and> tool_released V (name_of (mb_raw b)) False (block_arguments b) arguments
          \<and> (get e ''type'' = str ''content_block_delta'' \<longrightarrow> block_field (get e ''delta'') ''partial_json'' = PStr arguments))"
proof -
  obtain fs ending where p: "parse_sse limit pieces = (fs, ending)" by (metis surj_pair)
  with assms(1,2) have s: "stream_result V False (mm_dispatch V) fs ending (messages_init v out) = (ems, r, t)"
    by (auto simp: restore_messages_stream_def split: if_splits)
  from assms(2) obtain b where "Event e b \<in> set ems" by (auto simp: events_of_set)
  from mm.executable_after_success [OF s init_ready this assms(3)] obtain es where
    es: "ending = None" "e \<in> set es" "mm_sanctioned V es t" by blast
  from es(2,3) assms(3) obtain i where i: "i < length (mm_blocks t)" "is_call (mm_blocks t ! i)" "of_block i e"
    by (auto simp: mm_sanctioned_def)
  with es(3) obtain arguments where a: "tool_released V (name_of (mb_raw (mm_blocks t ! i))) False (block_arguments (mm_blocks t ! i)) arguments"
    "call_events (mm_blocks t ! i) arguments (filter (of_block i) es)" by (auto simp: mm_sanctioned_def Let_def)
  from es(2) i(3) have "e \<in> set (filter (of_block i) es)" by simp
  with a(2) obtain start delta stop where "e \<in> set [start, delta, stop]" "is_start (mm_blocks t ! i) start" "is_stop stop"
    "block_field (get delta ''delta'') ''partial_json'' = PStr arguments" unfolding call_events_def by metis
  then have "get e ''type'' = str ''content_block_delta'' \<longrightarrow> block_field (get e ''delta'') ''partial_json'' = PStr arguments"
    by (auto simp: is_start_def is_stop_def)
  with p es i a(1) show ?thesis by (auto simp: mm_sanctioned_def Let_def intro!: exI [of _ i] exI [of _ arguments])
qed

text \<open>
  C12: When a Messages stream succeeds, its calls come last and each as exactly three events: the start the
  provider sent, one delta with the arguments the registry returned for what the provider streamed, and
  the stop.
\<close>

theorem calls_released_once:
  assumes "restore_messages_stream V limit pieces out v = (ems, None, t)"
  shows "\<exists>prose es. events_of ems = prose @ es \<and> list_all (\<lambda>e. \<not> mm_executable e) prose
     \<and> (\<forall>i < length (mm_blocks t). let b = mm_blocks t ! i in is_call b \<longrightarrow>
          (\<exists>arguments. tool_released V (name_of (mb_raw b)) False (block_arguments b) arguments
             \<and> call_events b arguments (filter (of_block i) es)))"
proof -
  obtain fs ending where p: "parse_sse limit pieces = (fs, ending)" by (metis surj_pair)
  with assms have s: "stream_result V False (mm_dispatch V) fs ending (messages_init v out) = (ems, None, t)"
    by (auto simp: restore_messages_stream_def split: if_splits)
  from mm.success_releases [OF s init_ready] show ?thesis by (auto simp: mm_sanctioned_def)
qed

end
