(* ===== verification/StreamSamples.thy ===== *)
theory StreamSamples
  imports MessagesStreamFacts BoundFacts
begin

text \<open>
  A Messages stream with one call of a registered tool, from the encoded events to what the client gets: the
  properties of the stream are applied to it.
\<close>

definition sample_stream where
  "sample_stream = \<lparr>sv_tools = sample_tools, sv_clock = (\<lambda>_. te_clock sample_tools), sv_bound = read_bound, sv_max_items = 512,
     sv_max_output = 100000, sv_expected = None\<rparr>"

definition file_arguments :: ustr where
  "file_arguments = [123, 34] @ lit ''file_path'' @ [34, 58, 34] @ [97] @ [34, 125]"

definition ev_start :: pydict where
  "ev_start = [(str ''type'', str ''message_start''), (str ''message'', PDict [(str ''id'', PStr [97]), (str ''type'', str ''message''),
     (str ''role'', str ''assistant''), (str ''content'', PList [])])]"

definition call_block :: pydict where
  "call_block = [(str ''type'', str ''tool_use''), (str ''id'', PStr [97]), (str ''name'', str ''Read''), (str ''input'', PDict [])]"

definition ev_block :: pydict where
  "ev_block = [(str ''type'', str ''content_block_start''), (str ''index'', PInt 0), (str ''content_block'', PDict call_block)]"

definition ev_input :: pydict where
  "ev_input = [(str ''type'', str ''content_block_delta''), (str ''index'', PInt 0),
     (str ''delta'', PDict [(str ''type'', str ''input_json_delta''), (str ''partial_json'', PStr file_arguments)])]"

definition ev_block_stop :: pydict where
  "ev_block_stop = [(str ''type'', str ''content_block_stop''), (str ''index'', PInt 0)]"

definition ev_delta :: pydict where
  "ev_delta = [(str ''type'', str ''message_delta''), (str ''delta'', PDict [(str ''stop_reason'', str ''tool_use'')]), (str ''usage'', PDict [])]"

definition ev_stop :: pydict where "ev_stop = [(str ''type'', str ''message_stop'')]"

definition wire :: "pydict \<Rightarrow> bytes" where
  "wire e = (case encode_event sample_json e (Some (key_text (get e ''type''))) of Inr b \<Rightarrow> b | Inl _ \<Rightarrow> [])"

lemmas sample_events = ev_start_def ev_block_def call_block_def ev_input_def ev_block_stop_def ev_delta_def ev_stop_def file_arguments_def

definition sent :: "pydict list" where "sent = [ev_start, ev_block, ev_input, ev_block_stop, ev_delta, ev_stop]"

lemma sent_bounded: "e \<in> set sent \<Longrightarrow> bounded_json (PDict e) = Inr ()"
  by (auto simp: sent_def sample_events bounded_json_def bounded_loop.simps(2) pushed_def entries_def is_str_def is_surrogate_def lit_def of_char_def MAX_DEPTH_def MAX_COLLECTION_def)

lemma sent_clean: "e \<in> set sent \<Longrightarrow> json_clean (jl_repr sample_json) (jl_nest sample_json) (PDict e) \<and> unique_keys (PDict e)"
  by (auto simp: sent_def sample_events sample_json_def)

lemma small_numbers: "\<not> (10::int) ^ INT_DIGITS \<le> 0" "py_str_int 0 = [48]"
  by (simp_all add: not_le) (simp add: py_str_int_def dec_nat.simps [of 0])

lemma sent_dumps: "e \<in> set sent \<Longrightarrow> \<exists>t. json_dumps (jl_repr sample_json) (PDict e) = Inr t \<and> list_all (\<lambda>c. c < 128) t \<and> length t \<le> 400"
  by (auto simp: sent_def sample_events dumps_key_def quoted_def escape_def lit_def of_char_def small_numbers)

lemma sent_size: "e \<in> set sent \<Longrightarrow> \<exists>n. size_of sample_json (PDict e) = Inr n \<and> 0 \<le> n \<and> n \<le> 1000"
  by (auto simp: sent_def sample_events size_of_def dumps_key_def quoted_def quoted_as_def escape_def lit_def of_char_def small_numbers
      is_surrogate_def utf8_def utf8_cp_def)

lemma stream_selectors [simp]:
  "sv_tools sample_stream = sample_tools" "sv_bound sample_stream = read_bound" "sv_max_items sample_stream = 512"
  "sv_max_output sample_stream = 100000" "sv_expected sample_stream = None" "te_json sample_tools = sample_json"
  "sv_clock sample_stream = (\<lambda>_. te_clock sample_tools)"
  by (simp_all add: sample_stream_def sample_tools_def)

definition st0 where "st0 = messages_init sample_stored (outcome_init [])"

definition st1 where "st1 = st0\<lparr>mc_mode := Some False, mc_started := True\<rparr>"
definition st2 where
  "st2 n = st1\<lparr>mm_calls := [PStr [97]], mm_blocks := [mm_new_block call_block], mc_total := 1, mc_pending_bytes := n, mc_pending := [ev_block]\<rparr>"

lemmas step_eval = mm_dispatch_def mm_handle_def m_event_def get_def pd_get_def pd_get_or_def pd_set_def
    bind_def lift_def ret_def step_if_def guard_def modify_def shape_def keys_within_def has_keys_def in_names_def Let_def
    is_identifier_def is_string_def stream_string_def ensure_def identifier_ok_def id_char_def ascii_alpha_def is_surrogate_def
    stream_index_def m_hold_def m_add_item_def m_count_def encoded_length_def mm_located_def mm_put_def is_call_def mm_new_block_def
    lit_def of_char_def

lemmas init_eval = st0_def messages_init_def machine_init_def machine.defs messages_machine.defs

lemma step1: "mm_dispatch sample_stream ev_start st0 = (Inr [ev_start], st1)"
  by (simp add: step_eval mm_start_def ev_start_def st1_def message_shape_def init_eval)

lemma empty_object: "json_object sample_json [123, 125] = Inr []" "dumps_text False (jl_repr sample_json) (PDict []) = Inr [123, 125]"
proof -
  have "json_clean (jl_repr sample_json) (jl_nest sample_json) (PDict [])" by (simp add: sample_json_def)
  from json_roundtrip [OF this] show "json_object sample_json [123, 125] = Inr []"
    by (simp add: json_object_def bounded_json_def bounded_loop.simps(2) pushed_def entries_def MAX_DEPTH_def)
qed simp

lemma step2:
  assumes "size_of sample_json (PDict ev_block) = Inr n" "n \<le> 1000"
  shows "mm_dispatch sample_stream ev_block st1 = (Inr [], st2 n)"
  using assms
  by (simp add: step_eval mm_block_start_def ev_block_def call_block_def st1_def st2_def block_shape_def init_eval direct_caller_def
      empty_object)

definition st3 where
  "st3 n n' = (st2 n)\<lparr>mc_raw_bytes := 17, mm_blocks := [(mm_new_block call_block)\<lparr>mb_chunks := [file_arguments]\<rparr>],
     mc_pending_bytes := n + n', mc_pending := [ev_block, ev_input]\<rparr>"

lemma step3:
  assumes "size_of sample_json (PDict ev_input) = Inr n'" "n \<le> 1000" "n' \<le> 1000"
  shows "mm_dispatch sample_stream ev_input (st2 n) = (Inr [], st3 n n')"
  using assms
  by (simp add: step_eval mm_block_delta_def mm_input_delta_def ev_input_def file_arguments_def call_block_def st1_def st2_def st3_def init_eval utf8_def utf8_cp_def)

definition st4 where
  "st4 n n' = (st3 n n')\<lparr>mm_blocks := [(mm_new_block call_block)\<lparr>mb_chunks := [file_arguments], mb_done := True\<rparr>],
     mc_pending_bytes := n', mc_pending := [ev_block, ev_input, ev_block_stop]\<rparr>"

lemma step4:
  assumes "size_of sample_json (PDict ev_block_stop) = Inr k" "n \<le> 1000" "n' \<le> 1000" "k \<le> 1000"
  shows "mm_dispatch sample_stream ev_block_stop (st3 n n') = (Inr [], st4 n (n + n' + k))"
  using assms
  by (simp add: step_eval mm_block_stop_def mm_stop_at_def ev_block_stop_def call_block_def st1_def st2_def st3_def st4_def init_eval)

definition st5 where "st5 n n' = (st4 n n')\<lparr>mm_delta := Some ev_delta, mm_done := True\<rparr>"

lemma step5: "mm_dispatch sample_stream ev_delta (st4 n n') = (Inr [], st5 n n')"
  by (simp add: step_eval mm_message_delta_def mm_explanation_def ev_delta_def call_block_def st1_def st2_def st3_def st4_def st5_def init_eval
     stop_shape_def STOP_REASONS_def usage_shape_def)

lemma read_dumped: "json_dumps (jl_repr sample_json) (PDict [(str ''file_path'', PStr [97])]) = Inr file_arguments"
  unfolding file_arguments_def by (rule dumps_plain) (simp_all add: plain_def lit_def of_char_def)

lemma read_released: "\<exists>out v'. bound_restore sample_tools read_bound False (lit ''Read'') file_arguments sample_stored = (Done file_arguments out, v')"
proof -
  obtain out v' where "tool_restore sample_tools False (lit ''Read'') file_arguments sample_stored = (Done file_arguments out, v')"
    using sample_read_call read_dumped by (auto simp del: json_dumps.simps)
  then show ?thesis
    by (simp add: bound_restore_def call_allowed_def schema_matched_def read_loaded [OF read_dumped] read_matches read_bound_def)
qed

lemma read_object: "json_object sample_json file_arguments = Inr [(str ''file_path'', PStr [97])]"
proof -
  have "json_clean (jl_repr sample_json) (jl_nest sample_json) (PDict [(str ''file_path'', PStr [97])])"
    by (simp add: sample_json_def)
  from json_roundtrip [OF this] read_dumped
  have "json_parse (jl_nest sample_json) file_arguments = Some (raw_of (PDict [(str ''file_path'', PStr [97])]))"
    by (auto simp del: json_dumps.simps)
  then show ?thesis
    by (simp add: json_object_def bounded_json_def bounded_loop.simps(2) pushed_def entries_def MAX_DEPTH_def MAX_COLLECTION_def
        is_str_def is_surrogate_def lit_def of_char_def)
qed

lemma tools_same [simp]: "tools_at sample_stream n = sample_tools"
  by (simp add: tools_at_def)

definition done_block :: stream_block where
  "done_block = (mm_new_block call_block)\<lparr>mb_chunks := [file_arguments], mb_done := True\<rparr>"

lemma done_block_facts: "block_arguments done_block = file_arguments" "name_of (mb_raw done_block) = lit ''Read''" "is_call done_block"
  by (simp_all add: done_block_def block_arguments_def Let_def file_arguments_def name_of_def mm_new_block_def call_block_def is_call_def
      get_def pd_get_or_def pd_get_def)

lemma st5_fields: "mm_blocks (st5 n n') = [done_block]" "mc_pending (st5 n n') = [ev_block, ev_input, ev_block_stop]"
    "mm_delta (st5 n n') = Some ev_delta" "mc_vault (st5 n n') = sample_stored" "mc_restored_bytes (st5 n n') = 0"
  by (simp_all add: st5_def st4_def st3_def st2_def st1_def init_eval done_block_def)

lemma call_released:
  assumes "mm_blocks s = [done_block]" "mc_vault s = sample_stored" "mc_restored_bytes s = 0"
  shows "\<exists>t. mm_restore_call sample_stream 0 s = (Inr (), t) \<and> mm_blocks t = [done_block\<lparr>mb_restored := Some file_arguments\<rparr>]
     \<and> mc_pending t = mc_pending s \<and> mm_delta t = mm_delta s"
proof -
  obtain out v' where r: "bound_restore sample_tools read_bound False (lit ''Read'') file_arguments sample_stored = (Done file_arguments out, v')"
    using read_released by blast
  have "encoded_length file_arguments = Inr 17"
    by (simp add: encoded_length_def file_arguments_def utf8_def utf8_cp_def is_surrogate_def lit_def of_char_def)
  with r assms show ?thesis
    by (simp add: mm_restore_call_def done_block_facts read_object m_restore_tool_def bind_def lift_def mm_put_def modify_def m_count_def m_merge_def
        step_if_def guard_def ret_def)
qed

lemma batch_valid: "validate_batch read_bound [(lit ''Read'', file_arguments, False)] = Inr ()"
  by (simp add: validate_batch_def read_bound_def call_allowed_def)

lemma release_sample:
  "\<exists>t. mm_release sample_stream (st5 n n') = (Inr [ev_block, ev_input, ev_block_stop], t) \<and> mm_delta t = Some ev_delta"
proof -
  obtain t where t: "mm_restore_call sample_stream 0 (st5 n n') = (Inr (), t)" "mm_blocks t = [done_block\<lparr>mb_restored := Some file_arguments\<rparr>]"
    "mc_pending t = [ev_block, ev_input, ev_block_stop]" "mm_delta t = Some ev_delta"
    using call_released [of "st5 n n'"] by (auto simp: st5_fields)
  have "mm_released (mm_blocks t) [] (mc_pending t) = [ev_block, ev_input, ev_block_stop]"
    by (simp add: t(2,3) ev_block_def ev_input_def ev_block_stop_def Let_def get_def pd_get_or_def pd_get_def pd_set_def event_index_def restored_of_def with_delta_def)
  with t batch_valid show ?thesis
    by (simp add: mm_release_def m_validate_batch_def mm_calls_of_def st5_fields done_block_facts bind_def ret_def)
qed

lemma step6:
  "\<exists>t. mm_dispatch sample_stream ev_stop (st5 n n') = (Inr [ev_block, ev_input, ev_block_stop, ev_delta, ev_stop], t)
     \<and> mc_terminal t"
proof -
  have e: "m_event ev_stop [] [] (st5 n n') = (Inr (), st5 n n')" "mc_started (st5 n n')" "mm_done (st5 n n')"
    by (simp_all add: step_eval ev_stop_def st5_def st4_def st3_def st2_def st1_def init_eval)
  have k: "get ev_stop ''type'' = str ''message_stop''" by (simp add: ev_stop_def get_def pd_get_or_def pd_get_def)
  from release_sample [of n n'] obtain t where "mm_release sample_stream (st5 n n') = (Inr [ev_block, ev_input, ev_block_stop], t)" "mm_delta t = Some ev_delta" by blast
  with e k show ?thesis
    by (simp add: mm_dispatch_def mm_complete_def bind_def step_if_def guard_def modify_def ret_def st5_fields)
qed


text \<open>Events of ASCII texts within the bounds arrive as they were sent.\<close>

definition kind_text :: "pydict \<Rightarrow> ustr" where "kind_text e = key_text (get e ''type'')"

definition ascii_event :: "pydict \<Rightarrow> bool" where
  "ascii_event e \<longleftrightarrow> (\<exists>t. json_dumps (jl_repr sample_json) (PDict e) = Inr t \<and> list_all (\<lambda>c. c < 128) t \<and> length t \<le> 400)
     \<and> json_clean (jl_repr sample_json) (jl_nest sample_json) (PDict e) \<and> unique_keys (PDict e) \<and> bounded_json (PDict e) = Inr ()
     \<and> get e ''type'' = PStr (kind_text e) \<and> kind_text e \<noteq> [] \<and> one_line (kind_text e) \<and> list_all (\<lambda>c. c < 128) (kind_text e)
     \<and> pd_get e ''type'' = Some (PStr (kind_text e)) \<and> length (kind_text e) \<le> 50"

lemma ascii_text: "list_all (\<lambda>c. c < 128) t \<Longrightarrow> list_all (\<lambda>c. c < 128) n \<Longrightarrow> list_all (\<lambda>c. c < 128) (event_text (Some n) t)"
  "length (event_text (Some n) t) \<le> length n + length t + 40"
  by (simp_all add: event_text_def lit_def of_char_def)

lemma ascii_encodes:
  assumes "ascii_event e"
  shows "encode_event sample_json e (Some (kind_text e)) = Inr (wire e) \<and> sendable sample_json 2000 (e, Some (kind_text e), wire e)"
proof -
  from assms obtain t where t: "json_dumps (jl_repr sample_json) (PDict e) = Inr t" "list_all (\<lambda>c. c < 128) t" "length t \<le> 400"
    and k: "kind_text e \<noteq> []" "one_line (kind_text e)" "list_all (\<lambda>c. c < 128) (kind_text e)" "length (kind_text e) \<le> 50"
    unfolding ascii_event_def by blast
  let ?u = "event_text (Some (kind_text e)) t"
  from ascii_text(1) [of t "kind_text e"] ascii_text(2) [of "kind_text e" t] t(2,3) k have u: "list_all (\<lambda>c. c < 128) ?u" "length ?u \<le> 2000" by auto
  from u(1) have "\<not> list_ex is_surrogate ?u" "utf8 ?u = ?u" by (auto simp: list_all_iff list_ex_iff is_surrogate_def utf8_ascii)
  with t(1) have b: "encode_event sample_json e (Some (kind_text e)) = Inr ?u" by (simp add: encode_event_def Let_def del: json_dumps.simps)
  then have "wire e = ?u" by (simp add: wire_def kind_text_def)
  with b u t(1) k assms show ?thesis
    by (auto simp: ascii_event_def sendable_def name_ok_def list_all_iff simp del: json_dumps.simps)
qed

lemma events_parsed:
  assumes "list_all ascii_event es"
  shows "\<exists>fs. parse_sse 2000 [concat (map wire es)] = (fs, None)
     \<and> list_all2 (\<lambda>e f. \<not> se_heartbeat f \<and> payload_of sample_json f = Inr e) es fs"
proof -
  let ?ms = "map (\<lambda>e. (e, Some (kind_text e), wire e)) es"
  have "\<exists>events. parse_sse 2000 [concat (map wire es)] = (events, None)
     \<and> list_all2 (\<lambda>(payload, event, _) e. se_event e = event \<and> \<not> se_heartbeat e \<and> json_object sample_json (se_data e) = Inr payload) ?ms events"
    by (rule messages_read) (use ascii_encodes assms in \<open>auto simp: comp_def list_all_iff\<close>)
  then obtain fs where fs: "parse_sse 2000 [concat (map wire es)] = (fs, None)"
    "list_all2 (\<lambda>e f. se_event f = Some (kind_text e) \<and> \<not> se_heartbeat f \<and> json_object sample_json (se_data f) = Inr e) es fs"
    by (auto simp: list_all2_map1)
  from fs(2) have "list_all2 (\<lambda>e f. \<not> se_heartbeat f \<and> payload_of sample_json f = Inr e) es fs"
  proof (rule list.rel_mono_strong)
    fix e and f :: sse_event
    assume e: "e \<in> set es" and f: "se_event f = Some (kind_text e) \<and> \<not> se_heartbeat f \<and> json_object sample_json (se_data f) = Inr e"
    from e assms have k: "get e ''type'' = PStr (kind_text e)" "list_all (\<lambda>c. c < 128) (kind_text e)"
      by (auto simp: list_all_iff ascii_event_def)
    then have "\<not> list_ex is_surrogate (kind_text e)" by (auto simp: list_all_iff list_ex_iff is_surrogate_def)
    with f k show "\<not> se_heartbeat f \<and> payload_of sample_json f = Inr e"
      by (simp add: payload_of_def is_string_def stream_string_def ensure_def)
  qed
  with fs(1) show ?thesis by blast
qed

lemma ascii_sends: "ascii_event e \<Longrightarrow> \<not> responses \<or> \<not> mc_sequenced s \<Longrightarrow> m_encode sample_stream responses e s = (Inr (wire e), s)"
  using ascii_encodes [of e] by (auto simp: m_encode_def ascii_event_def)

lemma sent_kinds: "e \<in> set sent \<Longrightarrow> get e ''type'' = PStr (kind_text e) \<and> kind_text e \<noteq> [] \<and> one_line (kind_text e) \<and> list_all (\<lambda>c. c < 128) (kind_text e)
    \<and> pd_get e ''type'' = Some (PStr (kind_text e)) \<and> length (kind_text e) \<le> 50"
  by (auto simp: sent_def sample_events kind_text_def get_def pd_get_or_def pd_get_def one_line_def lit_def of_char_def)

lemma sent_ascii: "list_all ascii_event sent"
proof -
  have "ascii_event e" if "e \<in> set sent" for e
    using sent_kinds [OF that] sent_clean [OF that] sent_bounded [OF that] sent_dumps [OF that] unfolding ascii_event_def by blast
  then show ?thesis by (simp add: list_all_iff)
qed

definition sent_bytes :: "bytes list" where "sent_bytes = [concat (map wire sent)]"

lemmas sent_parsed = events_parsed [OF sent_ascii, folded sent_bytes_def]

lemma sample_run:
  "\<exists>ems t. restore_messages_stream sample_stream 2000 sent_bytes (outcome_init []) sample_stored = (ems, None, t)
     \<and> events_of ems = sent"
proof -
  obtain fs where fs: "parse_sse 2000 sent_bytes = (fs, None)"
    "list_all2 (\<lambda>e f. \<not> se_heartbeat f \<and> payload_of sample_json f = Inr e) sent fs" using sent_parsed by blast
  obtain f1 f2 f3 f4 f5 f6 where f: "fs = [f1, f2, f3, f4, f5, f6]"
    and p: "payload_of sample_json f1 = Inr ev_start" "payload_of sample_json f2 = Inr ev_block" "payload_of sample_json f3 = Inr ev_input"
      "payload_of sample_json f4 = Inr ev_block_stop" "payload_of sample_json f5 = Inr ev_delta" "payload_of sample_json f6 = Inr ev_stop"
    and h: "\<not> se_heartbeat f1" "\<not> se_heartbeat f2" "\<not> se_heartbeat f3" "\<not> se_heartbeat f4" "\<not> se_heartbeat f5" "\<not> se_heartbeat f6"
    using fs(2) by (auto simp: sent_def list_all2_Cons1)
  obtain n2 n3 n4 where n: "size_of sample_json (PDict ev_block) = Inr n2" "size_of sample_json (PDict ev_input) = Inr n3"
    "size_of sample_json (PDict ev_block_stop) = Inr n4" "n2 \<le> 1000" "n3 \<le> 1000" "n4 \<le> 1000"
    using sent_size [of ev_block] sent_size [of ev_input] sent_size [of ev_block_stop] by (auto simp: sent_def)
  obtain t where t: "mm_dispatch sample_stream ev_stop (st5 n2 (n2 + n3 + n4)) = (Inr [ev_block, ev_input, ev_block_stop, ev_delta, ev_stop], t)"
    "mc_terminal t" using step6 by blast
  have open_states: "\<not> mc_terminal st1" "\<not> mc_terminal (st2 n2)" "\<not> mc_terminal (st3 n2 n3)" "\<not> mc_terminal (st4 n2 m)" "\<not> mc_terminal (st5 n2 m)" for m
    by (simp_all add: st5_def st4_def st3_def st2_def st1_def init_eval)
  have enc: "m_encode sample_stream False e s = (Inr (wire e), s)" if "e \<in> set sent" for e s
    using ascii_sends sent_ascii that by (auto simp: list_all_iff)
  have run: "frames sample_stream False (mm_dispatch sample_stream) fs None [] st0 =
     ([Event ev_start (wire ev_start)], None, [ev_block, ev_input, ev_block_stop, ev_delta, ev_stop], t)"
    by (simp add: f p h step1 step2 [OF n(1,4)] step3 [OF n(2,4,5)] step4 [OF n(3,4,5,6)] step5 t open_states enc sent_def)
  show ?thesis
    using run t(2) by (auto simp: restore_messages_stream_def fs(1) stream_result_def st0_def enc sent_def)
qed

theorem calls_released_once_witness:
  "\<exists>ems t prose es. restore_messages_stream sample_stream 2000 sent_bytes (outcome_init []) sample_stored = (ems, None, t)
     \<and> events_of ems = prose @ es \<and> list_all (\<lambda>e. \<not> mm_executable e) prose \<and> events_of ems = sent"
proof -
  obtain ems t where r: "restore_messages_stream sample_stream 2000 sent_bytes (outcome_init []) sample_stored = (ems, None, t)"
    "events_of ems = sent" using sample_run by blast
  from calls_released_once [OF r(1)] r show ?thesis by blast
qed

theorem no_call_before_success_witness:
  "\<exists>ems t. restore_messages_stream sample_stream 2000 sent_bytes (outcome_init []) sample_stored = (ems, None, t)
     \<and> mm_executable ev_input \<and> ev_input \<in> set (events_of ems)
     \<and> (\<exists>b \<in> set (mm_blocks t). tool_released sample_stream (name_of (mb_raw b)) False (block_arguments b) file_arguments)"
proof -
  obtain ems t where r: "restore_messages_stream sample_stream 2000 sent_bytes (outcome_init []) sample_stored = (ems, None, t)"
    "events_of ems = sent" using sample_run by blast
  have e: "mm_executable ev_input" "get ev_input ''type'' = str ''content_block_delta''" "block_field (get ev_input ''delta'') ''partial_json'' = PStr file_arguments"
    by (simp_all add: mm_executable_def ev_input_def get_def pd_get_or_def pd_get_def block_field_def)
  have m: "ev_input \<in> set (events_of ems)" by (simp add: r(2) sent_def)
  from no_call_before_success [OF r(1) m e(1)] obtain i arguments where "i < length (mm_blocks t)"
    "tool_released sample_stream (name_of (mb_raw (mm_blocks t ! i))) False (block_arguments (mm_blocks t ! i)) arguments"
    "block_field (get ev_input ''delta'') ''partial_json'' = PStr arguments" using e(2) by (auto simp: Let_def)
  with e(1,3) m r(1) show ?thesis by auto
qed

end
