(* ===== verification/ResponsesStreamFacts.thy ===== *)
theory ResponsesStreamFacts
  imports StreamFacts
begin

text \<open>
  What the Responses stream hands out: until the whole response has completed nothing of a call, and then
  only what the registry returned for its arguments, in every event that carries them and in the
  final response.
\<close>

subsection \<open>What each handler does to the items and to the held events\<close>

definition rm_view :: "'b responses_machine \<Rightarrow> rs_state list \<times> pydict list \<times> bool" where
  "rm_view st = (rm_items st, mc_pending st, mc_terminal st)"

lemma rm_more: "machine.more s = machine.more t \<Longrightarrow> rm_items s = rm_items t"
  by (cases s; cases t; clarsimp)

lemma rm_core: "core s = core t \<Longrightarrow> rm_view s = rm_view t"
  using rm_more [of s t] by (simp add: core_def rm_view_def)

lemma rm_inert: "inert m \<Longrightarrow> m s = (Inr x, t) \<Longrightarrow> rm_view t = rm_view s"
  by (rule rm_core [OF inertD])

lemma ret_same: "ret x s = (Inr y, t) \<longleftrightarrow> y = x \<and> t = s" by (auto simp: ret_def)

lemma get_set [simp]: "get (pd_set k v d) j = (if j = k then v else get d j)"
  by (simp add: get_def pd_get_or_def)

definition at_index :: "nat \<Rightarrow> pydict \<Rightarrow> bool" where "at_index i e \<longleftrightarrow> get e ''output_index'' = PInt (int i)"

lemma index_Inr: "stream_index m v = Inr i \<Longrightarrow> v = PInt (int i)"
  by (auto simp: stream_index_def split: pyval.splits if_splits)

lemma shape_dict: "shape v a r = Inr d \<Longrightarrow> v = PDict d"
  by (auto simp: shape_def split: pyval.splits if_splits)

lemma rm_located_Inr:
  assumes "rm_located V e s = (Inr (i, x), t)"
  shows "t = s \<and> at_index i e \<and> i < length (rm_items s) \<and> x = rm_items s ! i \<and> \<not> it_done x"
proof -
  from assms obtain j where "stream_index (sv_max_items V) (get e ''output_index'') = Inr j"
    "(if length (rm_items s) \<le> j \<or> it_done (rm_items s ! j) \<or> get e ''item_id'' \<noteq> get (it_raw (rm_items s ! j)) ''id''
      then fail_with INVALID s else ret (j, rm_items s ! j) s) = (Inr (i, x), t)"
    by (auto simp: rm_located_def bind_Inr)
  then show ?thesis by (auto simp: at_index_def ret_same dest: index_Inr split: if_splits)
qed

lemma rm_part_Inr: "rm_part V e x s = (Inr (j, p), t) \<Longrightarrow> t = s"
  by (auto simp: rm_part_def bind_Inr ret_same split: if_splits)

lemma rm_put_view: "rm_put i x s = (Inr u, t) \<Longrightarrow> rm_view t = ((rm_items s)[i := x], mc_pending s, mc_terminal s)"
  by (simp add: rm_put_def rm_view_def)

lemma rm_hold_view: "m_hold V e s = (Inr u, t) \<Longrightarrow> rm_view t = (rm_items s, mc_pending s @ [e], mc_terminal s)"
  by (auto simp: m_hold_def bind_Inr rm_view_def)

lemma rm_lifecycle_view:
  assumes "rm_lifecycle V e s = (Inr es, t)"
  shows "rm_view t = rm_view s \<and> es = [e]"
proof -
  from assms obtain x1 s1 r x2 s2 where a: "m_event e [''response''] [''response''] s = (Inr x1, s1)"
    and b: "(if get e ''type'' = str ''response.created''
           then bind (\<lambda>st. step_if (\<not> mc_started st) INVALID st) (\<lambda>_.
                modify (\<lambda>st. st\<lparr>mc_started := True, rm_id := Some (get r ''id'')\<rparr>))
           else bind (\<lambda>st. step_if (mc_started st \<and> \<not> rm_in_progress st \<and> rm_items st = []) INVALID st) (\<lambda>_.
                modify (\<lambda>st. st\<lparr>rm_in_progress := True\<rparr>))) s1 = (Inr x2, s2)"
    and c: "t = s2" "es = [e]"
    unfolding rm_lifecycle_def by (auto simp: bind_Inr ret_same)
  have "rm_view s2 = rm_view s1" using b by (auto simp: bind_Inr rm_view_def split: if_splits)
  with rm_inert [OF inert_event a] c show ?thesis by simp
qed

lemma item_shape_dict: "item_shape c m v = Inr d \<Longrightarrow> v = PDict d"
  by (auto simp: item_shape_def Let_def rbind_eq_Inr split: pyval.splits)

lemma item_shape_kind:
  assumes "item_shape c m v = Inr d"
  shows "\<exists>k. get d ''type'' = PStr k"
proof -
  from assms have "item_kind m d = Inr ()" by (auto simp: item_shape_def Let_def rbind_eq_Inr checks_Inr split: pyval.splits)
  then have "get d ''type'' = str ''message'' \<or> in_names (get d ''type'') TOOL_KINDS \<or> get d ''type'' = str ''reasoning''"
    by (auto simp: item_kind_def Let_def rbind_eq_Inr in_set_def split: if_splits)
  then show ?thesis by (auto simp: TOOL_KINDS_def in_names_def)
qed

lemma rm_item_added_view:
  assumes "rm_item_added V e s = (Inr es, t)"
  shows "\<exists>d. get e ''item'' = PDict d \<and> at_index (length (rm_items s)) e
     \<and> (tool_dict d \<longrightarrow> \<not> truthy (get d (call_field d)) \<and> get d ''type'' \<noteq> str ''message'')
     \<and> rm_view t = (rm_items s @ [new_item d], if tool_dict d then mc_pending s @ [e] else mc_pending s, mc_terminal s)
     \<and> es = (if tool_dict d then [] else [e])"
proof -
  from assms obtain x1 s1 i d x2 s2 x3 s3 where
    a: "m_event e [''output_index'', ''item''] [''output_index'', ''item''] s = (Inr x1, s1)"
    and i: "stream_index (sv_max_items V) (get e ''output_index'') = Inr i"
    and d: "item_shape False (sv_max_items V) (get e ''item'') = Inr d"
    and l: "i = length (rm_items s1)"
    and b: "(if get d ''type'' = str ''message'' then step_if (get d ''content'' = PList []) INVALID
             else if tool_dict d then rm_new_call d else ret ()) (s1\<lparr>rm_ids := get d ''id'' # rm_ids s1\<rparr>) = (Inr x2, s2)"
    and c: "m_add_item V (s2\<lparr>rm_items := rm_items s2 @ [new_item d]\<rparr>) = (Inr x3, s3)"
    and f: "(if tool_dict d then bind (m_hold V e) (\<lambda>_. ret []) else ret [e]) s3 = (Inr es, t)"
    unfolding rm_item_added_def by (auto simp: bind_Inr simp del: bind_ret bind_ret_right)
  have v1: "rm_view s1 = rm_view s" by (rule rm_inert [OF inert_event a])
  have m: "tool_dict d \<Longrightarrow> get d ''type'' \<noteq> str ''message''" by (auto simp: tool_dict_def TOOL_KINDS_def in_names_def)
  have v2: "rm_view s2 = rm_view s1 \<and> (tool_dict d \<longrightarrow> \<not> truthy (get d (call_field d)))"
    using b m by (auto simp: rm_new_call_def bind_Inr rm_view_def ret_same split: if_splits)
  have v3: "rm_view s3 = (rm_items s2 @ [new_item d], mc_pending s2, mc_terminal s2)"
    using rm_inert [OF inert_add_item c] by (simp add: rm_view_def)
  have "rm_view t = (rm_items s3, if tool_dict d then mc_pending s3 @ [e] else mc_pending s3, mc_terminal s3)
     \<and> es = (if tool_dict d then [] else [e])"
    using f by (auto simp: bind_Inr rm_view_def ret_same dest!: rm_hold_view split: if_splits)
  with v1 v2 v3 index_Inr [OF i] l item_shape_dict [OF d] m show ?thesis
    by (auto simp: rm_view_def at_index_def)
qed

text \<open>An item whose announcement and final form are not touched.\<close>

definition same_item :: "rs_state \<Rightarrow> rs_state \<Rightarrow> bool" where
  "same_item x y \<longleftrightarrow> it_raw x = it_raw y \<and> it_final x = it_final y"

lemma same_put_part: "same_item (put_part j p x) y \<longleftrightarrow> same_item x y"
  by (simp add: same_item_def put_part_def)

lemma same_refl [simp]: "same_item x x" by (simp add: same_item_def)

lemma rm_content_part_view:
  assumes "rm_content_part V e s = (Inr es, t)"
  shows "\<exists>i x. i < length (rm_items s) \<and> same_item x (rm_items s ! i)
     \<and> rm_view t = ((rm_items s)[i := x], mc_pending s, mc_terminal s) \<and> (\<forall>y \<in> set es. get y ''type'' = get e ''type'')"
proof -
  from assms obtain x1 s1 i x s2 part j where
    a: "m_event e PART_FIELDS PART_FIELDS s = (Inr x1, s1)" and l: "rm_located V e s1 = (Inr (i, x), s2)"
    and m: "(if get e ''type'' = str ''response.content_part.added'' then rm_part_added V e i x part j
             else rm_part_done V e i x part) s2 = (Inr es, t)"
    unfolding rm_content_part_def by (auto simp: bind_Inr)
  have v: "rm_view s1 = rm_view s" by (rule rm_inert [OF inert_event a])
  from rm_located_Inr [OF l] have i: "s2 = s1" "i < length (rm_items s1)" "x = rm_items s1 ! i" by auto
  show ?thesis
  proof (cases "get e ''type'' = str ''response.content_part.added''")
    case True
    with m have "rm_part_added V e i x part j s2 = (Inr es, t)" by simp
    then obtain x3 s3 x4 where p: "rm_put i (x\<lparr>it_parts := it_parts x @ [\<lparr>pt_raw = part, pt_buffer = stream_init, pt_done = False\<rparr>]\<rparr>) s2 = (Inr x3, s3)"
      and q: "m_add_item V s3 = (Inr x4, t)" "es = [e]"
      by (auto simp: rm_part_added_def bind_Inr ret_same)
    have "rm_view t = rm_view s3" by (rule rm_inert [OF inert_add_item q(1)])
    with rm_put_view [OF p] v i q(2) show ?thesis
      by (intro exI [of _ i] exI [of _ "x\<lparr>it_parts := it_parts x @ [\<lparr>pt_raw = part, pt_buffer = stream_init, pt_done = False\<rparr>]\<rparr>"])
        (simp add: rm_view_def same_item_def)
  next
    case False
    with m have "rm_part_done V e i x part s2 = (Inr es, t)" by simp
    then obtain j p s3 x4 where q: "rm_part V e x s2 = (Inr (j, p), s3)"
      and p: "rm_put i (put_part j (p\<lparr>pt_done := True, pt_raw := part\<rparr>) x) s3 = (Inr x4, t)"
      and es: "es = [with_part_text (part_field part) (concat (ss_text (pt_buffer p))) e]"
      by (auto simp: rm_part_done_def bind_Inr ret_same)
    have "get (with_part_text k u e) ''type'' = get e ''type''" for k u by (auto simp: with_part_text_def split: pyval.splits)
    with rm_put_view [OF p] rm_part_Inr [OF q] v i es show ?thesis
      by (intro exI [of _ i] exI [of _ "put_part j (p\<lparr>pt_done := True, pt_raw := part\<rparr>) x"])
        (simp add: rm_view_def same_put_part)
  qed
qed

text \<open>The text of a part is prose: what comes out is a text event.\<close>

definition text_kinds :: "string list" where
  "text_kinds = [''response.output_text.delta'', ''response.output_text.done'', ''response.refusal.delta'', ''response.refusal.done'']"

lemma get_delete: "k \<noteq> j \<Longrightarrow> get (AList.delete (str k) d) j = get d j"
  by (simp add: get_def pd_get_or_def pd_get_def delete_conv')

lemma final_text_kinds:
  "in_names (get e ''type'') text_kinds \<Longrightarrow> \<not> text_is_delta (get e ''type'')
     \<Longrightarrow> y \<in> set (rm_final_text e buffer u) \<Longrightarrow> in_names (get y ''type'') text_kinds"
  by (auto simp: rm_final_text_def Let_def text_field_def get_delete text_kinds_def in_names_def split: if_splits)

lemma rm_feed_part_view:
  assumes "rm_feed_part V e i x j p v s = (Inr es, t)" and "in_names (get e ''type'') text_kinds"
  shows "\<exists>x'. same_item x' x \<and> rm_view t = ((rm_items s)[i := x'], mc_pending s, mc_terminal s)
     \<and> (\<forall>y \<in> set es. in_names (get y ''type'') text_kinds)"
proof -
  from assms(1) obtain x1 s1 u buffer s2 x3 s3 x4 where
    c: "(if text_is_delta (get e ''type'') then m_count V False v else ret ()) s = (Inr x1, s1)"
    and f: "m_feed V (pt_buffer p) (if text_is_delta (get e ''type'') then v else []) (\<not> text_is_delta (get e ''type'')) s1 = (Inr (u, buffer), s2)"
    and q: "rm_put i (put_part j (p\<lparr>pt_buffer := buffer\<rparr>) x) s2 = (Inr x3, s3)" and c': "m_count V True u s3 = (Inr x4, t)"
    and es: "es = (if text_is_delta (get e ''type'') then (if u = [] then [] else [pd_set ''delta'' (PStr u) e]) else rm_final_text e buffer u)"
    by (auto simp: rm_feed_part_def Let_def bind_Inr ret_same simp del: bind_ret bind_ret_right)
  have "inert (if text_is_delta (get e ''type'') then m_count V False v else ret ())" by (intro inert_rules)
  from rm_inert [OF this c] rm_inert [OF inert_feed f] rm_inert [OF inert_count c'] rm_put_view [OF q]
  have "rm_view t = ((rm_items s)[i := put_part j (p\<lparr>pt_buffer := buffer\<rparr>) x], mc_pending s, mc_terminal s)"
    by (simp add: rm_view_def)
  moreover have "\<forall>y \<in> set es. in_names (get y ''type'') text_kinds"
    using es assms(2) final_text_kinds [OF assms(2)] by auto
  ultimately show ?thesis by (intro exI [of _ "put_part j (p\<lparr>pt_buffer := buffer\<rparr>) x"]) (simp add: same_put_part)
qed

lemma rm_text_view:
  assumes "rm_text V e s = (Inr es, t)" and "in_names (get e ''type'') text_kinds"
  shows "\<exists>i x. i < length (rm_items s) \<and> same_item x (rm_items s ! i)
     \<and> rm_view t = ((rm_items s)[i := x], mc_pending s, mc_terminal s) \<and> (\<forall>y \<in> set es. in_names (get y ''type'') text_kinds)"
proof -
  let ?f = "text_field (get e ''type'')"
  from assms(1) obtain x1 s1 i x s2 j p s3 v where
    a: "m_event e ([''output_index'', ''item_id'', ''content_index'', ?f] @ [''logprobs'']) [''output_index'', ''item_id'', ''content_index'', ?f] s = (Inr x1, s1)"
    and l: "rm_located V e s1 = (Inr (i, x), s2)" and q: "rm_part V e x s2 = (Inr (j, p), s3)"
    and m: "rm_feed_part V e i x j p v s3 = (Inr es, t)"
    by (auto simp: rm_text_def Let_def bind_Inr)
  have v: "rm_view s1 = rm_view s" by (rule rm_inert [OF inert_event a])
  from rm_located_Inr [OF l] rm_part_Inr [OF q] have i: "s3 = s1" "i < length (rm_items s1)" "x = rm_items s1 ! i" by auto
  from rm_feed_part_view [OF m assms(2)] obtain x' where "same_item x' x"
    "rm_view t = ((rm_items s3)[i := x'], mc_pending s3, mc_terminal s3)" "\<forall>y \<in> set es. in_names (get y ''type'') text_kinds" by blast
  with v i show ?thesis by (intro exI [of _ i] exI [of _ x']) (simp add: rm_view_def)
qed

definition argument_kinds :: "string list" where
  "argument_kinds = [''response.function_call_arguments.delta'', ''response.function_call_arguments.done'',
     ''response.custom_tool_call_input.delta'', ''response.custom_tool_call_input.done'']"

definition call_part :: "rs_state \<Rightarrow> pydict \<Rightarrow> bool" where
  \<comment> \<open>an event with arguments of the call\<close>
  "call_part x e \<longleftrightarrow> get e ''type'' = str (call_prefix x @ ''.delta'') \<or> get e ''type'' = str (call_prefix x @ ''.done'')"

lemma custom_tool: "get d ''type'' = str ''custom_tool_call'' \<Longrightarrow> tool_dict d \<and> custom_dict d"
  "get d ''type'' = str ''function_call'' \<Longrightarrow> tool_dict d \<and> \<not> custom_dict d"
  by (simp_all add: tool_dict_def custom_dict_def TOOL_KINDS_def in_names_def)

lemma argument_part:
  assumes "in_names (get e ''type'') argument_kinds"
    and "get (it_raw x) ''type'' = (if argument_custom (get e ''type'') then str ''custom_tool_call'' else str ''function_call'')"
  shows "tool_dict (it_raw x) \<and> call_part x e"
proof (cases "argument_custom (get e ''type'')")
  case True
  with assms(2) custom_tool(1) have "tool_dict (it_raw x)" "custom_dict (it_raw x)" by auto
  with True show ?thesis by (auto simp: call_part_def call_prefix_def argument_custom_def)
next
  case False
  with assms(2) custom_tool(2) have "tool_dict (it_raw x)" "\<not> custom_dict (it_raw x)" by auto
  with False assms(1) show ?thesis by (auto simp: call_part_def call_prefix_def argument_custom_def argument_kinds_def in_names_def)
qed

lemma rm_arguments_view:
  assumes "rm_arguments V e s = (Inr es, t)" and "in_names (get e ''type'') argument_kinds"
  shows "\<exists>i x. i < length (rm_items s) \<and> same_item x (rm_items s ! i) \<and> at_index i e \<and> tool_dict (it_raw x) \<and> call_part x e
     \<and> rm_view t = ((rm_items s)[i := x], mc_pending s @ [e], mc_terminal s) \<and> es = []"
proof -
  let ?k = "get e ''type''" let ?f = "argument_field ?k"
  from assms(1) obtain x1 s1 i x s2 v x3 s3 x4 where
    a: "m_event e [''output_index'', ''item_id'', ?f] [''output_index'', ''item_id'', ?f] s = (Inr x1, s1)"
    and l: "rm_located V e s1 = (Inr (i, x), s2)"
    and k: "get (it_raw x) ''type'' = (if argument_custom ?k then str ''custom_tool_call'' else str ''function_call'')"
    and m: "(if argument_delta ?k
            then bind (m_count V False v) (\<lambda>_. rm_put i (x\<lparr>it_chunks := it_chunks x @ [v]\<rparr>))
            else bind (step_if (v = concat (it_chunks x)) ''provider_snapshot_mismatch'') (\<lambda>_.
                 rm_put i (x\<lparr>it_arguments := concat (it_chunks x), it_chunks := [], it_args_done := True\<rparr>))) s2 = (Inr x3, s3)"
    and h: "m_hold V e s3 = (Inr x4, t)" and es: "es = []"
    by (auto simp: rm_arguments_def Let_def bind_Inr ret_same)
  have v: "rm_view s1 = rm_view s" by (rule rm_inert [OF inert_event a])
  from rm_located_Inr [OF l] have i: "s2 = s1" "i < length (rm_items s1)" "x = rm_items s1 ! i" "at_index i e" by auto
  have "\<exists>x'. same_item x' x \<and> rm_view s3 = ((rm_items s2)[i := x'], mc_pending s2, mc_terminal s2)"
  proof (cases "argument_delta ?k")
    case True
    with m obtain x5 s4 where c: "m_count V False v s2 = (Inr x5, s4)" and p: "rm_put i (x\<lparr>it_chunks := it_chunks x @ [v]\<rparr>) s4 = (Inr x3, s3)"
      by (auto simp: bind_Inr)
    with rm_inert [OF inert_count c] rm_put_view [OF p] show ?thesis
      by (intro exI [of _ "x\<lparr>it_chunks := it_chunks x @ [v]\<rparr>"]) (simp add: same_item_def rm_view_def)
  next
    case False
    with m have p: "rm_put i (x\<lparr>it_arguments := concat (it_chunks x), it_chunks := [], it_args_done := True\<rparr>) s2 = (Inr x3, s3)"
      by (auto simp: bind_Inr)
    from rm_put_view [OF p] show ?thesis
      by (intro exI [of _ "x\<lparr>it_arguments := concat (it_chunks x), it_chunks := [], it_args_done := True\<rparr>"]) (simp add: same_item_def)
  qed
  then obtain x' where x': "same_item x' x" "rm_view s3 = ((rm_items s2)[i := x'], mc_pending s2, mc_terminal s2)" by blast
  from argument_part [OF assms(2) k] x'(1) have "tool_dict (it_raw x') \<and> call_part x' e"
    by (simp add: same_item_def call_part_def call_prefix_def)
  with x' rm_hold_view [OF h] v i es show ?thesis by (intro exI [of _ i] exI [of _ x']) (simp add: rm_view_def)
qed

subsection \<open>An item is finished as it was announced\<close>

definition final_ok :: "rs_state \<Rightarrow> bool" where
  "final_ok x \<longleftrightarrow> (\<forall>f. it_final x = Some f \<longrightarrow> get f ''type'' = get (it_raw x) ''type'')"

lemma get_default: "k \<noteq> j \<Longrightarrow> get (pd_default k v d) j = get d j"
  by (simp add: pd_default_def)

lemma settled_kind: "get (settled d) ''type'' = get d ''type''"
  by (auto simp: settled_def Let_def get_default)

lemma snapshot_kind: "final_ok x \<Longrightarrow> get (item_snapshot r x) ''type'' = get (it_raw x) ''type''"
  by (auto simp: final_ok_def item_snapshot_def Let_def call_field_def split: option.splits)

lemma py_eq_field:
  assumes "py_eq (PDict d) (PDict e)" and "get d k = PStr s"
  shows "get e k = PStr s"
proof -
  from assms(2) have "map_of d (str k) = Some (PStr s)" by (auto simp: get_def pd_get_or_def pd_get_def split: option.splits)
  then have "(str k, PStr s) \<in> set d" by (rule map_of_SomeD)
  with assms(1) have "map_of e (str k) = Some (PStr s)" by (auto simp: list_all_iff split: option.splits)
  then show ?thesis by (simp add: get_def pd_get_or_def pd_get_def)
qed

lemma compare_kind:
  assumes "compare_item V snapshot x = Inr ()" and "final_ok x"
  shows "\<exists>d. snapshot = PDict d \<and> get d ''type'' = get (it_raw x) ''type''"
proof -
  from assms(1) obtain d where d: "item_shape True (sv_max_items V) snapshot = Inr d" by (auto simp: compare_item_def rbind_eq_Inr)
  from item_shape_kind [OF d] obtain k where k: "get d ''type'' = PStr k" by blast
  let ?e = "settled (item_snapshot False x)"
  have e: "get ?e ''type'' = get (it_raw x) ''type''" using snapshot_kind [OF assms(2)] by (simp add: settled_kind)
  have "get ?e ''type'' = PStr k"
  proof (cases "get d ''type'' = str ''message''")
    case True
    with assms(1) d k show ?thesis by (simp add: compare_item_def settled_kind Let_def split: if_splits)
  next
    case False
    with assms(1) d have "py_eq (PDict (settled d)) (PDict ?e)" by (simp add: compare_item_def settled_kind Let_def)
    from py_eq_field [OF this, of "''type''"] k show ?thesis by (simp add: settled_kind)
  qed
  with e k item_shape_dict [OF d] show ?thesis by simp
qed

lemma rm_item_done_view:
  assumes "rm_item_done V e s = (Inr es, t)" and "list_all final_ok (rm_items s)"
  shows "\<exists>i x. i < length (rm_items s) \<and> at_index i e \<and> it_raw x = it_raw (rm_items s ! i) \<and> final_ok x
     \<and> rm_view t = ((rm_items s)[i := x], if tool_dict (it_raw x) then mc_pending s @ [e] else mc_pending s, mc_terminal s)
     \<and> es = (if tool_dict (it_raw x) then [] else [pd_set ''item'' (PDict (item_snapshot True x)) e])"
proof -
  from assms(1) obtain x1 s1 i where
    a: "m_event e [''output_index'', ''item''] [''output_index'', ''item''] s = (Inr x1, s1)"
    and i: "stream_index (sv_max_items V) (get e ''output_index'') = Inr i" "i < length (rm_items s1)"
    and c: "compare_item V (get e ''item'') (rm_items s1 ! i) = Inr ()"
    and m: "\<exists>x2 s2. rm_put i ((rm_items s1 ! i)\<lparr>it_final := (case get e ''item'' of PDict d \<Rightarrow> Some d | _ \<Rightarrow> None), it_done := True\<rparr>) s1 = (Inr x2, s2)
        \<and> (if tool_dict (it_raw (rm_items s1 ! i)) then bind (m_hold V e) (\<lambda>_. ret [])
           else ret [pd_set ''item'' (PDict (item_snapshot True ((rm_items s1 ! i)\<lparr>it_final := (case get e ''item'' of PDict d \<Rightarrow> Some d | _ \<Rightarrow> None), it_done := True\<rparr>))) e]) s2
          = (Inr es, t)"
    unfolding rm_item_done_def Let_def by (auto simp: bind_Inr simp del: bind_ret bind_ret_right)
  have v: "rm_view s1 = rm_view s" by (rule rm_inert [OF inert_event a])
  define x where "x = (rm_items s1 ! i)\<lparr>it_final := (case get e ''item'' of PDict d \<Rightarrow> Some d | _ \<Rightarrow> None), it_done := True\<rparr>"
  have "final_ok (rm_items s1 ! i)" using assms(2) v i(2) by (simp add: rm_view_def list_all_length)
  from compare_kind [OF c this] have x: "it_raw x = it_raw (rm_items s1 ! i)" "final_ok x" by (auto simp: x_def final_ok_def)
  from m obtain x2 s2 where p: "rm_put i x s1 = (Inr x2, s2)"
    and f: "(if tool_dict (it_raw x) then bind (m_hold V e) (\<lambda>_. ret []) else ret [pd_set ''item'' (PDict (item_snapshot True x)) e]) s2 = (Inr es, t)"
    unfolding x_def [symmetric] x(1) [symmetric] by blast
  have "rm_view t = (rm_items s2, if tool_dict (it_raw x) then mc_pending s2 @ [e] else mc_pending s2, mc_terminal s2)
     \<and> es = (if tool_dict (it_raw x) then [] else [pd_set ''item'' (PDict (item_snapshot True x)) e])"
    using f by (auto simp: bind_Inr ret_same rm_view_def dest!: rm_hold_view split: if_splits)
  with rm_put_view [OF p] v x index_Inr [OF i(1)] i(2) show ?thesis
    by (intro exI [of _ i] exI [of _ x]) (auto simp: rm_view_def at_index_def)
qed


subsection \<open>Which events a client executes, and what is held of a call\<close>

definition rm_executable :: "pydict \<Rightarrow> bool" where
  \<comment> \<open>the events that carry a call, and the final response\<close>
  "rm_executable e \<longleftrightarrow> in_names (get e ''type'') argument_kinds
     \<or> (in_names (get e ''type'') [''response.output_item.added'', ''response.output_item.done''] \<and> (\<exists>d. get e ''item'' = PDict d \<and> tool_dict d))
     \<or> get e ''type'' = str ''response.completed''"

definition held_of :: "rs_state \<Rightarrow> nat \<Rightarrow> pydict \<Rightarrow> bool" where
  "held_of x i e \<longleftrightarrow> at_index i e \<and> tool_dict (it_raw x)
     \<and> (get e ''type'' = str ''response.output_item.added'' \<and> get e ''item'' = PDict (it_raw x)
        \<or> call_part x e \<or> get e ''type'' = str ''response.output_item.done'')"

definition announced_ok :: "rs_state \<Rightarrow> bool" where
  \<comment> \<open>a call is announced without arguments\<close>
  "announced_ok x \<longleftrightarrow> (tool_dict (it_raw x) \<longrightarrow> \<not> truthy (get (it_raw x) (call_field (it_raw x))))"

definition rm_good :: "'b responses_machine \<Rightarrow> bool" where
  "rm_good st \<longleftrightarrow> list_all (\<lambda>x. final_ok x \<and> announced_ok x) (rm_items st)
     \<and> (\<forall>e \<in> set (mc_pending st). \<exists>i < length (rm_items st). held_of (rm_items st ! i) i e)"

lemma rm_good_view: "rm_view s = rm_view t \<Longrightarrow> rm_good s = rm_good t"
  by (simp add: rm_good_def rm_view_def)

lemma held_raw: "it_raw x = it_raw y \<Longrightarrow> held_of x i e = held_of y i e"
  by (simp add: held_of_def call_part_def call_prefix_def)

lemma rm_good_new:
  assumes "rm_good s" and "rm_view t = (rm_items s @ [x], mc_pending s @ new, b)" and "final_ok x \<and> announced_ok x"
    and "\<forall>e \<in> set new. held_of x (length (rm_items s)) e"
  shows "rm_good t"
proof -
  have "\<exists>i < length (rm_items t). held_of (rm_items t ! i) i e" if "e \<in> set (mc_pending t)" for e
  proof (cases "e \<in> set new")
    case True
    with assms(2,4) show ?thesis by (intro exI [of _ "length (rm_items s)"]) (auto simp: rm_view_def)
  next
    case False
    with that assms(1,2) obtain i where "i < length (rm_items s)" "held_of (rm_items s ! i) i e" by (auto simp: rm_view_def rm_good_def)
    with assms(2) show ?thesis by (intro exI [of _ i]) (auto simp: rm_view_def nth_append)
  qed
  with assms show ?thesis by (auto simp: rm_good_def rm_view_def)
qed

lemma rm_good_update:
  assumes "rm_good s" and "i < length (rm_items s)" and "it_raw x = it_raw (rm_items s ! i)" and "final_ok x"
    and "rm_view t = ((rm_items s)[i := x], mc_pending s @ new, b)" and "\<forall>e \<in> set new. held_of x i e"
  shows "rm_good t"
proof -
  have raw: "it_raw ((rm_items s)[i := x] ! j) = it_raw (rm_items s ! j)" for j
    using assms(2,3) by (cases "j = i") (auto simp: nth_list_update)
  have held: "\<exists>j < length (rm_items t). held_of (rm_items t ! j) j e" if "e \<in> set (mc_pending t)" for e
  proof (cases "e \<in> set new")
    case True
    with assms(2,5,6) show ?thesis by (intro exI [of _ i]) (auto simp: rm_view_def)
  next
    case False
    with that assms(1,5) obtain j where "j < length (rm_items s)" "held_of (rm_items s ! j) j e" by (auto simp: rm_view_def rm_good_def)
    with assms(5) held_raw [OF raw, of j j e] show ?thesis by (intro exI [of _ j]) (auto simp: rm_view_def)
  qed
  have "announced_ok x" using assms(1-3) by (auto simp: rm_good_def announced_ok_def list_all_length)
  moreover have "set ((rm_items s)[i := x]) \<subseteq> insert x (set (rm_items s))" by (rule set_update_subset_insert)
  ultimately have "list_all (\<lambda>x. final_ok x \<and> announced_ok x) ((rm_items s)[i := x])"
    using assms(1,4) by (auto simp: rm_good_def list_all_iff)
  moreover have "rm_items t = (rm_items s)[i := x]" using assms(5) by (simp add: rm_view_def)
  ultimately show ?thesis using held by (simp add: rm_good_def)
qed

lemma same_ok: "same_item x y \<Longrightarrow> final_ok x = final_ok y" by (simp add: same_item_def final_ok_def)

lemma rm_good_init: "rm_good (responses_init v out)"
  by (simp add: rm_good_def responses_init_def machine_init_def machine.defs)

subsection \<open>The steps before the end\<close>

lemma rm_chain:
  "(if c1 then fail_with a else if c2 then m2 else m3) s = (Inr x, t) \<Longrightarrow> c2 \<and> m2 s = (Inr x, t) \<or> m3 s = (Inr x, t)"
  "(if c1 then m1 else if c2 then m2 else if c3 then m3 else if c4 then m4 else if c5 then m5 else if c6 then m6 else fail_with b) s = (Inr x, t)
     \<Longrightarrow> c1 \<and> m1 s = (Inr x, t) \<or> c2 \<and> m2 s = (Inr x, t) \<or> c3 \<and> m3 s = (Inr x, t) \<or> c4 \<and> m4 s = (Inr x, t)
       \<or> c5 \<and> m5 s = (Inr x, t) \<or> c6 \<and> m6 s = (Inr x, t)"
  by (auto split: if_splits)

lemma rm_handle_cases:
  assumes "rm_handle V e s = (Inr es, t)"
  obtains (lifecycle) "rm_kind e [''response.created'', ''response.in_progress'']" "rm_lifecycle V e s = (Inr es, t)"
    | (added) "get e ''type'' = str ''response.output_item.added''" "rm_item_added V e s = (Inr es, t)"
    | (part) "rm_kind e [''response.content_part.added'', ''response.content_part.done'']" "rm_content_part V e s = (Inr es, t)"
    | (prose) "in_names (get e ''type'') text_kinds" "rm_text V e s = (Inr es, t)"
    | (arguments) "in_names (get e ''type'') argument_kinds" "rm_arguments V e s = (Inr es, t)"
    | (item_done) "get e ''type'' = str ''response.output_item.done''" "rm_item_done V e s = (Inr es, t)"
    | (completed) "get e ''type'' = str ''response.completed''" "rm_completed V e s = (Inr es, t)"
proof -
  have one: "rm_kind e [k] \<longleftrightarrow> get e ''type'' = str k" for k by (auto simp: rm_kind_def in_names_def)
  have lists: "rm_kind e text_kinds = in_names (get e ''type'') text_kinds" "rm_kind e argument_kinds = in_names (get e ''type'') argument_kinds"
    by (simp_all add: rm_kind_def)
  from rm_chain(1) [OF assms [unfolded rm_handle_def]] show ?thesis
  proof (elim disjE conjE)
    assume "bind (\<lambda>st. step_if (mc_started st) INVALID st) (\<lambda>_.
        if rm_kind e [''response.output_item.added''] then rm_item_added V e
        else if rm_kind e [''response.content_part.added'', ''response.content_part.done''] then rm_content_part V e
        else if rm_kind e [''response.output_text.delta'', ''response.output_text.done'', ''response.refusal.delta'', ''response.refusal.done'']
        then rm_text V e
        else if rm_kind e [''response.function_call_arguments.delta'', ''response.function_call_arguments.done'',
                           ''response.custom_tool_call_input.delta'', ''response.custom_tool_call_input.done''] then rm_arguments V e
        else if rm_kind e [''response.output_item.done''] then rm_item_done V e
        else if rm_kind e [''response.completed''] then rm_completed V e
        else fail_with ''unsupported_provider_event'') s = (Inr es, t)"
    then have "(if rm_kind e [''response.output_item.added''] then rm_item_added V e
        else if rm_kind e [''response.content_part.added'', ''response.content_part.done''] then rm_content_part V e
        else if rm_kind e text_kinds then rm_text V e
        else if rm_kind e argument_kinds then rm_arguments V e
        else if rm_kind e [''response.output_item.done''] then rm_item_done V e
        else if rm_kind e [''response.completed''] then rm_completed V e
        else fail_with ''unsupported_provider_event'') s = (Inr es, t)"
      unfolding bind_Inr text_kinds_def argument_kinds_def by simp
    from rm_chain(2) [OF this] show ?thesis
      by (elim disjE conjE) (use added part prose arguments item_done completed one lists in blast)+
  qed (erule (1) lifecycle)
qed

lemma prose_kinds:
  "rm_kind e [''response.created'', ''response.in_progress''] \<Longrightarrow> \<not> rm_executable e"
  "rm_kind e [''response.content_part.added'', ''response.content_part.done''] \<Longrightarrow> get y ''type'' = get e ''type'' \<Longrightarrow> \<not> rm_executable y"
  "in_names (get y ''type'') text_kinds \<Longrightarrow> \<not> rm_executable y"
  by (auto simp: rm_kind_def rm_executable_def in_names_def argument_kinds_def text_kinds_def)

lemma item_event_inert:
  "get e ''type'' = str ''response.output_item.added'' \<or> get e ''type'' = str ''response.output_item.done'' \<Longrightarrow>
     get e ''item'' = PDict d \<Longrightarrow> \<not> tool_dict d \<Longrightarrow> \<not> rm_executable e"
  by (auto simp: rm_executable_def in_names_def argument_kinds_def)

lemma snapshot_tool: "final_ok x \<Longrightarrow> tool_dict (item_snapshot r x) = tool_dict (it_raw x)"
  by (simp add: tool_dict_def snapshot_kind)

lemma rm_handle_steps:
  assumes "rm_handle V e s = (Inr es, t)" and "get e ''type'' \<noteq> str ''response.completed''" and "rm_good s"
  shows "mc_terminal t = mc_terminal s \<and> list_all (\<lambda>e. \<not> rm_executable e) es \<and> rm_good t"
  using assms(1)
proof (cases rule: rm_handle_cases)
  case lifecycle
  from rm_lifecycle_view [OF lifecycle(2)] have "rm_view t = rm_view s" "es = [e]" by auto
  with assms(3) rm_good_view [of t s] prose_kinds(1) [OF lifecycle(1)] show ?thesis by (simp add: rm_view_def)
next
  case added
  from rm_item_added_view [OF added(2)] obtain d where d: "get e ''item'' = PDict d" "at_index (length (rm_items s)) e"
    "tool_dict d \<longrightarrow> \<not> truthy (get d (call_field d))"
    "rm_view t = (rm_items s @ [new_item d], if tool_dict d then mc_pending s @ [e] else mc_pending s, mc_terminal s)"
    "es = (if tool_dict d then [] else [e])" by blast
  have v: "rm_view t = (rm_items s @ [new_item d], mc_pending s @ (if tool_dict d then [e] else []), mc_terminal s)" using d(4) by simp
  have "rm_good t"
    by (rule rm_good_new [OF assms(3) v]) (use d(1-3) added(1) in \<open>auto simp: new_item_def final_ok_def announced_ok_def held_of_def\<close>)
  moreover have "list_all (\<lambda>e. \<not> rm_executable e) es" using item_event_inert [OF _ d(1)] added(1) d(5) by auto
  ultimately show ?thesis using v by (simp add: rm_view_def)
next
  case part
  from rm_content_part_view [OF part(2)] obtain i x where i: "i < length (rm_items s)" "same_item x (rm_items s ! i)"
    and v: "rm_view t = ((rm_items s)[i := x], mc_pending s, mc_terminal s)" and es: "\<forall>y \<in> set es. get y ''type'' = get e ''type''" by blast
  have "rm_good t"
    by (rule rm_good_update [OF assms(3) i(1), of x t "[]"]) (use i v assms(3) same_ok [OF i(2)] in \<open>auto simp: same_item_def rm_good_def list_all_length\<close>)
  with v es prose_kinds(2) [OF part(1)] show ?thesis by (auto simp: rm_view_def list_all_iff)
next
  case prose
  from rm_text_view [OF prose(2,1)] obtain i x where i: "i < length (rm_items s)" "same_item x (rm_items s ! i)"
    and v: "rm_view t = ((rm_items s)[i := x], mc_pending s, mc_terminal s)" and es: "\<forall>y \<in> set es. in_names (get y ''type'') text_kinds" by blast
  have "rm_good t"
    by (rule rm_good_update [OF assms(3) i(1), of x t "[]"]) (use i v assms(3) same_ok [OF i(2)] in \<open>auto simp: same_item_def rm_good_def list_all_length\<close>)
  with v es prose_kinds(3) show ?thesis by (auto simp: rm_view_def list_all_iff)
next
  case arguments
  from rm_arguments_view [OF arguments(2,1)] obtain i x where i: "i < length (rm_items s)" "same_item x (rm_items s ! i)" "at_index i e"
    "tool_dict (it_raw x)" "call_part x e"
    and v: "rm_view t = ((rm_items s)[i := x], mc_pending s @ [e], mc_terminal s)" and es: "es = []" by blast
  have "rm_good t"
    by (rule rm_good_update [OF assms(3) i(1) _ _ v]) (use i assms(3) same_ok [OF i(2)] in \<open>auto simp: same_item_def rm_good_def list_all_length held_of_def\<close>)
  with v es show ?thesis by (auto simp: rm_view_def)
next
  case item_done
  have "list_all final_ok (rm_items s)" using assms(3) by (auto simp: rm_good_def list_all_iff)
  from rm_item_done_view [OF item_done(2) this] obtain i x where i: "i < length (rm_items s)" "at_index i e" "it_raw x = it_raw (rm_items s ! i)" "final_ok x"
    and v: "rm_view t = ((rm_items s)[i := x], if tool_dict (it_raw x) then mc_pending s @ [e] else mc_pending s, mc_terminal s)"
    and es: "es = (if tool_dict (it_raw x) then [] else [pd_set ''item'' (PDict (item_snapshot True x)) e])" by blast
  have v': "rm_view t = ((rm_items s)[i := x], mc_pending s @ (if tool_dict (it_raw x) then [e] else []), mc_terminal s)" using v by simp
  have "rm_good t"
    by (rule rm_good_update [OF assms(3) i(1,3,4) v']) (use i item_done(1) in \<open>auto simp: held_of_def\<close>)
  moreover have "list_all (\<lambda>e. \<not> rm_executable e) es"
    using es item_event_inert [of "pd_set ''item'' (PDict (item_snapshot True x)) e" "item_snapshot True x"] snapshot_tool [OF i(4)] item_done(1) by auto
  ultimately show ?thesis using v by (simp add: rm_view_def)
next
  case completed
  with assms(2) show ?thesis by simp
qed

subsection \<open>The end of the stream\<close>

definition item_released :: "'b stream_env \<Rightarrow> rs_state \<Rightarrow> bool" where
  \<comment> \<open>a call has what the registry returned for its arguments\<close>
  "item_released V x \<longleftrightarrow> (tool_dict (it_raw x) \<longrightarrow>
     (\<exists>out. it_restored x = Some out \<and> tool_released V (rm_name x) (custom_dict (it_raw x)) (it_arguments x) out))"

definition item_after :: "'b stream_env \<Rightarrow> rs_state \<Rightarrow> rs_state \<Rightarrow> bool" where
  "item_after V x y \<longleftrightarrow> (\<exists>r. y = x\<lparr>it_restored := r\<rparr>) \<and> item_released V y"

lemma rm_restore_call_done:
  assumes "rm_restore_call V i s = (Inr u, t)" and "i < length (rm_items s)"
  shows "mc_pending t = mc_pending s \<and> length (rm_items t) = length (rm_items s)
     \<and> (\<forall>j. j \<noteq> i \<longrightarrow> rm_items t ! j = rm_items s ! j) \<and> item_after V (rm_items s ! i) (rm_items t ! i)"
proof (cases "tool_dict (it_raw (rm_items s ! i))")
  case False
  with assms show ?thesis
    by (auto simp: rm_restore_call_def Let_def ret_same item_after_def item_released_def intro!: exI [of _ "it_restored (rm_items s ! i)"])
next
  case True
  define x where "x = rm_items s ! i"
  from assms(1) True obtain out outcome s1 x2 s2 x3 s3 x4 where
    r: "m_restore_tool V (rm_name x) (it_arguments x) (custom_dict (it_raw x)) s = (Inr (out, outcome), s1)"
    and p: "rm_put i (x\<lparr>it_restored := Some out\<rparr>) s1 = (Inr x2, s2)"
    and c: "m_count V True out s2 = (Inr x3, s3)" "m_merge outcome s3 = (Inr x4, t)"
    unfolding rm_restore_call_def Let_def x_def [symmetric] by (auto simp: bind_Inr)
  have v1: "rm_view s1 = rm_view s" by (rule rm_inert [OF inert_restore_tool r])
  have v2: "rm_view t = rm_view s2" using rm_inert [OF inert_count c(1)] rm_inert [OF inert_merge c(2)] by simp
  with rm_put_view [OF p] v1 v2 m_restore_tool_Inr [OF r] assms(2) show ?thesis
    by (auto simp: rm_view_def item_after_def item_released_def x_def rm_name_def)
qed

lemma rm_restore_calls_done:
  assumes "rm_restore_calls V is s = (Inr u, t)" and "distinct is" and "\<forall>i \<in> set is. i < length (rm_items s)"
  shows "mc_pending t = mc_pending s \<and> length (rm_items t) = length (rm_items s)
     \<and> (\<forall>j. if j \<in> set is then item_after V (rm_items s ! j) (rm_items t ! j) else rm_items t ! j = rm_items s ! j)"
  using assms
proof (induction "is" arbitrary: s)
  case (Cons i "is")
  from Cons.prems(1) obtain y s1 where s1: "rm_restore_call V i s = (Inr y, s1)" "rm_restore_calls V is s1 = (Inr u, t)"
    by (auto simp: bind_Inr)
  from rm_restore_call_done [OF s1(1)] Cons.prems(3) have one: "mc_pending s1 = mc_pending s"
    "length (rm_items s1) = length (rm_items s)" "\<forall>j. j \<noteq> i \<longrightarrow> rm_items s1 ! j = rm_items s ! j"
    "item_after V (rm_items s ! i) (rm_items s1 ! i)" by auto
  from Cons.IH [OF s1(2)] Cons.prems(2,3) one(2) have rest: "mc_pending t = mc_pending s1 \<and> length (rm_items t) = length (rm_items s1)
     \<and> (\<forall>j. if j \<in> set is then item_after V (rm_items s1 ! j) (rm_items t ! j) else rm_items t ! j = rm_items s1 ! j)" by simp
  show ?case
  proof (intro conjI allI)
    fix j
    have r: "if j \<in> set is then item_after V (rm_items s1 ! j) (rm_items t ! j) else rm_items t ! j = rm_items s1 ! j"
      using rest by blast
    show "if j \<in> set (i # is) then item_after V (rm_items s ! j) (rm_items t ! j) else rm_items t ! j = rm_items s ! j"
      using r one(3,4) Cons.prems(2) by (cases "j = i") (auto split: if_splits)
  qed (use one rest in auto)
qed (simp add: ret_same)

lemma item_after_same:
  "item_after V x y \<Longrightarrow> it_raw y = it_raw x \<and> it_final y = it_final x \<and> it_arguments y = it_arguments x \<and> rm_name y = rm_name x"
  by (auto simp: item_after_def rm_name_def)

lemma rm_calls_after: "list_all2 (item_after V) xs ys \<Longrightarrow> rm_calls_of ys = rm_calls_of xs"
  unfolding rm_calls_of_def by (induction rule: list_all2_induct) (auto dest!: item_after_same)

text \<open>An event carries of a call exactly its restored arguments.\<close>

definition carries :: "rs_state \<Rightarrow> nat \<Rightarrow> pydict \<Rightarrow> bool" where
  "carries x i e \<longleftrightarrow> at_index i e \<and> tool_dict (it_raw x)
     \<and> (if get e ''type'' = str ''response.output_item.added'' then get e ''item'' = PDict (it_raw x)
        else if get e ''type'' = str ''response.output_item.done'' then get e ''item'' = PDict (item_snapshot True x)
        else if get e ''type'' = str (call_prefix x @ ''.delta'') then get e ''delta'' = PStr (restored_arguments x)
        else get e ''type'' = str (call_prefix x @ ''.done'')
           \<and> get e (if custom_dict (it_raw x) then ''input'' else ''arguments'') = PStr (restored_arguments x))"

lemma prefix_kinds:
  "call_prefix x @ ''.delta'' \<noteq> call_prefix x @ ''.done''" "call_prefix x @ k \<noteq> ''response.output_item.added''"
  "call_prefix x @ k \<noteq> ''response.output_item.done''"
  by (simp_all add: call_prefix_def)

lemma carry_one:
  assumes "at_index i e" and "tool_dict (it_raw x)"
  shows "get e ''type'' = str (call_prefix x @ ''.delta'') \<Longrightarrow> carries x i (pd_set ''delta'' (PStr (restored_arguments x)) e)"
    and "carries x i (call_delta x (get e ''output_index''))"
    and "get e ''type'' = str (call_prefix x @ ''.done'') \<Longrightarrow>
      carries x i (pd_set (if custom_dict (it_raw x) then ''input'' else ''arguments'') (PStr (restored_arguments x)) e)"
    and "get e ''type'' = str ''response.output_item.done'' \<Longrightarrow> carries x i (pd_set ''item'' (PDict (item_snapshot True x)) e)"
    and "get e ''type'' = str ''response.output_item.added'' \<Longrightarrow> get e ''item'' = PDict (it_raw x) \<Longrightarrow> carries x i e"
proof -
  note p = prefix_kinds [of x]
  show "get e ''type'' = str (call_prefix x @ ''.delta'') \<Longrightarrow> carries x i (pd_set ''delta'' (PStr (restored_arguments x)) e)"
    using assms p(1) p(2,3) [of "''.delta''"] by (simp add: carries_def at_index_def)
  have "get (call_delta x (get e ''output_index'')) ''type'' = str (call_prefix x @ ''.delta'')"
    "get (call_delta x (get e ''output_index'')) ''output_index'' = get e ''output_index''"
    "get (call_delta x (get e ''output_index'')) ''delta'' = PStr (restored_arguments x)"
    by (simp_all add: call_delta_def get_def pd_get_or_def pd_get_def)
  then show "carries x i (call_delta x (get e ''output_index''))"
    using assms p(1) p(2,3) [of "''.delta''"] by (simp add: carries_def at_index_def)
  show "get e ''type'' = str (call_prefix x @ ''.done'') \<Longrightarrow>
      carries x i (pd_set (if custom_dict (it_raw x) then ''input'' else ''arguments'') (PStr (restored_arguments x)) e)"
    using assms p(1) p(2,3) [of "''.done''"] by (simp add: carries_def at_index_def)
  show "get e ''type'' = str ''response.output_item.done'' \<Longrightarrow> carries x i (pd_set ''item'' (PDict (item_snapshot True x)) e)"
    using assms by (simp add: carries_def at_index_def)
  show "get e ''type'' = str ''response.output_item.added'' \<Longrightarrow> get e ''item'' = PDict (it_raw x) \<Longrightarrow> carries x i e"
    using assms by (simp add: carries_def)
qed

lemma rm_released_carry:
  "y \<in> set (rm_released items sent es) \<Longrightarrow> \<forall>e \<in> set es. \<exists>i < length items. held_of (items ! i) i e
     \<Longrightarrow> \<exists>i < length items. carries (items ! i) i y"
proof (induction es arbitrary: sent)
  case (Cons e es)
  then obtain i where i: "i < length items" "held_of (items ! i) i e" by auto
  let ?x = "items ! i"
  from i(2) have ix: "(case get e ''output_index'' of PInt n \<Rightarrow> nat n | _ \<Rightarrow> 0) = i"
    and h: "at_index i e" "tool_dict (it_raw ?x)" by (auto simp: held_of_def at_index_def)
  note one = carry_one [OF h]
  have rest: "\<exists>i < length items. carries (items ! i) i y" if "y \<in> set (rm_released items sent' es)" for sent'
    using Cons.IH [OF that] Cons.prems(2) by simp
  let ?d = "get e ''type'' = str (call_prefix ?x @ ''.delta'')" let ?n = "get e ''type'' = str (call_prefix ?x @ ''.done'')"
  let ?f = "get e ''type'' = str ''response.output_item.done''"
  consider (delta) ?d | (finish) "\<not> ?d" ?n | (item) "\<not> ?d" "\<not> ?n" ?f
    | (added) "\<not> ?d" "\<not> ?n" "\<not> ?f" "get e ''type'' = str ''response.output_item.added''" "get e ''item'' = PDict (it_raw ?x)"
    using i(2) prefix_kinds(2) [of ?x] by (auto simp: held_of_def call_part_def call_prefix_def)
  then show ?case
  proof cases
    case delta
    with Cons.prems(1) have "y = pd_set ''delta'' (PStr (restored_arguments ?x)) e \<or> (\<exists>sent'. y \<in> set (rm_released items sent' es))"
      by (auto simp: ix Let_def split: if_splits)
    with rest one(1) [OF delta] i(1) show ?thesis by blast
  next
    case finish
    with Cons.prems(1) have "y = call_delta ?x (get e ''output_index'')
       \<or> y = pd_set (if custom_dict (it_raw ?x) then ''input'' else ''arguments'') (PStr (restored_arguments ?x)) e
       \<or> (\<exists>sent'. y \<in> set (rm_released items sent' es))"
      by (auto simp: ix Let_def split: if_splits)
    with rest one(2) one(3) [OF finish(2)] i(1) show ?thesis by blast
  next
    case item
    with Cons.prems(1) have "y = pd_set ''item'' (PDict (item_snapshot True ?x)) e \<or> y \<in> set (rm_released items sent es)"
      by (auto simp: ix Let_def)
    with rest one(4) [OF item(3)] i(1) show ?thesis by blast
  next
    case added
    with Cons.prems(1) have "y = e \<or> y \<in> set (rm_released items sent es)" by (auto simp: ix Let_def)
    with rest one(5) [OF added(4,5)] i(1) show ?thesis by blast
  qed
qed simp

definition final_output :: "rs_state list \<Rightarrow> pydict \<Rightarrow> bool" where
  \<comment> \<open>the final response has every item with its restored text and arguments\<close>
  "final_output items e \<longleftrightarrow> (\<exists>r. get e ''response'' = PDict r \<and> get r ''output'' = PList (map (\<lambda>x. PDict (item_snapshot True x)) items))"

definition rm_sanctioned :: "'b stream_env \<Rightarrow> pydict list \<Rightarrow> 'b responses_machine \<Rightarrow> bool" where
  "rm_sanctioned V es t \<longleftrightarrow> validate_batch (sv_bound V) (rm_calls_of (rm_items t)) = Inr ()
     \<and> list_all (\<lambda>x. item_released V x \<and> announced_ok x) (rm_items t)
     \<and> (\<forall>e \<in> set es. rm_executable e \<longrightarrow>
          (if get e ''type'' = str ''response.completed'' then final_output (rm_items t) e
           else \<exists>i < length (rm_items t). carries (rm_items t ! i) i e))"

lemma rm_completed_sanctioned:
  assumes "rm_completed V e s = (Inr es, t)" and "rm_good s" and "get e ''type'' = str ''response.completed''"
  shows "rm_sanctioned V es t \<and> \<not> mc_terminal s \<and> mc_terminal t"
proof -
  from assms(1) obtain x1 s1 r released s2 where
    a: "m_event e [''response''] [''response''] s = (Inr x1, s1)" and q: "rm_release V s1 = (Inr released, s2)"
    and t: "t = s2\<lparr>mc_terminal := True\<rparr>"
    and es: "es = released @ [pd_set ''response'' (PDict (pd_set ''output'' (PList (map (\<lambda>s. PDict (item_snapshot True s)) (rm_items s2))) r)) e]"
    unfolding rm_completed_def Let_def by (auto simp: bind_Inr ret_same)
  have v1: "rm_view s1 = rm_view s" by (rule rm_inert [OF inert_event a])
  with assms(2) rm_good_view have good: "rm_good s1" by blast
  from q obtain x2 where batch: "validate_batch (sv_bound V) (rm_calls_of (rm_items s1)) = Inr ()"
    and c: "rm_restore_calls V [0..<length (rm_items s1)] s1 = (Inr x2, s2)"
    and rel: "released = rm_released (rm_items s2) [] (mc_pending s2)"
    unfolding rm_release_def by (auto simp: bind_Inr ret_same)
  from rm_restore_calls_done [OF c] have fin: "mc_pending s2 = mc_pending s1" "length (rm_items s2) = length (rm_items s1)"
    and each: "\<And>j. if j \<in> set [0..<length (rm_items s1)] then item_after V (rm_items s1 ! j) (rm_items s2 ! j) else rm_items s2 ! j = rm_items s1 ! j"
    by auto
  then have after: "item_after V (rm_items s1 ! j) (rm_items s2 ! j)" if "j < length (rm_items s1)" for j using that each [of j] by simp
  then have all2: "list_all2 (item_after V) (rm_items s1) (rm_items s2)" using fin(2) by (simp add: list_all2_conv_all_nth)
  have ok: "item_released V (rm_items s2 ! j) \<and> announced_ok (rm_items s2 ! j)" if "j < length (rm_items s2)" for j
    using after [of j] that fin(2) good item_after_same [OF after [of j]] by (auto simp: item_after_def rm_good_def list_all_length announced_ok_def)
  have held: "\<forall>e \<in> set (mc_pending s2). \<exists>i < length (rm_items s2). held_of (rm_items s2 ! i) i e"
  proof
    fix y assume "y \<in> set (mc_pending s2)"
    with good fin(1) obtain i where "i < length (rm_items s1)" "held_of (rm_items s1 ! i) i y" by (auto simp: rm_good_def)
    with held_raw [of "rm_items s2 ! i" "rm_items s1 ! i" i y] item_after_same [OF after] fin(2)
    show "\<exists>i < length (rm_items s2). held_of (rm_items s2 ! i) i y" by auto
  qed
  have completed: "\<not> (get y ''type'' = str ''response.completed'')" if "carries x i y" for x i y
    using that by (auto simp: carries_def call_prefix_def split: if_splits)
  have "if get y ''type'' = str ''response.completed'' then final_output (rm_items t) y
        else \<exists>i < length (rm_items t). carries (rm_items t ! i) i y" if "y \<in> set es" for y
  proof (cases "y \<in> set released")
    case True
    then have "y \<in> set (rm_released (rm_items s2) [] (mc_pending s2))" by (simp add: rel)
    from rm_released_carry [OF this held] obtain i where "i < length (rm_items s2)" "carries (rm_items s2 ! i) i y" by blast
    with completed t show ?thesis by auto
  next
    case False
    with that es have "y = pd_set ''response'' (PDict (pd_set ''output'' (PList (map (\<lambda>s. PDict (item_snapshot True s)) (rm_items s2))) r)) e" by simp
    with t assms(3) show ?thesis by (simp add: final_output_def)
  qed
  then have "\<forall>y \<in> set es. rm_executable y \<longrightarrow> (if get y ''type'' = str ''response.completed'' then final_output (rm_items t) y
        else \<exists>i < length (rm_items t). carries (rm_items t ! i) i y)" by blast
  moreover have "rm_calls_of (rm_items t) = rm_calls_of (rm_items s1)" using rm_calls_after [OF all2] t by simp
  moreover have "list_all (\<lambda>x. item_released V x \<and> announced_ok x) (rm_items t)" using ok t by (simp add: list_all_length)
  ultimately show ?thesis using batch t m_event_open [OF a] unfolding rm_sanctioned_def by simp
qed

subsection \<open>The machine keeps the contract of the driver\<close>

lemma rm_opened: "bind (m_event e a r) f s = (Inr x, t) \<Longrightarrow> \<not> mc_terminal s"
  unfolding bind_Inr using m_event_open by blast

lemma rm_handle_open:
  assumes "rm_handle V e s = (Inr es, t)"
  shows "\<not> mc_terminal s"
  using assms
proof (cases rule: rm_handle_cases)
  case lifecycle
  from rm_opened [OF lifecycle(2) [unfolded rm_lifecycle_def]] show ?thesis .
next
  case added
  from rm_opened [OF added(2) [unfolded rm_item_added_def]] show ?thesis .
next
  case part
  from rm_opened [OF part(2) [unfolded rm_content_part_def]] show ?thesis .
next
  case prose
  from rm_opened [OF prose(2) [unfolded rm_text_def Let_def]] show ?thesis .
next
  case arguments
  from rm_opened [OF arguments(2) [unfolded rm_arguments_def Let_def]] show ?thesis .
next
  case item_done
  from rm_opened [OF item_done(2) [unfolded rm_item_done_def]] show ?thesis .
next
  case completed
  from rm_opened [OF completed(2) [unfolded rm_completed_def]] show ?thesis .
qed

lemma rm_completing: "rm_handle V e s = (Inr es, t) \<Longrightarrow> get e ''type'' = str ''response.completed'' \<Longrightarrow> rm_completed V e s = (Inr es, t)"
proof -
  assume h: "rm_handle V e s = (Inr es, t)" and k: "get e ''type'' = str ''response.completed''"
  from h show "rm_completed V e s = (Inr es, t)"
    by (cases rule: rm_handle_cases) (use k in \<open>auto simp: rm_kind_def in_names_def text_kinds_def argument_kinds_def\<close>)
qed

lemma rm_completed_terminal: "rm_completed V e s = (Inr es, t) \<Longrightarrow> mc_terminal t"
  by (auto simp: rm_completed_def Let_def bind_Inr ret_same)

interpretation rs: stream_machine V "rm_handle V" rm_executable rm_good "rm_sanctioned V"
  for V :: "'b stream_env"
proof
  fix e s es and t :: "'b responses_machine"
  assume d: "rm_handle V e s = (Inr es, t)"
  show "\<not> mc_terminal s" by (rule rm_handle_open [OF d])
  show "list_all (\<lambda>e. \<not> rm_executable e) es" if "rm_good s" "\<not> mc_terminal t"
    using rm_handle_steps [OF d _ that(1)] rm_completed_terminal [OF rm_completing [OF d]] that(2) by blast
  show "rm_good t" if "rm_good s" "\<not> mc_terminal t"
    using rm_handle_steps [OF d _ that(1)] rm_completed_terminal [OF rm_completing [OF d]] that(2) by blast
  show "rm_sanctioned V es t" if "rm_good s" "mc_terminal t"
    using rm_handle_steps [OF d _ that(1)] rm_completed_sanctioned [OF rm_completing [OF d] that(1)] rm_handle_open [OF d] that(2) by blast
next
  fix s t :: "'b responses_machine"
  assume "core s = core t"
  from rm_core [OF this] have v: "rm_view s = rm_view t" .
  show "rm_good s = rm_good t" by (rule rm_good_view [OF v])
  show "rm_sanctioned V es s = rm_sanctioned V es t" for es using v by (simp add: rm_sanctioned_def rm_view_def)
qed

lemma rm_init: "rm_good (responses_init v out)" "\<not> mc_terminal (responses_init v out)"
  using rm_good_init by (simp_all add: responses_init_def machine_init_def machine.defs)

text \<open>
  C4: No tool call of a Responses stream reaches the client before the whole response has completed: when an
  event of a call or the final response is handed out, the transport had ended cleanly, the batch of
  all calls was valid, the registry restored the arguments of every call, the events carry exactly what
  it returned, and the final response has the items in their restored form.
\<close>

theorem no_response_call_before_success:
  assumes "restore_responses_stream V limit pieces out v = (ems, r, t)" and "e \<in> set (events_of ems)" and "rm_executable e"
  shows "snd (parse_sse limit pieces) = None \<and> validate_batch (sv_bound V) (rm_calls_of (rm_items t)) = Inr ()
     \<and> (\<forall>x \<in> set (rm_items t). tool_dict (it_raw x) \<longrightarrow>
          tool_released V (rm_name x) (custom_dict (it_raw x)) (it_arguments x) (restored_arguments x))
     \<and> (if get e ''type'' = str ''response.completed'' then final_output (rm_items t) e
        else \<exists>i < length (rm_items t). carries (rm_items t ! i) i e)"
proof -
  obtain fs ending where p: "parse_sse limit pieces = (fs, ending)" by (metis surj_pair)
  with assms(1,2) have s: "stream_result V True (rm_handle V) fs ending (responses_init v out) = (ems, r, t)"
    by (auto simp: restore_responses_stream_def split: if_splits)
  from assms(2) obtain b where "Event e b \<in> set ems" by (auto simp: events_of_set)
  from rs.executable_after_success [OF s rm_init this assms(3)] obtain es where
    es: "ending = None" "e \<in> set es" "rm_sanctioned V es t" by blast
  have "tool_released V (rm_name x) (custom_dict (it_raw x)) (it_arguments x) (restored_arguments x)"
    if "x \<in> set (rm_items t)" "tool_dict (it_raw x)" for x
  proof -
    from es(3) that have "item_released V x" by (simp add: rm_sanctioned_def list_all_iff)
    with that(2) show ?thesis by (auto simp: item_released_def restored_arguments_def)
  qed
  with p es assms(3) show ?thesis by (simp add: rm_sanctioned_def)
qed

end
