(* ===== verification/ResponsesFacts.thy ===== *)
theory ResponsesFacts
  imports Responses MessagesFacts
begin

text \<open>
  What an accepted Responses request satisfies: its strings are listed, the prompt texts as content and the
  encoded arguments string by string, its history is consistent, and it asks the provider to retain nothing.
\<close>

subsection \<open>What an operation adds to the builder\<close>

text \<open>
  Content is only added, encoded texts change only at the paths of a set, and only client metadata is
  marked structural.
\<close>

definition metadata_path :: "path \<Rightarrow> bool" where "metadata_path q \<longleftrightarrow> (\<exists>r. q = key ''client_metadata'' # r)"

definition adds :: "path set \<Rightarrow> builder \<Rightarrow> builder \<Rightarrow> bool" where
  "adds A b b' \<longleftrightarrow> lb_content b \<subseteq> lb_content b'
     \<and> (\<forall>p. p \<notin> A \<longrightarrow> map_of (lb_json b') p = map_of (lb_json b) p)
     \<and> (\<forall>p. \<not> metadata_path p \<longrightarrow> (p \<in> lb_structural b' \<longleftrightarrow> p \<in> lb_structural b))"

definition adding :: "path set \<Rightarrow> 'a building \<Rightarrow> bool" where
  "adding A m \<longleftrightarrow> (\<forall>b x b'. m b = Inr (x, b') \<longrightarrow> adds A b b')"

lemma addingD: "adding A m \<Longrightarrow> m b = Inr (x, b') \<Longrightarrow> adds A b b'"
  by (simp add: adding_def)

lemma adds_refl [simp]: "adds A b b" by (simp add: adds_def)

lemma adds_trans: "adds A a b \<Longrightarrow> adds A b c \<Longrightarrow> adds A a c" by (auto simp: adds_def)

lemma adds_mono: "adds A b b' \<Longrightarrow> A \<subseteq> B \<Longrightarrow> adds B b b'" by (auto simp: adds_def)

lemma adds_content: "adds A b b' \<Longrightarrow> q \<in> lb_content b \<Longrightarrow> q \<in> lb_content b'" by (auto simp: adds_def)

lemma adds_json: "adds A b b' \<Longrightarrow> q \<notin> A \<Longrightarrow> map_of (lb_json b') q = map_of (lb_json b) q" by (simp add: adds_def)

named_theorems adding_rules \<open>what operations of the builder add\<close>

lemma adding_growing: "growing m \<Longrightarrow> adding A m"
  by (auto simp: growing_def adding_def adds_def grows_def)

lemma adding_mono: "adding A m \<Longrightarrow> A \<subseteq> B \<Longrightarrow> adding B m"
  unfolding adding_def using adds_mono by blast

lemma adding_bret [adding_rules]: "adding A (bret x)" by (simp add: adding_def)

lemma adding_blift [adding_rules]: "adding A (blift r)" by (simp add: adding_def blift_Inr)

lemma adding_bbind [adding_rules]: "adding A m \<Longrightarrow> (\<And>x. adding A (f x)) \<Longrightarrow> adding A (bbind m f)"
  unfolding adding_def bbind_Inr by (blast intro: adds_trans)

lemma adding_field_if [adding_rules]: "(\<And>v. adding A (f v)) \<Longrightarrow> adding A (field_if source k f r)"
  by (auto simp: field_if_def intro!: adding_rules split: option.splits)

lemma adding_text_at [adding_rules]: "adding A (text_at v p)" by (rule adding_growing, rule growing_text_at)

lemma adding_json_schema [adding_rules]: "adding A (json_schema v p)" by (rule adding_growing, rule growing_json_schema)

lemma adding_if [adding_rules]: "adding A m \<Longrightarrow> adding A n \<Longrightarrow> adding A (if c then m else n)" by simp

lemma adding_Let [adding_rules]: "adding A (f x) \<Longrightarrow> adding A (Let x f)" by simp

lemma adding_each:
  "(\<And>j x. i \<le> j \<Longrightarrow> adding A (f j x)) \<Longrightarrow> adding A (each f i xs)"
  by (induction xs arbitrary: i) (auto intro!: adding_rules)

lemma encoded_object_Inr:
  assumes "encoded_object J v p st controls b = Inr (t, b')"
  shows "\<exists>d. json_dumps (jl_repr J) (PDict d) = Inr t \<and> lb_json b' = AList.update p (PDict d) (lb_json b)
     \<and> lb_content b' = lb_content b \<and> lb_structural b' = (if st then insert p (lb_structural b) else lb_structural b)
     \<and> unique_keys (PDict d)"
proof -
  from assms obtain s x where "loads_text J s = Inr x" and
    x: "(case x of PDict _ \<Rightarrow> rbind (json_dumps (jl_repr J) x) (\<lambda>t. Inr (t,
          b\<lparr>lb_json := AList.update p x (lb_json b),
            lb_structural := (if st then insert p (lb_structural b) else lb_structural b),
            lb_controls := (if controls = {} then lb_controls b else AList.update p controls (lb_controls b))\<rparr>))
        | _ \<Rightarrow> reject ''invalid_arguments'') = Inr (t, b')"
    unfolding encoded_object_def rbind_eq_Inr by blast
  from loads_text_unique [OF this(1)] x show ?thesis
    by (cases x) (auto simp: rbind_eq_Inr simp del: json_dumps.simps unique_keys.simps)
qed

lemma adding_encoded [adding_rules]: "p \<in> A \<Longrightarrow> \<not> st \<or> metadata_path p \<Longrightarrow> adding A (encoded_object J v p st controls)"
  unfolding adding_def adds_def by (auto dest!: encoded_object_Inr simp: update_conv' split: if_splits)

lemma each_nth_adding:
  assumes "each f i xs b = Inr (ys, b')" and "\<And>j x. adding (A j) (f j x)" and "n < length ys"
  shows "\<exists>b1 b2. f (i + n) (xs ! n) b1 = Inr (ys ! n, b2) \<and> adds (\<Union>j \<in> {Suc (i + n)..}. A j) b2 b'"
  using assms(1,3)
proof (induction xs arbitrary: i b ys n)
  case (Cons x xs)
  then obtain y ys' b1 where y: "f i x b = Inr (y, b1)" "each f (Suc i) xs b1 = Inr (ys', b')" "ys = y # ys'"
    by (auto simp: bbind_Inr)
  show ?case
  proof (cases n)
    case 0
    have "adding (\<Union>j \<in> {Suc i..}. A j) (each f (Suc i) xs)"
      by (rule adding_each, rule adding_mono [OF assms(2)]) auto
    from addingD [OF this y(2)] 0 y show ?thesis by auto
  next
    case (Suc m)
    with Cons.IH [OF y(2), of m] Cons.prems(2) y(3) show ?thesis by auto
  qed
qed simp

subsection \<open>The operations of the contract\<close>

definition argument_path :: "nat \<Rightarrow> path" where "argument_path i = [key ''input'', Idx i, key ''arguments'']"

lemma adding_client_fields [adding_rules]: "adding {p. metadata_path p} (client_fields J d)"
  by (induction J d rule: client_fields.induct)
    (auto simp: client_field_def metadata_path_def intro!: adding_rules)

lemma adding_client_metadata [adding_rules]: "adding {p. metadata_path p} (client_metadata J v)"
  unfolding client_metadata_def by (intro adding_rules)

lemma growing_rs_text_block [growing_rules]: "growing (rs_text_block role v p)"
  unfolding rs_text_block_def rs_plain_block_def rs_refusal_block_def
  by (auto intro!: growing_rules split: pyval.splits)

lemma growing_rs_texts [growing_rules]: "growing (rs_texts role c p)"
  by (auto simp: rs_texts_def intro!: growing_rules split: pyval.splits)

lemma growing_rs_message [growing_rules]: "growing (rs_message v p)"
  unfolding rs_message_def by (intro growing_rules)

lemma growing_rs_output [growing_rules]: "growing (rs_output kind v p)"
  unfolding rs_output_def by (intro growing_rules)

lemma growing_rs_reasoning [growing_rules]: "growing (rs_reasoning v)"
  unfolding rs_reasoning_def by (rule growing_rules)

lemma adding_rs_call: "adding {p @ [key ''arguments'']} (rs_call J kind v p)"
proof (cases "kind = lit ''function_call''")
  case True
  then show ?thesis unfolding rs_call_def b_arguments_def Let_def if_P [OF True] by (intro adding_rules) simp_all
next
  case False
  then show ?thesis unfolding rs_call_def Let_def if_not_P [OF False] by (intro adding_rules)
qed

lemma adding_rs_item: "adding {p @ [key ''arguments'']} (rs_item J v p)"
  unfolding rs_item_def
  by (auto intro!: adding_rules adding_rs_call adding_growing [OF growing_rs_message] adding_growing [OF growing_rs_output]
      adding_growing [OF growing_rs_reasoning] split: pyval.splits)

lemma growing_rs_tools [growing_rules]: "growing (rs_tools v)"
  unfolding rs_tools_def rs_tool_def rs_tool_tail_def
  by (intro growing_rules) (auto intro!: growing_rules split: pyval.splits)

lemma growing_rs_text [growing_rules]: "growing (rs_text v p)"
  unfolding rs_text_def rs_output_format_def
  by (intro growing_rules) (auto intro!: growing_rules split: pyval.splits)

lemma adding_rs_settings [adding_rules]: "adding {p. metadata_path p} (rs_settings J source r)"
  unfolding rs_settings_def
  by (intro adding_rules adding_growing [OF growing_rs_tools] adding_growing [OF growing_rs_text])

lemma adding_rs_optional [adding_rules]: "adding {p. metadata_path p} (rs_optional J source r)"
  unfolding rs_optional_def by (intro adding_rules)

subsection \<open>The strings of an input item\<close>

lemma field_res_get: "field_res source k f r = Inr r' \<Longrightarrow> j \<noteq> k \<Longrightarrow> pd_get r' j = pd_get r j"
  by (auto simp: field_res_def rbind_eq_Inr split: option.splits)

lemma rs_tail_get: "rs_tail source r = Inr r' \<Longrightarrow> j \<noteq> ''id'' \<Longrightarrow> j \<noteq> ''status'' \<Longrightarrow> pd_get r' j = pd_get r j"
proof -
  assume "rs_tail source r = Inr r'" "j \<noteq> ''id''" "j \<noteq> ''status''"
  then obtain r1 where "field_res source ''id'' (\<lambda>i. as_str (py_identifier i Plain_id)) r = Inr r1"
    "field_res source ''status'' (\<lambda>s. as_str (py_choice s [''completed'', ''incomplete''])) r1 = Inr r'"
    unfolding rs_tail_def rbind_eq_Inr by blast
  from field_res_get [OF this(1) \<open>j \<noteq> ''id''\<close>] field_res_get [OF this(2) \<open>j \<noteq> ''status''\<close>] show ?thesis by simp
qed

definition text_tail :: "path \<Rightarrow> bool" where
  "text_tail t \<longleftrightarrow> t = [] \<or> (\<exists>n. t = [Idx n, key ''text'']) \<or> (\<exists>n. t = [Idx n, key ''refusal''])"

lemma text_at_Inr: "text_at v p b = Inr (y, b') \<longleftrightarrow> (\<exists>s. v = PStr s \<and> y = PStr s \<and> b' = b_content p b)"
  by (cases v) (auto simp: text_at_def bbind_Inr b_text_def py_string_def rbind_eq_Inr)

lemma rejected [simp]: "\<not> (blift (reject c) b = Inr z)" by (cases z) (simp add: blift_Inr)

lemma branches:
  "(if c1 then blift (reject a) else if c2 then m else if c3 then n else blift (reject b)) s = Inr z \<Longrightarrow> m s = Inr z \<or> n s = Inr z"
  "(if c1 then m1 else if c2 then m2 else if c3 then m3 else if c4 then m4 else blift (reject b)) s = Inr z
     \<Longrightarrow> m1 s = Inr z \<or> m2 s = Inr z \<or> m3 s = Inr z \<or> m4 s = Inr z"
  by (auto split: if_splits)

lemma rs_text_block_content:
  assumes "rs_text_block role v p b = Inr (y, b')" and "value_at y [e] = Some (PStr s)"
    and "e = key ''text'' \<or> e = key ''refusal''"
  shows "p @ [e] \<in> lb_content b'"
proof -
  from assms(1) consider (plain) kind where "rs_plain_block kind v p b = Inr (y, b')" | (refusal) "rs_refusal_block v p b = Inr (y, b')"
    unfolding rs_text_block_def
    by (cases v rule: pyval.exhaust; simp; cases "get (case v of PDict d \<Rightarrow> d | _ \<Rightarrow> []) ''type''"; simp; blast dest: branches(1))
  then show ?thesis
  proof cases
    case plain
    then obtain source t r where t: "text_at (get source ''text'') (p @ [key ''text'']) b = Inr (t, b')"
      and r: "field_res source ''annotations'' (no_annotations kind) [(str ''type'', PStr kind), (str ''text'', t)] = Inr r" "y = PDict r"
      by (auto simp: rs_plain_block_def bbind_Inr blift_Inr)
    have "pd_get r ''refusal'' = None" using field_res_get [OF r(1), of "''refusal''"] by (simp add: pd_get_def)
    then have "e = key ''text''" using assms(2,3) r(2) by (auto simp: pd_get_def)
    with text_at_content [OF t] show ?thesis by simp
  next
    case refusal
    then obtain source t where t: "text_at (get source ''refusal'') (p @ [key ''refusal'']) b = Inr (t, b')"
      and y: "y = PDict [(str ''type'', str ''refusal''), (str ''refusal'', t)]"
      by (auto simp: rs_refusal_block_def bbind_Inr blift_Inr)
    then have "e = key ''refusal''" using assms(2,3) by auto
    with text_at_content [OF t] show ?thesis by simp
  qed
qed

lemma rs_texts_content:
  assumes "rs_texts role c p b = Inr (y, b')" and "value_at y t = Some (PStr s)" and "text_tail t"
  shows "p @ t \<in> lb_content b'"
proof -
  from assms(1) consider (single) "text_at c p b = Inr (y, b')"
    | (blocks) xs ys where "each (\<lambda>n x. rs_text_block role x (p @ [Idx n])) 0 xs b = Inr (ys, b')" "y = PList ys"
    by (auto simp: rs_texts_def bbind_Inr blift_Inr split: pyval.splits)
  then show ?thesis
  proof cases
    case single
    with assms(2,3) have "t = []" by (auto simp: text_at_Inr text_tail_def)
    with text_at_content [OF single] show ?thesis by simp
  next
    case blocks
    with assms(2,3) obtain n e where t: "t = [Idx n, e]" "e = key ''text'' \<or> e = key ''refusal''" "n < length ys"
      "value_at (ys ! n) [e] = Some (PStr s)"
      by (auto simp: text_tail_def split: if_splits)
    from each_nth [OF blocks(1) _ t(3)] obtain b1 b2 where
      "rs_text_block role (xs ! n) (p @ [Idx n]) b1 = Inr (ys ! n, b2)" "grows b2 b'"
      using growing_rs_text_block by fastforce
    from rs_text_block_content [OF this(1) t(4,2)] this(2) t(1) show ?thesis by (auto simp: grows_def)
  qed
qed

text \<open>A dictionary of a value, and that it has none of some fields.\<close>

definition lacks :: "pyval \<Rightarrow> string list \<Rightarrow> bool" where
  "lacks y ks \<longleftrightarrow> (\<exists>r. y = PDict r \<and> (\<forall>k \<in> set ks. pd_get r k = None))"

lemma lacks_value: "lacks y ks \<Longrightarrow> k \<in> set ks \<Longrightarrow> value_at y (key k # t) = None"
  by (auto simp: lacks_def pd_get_def)

lemma rs_message_content:
  assumes "rs_message v p b = Inr (y, b')"
  shows "lacks y [''output'', ''input'', ''arguments'']"
    and "value_at y (key ''content'' # t) = Some (PStr s) \<Longrightarrow> text_tail t \<Longrightarrow> p @ key ''content'' # t \<in> lb_content b'"
proof -
  from assms obtain source role content r1 r2 r3 where
    c: "rs_texts role (get source ''content'') (p @ [key ''content'']) b = Inr (content, b')"
    and r: "field_res source ''type'' (\<lambda>_. Inr (str ''message'')) [(str ''role'', PStr role), (str ''content'', content)] = Inr r1"
      "field_res source ''phase'' (\<lambda>phase. if role \<noteq> lit ''assistant'' then reject ''invalid_request''
        else if phase = PNone then Inr PNone else as_str (py_choice phase [''commentary'', ''final_answer''])) r1 = Inr r2"
      "rs_tail source r2 = Inr r3"
    and y: "y = PDict r3"
    by (auto simp: rs_message_def bbind_Inr blift_Inr)
  have get: "pd_get r3 j = pd_get [(str ''role'', PStr role), (str ''content'', content)] j"
    if "j \<notin> {''type'', ''phase'', ''id'', ''status''}" for j
    using field_res_get [OF r(1)] field_res_get [OF r(2)] rs_tail_get [OF r(3)] that by simp
  show "lacks y [''output'', ''input'', ''arguments'']"
    using get by (simp add: lacks_def y) (simp add: pd_get_def)
  show "p @ key ''content'' # t \<in> lb_content b'" if "value_at y (key ''content'' # t) = Some (PStr s)" "text_tail t"
  proof -
    have "pd_get r3 ''content'' = Some content" by (simp add: get) (simp add: pd_get_def)
    then have "value_at y (key ''content'' # t) = value_at content t" by (simp add: y pd_get_def)
    with that(1) have "value_at content t = Some (PStr s)" by metis
    from rs_texts_content [OF c this that(2)] show ?thesis by simp
  qed
qed

lemma rs_output_content:
  assumes "rs_output kind v p b = Inr (y, b')"
  shows "lacks y [''content'', ''input'', ''arguments'']"
    and "value_at y (key ''output'' # t) = Some (PStr s) \<Longrightarrow> text_tail t \<Longrightarrow> p @ key ''output'' # t \<in> lb_content b'"
proof -
  from assms obtain source out c r where
    c: "rs_texts (lit ''user'') (get source ''output'') (p @ [key ''output'']) b = Inr (out, b')"
    and r: "rs_tail source [(str ''type'', PStr kind), (str ''call_id'', PStr c), (str ''output'', out)] = Inr r"
    and y: "y = PDict r"
    by (auto simp: rs_output_def bbind_Inr blift_Inr)
  have get: "pd_get r j = pd_get [(str ''type'', PStr kind), (str ''call_id'', PStr c), (str ''output'', out)] j"
    if "j \<notin> {''id'', ''status''}" for j using rs_tail_get [OF r] that by simp
  show "lacks y [''content'', ''input'', ''arguments'']"
    using get by (simp add: lacks_def y) (simp add: pd_get_def)
  show "p @ key ''output'' # t \<in> lb_content b'" if "value_at y (key ''output'' # t) = Some (PStr s)" "text_tail t"
  proof -
    have "pd_get r ''output'' = Some out" by (simp add: get) (simp add: pd_get_def)
    then have "value_at y (key ''output'' # t) = value_at out t" by (simp add: y pd_get_def)
    with that(1) have "value_at out t = Some (PStr s)" by metis
    from rs_texts_content [OF c this that(2)] show ?thesis by simp
  qed
qed

lemma rs_reasoning_content:
  assumes "rs_reasoning v b = Inr (y, b')"
  shows "lacks y [''output'', ''input'', ''arguments'']" and "value_at y (key ''content'' # t) = Some (PStr s) \<Longrightarrow> False"
proof -
  from assms obtain source r3 where
    c: "get source ''content'' = PNone \<or> get source ''content'' = PList []" and p: "rs_placeholder source = Inr r3" and y: "y = PDict r3"
    by (auto simp: rs_reasoning_def blift_Inr rbind_eq_Inr split: if_splits)
  from p obtain r1 r2 source' r2' where
    r: "field_res source ''content'' Inr [(str ''type'', str ''reasoning''), (str ''summary'', PList [])] = Inr r1"
      "field_res source ''encrypted_content'' Inr r1 = Inr r2" "rs_tail source' r2' = Inr r3"
      "r2' = r2 \<or> r2' = pd_set ''status'' PNone r2"
    unfolding rs_placeholder_def rbind_eq_Inr by (cases "pd_get source ''status'' = Some PNone") auto
  have tail: "pd_get r3 j = pd_get r1 j" if "j \<notin> {''encrypted_content'', ''id'', ''status''}" for j
  proof -
    have "pd_get r3 j = pd_get r2' j" using rs_tail_get [OF r(3)] that by simp
    also have "\<dots> = pd_get r2 j" using r(4) that by auto
    finally show ?thesis using field_res_get [OF r(2)] that by simp
  qed
  have "pd_get r3 j = pd_get [(str ''type'', str ''reasoning''), (str ''summary'', PList [])] j"
    if "j \<notin> {''content'', ''encrypted_content'', ''id'', ''status''}" for j
    using tail field_res_get [OF r(1)] that by simp
  then show "lacks y [''output'', ''input'', ''arguments'']" by (simp add: lacks_def y) (simp add: pd_get_def)
  have "pd_get r1 ''content'' = None \<or> pd_get r1 ''content'' = Some (get source ''content'')"
  proof (cases "pd_get source ''content''")
    case None
    with r(1) show ?thesis by (simp add: field_res_def) (auto simp: pd_get_def)
  next
    case (Some v)
    with r(1) show ?thesis by (auto simp: field_res_def get_def pd_get_or_def)
  qed
  moreover have "pd_get r3 ''content'' = pd_get r1 ''content''" by (rule tail) simp
  ultimately have "pd_get r3 ''content'' \<in> {None, Some PNone, Some (PList [])}" using c by auto
  moreover have "value_at (PList []) t \<noteq> Some (PStr s)" for s by (cases t; cases "hd t") auto
  ultimately show False if "value_at y (key ''content'' # t) = Some (PStr s)"
    using that unfolding y value_at_field by auto
qed

lemma rs_call_content:
  assumes "rs_call J kind v p b = Inr (y, b')"
  shows "lacks y [''content'', ''output'']"
    and "value_at y (key ''input'' # t) = Some (PStr s) \<Longrightarrow> p @ key ''input'' # t \<in> lb_content b'"
    and "value_at y (key ''arguments'' # t) = Some (PStr s) \<Longrightarrow>
       t = [] \<and> (\<exists>d. map_of (lb_json b') (p @ [key ''arguments'']) = Some (PDict d) \<and> json_dumps (jl_repr J) (PDict d) = Inr s \<and> unique_keys (PDict d))"
proof -
  define field where "field = (if kind = lit ''function_call'' then ''arguments'' else ''input'')"
  from assms obtain source c n content r where
    m: "(if kind = lit ''function_call'' then bbind (b_arguments J (get source field) (p @ [key field])) (\<lambda>s. bret (PStr s))
             else text_at (get source field) (p @ [key field])) b = Inr (content, b')"
    and r: "rs_tail source [(str ''type'', PStr kind), (str ''call_id'', PStr c), (str ''name'', PStr n), (str field, content)] = Inr r"
    and y: "y = PDict r"
    unfolding rs_call_def Let_def field_def [symmetric] bbind_Inr blift_Inr bret_Inr by blast
  have get: "pd_get r j = pd_get [(str ''type'', PStr kind), (str ''call_id'', PStr c), (str ''name'', PStr n), (str field, content)] j"
    if "j \<notin> {''id'', ''status''}" for j using rs_tail_get [OF r] that by simp
  show "lacks y [''content'', ''output'']" using get by (simp add: lacks_def y) (simp add: pd_get_def field_def)
  from m obtain u where u: "content = PStr u" by (auto simp: bbind_Inr text_at_Inr split: if_splits)
  have "pd_get r j = (if j = field then Some content else None)" if "j = ''input'' \<or> j = ''arguments''" for j
    using that by (elim disjE) (simp_all add: get, simp_all add: pd_get_def field_def)
  then have v: "value_at y (key j # t) = (if j = field then value_at (PStr u) t else None)" if "j = ''input'' \<or> j = ''arguments''" for j
    unfolding y value_at_field using that by (simp add: u)
  show "p @ key ''input'' # t \<in> lb_content b'" if "value_at y (key ''input'' # t) = Some (PStr s)"
  proof -
    from that v have f: "field = ''input''" "value_at (PStr u) t = Some (PStr s)" by (auto split: if_splits)
    then have "t = []" by (cases t) auto
    moreover have "text_at (get source field) (p @ [key field]) b = Inr (content, b')"
      using m f(1) by (simp add: field_def split: if_splits)
    ultimately show ?thesis using text_at_content f(1) by blast
  qed
  show "t = [] \<and> (\<exists>d. map_of (lb_json b') (p @ [key ''arguments'']) = Some (PDict d) \<and> json_dumps (jl_repr J) (PDict d) = Inr s \<and> unique_keys (PDict d))"
    if "value_at y (key ''arguments'' # t) = Some (PStr s)"
  proof -
    from that v have f: "field = ''arguments''" "value_at (PStr u) t = Some (PStr s)" by (auto split: if_splits)
    then have t: "t = []" "u = s" by (cases t; auto)+
    have "b_arguments J (get source field) (p @ [key field]) b = Inr (u, b')"
      using m f(1) u by (auto simp: field_def bbind_Inr split: if_splits)
    then show ?thesis using t f(1) by (auto simp: b_arguments_def dest!: encoded_object_Inr simp del: json_dumps.simps unique_keys.simps)
  qed
qed

text \<open>The kinds of items.\<close>

lemma rs_item_cases:
  assumes "rs_item J v p b = Inr (y, b')"
  obtains "rs_message v p b = Inr (y, b')" | "rs_reasoning v b = Inr (y, b')"
    | kind where "rs_call J kind v p b = Inr (y, b')" | kind where "rs_output kind v p b = Inr (y, b')"
proof -
  from assms obtain d where d: "v = PDict d" by (cases v) (auto simp: rs_item_def)
  from assms obtain kind where "pd_get_or d ''type'' (str ''message'') = PStr kind"
    by (cases "pd_get_or d ''type'' (str ''message'')") (auto simp: rs_item_def d)
  with assms have "(if kind = lit ''message'' then rs_message v p
     else if kind = lit ''reasoning'' then rs_reasoning v
     else if one_of kind [''function_call'', ''custom_tool_call''] then rs_call J kind v p
     else if one_of kind [''function_call_output'', ''custom_tool_call_output''] then rs_output kind v p
     else blift (reject ''uninspectable_field'')) b = Inr (y, b')"
    by (simp only: rs_item_def d pyval.case)
  from branches(2) [OF this] that show ?thesis by blast
qed

lemma rs_item_content:
  assumes "rs_item J v p b = Inr (y, b')" and "value_at y (key k # t) = Some (PStr s)" and "text_tail t"
    and "k \<in> {''content'', ''output'', ''input''}"
  shows "p @ key k # t \<in> lb_content b'"
  using assms(1)
proof (cases rule: rs_item_cases)
  case 1
  from lacks_value [OF rs_message_content(1) [OF 1], of k t] assms(2,4) have "k = ''content''" by auto
  with rs_message_content(2) [OF 1 _ assms(3)] assms(2) show ?thesis by simp
next
  case 2
  from lacks_value [OF rs_reasoning_content(1) [OF 2], of k t] assms(2,4) have "k = ''content''" by auto
  with rs_reasoning_content(2) [OF 2] assms(2) show ?thesis by blast
next
  case (3 kind)
  from lacks_value [OF rs_call_content(1) [OF 3], of k t] assms(2,4) have "k = ''input''" by auto
  with rs_call_content(2) [OF 3] assms(2) show ?thesis by simp
next
  case (4 kind)
  from lacks_value [OF rs_output_content(1) [OF 4], of k t] assms(2,4) have "k = ''output''" by auto
  with rs_output_content(2) [OF 4 _ assms(3)] assms(2) show ?thesis by simp
qed

lemma rs_item_arguments:
  assumes "rs_item J v p b = Inr (y, b')" and "value_at y (key ''arguments'' # t) = Some (PStr s)"
  shows "t = [] \<and> (\<exists>d. map_of (lb_json b') (p @ [key ''arguments'']) = Some (PDict d) \<and> json_dumps (jl_repr J) (PDict d) = Inr s \<and> unique_keys (PDict d))"
  using assms(1)
proof (cases rule: rs_item_cases)
  case 1
  with lacks_value [OF rs_message_content(1) [OF 1], of "''arguments''" t] assms(2) show ?thesis by simp
next
  case 2
  with lacks_value [OF rs_reasoning_content(1) [OF 2], of "''arguments''" t] assms(2) show ?thesis by simp
next
  case (3 kind)
  from rs_call_content(3) [OF 3 assms(2)] show ?thesis .
next
  case (4 kind)
  with lacks_value [OF rs_output_content(1) [OF 4], of "''arguments''" t] assms(2) show ?thesis by simp
qed

subsection \<open>The request\<close>

lemma keeping_blift: "(\<And>r r'. g r = Inr r' \<Longrightarrow> pd_get r' j = pd_get r j) \<Longrightarrow> keeping j (\<lambda>r. blift (g r))"
  by (simp add: keeping_def blift_Inr)

lemma keeping_field_res: "j \<noteq> k \<Longrightarrow> keeping j (\<lambda>r. blift (field_res source k (f r) r))"
  using field_res_get by (intro keeping_blift) blast

definition keeping_res :: "string \<Rightarrow> (pydict \<Rightarrow> pydict res) \<Rightarrow> bool" where
  "keeping_res j g \<longleftrightarrow> (\<forall>r r'. g r = Inr r' \<longrightarrow> pd_get r' j = pd_get r j)"

lemma keeping_res_rbind: "keeping_res j g \<Longrightarrow> keeping_res j h \<Longrightarrow> keeping_res j (\<lambda>r. rbind (g r) h)"
  by (fastforce simp: keeping_res_def rbind_eq_Inr)

lemma keeping_res_field: "j \<noteq> k \<Longrightarrow> keeping_res j (field_res source k f)"
  using field_res_get by (fastforce simp: keeping_res_def)

lemma keeping_res_set: "j \<noteq> k \<Longrightarrow> keeping_res j g \<Longrightarrow> keeping_res j (\<lambda>r. g (pd_set k x r))"
  by (simp add: keeping_res_def)

lemma rs_controls_get:
  assumes "j \<notin> {''stream'', ''parallel_tool_calls'', ''store'', ''background'', ''max_output_tokens'', ''max_tool_calls'', ''temperature'', ''top_p''}"
  shows "keeping_res j (rs_controls source)"
  unfolding rs_controls_def [abs_def] Let_def
  using assms by (intro keeping_res_rbind keeping_res_field keeping_res_set) simp_all

text \<open>The optional fields touch no other field, the input among them.\<close>

definition OPTIONAL_FIELDS :: "string list" where
  "OPTIONAL_FIELDS = [''instructions'', ''prompt_cache_key'', ''client_metadata'', ''stream'', ''parallel_tool_calls'', ''store'',
     ''background'', ''max_output_tokens'', ''max_tool_calls'', ''temperature'', ''top_p'', ''tools'', ''tool_choice'', ''truncation'',
     ''service_tier'', ''text'', ''reasoning'', ''include'']"

lemma keeping_rs_settings: "j \<notin> set (tl OPTIONAL_FIELDS) \<Longrightarrow> keeping j (rs_settings J source)"
proof -
  assume "j \<notin> set (tl OPTIONAL_FIELDS)"
  then have j: "j \<noteq> ''prompt_cache_key''" "j \<noteq> ''client_metadata''" "j \<noteq> ''tools''" "j \<noteq> ''tool_choice''"
    "j \<noteq> ''truncation''" "j \<noteq> ''service_tier''" "j \<noteq> ''text''" "j \<noteq> ''reasoning''" "j \<noteq> ''include''"
    and c: "keeping_res j (rs_controls source)"
    by (simp_all add: OPTIONAL_FIELDS_def rs_controls_get)
  from c have "keeping j (\<lambda>r. blift (rs_controls source r))" by (intro keeping_blift) (simp add: keeping_res_def)
  with j show ?thesis
    unfolding rs_settings_def [abs_def]
    by (intro keeping_bbind keeping_field_if keeping_field_res)
qed

lemma keeping_rs_optional: "j \<notin> set OPTIONAL_FIELDS \<Longrightarrow> keeping j (rs_optional J source)"
  unfolding rs_optional_def [abs_def]
  by (intro keeping_bbind keeping_field_if keeping_rs_settings) (auto simp: OPTIONAL_FIELDS_def)

lemma rs_input_content:
  assumes "rs_input J v b = Inr (y, b')" and "value_at y t = Some (PStr s)"
  shows "t = [] \<Longrightarrow> key ''input'' # t \<in> lb_content b'"
    and "t = Idx i # key k # t' \<Longrightarrow> text_tail t' \<Longrightarrow> k \<in> {''content'', ''output'', ''input''}
      \<Longrightarrow> key ''input'' # t \<in> lb_content b'"
    and "t = Idx i # key ''arguments'' # t' \<Longrightarrow>
      t' = [] \<and> (\<exists>d. map_of (lb_json b') (argument_path i) = Some (PDict d) \<and> json_dumps (jl_repr J) (PDict d) = Inr s \<and> unique_keys (PDict d))"
proof -
  have "(\<exists>u. text_at v [key ''input''] b = Inr (y, b') \<and> y = PStr u) \<or>
    (\<exists>xs ys. each (\<lambda>n x. rs_item J x [key ''input'', Idx n]) 0 xs b = Inr (ys, b') \<and> y = PList ys)"
    using assms(1) by (cases v) (auto simp: rs_input_def bbind_Inr blift_Inr text_at_Inr)
  then consider (single) u where "text_at v [key ''input''] b = Inr (y, b')" "y = PStr u"
    | (items) xs ys where "each (\<lambda>n x. rs_item J x [key ''input'', Idx n]) 0 xs b = Inr (ys, b')" "y = PList ys"
    by blast
  note kinds = this
  have item: "\<exists>b1 b2. rs_item J (xs ! i) [key ''input'', Idx i] b1 = Inr (ys ! i, b2) \<and> adds {q. \<exists>j > i. q = argument_path j} b2 b'"
    if l: "each (\<lambda>n x. rs_item J x [key ''input'', Idx n]) 0 xs b = Inr (ys, b')" and i: "i < length ys" for xs ys
  proof -
    have "adding {argument_path j} (rs_item J x [key ''input'', Idx j])" for j x
      using adding_rs_item [of "[key ''input'', Idx j]" J x] by (simp add: argument_path_def)
    from each_nth_adding [OF l this i] obtain b1 b2 where
      "rs_item J (xs ! i) [key ''input'', Idx i] b1 = Inr (ys ! i, b2)" "adds (\<Union>j \<in> {Suc i..}. {argument_path j}) b2 b'"
      by auto
    moreover have "(\<Union>j \<in> {Suc i..}. {argument_path j}) \<subseteq> {q. \<exists>j > i. q = argument_path j}" by (auto simp: Suc_le_eq)
    ultimately show ?thesis using adds_mono by blast
  qed
  show "key ''input'' # t \<in> lb_content b'" if "t = []"
    using kinds
  proof cases
    case single
    with text_at_content [OF single(1)] that show ?thesis by simp
  next
    case items
    with assms(2) that show ?thesis by simp
  qed
  show "key ''input'' # t \<in> lb_content b'" if t: "t = Idx i # key k # t'" "text_tail t'" "k \<in> {''content'', ''output'', ''input''}"
    using kinds
  proof cases
    case single
    with assms(2) t(1) show ?thesis by simp
  next
    case items
    with assms(2) t(1) have i: "i < length ys" "value_at (ys ! i) (key k # t') = Some (PStr s)" by (auto split: if_splits)
    from item [OF items(1) i(1)] obtain b1 b2 where
      b: "rs_item J (xs ! i) [key ''input'', Idx i] b1 = Inr (ys ! i, b2)" "adds {q. \<exists>j > i. q = argument_path j} b2 b'" by blast
    from adds_content [OF b(2) rs_item_content [OF b(1) i(2) t(2,3)]] show ?thesis by (simp add: t(1))
  qed
  show "t' = [] \<and> (\<exists>d. map_of (lb_json b') (argument_path i) = Some (PDict d) \<and> json_dumps (jl_repr J) (PDict d) = Inr s \<and> unique_keys (PDict d))"
    if t: "t = Idx i # key ''arguments'' # t'"
    using kinds
  proof cases
    case single
    with assms(2) t(1) show ?thesis by simp
  next
    case items
    with assms(2) t(1) have i: "i < length ys" "value_at (ys ! i) (key ''arguments'' # t') = Some (PStr s)" by (auto split: if_splits)
    from item [OF items(1) i(1)] obtain b1 b2 where
      b: "rs_item J (xs ! i) [key ''input'', Idx i] b1 = Inr (ys ! i, b2)" "adds {q. \<exists>j > i. q = argument_path j} b2 b'" by blast
    have "map_of (lb_json b') (argument_path i) = map_of (lb_json b2) (argument_path i)"
      by (rule adds_json [OF b(2)]) (auto simp: argument_path_def)
    with rs_item_arguments [OF b(1) i(2)] show ?thesis by (simp add: argument_path_def del: unique_keys.simps)
  qed
qed

lemma rs_input_adds: "adding {q. \<exists>i. q = argument_path i} (rs_input J v)"
proof -
  have "adding {argument_path i} (rs_item J x [key ''input'', Idx i])" for i x
    using adding_rs_item [of "[key ''input'', Idx i]" J x] by (simp add: argument_path_def)
  then have "adding {q. \<exists>i. q = argument_path i} (rs_item J x [key ''input'', Idx i])" for i x
    by (rule adding_mono) auto
  then have "adding {q. \<exists>i. q = argument_path i} (each (\<lambda>n x. rs_item J x [key ''input'', Idx n]) 0 xs)" for xs
    by (intro adding_each)
  then show ?thesis
    unfolding rs_input_def by (auto intro!: adding_rules split: pyval.splits)
qed

lemma instructions_content:
  assumes "rs_optional J source r b = Inr (r', b')" and "pd_get r ''instructions'' = None"
    and "pd_get r' ''instructions'' \<noteq> None"
  shows "[key ''instructions''] \<in> lb_content b'"
proof -
  from assms(1) obtain r1 b1 where f: "field_if source ''instructions'' (\<lambda>v. text_at v [key ''instructions'']) r b = Inr (r1, b1)"
    and g: "rs_settings J source r1 b1 = Inr (r', b')"
    unfolding rs_optional_def bbind_Inr by blast
  have k: "keeping ''instructions'' (rs_settings J source)"
    by (rule keeping_rs_settings) (simp add: OPTIONAL_FIELDS_def)
  from k [unfolded keeping_def, rule_format, OF g] assms(3) have "pd_get r1 ''instructions'' \<noteq> None" by simp
  with f assms(2) have "[key ''instructions''] \<in> lb_content b1"
    by (auto simp: field_if_def bbind_Inr text_at_Inr b_content_def split: option.splits)
  with adds_content [OF addingD [OF adding_rs_settings g]] show ?thesis .
qed

lemma parse_responses_Inr:
  assumes "parse_responses_request J body = Inr r"
  obtains source model input b1 b where "rs_input J (get source ''input'') builder_init = Inr (input, b1)"
    and "rs_optional J source [(str ''model'', PStr model), (str ''input'', input)] b1 = Inr (vr_payload r, b)"
    and "finish J b (vr_payload r) = Inr (vr_locations r)"
proof -
  from assms obtain source result b where p: "responses_payload J source builder_init = Inr (result, b)"
    "finish J b result = Inr (vr_locations r)" "vr_payload r = result"
    by (auto simp: parse_responses_request_def rbind_eq_Inr split: if_splits prod.splits)
  with that show ?thesis by (auto simp: responses_payload_def bbind_Inr blift_Inr)
qed

definition rs_prompt_path :: "path \<Rightarrow> bool" where
  "rs_prompt_path q \<longleftrightarrow> q = [key ''input''] \<or> q = [key ''instructions'']
     \<or> (\<exists>i k t. q = key ''input'' # Idx i # key k # t \<and> k \<in> {''content'', ''output'', ''input''} \<and> text_tail t)"

text \<open>What the builder knows of a string of the payload.\<close>

lemma responses_builder:
  assumes "parse_responses_request J body = Inr r"
  obtains b where "finish J b (vr_payload r) = Inr (vr_locations r)"
    and "\<And>q s. value_at (PDict (vr_payload r)) q = Some (PStr s) \<Longrightarrow> \<not> metadata_path q \<Longrightarrow> q \<notin> lb_structural b \<and>
       (if \<exists>i. q = argument_path i
        then \<exists>d. map_of (lb_json b) q = Some (PDict d) \<and> json_dumps (jl_repr J) (PDict d) = Inr s \<and> unique_keys (PDict d)
        else map_of (lb_json b) q = None \<and> (rs_prompt_path q \<longrightarrow> q \<in> lb_content b))"
proof -
  from parse_responses_Inr [OF assms] obtain source model input b1 b where
    i: "rs_input J (get source ''input'') builder_init = Inr (input, b1)"
    and o: "rs_optional J source [(str ''model'', PStr model), (str ''input'', input)] b1 = Inr (vr_payload r, b)"
    and f: "finish J b (vr_payload r) = Inr (vr_locations r)" .
  have a: "adds {p. metadata_path p} b1 b" by (rule addingD [OF adding_rs_optional o])
  have "keeping ''input'' (rs_optional J source)" by (rule keeping_rs_optional) (simp add: OPTIONAL_FIELDS_def)
  from this [unfolded keeping_def, rule_format, OF o] have inp: "pd_get (vr_payload r) ''input'' = Some input"
    by (simp only:) (simp add: pd_get_def)
  have "q \<notin> lb_structural b \<and>
       (if \<exists>i. q = argument_path i
        then \<exists>d. map_of (lb_json b) q = Some (PDict d) \<and> json_dumps (jl_repr J) (PDict d) = Inr s \<and> unique_keys (PDict d)
        else map_of (lb_json b) q = None \<and> (rs_prompt_path q \<longrightarrow> q \<in> lb_content b))"
    if v: "value_at (PDict (vr_payload r)) q = Some (PStr s)" and nm: "\<not> metadata_path q" for q s
  proof -
    have j1: "map_of (lb_json b1) q = None" if "\<not> (\<exists>i. q = argument_path i)"
      using adds_json [OF addingD [OF rs_input_adds i], of q] that by (simp add: builder_init_def)
    have json: "map_of (lb_json b) q = map_of (lb_json b1) q" using adds_json [OF a, of q] nm by simp
    have "q \<notin> lb_structural b1"
      using addingD [OF rs_input_adds i] nm by (simp add: adds_def) (simp add: builder_init_def)
    then have plain: "q \<notin> lb_structural b" using a nm by (simp add: adds_def)
    have at: "value_at input t = Some (PStr s)" if "q = key ''input'' # t" for t
      using v unfolding that value_at_field inp by simp
    show ?thesis
    proof (cases "\<exists>i. q = argument_path i")
      case True
      then obtain n where n: "q = argument_path n" by blast
      from rs_input_content(3) [OF i at, of "[Idx n, key ''arguments'']" n "[]"] n
      obtain d where "map_of (lb_json b1) q = Some (PDict d)" "json_dumps (jl_repr J) (PDict d) = Inr s" "unique_keys (PDict d)"
        by (auto simp: argument_path_def simp del: unique_keys.simps json_dumps.simps)
      with True json plain show ?thesis by (simp del: unique_keys.simps json_dumps.simps)
    next
      case False
      have "q \<in> lb_content b" if "rs_prompt_path q"
      proof -
        have "q \<in> lb_content b1" if "q = key ''input'' # t" "t = [] \<or> (\<exists>i k t'. t = Idx i # key k # t' \<and> k \<in> {''content'', ''output'', ''input''} \<and> text_tail t')" for t
          using that(2) rs_input_content(1) [OF i at [OF that(1)]] rs_input_content(2) [OF i at [OF that(1)]] that(1) by blast
        moreover have "[key ''instructions''] \<in> lb_content b" if "q = [key ''instructions'']"
        proof (rule instructions_content [OF o])
          show "pd_get [(str ''model'', PStr model), (str ''input'', input)] ''instructions'' = None" by (simp add: pd_get_def)
          show "pd_get (vr_payload r) ''instructions'' \<noteq> None" using v unfolding that value_at_field by auto
        qed
        ultimately show ?thesis using that adds_content [OF a] unfolding rs_prompt_path_def by blast
      qed
      with False json j1 plain show ?thesis by simp
    qed
  qed
  with f show ?thesis by (rule that)
qed


subsection \<open>Nothing is retained\<close>

definition ensuring :: "(pydict \<Rightarrow> bool) \<Rightarrow> (pydict \<Rightarrow> pydict building) \<Rightarrow> bool" where
  "ensuring Q g \<longleftrightarrow> (\<forall>r b r' b'. g r b = Inr (r', b') \<longrightarrow> Q r')"

lemma ensuring_right: "ensuring Q h \<Longrightarrow> ensuring Q (\<lambda>r. bbind (g r) h)"
  by (auto simp: ensuring_def bbind_Inr)

lemma ensuring_left: "ensuring (\<lambda>r. pd_get r j = x) g \<Longrightarrow> keeping j h \<Longrightarrow> ensuring (\<lambda>r. pd_get r j = x) (\<lambda>r. bbind (g r) h)"
  unfolding ensuring_def keeping_def bbind_Inr by metis

lemma rs_controls_store: "rs_controls source r = Inr r' \<Longrightarrow> pd_get r' ''store'' = Some (PBool False)"
proof -
  assume "rs_controls source r = Inr r'"
  then obtain r1 where
    "rbind (field_res source ''max_output_tokens'' (\<lambda>v. as_int (py_integer v 1 (2 ^ 31 - 1))) (pd_set ''store'' (PBool False) r1)) (\<lambda>r.
     rbind (field_res source ''max_tool_calls'' (\<lambda>v. as_int (py_integer v 1 (2 ^ 31 - 1))) r) (\<lambda>r.
     rbind (field_res source ''temperature'' (\<lambda>v. py_number v 0 2) r) (\<lambda>r.
     field_res source ''top_p'' (\<lambda>v. py_number v 0 1) r))) = Inr r'"
    unfolding rs_controls_def rbind_eq_Inr Let_def by blast
  moreover have "keeping_res ''store'' (\<lambda>r. rbind (field_res source ''max_output_tokens'' (\<lambda>v. as_int (py_integer v 1 (2 ^ 31 - 1))) r) (\<lambda>r.
     rbind (field_res source ''max_tool_calls'' (\<lambda>v. as_int (py_integer v 1 (2 ^ 31 - 1))) r) (\<lambda>r.
     rbind (field_res source ''temperature'' (\<lambda>v. py_number v 0 2) r) (\<lambda>r.
     field_res source ''top_p'' (\<lambda>v. py_number v 0 1) r))))"
    by (intro keeping_res_rbind keeping_res_field) simp_all
  ultimately have "pd_get r' ''store'' = pd_get (pd_set ''store'' (PBool False) r1) ''store''"
    unfolding keeping_res_def by blast
  then show ?thesis by (simp add: pd_get_def pd_set_def update_conv')
qed

lemma rs_settings_store: "ensuring (\<lambda>r. pd_get r ''store'' = Some (PBool False)) (rs_settings J source)"
  unfolding rs_settings_def [abs_def]
  by (rule ensuring_right, rule ensuring_right, rule ensuring_left)
    (simp add: ensuring_def blift_Inr rs_controls_store, (intro keeping_bbind keeping_field_if keeping_field_res; simp))


subsection \<open>The replayed history\<close>

definition call_item :: "pyval \<Rightarrow> bool" where "call_item v \<longleftrightarrow> in_names (kind_of v) [''function_call'', ''custom_tool_call'']"
definition output_item :: "pyval \<Rightarrow> bool" where
  "output_item v \<longleftrightarrow> in_names (kind_of v) [''function_call_output'', ''custom_tool_call_output'']"
definition call_id :: "pyval \<Rightarrow> pyval" where "call_id v = block_field v ''call_id''"
definition item_id :: "pyval \<Rightarrow> pyval option" where "item_id v = (case v of PDict d \<Rightarrow> pd_get d ''id'' | _ \<Rightarrow> None)"
definition answered_kind :: "pyval \<Rightarrow> pyval" where
  "answered_kind v = (if kind_of v = str ''function_call_output'' then str ''function_call'' else str ''custom_tool_call'')"

lemma rs_check_item_seen:
  "rfold rs_check_item xs (calls, outputs, ids) = Inr (calls', outputs', ids') \<Longrightarrow>
     calls' = rev (map (\<lambda>x. (call_id x, kind_of x)) (filter call_item xs)) @ calls
   \<and> set outputs' = set outputs \<union> call_id ` {x \<in> set xs. output_item x}
   \<and> set ids' = set ids \<union> {i. \<exists>x \<in> set xs. item_id x = Some i}"
proof (induction xs arbitrary: calls outputs ids)
  case (Cons x xs)
  then obtain c1 o1 i1 where s: "rs_check_item x (calls, outputs, ids) = Inr (c1, o1, i1)"
    "rfold rs_check_item xs (c1, o1, i1) = Inr (calls', outputs', ids')"
    by (auto simp: rbind_eq_Inr)
  have "c1 = (if call_item x then (call_id x, kind_of x) # calls else calls)"
    "set o1 = (if output_item x then insert (call_id x) (set outputs) else set outputs)"
    "set i1 = (case item_id x of None \<Rightarrow> set ids | Some i \<Rightarrow> insert i (set ids))"
    using s(1) unfolding call_item_def output_item_def call_id_def item_id_def
    by (auto simp: rs_check_item_def rs_check_id_def Let_def rbind_eq_Inr in_names_def split: if_splits pyval.splits option.splits)
  with Cons.IH [OF s(2)] show ?case by (auto split: option.splits)
qed simp

lemma map_of_rev_calls:
  "map_of (rev (map (\<lambda>x. (call_id x, kind_of x)) xs)) c = Some k \<Longrightarrow> \<exists>x \<in> set xs. call_id x = c \<and> kind_of x = k"
  by (auto dest!: map_of_SomeD)

text \<open>The items of a payload, in order.\<close>

definition input_items :: "pydict \<Rightarrow> pyval list" where "input_items payload = py_items (get payload ''input'')"

lemma input_items_checked:
  assumes "parse_responses_request J body = Inr r"
  shows "\<exists>seen. rfold rs_check_item (input_items (vr_payload r)) ([], [], []) = Inr seen"
proof -
  from parse_responses_Inr [OF assms] obtain source model input b1 b where
    i: "rs_input J (get source ''input'') builder_init = Inr (input, b1)"
    and o: "rs_optional J source [(str ''model'', PStr model), (str ''input'', input)] b1 = Inr (vr_payload r, b)" .
  have "keeping ''input'' (rs_optional J source)" by (rule keeping_rs_optional) (simp add: OPTIONAL_FIELDS_def)
  from this [unfolded keeping_def, rule_format, OF o] have "pd_get (vr_payload r) ''input'' = Some input"
    by (simp only:) (simp add: pd_get_def)
  then have "input_items (vr_payload r) = py_items input" by (simp add: input_items_def get_def pd_get_or_def)
  moreover have "\<exists>seen. rfold rs_check_item (py_items input) ([], [], []) = Inr seen"
    using i by (cases "get source ''input''") (auto simp: rs_input_def bbind_Inr blift_Inr text_at_Inr py_items_def)
  ultimately show ?thesis by simp
qed

text \<open>
  C36: The replayed input of an accepted Responses request is consistent: read in order, no item reuses the
  identifier of an earlier item, no call the identifier of an earlier call, and each result answers an
  earlier call of its kind that no earlier result answers.
\<close>

theorem replayed_items_matched:
  assumes "parse_responses_request J body = Inr r" and "input_items (vr_payload r) = xs @ x # ys"
  shows "(\<forall>i. item_id x = Some i \<longrightarrow> (\<forall>e \<in> set xs. item_id e \<noteq> Some i))
     \<and> (call_item x \<longrightarrow> call_id x \<notin> call_id ` {c \<in> set xs. call_item c})
     \<and> (output_item x \<longrightarrow> (\<exists>c \<in> set xs. call_item c \<and> call_id c = call_id x \<and> kind_of c = answered_kind x)
           \<and> call_id x \<notin> call_id ` {c \<in> set xs. output_item c})"
proof -
  obtain seen where "rfold rs_check_item (xs @ x # ys) ([], [], []) = Inr seen"
    using input_items_checked [OF assms(1)] assms(2) by auto
  then obtain calls outputs ids s2 where s: "rfold rs_check_item xs ([], [], []) = Inr (calls, outputs, ids)"
    "rs_check_item x (calls, outputs, ids) = Inr s2"
    by (auto simp: rfold_append rbind_eq_Inr)
  note seen = rs_check_item_seen [OF s(1)]
  have ids: "i \<notin> set ids" if "item_id x = Some i" for i
    using s(2) that by (auto simp: rs_check_item_def rs_check_id_def item_id_def rbind_eq_Inr split: pyval.splits if_splits)
  have calls: "map_of calls (call_id x) = None" if "call_item x"
    using s(2) that by (auto simp: rs_check_item_def call_item_def call_id_def Let_def rbind_eq_Inr split: if_splits)
  have out: "map_of calls (call_id x) = Some (answered_kind x) \<and> call_id x \<notin> set outputs" if "output_item x"
    using s(2) that
    by (auto simp: rs_check_item_def output_item_def answered_kind_def call_id_def in_names_def Let_def rbind_eq_Inr
        split: if_splits)
  have "call_id x \<notin> call_id ` {c \<in> set xs. call_item c}" if "call_item x"
    using calls [OF that] seen by (auto simp: map_of_eq_None_iff image_image)
  moreover have "\<exists>c \<in> set xs. call_item c \<and> call_id c = call_id x \<and> kind_of c = answered_kind x" if "output_item x"
  proof -
    from out [OF that] seen have "map_of (rev (map (\<lambda>x. (call_id x, kind_of x)) (filter call_item xs))) (call_id x) = Some (answered_kind x)"
      by simp
    from map_of_rev_calls [OF this] show ?thesis by auto
  qed
  ultimately show ?thesis using ids out seen by auto
qed

subsection \<open>A concrete request\<close>

definition replay_call :: pyval where
  "replay_call = PDict [(str ''type'', str ''function_call''), (str ''call_id'', PStr [97]), (str ''name'', PStr [110]),
     (str ''arguments'', PStr encoded_arguments)]"

definition replay_answer :: pyval where
  "replay_answer = PDict [(str ''type'', str ''function_call_output''), (str ''call_id'', PStr [97]), (str ''output'', PStr [121])]"

definition replay_input :: pydict where
  "replay_input = [(str ''model'', PStr [109]), (str ''input'', PList [replay_call, replay_answer])]"

definition replay_stored :: pydict where
  "replay_stored = replay_input @ [(str ''store'', PBool False)]"

definition called :: "path \<Rightarrow> builder \<Rightarrow> builder" where
  "called p b = b\<lparr>lb_json := AList.update (p @ [key ''arguments'']) sample_arguments (lb_json b)\<rparr>"

lemma replay_arguments_at:
  "b_arguments sample_json (PStr encoded_arguments) (p @ [key ''arguments'']) b = Inr (encoded_arguments, called p b)"
  unfolding b_arguments_def encoded_object_def py_string_def called_def
  using sample_dumps_eq by (simp add: sample_loads) (simp add: sample_arguments_def)

lemma replay_call_item: "rs_item sample_json replay_call p b = Inr (replay_call, called p b)"
  by (simp add: replay_call_def rs_item_def one_of_def rs_call_def Let_def bbind_def blift_def bret_def object_fields_def in_names_def
      pd_get_def get_def pd_get_or_def py_identifier_def identifier_ok_def py_string_def id_char_def ascii_alpha_def
      rs_tail_def field_res_def replay_arguments_at)

lemma replay_answer_item: "rs_item sample_json replay_answer p b = Inr (replay_answer, b_content (p @ [key ''output'']) b)"
  by (simp add: replay_answer_def rs_item_def one_of_def rs_output_def rs_texts_def text_at_def b_text_def bbind_def blift_def bret_def
      object_fields_def in_names_def pd_get_def get_def pd_get_or_def py_identifier_def identifier_ok_def py_string_def id_char_def
      ascii_alpha_def rs_tail_def field_res_def)

definition replay_builder :: builder where
  "replay_builder = b_content [key ''input'', Idx 1, key ''output''] (called [key ''input'', Idx 0] builder_init)"

lemma replay_rs_input:
  "rs_input sample_json (PList [replay_call, replay_answer]) builder_init = Inr (PList [replay_call, replay_answer], replay_builder)"
proof -
  have "rfold rs_check_item [replay_call, replay_answer] ([], [], []) = Inr ([(PStr [97], str ''function_call'')], [PStr [97]], [])"
    by (simp add: replay_call_def replay_answer_def rs_check_item_def rs_check_id_def kind_of_def block_field_def get_def
        pd_get_or_def pd_get_def in_names_def Let_def)
  then show ?thesis
    by (simp add: rs_input_def bbind_def blift_def bret_def py_array_def MAX_COLLECTION_def replay_call_item replay_answer_item
        replay_builder_def)
qed

lemma replay_rs_payload: "responses_payload sample_json replay_input builder_init = Inr (replay_stored, replay_builder)"
  by (simp add: responses_payload_def rs_optional_def rs_settings_def rs_controls_def replay_input_def replay_stored_def bbind_def
      blift_def bret_def pd_get_def get_def pd_get_or_def field_if_def field_res_def py_identifier_def identifier_ok_def
      py_string_def ascii_alpha_def replay_rs_input pd_set_def Let_def)

lemma replay_rs_bounded: "bounded_json (PDict replay_input) = Inr ()"
  unfolding bounded_json_iff replay_input_def replay_call_def replay_answer_def encoded_arguments_def
  by (simp only: json_ok_containers json_ok_scalars list.pred_inject prod.case lit_ok MAX_DEPTH_def MAX_COLLECTION_def)
    (simp add: is_surrogate_def is_str_def)

lemma replay_rs_finish: "\<exists>ls. finish sample_json replay_builder replay_stored = Inr ls"
  by (simp add: finish_def replay_stored_def replay_input_def replay_call_def replay_answer_def replay_builder_def called_def
      b_content_def builder_init_def sample_arguments_def)

lemma replay_rs_parses:
  "\<exists>r. parse_responses_request sample_json (Decoded (PDict replay_input)) = Inr r \<and> vr_payload r = replay_stored"
proof -
  obtain ls where l: "finish sample_json replay_builder replay_stored = Inr ls" using replay_rs_finish by blast
  have "request_body sample_json (Decoded (PDict replay_input)) = Inr replay_input"
    by (simp add: request_body_def replay_rs_bounded)
  moreover have "\<not> list_ex (\<lambda>f. pd_get replay_input f \<noteq> None) RESPONSES_OPAQUE"
    by (simp add: replay_input_def RESPONSES_OPAQUE_def pd_get_def)
  moreover have "object_fields (PDict replay_input) RESPONSES_FIELDS [''model'', ''input''] = Inr replay_input"
    by (simp add: replay_input_def object_fields_def in_names_def RESPONSES_FIELDS_def pd_get_def)
  ultimately show ?thesis
    by (simp add: parse_responses_request_def replay_rs_payload l)
qed



theorem replayed_items_matched_witness:
  "\<exists>r. parse_responses_request sample_json (Decoded (PDict replay_input)) = Inr r
     \<and> input_items (vr_payload r) = [replay_call] @ replay_answer # []
     \<and> output_item replay_answer \<and> (\<exists>c \<in> set [replay_call]. call_item c \<and> call_id c = call_id replay_answer)"
proof -
  obtain r where r: "parse_responses_request sample_json (Decoded (PDict replay_input)) = Inr r" "vr_payload r = replay_stored"
    using replay_rs_parses by blast
  have h: "input_items (vr_payload r) = [replay_call] @ replay_answer # []"
    by (simp add: r(2) input_items_def py_items_def get_def pd_get_or_def pd_get_def replay_stored_def replay_input_def)
  have "output_item replay_answer"
    by (simp add: output_item_def kind_of_def replay_answer_def in_names_def pd_get_or_def pd_get_def)
  with replayed_items_matched [OF r(1) h] r(1) h show ?thesis by auto
qed

end
