(* ===== verification/ResponsesStreamSamples.thy ===== *)
theory ResponsesStreamSamples
  imports StreamSamples ResponsesStreamFacts ResponsesFacts
begin

text \<open>
  A Responses stream with one call of a registered tool, on which the property of the stream is applied.
\<close>

definition sample_call_item :: "ustr \<Rightarrow> string \<Rightarrow> pydict" where
  "sample_call_item args status = [(str ''type'', str ''function_call''), (str ''id'', PStr [105]), (str ''call_id'', PStr [99]),
     (str ''name'', str ''Read''), (str ''arguments'', PStr args), (str ''status'', str status)]"

definition sample_answer :: "string \<Rightarrow> pyval list \<Rightarrow> pydict" where
  "sample_answer status items = [(str ''id'', PStr [97]), (str ''status'', str status), (str ''output'', PList items)]"

definition rv_created :: pydict where
  "rv_created = [(str ''type'', str ''response.created''), (str ''response'', PDict (sample_answer ''in_progress'' []))]"
definition rv_added :: pydict where
  "rv_added = [(str ''type'', str ''response.output_item.added''), (str ''output_index'', PInt 0), (str ''item'', PDict (sample_call_item [] ''in_progress''))]"
definition rv_delta :: pydict where
  "rv_delta = [(str ''type'', str ''response.function_call_arguments.delta''), (str ''output_index'', PInt 0), (str ''item_id'', PStr [105]),
     (str ''delta'', PStr file_arguments)]"
definition rv_args :: pydict where
  "rv_args = [(str ''type'', str ''response.function_call_arguments.done''), (str ''output_index'', PInt 0), (str ''item_id'', PStr [105]),
     (str ''arguments'', PStr file_arguments)]"
definition rv_item :: pydict where
  "rv_item = [(str ''type'', str ''response.output_item.done''), (str ''output_index'', PInt 0),
     (str ''item'', PDict (sample_call_item file_arguments ''completed''))]"
definition rv_completed :: pydict where
  "rv_completed = [(str ''type'', str ''response.completed''),
     (str ''response'', PDict (sample_answer ''completed'' [PDict (sample_call_item file_arguments ''completed'')]))]"

definition answered :: "pydict list" where "answered = [rv_created, rv_added, rv_delta, rv_args, rv_item, rv_completed]"

lemmas answer_events = rv_created_def rv_added_def rv_delta_def rv_args_def rv_item_def rv_completed_def sample_call_item_def sample_answer_def file_arguments_def

lemma answered_bounded: "e \<in> set answered \<Longrightarrow> bounded_json (PDict e) = Inr ()"
  by (auto simp: answered_def answer_events bounded_json_def bounded_loop.simps(2) pushed_def entries_def is_str_def is_surrogate_def
      lit_def of_char_def MAX_DEPTH_def MAX_COLLECTION_def)

lemma answered_clean: "e \<in> set answered \<Longrightarrow> json_clean (jl_repr sample_json) (jl_nest sample_json) (PDict e) \<and> unique_keys (PDict e)"
  by (auto simp: answered_def answer_events sample_json_def)

lemma answered_dumps: "e \<in> set answered \<Longrightarrow> \<exists>t. json_dumps (jl_repr sample_json) (PDict e) = Inr t \<and> list_all (\<lambda>c. c < 128) t \<and> length t \<le> 400"
  by (auto simp: answered_def answer_events dumps_key_def quoted_def escape_def lit_def of_char_def small_numbers)

lemma answered_size: "e \<in> set answered \<Longrightarrow> \<exists>n. size_of sample_json (PDict e) = Inr n \<and> 0 \<le> n \<and> n \<le> 1000"
  by (auto simp: answered_def answer_events size_of_def dumps_key_def quoted_def quoted_as_def escape_def lit_def of_char_def small_numbers
      is_surrogate_def utf8_def utf8_cp_def)

lemma answered_kinds: "e \<in> set answered \<Longrightarrow> get e ''type'' = PStr (kind_text e) \<and> kind_text e \<noteq> [] \<and> one_line (kind_text e)
    \<and> list_all (\<lambda>c. c < 128) (kind_text e) \<and> pd_get e ''type'' = Some (PStr (kind_text e)) \<and> length (kind_text e) \<le> 50"
  by (auto simp: answered_def answer_events kind_text_def get_def pd_get_or_def pd_get_def one_line_def lit_def of_char_def)

lemma answered_ascii: "list_all ascii_event answered"
proof -
  have "ascii_event e" if "e \<in> set answered" for e
    using answered_kinds [OF that] answered_clean [OF that] answered_bounded [OF that] answered_dumps [OF that]
    unfolding ascii_event_def by blast
  then show ?thesis by (simp add: list_all_iff)
qed

definition rt0 where "rt0 = responses_init sample_stored (outcome_init [])"

lemmas rt_eval = rt0_def responses_init_def machine_init_def machine.defs responses_machine.defs

definition echoed :: pydict where "echoed = [(str ''model'', str ''provider''), (str ''input'', PStr [])]"

lemma echoed_payload: "responses_payload sample_json echoed builder_init = Inr (echoed @ [(str ''store'', PBool False)], b_content [key ''input''] builder_init)"
  by (simp add: responses_payload_def rs_optional_def rs_settings_def rs_controls_def echoed_def bbind_def
      blift_def bret_def pd_get_def get_def pd_get_or_def field_if_def field_res_def py_identifier_def identifier_ok_def
      py_string_def ascii_alpha_def id_char_def rs_input_def text_at_def b_text_def pd_set_def Let_def lit_def of_char_def is_surrogate_def)

lemma echoed_finish: "\<exists>ls. finish sample_json (b_content [key ''input''] builder_init) (echoed @ [(str ''store'', PBool False)]) = Inr ls"
  by (simp add: finish_def echoed_def b_content_def builder_init_def)

lemma echo_parses: "\<exists>r. parse_responses_request sample_json (Decoded (PDict echoed)) = Inr r"
proof -
  have "bounded_json (PDict echoed) = Inr ()"
    by (simp add: echoed_def bounded_json_def bounded_loop.simps(2) pushed_def entries_def is_str_def is_surrogate_def
      lit_def of_char_def MAX_DEPTH_def MAX_COLLECTION_def)
  then have "request_body sample_json (Decoded (PDict echoed)) = Inr echoed" by (simp add: request_body_def)
  moreover have "\<not> list_ex (\<lambda>f. pd_get echoed f \<noteq> None) RESPONSES_OPAQUE"
    by (simp add: echoed_def RESPONSES_OPAQUE_def pd_get_def)
  moreover have "object_fields (PDict echoed) RESPONSES_FIELDS [''model'', ''input''] = Inr echoed"
    by (simp add: echoed_def object_fields_def in_names_def RESPONSES_FIELDS_def pd_get_def)
  moreover obtain ls where "finish sample_json (b_content [key ''input''] builder_init) (echoed @ [(str ''store'', PBool False)]) = Inr ls"
    using echoed_finish by blast
  ultimately show ?thesis
    by (simp add: parse_responses_request_def echoed_payload)
qed

lemmas response_eval = shape_def keys_within_def has_keys_def in_names_def get_def pd_get_or_def pd_get_def RESPONSE_BASIC_def RESPONSE_CONTROLS_def
  is_identifier_def is_string_def stream_string_def ensure_def identifier_ok_def id_char_def ascii_alpha_def is_surrogate_def
  flag_present_def positive_or_none_def unless_none_def text_choice_def echoed_id_def metadata_shape_def reasoning_shape_def lit_def of_char_def

lemma answer_echo: "echo_check sample_json None (sample_answer st items) = Inr ()"
  using echo_parses by (auto simp: echo_check_def sample_answer_def echoed_def get_def pd_get_or_def pd_get_def)

lemma answer_checks:
  assumes "st = (if completed then ''completed'' else ''in_progress'')"
  shows "checks (basic_checks completed (sample_answer st items)) = Inr ()" "checks (control_checks None (sample_answer st items)) = Inr ()"
  using assms by (simp_all add: basic_checks_def control_checks_def sample_answer_def response_eval)

lemma item_accepted:
  assumes "st = (if completed then ''completed'' else ''in_progress'')" and "args = [] \<or> args = file_arguments"
  shows "item_shape completed 512 (PDict (sample_call_item args st)) = Inr (sample_call_item args st)"
  using assms
  by (auto simp: item_shape_def item_kind_def in_set_def set_member_ok_def TOOL_KINDS_def call_shape_def ITEM_COMMON_def sample_call_item_def call_field_def Let_def
    direct_caller_def falsy_flag_def empty_or_none_def is_bool_def file_arguments_def response_eval)

lemma answer_accepted:
  assumes "st = (if completed then ''completed'' else ''in_progress'')" and "items = [] \<or> items = [PDict (sample_call_item file_arguments st)]"
  shows "response_shape sample_json completed 512 None (PDict (sample_answer st items)) = Inr (sample_answer st items)"
proof -
  have "shape (PDict (sample_answer st items)) (RESPONSE_BASIC @ RESPONSE_CONTROLS) [''id'', ''output'', ''status''] = Inr (sample_answer st items)"
    by (simp add: sample_answer_def shape_def keys_within_def has_keys_def in_names_def RESPONSE_BASIC_def RESPONSE_CONTROLS_def pd_get_def)
  moreover have "get (sample_answer st items) ''output'' = PList items" "get (sample_answer st items) ''reasoning'' = PNone"
    by (simp_all add: sample_answer_def get_def pd_get_or_def pd_get_def)
  moreover have "output_shape completed 512 (int (length items)) [] [] items = Inr ()"
    using assms(2) item_accepted [OF assms(1), of file_arguments]
    by (auto simp: sample_call_item_def get_def pd_get_or_def pd_get_def Let_def)
  ultimately show ?thesis
    using answer_checks [OF assms(1)] answer_echo assms(2) by (auto simp: response_shape_def reasoning_shape_def unless_none_def)
qed

subsection \<open>The run\<close>

lemmas run_eval = rm_handle_def rm_kind_def m_event_def get_def pd_get_def pd_get_or_def pd_set_def
    bind_def lift_def ret_def step_if_def guard_def modify_def shape_def keys_within_def has_keys_def in_names_def Let_def
    is_string_def stream_string_def ensure_def is_surrogate_def stream_index_def m_hold_def m_add_item_def m_count_def encoded_length_def
    rm_located_def rm_put_def lit_def of_char_def tool_dict_def TOOL_KINDS_def call_field_def

definition rt1 where "rt1 = rt0\<lparr>mc_mode := Some False, mc_started := True, rm_id := Some (PStr [97])\<rparr>"

lemma run1: "rm_handle sample_stream rv_created rt0 = (Inr [rv_created], rt1)"
proof -
  have "response_shape sample_json False 512 None (PDict (sample_answer ''in_progress'' [])) = Inr (sample_answer ''in_progress'' [])"
    by (rule answer_accepted) simp_all
  then show ?thesis
    by (simp add: run_eval rm_lifecycle_def rv_created_def sample_answer_def rt1_def rt_eval)
qed

definition open_item :: rs_state where "open_item = new_item (sample_call_item [] ''in_progress'')"

definition rt2 where
  "rt2 n = rt1\<lparr>rm_ids := [PStr [105]], rm_calls := [PStr [99]], rm_items := [open_item], mc_total := 1, mc_pending_bytes := n,
     mc_pending := [rv_added]\<rparr>"

lemma run2:
  assumes "size_of sample_json (PDict rv_added) = Inr n" "n \<le> 1000"
  shows "rm_handle sample_stream rv_added rt1 = (Inr [], rt2 n)"
proof -
  have "item_shape False 512 (PDict (sample_call_item [] ''in_progress'')) = Inr (sample_call_item [] ''in_progress'')"
    by (rule item_accepted) simp_all
  with assms show ?thesis
    by (simp add: run_eval rm_item_added_def rm_new_call_def rv_added_def sample_call_item_def rt1_def rt2_def open_item_def rt_eval)
qed

definition rt3 where
  "rt3 n n' = (rt2 n)\<lparr>mc_raw_bytes := 17, rm_items := [open_item\<lparr>it_chunks := [file_arguments]\<rparr>], mc_pending_bytes := n',
     mc_pending := [rv_added, rv_delta]\<rparr>"

lemma run3:
  assumes "size_of sample_json (PDict rv_delta) = Inr n'" "n \<le> 1000" "n' \<le> 1000"
  shows "rm_handle sample_stream rv_delta (rt2 n) = (Inr [], rt3 n (n + n'))"
  using assms
  by (simp add: run_eval rm_arguments_def argument_custom_def argument_delta_def argument_field_def rv_delta_def file_arguments_def
      sample_call_item_def rt1_def rt2_def rt3_def open_item_def new_item_def rt_eval utf8_def utf8_cp_def)

definition args_item :: rs_state where "args_item = open_item\<lparr>it_arguments := file_arguments, it_args_done := True\<rparr>"

definition rt4 where
  "rt4 n n' = (rt3 n n')\<lparr>rm_items := [args_item], mc_pending_bytes := n', mc_pending := [rv_added, rv_delta, rv_args]\<rparr>"

lemma run4:
  assumes "size_of sample_json (PDict rv_args) = Inr k" "n' \<le> 2000" "k \<le> 1000"
  shows "rm_handle sample_stream rv_args (rt3 n n') = (Inr [], rt4 n (n' + k))"
  using assms
  by (simp add: run_eval rm_arguments_def argument_custom_def argument_delta_def argument_field_def rv_args_def file_arguments_def
      sample_call_item_def rt1_def rt2_def rt3_def rt4_def args_item_def open_item_def new_item_def rt_eval utf8_def utf8_cp_def)

definition done_item :: rs_state where
  "done_item = args_item\<lparr>it_final := Some (sample_call_item file_arguments ''completed''), it_done := True\<rparr>"

definition rt5 where
  "rt5 n n' = (rt4 n n')\<lparr>rm_items := [done_item], mc_pending_bytes := n', mc_pending := [rv_added, rv_delta, rv_args, rv_item]\<rparr>"

definition final_call :: pydict where "final_call = sample_call_item file_arguments ''completed''"

lemma snapshots: "item_snapshot False args_item = final_call" "item_snapshot False done_item = final_call"
  by (simp_all add: item_snapshot_def args_item_def done_item_def open_item_def new_item_def final_call_def sample_call_item_def
      tool_dict_def TOOL_KINDS_def in_names_def call_field_def get_def pd_get_or_def pd_get_def pd_set_def Let_def)

lemma final_settled:
  "settled final_call = final_call @ [(str ''internal_chat_message_metadata_passthrough'', PNone), (str ''namespace'', PNone),
     (str ''caller'', PNone), (str ''async'', PBool False), (str ''encrypted_function_args'', PList [])]"
  by (simp add: settled_def pd_default_def final_call_def sample_call_item_def get_def pd_get_or_def pd_get_def pd_set_def Let_def)

lemma py_eq_bool: "py_eq (PBool b) (PBool b)" by (simp add: py_eq.simps [of "PBool b"] numeric_def)

lemma settled_equal: "py_eq (PDict (settled final_call)) (PDict (settled final_call))"
  unfolding final_settled by (simp add: final_call_def sample_call_item_def py_eq_bool)

lemma item_matches:
  assumes "x = args_item \<or> x = done_item"
  shows "compare_item sample_stream (PDict final_call) x = Inr ()"
proof -
  have "item_shape True 512 (PDict final_call) = Inr final_call"
    unfolding final_call_def by (rule item_accepted) simp_all
  moreover have "item_snapshot False x = final_call" using assms snapshots by auto
  moreover have "get (settled final_call) ''type'' \<noteq> str ''message''"
    unfolding final_settled by (simp add: final_call_def sample_call_item_def get_def pd_get_or_def pd_get_def)
  ultimately show ?thesis using settled_equal by (simp add: compare_item_def Let_def ensure_def)
qed

lemma run5:
  assumes "size_of sample_json (PDict rv_item) = Inr k" "n' \<le> 3000" "k \<le> 1000"
  shows "rm_handle sample_stream rv_item (rt4 n n') = (Inr [], rt5 n (n' + k))"
  using assms item_matches [of args_item, unfolded final_call_def]
  by (simp add: run_eval rm_item_done_def rv_item_def
      sample_call_item_def rt1_def rt2_def rt3_def rt4_def rt5_def done_item_def args_item_def open_item_def new_item_def rt_eval)

definition released_item :: rs_state where "released_item = done_item\<lparr>it_restored := Some file_arguments\<rparr>"

lemma released_item_facts: "item_snapshot True released_item = final_call" "restored_arguments released_item = file_arguments"
    "it_raw released_item = sample_call_item [] ''in_progress''"
  by (simp_all add: item_snapshot_def restored_arguments_def released_item_def args_item_def done_item_def open_item_def new_item_def final_call_def
      sample_call_item_def tool_dict_def TOOL_KINDS_def in_names_def call_field_def get_def pd_get_or_def pd_get_def pd_set_def Let_def)

lemma done_item_facts: "tool_dict (it_raw done_item)" "\<not> custom_dict (it_raw done_item)" "rm_name done_item = lit ''Read''" "it_arguments done_item = file_arguments"
    "it_done done_item"
  by (simp_all add: rm_name_def done_item_def args_item_def open_item_def new_item_def
      sample_call_item_def tool_dict_def custom_dict_def TOOL_KINDS_def in_names_def get_def pd_get_or_def pd_get_def)

lemma rt5_fields: "rm_items (rt5 n n') = [done_item]" "mc_pending (rt5 n n') = [rv_added, rv_delta, rv_args, rv_item]"
    "mc_vault (rt5 n n') = sample_stored" "mc_restored_bytes (rt5 n n') = 0" "rm_id (rt5 n n') = Some (PStr [97])"
    "mc_sequenced (rt5 n n') = False" "mc_started (rt5 n n')"
  by (simp_all add: rt5_def rt4_def rt3_def rt2_def rt1_def rt_eval)

lemma response_call_released:
  "\<exists>t. rm_restore_call sample_stream 0 (rt5 n n') = (Inr (), t) \<and> rm_items t = [released_item] \<and> mc_pending t = mc_pending (rt5 n n')
     \<and> \<not> mc_sequenced t"
proof -
  obtain out v' where r: "bound_restore sample_tools read_bound False (lit ''Read'') file_arguments sample_stored = (Done file_arguments out, v')"
    using read_released by blast
  have "encoded_length file_arguments = Inr 17"
    by (simp add: encoded_length_def file_arguments_def utf8_def utf8_cp_def is_surrogate_def lit_def of_char_def)
  with r show ?thesis
    by (simp add: rm_restore_call_def done_item_facts rt5_fields m_restore_tool_def bind_def lift_def rm_put_def modify_def m_count_def m_merge_def
        step_if_def guard_def ret_def released_item_def)
qed

lemma released_events: "rm_released [released_item] [] [rv_added, rv_delta, rv_args, rv_item] = [rv_added, rv_delta, rv_args, rv_item]"
proof -
  have "call_prefix released_item = ''response.function_call_arguments''" "\<not> custom_dict (it_raw released_item)"
    by (simp_all add: call_prefix_def custom_dict_def released_item_facts(3) sample_call_item_def get_def pd_get_or_def pd_get_def)
  then show ?thesis
    by (simp add: released_item_facts rv_added_def rv_delta_def rv_args_def rv_item_def Let_def get_def pd_get_or_def pd_get_def pd_set_def final_call_def)
qed

lemma response_released: "\<exists>t. rm_release sample_stream (rt5 n n') = (Inr [rv_added, rv_delta, rv_args, rv_item], t) \<and> rm_items t = [released_item] \<and> \<not> mc_sequenced t"
proof -
  obtain t where t: "rm_restore_call sample_stream 0 (rt5 n n') = (Inr (), t)" "rm_items t = [released_item]" "mc_pending t = mc_pending (rt5 n n')" "\<not> mc_sequenced t"
    using response_call_released by blast
  have "rm_calls_of [done_item] = [(lit ''Read'', file_arguments, False)]" by (simp add: rm_calls_of_def done_item_facts)
  with t batch_valid released_events show ?thesis
    by (simp add: rm_release_def m_validate_batch_def rt5_fields bind_def ret_def)
qed

definition final_answer :: pydict where "final_answer = sample_answer ''completed'' [PDict final_call]"

lemma answer_size: "\<exists>k. size_of sample_json (PDict final_answer) = Inr k \<and> k \<le> 1000"
  by (auto simp: final_answer_def final_call_def answer_events size_of_def dumps_key_def quoted_def quoted_as_def escape_def lit_def of_char_def
      is_surrogate_def utf8_def utf8_cp_def)

lemma run6: "\<exists>t. rm_handle sample_stream rv_completed (rt5 n n') = (Inr answered', t) \<and> mc_terminal t \<and> \<not> mc_sequenced t"
  if "answered' = [rv_added, rv_delta, rv_args, rv_item, rv_completed]"
proof -
  have e: "m_event rv_completed [''response''] [''response''] (rt5 n n') = (Inr (), rt5 n n')"
    by (simp add: run_eval rv_completed_def rt5_def rt4_def rt3_def rt2_def rt1_def rt_eval)
  have k: "get rv_completed ''type'' = str ''response.completed''" "get rv_completed ''response'' = PDict final_answer"
    by (simp_all add: rv_completed_def get_def pd_get_or_def pd_get_def final_answer_def final_call_def)
  have r: "response_shape sample_json True 512 None (PDict final_answer) = Inr final_answer"
    unfolding final_answer_def final_call_def by (rule answer_accepted) simp_all
  have f: "get final_answer ''id'' = PStr [97]" "get final_answer ''output'' = PList [PDict final_call]"
    "pd_set ''output'' (PList [PDict final_call]) final_answer = final_answer"
    "pd_set ''response'' (PDict final_answer) rv_completed = rv_completed"
    by (simp_all add: final_answer_def sample_answer_def get_def pd_get_or_def pd_get_def pd_set_def rv_completed_def final_call_def)
  obtain t where t: "rm_release sample_stream (rt5 n n') = (Inr [rv_added, rv_delta, rv_args, rv_item], t)" "rm_items t = [released_item]" "\<not> mc_sequenced t"
    using response_released by blast
  obtain z where z: "size_of sample_json (PDict final_answer) = Inr z" "z \<le> 100000" using answer_size by force
  have "rm_completed sample_stream rv_completed (rt5 n n') = (Inr answered', t\<lparr>mc_terminal := True\<rparr>)"
    using that by (simp add: rm_completed_def bind_def lift_def step_if_def guard_def modify_def ret_def e k r f t z released_item_facts item_matches [of done_item]
        rt5_fields done_item_facts Let_def py_items_def)
  moreover have "rm_handle sample_stream rv_completed (rt5 n n') = rm_completed sample_stream rv_completed (rt5 n n')"
    by (simp add: rm_handle_def rm_kind_def in_names_def k bind_def step_if_def guard_def ret_def rt5_fields)
  ultimately show ?thesis using t(3) by simp
qed

lemma response_run:
  "\<exists>ems t. restore_responses_stream sample_stream 2000 [concat (map wire answered)] (outcome_init []) sample_stored = (ems, None, t)
     \<and> events_of ems = answered"
proof -
  obtain fs where fs: "parse_sse 2000 [concat (map wire answered)] = (fs, None)"
    "list_all2 (\<lambda>e f. \<not> se_heartbeat f \<and> payload_of sample_json f = Inr e) answered fs" using events_parsed [OF answered_ascii] by blast
  obtain f1 f2 f3 f4 f5 f6 where f: "fs = [f1, f2, f3, f4, f5, f6]"
    and p: "payload_of sample_json f1 = Inr rv_created" "payload_of sample_json f2 = Inr rv_added" "payload_of sample_json f3 = Inr rv_delta"
      "payload_of sample_json f4 = Inr rv_args" "payload_of sample_json f5 = Inr rv_item" "payload_of sample_json f6 = Inr rv_completed"
    and h: "\<not> se_heartbeat f1" "\<not> se_heartbeat f2" "\<not> se_heartbeat f3" "\<not> se_heartbeat f4" "\<not> se_heartbeat f5" "\<not> se_heartbeat f6"
    using fs(2) by (auto simp: answered_def list_all2_Cons1)
  obtain n2 n3 n4 n5 where n: "size_of sample_json (PDict rv_added) = Inr n2" "size_of sample_json (PDict rv_delta) = Inr n3"
    "size_of sample_json (PDict rv_args) = Inr n4" "size_of sample_json (PDict rv_item) = Inr n5" "n2 \<le> 1000" "n3 \<le> 1000" "n4 \<le> 1000" "n5 \<le> 1000"
    using answered_size [of rv_added] answered_size [of rv_delta] answered_size [of rv_args] answered_size [of rv_item]
    by (auto simp: answered_def)
  obtain t where t: "rm_handle sample_stream rv_completed (rt5 n2 (n2 + n3 + n4 + n5)) = (Inr [rv_added, rv_delta, rv_args, rv_item, rv_completed], t)"
    "mc_terminal t" "\<not> mc_sequenced t" using run6 [OF refl] by blast
  have open_states: "\<not> mc_terminal rt1" "\<not> mc_terminal (rt2 n2)" "\<not> mc_terminal (rt3 n2 m)" "\<not> mc_terminal (rt4 n2 m)" "\<not> mc_terminal (rt5 n2 m)" for m
    by (simp_all add: rt5_def rt4_def rt3_def rt2_def rt1_def rt_eval)
  have enc: "m_encode sample_stream True e s = (Inr (wire e), s)" if "e \<in> set answered" "\<not> mc_sequenced s" for e s
    using ascii_sends answered_ascii that by (auto simp: list_all_iff)
  have q: "\<not> mc_sequenced rt1" by (simp add: rt1_def rt_eval)
  have r4: "rm_handle sample_stream rv_args (rt3 n2 (n2 + n3)) = (Inr [], rt4 n2 (n2 + n3 + n4))"
    by (rule run4 [OF n(3)]) (use n in auto)
  have r5: "rm_handle sample_stream rv_item (rt4 n2 (n2 + n3 + n4)) = (Inr [], rt5 n2 (n2 + n3 + n4 + n5))"
    by (rule run5 [OF n(4)]) (use n in auto)
  have run: "frames sample_stream True (rm_handle sample_stream) fs None [] rt0 =
     ([Event rv_created (wire rv_created)], None, [rv_added, rv_delta, rv_args, rv_item, rv_completed], t)"
    by (simp add: f p h run1 run2 [OF n(1,5)] run3 [OF n(2,5,6)] r4 r5 t open_states enc q answered_def)
  show ?thesis
    using run t(2,3) fs(1) by (auto simp: restore_responses_stream_def stream_result_def rt0_def [symmetric] enc answered_def)
qed

theorem no_response_call_before_success_witness:
  "\<exists>ems t. restore_responses_stream sample_stream 2000 [concat (map wire answered)] (outcome_init []) sample_stored = (ems, None, t)
     \<and> rm_executable rv_args \<and> rv_args \<in> set (events_of ems)
     \<and> (\<exists>i < length (rm_items t). carries (rm_items t ! i) i rv_args)"
proof -
  obtain ems t where r: "restore_responses_stream sample_stream 2000 [concat (map wire answered)] (outcome_init []) sample_stored = (ems, None, t)"
    "events_of ems = answered" using response_run by blast
  have e: "rm_executable rv_args" "get rv_args ''type'' \<noteq> str ''response.completed''"
    by (simp_all add: rm_executable_def argument_kinds_def in_names_def rv_args_def get_def pd_get_or_def pd_get_def)
  have m: "rv_args \<in> set (events_of ems)" by (simp add: r(2) answered_def)
  from no_response_call_before_success [OF r(1) m e(1)] e m r(1) show ?thesis by auto
qed

end
