(* ===== verification/Spec2Isabelle.thy ===== *)
theory Spec2Isabelle
  imports VaultFacts Phones Baltic Custom PipelineProps Access StreamTokens Provider Sse MessagesFacts BoundFacts ResponsesStreamSamples
begin

text \<open>
  Cloakspan, a privacy gateway between applications (or coding agents) and large language models, the
  Python packages \<^verbatim>\<open>src/gateway\<close> and \<^verbatim>\<open>src/recognizers\<close>.  A request is inspected for personal data and
  secrets, a policy decides whether it is allowed, masked, routed to a local model or blocked, what is
  masked is replaced by opaque tokens whose values go into an encrypted vault, and the answer of the
  provider has its own tokens put back: in prose anywhere, in the arguments of a tool call only as a whole
  and only where the tool's grammar keeps the value a single argument.

  \<^bold>\<open>How the parts interact.\<close>  \<open>Pipeline.process\<close> is the chat path: \<open>Preparation.prepare\<close> runs the screening,
  the detectors over the detection view and \<open>resolve_conflicts\<close> on each message, asks \<open>Policy\<close>, and
  builds the outbound payload with \<open>Transform.transform\<close>, which mints tokens (\<open>Tokens\<close>) and writes the
  vault (\<open>Vault\<close>); the provider (\<open>Provider\<close>, \<open>Egress\<close>) is called; \<open>Restoration.restore\<close> walks the
  answer; one audit event is written.  The agent path decodes a Messages or a Responses request into a
  rebuilt payload and the list of its string locations (\<open>ProtocolBase\<close>, \<open>Messages\<close>, \<open>Responses\<close>),
  binds the tools it declares (\<open>ToolSchema\<close>, \<open>Bound\<close>), and feeds the answer, whole (\<open>BufferedRestore\<close>) or as server-sent events (\<open>Sse\<close>,
  \<open>RestoreStream\<close>),
  through the visitors and the state machine of its protocol; prose goes through \<open>StreamTokens\<close>, the
  arguments of a call through \<open>Bound\<close> and \<open>Registry\<close>, and from there through the grammars of patterns,
  shell commands and patches (\<open>Search\<close>, \<open>Shell\<close>, \<open>Patches\<close>).

  \<^bold>\<open>Theories and source files\<close> (below \<^verbatim>\<open>src/gateway\<close> unless another root is given).

  Foundations.
  \<^item> \<open>Prelude\<close>: text as lists of code points, bytes, slices, insertion-ordered dictionaries, \<open>'a res\<close> (an
    exception or a value), collections of simplification rules.  \<open>PyVal\<close>: values of unknown type.  \<open>PyText\<close>,
    \<open>Utf8\<close>, \<open>Json\<close>, \<open>Regex\<close>, \<open>Sha256\<close>, \<open>NetAddr\<close>: what the code uses of the standard library.  \<open>Effects\<close>:
    computations with a state that may raise.  \<open>Samples\<close>: concrete parameters for the witnesses.
  \<^item> \<open>Domain\<close>: \<^verbatim>\<open>domain.py\<close>.  \<open>Tokens\<close>, \<open>TokenScan\<close>: \<^verbatim>\<open>transformations/tokens.py\<close>, with \<open>derive_key\<close> of
    \<^verbatim>\<open>crypto.py\<close> in \<open>Access\<close>.

  Detection.
  \<^item> \<open>Conflicts\<close>: \<^verbatim>\<open>detectors/base.py\<close>.  \<open>View\<close>: \<^verbatim>\<open>normalization/view.py\<close>, \<^verbatim>\<open>normalization/confusables.py\<close>.
    \<open>Screening\<close>: \<^verbatim>\<open>normalization/screening.py\<close>.
  \<^item> \<open>Detectors\<close>: \<^verbatim>\<open>detectors/deterministic.py\<close>, \<^verbatim>\<open>src/recognizers/secrets/detectors.py\<close>.  \<open>Phones\<close>, \<open>Baltic\<close>:
    \<^verbatim>\<open>src/recognizers/baltic\<close>.  \<open>Custom\<close>: \<^verbatim>\<open>src/recognizers/custom\<close>.

  Policy, vault and the chat path.
  \<^item> \<open>Policy\<close>: \<^verbatim>\<open>policy/engine.py\<close>, \<^verbatim>\<open>policy/local_routing.py\<close>.  \<open>Vault\<close>, \<open>VaultFacts\<close>: \<^verbatim>\<open>vault/store.py\<close>.
    \<open>Restoration\<close>, \<open>RestorationFacts\<close>: \<^verbatim>\<open>restoration/engine.py\<close>.  \<open>Transform\<close>: \<^verbatim>\<open>transformations/engine.py\<close>.
  \<^item> \<open>Schema\<close>: \<^verbatim>\<open>api/schema.py\<close>.  \<open>Preparation\<close>: \<^verbatim>\<open>inspection/preparation.py\<close>.  \<open>Pipeline\<close>, \<open>PipelineFacts\<close>,
    \<open>PipelineProps\<close>: \<^verbatim>\<open>inspection/pipeline.py\<close>.  \<open>AuditLog\<close>: \<^verbatim>\<open>audit/events.py\<close>.
  \<^item> \<open>Access\<close>: \<^verbatim>\<open>auth/keys.py\<close>, \<^verbatim>\<open>sessions/scope.py\<close>, \<^verbatim>\<open>crypto.py\<close>.  \<open>Egress\<close>: \<^verbatim>\<open>routing/egress.py\<close>.
    \<open>Provider\<close>: \<^verbatim>\<open>routing/base.py\<close>.

  The agent path.
  \<^item> \<open>ProtocolBase\<close>, \<open>ProtocolFacts\<close>, \<open>JsonFacts\<close>: \<^verbatim>\<open>protocols/base.py\<close>.  \<open>Messages\<close>, \<open>MessagesFacts\<close>:
    \<^verbatim>\<open>protocols/messages.py\<close>.  \<open>Responses\<close>, \<open>ResponsesFacts\<close>: \<^verbatim>\<open>protocols/responses.py\<close>.
  \<^item> \<open>Search\<close>, \<open>Shell\<close>, \<open>Patches\<close>: \<^verbatim>\<open>tools/search.py\<close>, \<^verbatim>\<open>tools/shell.py\<close>, \<^verbatim>\<open>tools/patches.py\<close>.  \<open>Registry\<close>,
    \<open>RegistryFacts\<close>, \<open>RegistrySamples\<close>: \<^verbatim>\<open>tools/registry.py\<close>.  \<open>ToolSchema\<close>, \<open>SchemaFacts\<close>, \<open>Bound\<close>,
    \<open>BoundFacts\<close>: \<^verbatim>\<open>tools/bound.py\<close>.
  \<^item> \<open>StreamTokens\<close>: \<^verbatim>\<open>streaming/tokens.py\<close>.  \<open>Sse\<close>: \<^verbatim>\<open>streaming/sse.py\<close>.  \<^verbatim>\<open>streaming/protocols.py\<close> is
    \<open>ProviderShapes\<close> and \<open>ResponseShapes\<close> (the visitors), \<open>StreamMachine\<close>, \<open>MessagesStream\<close>,
    \<open>ResponsesStream\<close> (the machines), \<open>RestoreStream\<close> (the driver) and \<open>BufferedRestore\<close> (whole responses).

  \<^bold>\<open>State.\<close>  A class with mutable fields is a record returned updated: the vault with its backend, the
  provenance of a request, the restoration counters, the key store, the SSE parser, the stream machines
  (\<open>machine\<close>, extended by each protocol's own fields), the audit sink.  Each name keeps the source's name where
  Isabelle allows it.  An exception is a value of \<open>exn\<close>, whose constructors are the source's classes, and an
  operation that changes its state before it raises returns both.  A dictionary whose order is observable is
  an association list, one whose order is not a map.

  \<^bold>\<open>What the lemmas show.\<close>
  \<^item> Tokens and vault: tokens are found by \<open>TOKEN_PATTERN\<close> exactly where the recogniser of \<open>TokenScan\<close> finds
    them; a value is read back only in the context it was stored in, in its retention, until it is erased; the
    backend contract is the locale \<open>vault_backend\<close>, interpreted on the in-memory backend (\<open>mem\<close>).
  \<^item> Restoration: only tokens of the request's own provenance are replaced, each by its own value, within the
    budget; it inverts \<open>transform\<close>; the incremental form gives, chunk for chunk, what the buffered form gives.
  \<^item> Detection: the view covers the original, \<open>resolve_conflicts\<close> agrees with a quadratic reference, every
    detector meets the locale \<open>detector_contract\<close> (its interpretations are \<open>email\<close>, \<open>iban\<close>, \<open>card\<close>, \<open>ip\<close>,
    \<open>secrets\<close>, \<open>phone\<close> and \<open>personal_codes\<close>).
  \<^item> Pipeline: a failed inspection and a blocking decision forward nothing, the local-routing floor holds, the
    provider receives the payload with exactly the detected spans masked, one event is audited (the sink's
    contract is the locale \<open>audit_sink\<close>).
  \<^item> Protocols: every string of an accepted payload is inspected, prompt texts as content; \<open>json.loads\<close>
    inverts \<open>json.dumps\<close>; replacing a location touches no other.
  \<^item> Tools: an accepted schema is bounded and its matching total; a released call was declared and fits its
    schema; the words of a shell command, the operations of a patch and the paths of a call are those of the
    masked call with values in place; a path validator is the locale \<open>local_paths\<close>, interpreted on the
    registry's (\<open>registry_paths\<close>).
  \<^item> Streams: the chunking of the transport does not matter; no event of an executable call leaves before the
    stream has ended in success, and then it is the one the registry released.  The contract between the
    driver and a machine is the locale \<open>stream_machine\<close>, interpreted on both (\<open>mm\<close>, \<open>rs\<close>).

  \<^bold>\<open>Bounds and fuel.\<close>  Two loops run on fuel.  The JSON scanner has two units a character and two more
  (\<open>json_fuel\<close>; \<open>parse_value_fuel\<close>: more changes nothing).  A repetition of a regular expression has as
  many units as the text has characters plus its minimum, since an empty iteration is not repeated.  Every
  other loop is structural or has a termination proof; the compilation of a tool schema counts the source's
  own depth (16) and node (512) budgets.  The source's limits (\<open>MAX_COLLECTION\<close>, \<open>MAX_ITEMS\<close>,
  \<open>MAX_MESSAGES\<close>, the sizes of frames, streams, arguments) are definitions or fields with the source's
  values, and reaching one is a branch that raises.  Python's integers are \<open>int\<close>; the words of SHA-256 are
  32-bit words and wrap.

  \<^bold>\<open>Parameters.\<close>  Code outside the repository is an argument: AES-GCM with the codec of the vault payload
  (\<open>aead_ok\<close>: decryption inverts encryption under the same key and associated data), HKDF, \<open>unicodedata\<close>
  (record \<open>ucd\<close>), the YAML loader, pydantic's verdict on a field, customer patterns compiled by \<open>re\<close>, the
  resolver and the registry flags of an address, the HTTP exchange, \<open>Path.resolve\<close> and the files it
  looks at, clocks and random bytes.  Properties that rely on one of them state what they rely on as a
  hypothesis, and their witnesses instantiate it (\<open>Samples\<close>, \<open>RegistrySamples\<close>, \<open>StreamSamples\<close>,
  \<open>ResponsesStreamSamples\<close>).

  \<^bold>\<open>Not modelled.\<close>  The web application and its handlers, configuration from the environment, the command
  line, the named-entity models (third-party inference), the diagnostics and the playground (worker
  processes, HTTP probes, pages), evaluation data and the release scripts: they are wiring and I/O around
  the parts above.  Of the modelled files, what is left out is logging, TLS and client pools, the closing
  of connections, the cancellation of asynchronous generators, and elapsed times that are only reported.
\<close>

end
